(* ===== verification/Xv6_Prelude.thy ===== *)
theory Xv6_Prelude
  imports Main "HOL-Library.Word"
begin

text \<open>
  The vocabulary shared by every component of the model of the xv6 kernel:
  the C integer types, the outcome type of kernel code, the two loop
  combinators the components use (a \<open>for\<close> loop over an index range with early
  return, and a \<open>while\<close> loop that follows a linked list), and the generic lemmas
  about them.  Nothing in this theory models a particular source file.
\<close>

named_theorems res_simps \<open>unfolding of the outcome monad\<close>

section \<open>C types\<close>

type_synonym uint = "32 word"
type_synonym ushort = "16 word"
type_synonym byte = "8 word"

text \<open>A pointer into a statically allocated table is the index of the entry; NULL is None.\<close>

type_synonym ptr = "nat option"

text \<open>The value of a C \<open>int\<close> is kept as \<open>int\<close>; a conversion to \<open>int\<close> reads the 32 bits signed.\<close>

definition int_of :: "uint \<Rightarrow> int" where
  "int_of w = sint w"

lemma unat_uint_less: "unat (w :: uint) < 2 ^ 32"
  using unsigned_less[of w, where ?'a = nat] by simp

lemma unat_uint_le: "unat (w :: uint) \<le> 2 ^ 32"
  using unat_uint_less by (rule less_imp_le)

lemma unat_of_nat_uint: "n < 2 ^ 32 \<Longrightarrow> unat (of_nat n :: uint) = n"
  by (simp add: unat_of_nat)

lemma unat_diff_uint:
  "unat (x - y :: uint) = (if unat y \<le> unat x then unat x - unat y else unat x + 2 ^ 32 - unat y)"
  using unat_sub_if_size[of x y] by (simp add: word_size)

lemma int_of_nonneg:
  assumes "0 \<le> int_of w"
  shows "int_of w = int (unat w)"
proof -
  have "sint w < 2 ^ 31" using sint_less[of w] by simp
  then have "take_bit 32 (sint w) = sint w" using assms by (intro take_bit_int_eq_self) (auto simp: int_of_def)
  then show ?thesis using uint_sint[of w] by (simp add: int_of_def)
qed

lemma int_of_small: "unat w < 2 ^ 31 \<Longrightarrow> int_of w = int (unat w)"
  by (simp add: int_of_def sint_uint signed_take_bit_eq_if_positive bit_iff_odd div_eq_0_iff
      take_bit_int_eq_self flip: nat_uint_eq)

section \<open>Outcomes of kernel code\<close>

text \<open>
  \<open>Ok\<close>: the code ran to its end with this result.  \<open>Panic\<close>: it called \<open>panic\<close> with this
  message.  \<open>Fault\<close>: it dereferenced a NULL pointer or indexed an array out of
  range.  \<open>Hang\<close>: it does not return (it spins on a lock or loops forever).
\<close>

datatype 'a res = Ok 'a | Panic string | Fault | Hang

fun rbind :: "'a res \<Rightarrow> ('a \<Rightarrow> 'b res) \<Rightarrow> 'b res" where
  "rbind (Ok x) f = f x"
| "rbind (Panic e) f = Panic e"
| "rbind Fault f = Fault"
| "rbind Hang f = Hang"

lemma rbind_assoc [simp]: "rbind (rbind m f) g = rbind m (\<lambda>x. rbind (f x) g)"
  by (cases m) auto

lemma rbind_Ok_right [simp]: "rbind m Ok = m"
  by (cases m) auto

lemma rbind_eq_Ok_iff: "rbind m f = Ok y \<longleftrightarrow> (\<exists>x. m = Ok x \<and> f x = Ok y)"
  by (cases m) auto

lemma rbind_OkE [elim]:
  assumes "rbind m f = Ok y"
  obtains x where "m = Ok x" "f x = Ok y"
  using assms by (auto simp: rbind_eq_Ok_iff)

lemma rbind_cong [fundef_cong]:
  "m = m' \<Longrightarrow> (\<And>x. m' = Ok x \<Longrightarrow> f x = f' x) \<Longrightarrow> rbind m f = rbind m' f'"
  by (cases m') auto

definition guard :: "bool \<Rightarrow> string \<Rightarrow> 's \<Rightarrow> 's res" where
  "guard b e s = (if b then Ok s else Panic e)"

lemma guard_simps [simp]:
  "guard True e s = Ok s"
  "guard False e s = Panic e"
  "b \<Longrightarrow> guard b e s = Ok s"
  by (simp_all add: guard_def)

text \<open>Dereference of a pointer that may be NULL.\<close>

definition deref :: "ptr \<Rightarrow> (nat \<Rightarrow> 'a res) \<Rightarrow> 'a res" where
  "deref p f = (case p of None \<Rightarrow> Fault | Some i \<Rightarrow> f i)"

lemma deref_simps [simp]: "deref None f = Fault" "deref (Some i) f = f i"
  by (simp_all add: deref_def)

section \<open>Loops\<close>

text \<open>
  \<open>for (i \<in> is) body\<close> with early return: the body returns \<open>Some r\<close> to leave the
  function with \<open>r\<close> and \<open>None\<close> to continue with the next index.
\<close>

fun for_each :: "('i \<Rightarrow> 's \<Rightarrow> ('r option \<times> 's) res) \<Rightarrow> 'i list \<Rightarrow> 's \<Rightarrow> ('r option \<times> 's) res" where
  "for_each f [] s = Ok (None, s)"
| "for_each f (i # is) s =
     rbind (f i s) (\<lambda>(r, s'). case r of None \<Rightarrow> for_each f is s' | Some x \<Rightarrow> Ok (Some x, s'))"

text \<open>
  \<open>while (p) body\<close> over a linked list: the body is given the node, and returns
  either a value to leave the function with, or the next pointer.  A list that
  never ends is a loop that never returns, which is \<open>None\<close> of the partial
  function and \<open>Hang\<close> of \<open>walk\<close>.
\<close>

partial_function (option) walk_opt ::
  "(nat \<Rightarrow> 's \<Rightarrow> ('r option \<times> ptr \<times> 's) res) \<Rightarrow> ptr \<Rightarrow> 's \<Rightarrow> ('r option \<times> 's) res option" where
  "walk_opt body p s =
     (case p of
        None \<Rightarrow> Some (Ok (None, s))
      | Some i \<Rightarrow>
          (case body i s of
             Ok (r, q, s') \<Rightarrow>
               (case r of None \<Rightarrow> walk_opt body q s' | Some x \<Rightarrow> Some (Ok (Some x, s')))
           | Panic e \<Rightarrow> Some (Panic e)
           | Fault \<Rightarrow> Some Fault
           | Hang \<Rightarrow> Some Hang))"

definition walk ::
  "(nat \<Rightarrow> 's \<Rightarrow> ('r option \<times> ptr \<times> 's) res) \<Rightarrow> ptr \<Rightarrow> 's \<Rightarrow> ('r option \<times> 's) res" where
  "walk body p s = (case walk_opt body p s of None \<Rightarrow> Hang | Some r \<Rightarrow> r)"

lemma walk_None [simp]: "walk body None s = Ok (None, s)"
  by (simp add: walk_def walk_opt.simps)

lemma walk_Some:
  "walk body (Some i) s =
     rbind (body i s) (\<lambda>(r, q, s'). case r of None \<Rightarrow> walk body q s' | Some x \<Rightarrow> Ok (Some x, s'))"
  by (subst walk_def, subst walk_opt.simps)
     (auto simp: walk_def split: res.splits option.splits)

text \<open>The pointer a linked list with these nodes starts with.\<close>

fun hd_ptr :: "nat list \<Rightarrow> ptr" where
  "hd_ptr [] = None"
| "hd_ptr (x # xs) = Some x"

lemma hd_ptr_eq_None [simp]: "hd_ptr xs = None \<longleftrightarrow> xs = []"
  by (cases xs) auto

lemma hd_ptr_eq_Some: "hd_ptr xs = Some x \<longleftrightarrow> (\<exists>ys. xs = x # ys)"
  by (cases xs) auto

lemma hd_ptr_append: "hd_ptr (xs @ ys) = (if xs = [] then hd_ptr ys else hd_ptr xs)"
  by (cases xs) auto

text \<open>
  The rule for a list walk: an invariant indexed by the nodes still to be
  visited, and a postcondition for the early return.
\<close>

lemma walk_rule:
  assumes "I xs s"
    and "\<And>x xs s. I (x # xs) s \<Longrightarrow>
           (\<exists>s'. body x s = Ok (None, hd_ptr xs, s') \<and> I xs s') \<or>
           (\<exists>r q s'. body x s = Ok (Some r, q, s') \<and> Q r s')"
  shows "(\<exists>s'. walk body (hd_ptr xs) s = Ok (None, s') \<and> I [] s') \<or>
         (\<exists>r s'. walk body (hd_ptr xs) s = Ok (Some r, s') \<and> Q r s')"
  using assms(1)
proof (induction xs arbitrary: s)
  case Nil
  then show ?case by simp
next
  case (Cons x xs)
  from assms(2)[OF Cons.prems] show ?case
  proof (elim disjE exE conjE)
    fix s' assume "body x s = Ok (None, hd_ptr xs, s')" and I: "I xs s'"
    then show ?thesis using Cons.IH[OF I] by (simp add: walk_Some)
  next
    fix r q s' assume "body x s = Ok (Some r, q, s')" "Q r s'"
    then show ?thesis by (simp add: walk_Some)
  qed
qed

text \<open>A walk whose body never leaves early.\<close>

lemma walk_run:
  assumes "I xs s"
    and "\<And>x xs s. I (x # xs) s \<Longrightarrow> \<exists>s'. body x s = Ok (None, hd_ptr xs, s') \<and> I xs s'"
  shows "\<exists>s'. walk body (hd_ptr xs) s = Ok (None, s') \<and> I [] s'"
  using walk_rule[of I xs s body "\<lambda>_ _. False"] assms by blast

lemma for_each_append:
  "for_each f (xs @ ys) s =
     rbind (for_each f xs s) (\<lambda>(r, s'). case r of None \<Rightarrow> for_each f ys s' | Some x \<Rightarrow> Ok (Some x, s'))"
proof (induction xs arbitrary: s)
  case Nil
  then show ?case by simp
next
  case (Cons x xs)
  show ?case
    by (cases "f x s") (auto simp: Cons.IH split: option.splits)
qed

text \<open>The rule for a \<open>for\<close> loop, in the same form.\<close>

lemma for_each_rule:
  assumes "I is s"
    and "\<And>i is s. I (i # is) s \<Longrightarrow>
           (\<exists>s'. f i s = Ok (None, s') \<and> I is s') \<or> (\<exists>r s'. f i s = Ok (Some r, s') \<and> Q r s')"
  shows "(\<exists>s'. for_each f is s = Ok (None, s') \<and> I [] s') \<or>
         (\<exists>r s'. for_each f is s = Ok (Some r, s') \<and> Q r s')"
  using assms(1)
proof (induction "is" arbitrary: s)
  case Nil
  then show ?case by simp
next
  case (Cons i "is")
  from assms(2)[OF Cons.prems] show ?case
    using Cons.IH by fastforce
qed

lemma for_each_run:
  assumes "I is s"
    and "\<And>i is s. I (i # is) s \<Longrightarrow> \<exists>s'. f i s = Ok (None, s') \<and> I is s'"
  shows "\<exists>s'. for_each f is s = Ok (None, s') \<and> I [] s'"
  using for_each_rule[of I "is" s f "\<lambda>_ _. False"] assms by blast

text \<open>A \<open>while\<close> loop over an arbitrary state; it may not return.\<close>

partial_function (option) while_opt :: "('s \<Rightarrow> bool) \<Rightarrow> ('s \<Rightarrow> 's res) \<Rightarrow> 's \<Rightarrow> 's res option" where
  "while_opt b f s =
     (if b s
      then (case f s of
              Ok s' \<Rightarrow> while_opt b f s'
            | Panic e \<Rightarrow> Some (Panic e)
            | Fault \<Rightarrow> Some Fault
            | Hang \<Rightarrow> Some Hang)
      else Some (Ok s))"

definition while_res :: "('s \<Rightarrow> bool) \<Rightarrow> ('s \<Rightarrow> 's res) \<Rightarrow> 's \<Rightarrow> 's res" where
  "while_res b f s = (case while_opt b f s of None \<Rightarrow> Hang | Some r \<Rightarrow> r)"

lemma while_res_unfold: "while_res b f s = (if b s then rbind (f s) (while_res b f) else Ok s)"
  by (subst while_res_def, subst while_opt.simps) (auto simp: while_res_def split: res.splits)

text \<open>Total correctness: an invariant and a measure.\<close>

lemma while_res_rule:
  fixes M :: "'s \<Rightarrow> nat"
  assumes "I s"
    and "\<And>s. I s \<Longrightarrow> b s \<Longrightarrow> \<exists>s'. f s = Ok s' \<and> I s' \<and> M s' < M s"
  shows "\<exists>s'. while_res b f s = Ok s' \<and> I s' \<and> \<not> b s'"
  using assms(1)
proof (induction "M s" arbitrary: s rule: less_induct)
  case less
  show ?case
  proof (cases "b s")
    case True
    with assms(2) less.prems obtain s' where "f s = Ok s'" "I s'" "M s' < M s" by blast
    with less.hyps True show ?thesis by (subst while_res_unfold) auto
  next
    case False
    with less.prems show ?thesis by (subst while_res_unfold) simp
  qed
qed

text \<open>
  \<open>for(;;) body\<close>: the body returns \<open>Inl r\<close> to leave the loop with \<open>r\<close>, \<open>Inr s\<close> to go round
  again.
\<close>

partial_function (option) loop_opt :: "('s \<Rightarrow> ('r + 's) res) \<Rightarrow> 's \<Rightarrow> 'r res option" where
  "loop_opt f s =
     (case f s of
        Ok x \<Rightarrow> (case x of Inl r \<Rightarrow> Some (Ok r) | Inr s' \<Rightarrow> loop_opt f s')
      | Panic e \<Rightarrow> Some (Panic e)
      | Fault \<Rightarrow> Some Fault
      | Hang \<Rightarrow> Some Hang)"

definition loop_res :: "('s \<Rightarrow> ('r + 's) res) \<Rightarrow> 's \<Rightarrow> 'r res" where
  "loop_res f s = (case loop_opt f s of None \<Rightarrow> Hang | Some r \<Rightarrow> r)"

lemma loop_res_unfold:
  "loop_res f s = rbind (f s) (\<lambda>x. case x of Inl r \<Rightarrow> Ok r | Inr s' \<Rightarrow> loop_res f s')"
  by (subst loop_res_def, subst loop_opt.simps) (auto simp: loop_res_def split: res.splits sum.splits)

lemma loop_res_rule:
  fixes M :: "'s \<Rightarrow> nat"
  assumes "I s"
    and "\<And>s. I s \<Longrightarrow> (\<exists>r. f s = Ok (Inl r) \<and> R r) \<or> (\<exists>s'. f s = Ok (Inr s') \<and> I s' \<and> M s' < M s)"
  shows "\<exists>r. loop_res f s = Ok r \<and> R r"
  using assms(1)
proof (induction "M s" arbitrary: s rule: less_induct)
  case less
  from assms(2)[OF less.prems] show ?case
    using less.hyps by (subst loop_res_unfold) fastforce
qed

end
