(* ===== verification/Mmu.thy ===== *)
theory Mmu
  imports Xv6_Prelude
begin

unbundle bit_operations_syntax

text \<open>
  The constants, macros and descriptor types of \<open>mmu.h\<close>, \<open>memlayout.h\<close> and \<open>param.h\<close>
  the kernel components share: page rounding, the split of a virtual address into
  directory index, table index and offset, page-table entries, and segment and
  gate descriptors.
\<close>

section \<open>param.h, memlayout.h\<close>

definition NPROC :: nat where "NPROC = 64"
definition KSTACKSIZE :: uint where "KSTACKSIZE = 4096"
definition NCPU :: nat where "NCPU = 8"
definition NOFILE :: nat where "NOFILE = 16"
definition NFILE :: nat where "NFILE = 100"
definition NINODE :: nat where "NINODE = 50"
definition NDEV :: nat where "NDEV = 10"
definition ROOTDEV :: uint where "ROOTDEV = 1"
definition MAXARG :: nat where "MAXARG = 32"
definition MAXOPBLOCKS :: nat where "MAXOPBLOCKS = 10"
definition LOGSIZE :: nat where "LOGSIZE = MAXOPBLOCKS * 3"
definition NBUF :: nat where "NBUF = MAXOPBLOCKS * 3"
definition FSSIZE :: uint where "FSSIZE = 2000"

definition EXTMEM :: uint where "EXTMEM = 0x100000"
definition PHYSTOP :: uint where "PHYSTOP = 0xE000000"
definition DEVSPACE :: uint where "DEVSPACE = 0xFE000000"
definition KERNBASE :: uint where "KERNBASE = 0x80000000"
definition KERNLINK :: uint where "KERNLINK = KERNBASE + EXTMEM"
definition V2P :: "uint \<Rightarrow> uint" where "V2P a = a - KERNBASE"
definition P2V :: "uint \<Rightarrow> uint" where "P2V a = a + KERNBASE"

section \<open>mmu.h: pages\<close>

definition NPDENTRIES :: nat where "NPDENTRIES = 1024"
definition NPTENTRIES :: nat where "NPTENTRIES = 1024"
definition PGSIZE :: uint where "PGSIZE = 4096"
definition PTXSHIFT :: nat where "PTXSHIFT = 12"
definition PDXSHIFT :: nat where "PDXSHIFT = 22"

definition PDX :: "uint \<Rightarrow> uint" where "PDX va = drop_bit PDXSHIFT va AND 0x3FF"
definition PTX :: "uint \<Rightarrow> uint" where "PTX va = drop_bit PTXSHIFT va AND 0x3FF"
definition PGADDR :: "uint \<Rightarrow> uint \<Rightarrow> uint \<Rightarrow> uint" where
  "PGADDR d t off = push_bit PDXSHIFT d OR push_bit PTXSHIFT t OR off"

definition PGROUNDUP :: "uint \<Rightarrow> uint" where "PGROUNDUP sz = (sz + PGSIZE - 1) AND NOT (PGSIZE - 1)"
definition PGROUNDDOWN :: "uint \<Rightarrow> uint" where "PGROUNDDOWN a = a AND NOT (PGSIZE - 1)"

definition PTE_P :: uint where "PTE_P = 0x001"
definition PTE_W :: uint where "PTE_W = 0x002"
definition PTE_U :: uint where "PTE_U = 0x004"

definition PTE_ADDR :: "uint \<Rightarrow> uint" where "PTE_ADDR pte = pte AND NOT 0xFFF"
definition PTE_FLAGS :: "uint \<Rightarrow> uint" where "PTE_FLAGS pte = pte AND 0xFFF"

section \<open>mmu.h: segments and gates\<close>

definition FL_IF :: uint where "FL_IF = 0x200"
definition SEG_KCODE :: nat where "SEG_KCODE = 1"
definition SEG_KDATA :: nat where "SEG_KDATA = 2"
definition SEG_UCODE :: nat where "SEG_UCODE = 3"
definition SEG_UDATA :: nat where "SEG_UDATA = 4"
definition SEG_TSS :: nat where "SEG_TSS = 5"
definition DPL_USER :: uint where "DPL_USER = 3"
definition STA_X :: uint where "STA_X = 0x8"
definition STA_W :: uint where "STA_W = 0x2"
definition STA_R :: uint where "STA_R = 0x2"
definition STS_T32A :: uint where "STS_T32A = 0x9"
definition STS_IG32 :: uint where "STS_IG32 = 0xE"
definition STS_TG32 :: uint where "STS_TG32 = 0xF"

record segdesc =
  lim_15_0 :: "16 word"
  base_15_0 :: "16 word"
  base_23_16 :: "8 word"
  sd_type :: "4 word"
  sd_s :: "1 word"
  sd_dpl :: "2 word"
  sd_p :: "1 word"
  lim_19_16 :: "4 word"
  sd_avl :: "1 word"
  sd_rsv1 :: "1 word"
  sd_db :: "1 word"
  sd_g :: "1 word"
  base_31_24 :: "8 word"

definition SEG :: "uint \<Rightarrow> uint \<Rightarrow> uint \<Rightarrow> uint \<Rightarrow> segdesc" where
  "SEG ty base lim dpl =
     \<lparr> lim_15_0 = ucast (drop_bit 12 lim AND 0xffff), base_15_0 = ucast (base AND 0xffff),
       base_23_16 = ucast (drop_bit 16 base AND 0xff), sd_type = ucast ty, sd_s = 1,
       sd_dpl = ucast dpl, sd_p = 1,
       lim_19_16 = ucast (drop_bit 28 lim), sd_avl = 0, sd_rsv1 = 0, sd_db = 1, sd_g = 1,
       base_31_24 = ucast (drop_bit 24 base) \<rparr>"

definition SEG16 :: "uint \<Rightarrow> uint \<Rightarrow> uint \<Rightarrow> uint \<Rightarrow> segdesc" where
  "SEG16 ty base lim dpl =
     \<lparr> lim_15_0 = ucast (lim AND 0xffff), base_15_0 = ucast (base AND 0xffff),
       base_23_16 = ucast (drop_bit 16 base AND 0xff), sd_type = ucast ty, sd_s = 1,
       sd_dpl = ucast dpl, sd_p = 1,
       lim_19_16 = ucast (drop_bit 16 lim), sd_avl = 0, sd_rsv1 = 0, sd_db = 1, sd_g = 0,
       base_31_24 = ucast (drop_bit 24 base) \<rparr>"

record gatedesc =
  off_15_0 :: "16 word"
  gd_cs :: "16 word"
  gd_args :: "5 word"
  gd_rsv1 :: "3 word"
  gd_type :: "4 word"
  gd_s :: "1 word"
  gd_dpl :: "2 word"
  gd_p :: "1 word"
  off_31_16 :: "16 word"

definition SETGATE :: "bool \<Rightarrow> uint \<Rightarrow> uint \<Rightarrow> uint \<Rightarrow> gatedesc" where
  "SETGATE istrap sel off d =
     \<lparr> off_15_0 = ucast (off AND 0xffff), gd_cs = ucast sel, gd_args = 0, gd_rsv1 = 0,
       gd_type = ucast (if istrap then STS_TG32 else STS_IG32), gd_s = 0, gd_dpl = ucast d,
       gd_p = 1, off_31_16 = ucast (drop_bit 16 off) \<rparr>"

section \<open>Facts about the page macros\<close>

lemmas page_defs = PGSIZE_def PTXSHIFT_def PDXSHIFT_def

definition page_aligned :: "uint \<Rightarrow> bool" where
  "page_aligned a \<longleftrightarrow> unat a mod 4096 = 0"

lemma mask12: "(0xFFF :: uint) = mask 12" and mask10: "(0x3FF :: uint) = mask 10"
  by (simp_all add: mask_eq_exp_minus_1)

lemma PGROUNDDOWN_mask: "PGROUNDDOWN a = a AND NOT (mask 12)"
  by (simp add: PGROUNDDOWN_def PGSIZE_def mask_eq_exp_minus_1)

lemma and_not_mask12: "a AND NOT (mask 12) = push_bit 12 (drop_bit 12 (a :: uint))"
  by (rule bit_word_eqI) (auto simp: bit_simps)

lemma unat_PGROUNDDOWN: "unat (PGROUNDDOWN a) = unat a div 4096 * 4096"
proof -
  have "unat a div 4096 * 4096 \<le> unat a" by simp
  then have "unat a div 4096 * 4096 < 2 ^ 32" using unat_uint_less[of a] by linarith
  then show ?thesis
    by (simp add: PGROUNDDOWN_mask and_not_mask12 push_bit_eq_mult unat_word_ariths unat_drop_bit_eq
        drop_bit_eq_div mult.commute)
qed

lemma PGROUNDDOWN_aligned: "page_aligned (PGROUNDDOWN a)"
  by (simp add: page_aligned_def unat_PGROUNDDOWN)

lemma PGROUNDUP_down: "PGROUNDUP a = PGROUNDDOWN (a + 4095)"
  by (simp add: PGROUNDUP_def PGROUNDDOWN_def PGSIZE_def add.commute)

lemma PGROUNDUP_aligned: "page_aligned (PGROUNDUP a)"
  by (simp add: PGROUNDUP_down PGROUNDDOWN_aligned)

lemma unat_PGROUNDUP:
  "unat a + 4095 < 2 ^ 32 \<Longrightarrow> unat (PGROUNDUP a) = (unat a + 4095) div 4096 * 4096"
  by (simp add: PGROUNDUP_down unat_PGROUNDDOWN unat_word_ariths)

lemma PGROUNDDOWN_id: "page_aligned a \<Longrightarrow> PGROUNDDOWN a = a"
  using div_mult_mod_eq[of "unat a" 4096] by (simp add: word_unat_eq_iff unat_PGROUNDDOWN page_aligned_def)

lemma unat_PDX: "unat (PDX va) = unat va div 2 ^ 22"
proof -
  have "PDX va = drop_bit 22 va"
    unfolding PDX_def mask10 PDXSHIFT_def by (rule bit_word_eqI) (auto simp: bit_simps dest: bit_imp_le_length)
  then show ?thesis by (simp add: drop_bit_eq_div unat_div)
qed

lemma unat_PTX: "unat (PTX va) = unat va div 2 ^ 12 mod 1024"
  unfolding PTX_def mask10 PTXSHIFT_def take_bit_eq_mask [symmetric]
  by (simp add: take_bit_eq_mod drop_bit_eq_div unat_mod unat_div)

lemma PDX_less: "unat (PDX va) < NPDENTRIES"
  using unat_uint_less[of va] by (simp add: unat_PDX NPDENTRIES_def)

lemma PTX_less: "unat (PTX va) < NPTENTRIES"
  by (simp add: unat_PTX NPTENTRIES_def)

lemma PGADDR_split: "PGADDR (PDX va) (PTX va) (va AND 0xFFF) = va"
  unfolding PGADDR_def PDX_def PTX_def mask12 mask10 page_defs
proof (rule bit_word_eqI)
  fix n assume "n < LENGTH(32)"
  then show "bit (push_bit 22 (drop_bit 22 va AND mask 10) OR push_bit 12 (drop_bit 12 va AND mask 10)
      OR va AND mask 12) n = bit va n"
    by (cases "22 \<le> n"; cases "12 \<le> n") (auto simp: bit_simps)
qed

lemma PTE_ADDR_mask: "PTE_ADDR p = PGROUNDDOWN p"
  by (simp add: PTE_ADDR_def PGROUNDDOWN_def PGSIZE_def)

lemma page_aligned_bits: "page_aligned a \<longleftrightarrow> a AND 0xFFF = 0"
proof -
  have "unat (a AND mask 12) = unat a mod 4096"
    unfolding take_bit_eq_mask [symmetric] by (simp add: take_bit_eq_mod unat_mod)
  then show ?thesis
    by (simp only: page_aligned_def mask12 unat_0_iff [symmetric, of "a AND mask 12"])
qed

lemma page_aligned_no_low_bit: "page_aligned a \<Longrightarrow> n < 12 \<Longrightarrow> \<not> bit a n"
proof -
  assume "page_aligned a" "n < 12"
  then have "a AND mask 12 = 0" by (simp add: page_aligned_bits mask12)
  then have "\<not> bit (a AND mask 12) n" by simp
  with \<open>n < 12\<close> show ?thesis by (simp add: bit_simps)
qed

lemma PTE_ADDR_or:
  assumes "page_aligned pa" "f AND 0xFFF = f"
  shows "PTE_ADDR (pa OR f) = pa" "PTE_FLAGS (pa OR f) = f"
proof -
  have high: "\<not> bit f n" if "12 \<le> n" for n
  proof -
    have "bit f n = bit (f AND mask 12) n" using assms(2) by (simp add: mask12)
    with that show ?thesis by (simp add: bit_simps)
  qed
  have low: "\<not> bit pa n" if "n < 12" for n
    using assms(1) that by (rule page_aligned_no_low_bit)
  show "PTE_ADDR (pa OR f) = pa"
  proof (rule bit_word_eqI)
    fix n show "bit (PTE_ADDR (pa OR f)) n = bit pa n" if "n < LENGTH(32)"
      using that low[of n] high[of n] unfolding PTE_ADDR_def mask12
      by (cases "n < 12") (auto simp: bit_simps)
  qed
  show "PTE_FLAGS (pa OR f) = f"
  proof (rule bit_word_eqI)
    fix n show "bit (PTE_FLAGS (pa OR f)) n = bit f n" if "n < LENGTH(32)"
      using that low[of n] high[of n] unfolding PTE_FLAGS_def mask12
      by (cases "n < 12") (auto simp: bit_simps)
  qed
qed

end
