(* ===== verification/Str.thy ===== *)
theory Str
  imports Xv6_Prelude
begin

unbundle bit_operations_syntax

text \<open>
  The memory and string routines of \<open>string.c\<close> over a flat 32-bit byte-addressed
  memory, with the x86 string instructions \<open>stosb\<close> and \<open>stosl\<close> of \<open>x86.h\<close>.  Pointers
  are \<open>uint\<close> and pointer arithmetic wraps, as on the machine.  Each routine is the
  loop of the source; the lemmas relate it to what it means on the bytes.
\<close>

type_synonym mem = "uint \<Rightarrow> byte"

section \<open>Words in memory\<close>

definition byte_of :: "uint \<Rightarrow> nat \<Rightarrow> byte" where
  "byte_of w k = ucast (drop_bit (8 * k) w)"

definition ld32 :: "mem \<Rightarrow> uint \<Rightarrow> uint" where
  "ld32 m a = ucast (m a) OR push_bit 8 (ucast (m (a + 1)))
     OR push_bit 16 (ucast (m (a + 2))) OR push_bit 24 (ucast (m (a + 3)))"

definition st32 :: "mem \<Rightarrow> uint \<Rightarrow> uint \<Rightarrow> mem" where
  "st32 m a w = m(a := byte_of w 0, a + 1 := byte_of w 1, a + 2 := byte_of w 2, a + 3 := byte_of w 3)"

text \<open>The memory with these bytes stored from address \<open>a\<close> on.\<close>

primrec put_bytes :: "mem \<Rightarrow> uint \<Rightarrow> byte list \<Rightarrow> mem" where
  "put_bytes m a [] = m"
| "put_bytes m a (b # bs) = put_bytes (m(a := b)) (a + 1) bs"

section \<open>The code\<close>

subsection \<open>x86.h: stosb, stosl\<close>

fun stosb :: "mem \<Rightarrow> uint \<Rightarrow> byte \<Rightarrow> nat \<Rightarrow> mem" where
  "stosb m d c 0 = m"
| "stosb m d c (Suc n) = stosb (m(d := c)) (d + 1) c n"

fun stosl :: "mem \<Rightarrow> uint \<Rightarrow> uint \<Rightarrow> nat \<Rightarrow> mem" where
  "stosl m d w 0 = m"
| "stosl m d w (Suc n) = stosl (st32 m d w) (d + 4) w n"

subsection \<open>memset, memcmp, memmove\<close>

definition memset :: "mem \<Rightarrow> uint \<Rightarrow> uint \<Rightarrow> uint \<Rightarrow> mem" where
  "memset m dst c n =
     (if dst mod 4 = 0 \<and> n mod 4 = 0
      then let c' = c AND 0xFF
           in stosl m dst (push_bit 24 c' OR push_bit 16 c' OR push_bit 8 c' OR c') (unat (n div 4))
      else stosb m dst (ucast c) (unat n))"

fun memcmp :: "mem \<Rightarrow> uint \<Rightarrow> uint \<Rightarrow> nat \<Rightarrow> int" where
  "memcmp m s1 s2 0 = 0"
| "memcmp m s1 s2 (Suc n) =
     (if m s1 \<noteq> m s2 then uint (m s1) - uint (m s2) else memcmp m (s1 + 1) (s2 + 1) n)"

fun copy_backward :: "mem \<Rightarrow> uint \<Rightarrow> uint \<Rightarrow> nat \<Rightarrow> mem" where
  "copy_backward m d s 0 = m"
| "copy_backward m d s (Suc n) = copy_backward (m(d - 1 := m (s - 1))) (d - 1) (s - 1) n"

fun copy_forward :: "mem \<Rightarrow> uint \<Rightarrow> uint \<Rightarrow> nat \<Rightarrow> mem" where
  "copy_forward m d s 0 = m"
| "copy_forward m d s (Suc n) = copy_forward (m(d := m s)) (d + 1) (s + 1) n"

definition memmove :: "mem \<Rightarrow> uint \<Rightarrow> uint \<Rightarrow> uint \<Rightarrow> mem" where
  "memmove m dst src n =
     (if src < dst \<and> src + n > dst
      then copy_backward m (dst + n) (src + n) (unat n)
      else copy_forward m dst src (unat n))"

definition memcpy :: "mem \<Rightarrow> uint \<Rightarrow> uint \<Rightarrow> uint \<Rightarrow> mem" where
  "memcpy m dst src n = memmove m dst src n"

subsection \<open>strncmp, strncpy, safestrcpy, strlen\<close>

fun strncmp :: "mem \<Rightarrow> uint \<Rightarrow> uint \<Rightarrow> nat \<Rightarrow> int" where
  "strncmp m p q 0 = 0"
| "strncmp m p q (Suc n) =
     (if m p \<noteq> 0 \<and> m p = m q then strncmp m (p + 1) (q + 1) n
      else uint (m p) - uint (m q))"

text \<open>
  \<open>while(n-- > 0 && (*s++ = *t++) != 0);\<close> returns the memory, the advanced
  destination and the count left.  The count is a C \<open>int\<close>; after the loop has run
  out it is \<open>-1\<close>, which the second loop treats as 0.
\<close>

fun strncpy_copy :: "mem \<Rightarrow> uint \<Rightarrow> uint \<Rightarrow> nat \<Rightarrow> mem \<times> uint \<times> nat" where
  "strncpy_copy m s t 0 = (m, s, 0)"
| "strncpy_copy m s t (Suc n) =
     (if m t \<noteq> 0 then strncpy_copy (m(s := m t)) (s + 1) (t + 1) n
      else (m(s := 0), s + 1, n))"

definition strncpy :: "mem \<Rightarrow> uint \<Rightarrow> uint \<Rightarrow> int \<Rightarrow> mem" where
  "strncpy m s t n = (case strncpy_copy m s t (nat n) of (m', s', k) \<Rightarrow> stosb m' s' 0 k)"

text \<open>\<open>while(--n > 0 && (*s++ = *t++) != 0); *s = 0;\<close>\<close>

fun safestrcpy_copy :: "mem \<Rightarrow> uint \<Rightarrow> uint \<Rightarrow> nat \<Rightarrow> mem \<times> uint" where
  "safestrcpy_copy m s t 0 = (m, s)"
| "safestrcpy_copy m s t (Suc n) =
     (if m t \<noteq> 0 then safestrcpy_copy (m(s := m t)) (s + 1) (t + 1) n
      else (m(s := 0), s + 1))"

definition safestrcpy :: "mem \<Rightarrow> uint \<Rightarrow> uint \<Rightarrow> int \<Rightarrow> mem" where
  "safestrcpy m s t n =
     (if n \<le> 0 then m
      else case safestrcpy_copy m s t (nat (n - 1)) of (m', s') \<Rightarrow> m'(s' := 0))"

partial_function (option) strlen_from :: "mem \<Rightarrow> uint \<Rightarrow> nat \<Rightarrow> nat option" where
  "strlen_from m s n = (if m (s + of_nat n) = 0 then Some n else strlen_from m s (Suc n))"

definition strlen :: "mem \<Rightarrow> uint \<Rightarrow> nat option" where
  "strlen m s = strlen_from m s 0"

section \<open>Byte ranges\<close>

text \<open>The addresses \<open>d, d+1, ..., d+n-1\<close> (wrapping), and the bytes stored there.\<close>

definition span :: "uint \<Rightarrow> nat \<Rightarrow> uint set" where
  "span d n = {a. unat (a - d) < n}"

definition bytes_at :: "mem \<Rightarrow> uint \<Rightarrow> nat \<Rightarrow> byte list" where
  "bytes_at m a n = map (\<lambda>i. m (a + of_nat i)) [0..<n]"

lemma span_0 [simp]: "span d 0 = {}"
  by (simp add: span_def)

lemma span_self: "0 < n \<Longrightarrow> d \<in> span d n"
  by (simp add: span_def)

lemma unat_diff_Suc:
  fixes a d :: uint
  assumes "a \<noteq> d"
  shows "unat (a - d) = Suc (unat (a - (d + 1)))"
proof -
  have "a - d = (a - (d + 1)) + 1" by simp
  moreover have "a - (d + 1) \<noteq> - 1" using assms by (simp add: algebra_simps)
  ultimately show ?thesis
    using unatSuc[of "a - (d + 1)"] by (simp add: algebra_simps add_eq_0_iff)
qed

lemma span_Suc: "span d (Suc n) = insert d (span (d + 1) n)" if "n < 2 ^ 32"
proof (rule set_eqI)
  fix a
  show "a \<in> span d (Suc n) \<longleftrightarrow> a \<in> insert d (span (d + 1) n)"
    by (cases "a = d") (auto simp: span_def unat_diff_Suc)
qed

lemma not_in_later_span: "n < 2 ^ 32 \<Longrightarrow> d \<notin> span (d + 1) n"
proof -
  assume "n < 2 ^ 32"
  have "d - (d + 1) = (- 1 :: uint)" by simp
  then have "unat (d - (d + 1)) = 2 ^ 32 - 1"
    by (simp only:) (simp add: unsigned_minus_1_eq_mask mask_eq_exp_minus_1)
  with \<open>n < 2 ^ 32\<close> show ?thesis by (simp add: span_def)
qed

lemma length_bytes_at [simp]: "length (bytes_at m a n) = n"
  by (simp add: bytes_at_def)

lemma bytes_at_nth [simp]: "i < n \<Longrightarrow> bytes_at m a n ! i = m (a + of_nat i)"
  by (simp add: bytes_at_def)

lemma bytes_at_Suc: "bytes_at m a (Suc n) = m a # bytes_at m (a + 1) n"
  by (simp add: bytes_at_def upt_conv_Cons map_Suc_upt [symmetric] comp_def algebra_simps
      del: upt_Suc map_Suc_upt)

lemma bytes_at_cong: "(\<And>i. i < n \<Longrightarrow> m (a + of_nat i) = m' (a + of_nat i)) \<Longrightarrow> bytes_at m a n = bytes_at m' a n"
  by (simp add: bytes_at_def)

section \<open>What the fills and copies do\<close>

lemma stosb_apply:
  "n \<le> 2 ^ 32 \<Longrightarrow> stosb m d c n a = (if a \<in> span d n then c else m a)"
proof (induction n arbitrary: m d)
  case 0
  then show ?case by simp
next
  case (Suc n)
  then have "n < 2 ^ 32" by simp
  then show ?case by (simp add: Suc.IH span_Suc)
qed

lemma stosb_add: "stosb m d c (i + j) = stosb (stosb m d c i) (d + of_nat i) c j"
  by (induction i arbitrary: m d) (auto simp: algebra_simps)

lemma st32_replicated:
  assumes "\<And>k. k < 4 \<Longrightarrow> byte_of w k = c"
  shows "st32 m d w = stosb m d c 4"
  using assms by (simp add: st32_def eval_nat_numeral algebra_simps)

lemma stosl_replicated:
  assumes "\<And>k. k < 4 \<Longrightarrow> byte_of w k = c"
  shows "stosl m d w n = stosb m d c (4 * n)"
proof (induction n arbitrary: m d)
  case 0
  then show ?case by simp
next
  case (Suc n)
  have "stosl m d w (Suc n) = stosb (stosb m d c 4) (d + of_nat 4) c (4 * n)"
    by (simp add: Suc.IH st32_replicated[OF assms])
  also have "\<dots> = stosb m d c (4 + 4 * n)" by (simp only: stosb_add)
  finally show ?case by simp
qed

lemma replicated_bytes:
  fixes c :: uint
  assumes "k < 4"
  shows "byte_of (push_bit 24 (c AND 0xFF) OR push_bit 16 (c AND 0xFF)
           OR push_bit 8 (c AND 0xFF) OR (c AND 0xFF)) k = ucast c"
proof -
  have m: "(0xFF :: uint) = mask 8" by (simp add: mask_eq_exp_minus_1)
  from assms have "k = 0 \<or> k = 1 \<or> k = 2 \<or> k = 3" by auto
  then show ?thesis unfolding m byte_of_def
    by (elim disjE) (auto intro!: bit_eqI simp: bit_simps bit_ucast_iff bit_mask_iff)
qed

lemma memset_apply:
  "memset m d c n a = (if a \<in> span d (unat n) then ucast c else m a)"
proof (cases "d mod 4 = 0 \<and> n mod 4 = 0")
  case True
  then have "unat n mod 4 = 0" using unat_mod[of n 4] by simp
  then have "4 * unat (n div 4) = unat n" by (simp add: unat_div) presburger
  then have "memset m d c n = stosb m d (ucast c) (unat n)"
    using True by (simp only: memset_def Let_def if_P stosl_replicated[OF replicated_bytes] simp_thms)
  then show ?thesis by (simp only: stosb_apply[OF unat_uint_le])
next
  case False
  moreover note unat_uint_le[of n]
  ultimately show ?thesis by (auto simp: memset_def stosb_apply)
qed

lemma copy_forward_apply:
  assumes "n \<le> 2 ^ 32" "unat (d - s) = 0 \<or> n \<le> unat (d - s)"
  shows "copy_forward m d s n a = (if a \<in> span d n then m (s + (a - d)) else m a)"
  using assms
proof (induction n arbitrary: m d s)
  case 0
  then show ?case by simp
next
  case (Suc n)
  then have n: "n < 2 ^ 32" by simp
  have IH: "copy_forward (m(d := m s)) (d + 1) (s + 1) n a =
      (if a \<in> span (d + 1) n then (m(d := m s)) (s + (a - d)) else (m(d := m s)) a)"
    using Suc.prems by (subst Suc.IH) (auto simp: algebra_simps)
  have "s + (a - d) \<noteq> d \<or> m s = m d" if "a \<in> span (d + 1) n"
  proof (rule ccontr)
    assume "\<not> ?thesis"
    then have eq: "a - d = d - s" and ne: "d \<noteq> s" by (auto simp: algebra_simps)
    from that n not_in_later_span have "a \<noteq> d" by blast
    with that have "unat (a - d) \<le> n" by (simp add: span_def unat_diff_Suc)
    moreover from ne have "unat (d - s) \<noteq> 0" by (simp add: unat_eq_0)
    ultimately show False using Suc.prems eq by auto
  qed
  then have "(m(d := m s)) (s + (a - d)) = m (s + (a - d))" if "a \<in> span (d + 1) n"
    using that by (cases "s + (a - d) = d") simp_all
  with IH n show ?case by (simp add: span_Suc)
qed

lemma copy_backward_apply:
  assumes "n \<le> 2 ^ 32" "unat (s - d) = 0 \<or> n \<le> unat (s - d)"
  shows "copy_backward m (d + of_nat n) (s + of_nat n) n a =
           (if a \<in> span d n then m (s + (a - d)) else m a)"
  using assms
proof (induction n arbitrary: m)
  case 0
  then show ?case by simp
next
  case (Suc n)
  then have n: "n < 2 ^ 32" by simp
  let ?e = "d + of_nat n" and ?m = "m(d + of_nat n := m (s + of_nat n))"
  have un: "unat (of_nat n :: uint) = n" using n by (rule unat_of_nat_uint)
  have IH: "copy_backward ?m (d + of_nat n) (s + of_nat n) n a =
      (if a \<in> span d n then ?m (s + (a - d)) else ?m a)"
    using Suc.prems by (intro Suc.IH) auto
  have step: "copy_backward m (d + of_nat (Suc n)) (s + of_nat (Suc n)) (Suc n) a =
      copy_backward ?m (d + of_nat n) (s + of_nat n) n a"
    by (simp add: algebra_simps)
  have split: "a \<in> span d (Suc n) \<longleftrightarrow> a = ?e \<or> a \<in> span d n"
  proof -
    have "unat (a - d) = n \<longleftrightarrow> a = ?e"
      using un word_unat_eq_iff[of "a - d" "of_nat n"] by (auto simp: algebra_simps)
    then show ?thesis by (auto simp: span_def less_Suc_eq)
  qed
  have "s + (a - d) \<noteq> ?e" if "a \<in> span d n" "s \<noteq> d"
  proof
    assume "s + (a - d) = ?e"
    then have eq: "s - d = of_nat n - (a - d)" by (simp add: algebra_simps)
    from that have "unat (a - d) < n" by (simp add: span_def)
    then have "unat (s - d) \<le> n" unfolding eq by (simp add: unat_diff_uint un)
    with Suc.prems that show False by (auto simp: unat_eq_0)
  qed
  moreover have "?e \<notin> span d n" by (simp add: span_def un)
  ultimately show ?case unfolding step IH split
    by (cases "s = d") auto
qed

text \<open>No address wraps inside the two ranges.\<close>

lemma memmove_apply:
  assumes "unat src + unat n \<le> 2 ^ 32" "unat dst + unat n \<le> 2 ^ 32"
  shows "memmove m dst src n a = (if a \<in> span dst (unat n) then m (src + (a - dst)) else m a)"
proof (cases "src < dst \<and> src + n > dst")
  case True
  have le: "unat n \<le> 2 ^ 32" using assms by simp
  from True have lt: "unat src < unat dst" by (simp add: word_less_nat_alt)
  then have "unat n \<le> unat (src - dst)" using assms by (simp add: unat_diff_uint)
  then show ?thesis using copy_backward_apply[OF le, of src dst m a] True
    by (simp add: memmove_def)
next
  case False
  have le: "unat n \<le> 2 ^ 32" using assms by simp
  have "unat (dst - src) = 0 \<or> unat n \<le> unat (dst - src)"
  proof (cases "src < dst")
    case True
    then have lt: "unat src < unat dst" by (simp add: word_less_nat_alt)
    then have k: "unat (dst - src) = unat dst - unat src" by (simp add: unat_diff_uint)
    have "unat src + unat n < 2 ^ 32" using assms lt by linarith
    then have "unat (src + n) = unat src + unat n" by (simp add: unat_add_lem[symmetric])
    with False True have "unat src + unat n \<le> unat dst" by (simp add: word_le_nat_alt not_less)
    with k show ?thesis by linarith
  next
    case ge: False
    then have "unat dst \<le> unat src" by (simp add: word_less_nat_alt)
    then show ?thesis using assms by (auto simp: unat_diff_uint)
  qed
  then show ?thesis using copy_forward_apply[OF le, of dst src m a] False
    by (auto simp: memmove_def)
qed

section \<open>Aligned words\<close>

definition aligned4 :: "uint \<Rightarrow> bool" where
  "aligned4 a \<longleftrightarrow> unat a mod 4 = 0"

lemma aligned4_add:
  assumes "aligned4 a" "i < 4"
  shows "unat (a + of_nat i) = unat a + i"
proof -
  have "unat a mod 4 = 0" using assms by (simp add: aligned4_def)
  then have "unat a + 4 \<le> 2 ^ 32" using unat_uint_less[of a] by simp presburger
  then show ?thesis using assms(2) by (simp add: unat_word_ariths unat_of_nat)
qed

lemma aligned4_addN:
  "aligned4 a \<Longrightarrow> unat (a + 1) = unat a + 1"
  "aligned4 a \<Longrightarrow> unat (a + 2) = unat a + 2"
  "aligned4 a \<Longrightarrow> unat (a + 3) = unat a + 3"
  using aligned4_add[of a 1] aligned4_add[of a 2] aligned4_add[of a 3] by simp_all

text \<open>Words at different aligned addresses do not share a byte.\<close>

lemma aligned4_apart:
  assumes "aligned4 a" "aligned4 b" "a \<noteq> b" "i < 4" "j < 4"
  shows "a + of_nat i \<noteq> b + of_nat j"
proof
  assume "a + of_nat i = b + of_nat j"
  then have "unat a + i = unat b + j"
    using aligned4_add[of a i] aligned4_add[of b j] assms by simp
  with assms have "unat a = unat b" unfolding aligned4_def by presburger
  with assms show False by (simp add: word_unat_eq_iff)
qed

lemma less_4_cases: "k < 4 \<Longrightarrow> k = 0 \<or> k = 1 \<or> k = 2 \<or> k = (3 :: nat)"
  by auto

lemma bit_byte_high: "8 \<le> n \<Longrightarrow> \<not> bit (b :: byte) n"
  using bit_imp_le_length[of b n] by auto

lemma ld32_bytes:
  "ld32 m a = w \<longleftrightarrow> (\<forall>k < 4. m (a + of_nat k) = byte_of w k)"
proof -
  have "(\<forall>k < 4. m (a + of_nat k) = byte_of w k) \<longleftrightarrow>
      m a = byte_of w 0 \<and> m (a + 1) = byte_of w 1 \<and> m (a + 2) = byte_of w 2 \<and> m (a + 3) = byte_of w 3"
    by (auto simp: eval_nat_numeral less_Suc_eq)
  moreover have "ld32 m a = w \<longleftrightarrow>
      m a = byte_of w 0 \<and> m (a + 1) = byte_of w 1 \<and> m (a + 2) = byte_of w 2 \<and> m (a + 3) = byte_of w 3"
    (is "?L \<longleftrightarrow> ?R")
  proof
    assume ?L
    then show ?R
      by (auto simp: ld32_def byte_of_def intro!: bit_word_eqI simp: bit_simps bit_ucast_iff bit_byte_high)
  next
    assume ?R
    then have eq: "m a = byte_of w 0" "m (a + 1) = byte_of w 1" "m (a + 2) = byte_of w 2"
      "m (a + 3) = byte_of w 3" by blast+
    show ?L
    proof (rule bit_word_eqI)
      fix n assume "n < LENGTH(32)"
      then show "bit (ld32 m a) n = bit w n"
        unfolding ld32_def eq byte_of_def
        by (cases "24 \<le> n"; cases "16 \<le> n") (auto simp: bit_simps bit_ucast_iff)
    qed
  qed
  ultimately show ?thesis by simp
qed

lemma ld32_cong: "(\<And>k. k < 4 \<Longrightarrow> m (a + of_nat k) = m' (a + of_nat k)) \<Longrightarrow> ld32 m a = ld32 m' a"
  using ld32_bytes[of m a "ld32 m' a"] ld32_bytes[of m' a "ld32 m' a"] by simp

lemma st32_apply:
  "k < 4 \<Longrightarrow> st32 m a w (a + of_nat k) = byte_of w k"
  using less_4_cases[of k] by (auto simp: st32_def)

lemma st32_outside:
  assumes "\<And>k. k < 4 \<Longrightarrow> x \<noteq> a + of_nat k"
  shows "st32 m a w x = m x"
  using assms[of 0] assms[of 1] assms[of 2] assms[of 3] by (simp add: st32_def)

lemma ld32_st32_same [simp]: "ld32 (st32 m a w) a = w"
  by (simp add: ld32_bytes st32_apply)

lemma ld32_st32_other:
  assumes "aligned4 a" "aligned4 b" "a \<noteq> b"
  shows "ld32 (st32 m a w) b = ld32 m b"
proof (rule ld32_cong)
  fix k :: nat assume "k < 4"
  then show "st32 m a w (b + of_nat k) = m (b + of_nat k)"
    using aligned4_apart[OF assms(2,1)] assms(3) by (intro st32_outside) auto
qed

lemma ld32_zero: "(\<And>k. k < 4 \<Longrightarrow> m (a + of_nat k) = 0) \<Longrightarrow> ld32 m a = 0"
  by (simp add: ld32_bytes byte_of_def)

section \<open>What the string routines do\<close>

text \<open>The string in an array: the bytes before the first NUL.\<close>

definition cstr :: "byte list \<Rightarrow> byte list" where
  "cstr bs = takeWhile (\<lambda>b. b \<noteq> 0) bs"

lemma cstr_simps [simp]:
  "cstr [] = []"
  "cstr (b # bs) = (if b = 0 then [] else b # cstr bs)"
  by (simp_all add: cstr_def)

lemma cstr_no_nul: "b \<in> set (cstr bs) \<Longrightarrow> b \<noteq> 0"
  unfolding cstr_def by (induction bs) (auto split: if_splits)

lemma length_cstr_le: "length (cstr bs) \<le> length bs"
  by (simp add: cstr_def length_takeWhile_le)

lemma length_cstr_less: "0 \<in> set bs \<Longrightarrow> length (cstr bs) < length bs"
  by (induction bs) auto

lemma strlen_from_hit:
  assumes "m (s + of_nat k) = 0" "\<And>i. n \<le> i \<Longrightarrow> i < k \<Longrightarrow> m (s + of_nat i) \<noteq> 0" "n \<le> k"
  shows "strlen_from m s n = Some k"
  using assms(2,3)
proof (induction "k - n" arbitrary: n)
  case 0
  then have "n = k" by simp
  with assms(1) show ?case by (simp add: strlen_from.simps)
next
  case (Suc d)
  then have "n < k" by simp
  with Suc.prems have "m (s + of_nat n) \<noteq> 0" by simp
  moreover have "strlen_from m s (Suc n) = Some k" using Suc.hyps Suc.prems by (intro Suc.hyps(1)) auto
  ultimately show ?case by (simp add: strlen_from.simps[of m s n])
qed

lemma strlen_cstr:
  assumes "0 \<in> set (bytes_at m s n)"
  shows "strlen m s = Some (length (cstr (bytes_at m s n)))"
proof -
  let ?k = "length (cstr (bytes_at m s n))"
  have "?k < n"
    using length_cstr_less[OF assms] by simp
  moreover have "bytes_at m s n ! ?k = 0"
    using calculation nth_length_takeWhile[of "\<lambda>b. b \<noteq> 0" "bytes_at m s n"] by (simp add: cstr_def)
  moreover have "bytes_at m s n ! i \<noteq> 0" if "i < ?k" for i
    using that nth_mem[of i "cstr (bytes_at m s n)"] takeWhile_nth[of i "\<lambda>b. b \<noteq> 0" "bytes_at m s n"]
      cstr_no_nul[of "cstr (bytes_at m s n) ! i" "bytes_at m s n"] by (simp add: cstr_def)
  ultimately show ?thesis unfolding strlen_def
    by (intro strlen_from_hit) auto
qed

lemma strncmp_eq_0: "strncmp m p q n = 0 \<longleftrightarrow> cstr (bytes_at m p n) = cstr (bytes_at m q n)"
proof (induction n arbitrary: p q)
  case 0
  then show ?case by (simp add: bytes_at_def)
next
  case (Suc n)
  then show ?case by (auto simp: bytes_at_Suc word_uint_eq_iff [symmetric] uint_0_iff)
qed

text \<open>The copies on arrays: what the client code sees in the destination array.\<close>

definition strncpy_arr :: "byte list \<Rightarrow> nat \<Rightarrow> byte list" where
  "strncpy_arr src n = cstr (take n src) @ replicate (n - length (cstr (take n src))) 0"

definition safestrcpy_arr :: "byte list \<Rightarrow> byte list \<Rightarrow> nat \<Rightarrow> byte list" where
  "safestrcpy_arr dst src n =
     (let cs = cstr (take (n - 1) src)
      in if length cs = n - 1 then cs @ [0] @ drop n dst
         else cs @ [0, 0] @ drop (length cs + 2) dst)"

lemma bytes_at_upd:
  assumes "x \<notin> span a n" "n \<le> 2 ^ 32"
  shows "bytes_at (m(x := v)) a n = bytes_at m a n"
proof (rule bytes_at_cong)
  fix i assume "i < n"
  with assms have "unat (a + of_nat i - a) = i" by (simp add: unat_of_nat_uint)
  with \<open>i < n\<close> have "a + of_nat i \<in> span a n" by (simp add: span_def)
  with assms show "(m(x := v)) (a + of_nat i) = m (a + of_nat i)" by auto
qed

lemma bytes_at_stosb:
  assumes "n \<le> 2 ^ 32"
  shows "bytes_at (stosb m s c n) s n = replicate n c"
proof (rule nth_equalityI)
  fix i assume i: "i < length (bytes_at (stosb m s c n) s n)"
  with assms have "unat (s + of_nat i - s) = i" by (simp add: unat_of_nat_uint)
  with i assms show "bytes_at (stosb m s c n) s n ! i = replicate n c ! i"
    by (simp add: stosb_apply span_def)
qed simp

lemma strncpy_step:
  "strncpy m s t 0 = m"
  "strncpy m s t (1 + int n) =
     (if m t \<noteq> 0 then strncpy (m(s := m t)) (s + 1) (t + 1) (int n) else stosb (m(s := 0)) (s + 1) 0 n)"
  by (simp_all add: strncpy_def nat_add_distrib)

lemma strncpy_refines:
  assumes "n < 2 ^ 32" "span s n \<inter> span t n = {}"
  shows "bytes_at (strncpy m s t (int n)) s n = strncpy_arr (bytes_at m t n) n \<and>
         (\<forall>a. a \<notin> span s n \<longrightarrow> strncpy m s t (int n) a = m a)"
  using assms
proof (induction n arbitrary: m s t)
  case 0
  then show ?case by (simp add: strncpy_step strncpy_arr_def bytes_at_def)
next
  case (Suc n)
  then have n: "n < 2 ^ 32" and dis: "span (s + 1) n \<inter> span (t + 1) n = {}"
    and st: "s \<notin> span (t + 1) n" by (auto simp: span_Suc)
  have s: "s \<notin> span (s + 1) n" using n by (rule not_in_later_span)
  let ?m = "m(s := m t)"
  have src: "bytes_at ?m (t + 1) n = bytes_at m (t + 1) n"
    using st n by (intro bytes_at_upd) auto
  have bytes: "bytes_at (strncpy ?m (s + 1) (t + 1) (int n)) (s + 1) n = strncpy_arr (bytes_at m (t + 1) n) n"
    and frame: "\<And>a. a \<notin> span (s + 1) n \<Longrightarrow> strncpy ?m (s + 1) (t + 1) (int n) a = ?m a"
    using Suc.IH[OF n dis] src by (metis, blast)
  have zero: "stosb (m(s := 0)) (s + 1) 0 n s = 0" using s n by (simp add: stosb_apply)
  have e: "int (Suc n) = 1 + int n" by simp
  show ?case unfolding e
  proof (cases "m t = 0")
    case True
    then show "bytes_at (strncpy m s t (1 + int n)) s (Suc n) = strncpy_arr (bytes_at m t (Suc n)) (Suc n) \<and>
      (\<forall>a. a \<notin> span s (Suc n) \<longrightarrow> strncpy m s t (1 + int n) a = m a)"
      using zero n by (simp add: strncpy_step bytes_at_Suc span_Suc strncpy_arr_def bytes_at_stosb stosb_apply)
  next
    case False
    then show "bytes_at (strncpy m s t (1 + int n)) s (Suc n) = strncpy_arr (bytes_at m t (Suc n)) (Suc n) \<and>
      (\<forall>a. a \<notin> span s (Suc n) \<longrightarrow> strncpy m s t (1 + int n) a = m a)"
      using bytes n by (simp add: frame s strncpy_step bytes_at_Suc span_Suc strncpy_arr_def)
  qed
qed

lemma safestrcpy_step:
  "safestrcpy m s t 1 = m(s := 0)"
  "safestrcpy m s t (2 + int n) =
     (if m t \<noteq> 0 then safestrcpy (m(s := m t)) (s + 1) (t + 1) (1 + int n)
      else m(s := 0, s + 1 := 0))"
  by (simp_all add: safestrcpy_def nat_add_distrib)

text \<open>
  On disjoint ranges, \<open>safestrcpy\<close> leaves the array above in the destination,
  writes nothing outside it, and the result is always NUL-terminated.
\<close>

lemma safestrcpy_refines:
  assumes "n < 2 ^ 32 - 1" "span s (Suc n) \<inter> span t n = {}"
  shows "bytes_at (safestrcpy m s t (1 + int n)) s (Suc n) =
           safestrcpy_arr (bytes_at m s (Suc n)) (bytes_at m t n) (Suc n) \<and>
         (\<forall>a. a \<notin> span s (Suc n) \<longrightarrow> safestrcpy m s t (1 + int n) a = m a)"
  using assms
proof (induction n arbitrary: m s t)
  case 0
  then show ?case by (simp add: safestrcpy_step safestrcpy_arr_def bytes_at_def span_Suc)
next
  case (Suc n)
  then have n: "n < 2 ^ 32 - 1" and n': "Suc n < 2 ^ 32" and dis: "span (s + 1) (Suc n) \<inter> span (t + 1) n = {}"
    and st: "s \<notin> span (t + 1) n" by (auto simp: span_Suc)
  have s: "s \<notin> span (s + 1) (Suc n)" using n' by (rule not_in_later_span)
  let ?m = "m(s := m t)"
  have src: "bytes_at ?m (t + 1) n = bytes_at m (t + 1) n"
    using st n by (intro bytes_at_upd) auto
  have dst: "bytes_at ?m (s + 1) (Suc n) = bytes_at m (s + 1) (Suc n)"
    using s n' by (intro bytes_at_upd) auto
  have s2: "s + 1 \<notin> span (s + 1 + 1) n" using n by (intro not_in_later_span) simp
  have bytes: "bytes_at (safestrcpy ?m (s + 1) (t + 1) (1 + int n)) (s + 1) (Suc n) =
      safestrcpy_arr (bytes_at m (s + 1) (Suc n)) (bytes_at m (t + 1) n) (Suc n)"
    and frame: "\<And>a. a \<notin> span (s + 1) (Suc n) \<Longrightarrow> safestrcpy ?m (s + 1) (t + 1) (1 + int n) a = ?m a"
    using Suc.IH[OF n dis] src dst by (metis, blast)
  have e: "1 + int (Suc n) = 2 + int n" by simp
  show ?case
  proof (cases "m t = 0")
    case True
    have b: "bytes_at (m(s := 0, s + 1 := 0)) s (Suc (Suc n)) = 0 # 0 # bytes_at m (s + 1 + 1) n"
    proof -
      have "s \<notin> span (s + 1 + 1) n" using s n by (auto simp: span_Suc)
      then show ?thesis using s2 n by (simp add: bytes_at_Suc bytes_at_upd)
    qed
    have eq: "safestrcpy m s t (2 + int n) = m(s := 0, s + 1 := 0)"
      using True by (simp only: safestrcpy_step(2)) simp
    show ?thesis unfolding e eq b using True n' n
      by (auto simp: safestrcpy_arr_def bytes_at_Suc span_Suc)
  next
    case False
    with bytes n' s show ?thesis unfolding e
      by (simp add: frame safestrcpy_step safestrcpy_arr_def bytes_at_Suc[of _ s] bytes_at_Suc[of _ t]
          span_Suc[of "Suc n" s] Let_def)
  qed
qed

lemma safestrcpy_arr_nul:
  assumes "0 < n" "n \<le> length dst"
  shows "0 \<in> set (take n (safestrcpy_arr dst src n))"
    and "length (safestrcpy_arr dst src n) = length dst"
    and "cstr (safestrcpy_arr dst src n) = cstr (take (n - 1) src)"
proof -
  let ?cs = "cstr (take (n - 1) src)"
  have le: "length ?cs \<le> n - 1" using length_cstr_le[of "take (n - 1) src"] by simp
  show "length (safestrcpy_arr dst src n) = length dst"
    using le assms by (auto simp: safestrcpy_arr_def Let_def)
  show "0 \<in> set (take n (safestrcpy_arr dst src n))"
  proof (cases "length ?cs = n - 1")
    case True
    with assms show ?thesis by (simp add: safestrcpy_arr_def Let_def)
  next
    case False
    with le obtain k where "n - length ?cs = Suc k" by (metis Suc_diff_Suc assms(1) diff_less le_less_trans less_numeral_extra(1))
    with False show ?thesis by (simp add: safestrcpy_arr_def Let_def)
  qed
  have "cstr (?cs @ 0 # bs) = ?cs" for bs
    unfolding cstr_def by (induction "take (n - 1) src") (auto simp: takeWhile_tail)
  then show "cstr (safestrcpy_arr dst src n) = ?cs"
    by (auto simp: safestrcpy_arr_def Let_def)
qed

section \<open>Properties\<close>

text \<open>
  C40: \<open>memmove\<close> copies correctly also when source and destination overlap: each byte of
  the destination gets the byte the source had before the call, and no other byte
  changes.  The ranges must not wrap around the end of the address space.
\<close>

theorem memmove_overlap:
  assumes "unat src + unat n \<le> 2 ^ 32" "unat dst + unat n \<le> 2 ^ 32"
  shows "(\<forall>i < unat n. memmove m dst src n (dst + of_nat i) = m (src + of_nat i)) \<and>
         (\<forall>a. a \<notin> span dst (unat n) \<longrightarrow> memmove m dst src n a = m a)"
proof -
  have "unat (of_nat i :: uint) = i" if "i < unat n" for i
    using that unat_uint_less[of n] by (simp add: unat_of_nat)
  then show ?thesis using assms by (simp add: memmove_apply span_def)
qed

text \<open>The copy of four bytes two bytes up, over their own tail.\<close>

theorem memmove_overlap_witness:
  "map (memmove (\<lambda>a. ucast a) 102 100 4) [100, 101, 102, 103, 104, 105] = [100, 101, 100, 101, 102, 103]"
proof -
  let ?m = "\<lambda>a :: uint. ucast a :: byte"
  have M: "\<forall>i < 4. memmove ?m 102 100 4 (102 + of_nat i) = ?m (100 + of_nat i)"
    "\<forall>a. a \<notin> span 102 4 \<longrightarrow> memmove ?m 102 100 4 a = ?m a"
    using memmove_overlap[of 100 4 102 ?m] by simp_all
  have "memmove ?m 102 100 4 102 = 100" "memmove ?m 102 100 4 103 = 101"
    "memmove ?m 102 100 4 104 = 102" "memmove ?m 102 100 4 105 = 103"
    using M(1)[THEN spec, of 0] M(1)[THEN spec, of 1] M(1)[THEN spec, of 2] M(1)[THEN spec, of 3] by simp_all
  moreover have "memmove ?m 102 100 4 100 = 100" "memmove ?m 102 100 4 101 = 101"
    using M(2)[THEN spec, of 100] M(2)[THEN spec, of 101] by (simp_all add: span_def unat_diff_uint)
  ultimately show ?thesis by simp
qed

end
