(* ===== verification/Spinlock.thy ===== *)
theory Spinlock
  imports Mmu Str
begin

unbundle bit_operations_syntax

text \<open>
  Per-CPU state and spin locks: \<open>struct cpu\<close> and \<open>struct spinlock\<close>, \<open>mycpu\<close> and
  \<open>cpuid\<close> of \<open>proc.c\<close>, and \<open>spinlock.c\<close>.  Every operation takes the index \<open>c\<close> of the CPU
  that executes it, which is what \<open>mycpu()\<close> computes (lemma \<open>mycpu_self\<close>).  Used
  sequentially, an \<open>acquire\<close> of a lock another CPU holds does not return (\<open>Hang\<close>);
  the interleaved model at the end lets other CPUs run between the instructions.
  The array \<open>pcs\<close> of a lock is written for debugging only and is not kept.
\<close>

section \<open>proc.h, spinlock.h\<close>

record cpu =
  apicid :: byte
  ts_esp0 :: uint
  ts_ss0 :: ushort
  ts_iomb :: ushort
  gdt :: "nat \<Rightarrow> segdesc"
  started :: uint
  ncli :: int
  intena :: uint
  cproc :: ptr
  eflags :: uint
  cr3 :: uint

record spinlock =
  locked :: uint
  lk_name :: string
  lk_cpu :: "nat option"

type_synonym cpus = "nat \<Rightarrow> cpu"

section \<open>The code\<close>

subsection \<open>proc.c: mycpu, cpuid\<close>

definition interrupts_on :: "cpus \<Rightarrow> nat \<Rightarrow> bool" where
  "interrupts_on cs c \<longleftrightarrow> eflags (cs c) AND FL_IF \<noteq> 0"

definition mycpu :: "cpus \<Rightarrow> nat \<Rightarrow> byte \<Rightarrow> nat \<Rightarrow> nat res" where
  "mycpu cs ncpu lapicid c =
     (if interrupts_on cs c then Panic (''mycpu called with interrupts enabled'' @ [CHR 0x0A])
      else case find (\<lambda>i. apicid (cs i) = lapicid) [0..<ncpu] of
             Some i \<Rightarrow> Ok i
           | None \<Rightarrow> Panic (''unknown apicid'' @ [CHR 0x0A]))"

definition cpuid :: "cpus \<Rightarrow> nat \<Rightarrow> byte \<Rightarrow> nat \<Rightarrow> nat res" where
  "cpuid cs ncpu lapicid c = mycpu cs ncpu lapicid c"

subsection \<open>spinlock.c\<close>

definition initlock :: "string \<Rightarrow> spinlock" where
  "initlock name = \<lparr>locked = 0, lk_name = name, lk_cpu = None\<rparr>"

definition cli :: "nat \<Rightarrow> cpus \<Rightarrow> cpus" where
  "cli c cs = cs(c := (cs c)\<lparr>eflags := eflags (cs c) AND NOT FL_IF\<rparr>)"

definition sti :: "nat \<Rightarrow> cpus \<Rightarrow> cpus" where
  "sti c cs = cs(c := (cs c)\<lparr>eflags := eflags (cs c) OR FL_IF\<rparr>)"

definition pushcli :: "nat \<Rightarrow> cpus \<Rightarrow> cpus" where
  "pushcli c cs =
     (let flags = eflags (cs c);
          cs1 = cli c cs;
          cs2 = (if ncli (cs1 c) = 0 then cs1(c := (cs1 c)\<lparr>intena := flags AND FL_IF\<rparr>) else cs1)
      in cs2(c := (cs2 c)\<lparr>ncli := ncli (cs2 c) + 1\<rparr>))"

definition popcli :: "nat \<Rightarrow> cpus \<Rightarrow> cpus res" where
  "popcli c cs =
     (if interrupts_on cs c then Panic ''popcli - interruptible''
      else let cs1 = cs(c := (cs c)\<lparr>ncli := ncli (cs c) - 1\<rparr>)
           in if ncli (cs1 c) < 0 then Panic ''popcli''
              else if ncli (cs1 c) = 0 \<and> intena (cs1 c) \<noteq> 0 then Ok (sti c cs1)
              else Ok cs1)"

definition holding :: "nat \<Rightarrow> cpus \<Rightarrow> spinlock \<Rightarrow> (bool \<times> cpus) res" where
  "holding c cs lk =
     (let cs1 = pushcli c cs; r = (locked lk \<noteq> 0 \<and> lk_cpu lk = Some c)
      in rbind (popcli c cs1) (\<lambda>cs2. Ok (r, cs2)))"

definition acquire :: "nat \<Rightarrow> cpus \<Rightarrow> spinlock \<Rightarrow> (cpus \<times> spinlock) res" where
  "acquire c cs lk =
     (let cs1 = pushcli c cs
      in rbind (holding c cs1 lk) (\<lambda>(h, cs2).
           if h then Panic ''acquire''
           else if locked lk \<noteq> 0 then Hang
           else Ok (cs2, lk\<lparr>locked := 1, lk_cpu := Some c\<rparr>)))"

definition release :: "nat \<Rightarrow> cpus \<Rightarrow> spinlock \<Rightarrow> (cpus \<times> spinlock) res" where
  "release c cs lk =
     rbind (holding c cs lk) (\<lambda>(h, cs1).
       if \<not> h then Panic ''release''
       else rbind (popcli c cs1) (\<lambda>cs2. Ok (cs2, lk\<lparr>lk_cpu := None, locked := 0\<rparr>)))"

text \<open>The walk of the saved frame pointers; the loop stops at the first bad frame.\<close>

fun callerpcs :: "mem \<Rightarrow> uint \<Rightarrow> nat \<Rightarrow> uint list" where
  "callerpcs m ebp 0 = []"
| "callerpcs m ebp (Suc n) =
     (if ebp = 0 \<or> ebp < KERNBASE \<or> ebp = 0xffffffff then replicate (Suc n) 0
      else ld32 m (ebp + 4) # callerpcs m (ld32 m ebp) n)"

definition getcallerpcs :: "mem \<Rightarrow> uint \<Rightarrow> uint list" where
  "getcallerpcs m v = callerpcs m (v - 8) 10"

section \<open>Interrupt nesting\<close>

text \<open>What holds of a CPU between kernel operations.\<close>

definition cpu_ok :: "cpu \<Rightarrow> bool" where
  "cpu_ok k \<longleftrightarrow> 0 \<le> ncli k \<and> (0 < ncli k \<longrightarrow> eflags k AND FL_IF = 0)"

text \<open>A balanced pushcli/popcli leaves the CPU as it was but for the saved flag.\<close>

definition saved :: "cpu \<Rightarrow> cpu" where
  "saved k = (if ncli k = 0 then k\<lparr>intena := eflags k AND FL_IF\<rparr> else k)"

lemma saved_simps [simp]:
  "ncli (saved k) = ncli k" "eflags (saved k) = eflags k" "cproc (saved k) = cproc k"
  "apicid (saved k) = apicid k" "cr3 (saved k) = cr3 k" "saved (saved k) = saved k"
  "gdt (saved k) = gdt k" "ts_esp0 (saved k) = ts_esp0 k" "ts_ss0 (saved k) = ts_ss0 k"
  "ts_iomb (saved k) = ts_iomb k" "started (saved k) = started k"
  by (simp_all add: saved_def)

lemma cpu_ok_saved [simp]: "cpu_ok (saved k) = cpu_ok k"
  by (simp add: cpu_ok_def)

lemma FL_IF_cleared [simp]: "(w AND NOT FL_IF) AND FL_IF = 0"
  by (simp add: and.assoc)

lemma bit_FL_IF: "bit FL_IF n \<longleftrightarrow> n = 9"
proof -
  have e: "FL_IF = 2 ^ 9" by (simp add: FL_IF_def)
  show ?thesis unfolding e bit_exp_iff by auto
qed

lemma FL_IF_bit: "w AND FL_IF = (if bit w 9 then FL_IF else 0)"
  by (rule bit_word_eqI) (auto simp: bit_simps bit_FL_IF)

lemma FL_IF_nonzero: "FL_IF \<noteq> 0"
  by (simp add: FL_IF_def)

lemma FL_IF_restore: "w AND FL_IF \<noteq> 0 \<Longrightarrow> (w AND NOT FL_IF) OR FL_IF = w"
  unfolding FL_IF_bit
  by (rule bit_word_eqI) (auto simp: bit_simps bit_FL_IF split: if_splits)

lemma FL_IF_clear_id: "w AND FL_IF = 0 \<Longrightarrow> w AND NOT FL_IF = w"
  unfolding FL_IF_bit
  by (rule bit_word_eqI) (auto simp: bit_simps bit_FL_IF FL_IF_nonzero split: if_splits)

lemma pushcli_simps [simp]:
  "ncli (pushcli c cs c) = ncli (cs c) + 1"
  "eflags (pushcli c cs c) = eflags (cs c) AND NOT FL_IF"
  "\<not> interrupts_on (pushcli c cs) c"
  by (simp_all add: pushcli_def cli_def Let_def interrupts_on_def)

lemma popcli_pushcli:
  assumes "cpu_ok (cs c)"
  shows "popcli c (pushcli c cs) = Ok (cs(c := saved (cs c)))"
proof (cases "ncli (cs c) = 0")
  case True
  then show ?thesis
    using FL_IF_restore[of "eflags (cs c)"] FL_IF_clear_id[of "eflags (cs c)"]
    by (auto simp: popcli_def pushcli_def cli_def sti_def Let_def interrupts_on_def saved_def)
next
  case False
  with assms show ?thesis
    using FL_IF_clear_id[of "eflags (cs c)"]
    by (auto simp: popcli_def pushcli_def cli_def sti_def Let_def interrupts_on_def saved_def cpu_ok_def)
qed

lemma cpu_ok_pushcli [simp]: "cpu_ok (cs c) \<Longrightarrow> cpu_ok (pushcli c cs c)"
  by (simp add: cpu_ok_def)

lemma saved_pushcli [simp]: "cpu_ok (cs c) \<Longrightarrow> saved (pushcli c cs c) = pushcli c cs c"
  by (simp add: saved_def cpu_ok_def)

lemma holding_eq:
  assumes "cpu_ok (cs c)"
  shows "holding c cs lk = Ok (locked lk \<noteq> 0 \<and> lk_cpu lk = Some c, cs(c := saved (cs c)))"
  using assms by (simp add: holding_def popcli_pushcli)

text \<open>A lock nobody holds; a lock this CPU holds.\<close>

definition free_lock :: "spinlock \<Rightarrow> bool" where
  "free_lock lk \<longleftrightarrow> locked lk = 0 \<and> lk_cpu lk = None"

definition held_by :: "nat \<Rightarrow> spinlock \<Rightarrow> bool" where
  "held_by c lk \<longleftrightarrow> locked lk = 1 \<and> lk_cpu lk = Some c"

lemma acquire_free:
  assumes "cpu_ok (cs c)" "free_lock lk"
  shows "acquire c cs lk = Ok (pushcli c cs, lk\<lparr>locked := 1, lk_cpu := Some c\<rparr>)"
  using assms by (simp add: acquire_def holding_eq free_lock_def fun_upd_idem)

lemma acquire_held: "cpu_ok (cs c) \<Longrightarrow> held_by c lk \<Longrightarrow> acquire c cs lk = Panic ''acquire''"
  by (simp add: acquire_def holding_eq held_by_def)

lemma release_held:
  assumes "cpu_ok (cs c)" "held_by c lk"
  shows "release c (pushcli c cs) lk = Ok (cs(c := saved (cs c)), lk\<lparr>lk_cpu := None, locked := 0\<rparr>)"
  using assms by (simp add: release_def holding_eq held_by_def popcli_pushcli fun_upd_idem)

lemma release_not_held:
  "cpu_ok (cs c) \<Longrightarrow> lk_cpu lk \<noteq> Some c \<Longrightarrow> release c cs lk = Panic ''release''"
  by (simp add: release_def holding_eq)

lemma free_lock_update [simp]:
  "free_lock lk \<Longrightarrow> lk\<lparr>lk_cpu := None, locked := 0\<rparr> = lk"
  "free_lock lk \<Longrightarrow> lk\<lparr>locked := 0, lk_cpu := None\<rparr> = lk"
  by (cases lk, simp add: free_lock_def)+

lemma mycpu_self:
  assumes "c < ncpu" "apicid (cs c) = lapicid" "\<not> interrupts_on cs c"
    and "inj_on (\<lambda>i. apicid (cs i)) {..<ncpu}"
  shows "mycpu cs ncpu lapicid c = Ok c"
proof -
  obtain i where i: "find (\<lambda>i. apicid (cs i) = lapicid) [0..<ncpu] = Some i"
    using assms(1,2) by (cases "find (\<lambda>i. apicid (cs i) = lapicid) [0..<ncpu]") (auto simp: find_None_iff)
  then have "i < ncpu" "apicid (cs i) = lapicid" by (auto simp: find_Some_iff)
  with assms have "i = c" by (auto dest: inj_onD)
  with i assms show ?thesis by (simp add: mycpu_def)
qed

section \<open>Interleaving\<close>

text \<open>
  Any number of CPUs contend for one lock.  A CPU is outside, spinning on the
  \<open>xchg\<close>, past the \<open>xchg\<close> but with \<open>lk->cpu\<close> not yet written, inside, in \<open>release\<close> with
  \<open>lk->cpu\<close> cleared and \<open>lk->locked\<close> not yet, or past that store and before \<open>popcli\<close>.  Each rule is one atomic instruction (or a
  run of instructions on the CPU's own state) of \<open>acquire\<close> and \<open>release\<close>.
\<close>

datatype lkpc = Outside | Spinning | Owning | Inside | Leaving | Unlocked

record lksys =
  y_lc :: cpus
  y_lk :: spinlock
  y_pc :: "nat \<Rightarrow> lkpc"

inductive lk_step :: "lksys \<Rightarrow> lksys \<Rightarrow> bool" where
  lk_enter: "y_pc s c = Outside \<Longrightarrow> holding c (pushcli c (y_lc s)) (y_lk s) = Ok (False, cs) \<Longrightarrow>
     lk_step s (s\<lparr>y_lc := cs, y_pc := (y_pc s)(c := Spinning)\<rparr>)"
| lk_spin: "y_pc s c = Spinning \<Longrightarrow> locked (y_lk s) \<noteq> 0 \<Longrightarrow>
     lk_step s (s\<lparr>y_lk := (y_lk s)\<lparr>locked := 1\<rparr>\<rparr>)"
| lk_win: "y_pc s c = Spinning \<Longrightarrow> locked (y_lk s) = 0 \<Longrightarrow>
     lk_step s (s\<lparr>y_lk := (y_lk s)\<lparr>locked := 1\<rparr>, y_pc := (y_pc s)(c := Owning)\<rparr>)"
| lk_own: "y_pc s c = Owning \<Longrightarrow>
     lk_step s (s\<lparr>y_lk := (y_lk s)\<lparr>lk_cpu := Some c\<rparr>, y_pc := (y_pc s)(c := Inside)\<rparr>)"
| lk_leave: "y_pc s c = Inside \<Longrightarrow> holding c (y_lc s) (y_lk s) = Ok (True, cs) \<Longrightarrow>
     lk_step s (s\<lparr>y_lc := cs, y_lk := (y_lk s)\<lparr>lk_cpu := None\<rparr>, y_pc := (y_pc s)(c := Leaving)\<rparr>)"
| lk_unlock: "y_pc s c = Leaving \<Longrightarrow>
     lk_step s (s\<lparr>y_lk := (y_lk s)\<lparr>locked := 0\<rparr>, y_pc := (y_pc s)(c := Unlocked)\<rparr>)"
| lk_pop: "y_pc s c = Unlocked \<Longrightarrow> popcli c (y_lc s) = Ok cs \<Longrightarrow>
     lk_step s (s\<lparr>y_lc := cs, y_pc := (y_pc s)(c := Outside)\<rparr>)"

definition lk_init :: "lksys \<Rightarrow> bool" where
  "lk_init s \<longleftrightarrow> free_lock (y_lk s) \<and> (\<forall>c. y_pc s c = Outside \<and> cpu_ok (y_lc s c))"

inductive lk_reach :: "lksys \<Rightarrow> bool" where
  lk_start: "lk_init s \<Longrightarrow> lk_reach s"
| lk_next: "lk_reach s \<Longrightarrow> lk_step s t \<Longrightarrow> lk_reach t"

definition has_lock :: "lkpc \<Rightarrow> bool" where
  "has_lock p \<longleftrightarrow> p = Owning \<or> p = Inside \<or> p = Leaving"

lemma has_lock_simps [simp]:
  "\<not> has_lock Outside" "\<not> has_lock Spinning" "has_lock Owning" "has_lock Inside" "has_lock Leaving" "\<not> has_lock Unlocked"
  by (simp_all add: has_lock_def)

definition lk_inv :: "lksys \<Rightarrow> bool" where
  "lk_inv s \<longleftrightarrow>
     (\<forall>c. cpu_ok (y_lc s c)) \<and>
     (\<forall>c. y_pc s c \<noteq> Outside \<longrightarrow> 0 < ncli (y_lc s c)) \<and>
     (\<forall>c. lk_cpu (y_lk s) = Some c \<longleftrightarrow> y_pc s c = Inside) \<and>
     (\<forall>c d. has_lock (y_pc s c) \<longrightarrow> has_lock (y_pc s d) \<longrightarrow> c = d) \<and>
     (locked (y_lk s) \<noteq> 0 \<longleftrightarrow> (\<exists>c. has_lock (y_pc s c)))"

lemma holding_cpus:
  assumes "cpu_ok (cs c)" "holding c cs l = Ok (h, cs')"
  shows "cs' = cs(c := saved (cs c))" "h \<longleftrightarrow> locked l \<noteq> 0 \<and> lk_cpu l = Some c"
  using assms by (auto simp: holding_eq)

lemma popcli_ncli:
  assumes "cpu_ok (cs c)" "popcli c cs = Ok cs'"
  shows "cpu_ok (cs' c)" "\<And>d. d \<noteq> c \<Longrightarrow> cs' d = cs d"
  using assms by (auto simp: popcli_def Let_def sti_def cpu_ok_def interrupts_on_def split: if_splits)

lemma popcli_total:
  assumes "cpu_ok (cs c)" "0 < ncli (cs c)"
  shows "\<exists>cs'. popcli c cs = Ok cs'"
  using assms by (auto simp: popcli_def Let_def cpu_ok_def interrupts_on_def)

lemma pushcli_other [simp]: "d \<noteq> c \<Longrightarrow> pushcli c cs d = cs d"
  by (simp add: pushcli_def cli_def Let_def)

lemma lk_step_inv: "lk_step s t \<Longrightarrow> lk_inv s \<Longrightarrow> lk_inv t"
proof (induction rule: lk_step.induct)
  case (lk_enter s c cs)
  then have ok: "cpu_ok (pushcli c (y_lc s) c)" by (simp add: lk_inv_def)
  then have cs: "cs = pushcli c (y_lc s)"
    using holding_cpus[OF ok lk_enter(2)] lk_enter(3) by (simp add: lk_inv_def fun_upd_idem)
  have "cpu_ok (cs d)" for d using ok lk_enter(3) cs by (cases "d = c") (auto simp: lk_inv_def)
  moreover have "0 < ncli (cs c)" using lk_enter(3) cs by (auto simp: lk_inv_def cpu_ok_def)
  moreover have "cs d = y_lc s d" if "d \<noteq> c" for d using cs that by simp
  ultimately show ?case using lk_enter(1,3) unfolding lk_inv_def by simp (metis has_lock_simps(1))
next
  case (lk_leave s c cs)
  then have ok: "cpu_ok (y_lc s c)" by (simp add: lk_inv_def)
  have cs: "cs = (y_lc s)(c := saved (y_lc s c))" using holding_cpus[OF ok lk_leave(2)] by simp
  have "has_lock (y_pc s c)" by (simp add: lk_leave(1))
  then have "locked (y_lk s) \<noteq> 0" using lk_leave(3) unfolding lk_inv_def by blast
  with cs show ?case using lk_leave(1,3) by (auto simp: lk_inv_def)
next
  case (lk_unlock s c)
  then have has: "has_lock (y_pc s c)" by simp
  then have only: "has_lock (y_pc s d) \<Longrightarrow> d = c" for d using lk_unlock(2) unfolding lk_inv_def by blast
  then have "y_pc s d \<noteq> Inside" for d using lk_unlock(1) by (metis has_lock_simps(4) lkpc.distinct(25))
  then show ?case using lk_unlock only by (auto simp: lk_inv_def)
next
  case (lk_pop s c cs)
  then have ok: "cpu_ok (y_lc s c)" by (simp add: lk_inv_def)
  note p = popcli_ncli[OF ok lk_pop(2)]
  have "cpu_ok (cs d)" for d using p lk_pop(3) by (cases "d = c") (auto simp: lk_inv_def)
  moreover define pc where "pc = (y_pc s)(c := Outside)"
  then have l: "has_lock (pc d) = has_lock (y_pc s d)" "pc d = Inside \<longleftrightarrow> y_pc s d = Inside" for d using lk_pop(1) by simp_all
  moreover have "0 < ncli (cs d)" if "pc d \<noteq> Outside" for d
    using that p(2)[of d] lk_pop(3) unfolding lk_inv_def pc_def by (metis fun_upd_apply)
  ultimately show ?case using lk_pop(3) unfolding pc_def[symmetric] by (simp add: lk_inv_def)
next
  case (lk_spin s c)
  then show ?case by (simp add: lk_inv_def)
next
  case (lk_win s c)
  then have none: "\<not> has_lock (y_pc s d)" for d unfolding lk_inv_def by blast
  then have "y_pc s d \<noteq> Inside" for d by (metis has_lock_simps(4))
  with none lk_win show ?case by (auto simp: lk_inv_def)
next
  case (lk_own s c)
  then have has: "has_lock (y_pc s c)" by simp
  then have "locked (y_lk s) \<noteq> 0" using lk_own(2) unfolding lk_inv_def by blast
  moreover from has have only: "has_lock (y_pc s d) \<Longrightarrow> d = c" for d using lk_own(2) unfolding lk_inv_def by blast
  moreover have "y_pc s d \<noteq> Inside" if "d \<noteq> c" for d using only that by (metis has_lock_simps(4))
  ultimately show ?case using lk_own by (auto simp: lk_inv_def)
qed

lemma lk_reach_inv: "lk_reach s \<Longrightarrow> lk_inv s"
proof (induction rule: lk_reach.induct)
  case (lk_start s)
  then show ?case by (auto simp: lk_init_def lk_inv_def free_lock_def)
next
  case (lk_next s t)
  then show ?case by (blast intro: lk_step_inv)
qed

text \<open>A CPU that is not disturbed runs through \<open>acquire\<close> and \<open>release\<close> as the functions say.\<close>

lemma three_steps: "r a b \<Longrightarrow> r b c \<Longrightarrow> r c d \<Longrightarrow> r\<^sup>*\<^sup>* a d"
  by (rule converse_rtranclp_into_rtranclp[OF _ converse_rtranclp_into_rtranclp[OF _ r_into_rtranclp]])

lemma lk_acquire:
  assumes pc: "y_pc s c = Outside" and a: "acquire c (y_lc s) (y_lk s) = Ok (cs, l)"
  shows "lk_step\<^sup>*\<^sup>* s (s\<lparr>y_lc := cs, y_lk := l, y_pc := (y_pc s)(c := Inside)\<rparr>)"
proof -
  obtain h cs2 where h: "holding c (pushcli c (y_lc s)) (y_lk s) = Ok (h, cs2)"
    using a by (cases "holding c (pushcli c (y_lc s)) (y_lk s)") (auto simp: acquire_def)
  then have e: "\<not> h" "locked (y_lk s) = 0" "cs = cs2" "l = (y_lk s)\<lparr>locked := 1, lk_cpu := Some c\<rparr>"
    using a by (auto simp: acquire_def split: if_splits)
  let ?s1 = "s\<lparr>y_lc := cs2, y_pc := (y_pc s)(c := Spinning)\<rparr>"
  let ?s2 = "?s1\<lparr>y_lk := (y_lk ?s1)\<lparr>locked := 1\<rparr>, y_pc := (y_pc ?s1)(c := Owning)\<rparr>"
  have "lk_step s ?s1" using lk_enter[OF pc] h e(1) by simp
  moreover have "lk_step ?s1 ?s2" by (rule lk_win) (simp_all add: e(2))
  moreover have "lk_step ?s2 (?s2\<lparr>y_lk := (y_lk ?s2)\<lparr>lk_cpu := Some c\<rparr>, y_pc := (y_pc ?s2)(c := Inside)\<rparr>)" by (rule lk_own) simp
  ultimately have "lk_step\<^sup>*\<^sup>* s (?s2\<lparr>y_lk := (y_lk ?s2)\<lparr>lk_cpu := Some c\<rparr>, y_pc := (y_pc ?s2)(c := Inside)\<rparr>)" by (rule three_steps)
  then show ?thesis using e(3,4) by simp
qed

lemma lk_release:
  assumes pc: "y_pc s c = Inside" and a: "release c (y_lc s) (y_lk s) = Ok (cs, l)"
  shows "lk_step\<^sup>*\<^sup>* s (s\<lparr>y_lc := cs, y_lk := l, y_pc := (y_pc s)(c := Outside)\<rparr>)"
proof -
  obtain h cs1 where h: "holding c (y_lc s) (y_lk s) = Ok (h, cs1)"
    using a by (cases "holding c (y_lc s) (y_lk s)") (auto simp: release_def)
  then have e: "h" "popcli c cs1 = Ok cs" "l = (y_lk s)\<lparr>lk_cpu := None, locked := 0\<rparr>"
    using a by (cases "popcli c cs1"; auto simp: release_def split: if_splits)+
  let ?s1 = "s\<lparr>y_lc := cs1, y_lk := (y_lk s)\<lparr>lk_cpu := None\<rparr>, y_pc := (y_pc s)(c := Leaving)\<rparr>"
  let ?s2 = "?s1\<lparr>y_lk := (y_lk ?s1)\<lparr>locked := 0\<rparr>, y_pc := (y_pc ?s1)(c := Unlocked)\<rparr>"
  have "lk_step s ?s1" using lk_leave[OF pc] h e(1) by simp
  moreover have "lk_step ?s1 ?s2" by (rule lk_unlock) simp
  moreover have "lk_step ?s2 (?s2\<lparr>y_lc := cs, y_pc := (y_pc ?s2)(c := Outside)\<rparr>)" by (rule lk_pop) (simp_all add: e(2))
  ultimately have "lk_step\<^sup>*\<^sup>* s (?s2\<lparr>y_lc := cs, y_pc := (y_pc ?s2)(c := Outside)\<rparr>)" by (rule three_steps)
  moreover have "?s2\<lparr>y_lc := cs, y_pc := (y_pc ?s2)(c := Outside)\<rparr> = s\<lparr>y_lc := cs, y_lk := l, y_pc := (y_pc s)(c := Outside)\<rparr>"
    by (rule lksys.equality) (simp_all add: e(3))
  ultimately show ?thesis by simp
qed

section \<open>Properties\<close>

text \<open>
  C5: mutual exclusion.  However the instructions of \<open>acquire\<close> and \<open>release\<close> of any
  number of CPUs interleave, two CPUs are never both between the \<open>xchg\<close> that takes
  the lock and the store that frees it, the CPU recorded in the lock is the one
  inside, and it runs with interrupts off.  The steps are those of the two functions: a call of
  \<open>acquire\<close> or \<open>release\<close> that returns is a run of steps with the same result.
\<close>

theorem spinlock_mutual_exclusion:
  assumes "lk_reach s"
  shows "(\<forall>c. has_lock (y_pc s c) \<longrightarrow> (\<forall>d. has_lock (y_pc s d) \<longrightarrow> d = c) \<and> locked (y_lk s) \<noteq> 0 \<and>
         (y_pc s c = Inside \<longrightarrow> lk_cpu (y_lk s) = Some c) \<and> \<not> interrupts_on (y_lc s) c) \<and>
     (\<forall>c cs l. y_pc s c = Outside \<and> acquire c (y_lc s) (y_lk s) = Ok (cs, l) \<longrightarrow>
         lk_step\<^sup>*\<^sup>* s (s\<lparr>y_lc := cs, y_lk := l, y_pc := (y_pc s)(c := Inside)\<rparr>)) \<and>
     (\<forall>c cs l. y_pc s c = Inside \<and> release c (y_lc s) (y_lk s) = Ok (cs, l) \<longrightarrow>
         lk_step\<^sup>*\<^sup>* s (s\<lparr>y_lc := cs, y_lk := l, y_pc := (y_pc s)(c := Outside)\<rparr>))"
proof (intro conjI allI impI)
  have inv: "lk_inv s" using assms(1) by (rule lk_reach_inv)
  fix c assume has: "has_lock (y_pc s c)"
  then have "y_pc s c \<noteq> Outside" by auto
  then have "0 < ncli (y_lc s c)" "cpu_ok (y_lc s c)" using inv unfolding lk_inv_def by blast+
  then show "\<not> interrupts_on (y_lc s) c" by (simp add: cpu_ok_def interrupts_on_def)
  show "d = c" if "has_lock (y_pc s d)" for d using inv has that unfolding lk_inv_def by blast
  show "locked (y_lk s) \<noteq> 0" using inv has unfolding lk_inv_def by blast
  show "lk_cpu (y_lk s) = Some c" if "y_pc s c = Inside" using inv that unfolding lk_inv_def by blast
qed (simp_all add: lk_acquire lk_release)

text \<open>Two CPUs contend: CPU 0 has taken the lock, CPU 1 spins.\<close>

definition idle_cpu :: cpu where
  "idle_cpu = \<lparr>apicid = 0, ts_esp0 = 0, ts_ss0 = 0, ts_iomb = 0,
     gdt = (\<lambda>_. SEG 0 0 0 0), started = 1, ncli = 0, intena = 0, cproc = None, eflags = 0, cr3 = 0\<rparr>"

definition lk_start_state :: lksys where
  "lk_start_state = \<lparr>y_lc = (\<lambda>_. idle_cpu), y_lk = initlock ''l'', y_pc = (\<lambda>_. Outside)\<rparr>"

theorem spinlock_mutual_exclusion_witness:
  "\<exists>s. lk_reach s \<and> y_pc s 0 = Owning \<and> y_pc s 1 = Spinning \<and> locked (y_lk s) \<noteq> 0 \<and> \<not> interrupts_on (y_lc s) 0 \<and>
     \<not> has_lock (y_pc s 1)"
proof -
  let ?c = "\<lambda>c cs. pushcli c cs"
  let ?s0 = lk_start_state
  let ?s1 = "?s0\<lparr>y_lc := ?c 0 (y_lc ?s0), y_pc := (y_pc ?s0)(0 := Spinning)\<rparr>"
  let ?s2 = "?s1\<lparr>y_lc := ?c 1 (y_lc ?s1), y_pc := (y_pc ?s1)(1 := Spinning)\<rparr>"
  let ?s3 = "?s2\<lparr>y_lk := (y_lk ?s2)\<lparr>locked := 1\<rparr>, y_pc := (y_pc ?s2)(0 := Owning)\<rparr>"
  have ok: "cpu_ok idle_cpu" by (simp add: idle_cpu_def cpu_ok_def)
  have "lk_init ?s0" by (simp add: lk_init_def lk_start_state_def free_lock_def initlock_def ok)
  then have r0: "lk_reach ?s0" by (rule lk_start)
  have h0: "holding 0 (?c 0 (y_lc ?s0)) (y_lk ?s0) = Ok (False, ?c 0 (y_lc ?s0))"
    using ok by (simp add: holding_eq lk_start_state_def initlock_def fun_upd_idem)
  have r1: "lk_reach ?s1" by (rule lk_next[OF r0 lk_enter[OF _ h0]]) (simp add: lk_start_state_def)
  have h1: "holding 1 (?c 1 (y_lc ?s1)) (y_lk ?s1) = Ok (False, ?c 1 (y_lc ?s1))"
    using ok by (simp add: holding_eq lk_start_state_def initlock_def fun_upd_idem)
  have r2: "lk_reach ?s2" by (rule lk_next[OF r1 lk_enter[OF _ h1]]) (simp add: lk_start_state_def)
  have r3: "lk_reach ?s3"
    by (rule lk_next[OF r2 lk_win]) (simp_all add: lk_start_state_def initlock_def)
  have "has_lock (y_pc ?s3 0)" by simp
  then show ?thesis using spinlock_mutual_exclusion[OF r3] r3 by (intro exI[of _ ?s3]) simp
qed

end
