(* ===== verification/Kalloc.thy ===== *)
theory Kalloc
  imports Spinlock
begin

unbundle bit_operations_syntax

text \<open>
  The physical page allocator of \<open>kalloc.c\<close>.  The free list runs through the first
  word of each free page, in the same memory the rest of the kernel uses.  The
  linker symbols \<open>end\<close> and \<open>data\<close> are fields of the state no operation writes.
  The locale \<open>page_allocator\<close> states what clients rely on, and is interpreted on
  \<open>kalloc\<close> and \<open>kfree\<close>.
\<close>

record kmem_st =
  cpus :: cpus
  mem :: mem
  end_sym :: uint
  data_sym :: uint
  kmem_lock :: spinlock
  use_lock :: bool
  freelist :: uint

section \<open>The code\<close>

definition kmem_acquire :: "nat \<Rightarrow> 'a kmem_st_scheme \<Rightarrow> 'a kmem_st_scheme res" where
  "kmem_acquire c s =
     (if use_lock s
      then rbind (acquire c (cpus s) (kmem_lock s)) (\<lambda>(cs, l). Ok (s\<lparr>cpus := cs, kmem_lock := l\<rparr>))
      else Ok s)"

definition kmem_release :: "nat \<Rightarrow> 'a kmem_st_scheme \<Rightarrow> 'a kmem_st_scheme res" where
  "kmem_release c s =
     (if use_lock s
      then rbind (release c (cpus s) (kmem_lock s)) (\<lambda>(cs, l). Ok (s\<lparr>cpus := cs, kmem_lock := l\<rparr>))
      else Ok s)"

definition kfree :: "nat \<Rightarrow> uint \<Rightarrow> 'a kmem_st_scheme \<Rightarrow> 'a kmem_st_scheme res" where
  "kfree c v s =
     (if v mod PGSIZE \<noteq> 0 \<or> v < end_sym s \<or> V2P v \<ge> PHYSTOP then Panic ''kfree''
      else let s1 = s\<lparr>mem := memset (mem s) v 1 PGSIZE\<rparr>
           in rbind (kmem_acquire c s1) (\<lambda>s2.
                kmem_release c (s2\<lparr>mem := st32 (mem s2) v (freelist s2), freelist := v\<rparr>)))"

definition kalloc :: "nat \<Rightarrow> 'a kmem_st_scheme \<Rightarrow> (uint \<times> 'a kmem_st_scheme) res" where
  "kalloc c s =
     rbind (kmem_acquire c s) (\<lambda>s1.
       let r = freelist s1;
           s2 = (if r \<noteq> 0 then s1\<lparr>freelist := ld32 (mem s1) r\<rparr> else s1)
       in rbind (kmem_release c s2) (\<lambda>s3. Ok (r, s3)))"

definition freerange :: "nat \<Rightarrow> uint \<Rightarrow> uint \<Rightarrow> 'a kmem_st_scheme \<Rightarrow> 'a kmem_st_scheme res" where
  "freerange c vstart vend s =
     rbind (while_res (\<lambda>(p, s). p + PGSIZE \<le> vend)
                      (\<lambda>(p, s). rbind (kfree c p s) (\<lambda>s'. Ok (p + PGSIZE, s')))
                      (PGROUNDUP vstart, s))
       (\<lambda>(p, s'). Ok s')"

definition kinit1 :: "nat \<Rightarrow> uint \<Rightarrow> uint \<Rightarrow> 'a kmem_st_scheme \<Rightarrow> 'a kmem_st_scheme res" where
  "kinit1 c vstart vend s =
     freerange c vstart vend (s\<lparr>kmem_lock := initlock ''kmem'', use_lock := False\<rparr>)"

definition kinit2 :: "nat \<Rightarrow> uint \<Rightarrow> uint \<Rightarrow> 'a kmem_st_scheme \<Rightarrow> 'a kmem_st_scheme res" where
  "kinit2 c vstart vend s = rbind (freerange c vstart vend s) (\<lambda>s'. Ok (s'\<lparr>use_lock := True\<rparr>))"

section \<open>The free list\<close>

text \<open>The nodes of the list that starts at \<open>p\<close>.\<close>

fun flist :: "mem \<Rightarrow> uint \<Rightarrow> uint list \<Rightarrow> bool" where
  "flist m p [] \<longleftrightarrow> p = 0"
| "flist m p (x # xs) \<longleftrightarrow> p = x \<and> x \<noteq> 0 \<and> flist m (ld32 m x) xs"

definition page :: "uint \<Rightarrow> uint set" where
  "page v = span v 4096"

definition kpage :: "uint \<Rightarrow> uint \<Rightarrow> bool" where
  "kpage kend v \<longleftrightarrow> page_aligned v \<and> kend \<le> v \<and> V2P v < PHYSTOP"

definition kmem_ok :: "nat \<Rightarrow> 'a kmem_st_scheme \<Rightarrow> uint list \<Rightarrow> bool" where
  "kmem_ok c s xs \<longleftrightarrow>
     cpu_ok (cpus s c) \<and> free_lock (kmem_lock s) \<and>
     flist (mem s) (freelist s) xs \<and> distinct xs \<and> (\<forall>x \<in> set xs. kpage (end_sym s) x)"

text \<open>The trace a balanced acquire/release of \<open>kmem.lock\<close> leaves.\<close>

definition touch :: "nat \<Rightarrow> 'a kmem_st_scheme \<Rightarrow> 'a kmem_st_scheme" where
  "touch c s = (if use_lock s then s\<lparr>cpus := (cpus s)(c := saved (cpus s c))\<rparr> else s)"

lemma touch_simps [simp]:
  "mem (touch c s) = mem s" "freelist (touch c s) = freelist s" "kmem_lock (touch c s) = kmem_lock s"
  "end_sym (touch c s) = end_sym s" "data_sym (touch c s) = data_sym s" "use_lock (touch c s) = use_lock s"
  "cpu_ok (cpus (touch c s) c) = cpu_ok (cpus s c)" "d \<noteq> c \<Longrightarrow> cpus (touch c s) d = cpus s d"
  "kmem_st.more (touch c s) = kmem_st.more s"
  "ncli (cpus (touch c s) d) = ncli (cpus s d)" "eflags (cpus (touch c s) d) = eflags (cpus s d)"
  "cproc (cpus (touch c s) d) = cproc (cpus s d)"
  by (simp_all add: touch_def)

lemma held_by_acquired [simp]: "held_by c (l\<lparr>locked := 1, lk_cpu := Some c\<rparr>)"
  by (simp add: held_by_def)

lemma kalloc_eq:
  assumes "cpu_ok (cpus s c)" "free_lock (kmem_lock s)"
  shows "kalloc c s = Ok (freelist s,
    (touch c s)\<lparr>freelist := (if freelist s \<noteq> 0 then ld32 (mem s) (freelist s) else 0)\<rparr>)"
  using assms
  by (auto simp: kalloc_def Let_def kmem_acquire_def kmem_release_def acquire_free release_held
      touch_def intro!: kmem_st.equality)

lemma kfree_eq:
  assumes "cpu_ok (cpus s c)" "free_lock (kmem_lock s)" "kpage (end_sym s) v"
  shows "kfree c v s = Ok ((touch c s)\<lparr>mem := st32 (memset (mem s) v 1 PGSIZE) v (freelist s), freelist := v\<rparr>)"
proof -
  have "unat v mod 4096 = 0" using assms(3) by (simp add: kpage_def page_aligned_def)
  then have "v mod PGSIZE = 0" by (simp add: PGSIZE_def word_unat_eq_iff unat_mod)
  then show ?thesis using assms
    by (auto simp: kfree_def Let_def kmem_acquire_def kmem_release_def acquire_free release_held
        touch_def kpage_def not_less intro!: kmem_st.equality)
qed

text \<open>Pages are apart, and a free page's link word lies inside it.\<close>

lemma page_aligned_4: "page_aligned v \<Longrightarrow> aligned4 v"
proof -
  assume "page_aligned v"
  then have "4096 dvd unat v" by (simp add: page_aligned_def dvd_eq_mod_eq_0)
  then have "4 dvd unat v" by (rule dvd_trans[rotated]) simp
  then show ?thesis by (simp add: aligned4_def)
qed

lemma page_alignedE:
  assumes "page_aligned v"
  obtains k where "unat v = 4096 * k"
  using assms by (auto simp: page_aligned_def dest!: mod_0_imp_dvd)

lemma unat_page_off:
  assumes "page_aligned v" "i < 4096"
  shows "unat (v + of_nat i) = unat v + i"
proof -
  obtain k where k: "unat v = 4096 * k" using assms(1) by (rule page_alignedE)
  then have "k < 2 ^ 20" using unat_uint_less[of v] by simp
  then have "unat v + i < 2 ^ 32" using k assms(2) by simp
  then show ?thesis using assms(2) by (simp add: unat_word_ariths unat_of_nat)
qed

lemma page_iff:
  assumes "page_aligned v"
  shows "a \<in> page v \<longleftrightarrow> PGROUNDDOWN a = v"
proof
  assume "a \<in> page v"
  then have i: "unat (a - v) < 4096" by (simp add: page_def span_def)
  then have "unat a = unat v + unat (a - v)"
    using unat_page_off[OF assms i] by simp
  moreover obtain k where "unat v = 4096 * k" using assms by (rule page_alignedE)
  ultimately show "PGROUNDDOWN a = v" using i
    by (simp add: word_unat_eq_iff unat_PGROUNDDOWN)
next
  assume "PGROUNDDOWN a = v"
  then have "unat v = unat a div 4096 * 4096" using unat_PGROUNDDOWN[of a] by simp
  then have "unat v \<le> unat a" "unat a - unat v < 4096"
    by (simp_all add: minus_div_mult_eq_mod)
  then show "a \<in> page v" by (simp add: page_def span_def unat_diff_uint)
qed

lemma pages_disjoint: "page_aligned v \<Longrightarrow> page_aligned w \<Longrightarrow> v \<noteq> w \<Longrightarrow> page v \<inter> page w = {}"
  by (auto simp: page_iff)

lemma page_off_in: "page_aligned v \<Longrightarrow> i < 4096 \<Longrightarrow> v + of_nat i \<in> page v"
  by (simp add: page_def span_def unat_of_nat)

lemma unat_PGSIZE [simp]: "unat PGSIZE = 4096"
  by (simp add: PGSIZE_def)

lemma kfree_mem_outside:
  assumes "page_aligned v" "a \<notin> page v"
  shows "st32 (memset m v 1 PGSIZE) v f a = m a"
proof -
  have "a \<noteq> v + of_nat k" if "k < 4" for k
    using assms page_off_in[of v k] that by auto
  then show ?thesis using assms(2)
    by (simp add: st32_outside memset_apply page_def)
qed

lemma ld32_page_cong:
  assumes "page_aligned x" "i + 4 \<le> 4096" "\<And>a. a \<in> page x \<Longrightarrow> m a = m' a"
  shows "ld32 m (x + of_nat i) = ld32 m' (x + of_nat i)"
proof (rule ld32_cong)
  fix k :: nat assume "k < 4"
  then have "x + of_nat (i + k) \<in> page x" using assms by (intro page_off_in) auto
  then show "m (x + of_nat i + of_nat k) = m' (x + of_nat i + of_nat k)"
    using assms(3) by (simp add: algebra_simps)
qed

lemma flist_cong:
  assumes "\<And>x. x \<in> set xs \<Longrightarrow> ld32 m x = ld32 m' x"
  shows "flist m p xs = flist m' p xs"
  using assms by (induction xs arbitrary: p) auto

text \<open>The free list survives every write outside the free pages.\<close>

lemma flist_frame:
  assumes "\<forall>x \<in> set xs. page_aligned x" "\<And>x a. x \<in> set xs \<Longrightarrow> a \<in> page x \<Longrightarrow> m' a = m a"
  shows "flist m' p xs = flist m p xs"
proof (rule flist_cong)
  fix x assume "x \<in> set xs"
  then show "ld32 m' x = ld32 m x"
    using assms ld32_page_cong[of x 0 m' m] by auto
qed

lemma kpage_nonzero: "kpage e v \<Longrightarrow> v \<noteq> 0"
  by (auto simp: kpage_def V2P_def KERNBASE_def PHYSTOP_def)

lemma kmem_ok_kfree:
  assumes "kmem_ok c s xs" "kpage (end_sym s) v" "v \<notin> set xs"
  shows "\<exists>s'. kfree c v s = Ok s' \<and> kmem_ok c s' (v # xs) \<and> end_sym s' = end_sym s \<and>
           (\<forall>a. a \<notin> page v \<longrightarrow> mem s' a = mem s a)"
proof -
  let ?m = "st32 (memset (mem s) v 1 PGSIZE) v (freelist s)"
  have al: "page_aligned v" using assms(2) by (simp add: kpage_def)
  have xs: "\<forall>x \<in> set xs. page_aligned x" using assms(1) by (auto simp: kmem_ok_def kpage_def)
  have "flist ?m (freelist s) xs"
  proof -
    have "?m a = mem s a" if "x \<in> set xs" "a \<in> page x" for x a
    proof (rule kfree_mem_outside[OF al])
      show "a \<notin> page v" using that xs al assms(3) pages_disjoint[of x v] by auto
    qed
    then have "flist ?m (freelist s) xs = flist (mem s) (freelist s) xs"
      by (rule flist_frame[OF xs])
    with assms(1) show ?thesis by (simp add: kmem_ok_def)
  qed
  then have "flist ?m v (v # xs)" using kpage_nonzero[OF assms(2)] by simp
  then have "kmem_ok c ((touch c s)\<lparr>mem := ?m, freelist := v\<rparr>) (v # xs)"
    using assms by (simp add: kmem_ok_def)
  then show ?thesis using assms kfree_mem_outside[OF al, where m = "mem s" and f = "freelist s"]
    by (simp add: kfree_eq kmem_ok_def)
qed

lemma kmem_ok_kalloc:
  assumes "kmem_ok c s xs"
  shows "\<exists>s'. kalloc c s = Ok (case xs of [] \<Rightarrow> 0 | x # _ \<Rightarrow> x, s') \<and> kmem_ok c s' (tl xs) \<and>
           end_sym s' = end_sym s \<and> mem s' = mem s"
  using assms by (cases xs) (auto simp: kalloc_eq kmem_ok_def)

section \<open>The interface\<close>

text \<open>
  What a client may rely on: the allocator keeps a list of distinct valid pages,
  hands out its first page (0 when there is none) and takes back any valid page
  that is not on the list.
\<close>

locale page_allocator =
  fixes alloc :: "'s \<Rightarrow> (uint \<times> 's) res"
    and dealloc :: "uint \<Rightarrow> 's \<Rightarrow> 's res"
    and rep :: "'s \<Rightarrow> uint list \<Rightarrow> bool"
    and valid :: "'s \<Rightarrow> uint \<Rightarrow> bool"
  assumes alloc_Nil: "rep s [] \<Longrightarrow> \<exists>s'. alloc s = Ok (0, s') \<and> rep s' []"
    and alloc_Cons: "rep s (x # xs) \<Longrightarrow> \<exists>s'. alloc s = Ok (x, s') \<and> rep s' xs \<and> valid s' = valid s"
    and dealloc_rep: "rep s xs \<Longrightarrow> valid s v \<Longrightarrow> v \<notin> set xs \<Longrightarrow>
          \<exists>s'. dealloc v s = Ok s' \<and> rep s' (v # xs) \<and> valid s' = valid s"
    and rep_distinct: "rep s xs \<Longrightarrow> distinct xs"
    and rep_valid: "rep s xs \<Longrightarrow> x \<in> set xs \<Longrightarrow> valid s x"
    and valid_nonzero: "valid s v \<Longrightarrow> v \<noteq> 0"
begin

text \<open>Giving back the page just taken restores the list.\<close>

lemma alloc_dealloc:
  assumes "rep s xs" "alloc s = Ok (v, s1)" "v \<noteq> 0"
  shows "\<exists>s2. dealloc v s1 = Ok s2 \<and> rep s2 xs"
proof (cases xs)
  case Nil
  with assms alloc_Nil show ?thesis by fastforce
next
  case (Cons x ys)
  with assms(1,2) alloc_Cons obtain "rep s1 ys" "valid s1 = valid s" "v = x" by fastforce
  moreover have "x \<notin> set ys" "valid s x" using assms(1) Cons rep_distinct rep_valid by fastforce+
  ultimately show ?thesis using dealloc_rep Cons by fastforce
qed

text \<open>Repeated allocation hands out the pages of the list, each once.\<close>

fun alloc_n :: "nat \<Rightarrow> 's \<Rightarrow> (uint list \<times> 's) res" where
  "alloc_n 0 s = Ok ([], s)"
| "alloc_n (Suc n) s = rbind (alloc s) (\<lambda>(v, s1). rbind (alloc_n n s1) (\<lambda>(vs, s2). Ok (v # vs, s2)))"

lemma alloc_n_pages:
  assumes "rep s xs" "n \<le> length xs"
  shows "\<exists>s'. alloc_n n s = Ok (take n xs, s') \<and> rep s' (drop n xs)"
  using assms
proof (induction n arbitrary: s xs)
  case 0
  then show ?case by simp
next
  case (Suc n)
  then obtain x ys where "xs = x # ys" by (cases xs) auto
  with Suc alloc_Cons[of s x ys] show ?case by fastforce
qed

end

interpretation km: page_allocator "kalloc c" "kfree c" "kmem_ok c" "\<lambda>s. kpage (end_sym s)"
proof
  fix s :: "'a kmem_st_scheme" and xs x v
  show "\<exists>s'. kalloc c s = Ok (0, s') \<and> kmem_ok c s' []" if "kmem_ok c s []"
    using kmem_ok_kalloc[OF that] by auto
  show "\<exists>s'. kalloc c s = Ok (x, s') \<and> kmem_ok c s' xs \<and> kpage (end_sym s') = kpage (end_sym s)"
    if "kmem_ok c s (x # xs)"
    using kmem_ok_kalloc[OF that] by auto
  show "\<exists>s'. kfree c v s = Ok s' \<and> kmem_ok c s' (v # xs) \<and> kpage (end_sym s') = kpage (end_sym s)"
    if "kmem_ok c s xs" "kpage (end_sym s) v" "v \<notin> set xs"
    using kmem_ok_kfree[OF that] by auto
  show "distinct xs" if "kmem_ok c s xs" using that by (simp add: kmem_ok_def)
  show "kpage (end_sym s) x" if "kmem_ok c s xs" "x \<in> set xs" using that by (simp add: kmem_ok_def)
  show "v \<noteq> 0" if "kpage (end_sym s) v" using that by (rule kpage_nonzero)
qed

section \<open>Filling the free list at boot\<close>

text \<open>The pages of a range, in increasing order.\<close>

definition pages_from :: "uint \<Rightarrow> nat \<Rightarrow> uint list" where
  "pages_from start n = map (\<lambda>i. start + of_nat (4096 * i)) [0..<n]"

lemma pages_from_Suc: "pages_from p (Suc n) = p # pages_from (p + 4096) n"
  by (simp add: pages_from_def upt_conv_Cons map_Suc_upt [symmetric] comp_def algebra_simps
      del: upt_Suc map_Suc_upt)

lemma pages_from_0 [simp]: "pages_from p 0 = []"
  by (simp add: pages_from_def)

lemma kpage_in_range:
  assumes "page_aligned p" "e \<le> p" "KERNBASE \<le> p" "p < KERNBASE + PHYSTOP"
  shows "kpage e p"
proof -
  have "unat (V2P p) = unat p - unat KERNBASE"
    using assms(3) by (simp add: V2P_def unat_sub)
  moreover have "unat p < unat KERNBASE + unat PHYSTOP"
    using assms(4) by (simp add: word_less_nat_alt KERNBASE_def PHYSTOP_def)
  moreover have "unat KERNBASE \<le> unat p" using assms(3) by (simp add: word_le_nat_alt)
  ultimately show ?thesis using assms by (simp add: kpage_def word_less_nat_alt)
qed

lemma page_aligned_next: "page_aligned p \<Longrightarrow> unat p + 4096 < 2 ^ 32 \<Longrightarrow> page_aligned (p + 4096)"
  by (simp add: page_aligned_def unat_word_ariths)

lemma freerange_loop:
  assumes "kmem_ok c s xs" "page_aligned p" "end_sym s \<le> p" "KERNBASE \<le> p"
    and "vend \<le> KERNBASE + PHYSTOP" "unat p < 0x90000000"
    and "n = (unat vend - unat p) div 4096"
    and "\<And>x. x \<in> set xs \<Longrightarrow> x < p \<or> vend \<le> x"
  shows "\<exists>q s'. while_res (\<lambda>(p, s). p + PGSIZE \<le> vend)
             (\<lambda>(p, s). rbind (kfree c p s) (\<lambda>s'. Ok (p + PGSIZE, s'))) (p, s) = Ok (q, s') \<and>
           kmem_ok c s' (rev (pages_from p n) @ xs)"
  using assms
proof (induction n arbitrary: p s xs)
  case 0
  then have "unat vend < unat p + 4096" by (auto simp: div_eq_0_iff)
  then have "\<not> p + PGSIZE \<le> vend"
    using "0.prems"(6) by (simp add: word_le_nat_alt PGSIZE_def unat_word_ariths)
  with "0.prems" show ?case by (subst while_res_unfold) simp
next
  case (Suc n)
  have up: "unat (p + 4096) = unat p + 4096"
    using Suc.prems(6) by (simp add: unat_word_ariths)
  have fit: "unat p + 4096 \<le> unat vend" and n: "n = (unat vend - unat (p + 4096)) div 4096"
    using Suc.prems(7) unfolding up by linarith+
  have vend: "unat vend \<le> 0x8E000000" using Suc.prems(5)
    by (simp add: word_le_nat_alt KERNBASE_def PHYSTOP_def)
  have lt: "p < vend" "p < p + 4096" using fit up by (auto simp: word_less_nat_alt)
  have kp: "kpage (end_sym s) p" using Suc.prems lt by (intro kpage_in_range) auto
  have fresh: "p \<notin> set xs" using Suc.prems(8) lt by fastforce
  obtain s1 where s1: "kfree c p s = Ok s1" "kmem_ok c s1 (p # xs)" "end_sym s1 = end_sym s"
    using kmem_ok_kfree[OF Suc.prems(1) kp fresh] by blast
  have "\<exists>q s'. while_res (\<lambda>(p, s). p + PGSIZE \<le> vend)
             (\<lambda>(p, s). rbind (kfree c p s) (\<lambda>s'. Ok (p + PGSIZE, s'))) (p + 4096, s1) = Ok (q, s') \<and>
           kmem_ok c s' (rev (pages_from (p + 4096) n) @ p # xs)"
  proof (rule Suc.IH[OF s1(2)])
    show "page_aligned (p + 4096)" using Suc.prems fit vend by (intro page_aligned_next) auto
    show "\<And>x. x \<in> set (p # xs) \<Longrightarrow> x < p + 4096 \<or> vend \<le> x"
      using Suc.prems(8) lt by fastforce
  qed (use Suc.prems s1 lt n fit vend up in auto)
  moreover have "p + PGSIZE \<le> vend" using fit up by (simp add: word_le_nat_alt PGSIZE_def)
  ultimately show ?case using s1
    by (subst while_res_unfold) (simp add: pages_from_Suc PGSIZE_def)
qed

lemma freerange_pages:
  assumes "kmem_ok c s xs" "end_sym s \<le> vstart" "KERNBASE \<le> vstart" "vstart \<le> vend"
    and "vend \<le> KERNBASE + PHYSTOP"
    and "\<And>x. x \<in> set xs \<Longrightarrow> x < vstart \<or> vend \<le> x"
  shows "\<exists>s'. freerange c vstart vend s = Ok s' \<and>
     kmem_ok c s' (rev (pages_from (PGROUNDUP vstart)
        ((unat vend - unat (PGROUNDUP vstart)) div 4096)) @ xs)"
proof -
  let ?p = "PGROUNDUP vstart"
  have v: "unat vstart \<le> 0x8E000000"
    using assms(4,5) order_trans[OF assms(4,5)] by (simp add: word_le_nat_alt KERNBASE_def PHYSTOP_def)
  then have p: "unat ?p = (unat vstart + 4095) div 4096 * 4096" by (intro unat_PGROUNDUP) simp
  have "unat vstart + 4095 - 4095 \<le> unat ?p" "unat ?p \<le> unat vstart + 4095"
    unfolding p using div_mult_mod_eq[of "unat vstart + 4095" 4096]
      mod_less_divisor[of 4096 "unat vstart + 4095"] by linarith+
  then have b: "vstart \<le> ?p" "unat ?p < 0x90000000" using v by (auto simp: word_le_nat_alt)
  have fresh: "\<And>x. x \<in> set xs \<Longrightarrow> x < ?p \<or> vend \<le> x" using assms(6) b(1) by fastforce
  show ?thesis unfolding freerange_def
    using freerange_loop[OF assms(1) PGROUNDUP_aligned _ _ assms(5) b(2) refl fresh] b(1) assms(2,3)
    by fastforce
qed

end
