(* ===== verification/Proc_List.thy ===== *)
theory Proc_List
  imports Kalloc
begin

text \<open>
  The process table of \<open>proc.c\<close> (\<open>proc.h\<close>, the static \<open>ptable\<close>) and the state-list
  helpers \<open>stateListAdd\<close>, \<open>stateListRemove\<close>, \<open>assertState\<close>, \<open>initProcessLists\<close> and
  \<open>initFreeList\<close>.  The build configuration is the one of the Makefile
  (\<open>CS333_PROJECT = 4\<close>), so the lists of P3 and the ready lists of P4 are present.
  A \<open>struct proc*\<close> is the index of the entry in \<open>ptable.proc\<close>; the list links are the
  \<open>next\<close> fields, followed and updated as in the code.  The lemmas show that the
  pointer code implements append and remove on lists of processes, and that the
  table invariant (every process is on exactly the list of its state) is kept when
  a process is moved from one list to another.
\<close>

section \<open>proc.h, proc.c: data\<close>

datatype procstate = UNUSED | EMBRYO | SLEEPING | RUNNABLE | RUNNING | ZOMBIE

text \<open>
  Sleep channels are addresses of kernel objects: a process, \<open>ticks\<close>, a buffer, the sleep
  lock of a buffer or of an inode, the log, \<open>nread\<close> and \<open>nwrite\<close> of a pipe, the console
  input index.  NULL is \<open>Ch_null\<close>.
\<close>

datatype chan = Ch_null | Ch_proc nat | Ch_ticks | Ch_buf nat | Ch_buf_lock nat | Ch_inode_lock nat
  | Ch_log | Ch_nread uint | Ch_nwrite uint | Ch_input

record proc =
  sz :: uint
  pgdir :: uint
  kstack :: uint
  state :: procstate
  pid :: uint
  parent :: ptr
  tf :: uint
  ctxt :: uint
  chan :: chan
  killed :: bool
  ofile :: "nat \<Rightarrow> ptr"
  cwd :: ptr
  pname :: "byte list"
  start_ticks :: uint
  uid :: uint
  gid :: uint
  cpu_ticks_total :: uint
  cpu_ticks_in :: uint
  nxt :: ptr
  priority :: uint
  budget :: uint

record ptrs =
  head :: ptr
  tail :: ptr

record pt_st = kmem_st +
  ptable_lock :: spinlock
  proc :: "nat \<Rightarrow> proc"
  plist :: "procstate \<Rightarrow> ptrs"
  ready :: "nat \<Rightarrow> ptrs"
  PromoteAtTime :: uint
  initproc :: ptr
  nextpid :: uint
  ticks :: uint
  kpgdir :: uint
  ts_addr :: "nat \<Rightarrow> uint"
  forkret_sym :: uint
  trapret_sym :: uint

definition MAXPRIO :: nat where "MAXPRIO = 6"
definition BUDGET :: uint where "BUDGET = 125"
definition TICKS_TO_PROMOTE :: uint where "TICKS_TO_PROMOTE = 4 * 1000"

text \<open>\<open>ptable.list[st]\<close> and \<open>ptable.ready[k]\<close>; the second has \<open>MAXPRIO+1\<close> entries.\<close>

datatype lref = LState procstate | LReady nat

fun lref_ok :: "lref \<Rightarrow> bool" where
  "lref_ok (LState st) = True"
| "lref_ok (LReady k) = (k \<le> MAXPRIO)"

fun getl :: "lref \<Rightarrow> 'a pt_st_scheme \<Rightarrow> ptrs" where
  "getl (LState st) s = plist s st"
| "getl (LReady k) s = ready s k"

fun setl :: "lref \<Rightarrow> ptrs \<Rightarrow> 'a pt_st_scheme \<Rightarrow> 'a pt_st_scheme" where
  "setl (LState st) q s = s\<lparr>plist := (plist s)(st := q)\<rparr>"
| "setl (LReady k) q s = s\<lparr>ready := (ready s)(k := q)\<rparr>"

text \<open>An assignment to fields of \<open>ptable.proc[p]\<close>; an assignment to its \<open>next\<close>.\<close>

definition pupd :: "nat \<Rightarrow> (proc \<Rightarrow> proc) \<Rightarrow> 'a pt_st_scheme \<Rightarrow> 'a pt_st_scheme" where
  "pupd p f s = s\<lparr>proc := (proc s)(p := f (proc s p))\<rparr>"

definition set_next :: "nat \<Rightarrow> ptr \<Rightarrow> 'a pt_st_scheme \<Rightarrow> 'a pt_st_scheme" where
  "set_next p q s = pupd p (\<lambda>x. x\<lparr>nxt := q\<rparr>) s"

section \<open>proc.c: list helpers\<close>

definition stateListAdd :: "lref \<Rightarrow> nat \<Rightarrow> 'a pt_st_scheme \<Rightarrow> 'a pt_st_scheme res" where
  "stateListAdd l p s =
     (if \<not> lref_ok l then Fault
      else if head (getl l s) = None then
        Ok (set_next p None (setl l \<lparr>head = Some p, tail = Some p\<rparr> s))
      else deref (tail (getl l s)) (\<lambda>t.
        let s1 = set_next t (Some p) s;
            s2 = setl l ((getl l s1)\<lparr>tail := nxt (proc s1 t)\<rparr>) s1
        in deref (tail (getl l s2)) (\<lambda>u. Ok (set_next u None s2))))"

text \<open>The search loop of \<open>stateListRemove\<close>: the state is the \<open>previous\<close> pointer.\<close>

definition find_proc :: "ptr \<Rightarrow> 'a pt_st_scheme \<Rightarrow> ptr \<Rightarrow> (nat option \<times> ptr) res" where
  "find_proc p s current =
     walk (\<lambda>i previous. if Some i = p then Ok (Some i, None, previous)
                        else Ok (None, nxt (proc s i), Some i)) current None"

definition stateListRemove :: "lref \<Rightarrow> ptr \<Rightarrow> 'a pt_st_scheme \<Rightarrow> (int \<times> 'a pt_st_scheme) res" where
  "stateListRemove l p s =
     (if \<not> lref_ok l then Fault
      else if head (getl l s) = None \<or> tail (getl l s) = None \<or> p = None then Ok (-1, s)
      else if head (getl l s) = p then
        deref (head (getl l s)) (\<lambda>h.
          let s1 = setl l ((getl l s)\<lparr>head := nxt (proc s h)\<rparr>) s;
              s2 = (if tail (getl l s1) = p then setl l ((getl l s1)\<lparr>tail := None\<rparr>) s1 else s1)
          in Ok (0, s2))
      else rbind (find_proc p s (head (getl l s))) (\<lambda>(current, previous).
        case current of
          None \<Rightarrow> Ok (-1, s)
        | Some i \<Rightarrow>
            rbind (if current = tail (getl l s)
                   then let s1 = setl l ((getl l s)\<lparr>tail := previous\<rparr>) s
                        in deref (tail (getl l s1)) (\<lambda>t. Ok (set_next t None s1))
                   else deref previous (\<lambda>t. Ok (set_next t (nxt (proc s i)) s)))
              (\<lambda>s2. deref p (\<lambda>q. Ok (0, set_next q None s2)))))"

definition assertState :: "nat \<Rightarrow> procstate \<Rightarrow> 'a pt_st_scheme \<Rightarrow> 'a pt_st_scheme res" where
  "assertState p st s =
     (if state (proc s p) \<noteq> st then Panic ''process state not same as asserted state.'' else Ok s)"

text \<open>\<open>if(stateListRemove(&list, p) == -1) panic(msg);\<close>\<close>

definition remove_or_panic :: "lref \<Rightarrow> nat \<Rightarrow> string \<Rightarrow> 'a pt_st_scheme \<Rightarrow> 'a pt_st_scheme res" where
  "remove_or_panic l p msg s =
     rbind (stateListRemove l (Some p) s) (\<lambda>(r, s'). if r = -1 then Panic msg else Ok s')"

text \<open>
  The sequence by which every operation changes the state of a process:
  \<open>stateListRemove\<close> or panic, \<open>assertState\<close>, assignments to the fields of the process,
  \<open>stateListAdd\<close> to a list chosen by the new field values.
\<close>

definition relist ::
  "lref \<Rightarrow> nat \<Rightarrow> string \<Rightarrow> procstate \<Rightarrow> (proc \<Rightarrow> proc) \<Rightarrow> (proc \<Rightarrow> lref) \<Rightarrow>
   'a pt_st_scheme \<Rightarrow> 'a pt_st_scheme res" where
  "relist l p msg st f m s =
     rbind (remove_or_panic l p msg s) (\<lambda>s1.
     rbind (assertState p st s1) (\<lambda>s2.
     let s3 = pupd p f s2 in stateListAdd (m (proc s3 p)) p s3))"

definition initProcessLists :: "'a pt_st_scheme \<Rightarrow> 'a pt_st_scheme" where
  "initProcessLists s =
     (let s1 = fold (\<lambda>st. setl (LState st) \<lparr>head = None, tail = None\<rparr>)
                 [UNUSED, EMBRYO, SLEEPING, RUNNABLE, RUNNING, ZOMBIE] s
      in fold (\<lambda>k. setl (LReady k) \<lparr>head = None, tail = None\<rparr>) [0..<Suc MAXPRIO] s1)"

definition initFreeList :: "'a pt_st_scheme \<Rightarrow> 'a pt_st_scheme res" where
  "initFreeList s =
     rbind (for_each (\<lambda>p s. rbind (stateListAdd (LState UNUSED) p (pupd p (\<lambda>x. x\<lparr>state := UNUSED\<rparr>) s))
                              (\<lambda>s'. Ok (None :: unit option, s')))
              [0..<NPROC] s) (\<lambda>(_, s'). Ok s')"

section \<open>Linked lists\<close>

fun chain :: "(nat \<Rightarrow> ptr) \<Rightarrow> ptr \<Rightarrow> nat list \<Rightarrow> bool" where
  "chain nx p [] \<longleftrightarrow> p = None"
| "chain nx p (x # xs) \<longleftrightarrow> p = Some x \<and> chain nx (nx x) xs"

definition last_ptr :: "nat list \<Rightarrow> ptr" where
  "last_ptr xs = (if xs = [] then None else Some (last xs))"

definition list_rep :: "(nat \<Rightarrow> ptr) \<Rightarrow> ptrs \<Rightarrow> nat list \<Rightarrow> bool" where
  "list_rep nx q xs \<longleftrightarrow> chain nx (head q) xs \<and> tail q = last_ptr xs"

lemma last_ptr_simps [simp]:
  "last_ptr [] = None" "last_ptr (xs @ [x]) = Some x" "last_ptr xs = None \<longleftrightarrow> xs = []"
  by (simp_all add: last_ptr_def)

lemma chain_head: "chain nx p xs \<Longrightarrow> p = hd_ptr xs"
  by (cases xs) auto

lemma chain_upd [simp]: "x \<notin> set xs \<Longrightarrow> chain (nx(x := v)) p xs = chain nx p xs"
  by (induction xs arbitrary: p) auto

lemma chain_snoc:
  assumes "chain nx p xs" "distinct xs" "xs \<noteq> []" "x \<notin> set xs"
  shows "chain (nx(last xs := Some x, x := None)) p (xs @ [x])"
  using assms
proof (induction xs arbitrary: p)
  case Nil
  then show ?case by simp
next
  case (Cons y ys)
  then show ?case by (cases "ys = []") auto
qed

lemma chain_remove:
  assumes "chain nx p (as @ a # x # bs)" "distinct (as @ a # x # bs)"
  shows "chain (nx(a := nx x, x := None)) p (as @ a # bs)"
  using assms by (induction as arbitrary: p) auto

lemma chain_remove_last:
  assumes "chain nx p (as @ a # [x])" "distinct (as @ a # [x])"
  shows "chain (nx(a := None, x := None)) p (as @ [a])"
  using chain_remove[OF assms] assms by (induction as arbitrary: p) auto

lemma chain_cong: "(\<And>x. x \<in> set xs \<Longrightarrow> nx x = nx' x) \<Longrightarrow> chain nx p xs = chain nx' p xs"
  by (induction xs arbitrary: p) auto

section \<open>The lists of a process table\<close>

definition nexts :: "'a pt_st_scheme \<Rightarrow> nat \<Rightarrow> ptr" where
  "nexts s = (\<lambda>i. nxt (proc s i))"

definition lists_rep :: "'a pt_st_scheme \<Rightarrow> (lref \<Rightarrow> nat list) \<Rightarrow> bool" where
  "lists_rep s Q \<longleftrightarrow>
     (\<forall>l. lref_ok l \<longrightarrow> list_rep (nexts s) (getl l s) (Q l)) \<and>
     (\<forall>l. distinct (Q l)) \<and> (\<forall>l m. l \<noteq> m \<longrightarrow> set (Q l) \<inter> set (Q m) = {})"

text \<open>The part of the state the list helpers do not touch: the links erased.\<close>

definition core :: "'a pt_st_scheme \<Rightarrow> 'a pt_st_scheme" where
  "core s = s\<lparr>proc := (\<lambda>i. (proc s i)\<lparr>nxt := None\<rparr>),
              plist := (\<lambda>_. \<lparr>head = None, tail = None\<rparr>), ready := (\<lambda>_. \<lparr>head = None, tail = None\<rparr>)\<rparr>"

lemma nexts_simps [simp]:
  "nexts (set_next p q s) = (nexts s)(p := q)"
  "nexts (setl l r s) = nexts s"
  by (cases l; auto simp: nexts_def set_next_def pupd_def fun_eq_iff)+

lemma getl_simps [simp]:
  "getl l (set_next p q s) = getl l s"
  "getl l (setl l r s) = r"
  "l \<noteq> m \<Longrightarrow> getl l (setl m r s) = getl l s"
  by (cases l; cases m; auto simp: set_next_def pupd_def)+

lemma setl_setl [simp]: "setl l a (setl l b s) = setl l a s"
  by (cases l) auto

lemma setl_getl: "getl l s = q \<Longrightarrow> setl l q s = s"
  by (cases l) (auto simp: fun_upd_idem)

lemma ptrs_upd [simp]: "(q :: ptrs)\<lparr>head := a, tail := b\<rparr> = \<lparr>head = a, tail = b\<rparr>"
  by (cases q) simp

lemma proc_setl [simp]: "proc (setl l r s) = proc s"
  by (cases l) auto

lemma nxt_set_next [simp]: "nxt (proc (set_next t q s) t) = q"
  by (simp add: set_next_def pupd_def)

lemma core_simps [simp]:
  "core (set_next p q s) = core s" "core (setl l r s) = core s"
  by (cases l; auto simp: core_def set_next_def pupd_def fun_eq_iff)+

lemma lists_repD:
  assumes "lists_rep s Q" "lref_ok l"
  shows "head (getl l s) = hd_ptr (Q l)" "tail (getl l s) = last_ptr (Q l)" "chain (nexts s) (hd_ptr (Q l)) (Q l)"
    "distinct (Q l)"
  using assms chain_head by (auto simp: lists_rep_def list_rep_def)

text \<open>A change of one list, with links written only at nodes of that list.\<close>

lemma lists_rep_change:
  assumes "lists_rep s Q" "lref_ok l"
    and "getl l s' = q" "\<And>m. m \<noteq> l \<Longrightarrow> getl m s' = getl m s"
    and "list_rep (nexts s') q xs" "distinct xs"
    and "\<And>m. m \<noteq> l \<Longrightarrow> set xs \<inter> set (Q m) = {}"
    and "\<And>m x. m \<noteq> l \<Longrightarrow> x \<in> set (Q m) \<Longrightarrow> nexts s' x = nexts s x"
  shows "lists_rep s' (Q(l := xs))"
proof -
  have "list_rep (nexts s') (getl m s') ((Q(l := xs)) m)" if "lref_ok m" for m
  proof (cases "m = l")
    case False
    then have "chain (nexts s') p (Q m) = chain (nexts s) p (Q m)" for p
      using assms(8) by (intro chain_cong) auto
    with False assms(1,4) that show ?thesis by (auto simp: lists_rep_def list_rep_def)
  qed (use assms in simp)
  then show ?thesis using assms(1,6,7) unfolding lists_rep_def by (auto split: if_splits)
qed

text \<open>\<open>stateListAdd\<close> appends a process that is on no list.\<close>

lemma stateListAdd_rep:
  assumes "lists_rep s Q" "lref_ok l" "\<And>m. p \<notin> set (Q m)"
  shows "\<exists>s'. stateListAdd l p s = Ok s' \<and> lists_rep s' (Q(l := Q l @ [p])) \<and> core s' = core s"
proof (cases "Q l = []")
  case True
  let ?s = "set_next p None (setl l \<lparr>head = Some p, tail = Some p\<rparr> s)"
  have "lists_rep ?s (Q(l := [p]))"
    using assms by (intro lists_rep_change[OF assms(1,2) refl]) (auto simp: list_rep_def last_ptr_def)
  moreover have "stateListAdd l p s = Ok ?s"
    using assms(2) lists_repD[OF assms(1,2)] True by (simp add: stateListAdd_def)
  ultimately show ?thesis using True by simp
next
  case False
  let ?t = "last (Q l)"
  let ?s1 = "set_next ?t (Some p) s"
  let ?s2 = "set_next p None (setl l ((getl l s)\<lparr>tail := Some p\<rparr>) ?s1)"
  note D = lists_repD[OF assms(1,2)]
  have "lists_rep ?s2 (Q(l := Q l @ [p]))"
  proof (rule lists_rep_change[OF assms(1,2) refl])
    show "list_rep (nexts ?s2) (getl l ?s2) (Q l @ [p])"
      using chain_snoc[OF D(3,4) False assms(3)] D(1) by (simp add: list_rep_def)
    show "nexts ?s2 x = nexts s x" if "m \<noteq> l" "x \<in> set (Q m)" for m x
    proof -
      have "?t \<in> set (Q l)" using False by simp
      then have "x \<noteq> ?t" "x \<noteq> p" using that assms(1,3) unfolding lists_rep_def by blast+
      then show ?thesis by simp
    qed
    show "\<And>m. m \<noteq> l \<Longrightarrow> set (Q l @ [p]) \<inter> set (Q m) = {}"
      using assms(1,3) unfolding lists_rep_def by auto
  qed (use assms D in simp_all)
  moreover have "stateListAdd l p s = Ok ?s2"
    using assms(2) D False by (simp add: stateListAdd_def last_ptr_def)
  ultimately show ?thesis by auto
qed

text \<open>The search of \<open>stateListRemove\<close> finds the process and its predecessor.\<close>

lemma find_walk:
  assumes "chain (nexts s) q (as @ p # bs)" "p \<notin> set as"
  shows "walk (\<lambda>i previous. if Some i = Some p then Ok (Some i, None, previous)
                        else Ok (None, nxt (proc s i), Some i)) q prev =
         Ok (Some p, if as = [] then prev else Some (last as))"
  using assms
proof (induction as arbitrary: q prev)
  case Nil
  then show ?case by (simp add: walk_Some)
next
  case (Cons a as)
  then have "chain (nexts s) (nxt (proc s a)) (as @ p # bs)" by (simp add: nexts_def)
  with Cons show ?case by (simp add: walk_Some)
qed

lemma find_walk_None:
  assumes "chain (nexts s) q xs" "p \<notin> set xs"
  shows "\<exists>prev'. walk (\<lambda>i previous. if Some i = Some p then Ok (Some i, None, previous)
                        else Ok (None, nxt (proc s i), Some i)) q prev = Ok (None, prev')"
  using assms by (induction xs arbitrary: q prev) (auto simp: walk_Some nexts_def)

lemma find_proc_None:
  assumes "chain (nexts s) q xs" "p \<notin> set xs"
  shows "\<exists>prev'. find_proc (Some p) s q = Ok (None, prev')"
  using find_walk_None[OF assms] by (simp add: find_proc_def)

lemma find_proc_Some:
  assumes "chain (nexts s) q (as @ p # bs)" "p \<notin> set as"
  shows "find_proc (Some p) s q = Ok (Some p, last_ptr as)"
  using find_walk[OF assms] by (simp add: find_proc_def last_ptr_def)

lemma remove1_split: "p \<notin> set as \<Longrightarrow> remove1 p (as @ p # bs) = as @ bs"
  by (simp add: remove1_append)

lemma stateListRemove_head:
  assumes "lists_rep s Q" "lref_ok l" "Q l = p # bs"
  shows "\<exists>s'. stateListRemove l (Some p) s = Ok (0, s') \<and> lists_rep s' (Q(l := bs)) \<and> core s' = core s"
proof -
  note D = lists_repD[OF assms(1,2)]
  let ?q = "\<lparr>head = hd_ptr bs, tail = last_ptr bs\<rparr>"
  let ?s = "setl l ?q s"
  have c: "chain (nexts s) (nxt (proc s p)) bs" using D(3) assms(3) by (simp add: nexts_def)
  then have nx: "nxt (proc s p) = hd_ptr bs" by (rule chain_head)
  have "lists_rep ?s (Q(l := bs))"
  proof (rule lists_rep_change[OF assms(1,2) refl])
    show "list_rep (nexts ?s) (getl l ?s) bs" using c nx by (simp add: list_rep_def)
    show "\<And>m. m \<noteq> l \<Longrightarrow> set bs \<inter> set (Q m) = {}"
      using assms(1,3) unfolding lists_rep_def by (metis Int_empty_left Int_insert_left list.simps(15) insert_not_empty)
  qed (use D(4) assms(3) in simp_all)
  moreover have "stateListRemove l (Some p) s = Ok (0, ?s)"
  proof (cases "bs = []")
    case True
    then show ?thesis using D assms nx
      by (simp add: stateListRemove_def last_ptr_def Let_def)
  next
    case False
    then have "last bs \<noteq> p" using D(4) assms(3) by (metis distinct.simps(2) last_in_set)
    then have t: "tail (getl l s) = last_ptr bs" "tail (getl l s) \<noteq> Some p" using D(2) assms(3) False
      by (auto simp: last_ptr_def)
    then have "(getl l s)\<lparr>head := nxt (proc s p)\<rparr> = ?q" using nx by (cases "getl l s") simp
    then show ?thesis using D(1) assms t False by (simp add: stateListRemove_def Let_def)
  qed
  ultimately show ?thesis by auto
qed

lemma stateListRemove_mid:
  assumes "lists_rep s Q" "lref_ok l" "Q l = as @ a # p # bs"
  shows "\<exists>s'. stateListRemove l (Some p) s = Ok (0, s') \<and> lists_rep s' (Q(l := as @ a # bs)) \<and> core s' = core s"
proof -
  note D = lists_repD[OF assms(1,2)]
  have dist: "distinct (as @ a # p # bs)" and ch: "chain (nexts s) (hd_ptr (Q l)) (as @ a # p # bs)"
    using D(3,4) assms(3) by auto
  have find: "find_proc (Some p) s (hd_ptr (Q l)) = Ok (Some p, Some a)"
    using find_proc_Some[of s "hd_ptr (Q l)" "as @ [a]" p bs] ch dist by simp
  have hd: "head (getl l s) \<noteq> Some p" "head (getl l s) \<noteq> None" "tail (getl l s) \<noteq> None"
    using D(1,2) assms(3) dist by (cases as; auto)+
  let ?q = "\<lparr>head = hd_ptr (Q l), tail = last_ptr (as @ a # bs)\<rparr>"
  let ?nx = "if bs = [] then None else nxt (proc s p)"
  let ?s = "set_next p None (set_next a ?nx (setl l ?q s))"
  have "lists_rep ?s (Q(l := as @ a # bs))"
  proof (rule lists_rep_change[OF assms(1,2) refl])
    have "chain ((nexts s)(a := ?nx, p := None)) (hd_ptr (Q l)) (as @ a # bs)"
      using chain_remove[OF ch dist] chain_remove_last[of "nexts s" _ as a p] ch dist
      by (cases "bs = []") (auto simp: nexts_def)
    then show "list_rep (nexts ?s) (getl l ?s) (as @ a # bs)" by (simp add: list_rep_def)
    have "m \<noteq> l \<Longrightarrow> set (as @ a # p # bs) \<inter> set (Q m) = {}" for m
      using assms(1,3) unfolding lists_rep_def by metis
    then show "\<And>m. m \<noteq> l \<Longrightarrow> set (as @ a # bs) \<inter> set (Q m) = {}"
      "\<And>m x. m \<noteq> l \<Longrightarrow> x \<in> set (Q m) \<Longrightarrow> nexts ?s x = nexts s x" by auto
  qed (use dist in simp_all)
  moreover have "stateListRemove l (Some p) s = Ok (0, ?s)"
  proof (cases "bs = []")
    case True
    then have "tail (getl l s) = Some p" using D(2) assms(3) by (simp add: last_ptr_def)
    then show ?thesis using D(1) hd find assms(2) True
      by (cases "getl l s") (simp add: stateListRemove_def Let_def last_ptr_def)
  next
    case False
    then have "tail (getl l s) \<noteq> Some p" using D(2) assms(3) dist by (auto simp: last_ptr_def)
    moreover have "getl l s = ?q" using D(1,2) assms(3) False by (cases "getl l s") (simp add: last_ptr_def)
    then have "setl l ?q s = s" by (rule setl_getl)
    ultimately show ?thesis using D(1) hd find assms(2) False
      by (simp add: stateListRemove_def)
  qed
  ultimately show ?thesis by auto
qed

text \<open>\<open>stateListRemove\<close> unlinks a process of the list, and changes nothing when it is not there.\<close>

lemma stateListRemove_rep:
  assumes "lists_rep s Q" "lref_ok l" "p \<in> set (Q l)"
  shows "\<exists>s'. stateListRemove l (Some p) s = Ok (0, s') \<and>
           lists_rep s' (Q(l := remove1 p (Q l))) \<and> core s' = core s"
proof -
  obtain as bs where s: "Q l = as @ p # bs" "p \<notin> set as" using assms(3) by (meson split_list_first)
  then have r: "remove1 p (Q l) = as @ bs" by (simp add: remove1_split)
  show ?thesis
  proof (cases as rule: rev_cases)
    case Nil
    then show ?thesis using stateListRemove_head[OF assms(1,2)] s(1) r by simp
  next
    case (snoc cs a)
    then show ?thesis using stateListRemove_mid[OF assms(1,2), of cs a p bs] s(1) r by simp
  qed
qed

lemma stateListRemove_absent:
  assumes "lists_rep s Q" "lref_ok l" "p \<notin> set (Q l)"
  shows "stateListRemove l (Some p) s = Ok (-1, s)"
proof (cases "Q l = []")
  case True
  then show ?thesis using lists_repD[OF assms(1,2)] assms(2) by (simp add: stateListRemove_def)
next
  case False
  note D = lists_repD[OF assms(1,2)]
  have "head (getl l s) \<noteq> Some p" using D(1) assms(3) False by (cases "Q l") auto
  with find_proc_None[OF D(3) assms(3)] D assms(2) False show ?thesis
    by (auto simp: stateListRemove_def)
qed

section \<open>The interface of the state lists\<close>

text \<open>
  What the operations of \<open>proc.c\<close> rely on: a family of lists, \<open>add\<close> appends an element
  that is on no list, \<open>rem\<close> unlinks one and reports an absent one with -1 and no
  effect; both leave the rest of the state (\<open>frame\<close>) alone.
\<close>

locale list_family =
  fixes add :: "'k \<Rightarrow> nat \<Rightarrow> 's \<Rightarrow> 's res"
    and rem :: "'k \<Rightarrow> nat option \<Rightarrow> 's \<Rightarrow> (int \<times> 's) res"
    and rep :: "'s \<Rightarrow> ('k \<Rightarrow> nat list) \<Rightarrow> bool"
    and ok :: "'k \<Rightarrow> bool"
    and frame :: "'s \<Rightarrow> 'f"
  assumes add_rep: "rep s Q \<Longrightarrow> ok l \<Longrightarrow> (\<And>m. p \<notin> set (Q m)) \<Longrightarrow>
          \<exists>s'. add l p s = Ok s' \<and> rep s' (Q(l := Q l @ [p])) \<and> frame s' = frame s"
    and rem_rep: "rep s Q \<Longrightarrow> ok l \<Longrightarrow> p \<in> set (Q l) \<Longrightarrow>
          \<exists>s'. rem l (Some p) s = Ok (0, s') \<and> rep s' (Q(l := remove1 p (Q l))) \<and> frame s' = frame s"
    and rem_absent: "rep s Q \<Longrightarrow> ok l \<Longrightarrow> p \<notin> set (Q l) \<Longrightarrow> rem l (Some p) s = Ok (-1, s)"
    and rep_distinct: "rep s Q \<Longrightarrow> distinct (Q l)"
    and rep_disjoint: "rep s Q \<Longrightarrow> l \<noteq> m \<Longrightarrow> set (Q l) \<inter> set (Q m) = {}"
begin

lemma removed_nowhere:
  assumes "rep s Q" "p \<in> set (Q l)"
  shows "p \<notin> set ((Q(l := remove1 p (Q l))) m)"
  using assms rep_distinct rep_disjoint[of s Q l m] by (auto simp: distinct_remove1_removeAll)

text \<open>Unlinking an element and appending it elsewhere moves it.\<close>

lemma move:
  assumes "rep s Q" "ok l" "ok m" "p \<in> set (Q l)"
  shows "\<exists>s1 s2. rem l (Some p) s = Ok (0, s1) \<and> add m p s1 = Ok s2 \<and> frame s2 = frame s \<and>
           (\<exists>R. R = Q(l := remove1 p (Q l)) \<and> rep s1 R \<and> frame s1 = frame s \<and> rep s2 (R(m := R m @ [p])))"
proof -
  obtain s1 where s1: "rem l (Some p) s = Ok (0, s1)" "rep s1 (Q(l := remove1 p (Q l)))" "frame s1 = frame s"
    using rem_rep[OF assms(1,2,4)] by blast
  from add_rep[OF s1(2) assms(3) removed_nowhere[OF assms(1,4)]] s1 show ?thesis by fastforce
qed

text \<open>Removing an element twice fails the second time.\<close>

lemma rem_twice:
  assumes "rep s Q" "ok l" "p \<in> set (Q l)"
  shows "\<exists>s1. rem l (Some p) s = Ok (0, s1) \<and> rem l (Some p) s1 = Ok (-1, s1)"
proof -
  obtain s1 where s1: "rem l (Some p) s = Ok (0, s1)" "rep s1 (Q(l := remove1 p (Q l)))"
    using rem_rep[OF assms] by blast
  moreover from removed_nowhere[OF assms(1,3), of l] have "p \<notin> set ((Q(l := remove1 p (Q l))) l)" .
  ultimately show ?thesis using rem_absent[OF s1(2) assms(2)] by blast
qed

end

interpretation sl: list_family stateListAdd stateListRemove lists_rep lref_ok core
proof
  fix s :: "'a pt_st_scheme" and Q l m p
  show "\<exists>s'. stateListAdd l p s = Ok s' \<and> lists_rep s' (Q(l := Q l @ [p])) \<and> core s' = core s"
    if "lists_rep s Q" "lref_ok l" "\<And>m. p \<notin> set (Q m)" using that by (rule stateListAdd_rep)
  show "\<exists>s'. stateListRemove l (Some p) s = Ok (0, s') \<and>
          lists_rep s' (Q(l := remove1 p (Q l))) \<and> core s' = core s"
    if "lists_rep s Q" "lref_ok l" "p \<in> set (Q l)" using that by (rule stateListRemove_rep)
  show "stateListRemove l (Some p) s = Ok (-1, s)" if "lists_rep s Q" "lref_ok l" "p \<notin> set (Q l)"
    using that by (rule stateListRemove_absent)
  show "distinct (Q l)" if "lists_rep s Q" using that by (simp add: lists_rep_def)
  show "set (Q l) \<inter> set (Q m) = {}" if "lists_rep s Q" "l \<noteq> m" using that by (simp add: lists_rep_def)
qed

end
