(* ===== verification/Proc_Inv.thy ===== *)
theory Proc_Inv
  imports Proc_List
begin

text \<open>
  The invariant of the process table.  \<open>ptinv s Q\<close>: the lists of \<open>ptable\<close> are well formed
  and hold the processes \<open>Q\<close>, every process is on exactly the list that belongs to its
  state (a RUNNABLE one on the ready list of its priority), and no priority exceeds
  \<open>MAXPRIO\<close>.  The lemmas lift the list interface to this invariant: a change of state
  through \<open>relist\<close> succeeds, moves the process, and changes nothing else.
\<close>

section \<open>Erased links\<close>

lemma core_proc [simp]:
  "sz (proc (core s) p) = sz (proc s p)" "pgdir (proc (core s) p) = pgdir (proc s p)"
  "kstack (proc (core s) p) = kstack (proc s p)" "state (proc (core s) p) = state (proc s p)"
  "pid (proc (core s) p) = pid (proc s p)" "parent (proc (core s) p) = parent (proc s p)"
  "tf (proc (core s) p) = tf (proc s p)" "ctxt (proc (core s) p) = ctxt (proc s p)"
  "chan (proc (core s) p) = chan (proc s p)" "killed (proc (core s) p) = killed (proc s p)"
  "ofile (proc (core s) p) = ofile (proc s p)" "cwd (proc (core s) p) = cwd (proc s p)"
  "pname (proc (core s) p) = pname (proc s p)" "start_ticks (proc (core s) p) = start_ticks (proc s p)"
  "uid (proc (core s) p) = uid (proc s p)" "gid (proc (core s) p) = gid (proc s p)"
  "cpu_ticks_total (proc (core s) p) = cpu_ticks_total (proc s p)"
  "cpu_ticks_in (proc (core s) p) = cpu_ticks_in (proc s p)"
  "priority (proc (core s) p) = priority (proc s p)" "budget (proc (core s) p) = budget (proc s p)"
  by (simp_all add: core_def)

lemma core_glob [simp]:
  "cpus (core s) = cpus s" "mem (core s) = mem s" "end_sym (core s) = end_sym s" "data_sym (core s) = data_sym s"
  "kmem_lock (core s) = kmem_lock s" "use_lock (core s) = use_lock s" "freelist (core s) = freelist s"
  "ptable_lock (core s) = ptable_lock s" "PromoteAtTime (core s) = PromoteAtTime s"
  "initproc (core s) = initproc s" "nextpid (core s) = nextpid s" "ticks (core s) = ticks s"
  "kpgdir (core s) = kpgdir s" "ts_addr (core s) = ts_addr s" "forkret_sym (core s) = forkret_sym s" "trapret_sym (core s) = trapret_sym s"
  "pt_st.more (core s) = pt_st.more s"
  by (simp_all add: core_def)

text \<open>States with the same erasure differ only in links.\<close>

lemma core_proc_eq:
  assumes "core s' = core s"
  shows "proc s' p = (proc s p)\<lparr>nxt := nxt (proc s' p)\<rparr>"
proof -
  have "(proc s' p)\<lparr>nxt := None\<rparr> = (proc s p)\<lparr>nxt := None\<rparr>"
    using arg_cong[OF assms, of "\<lambda>s. proc s p"] by (simp add: core_def)
  then have "(proc s' p)\<lparr>nxt := None\<rparr>\<lparr>nxt := nxt (proc s' p)\<rparr> =
             (proc s p)\<lparr>nxt := None\<rparr>\<lparr>nxt := nxt (proc s' p)\<rparr>" by (rule arg_cong)
  then show ?thesis by simp
qed

text \<open>An update of a process that neither reads nor writes its link.\<close>

definition link_indep :: "(proc \<Rightarrow> proc) \<Rightarrow> bool" where
  "link_indep f \<longleftrightarrow> (\<forall>x n. f (x\<lparr>nxt := n\<rparr>) = (f x)\<lparr>nxt := n\<rparr>)"

lemma link_indep_nxt:
  assumes "link_indep f"
  shows "nxt (f x) = nxt x"
proof -
  have "nxt (f x) = nxt (f (x\<lparr>nxt := nxt x\<rparr>))" by simp
  also have "f (x\<lparr>nxt := nxt x\<rparr>) = (f x)\<lparr>nxt := nxt x\<rparr>" using assms unfolding link_indep_def by blast
  finally show ?thesis by simp
qed

lemma core_pupd [simp]: "link_indep f \<Longrightarrow> core (pupd p f s) = pupd p f (core s)"
  by (simp add: core_def pupd_def link_indep_def fun_eq_iff)

lemma nexts_pupd [simp]: "link_indep f \<Longrightarrow> nexts (pupd p f s) = nexts s"
  by (auto simp: nexts_def pupd_def fun_eq_iff link_indep_nxt)

lemma getl_pupd [simp]: "getl l (pupd p f s) = getl l s"
  by (cases l) (auto simp: pupd_def)

lemma proc_pupd [simp]: "proc (pupd p f s) p = f (proc s p)" "q \<noteq> p \<Longrightarrow> proc (pupd p f s) q = proc s q"
  by (simp_all add: pupd_def)

lemma pupd_glob [simp]:
  "cpus (pupd p f s) = cpus s" "mem (pupd p f s) = mem s" "end_sym (pupd p f s) = end_sym s"
  "data_sym (pupd p f s) = data_sym s" "kmem_lock (pupd p f s) = kmem_lock s"
  "use_lock (pupd p f s) = use_lock s" "freelist (pupd p f s) = freelist s"
  "ptable_lock (pupd p f s) = ptable_lock s" "PromoteAtTime (pupd p f s) = PromoteAtTime s"
  "initproc (pupd p f s) = initproc s" "nextpid (pupd p f s) = nextpid s" "ticks (pupd p f s) = ticks s"
  "kpgdir (pupd p f s) = kpgdir s" "ts_addr (pupd p f s) = ts_addr s" "forkret_sym (pupd p f s) = forkret_sym s"
  "trapret_sym (pupd p f s) = trapret_sym s" "plist (pupd p f s) = plist s" "ready (pupd p f s) = ready s"
  "pt_st.more (pupd p f s) = pt_st.more s"
  by (simp_all add: pupd_def)

lemma lists_rep_pupd [simp]: "link_indep f \<Longrightarrow> lists_rep (pupd p f s) Q = lists_rep s Q"
  by (simp add: lists_rep_def)

text \<open>The lists do not depend on the rest of the state.\<close>

lemma lists_rep_cong:
  assumes "nexts s' = nexts s" "plist s' = plist s" "ready s' = ready s"
  shows "lists_rep s' Q = lists_rep s Q"
proof -
  have "getl l s' = getl l s" for l using assms by (cases l) auto
  with assms show ?thesis by (simp add: lists_rep_def)
qed

section \<open>The invariant\<close>

text \<open>The list a process belongs to.\<close>

definition lkey :: "proc \<Rightarrow> lref" where
  "lkey x = (if state x = RUNNABLE then LReady (unat (priority x)) else LState (state x))"

text \<open>Where each process is linked: \<open>k p = None\<close> while it is between two lists.\<close>

definition linked :: "'a pt_st_scheme \<Rightarrow> (lref \<Rightarrow> nat list) \<Rightarrow> (nat \<Rightarrow> lref option) \<Rightarrow> bool" where
  "linked s Q k \<longleftrightarrow> lists_rep s Q \<and> (\<forall>l p. p \<in> set (Q l) \<longleftrightarrow> p < NPROC \<and> k p = Some l)"

definition prio_ok :: "'a pt_st_scheme \<Rightarrow> bool" where
  "prio_ok s \<longleftrightarrow> (\<forall>p < NPROC. unat (priority (proc s p)) \<le> MAXPRIO)"

definition ptinv :: "'a pt_st_scheme \<Rightarrow> (lref \<Rightarrow> nat list) \<Rightarrow> bool" where
  "ptinv s Q \<longleftrightarrow> linked s Q (\<lambda>p. Some (lkey (proc s p))) \<and> prio_ok s"

definition moved :: "lref \<Rightarrow> lref \<Rightarrow> nat \<Rightarrow> (lref \<Rightarrow> nat list) \<Rightarrow> lref \<Rightarrow> nat list" where
  "moved l m p Q = (let R = Q(l := remove1 p (Q l)) in R(m := R m @ [p]))"

lemma lkey_nxt [simp]: "lkey (x\<lparr>nxt := n\<rparr>) = lkey x"
  by (simp add: lkey_def)

lemma lkey_core [simp]: "lkey (proc (core s) p) = lkey (proc s p)"
  by (simp add: lkey_def)

lemma lkey_ok: "prio_ok s \<Longrightarrow> p < NPROC \<Longrightarrow> lref_ok (lkey (proc s p))"
  by (simp add: lkey_def prio_ok_def)

lemma prio_ok_core: "core s' = core s \<Longrightarrow> prio_ok s' = prio_ok s"
  unfolding prio_ok_def by (metis core_proc(19))

lemma linked_remove:
  assumes "linked s Q k" "k p = Some l" "p < NPROC" "lref_ok l"
  shows "\<exists>s'. remove_or_panic l p msg s = Ok s' \<and> linked s' (Q(l := remove1 p (Q l))) (k(p := None)) \<and>
           core s' = core s"
proof -
  have rep: "lists_rep s Q" and in_l: "p \<in> set (Q l)" using assms by (auto simp: linked_def)
  obtain s' where s': "stateListRemove l (Some p) s = Ok (0, s')" "core s' = core s"
    and rep': "lists_rep s' (Q(l := remove1 p (Q l)))"
    using sl.rem_rep[OF rep assms(4) in_l] by blast
  have "linked s' (Q(l := remove1 p (Q l))) (k(p := None))"
    unfolding linked_def
  proof (intro conjI allI rep')
    fix m q
    have k: "q \<in> set (Q m) \<longleftrightarrow> q < NPROC \<and> k q = Some m" for q m using assms(1) by (simp add: linked_def)
    have r: "set (remove1 p (Q l)) = set (Q l) - {p}"
      using sl.rep_distinct[OF rep] by (rule set_remove1_eq)
    show "q \<in> set ((Q(l := remove1 p (Q l))) m) \<longleftrightarrow> q < NPROC \<and> (k(p := None)) q = Some m"
    proof (cases "m = l")
      case True
      then show ?thesis by (simp add: r k)
    next
      case False
      then show ?thesis using assms(2) by (auto simp: k)
    qed
  qed
  then show ?thesis using s' by (simp add: remove_or_panic_def)
qed

lemma linked_add:
  assumes "linked s Q k" "k p = None" "p < NPROC" "lref_ok l"
  shows "\<exists>s'. stateListAdd l p s = Ok s' \<and> linked s' (Q(l := Q l @ [p])) (k(p := Some l)) \<and> core s' = core s"
proof -
  have rep: "lists_rep s Q" and out: "\<And>m. p \<notin> set (Q m)" using assms by (auto simp: linked_def)
  obtain s' where s': "stateListAdd l p s = Ok s'" "core s' = core s" "lists_rep s' (Q(l := Q l @ [p]))"
    using sl.add_rep[OF rep assms(4) out] by blast
  then show ?thesis using assms unfolding linked_def by auto
qed

lemma linked_pupd [simp]: "link_indep f \<Longrightarrow> linked (pupd p f s) Q k = linked s Q k"
  by (simp add: linked_def)

lemma linked_key: "linked s Q k \<Longrightarrow> (\<And>p. p < NPROC \<Longrightarrow> k p = k' p) \<Longrightarrow> linked s Q k'"
  unfolding linked_def by metis

lemma ptinvD:
  assumes "ptinv s Q"
  shows "lists_rep s Q" "prio_ok s" "p \<in> set (Q l) \<longleftrightarrow> p < NPROC \<and> lkey (proc s p) = l" "distinct (Q l)"
  using assms by (auto simp: ptinv_def linked_def lists_rep_def)

lemma ptinv_head: "ptinv s Q \<Longrightarrow> lref_ok l \<Longrightarrow> head (getl l s) = hd_ptr (Q l)"
  using ptinvD(1) lists_repD(1) by blast

text \<open>An update that keeps every process on its list.\<close>

lemma ptinv_pupd:
  assumes "ptinv s Q" "link_indep f" "lkey (f (proc s p)) = lkey (proc s p)"
    "unat (priority (f (proc s p))) \<le> MAXPRIO"
  shows "ptinv (pupd p f s) Q"
proof -
  have "lkey (proc (pupd p f s) q) = lkey (proc s q)" for q using assms(3) by (cases "q = p") simp_all
  moreover have "prio_ok (pupd p f s)" using assms(1,4)
    by (auto simp: ptinv_def prio_ok_def pupd_def)
  ultimately show ?thesis using assms by (simp add: ptinv_def)
qed

text \<open>The invariant after the process \<open>p\<close> has been updated and put on its new list.\<close>

lemma ptinv_of_linked:
  assumes "prio_ok s" "linked s2 Q' ((\<lambda>q. Some (lkey (proc s q)))(p := Some (lkey (f (proc s p)))))"
    and "core s2 = pupd p f (core s)" "link_indep f" "unat (priority (f (proc s p))) \<le> MAXPRIO"
  shows "ptinv s2 Q'"
proof -
  have f: "f (proc (core s) p) = (f (proc s p))\<lparr>nxt := None\<rparr>"
    using assms(4) by (simp add: core_def link_indep_def)
  have "lkey (proc s2 q) = lkey (proc (pupd p f (core s)) q)" for q
    unfolding assms(3)[symmetric] by simp
  then have key: "lkey (proc s2 q) = (if q = p then lkey (f (proc s p)) else lkey (proc s q))" for q
    using f by (cases "q = p") simp_all
  have "priority (proc s2 q) = priority (proc (pupd p f (core s)) q)" for q
    unfolding assms(3)[symmetric] by simp
  then have "prio_ok s2" using assms(1,5) f unfolding prio_ok_def by (simp add: pupd_def)
  moreover have "linked s2 Q' (\<lambda>q. Some (lkey (proc s2 q)))"
    using assms(2) by (rule linked_key) (simp add: key)
  ultimately show ?thesis by (simp add: ptinv_def)
qed

lemma ptinv_remove:
  assumes "ptinv s Q" "p < NPROC" "lkey (proc s p) = l"
  shows "\<exists>s'. remove_or_panic l p msg s = Ok s' \<and>
           linked s' (Q(l := remove1 p (Q l))) ((\<lambda>q. Some (lkey (proc s q)))(p := None)) \<and> core s' = core s"
  using assms lkey_ok[of s p] by (intro linked_remove) (auto simp: ptinv_def)

text \<open>A change of state moves the process and changes nothing else.\<close>

lemma relist_ok:
  assumes "ptinv s Q" "p < NPROC" "lkey (proc s p) = l" "state (proc s p) = st" "link_indep f"
    and "\<And>n. m (f ((proc s p)\<lparr>nxt := n\<rparr>)) = lkey (f (proc s p))"
    and "unat (priority (f (proc s p))) \<le> MAXPRIO"
  shows "\<exists>s'. relist l p msg st f m s = Ok s' \<and> ptinv s' (moved l (lkey (f (proc s p))) p Q) \<and>
           core s' = pupd p f (core s)"
proof -
  let ?k = "\<lambda>p. Some (lkey (proc s p))" and ?R = "Q(l := remove1 p (Q l))" and ?m = "lkey (f (proc s p))"
  obtain s1 where s1: "remove_or_panic l p msg s = Ok s1" "linked s1 ?R (?k(p := None))" "core s1 = core s"
    using ptinv_remove[OF assms(1-3)] by blast
  have st: "state (proc s1 p) = st" using arg_cong[OF s1(3), of "\<lambda>s. state (proc s p)"] assms(4) by simp
  have "proc s1 p = (proc s p)\<lparr>nxt := nxt (proc s1 p)\<rparr>" using core_proc_eq[OF s1(3)] .
  then have m: "m (f (proc s1 p)) = ?m" using assms(6)[of "nxt (proc s1 p)"] by simp
  have mok: "lref_ok ?m" using assms(7) by (simp add: lkey_def)
  have "linked (pupd p f s1) ?R (?k(p := None))" using s1(2) assms(5) by simp
  then obtain s2 where s2: "stateListAdd ?m p (pupd p f s1) = Ok s2"
      "linked s2 (moved l ?m p Q) (?k(p := Some ?m))" "core s2 = core (pupd p f s1)"
    using linked_add[of "pupd p f s1" ?R "?k(p := None)" p ?m] assms(2) mok by (auto simp: moved_def)
  have core2: "core s2 = pupd p f (core s)" using s2(3) s1(3) assms(5) by simp
  have "ptinv s2 (moved l ?m p Q)"
    using ptinvD(2)[OF assms(1)] s2(2) core2 assms(5,7) by (rule ptinv_of_linked)
  moreover have "relist l p msg st f m s = Ok s2"
    using s1(1) st s2(1) m by (simp add: relist_def assertState_def)
  ultimately show ?thesis using core2 by blast
qed

text \<open>The same with a test of the priority before the update, as \<open>setpriority\<close> makes it.\<close>

lemma relist_checked:
  assumes "ptinv s Q" "p < NPROC" "lkey (proc s p) = l"
  shows "rbind (remove_or_panic l p msg s) (\<lambda>s1. rbind (assertState p st s1) (\<lambda>s2.
           if priority (proc s2 p) \<noteq> priority (proc s p) then Panic e
           else let s3 = pupd p f s2 in stateListAdd (m (proc s3 p)) p s3)) = relist l p msg st f m s"
proof -
  obtain s1 where s1: "remove_or_panic l p msg s = Ok s1" "core s1 = core s"
    using ptinv_remove[OF assms] by blast
  have "priority (proc s1 p) = priority (proc s p)" using arg_cong[OF s1(2), of "\<lambda>s. priority (proc s p)"] by simp
  then show ?thesis using s1(1) by (simp add: relist_def assertState_def)
qed

end
