(* ===== verification/Proc_Ops.thy ===== *)
theory Proc_Ops
  imports Proc_Inv
begin

text \<open>
  The operations of \<open>proc.c\<close> that need nothing but the process table, the page
  allocator and the CPUs: \<open>myproc\<close>, \<open>allocproc\<close>, the scheduler with its periodic
  promotion, \<open>sched\<close>, \<open>yield\<close>, \<open>sleep\<close>, \<open>wakeup\<close>, \<open>kill\<close>, \<open>setpriority\<close>, \<open>getpriority\<close> and
  \<open>getprocs\<close>; and \<open>switchuvm\<close>, \<open>switchkvm\<close> of \<open>vm.c\<close>, which the scheduler calls.  A function
  that gives up the CPU through \<open>swtch\<close> is two definitions, the part before the switch
  (suffix \<open>_enter\<close>) and the part after it (suffix \<open>_exit\<close>), which may run on another CPU.
\<close>

section \<open>Locking and the current process\<close>

definition ptable_acquire :: "nat \<Rightarrow> 'a pt_st_scheme \<Rightarrow> 'a pt_st_scheme res" where
  "ptable_acquire c s =
     rbind (acquire c (cpus s) (ptable_lock s)) (\<lambda>(cs, l). Ok (s\<lparr>cpus := cs, ptable_lock := l\<rparr>))"

definition ptable_release :: "nat \<Rightarrow> 'a pt_st_scheme \<Rightarrow> 'a pt_st_scheme res" where
  "ptable_release c s =
     rbind (release c (cpus s) (ptable_lock s)) (\<lambda>(cs, l). Ok (s\<lparr>cpus := cs, ptable_lock := l\<rparr>))"

definition cpu_upd :: "nat \<Rightarrow> (cpu \<Rightarrow> cpu) \<Rightarrow> 'a kmem_st_scheme \<Rightarrow> 'a kmem_st_scheme" where
  "cpu_upd c f s = s\<lparr>cpus := (cpus s)(c := f (cpus s c))\<rparr>"

definition pinit :: "'a pt_st_scheme \<Rightarrow> 'a pt_st_scheme" where
  "pinit s = s\<lparr>ptable_lock := initlock ''ptable''\<rparr>"

definition myproc :: "nat \<Rightarrow> 'a kmem_st_scheme \<Rightarrow> (ptr \<times> 'a kmem_st_scheme) res" where
  "myproc c s =
     (let cs1 = pushcli c (cpus s); p = cproc (cs1 c)
      in rbind (popcli c cs1) (\<lambda>cs2. Ok (p, s\<lparr>cpus := cs2\<rparr>)))"

section \<open>allocproc\<close>

definition sizeof_trapframe :: uint where "sizeof_trapframe = 76"
definition sizeof_context :: uint where "sizeof_context = 20"

text \<open>The first locked section: the process found on the free list becomes an embryo.\<close>

definition allocproc_take :: "nat \<Rightarrow> nat \<Rightarrow> 'a pt_st_scheme \<Rightarrow> 'a pt_st_scheme res" where
  "allocproc_take c p s =
     rbind (ptable_acquire c s) (\<lambda>s1.
     rbind (relist (LState (state (proc s1 p))) p ''Empty list or process not in list'' UNUSED
              (\<lambda>x. x\<lparr>state := EMBRYO, pid := nextpid s1\<rparr>) (\<lambda>x. LState (state x)) s1) (\<lambda>s2.
     ptable_release c (s2\<lparr>nextpid := nextpid s2 + 1\<rparr>)))"

text \<open>The locked section by which \<open>allocproc\<close> and \<open>fork\<close> give an embryo back.\<close>

definition free_embryo :: "nat \<Rightarrow> nat \<Rightarrow> string \<Rightarrow> 'a pt_st_scheme \<Rightarrow> 'a pt_st_scheme res" where
  "free_embryo c p msg s =
     rbind (ptable_acquire c s) (\<lambda>s1.
     rbind (relist (LState (state (proc s1 p))) p msg EMBRYO
              (\<lambda>x. x\<lparr>state := UNUSED\<rparr>) (\<lambda>x. LState (state x)) s1) (\<lambda>s2.
     ptable_release c s2))"

text \<open>The initial kernel stack and the reset of the accounting fields.\<close>

definition allocproc_stack :: "nat \<Rightarrow> 'a pt_st_scheme \<Rightarrow> 'a pt_st_scheme" where
  "allocproc_stack p s =
     (let sp = kstack (proc s p) + KSTACKSIZE;
          sp = sp - sizeof_trapframe;
          s = pupd p (\<lambda>x. x\<lparr>tf := sp\<rparr>) s;
          sp = sp - 4;
          s = s\<lparr>mem := st32 (mem s) sp (trapret_sym s)\<rparr>;
          sp = sp - sizeof_context;
          s = pupd p (\<lambda>x. x\<lparr>ctxt := sp\<rparr>) s;
          s = s\<lparr>mem := memset (mem s) sp 0 sizeof_context\<rparr>;
          s = s\<lparr>mem := st32 (mem s) (sp + 16) (forkret_sym s)\<rparr>
      in pupd p (\<lambda>x. x\<lparr>cpu_ticks_total := 0, cpu_ticks_in := 0, budget := BUDGET,
                       priority := of_nat MAXPRIO\<rparr>) s)"

definition allocproc :: "nat \<Rightarrow> 'a pt_st_scheme \<Rightarrow> (ptr \<times> 'a pt_st_scheme) res" where
  "allocproc c s =
     (case head (getl (LState UNUSED) s) of
        None \<Rightarrow> Ok (None, s)
      | Some p \<Rightarrow>
          rbind (allocproc_take c p s) (\<lambda>s1.
          rbind (kalloc c s1) (\<lambda>(k, s2).
          let s3 = pupd p (\<lambda>x. x\<lparr>kstack := k\<rparr>) s2
          in if k = 0
             then rbind (free_embryo c p ''Empty list or process not in list'' s3) (\<lambda>s4. Ok (None, s4))
             else Ok (Some p, allocproc_stack p s3))))"

section \<open>vm.c: switchkvm, switchuvm\<close>

definition switchkvm :: "nat \<Rightarrow> 'a pt_st_scheme \<Rightarrow> 'a pt_st_scheme" where
  "switchkvm c s = cpu_upd c (\<lambda>k. k\<lparr>cr3 := V2P (kpgdir s)\<rparr>) s"

definition switchuvm :: "nat \<Rightarrow> ptr \<Rightarrow> 'a pt_st_scheme \<Rightarrow> 'a pt_st_scheme res" where
  "switchuvm c po s =
     (case po of
        None \<Rightarrow> Panic ''switchuvm: no process''
      | Some p \<Rightarrow>
          if kstack (proc s p) = 0 then Panic ''switchuvm: no kstack''
          else if pgdir (proc s p) = 0 then Panic ''switchuvm: no pgdir''
          else let s1 = s\<lparr>cpus := pushcli c (cpus s)\<rparr>;
                   s2 = cpu_upd c (\<lambda>k. k\<lparr>gdt := (gdt k)(SEG_TSS :=
                          (SEG16 STS_T32A (ts_addr s c) (104 - 1) 0)\<lparr>sd_s := 0\<rparr>)\<rparr>) s1;
                   s3 = cpu_upd c (\<lambda>k. k\<lparr>ts_ss0 := of_nat SEG_KDATA * 8,
                          ts_esp0 := kstack (proc s p) + KSTACKSIZE, ts_iomb := 0xFFFF\<rparr>) s2;
                   s4 = cpu_upd c (\<lambda>k. k\<lparr>cr3 := V2P (pgdir (proc s p))\<rparr>) s3
               in rbind (popcli c (cpus s4)) (\<lambda>cs. Ok (s4\<lparr>cpus := cs\<rparr>)))"

section \<open>scheduler\<close>

text \<open>Promotion of the processes of one ready list, and of the sleeping and running ones.\<close>

definition promote_body :: "nat \<Rightarrow> nat \<Rightarrow> 'a pt_st_scheme \<Rightarrow> (unit option \<times> ptr \<times> 'a pt_st_scheme) res" where
  "promote_body j p s =
     (let tmp = nxt (proc s p);
          s1 = pupd p (\<lambda>x. x\<lparr>budget := BUDGET\<rparr>) s
      in if priority (proc s1 p) < of_nat MAXPRIO then
           rbind (remove_or_panic (LReady (unat (priority (proc s1 p)))) p
                    ''Empty List or process is not in list'' s1) (\<lambda>s2.
           rbind (assertState p RUNNABLE s2) (\<lambda>s3.
           if priority (proc s3 p) \<noteq> of_nat j then Panic ''p->priority not same as in ready list''
           else rbind (stateListAdd (LReady (unat (priority (proc s3 p) + 1))) p s3) (\<lambda>s4.
           Ok (None, tmp, pupd p (\<lambda>x. x\<lparr>priority := priority x + 1\<rparr>) s4))))
         else Ok (None, tmp, s1))"

definition promote_ready :: "nat \<Rightarrow> 'a pt_st_scheme \<Rightarrow> 'a pt_st_scheme res" where
  "promote_ready j s =
     rbind (walk (promote_body j) (head (getl (LReady j) s)) s) (\<lambda>(_, s'). Ok s')"

definition promote_proc :: "proc \<Rightarrow> proc" where
  "promote_proc x =
     (let x1 = x\<lparr>budget := BUDGET\<rparr>
      in if priority x1 < of_nat MAXPRIO then x1\<lparr>priority := priority x1 + 1\<rparr> else x1)"

definition promote_list :: "procstate \<Rightarrow> 'a pt_st_scheme \<Rightarrow> 'a pt_st_scheme res" where
  "promote_list st s =
     rbind (walk (\<lambda>p s. let s1 = pupd p promote_proc s in Ok (None :: unit option, nxt (proc s1 p), s1))
              (head (getl (LState st) s)) s) (\<lambda>(_, s'). Ok s')"

definition promote_all :: "'a pt_st_scheme \<Rightarrow> 'a pt_st_scheme res" where
  "promote_all s =
     rbind (promote_list SLEEPING s) (\<lambda>s1.
     rbind (if head (getl (LState RUNNABLE) s1) \<noteq> None then Panic ''Runnable list should be empty''
            else for_each (\<lambda>j s. rbind (promote_ready j s) (\<lambda>s'. Ok (None :: unit option, s')))
                   (rev [0..<MAXPRIO]) s1) (\<lambda>(_, s2).
     rbind (promote_list RUNNING s2) (\<lambda>s3.
     Ok (s3\<lparr>PromoteAtTime := ticks s3 + TICKS_TO_PROMOTE\<rparr>))))"

text \<open>Dispatch of the head of the first nonempty ready list, up to the \<open>swtch\<close>.\<close>

definition dispatch :: "nat \<Rightarrow> nat \<Rightarrow> nat \<Rightarrow> 'a pt_st_scheme \<Rightarrow> 'a pt_st_scheme res" where
  "dispatch c i p s =
     rbind (switchuvm c (Some p) (cpu_upd c (\<lambda>k. k\<lparr>cproc := Some p\<rparr>) s)) (\<lambda>s1.
     rbind (relist (LReady i) p ''Empty List or process is not in list'' RUNNABLE
              (\<lambda>x. x\<lparr>state := RUNNING\<rparr>) (\<lambda>x. LState (state x)) s1) (\<lambda>s2.
     Ok (pupd p (\<lambda>x. x\<lparr>cpu_ticks_in := ticks s2\<rparr>) s2)))"

definition scheduler_pick :: "nat \<Rightarrow> 'a pt_st_scheme \<Rightarrow> (nat option \<times> 'a pt_st_scheme) res" where
  "scheduler_pick c s =
     for_each (\<lambda>i s. case head (getl (LReady i) s) of
                       None \<Rightarrow> Ok (None, s)
                     | Some p \<Rightarrow> rbind (dispatch c i p s) (\<lambda>s'. Ok (Some p, s')))
       (rev [0..<Suc MAXPRIO]) s"

text \<open>
  One pass of the \<open>for(;;)\<close> loop: \<open>Some p\<close> when the CPU now runs \<open>p\<close>, with \<open>ptable.lock\<close> held
  and the rest of the pass (\<open>scheduler_exit\<close>) still to come; \<open>None\<close> when it is idle.
\<close>

definition scheduler_start :: "nat \<Rightarrow> 'a pt_st_scheme \<Rightarrow> 'a pt_st_scheme" where
  "scheduler_start c s = cpu_upd c (\<lambda>k. k\<lparr>cproc := None\<rparr>) s"

definition scheduler_enter :: "nat \<Rightarrow> 'a pt_st_scheme \<Rightarrow> (nat option \<times> 'a pt_st_scheme) res" where
  "scheduler_enter c s =
     rbind (ptable_acquire c (s\<lparr>cpus := sti c (cpus s)\<rparr>)) (\<lambda>s1.
     rbind (if ticks s1 \<ge> PromoteAtTime s1 then promote_all s1 else Ok s1) (\<lambda>s2.
     rbind (scheduler_pick c s2) (\<lambda>(r, s3).
       case r of
         Some p \<Rightarrow> Ok (Some p, s3)
       | None \<Rightarrow> rbind (ptable_release c s3) (\<lambda>s4. Ok (None, s4\<lparr>cpus := sti c (cpus s4)\<rparr>)))))"

definition scheduler_exit :: "nat \<Rightarrow> 'a pt_st_scheme \<Rightarrow> 'a pt_st_scheme res" where
  "scheduler_exit c s = ptable_release c (cpu_upd c (\<lambda>k. k\<lparr>cproc := None\<rparr>) (switchkvm c s))"

section \<open>sched, yield, forkret\<close>

definition sched_enter :: "nat \<Rightarrow> 'a pt_st_scheme \<Rightarrow> (uint \<times> 'a pt_st_scheme) res" where
  "sched_enter c s =
     rbind (myproc c s) (\<lambda>(po, s1).
     rbind (holding c (cpus s1) (ptable_lock s1)) (\<lambda>(h, cs).
     let s2 = s1\<lparr>cpus := cs\<rparr>
     in if \<not> h then Panic ''sched ptable.lock''
        else if ncli (cpus s2 c) \<noteq> 1 then Panic ''sched locks''
        else deref po (\<lambda>p.
          if state (proc s2 p) = RUNNING then Panic ''sched running''
          else if interrupts_on (cpus s2) c then Panic ''sched interruptible''
          else let ie = intena (cpus s2 c)
               in Ok (ie, pupd p (\<lambda>x. x\<lparr>cpu_ticks_total :=
                            cpu_ticks_total x + (ticks s2 - cpu_ticks_in x)\<rparr>) s2))))"

definition sched_exit :: "nat \<Rightarrow> uint \<Rightarrow> 'a pt_st_scheme \<Rightarrow> 'a pt_st_scheme" where
  "sched_exit c ie s = cpu_upd c (\<lambda>k. k\<lparr>intena := ie\<rparr>) s"

text \<open>The charge for the time slice; \<open>budget\<close> is an \<open>int\<close>, compared signed.\<close>

definition charge_budget :: "uint \<Rightarrow> proc \<Rightarrow> proc" where
  "charge_budget now x =
     (let b = budget x - (now - cpu_ticks_in x)
      in if int_of b \<le> 0
         then x\<lparr>priority := (if priority x > 0 then priority x - 1 else priority x), budget := BUDGET\<rparr>
         else x\<lparr>budget := b\<rparr>)"

definition yield_enter :: "nat \<Rightarrow> 'a pt_st_scheme \<Rightarrow> (uint \<times> 'a pt_st_scheme) res" where
  "yield_enter c s =
     rbind (myproc c s) (\<lambda>(po, s1).
     rbind (ptable_acquire c s1) (\<lambda>s2.
     deref po (\<lambda>p.
       let s3 = pupd p (charge_budget (ticks s2)) s2
       in rbind (relist (LState (state (proc s3 p))) p ''Empty List or process not in list'' RUNNING
                   (\<lambda>x. x\<lparr>state := RUNNABLE\<rparr>) (\<lambda>x. LReady (unat (priority x))) s3)
            (sched_enter c))))"

definition yield_exit :: "nat \<Rightarrow> uint \<Rightarrow> 'a pt_st_scheme \<Rightarrow> 'a pt_st_scheme res" where
  "yield_exit c ie s = ptable_release c (sched_exit c ie s)"

section \<open>sleep, wakeup\<close>

text \<open>The lock argument of \<open>sleep\<close>: \<open>&ptable.lock\<close>, NULL, or a lock elsewhere in the state.\<close>

datatype 's lockref = PtableLock | NoLock | Lock "'s \<Rightarrow> spinlock" "spinlock \<Rightarrow> 's \<Rightarrow> 's"

definition sleep_enter ::
  "nat \<Rightarrow> chan \<Rightarrow> 'a pt_st_scheme lockref \<Rightarrow> 'a pt_st_scheme \<Rightarrow> (uint \<times> 'a pt_st_scheme) res" where
  "sleep_enter c ch lk s =
     rbind (myproc c s) (\<lambda>(po, s1).
     case po of
       None \<Rightarrow> Panic ''sleep''
     | Some p \<Rightarrow>
         rbind (case lk of
                  PtableLock \<Rightarrow> Ok s1
                | NoLock \<Rightarrow> ptable_acquire c s1
                | Lock get put \<Rightarrow>
                    rbind (ptable_acquire c s1) (\<lambda>s2.
                    rbind (release c (cpus s2) (get s2)) (\<lambda>(cs, l). Ok (put l (s2\<lparr>cpus := cs\<rparr>))))) (\<lambda>s3.
         rbind (relist (LState (state (proc s3 p))) p ''Empty list or process not in list'' RUNNING
                  (\<lambda>x. x\<lparr>chan := ch, state := SLEEPING\<rparr>) (\<lambda>x. LState (state x)) s3) (\<lambda>s4.
         sched_enter c (pupd p (charge_budget (ticks s4)) s4))))"

definition sleep_exit ::
  "nat \<Rightarrow> nat \<Rightarrow> uint \<Rightarrow> 'a pt_st_scheme lockref \<Rightarrow> 'a pt_st_scheme \<Rightarrow> 'a pt_st_scheme res" where
  "sleep_exit c p ie lk s =
     (let s1 = pupd p (\<lambda>x. x\<lparr>chan := Ch_null\<rparr>) (sched_exit c ie s)
      in case lk of
           PtableLock \<Rightarrow> Ok s1
         | NoLock \<Rightarrow> ptable_release c s1
         | Lock get put \<Rightarrow>
             rbind (ptable_release c s1) (\<lambda>s2.
             rbind (acquire c (cpus s2) (get s2)) (\<lambda>(cs, l). Ok (put l (s2\<lparr>cpus := cs\<rparr>)))))"

definition wakeup1_body :: "chan \<Rightarrow> nat \<Rightarrow> 'a pt_st_scheme \<Rightarrow> (unit option \<times> ptr \<times> 'a pt_st_scheme) res" where
  "wakeup1_body ch p s =
     (let temp = nxt (proc s p)
      in if chan (proc s p) = ch
         then rbind (relist (LState (state (proc s p))) p ''Empty list or process not in list'' SLEEPING
                       (\<lambda>x. x\<lparr>state := RUNNABLE\<rparr>) (\<lambda>x. LReady (unat (priority x))) s)
                (\<lambda>s'. Ok (None, temp, s'))
         else Ok (None, temp, s))"

definition wakeup1 :: "chan \<Rightarrow> 'a pt_st_scheme \<Rightarrow> 'a pt_st_scheme res" where
  "wakeup1 ch s =
     rbind (walk (wakeup1_body ch) (head (getl (LState SLEEPING) s)) s) (\<lambda>(_, s'). Ok s')"

definition wakeup :: "nat \<Rightarrow> chan \<Rightarrow> 'a pt_st_scheme \<Rightarrow> 'a pt_st_scheme res" where
  "wakeup c ch s =
     rbind (ptable_acquire c s) (\<lambda>s1. rbind (wakeup1 ch s1) (ptable_release c))"

section \<open>kill, setpriority, getpriority\<close>

text \<open>
  The loop nest shared by \<open>kill\<close>, \<open>setpriority\<close>, \<open>getpriority\<close> and \<open>exit\<close>: the lists of the
  given states in order, and in place of the RUNNABLE list, which must be empty,
  the ready lists from \<open>MAXPRIO\<close> down to 0.
\<close>

definition scan_states ::
  "string \<Rightarrow> (nat \<Rightarrow> nat \<Rightarrow> 'a pt_st_scheme \<Rightarrow> ('r option \<times> ptr \<times> 'a pt_st_scheme) res) \<Rightarrow>
   (nat \<Rightarrow> 'a pt_st_scheme \<Rightarrow> ('r option \<times> ptr \<times> 'a pt_st_scheme) res) \<Rightarrow>
   procstate list \<Rightarrow> 'a pt_st_scheme \<Rightarrow> ('r option \<times> 'a pt_st_scheme) res" where
  "scan_states msg rbody body sts s =
     for_each (\<lambda>i s.
       if i = RUNNABLE then
         (if head (getl (LState i) s) \<noteq> None then Panic msg
          else for_each (\<lambda>j s. walk (rbody j) (head (getl (LReady j) s)) s) (rev [0..<Suc MAXPRIO]) s)
       else walk body (head (getl (LState i) s)) s) sts s"

text \<open>The loop bodies of \<open>kill\<close>: on a ready list, and on the other lists.\<close>

definition kill_ready_body ::
  "uint \<Rightarrow> nat \<Rightarrow> nat \<Rightarrow> 'a pt_st_scheme \<Rightarrow> (unit option \<times> ptr \<times> 'a pt_st_scheme) res" where
  "kill_ready_body pd j p s =
     (if pid (proc s p) = pd then Ok (Some (), None, pupd p (\<lambda>x. x\<lparr>killed := True\<rparr>) s)
      else Ok (None, nxt (proc s p), s))"

definition kill_body :: "uint \<Rightarrow> nat \<Rightarrow> 'a pt_st_scheme \<Rightarrow> (unit option \<times> ptr \<times> 'a pt_st_scheme) res" where
  "kill_body pd p s =
     (if pid (proc s p) = pd
      then let s1 = pupd p (\<lambda>x. x\<lparr>killed := True\<rparr>) s
           in rbind (if state (proc s1 p) = SLEEPING
                     then relist (LState (state (proc s1 p))) p ''Empty list or process not in list'' SLEEPING
                            (\<lambda>x. x\<lparr>state := RUNNABLE\<rparr>) (\<lambda>x. LReady (unat (priority x))) s1
                     else Ok s1) (\<lambda>s2. Ok (Some (), None, s2))
      else Ok (None, nxt (proc s p), s))"

definition kill :: "nat \<Rightarrow> uint \<Rightarrow> 'a pt_st_scheme \<Rightarrow> (int \<times> 'a pt_st_scheme) res" where
  "kill c pd s =
     rbind (ptable_acquire c s) (\<lambda>s1.
     rbind (scan_states ''Runnable list should be empty'' (kill_ready_body pd) (kill_body pd)
              [EMBRYO, SLEEPING, RUNNABLE, RUNNING, ZOMBIE] s1) (\<lambda>(r, s2).
     rbind (ptable_release c s2) (\<lambda>s3. Ok (if r = None then -1 else 0, s3))))"

definition setpriority_ready_body ::
  "uint \<Rightarrow> uint \<Rightarrow> nat \<Rightarrow> nat \<Rightarrow> 'a pt_st_scheme \<Rightarrow> (unit option \<times> ptr \<times> 'a pt_st_scheme) res" where
  "setpriority_ready_body pd prio j p s =
     (if pid (proc s p) = pd
      then rbind
        (if priority (proc s p) \<noteq> prio
         then rbind (remove_or_panic (LReady (unat (priority (proc s p)))) p
                       ''Empty list or process not in list'' s) (\<lambda>s1.
              rbind (assertState p RUNNABLE s1) (\<lambda>s2.
              if priority (proc s2 p) \<noteq> of_nat j then Panic ''p->priority not same as in ready list''
              else let s3 = pupd p (\<lambda>x. x\<lparr>priority := prio, budget := BUDGET\<rparr>) s2
                   in stateListAdd (LReady (unat (priority (proc s3 p)))) p s3))
         else Ok s) (\<lambda>s'. Ok (Some (), None, s'))
      else Ok (None, nxt (proc s p), s))"

definition setpriority_body ::
  "uint \<Rightarrow> uint \<Rightarrow> nat \<Rightarrow> 'a pt_st_scheme \<Rightarrow> (unit option \<times> ptr \<times> 'a pt_st_scheme) res" where
  "setpriority_body pd prio p s =
     (if pid (proc s p) = pd
      then Ok (Some (), None,
               if priority (proc s p) \<noteq> prio
               then pupd p (\<lambda>x. x\<lparr>priority := prio, budget := BUDGET\<rparr>) s else s)
      else Ok (None, nxt (proc s p), s))"

definition setpriority :: "nat \<Rightarrow> uint \<Rightarrow> uint \<Rightarrow> 'a pt_st_scheme \<Rightarrow> (int \<times> 'a pt_st_scheme) res" where
  "setpriority c pd prio s =
     rbind (ptable_acquire c s) (\<lambda>s1.
     if int_of pd < 0 \<or> int_of pd > 32767 then rbind (ptable_release c s1) (\<lambda>s2. Ok (-1, s2))
     else if int_of prio < 0 \<or> int_of prio > int MAXPRIO then rbind (ptable_release c s1) (\<lambda>s2. Ok (-1, s2))
     else rbind (scan_states ''Runnable list should be empty''
                   (setpriority_ready_body pd prio) (setpriority_body pd prio)
                   [SLEEPING, RUNNABLE, RUNNING] s1) (\<lambda>(r, s2).
     rbind (ptable_release c s2) (\<lambda>s3. Ok (if r = None then -1 else 0, s3))))"

definition getpriority_body :: "uint \<Rightarrow> nat \<Rightarrow> 'a pt_st_scheme \<Rightarrow> (nat option \<times> ptr \<times> 'a pt_st_scheme) res" where
  "getpriority_body pd p s =
     (if pid (proc s p) = pd then Ok (Some p, None, s) else Ok (None, nxt (proc s p), s))"

definition getpriority :: "nat \<Rightarrow> uint \<Rightarrow> 'a pt_st_scheme \<Rightarrow> (int \<times> 'a pt_st_scheme) res" where
  "getpriority c pd s =
     rbind (ptable_acquire c s) (\<lambda>s1.
     if int_of pd < 0 \<or> int_of pd > 32767 then rbind (ptable_release c s1) (\<lambda>s2. Ok (-1, s2))
     else rbind (scan_states ''Runnable list should be empty'' (\<lambda>j. getpriority_body pd) (getpriority_body pd)
                   [SLEEPING, RUNNABLE, RUNNING, ZOMBIE] s1) (\<lambda>(r, s2).
     rbind (ptable_release c s2) (\<lambda>s3.
       Ok (case r of None \<Rightarrow> -1 | Some p \<Rightarrow> int_of (priority (proc s3 p)), s3))))"

section \<open>getprocs\<close>

record uproc =
  u_pid :: uint
  u_uid :: uint
  u_gid :: uint
  u_ppid :: uint
  u_elapsed_ticks :: uint
  u_CPU_total_ticks :: uint
  u_state :: "byte list"
  u_size :: uint
  u_name :: "byte list"
  u_priority :: uint
  u_budget :: uint

definition STRMAX :: nat where "STRMAX = 32"

definition str_bytes :: "string \<Rightarrow> byte list" where
  "str_bytes cs = map (\<lambda>ch. of_nat (of_char ch)) cs @ [0]"

fun states_name :: "procstate \<Rightarrow> string" where
  "states_name UNUSED = ''unused''"
| "states_name EMBRYO = ''embryo''"
| "states_name SLEEPING = ''sleep ''"
| "states_name RUNNABLE = ''runble''"
| "states_name RUNNING = ''run   ''"
| "states_name ZOMBIE = ''zombie''"

definition fill_uproc :: "'a pt_st_scheme \<Rightarrow> nat \<Rightarrow> uproc \<Rightarrow> uproc" where
  "fill_uproc s p u =
     u\<lparr>u_pid := pid (proc s p), u_uid := uid (proc s p), u_gid := gid (proc s p),
       u_ppid := (case parent (proc s p) of None \<Rightarrow> pid (proc s p) | Some q \<Rightarrow> pid (proc s q)),
       u_priority := priority (proc s p),
       u_elapsed_ticks := ticks s - start_ticks (proc s p),
       u_CPU_total_ticks := cpu_ticks_total (proc s p),
       u_state := safestrcpy_arr (u_state u) (str_bytes (states_name (state (proc s p)))) STRMAX,
       u_size := sz (proc s p),
       u_name := safestrcpy_arr (u_name u) (pname (proc s p)) STRMAX\<rparr>"

text \<open>The caller's table is a function of the index; the loop breaks when it is full.\<close>

definition getprocs ::
  "nat \<Rightarrow> uint \<Rightarrow> (nat \<Rightarrow> uproc) \<Rightarrow> 'a pt_st_scheme \<Rightarrow> (int \<times> (nat \<Rightarrow> uproc) \<times> 'a pt_st_scheme) res" where
  "getprocs c mx table s =
     rbind (ptable_acquire c s) (\<lambda>s1.
     rbind (for_each (\<lambda>p (counter, tab).
              if state (proc s1 p) = UNUSED \<or> state (proc s1 p) = EMBRYO then Ok (None, (counter, tab))
              else if counter < unat mx
                   then Ok (None, (counter + 1, tab(counter := fill_uproc s1 p (tab counter))))
                   else Ok (Some (), (counter, tab)))
            [0..<NPROC] (0, table)) (\<lambda>(_, counter, tab).
     rbind (ptable_release c s1) (\<lambda>s2. Ok (int counter, tab, s2))))"

end
