(* ===== verification/Proc_Thms.thy ===== *)
theory Proc_Thms
  imports Proc_Ops
begin

text \<open>
  Correctness of the process-table operations.  Each operation, started on a CPU that
  holds no lock on a table that satisfies \<open>ptinv\<close>, neither panics nor hangs, releases
  the lock, keeps \<open>ptinv\<close>, and changes the fields and the lists as described here.
\<close>

section \<open>Frame lemmas\<close>

lemma ptinv_cong:
  assumes "proc s' = proc s" "plist s' = plist s" "ready s' = ready s"
  shows "ptinv s' Q = ptinv s Q"
  using assms lists_rep_cong[of s' s Q] by (simp add: ptinv_def linked_def prio_ok_def nexts_def)

lemma ptinv_glob [simp]:
  "ptinv (s\<lparr>cpus := a\<rparr>) Q = ptinv s Q" "ptinv (s\<lparr>ptable_lock := b\<rparr>) Q = ptinv s Q"
  "ptinv (s\<lparr>mem := d\<rparr>) Q = ptinv s Q" "ptinv (s\<lparr>freelist := e\<rparr>) Q = ptinv s Q"
  "ptinv (s\<lparr>kmem_lock := f\<rparr>) Q = ptinv s Q" "ptinv (s\<lparr>nextpid := g\<rparr>) Q = ptinv s Q"
  "ptinv (s\<lparr>PromoteAtTime := e\<rparr>) Q = ptinv s Q" "ptinv (s\<lparr>ticks := e\<rparr>) Q = ptinv s Q"
  "ptinv (s\<lparr>initproc := i\<rparr>) Q = ptinv s Q" "ptinv (s\<lparr>kpgdir := e\<rparr>) Q = ptinv s Q"
  by (rule ptinv_cong; simp)+

lemma core_upd [simp]:
  "core (s\<lparr>cpus := a\<rparr>) = (core s)\<lparr>cpus := a\<rparr>" "core (s\<lparr>ptable_lock := b\<rparr>) = (core s)\<lparr>ptable_lock := b\<rparr>"
  "core (s\<lparr>mem := d\<rparr>) = (core s)\<lparr>mem := d\<rparr>" "core (s\<lparr>freelist := e\<rparr>) = (core s)\<lparr>freelist := e\<rparr>"
  "core (s\<lparr>nextpid := g\<rparr>) = (core s)\<lparr>nextpid := g\<rparr>"
  "core (s\<lparr>PromoteAtTime := e\<rparr>) = (core s)\<lparr>PromoteAtTime := e\<rparr>"
  by (simp_all add: core_def)

lemma getl_upd [simp]:
  "getl l (s\<lparr>cpus := a\<rparr>) = getl l s" "getl l (s\<lparr>ptable_lock := b\<rparr>) = getl l s"
  "getl l (s\<lparr>nextpid := g\<rparr>) = getl l s" "getl l (s\<lparr>PromoteAtTime := e\<rparr>) = getl l s"
  "getl l (s\<lparr>mem := d\<rparr>) = getl l s" "getl l (s\<lparr>freelist := e\<rparr>) = getl l s"
  by (cases l; simp)+

lemma cpu_upd_simps [simp]:
  "cpus (cpu_upd c f s) c = f (cpus s c)" "d \<noteq> c \<Longrightarrow> cpus (cpu_upd c f s) d = cpus s d"
  "proc (cpu_upd c f s') = proc s'" "getl l (cpu_upd c f s') = getl l s'"
  "ptinv (cpu_upd c f s') Q = ptinv s' Q" "ptable_lock (cpu_upd c f s') = ptable_lock s'"
  "ticks (cpu_upd c f s') = ticks s'" "kpgdir (cpu_upd c f s') = kpgdir s'"
  by (simp_all add: cpu_upd_def)

section \<open>The lock\<close>

text \<open>What an operation may assume of the CPU it runs on.\<close>

definition ready_cpu :: "nat \<Rightarrow> 'a pt_st_scheme \<Rightarrow> bool" where
  "ready_cpu c s \<longleftrightarrow> cpu_ok (cpus s c) \<and> free_lock (ptable_lock s)"

definition with_lock :: "nat \<Rightarrow> 'a pt_st_scheme \<Rightarrow> 'a pt_st_scheme" where
  "with_lock c s = s\<lparr>cpus := pushcli c (cpus s), ptable_lock := (ptable_lock s)\<lparr>locked := 1, lk_cpu := Some c\<rparr>\<rparr>"

definition after_lock :: "nat \<Rightarrow> 'a pt_st_scheme \<Rightarrow> 'a pt_st_scheme" where
  "after_lock c s = s\<lparr>cpus := (cpus s)(c := saved (cpus s c))\<rparr>"

lemma ptable_acquire_eq: "ready_cpu c s \<Longrightarrow> ptable_acquire c s = Ok (with_lock c s)"
  by (simp add: ptable_acquire_def ready_cpu_def acquire_free with_lock_def)

text \<open>Releasing after a critical section that left CPUs and lock alone.\<close>

lemma ptable_release_eq:
  assumes "ready_cpu c s" "cpus s' = cpus (with_lock c s)" "ptable_lock s' = ptable_lock (with_lock c s)"
  shows "ptable_release c s' = Ok (s'\<lparr>cpus := (cpus s)(c := saved (cpus s c)), ptable_lock := ptable_lock s\<rparr>)"
  using assms by (simp add: ptable_release_def with_lock_def release_held ready_cpu_def)

lemma cproc_pushcli: "cproc (pushcli c cs d) = cproc (cs d)"
  by (simp add: pushcli_def cli_def Let_def)

lemma myproc_eq: "cpu_ok (cpus s c) \<Longrightarrow> myproc c s = Ok (cproc (cpus s c), s\<lparr>cpus := (cpus s)(c := saved (cpus s c))\<rparr>)"
  by (simp add: myproc_def popcli_pushcli cproc_pushcli Let_def)

lemma with_lock_simps [simp]:
  "proc (with_lock c s) = proc s" "getl l (with_lock c s) = getl l s" "ptinv (with_lock c s) Q = ptinv s Q"
  "ticks (with_lock c s) = ticks s" "nextpid (with_lock c s) = nextpid s" "PromoteAtTime (with_lock c s) = PromoteAtTime s"
  "initproc (with_lock c s) = initproc s"
  by (simp_all add: with_lock_def)

text \<open>
  A critical section of \<open>ptable.lock\<close> whose body succeeds from the locked state, and
  keeps CPUs and lock: the whole operation succeeds and the lock is free again.
\<close>

lemma critical:
  assumes "ready_cpu c s" "body (with_lock c s) = Ok s1" "core s1 = f (core (with_lock c s))"
    and "\<And>x. cpus (f x) = cpus x \<and> ptable_lock (f x) = ptable_lock x"
  shows "rbind (ptable_acquire c s) (\<lambda>s. rbind (body s) (ptable_release c)) =
           Ok (s1\<lparr>cpus := (cpus s)(c := saved (cpus s c)), ptable_lock := ptable_lock s\<rparr>)"
proof -
  have "cpus s1 = cpus (core s1)" "ptable_lock s1 = ptable_lock (core s1)" by simp_all
  then have "cpus s1 = cpus (with_lock c s)" "ptable_lock s1 = ptable_lock (with_lock c s)"
    using assms(4) unfolding assms(3) by simp_all
  then show ?thesis using assms(1,2) by (simp add: ptable_acquire_eq ptable_release_eq)
qed

section \<open>wakeup\<close>

lemma chain_next: "chain nx q (as @ p # bs) \<Longrightarrow> nx p = hd_ptr bs"
  by (induction as arbitrary: q) (auto dest: chain_head)

lemma ptinv_next:
  assumes "ptinv s Q" "lref_ok l" "Q l = as @ p # bs"
  shows "nxt (proc s p) = hd_ptr bs"
  using lists_repD(3)[OF ptinvD(1)[OF assms(1)] assms(2)] assms(3) chain_next
  by (fastforce simp: nexts_def)

text \<open>The P2 version of \<open>wakeup1\<close>: a scan of the whole table, no lists.\<close>

definition wakeup1_scan :: "chan \<Rightarrow> 'a pt_st_scheme \<Rightarrow> 'a pt_st_scheme" where
  "wakeup1_scan ch s =
     fold (\<lambda>p s. if state (proc s p) = SLEEPING \<and> chan (proc s p) = ch
                 then pupd p (\<lambda>x. x\<lparr>state := RUNNABLE\<rparr>) s else s) [0..<NPROC] s"

definition wake_proc :: "chan \<Rightarrow> proc \<Rightarrow> proc" where
  "wake_proc ch x = (if state x = SLEEPING \<and> chan x = ch then x\<lparr>state := RUNNABLE\<rparr> else x)"

text \<open>An update of the processes in a set.\<close>

definition procs_upd :: "(nat \<Rightarrow> bool) \<Rightarrow> (proc \<Rightarrow> proc) \<Rightarrow> 'a pt_st_scheme \<Rightarrow> 'a pt_st_scheme" where
  "procs_upd P f s = s\<lparr>proc := (\<lambda>p. if P p then f (proc s p) else proc s p)\<rparr>"

lemma procs_upd_simps [simp]:
  "cpus (procs_upd P f s) = cpus s" "ptable_lock (procs_upd P f s) = ptable_lock s"
  "proc (procs_upd P f s) p = (if P p then f (proc s p) else proc s p)"
  "ticks (procs_upd P f s) = ticks s" "mem (procs_upd P f s) = mem s"
  by (simp_all add: procs_upd_def)

lemma procs_upd_insert:
  "\<not> P p \<Longrightarrow> pupd p f (procs_upd P f s) = procs_upd (\<lambda>q. q = p \<or> P q) f s"
  unfolding procs_upd_def pupd_def by (intro pt_st.equality) (auto simp: fun_eq_iff)

lemma procs_upd_skip: "f (proc s p) = proc s p \<Longrightarrow> procs_upd (\<lambda>q. q = p \<or> P q) f s = procs_upd P f s"
  unfolding procs_upd_def by (intro pt_st.equality) (auto simp: fun_eq_iff)

lemma procs_upd_none [simp]: "procs_upd (\<lambda>q. False) f s = s"
  by (simp add: procs_upd_def)

lemma procs_upd_cong:
  "(\<And>p. P p \<noteq> P' p \<Longrightarrow> f (proc s p) = proc s p) \<Longrightarrow> procs_upd P f s = procs_upd P' f s"
  unfolding procs_upd_def by (intro pt_st.equality) (auto simp: fun_eq_iff)

lemma wakeup1_scan_eq: "wakeup1_scan ch s = procs_upd (\<lambda>p. p < NPROC) (wake_proc ch) s"
proof -
  let ?f = "\<lambda>p s. if state (proc s p) = SLEEPING \<and> chan (proc s p) = ch
                 then pupd p (\<lambda>x. x\<lparr>state := RUNNABLE\<rparr>) s else (s :: 'a pt_st_scheme)"
  have "fold ?f [0..<n] s = procs_upd (\<lambda>p. p < n) (wake_proc ch) s" for n
  proof (induction n)
    case (Suc n)
    have "?f n (procs_upd (\<lambda>p. p < n) (wake_proc ch) s) = procs_upd (\<lambda>p. p < Suc n) (wake_proc ch) s"
      by (intro pt_st.equality) (auto simp: procs_upd_def pupd_def wake_proc_def less_Suc_eq fun_eq_iff)
    then show ?case using Suc by (simp only: upt_Suc_append fold_append fold.simps comp_def le0 id_apply)
  qed simp
  then show ?thesis by (simp add: wakeup1_scan_def)
qed

text \<open>The lists while \<open>wakeup1\<close> runs: \<open>ds\<close> are the sleepers visited, \<open>rest\<close> those to come.\<close>

definition woken :: "chan \<Rightarrow> (nat \<Rightarrow> proc) \<Rightarrow> (lref \<Rightarrow> nat list) \<Rightarrow> nat list \<Rightarrow> nat list \<Rightarrow> lref \<Rightarrow> nat list" where
  "woken ch pr Q ds rest l =
     (case l of
        LState st \<Rightarrow> if st = SLEEPING then filter (\<lambda>p. chan (pr p) \<noteq> ch) ds @ rest else Q l
      | LReady k \<Rightarrow> Q l @ filter (\<lambda>p. chan (pr p) = ch \<and> unat (priority (pr p)) = k) ds)"

lemma woken_skip: "chan (pr p) \<noteq> ch \<Longrightarrow> woken ch pr Q ds (p # rest) = woken ch pr Q (ds @ [p]) rest"
  by (auto simp: woken_def fun_eq_iff split: lref.splits)

lemma woken_move:
  assumes "chan (pr p) = ch" "p \<notin> set ds"
  shows "moved (LState SLEEPING) (LReady (unat (priority (pr p)))) p (woken ch pr Q ds (p # rest)) =
         woken ch pr Q (ds @ [p]) rest"
  using assms by (auto simp: woken_def moved_def fun_eq_iff remove1_append split: lref.splits)

lemma woken_start: "woken ch pr Q [] (Q (LState SLEEPING)) = Q"
  by (auto simp: woken_def fun_eq_iff split: lref.splits)

lemma link_indep_field [simp]:
  "link_indep (\<lambda>x. x\<lparr>state := st\<rparr>)" "link_indep (\<lambda>x. x\<lparr>killed := b\<rparr>)" "link_indep (\<lambda>x. x\<lparr>budget := u\<rparr>)"
  "link_indep (\<lambda>x. x\<lparr>chan := ch, state := st\<rparr>)" "link_indep (\<lambda>x. x\<lparr>chan := ch\<rparr>)"
  "link_indep (\<lambda>x. x\<lparr>state := st, pid := u\<rparr>)" "link_indep (\<lambda>x. x\<lparr>kstack := u\<rparr>)" "link_indep (\<lambda>x. x\<lparr>tf := u\<rparr>)"
  "link_indep (\<lambda>x. x\<lparr>ctxt := u\<rparr>)" "link_indep (\<lambda>x. x\<lparr>cpu_ticks_in := u\<rparr>)"
  "link_indep (\<lambda>x. x\<lparr>priority := u, budget := v\<rparr>)" "link_indep (\<lambda>x. x\<lparr>priority := priority x + 1\<rparr>)"
  "link_indep (\<lambda>x. x\<lparr>cpu_ticks_total := cpu_ticks_total x + (u - cpu_ticks_in x)\<rparr>)"
  "link_indep (\<lambda>x. x\<lparr>cpu_ticks_total := u, cpu_ticks_in := u', budget := v, priority := w\<rparr>)"
  "link_indep (charge_budget u)" "link_indep promote_proc" "link_indep (wake_proc ch)"
  by (simp_all add: link_indep_def charge_budget_def promote_proc_def wake_proc_def Let_def)

lemma ptinv_in: "ptinv s Q \<Longrightarrow> p \<in> set (Q l) \<Longrightarrow> p < NPROC \<and> lkey (proc s p) = l"
  using ptinvD(3) by blast

lemma lkey_state: "lkey x = LState st \<Longrightarrow> state x = st" and lkey_ready: "lkey x = LReady k \<Longrightarrow> state x = RUNNABLE \<and> unat (priority x) = k"
  by (auto simp: lkey_def split: if_splits)

lemma prio_le: "ptinv s Q \<Longrightarrow> p < NPROC \<Longrightarrow> unat (priority (proc s p)) \<le> MAXPRIO"
  using ptinvD(2) by (auto simp: prio_ok_def)

text \<open>Waking a sleeping process, as \<open>wakeup1\<close> and \<open>kill\<close> do.\<close>

lemma wake_relist:
  assumes inv: "ptinv s Q" and p: "p < NPROC" "state (proc s p) = SLEEPING"
  shows "\<exists>s'. relist (LState SLEEPING) p msg SLEEPING
                (\<lambda>x. x\<lparr>state := RUNNABLE\<rparr>) (\<lambda>x. LReady (unat (priority x))) s = Ok s' \<and>
       ptinv s' (moved (LState SLEEPING) (LReady (unat (priority (proc s p)))) p Q) \<and>
       core s' = pupd p (\<lambda>x. x\<lparr>state := RUNNABLE\<rparr>) (core s)"
proof -
  have "\<exists>s'. relist (LState SLEEPING) p msg SLEEPING
                (\<lambda>x. x\<lparr>state := RUNNABLE\<rparr>) (\<lambda>x. LReady (unat (priority x))) s = Ok s' \<and>
       ptinv s' (moved (LState SLEEPING) (lkey ((proc s p)\<lparr>state := RUNNABLE\<rparr>)) p Q) \<and>
       core s' = pupd p (\<lambda>x. x\<lparr>state := RUNNABLE\<rparr>) (core s)"
    using prio_le[OF inv p(1)] p by (intro relist_ok[OF inv p(1)]) (simp_all add: lkey_def)
  then show ?thesis by (simp add: lkey_def)
qed

definition wake_inv :: "chan \<Rightarrow> 'a pt_st_scheme \<Rightarrow> (lref \<Rightarrow> nat list) \<Rightarrow> nat list \<Rightarrow> 'a pt_st_scheme \<Rightarrow> bool" where
  "wake_inv ch s0 Q rest s \<longleftrightarrow>
     (\<exists>ds. Q (LState SLEEPING) = ds @ rest \<and> ptinv s (woken ch (proc s0) Q ds rest) \<and>
           core s = procs_upd (\<lambda>p. p \<in> set ds) (wake_proc ch) (core s0))"

lemma wakeup1_step:
  assumes inv0: "ptinv s0 Q" and I: "wake_inv ch s0 Q (p # rest) s"
  shows "\<exists>s'. wakeup1_body ch p s = Ok (None, hd_ptr rest, s') \<and> wake_inv ch s0 Q rest s'"
proof -
  obtain ds where Q: "Q (LState SLEEPING) = ds @ p # rest" and inv: "ptinv s (woken ch (proc s0) Q ds (p # rest))"
    and core: "core s = procs_upd (\<lambda>p. p \<in> set ds) (wake_proc ch) (core s0)"
    using I by (auto simp: wake_inv_def)
  have d: "p \<notin> set ds" using ptinvD(4)[OF inv0, of "LState SLEEPING"] Q by simp
  have s0: "p < NPROC" "state (proc s0 p) = SLEEPING"
    using ptinv_in[OF inv0, of p "LState SLEEPING"] Q lkey_state by auto
  have same: "(proc s p)\<lparr>nxt := None\<rparr> = (proc s0 p)\<lparr>nxt := None\<rparr>"
    using arg_cong[OF core, of "\<lambda>s. proc s p"] d by (simp add: core_def procs_upd_def)
  have f: "chan (proc s p) = chan (proc s0 p)" "state (proc s p) = SLEEPING" "priority (proc s p) = priority (proc s0 p)"
    using arg_cong[OF same, of chan] arg_cong[OF same, of state] arg_cong[OF same, of priority] s0 by simp_all
  have nx: "nxt (proc s p) = hd_ptr rest"
    using ptinv_next[OF inv, of "LState SLEEPING"] by (simp add: woken_def)
  show ?thesis
  proof (cases "chan (proc s p) = ch")
    case True
    obtain s' where s': "relist (LState SLEEPING) p ''Empty list or process not in list'' SLEEPING
                (\<lambda>x. x\<lparr>state := RUNNABLE\<rparr>) (\<lambda>x. LReady (unat (priority x))) s = Ok s'"
       "ptinv s' (woken ch (proc s0) Q (ds @ [p]) rest)" "core s' = pupd p (\<lambda>x. x\<lparr>state := RUNNABLE\<rparr>) (core s)"
      using wake_relist[OF inv s0(1) f(2)] True f woken_move[of "proc s0" p ch ds Q rest] d by auto
    have "core s' = procs_upd (\<lambda>q. q \<in> set (ds @ [p])) (wake_proc ch) (core s0)"
      using s'(3) core d True f s0 by (intro pt_st.equality) (auto simp: procs_upd_def pupd_def wake_proc_def fun_eq_iff)
    then have "wake_inv ch s0 Q rest s'" unfolding wake_inv_def
      using Q s'(2) by (intro exI[of _ "ds @ [p]"]) simp
    then show ?thesis using s'(1) nx True f by (simp add: wakeup1_body_def)
  next
    case False
    have "core s = procs_upd (\<lambda>q. q \<in> set (ds @ [p])) (wake_proc ch) (core s0)"
      unfolding core using False f by (intro procs_upd_cong) (auto simp: wake_proc_def)
    then have "wake_inv ch s0 Q rest s" unfolding wake_inv_def
      using Q inv woken_skip[of "proc s0" p ch Q ds rest] False f by (intro exI[of _ "ds @ [p]"]) simp
    then show ?thesis using nx False by (simp add: wakeup1_body_def)
  qed
qed

lemma wakeup1_ok:
  assumes "ptinv s Q"
  shows "\<exists>s'. wakeup1 ch s = Ok s' \<and> ptinv s' (woken ch (proc s) Q (Q (LState SLEEPING)) []) \<and>
           core s' = wakeup1_scan ch (core s)"
proof -
  have I0: "wake_inv ch s Q (Q (LState SLEEPING)) s" unfolding wake_inv_def
    using assms by (intro exI[of _ "[]"]) (simp add: woken_start)
  have h: "head (getl (LState SLEEPING) s) = hd_ptr (Q (LState SLEEPING))" using assms by (rule ptinv_head) simp
  have "\<exists>s'. walk (wakeup1_body ch) (hd_ptr (Q (LState SLEEPING))) s = Ok (None, s') \<and> wake_inv ch s Q [] s'"
    using wakeup1_step[OF assms] by (rule walk_run[of "wake_inv ch s Q", OF I0])
  then obtain s' where w: "wakeup1 ch s = Ok s'" and I: "wake_inv ch s Q [] s'"
    using h by (auto simp: wakeup1_def)
  from I have inv': "ptinv s' (woken ch (proc s) Q (Q (LState SLEEPING)) [])"
    and core: "core s' = procs_upd (\<lambda>p. p \<in> set (Q (LState SLEEPING))) (wake_proc ch) (core s)"
    by (auto simp: wake_inv_def)
  have "core s' = procs_upd (\<lambda>p. p < NPROC) (wake_proc ch) (core s)" unfolding core
    using ptinvD(3)[OF assms] by (intro procs_upd_cong) (auto simp: wake_proc_def lkey_def)
  with w inv' show ?thesis by (auto simp: wakeup1_scan_eq)
qed

lemma wakeup1_scan_glob [simp]:
  "cpus (wakeup1_scan ch s) = cpus s" "ptable_lock (wakeup1_scan ch s) = ptable_lock s"
  by (simp_all add: wakeup1_scan_eq)

text \<open>Acquiring and releasing changes only the saved interrupt flag.\<close>

lemma locked_core:
  assumes "core s1 = f (core (with_lock c s))"
    and "\<And>x a b. f (x\<lparr>cpus := a, ptable_lock := b\<rparr>) = (f x)\<lparr>cpus := a, ptable_lock := b\<rparr>"
    and "\<And>x. cpus (f x) = cpus x \<and> ptable_lock (f x) = ptable_lock x"
  shows "core (s1\<lparr>cpus := (cpus s)(c := saved (cpus s c)), ptable_lock := ptable_lock s\<rparr>) = f (core (after_lock c s))"
proof -
  have "f (core (after_lock c s)) = f ((core s)\<lparr>cpus := (cpus s)(c := saved (cpus s c)), ptable_lock := ptable_lock s\<rparr>)"
    by (intro arg_cong[of _ _ f] pt_st.equality) (simp_all add: after_lock_def)
  also have "\<dots> = (f (core s))\<lparr>cpus := (cpus s)(c := saved (cpus s c)), ptable_lock := ptable_lock s\<rparr>"
    by (rule assms(2))
  finally show ?thesis using assms by (simp add: with_lock_def)
qed

lemma ready_after [simp]:
  "ready_cpu c s \<Longrightarrow> ready_cpu c (s1\<lparr>cpus := (cpus s)(c := saved (cpus s c)), ptable_lock := ptable_lock s\<rparr>)"
  "ready_cpu c (after_lock c s) = ready_cpu c s"
  by (simp_all add: ready_cpu_def after_lock_def)

lemma wakeup_ok:
  assumes "ready_cpu c s" "ptinv s Q"
  shows "\<exists>s'. wakeup c ch s = Ok s' \<and> ready_cpu c s' \<and>
           ptinv s' (woken ch (proc s) Q (Q (LState SLEEPING)) []) \<and>
           core s' = wakeup1_scan ch (core (after_lock c s))"
proof -
  obtain s1 where s1: "wakeup1 ch (with_lock c s) = Ok s1"
      "ptinv s1 (woken ch (proc s) Q (Q (LState SLEEPING)) [])" "core s1 = wakeup1_scan ch (core (with_lock c s))"
    using wakeup1_ok[of "with_lock c s" Q ch] assms(2) by auto
  have "core (s1\<lparr>cpus := (cpus s)(c := saved (cpus s c)), ptable_lock := ptable_lock s\<rparr>) =
          wakeup1_scan ch (core (after_lock c s))"
    using s1(3) by (rule locked_core) (auto simp: wakeup1_scan_eq procs_upd_def intro!: pt_st.equality)
  moreover have "wakeup c ch s = Ok (s1\<lparr>cpus := (cpus s)(c := saved (cpus s c)), ptable_lock := ptable_lock s\<rparr>)"
    unfolding wakeup_def by (rule critical[where body = "wakeup1 ch" and f = "wakeup1_scan ch", OF assms(1) s1(1,3)]) simp
  ultimately show ?thesis using assms(1) s1(2) by auto
qed

section \<open>Searching the lists\<close>

text \<open>
  The outcome of a search from state \<open>s\<close>: nothing satisfies \<open>A\<close> and the state is as before,
  or the search stopped at some \<open>p\<close> with \<open>A p\<close>, with a result as \<open>R\<close> says.
\<close>

definition search ::
  "('r option \<times> 's) res \<Rightarrow> 's \<Rightarrow> (nat \<Rightarrow> bool) \<Rightarrow> (nat \<Rightarrow> 'r \<Rightarrow> 's \<Rightarrow> bool) \<Rightarrow> bool" where
  "search F s A R \<longleftrightarrow>
     (F = Ok (None, s) \<and> (\<forall>p. \<not> A p)) \<or> (\<exists>p r s'. A p \<and> F = Ok (Some r, s') \<and> R p r s')"

text \<open>What a loop body does at one process: go on, or stop.\<close>

definition visit ::
  "('r option \<times> ptr \<times> 'a pt_st_scheme) res \<Rightarrow> 'a pt_st_scheme \<Rightarrow> nat \<Rightarrow> bool \<Rightarrow>
   ('r \<Rightarrow> 'a pt_st_scheme \<Rightarrow> bool) \<Rightarrow> bool" where
  "visit B s p b R \<longleftrightarrow>
     (if b then \<exists>r q s'. B = Ok (Some r, q, s') \<and> R r s' else B = Ok (None, nxt (proc s p), s))"

lemma walk_find:
  assumes "chain (nexts s) q xs" "\<And>p. p \<in> set xs \<Longrightarrow> visit (body p s) s p (P p) (R p)"
  shows "search (walk body q s) s (\<lambda>p. p \<in> set xs \<and> P p) R"
  using assms
proof (induction xs arbitrary: q)
  case Nil
  then show ?case by (simp add: search_def)
next
  case (Cons x xs)
  have q: "q = Some x" and ch: "chain (nexts s) (nxt (proc s x)) xs" using Cons.prems(1) by (auto simp: nexts_def)
  have v: "visit (body x s) s x (P x) (R x)" using Cons.prems(2) by simp
  have IH: "search (walk body (nxt (proc s x)) s) s (\<lambda>p. p \<in> set xs \<and> P p) R"
    using Cons.prems(2) by (intro Cons.IH[OF ch]) simp
  show ?case
  proof (cases "P x")
    case True
    with v q show ?thesis by (auto simp: visit_def search_def walk_Some)
  next
    case False
    with v IH q show ?thesis by (auto simp: visit_def search_def walk_Some)
  qed
qed

lemma for_each_find:
  assumes "\<And>i. i \<in> set is \<Longrightarrow> search (f i s) s (A i) R"
  shows "search (for_each f is s) s (\<lambda>p. \<exists>i \<in> set is. A i p) R"
  using assms
proof (induction "is")
  case Nil
  then show ?case by (simp add: search_def)
next
  case (Cons i "is")
  have "search (for_each f is s) s (\<lambda>p. \<exists>i \<in> set is. A i p) R" using Cons by simp
  with Cons.prems[of i] show ?case by (auto simp: search_def)
qed

text \<open>The lists a state stands for: its own, or the ready lists for RUNNABLE.\<close>

definition in_state :: "'a pt_st_scheme \<Rightarrow> procstate list \<Rightarrow> nat \<Rightarrow> bool" where
  "in_state s sts p \<longleftrightarrow> p < NPROC \<and> state (proc s p) \<in> set sts"

lemma runnable_empty:
  assumes "ptinv s Q"
  shows "Q (LState RUNNABLE) = []" "head (getl (LState RUNNABLE) s) = None"
proof -
  have "p \<notin> set (Q (LState RUNNABLE))" for p
    using ptinvD(3)[OF assms, of p "LState RUNNABLE"] by (simp add: lkey_def)
  then show "Q (LState RUNNABLE) = []" by (metis list.set_intros(1) neq_Nil_conv)
  then show "head (getl (LState RUNNABLE) s) = None" using ptinv_head[OF assms, of "LState RUNNABLE"] by simp
qed

lemma in_LState:
  assumes "ptinv s Q" "i \<noteq> RUNNABLE"
  shows "p \<in> set (Q (LState i)) \<longleftrightarrow> p < NPROC \<and> state (proc s p) = i"
  using assms by (auto simp: ptinvD(3) lkey_def)

lemma in_LReady:
  assumes "ptinv s Q"
  shows "p \<in> set (Q (LReady j)) \<longleftrightarrow> p < NPROC \<and> state (proc s p) = RUNNABLE \<and> unat (priority (proc s p)) = j"
  using assms by (auto simp: ptinvD(3) lkey_def)

lemma walk_list_find:
  assumes inv: "ptinv s Q" and l: "lref_ok l"
    and "\<And>p. p \<in> set (Q l) \<Longrightarrow> visit (body p s) s p (P p) (R p)"
  shows "search (walk body (head (getl l s)) s) s (\<lambda>p. p \<in> set (Q l) \<and> P p) R"
  unfolding ptinv_head[OF inv l] using lists_repD(3)[OF ptinvD(1)[OF inv] l] assms(3) by (rule walk_find)

lemma walk_ready_find:
  assumes inv: "ptinv s Q"
    and rb: "\<And>p. p < NPROC \<Longrightarrow> state (proc s p) = RUNNABLE \<Longrightarrow>
               visit (rbody (unat (priority (proc s p))) p s) s p (P p) (R p)"
  shows "search (for_each (\<lambda>j s. walk (rbody j) (head (getl (LReady j) s)) s) (rev [0..<Suc MAXPRIO]) s) s
           (\<lambda>p. p < NPROC \<and> state (proc s p) = RUNNABLE \<and> P p) R"
proof -
  have "search (walk (rbody j) (head (getl (LReady j) s)) s) s (\<lambda>p. p \<in> set (Q (LReady j)) \<and> P p) R"
    if "j \<in> set (rev [0..<Suc MAXPRIO])" for j
    using that rb by (intro walk_list_find[OF inv]) (auto simp: in_LReady[OF inv])
  then have "search (for_each (\<lambda>j s. walk (rbody j) (head (getl (LReady j) s)) s) (rev [0..<Suc MAXPRIO]) s) s
           (\<lambda>p. \<exists>j \<in> set (rev [0..<Suc MAXPRIO]). p \<in> set (Q (LReady j)) \<and> P p) R"
    by (rule for_each_find)
  moreover have "(\<lambda>p. \<exists>j \<in> set (rev [0..<Suc MAXPRIO]). p \<in> set (Q (LReady j)) \<and> P p) =
                 (\<lambda>p. p < NPROC \<and> state (proc s p) = RUNNABLE \<and> P p)"
    using prio_le[OF inv] by (auto simp: in_LReady[OF inv] fun_eq_iff less_Suc_eq_le simp del: upt_Suc)
  ultimately show ?thesis by simp
qed

lemma scan_states_find:
  assumes inv: "ptinv s Q"
    and rb: "\<And>p. p < NPROC \<Longrightarrow> state (proc s p) = RUNNABLE \<Longrightarrow>
               visit (rbody (unat (priority (proc s p))) p s) s p (P p) (R p)"
    and b: "\<And>p. p < NPROC \<Longrightarrow> state (proc s p) \<noteq> RUNNABLE \<Longrightarrow> state (proc s p) \<in> set sts \<Longrightarrow>
               visit (body p s) s p (P p) (R p)"
  shows "search (scan_states msg rbody body sts s) s (\<lambda>p. in_state s sts p \<and> P p) R"
proof -
  let ?F = "\<lambda>i s. if i = RUNNABLE
       then if head (getl (LState i) s) \<noteq> None then Panic msg
            else for_each (\<lambda>j s. walk (rbody j) (head (getl (LReady j) s)) s) (rev [0..<Suc MAXPRIO]) s
       else walk body (head (getl (LState i) s)) s"
  have "search (?F i s) s (\<lambda>p. p < NPROC \<and> state (proc s p) = i \<and> P p) R" if i: "i \<in> set sts" for i
  proof (cases "i = RUNNABLE")
    case True
    have F: "?F i s = for_each (\<lambda>j s. walk (rbody j) (head (getl (LReady j) s)) s) (rev [0..<Suc MAXPRIO]) s"
      unfolding True by (simp only: runnable_empty(2)[OF inv] if_True if_False not_True_eq_False simp_thms)
    show ?thesis unfolding F unfolding True using rb by (rule walk_ready_find[OF inv])
  next
    case False
    have "search (walk body (head (getl (LState i) s)) s) s (\<lambda>p. p \<in> set (Q (LState i)) \<and> P p) R"
      using b i False by (intro walk_list_find[OF inv]) (auto simp: in_LState[OF inv])
    then show ?thesis using False by (simp only: in_LState[OF inv False] conj_assoc if_False)
  qed
  then have "search (scan_states msg rbody body sts s) s
               (\<lambda>p. \<exists>i \<in> set sts. p < NPROC \<and> state (proc s p) = i \<and> P p) R"
    unfolding scan_states_def by (rule for_each_find)
  moreover have "(\<lambda>p. \<exists>i \<in> set sts. p < NPROC \<and> state (proc s p) = i \<and> P p) = (\<lambda>p. in_state s sts p \<and> P p)"
    by (auto simp: in_state_def)
  ultimately show ?thesis by simp
qed

section \<open>kill\<close>

definition live_states :: "procstate list" where
  "live_states = [EMBRYO, SLEEPING, RUNNABLE, RUNNING, ZOMBIE]"

definition kill_proc :: "proc \<Rightarrow> proc" where
  "kill_proc x = (if state x = SLEEPING then x\<lparr>killed := True, state := RUNNABLE\<rparr> else x\<lparr>killed := True\<rparr>)"

definition kill_lists :: "nat \<Rightarrow> proc \<Rightarrow> (lref \<Rightarrow> nat list) \<Rightarrow> lref \<Rightarrow> nat list" where
  "kill_lists p x Q =
     (if state x = SLEEPING then moved (LState SLEEPING) (LReady (unat (priority x))) p Q else Q)"

lemma in_state_live: "in_state s live_states p \<longleftrightarrow> p < NPROC \<and> state (proc s p) \<noteq> UNUSED"
  by (cases "state (proc s p)") (auto simp: in_state_def live_states_def)

lemma in_state_lock [simp]: "in_state (with_lock c s) sts p = in_state s sts p"
  by (simp add: in_state_def)

text \<open>The end of an operation whose locked part changed the table as \<open>f\<close> says.\<close>

lemma release_core:
  assumes "ready_cpu c s" "core s1 = f (core (with_lock c s))"
    and "\<And>x a b. f (x\<lparr>cpus := a, ptable_lock := b\<rparr>) = (f x)\<lparr>cpus := a, ptable_lock := b\<rparr>"
    and "\<And>x. cpus (f x) = cpus x \<and> ptable_lock (f x) = ptable_lock x"
  shows "\<exists>s'. ptable_release c s1 = Ok s' \<and> ready_cpu c s' \<and> core s' = f (core (after_lock c s)) \<and>
           proc s' = proc s1 \<and> (\<forall>Q. ptinv s' Q = ptinv s1 Q)"
proof -
  have "cpus s1 = cpus (core s1)" "ptable_lock s1 = ptable_lock (core s1)" by simp_all
  then have "cpus s1 = cpus (with_lock c s)" "ptable_lock s1 = ptable_lock (with_lock c s)"
    using assms(4) unfolding assms(2) by simp_all
  then have rel: "ptable_release c s1 = Ok (s1\<lparr>cpus := (cpus s)(c := saved (cpus s c)), ptable_lock := ptable_lock s\<rparr>)"
    using assms(1) by (intro ptable_release_eq)
  show ?thesis unfolding rel using locked_core[OF assms(2-4)] assms(1) by simp
qed

lemma release_unchanged:
  assumes "ready_cpu c s"
  shows "ptable_release c (with_lock c s) = Ok (after_lock c s)"
proof -
  have "(with_lock c s)\<lparr>cpus := (cpus s)(c := saved (cpus s c)), ptable_lock := ptable_lock s\<rparr> = after_lock c s"
    by (rule pt_st.equality) (simp_all add: with_lock_def after_lock_def)
  then show ?thesis using ptable_release_eq[OF assms, of "with_lock c s"] by simp
qed

lemma pupd_lock [simp]:
  "pupd p f (s\<lparr>cpus := a, ptable_lock := b\<rparr>) = (pupd p f s)\<lparr>cpus := a, ptable_lock := b\<rparr>"
  by (simp add: pupd_def)

lemma release_pupd:
  assumes "ready_cpu c s" "core s1 = pupd p g (core (with_lock c s))"
  shows "\<exists>s'. ptable_release c s1 = Ok s' \<and> ready_cpu c s' \<and> core s' = pupd p g (core (after_lock c s)) \<and>
           proc s' = proc s1 \<and> (\<forall>Q. ptinv s' Q = ptinv s1 Q)"
  using assms by (rule release_core[where f = "pupd p g"]) simp_all

lemma pupd_pupd [simp]: "pupd p f (pupd p g s) = pupd p (\<lambda>x. f (g x)) s"
  by (simp add: pupd_def)

lemma pupd_cong: "f (proc s p) = g (proc s p) \<Longrightarrow> pupd p f s = pupd p g s"
  by (simp add: pupd_def)

definition kill_res :: "'a pt_st_scheme \<Rightarrow> (lref \<Rightarrow> nat list) \<Rightarrow> nat \<Rightarrow> unit \<Rightarrow> 'a pt_st_scheme \<Rightarrow> bool" where
  "kill_res s Q p r s' \<longleftrightarrow> ptinv s' (kill_lists p (proc s p) Q) \<and> core s' = pupd p kill_proc (core s)"

lemma kill_ready_visit:
  assumes "ptinv s Q" "p < NPROC" "state (proc s p) \<noteq> SLEEPING"
  shows "visit (kill_ready_body pd j p s) s p (pid (proc s p) = pd) (kill_res s Q p)"
proof -
  have "kill_res s Q p () (pupd p (\<lambda>x. x\<lparr>killed := True\<rparr>) s)"
    using assms prio_le[OF assms(1,2)]
    by (auto simp: kill_res_def kill_lists_def kill_proc_def lkey_def intro!: ptinv_pupd pupd_cong)
  then show ?thesis by (simp add: visit_def kill_ready_body_def)
qed

lemma kill_visit:
  assumes inv: "ptinv s Q" and p: "p < NPROC"
  shows "visit (kill_body pd p s) s p (pid (proc s p) = pd) (kill_res s Q p)"
proof (cases "state (proc s p) = SLEEPING")
  case True
  let ?s1 = "pupd p (\<lambda>x. x\<lparr>killed := True\<rparr>) s"
  have inv1: "ptinv ?s1 Q" using inv prio_le[OF inv p(1)] by (intro ptinv_pupd) (simp_all add: lkey_def)
  have k: "pupd p (\<lambda>x. x\<lparr>killed := True, state := RUNNABLE\<rparr>) (core s) = pupd p kill_proc (core s)"
    using True by (intro pupd_cong) (simp add: kill_proc_def)
  have st1: "state (proc ?s1 p) = SLEEPING" using True by simp
  obtain s' where "relist (LState SLEEPING) p ''Empty list or process not in list'' SLEEPING
                (\<lambda>x. x\<lparr>state := RUNNABLE\<rparr>) (\<lambda>x. LReady (unat (priority x))) ?s1 = Ok s'" "kill_res s Q p () s'"
    using wake_relist[OF inv1 p st1, of "''Empty list or process not in list''"] True k
    by (auto simp: kill_res_def kill_lists_def)
  then show ?thesis using True by (simp add: visit_def kill_body_def)
next
  case False
  then have "kill_body pd p s = kill_ready_body pd 0 p s" by (simp add: kill_body_def kill_ready_body_def)
  then show ?thesis using kill_ready_visit[OF inv p False] by simp
qed

lemma kill_ok:
  assumes "ready_cpu c s" "ptinv s Q"
  shows "(kill c pd s = Ok (-1, after_lock c s) \<and> (\<forall>p. in_state s live_states p \<longrightarrow> pid (proc s p) \<noteq> pd)) \<or>
         (\<exists>p s'. in_state s live_states p \<and> pid (proc s p) = pd \<and> kill c pd s = Ok (0, s') \<and> ready_cpu c s' \<and>
            ptinv s' (kill_lists p (proc s p) Q) \<and> core s' = pupd p kill_proc (core (after_lock c s)))"
proof -
  let ?s = "with_lock c s"
  let ?F = "scan_states ''Runnable list should be empty'' (kill_ready_body pd) (kill_body pd) live_states ?s"
  have inv: "ptinv ?s Q" using assms(2) by simp
  have kill: "kill c pd s = rbind ?F (\<lambda>(r, s2). rbind (ptable_release c s2) (\<lambda>s3. Ok (if r = None then -1 else 0, s3)))"
    by (simp add: kill_def ptable_acquire_eq[OF assms(1)] live_states_def)
  have "search ?F ?s (\<lambda>p. in_state ?s live_states p \<and> pid (proc ?s p) = pd) (kill_res ?s Q)"
    using kill_ready_visit[OF inv] kill_visit[OF inv] by (intro scan_states_find[OF inv]) auto
  then consider "?F = Ok (None, ?s)" "\<forall>p. in_state s live_states p \<longrightarrow> pid (proc s p) \<noteq> pd"
    | p r s1 where "in_state s live_states p" "pid (proc s p) = pd" "?F = Ok (Some r, s1)" "kill_res ?s Q p r s1"
    unfolding search_def by auto
  then show ?thesis
  proof cases
    case 1
    then show ?thesis by (simp add: kill release_unchanged[OF assms(1)])
  next
    case (2 p r s1)
    then have "core s1 = pupd p kill_proc (core ?s)" by (simp add: kill_res_def)
    from release_pupd[OF assms(1) this] obtain s' where "ptable_release c s1 = Ok s'" "ready_cpu c s'"
        "core s' = pupd p kill_proc (core (after_lock c s))" "\<forall>Q. ptinv s' Q = ptinv s1 Q" by blast
    then show ?thesis using 2 by (auto simp: kill kill_res_def)
  qed
qed

section \<open>setpriority, getpriority\<close>

definition setprio_proc :: "uint \<Rightarrow> proc \<Rightarrow> proc" where
  "setprio_proc prio x = (if priority x \<noteq> prio then x\<lparr>priority := prio, budget := BUDGET\<rparr> else x)"

definition setprio_lists :: "uint \<Rightarrow> nat \<Rightarrow> proc \<Rightarrow> (lref \<Rightarrow> nat list) \<Rightarrow> lref \<Rightarrow> nat list" where
  "setprio_lists prio p x Q =
     (if state x = RUNNABLE \<and> priority x \<noteq> prio
      then moved (LReady (unat (priority x))) (LReady (unat prio)) p Q else Q)"

definition setprio_res ::
  "uint \<Rightarrow> 'a pt_st_scheme \<Rightarrow> (lref \<Rightarrow> nat list) \<Rightarrow> nat \<Rightarrow> unit \<Rightarrow> 'a pt_st_scheme \<Rightarrow> bool" where
  "setprio_res prio s Q p r s' \<longleftrightarrow>
     ptinv s' (setprio_lists prio p (proc s p) Q) \<and> core s' = pupd p (setprio_proc prio) (core s)"

lemma pupd_id: "f (proc s p) = proc s p \<Longrightarrow> pupd p f s = s"
  by (simp add: pupd_def fun_upd_idem)

lemma setprio_ready_visit:
  assumes inv: "ptinv s Q" and p: "p < NPROC" "state (proc s p) = RUNNABLE" and prio: "unat prio \<le> MAXPRIO"
  shows "visit (setpriority_ready_body pd prio (unat (priority (proc s p))) p s) s p (pid (proc s p) = pd)
           (setprio_res prio s Q p)"
proof (cases "priority (proc s p) = prio")
  case True
  then have "setprio_res prio s Q p () s" using inv
    by (simp add: setprio_res_def setprio_lists_def pupd_id setprio_proc_def)
  with True show ?thesis by (simp add: visit_def setpriority_ready_body_def)
next
  case False
  let ?l = "LReady (unat (priority (proc s p)))" and ?f = "\<lambda>x. x\<lparr>priority := prio, budget := BUDGET\<rparr>"
  have l: "lkey (proc s p) = ?l" using p by (simp add: lkey_def)
  have "\<exists>s'. relist ?l p ''Empty list or process not in list'' RUNNABLE ?f (\<lambda>x. LReady (unat (priority x))) s = Ok s' \<and>
     ptinv s' (moved ?l (lkey (?f (proc s p))) p Q) \<and> core s' = pupd p ?f (core s)"
    using p prio by (intro relist_ok[OF inv p(1) l]) (simp_all add: lkey_def)
  moreover have "lkey (?f (proc s p)) = LReady (unat prio)" using p by (simp add: lkey_def)
  moreover have "pupd p ?f (core s) = pupd p (setprio_proc prio) (core s)"
    using False by (intro pupd_cong) (simp add: setprio_proc_def)
  ultimately obtain s' where "relist ?l p ''Empty list or process not in list'' RUNNABLE ?f
      (\<lambda>x. LReady (unat (priority x))) s = Ok s'" "setprio_res prio s Q p () s'"
    using p False by (auto simp: setprio_res_def setprio_lists_def)
  moreover have "setpriority_ready_body pd prio (unat (priority (proc s p))) p s =
      rbind (relist ?l p ''Empty list or process not in list'' RUNNABLE ?f (\<lambda>x. LReady (unat (priority x))) s)
        (\<lambda>s'. Ok (Some (), None, s'))" if "pid (proc s p) = pd"
    unfolding setpriority_ready_body_def using that False
    by (simp add: relist_checked[where m = "\<lambda>x. LReady (unat (priority x))", OF inv p(1) l] del: rbind_assoc)
  ultimately show ?thesis by (auto simp: visit_def setpriority_ready_body_def)
qed

lemma setprio_visit:
  assumes inv: "ptinv s Q" and p: "p < NPROC" "state (proc s p) \<noteq> RUNNABLE" and prio: "unat prio \<le> MAXPRIO"
  shows "visit (setpriority_body pd prio p s) s p (pid (proc s p) = pd) (setprio_res prio s Q p)"
proof -
  let ?s = "if priority (proc s p) \<noteq> prio then pupd p (\<lambda>x. x\<lparr>priority := prio, budget := BUDGET\<rparr>) s else s"
  have "setprio_res prio s Q p () ?s"
    using assms by (auto simp: setprio_res_def setprio_lists_def setprio_proc_def lkey_def pupd_id
        intro!: ptinv_pupd pupd_cong)
  then show ?thesis by (simp add: visit_def setpriority_body_def)
qed

definition has_pid :: "'a pt_st_scheme \<Rightarrow> procstate list \<Rightarrow> uint \<Rightarrow> nat \<Rightarrow> bool" where
  "has_pid s sts pd p \<longleftrightarrow> in_state s sts p \<and> pid (proc s p) = pd"

definition valid_pid :: "uint \<Rightarrow> bool" where
  "valid_pid pd \<longleftrightarrow> 0 \<le> int_of pd \<and> int_of pd \<le> 32767"

definition valid_prio :: "uint \<Rightarrow> bool" where
  "valid_prio prio \<longleftrightarrow> 0 \<le> int_of prio \<and> int_of prio \<le> int MAXPRIO"

lemma setpriority_ok:
  assumes "ready_cpu c s" "ptinv s Q"
  shows "(setpriority c pd prio s = Ok (-1, after_lock c s) \<and>
            (valid_pid pd \<and> valid_prio prio \<longrightarrow> (\<forall>p. \<not> has_pid s [SLEEPING, RUNNABLE, RUNNING] pd p))) \<or>
         (\<exists>p s'. valid_pid pd \<and> valid_prio prio \<and> has_pid s [SLEEPING, RUNNABLE, RUNNING] pd p \<and> setpriority c pd prio s = Ok (0, s') \<and> ready_cpu c s' \<and>
            ptinv s' (setprio_lists prio p (proc s p) Q) \<and>
            core s' = pupd p (setprio_proc prio) (core (after_lock c s)))"
proof (cases "valid_pid pd \<and> valid_prio prio")
  case False
  then show ?thesis unfolding valid_pid_def valid_prio_def
    by (auto simp: setpriority_def ptable_acquire_eq[OF assms(1)] release_unchanged[OF assms(1)])
next
  case True
  let ?s = "with_lock c s"
  let ?F = "scan_states ''Runnable list should be empty'' (setpriority_ready_body pd prio)
              (setpriority_body pd prio) [SLEEPING, RUNNABLE, RUNNING] ?s"
  have inv: "ptinv ?s Q" using assms(2) by simp
  have prio: "unat prio \<le> MAXPRIO" using True int_of_nonneg[of prio] unfolding valid_prio_def by linarith
  have eq: "setpriority c pd prio s =
      rbind ?F (\<lambda>(r, s2). rbind (ptable_release c s2) (\<lambda>s3. Ok (if r = None then -1 else 0, s3)))"
    using True by (simp add: setpriority_def ptable_acquire_eq[OF assms(1)] valid_pid_def valid_prio_def)
  have "search ?F ?s (\<lambda>p. in_state ?s [SLEEPING, RUNNABLE, RUNNING] p \<and> pid (proc ?s p) = pd) (setprio_res prio ?s Q)"
    using setprio_ready_visit[OF inv] setprio_visit[OF inv] prio by (intro scan_states_find[OF inv]) auto
  then consider "?F = Ok (None, ?s)" "\<forall>p. \<not> has_pid s [SLEEPING, RUNNABLE, RUNNING] pd p"
    | p r s1 where "has_pid s [SLEEPING, RUNNABLE, RUNNING] pd p" "?F = Ok (Some r, s1)" "setprio_res prio ?s Q p r s1"
    unfolding search_def has_pid_def by auto
  then show ?thesis
  proof cases
    case 1
    then show ?thesis by (simp add: eq release_unchanged[OF assms(1)])
  next
    case (2 p r s1)
    then have "core s1 = pupd p (setprio_proc prio) (core ?s)" by (simp add: setprio_res_def)
    from release_pupd[OF assms(1) this] obtain s' where "ptable_release c s1 = Ok s'" "ready_cpu c s'"
        "core s' = pupd p (setprio_proc prio) (core (after_lock c s))" "\<forall>Q. ptinv s' Q = ptinv s1 Q" by blast
    then show ?thesis using 2 True by (auto simp: eq setprio_res_def)
  qed
qed

lemma getpriority_ok:
  assumes "ready_cpu c s" "ptinv s Q"
  shows "(getpriority c pd s = Ok (-1, after_lock c s) \<and>
            (valid_pid pd \<longrightarrow> (\<forall>p. \<not> has_pid s [SLEEPING, RUNNABLE, RUNNING, ZOMBIE] pd p))) \<or>
         (\<exists>p. valid_pid pd \<and> has_pid s [SLEEPING, RUNNABLE, RUNNING, ZOMBIE] pd p \<and> getpriority c pd s = Ok (int (unat (priority (proc s p))), after_lock c s))"
proof (cases "valid_pid pd")
  case False
  then show ?thesis unfolding valid_pid_def valid_prio_def
    by (auto simp: getpriority_def ptable_acquire_eq[OF assms(1)] release_unchanged[OF assms(1)])
next
  case True
  let ?s = "with_lock c s"
  let ?F = "scan_states ''Runnable list should be empty'' (\<lambda>j. getpriority_body pd) (getpriority_body pd)
              [SLEEPING, RUNNABLE, RUNNING, ZOMBIE] ?s"
  have inv: "ptinv ?s Q" using assms(2) by simp
  have "search ?F ?s (\<lambda>p. in_state ?s [SLEEPING, RUNNABLE, RUNNING, ZOMBIE] p \<and> pid (proc ?s p) = pd)
          (\<lambda>p r s'. s' = ?s \<and> r = p)"
    by (rule scan_states_find[OF inv]) (simp_all add: visit_def getpriority_body_def)
  then consider "?F = Ok (None, ?s)" "\<forall>p. \<not> has_pid s [SLEEPING, RUNNABLE, RUNNING, ZOMBIE] pd p"
    | p where "has_pid s [SLEEPING, RUNNABLE, RUNNING, ZOMBIE] pd p" "?F = Ok (Some p, ?s)"
    unfolding search_def has_pid_def by auto
  then show ?thesis
  proof cases
    case 1
    then show ?thesis using True unfolding valid_pid_def valid_prio_def
      by (simp add: getpriority_def ptable_acquire_eq[OF assms(1)] release_unchanged[OF assms(1)])
  next
    case (2 p)
    then have "unat (priority (proc s p)) < 2 ^ 31"
      using prio_le[OF assms(2), of p] by (simp add: has_pid_def in_state_def MAXPRIO_def)
    then show ?thesis using True 2 unfolding valid_pid_def valid_prio_def
      by (auto simp: getpriority_def ptable_acquire_eq[OF assms(1)] release_unchanged[OF assms(1)]
          int_of_small after_lock_def)
  qed
qed

end
