(* ===== verification/Proc_Sched.thy ===== *)
theory Proc_Sched
  imports Proc_Thms
begin

text \<open>
  The multilevel feedback queue: the periodic promotion moves every ready list up by
  one and resets budgets, the scheduler runs the head of the highest nonempty ready
  list, and \<open>yield\<close> and \<open>sleep\<close> charge the process for its time slice and hand the CPU
  back with \<open>ptable.lock\<close> held.
\<close>

section \<open>Promotion\<close>

lemma promote_step:
  assumes inv: "ptinv s Q" and p: "p \<in> set (Q (LReady j))" and j: "j < MAXPRIO"
  shows "\<exists>s'. promote_body j p s = Ok (None, nxt (proc s p), s') \<and>
           ptinv s' (moved (LReady j) (LReady (Suc j)) p Q) \<and> core s' = pupd p promote_proc (core s)"
proof -
  let ?s1 = "pupd p (\<lambda>x. x\<lparr>budget := BUDGET\<rparr>) s" and ?f = "\<lambda>x. x\<lparr>priority := priority x + 1\<rparr>"
  have pr: "p < NPROC" "state (proc s p) = RUNNABLE" "unat (priority (proc s p)) = j"
    using p by (auto simp: in_LReady[OF inv])
  have w: "priority (proc s p) = of_nat j" using pr(3) by auto
  have j1: "unat (priority (proc s p) + 1) = Suc j" "priority (proc s p) < of_nat MAXPRIO"
    using j by (simp_all add: w MAXPRIO_def unat_word_ariths unat_of_nat word_less_nat_alt)
  have inv1: "ptinv ?s1 Q" using inv prio_le[OF inv pr(1)] by (intro ptinv_pupd) (simp_all add: lkey_def)
  have l: "lkey (proc ?s1 p) = LReady j" using pr by (simp add: lkey_def)
  obtain s2 where s2: "remove_or_panic (LReady j) p ''Empty List or process is not in list'' ?s1 = Ok s2"
      "linked s2 (Q(LReady j := remove1 p (Q (LReady j)))) ((\<lambda>q. Some (lkey (proc ?s1 q)))(p := None))" "core s2 = core ?s1"
    using ptinv_remove[OF inv1 pr(1) l] by blast
  have f2: "state (proc s2 p) = RUNNABLE" "priority (proc s2 p) = priority (proc s p)"
    using arg_cong[OF s2(3), of "\<lambda>s. state (proc s p)"] arg_cong[OF s2(3), of "\<lambda>s. priority (proc s p)"] pr by simp_all
  have "lref_ok (LReady (Suc j))" using j by simp
  from linked_add[OF s2(2) _ pr(1) this] obtain s4 where s4: "stateListAdd (LReady (Suc j)) p s2 = Ok s4"
      "linked s4 (moved (LReady j) (LReady (Suc j)) p Q) ((\<lambda>q. Some (lkey (proc ?s1 q)))(p := Some (LReady (Suc j))))"
      "core s4 = core s2"
    by (auto simp: moved_def)
  let ?s5 = "pupd p ?f s4"
  have core5: "core ?s5 = pupd p ?f (core ?s1)" using s4(3) s2(3) by simp
  have "lkey (?f (proc ?s1 p)) = LReady (Suc j)" using pr j1 by (simp add: lkey_def)
  then have "linked ?s5 (moved (LReady j) (LReady (Suc j)) p Q)
      ((\<lambda>q. Some (lkey (proc ?s1 q)))(p := Some (lkey (?f (proc ?s1 p)))))"
    using s4(2) by (simp only: linked_pupd link_indep_field)
  then have "ptinv ?s5 (moved (LReady j) (LReady (Suc j)) p Q)"
    by (rule ptinv_of_linked[OF ptinvD(2)[OF inv1] _ core5]) (use j j1 in simp_all)
  moreover have "pupd p ?f (core ?s1) = pupd p promote_proc (core s)"
    using j1(2) by (simp, intro pupd_cong) (simp add: promote_proc_def)
  moreover have "promote_body j p s = Ok (None, nxt (proc s p), ?s5)"
    using s2(1) s4(1) f2 pr(3) j1 w by (simp add: promote_body_def Let_def assertState_def)
  ultimately show ?thesis using core5 by auto
qed

text \<open>One ready list moves up as a whole, keeping its order, behind the list above.\<close>

definition raised :: "nat \<Rightarrow> (lref \<Rightarrow> nat list) \<Rightarrow> nat list \<Rightarrow> nat list \<Rightarrow> lref \<Rightarrow> nat list" where
  "raised j Q ds rest = Q(LReady j := rest, LReady (Suc j) := Q (LReady (Suc j)) @ ds)"

definition promote_inv :: "nat \<Rightarrow> 'a pt_st_scheme \<Rightarrow> (lref \<Rightarrow> nat list) \<Rightarrow> nat list \<Rightarrow> 'a pt_st_scheme \<Rightarrow> bool" where
  "promote_inv j s0 Q rest s \<longleftrightarrow>
     (\<exists>ds. Q (LReady j) = ds @ rest \<and> ptinv s (raised j Q ds rest) \<and>
           core s = procs_upd (\<lambda>p. p \<in> set ds) promote_proc (core s0))"

lemma promote_ready_step:
  assumes inv0: "ptinv s0 Q" and j: "j < MAXPRIO" and I: "promote_inv j s0 Q (p # rest) s"
  shows "\<exists>s'. promote_body j p s = Ok (None, hd_ptr rest, s') \<and> promote_inv j s0 Q rest s'"
proof -
  obtain ds where Q: "Q (LReady j) = ds @ p # rest" and inv: "ptinv s (raised j Q ds (p # rest))"
    and core: "core s = procs_upd (\<lambda>p. p \<in> set ds) promote_proc (core s0)"
    using I by (auto simp: promote_inv_def)
  have d: "p \<notin> set ds" using ptinvD(4)[OF inv0, of "LReady j"] Q by simp
  have "p \<in> set (raised j Q ds (p # rest) (LReady j))" by (simp add: raised_def)
  from promote_step[OF inv this j] obtain s' where s': "promote_body j p s = Ok (None, nxt (proc s p), s')"
    "ptinv s' (moved (LReady j) (LReady (Suc j)) p (raised j Q ds (p # rest)))" "core s' = pupd p promote_proc (core s)"
    by blast
  have "nxt (proc s p) = hd_ptr rest"
    using ptinv_next[OF inv, of "LReady j" "[]" p rest] j by (simp add: raised_def)
  moreover have "moved (LReady j) (LReady (Suc j)) p (raised j Q ds (p # rest)) = raised j Q (ds @ [p]) rest"
    by (auto simp: moved_def raised_def fun_eq_iff)
  moreover have "core s' = procs_upd (\<lambda>q. q \<in> set (ds @ [p])) promote_proc (core s0)"
    using procs_upd_insert[of "\<lambda>q. q \<in> set ds" p promote_proc "core s0"] d s'(3) core by simp
  ultimately show ?thesis using s' Q unfolding promote_inv_def by (intro exI[of _ s'] conjI exI[of _ "ds @ [p]"]) simp_all
qed

lemma promote_ready_ok:
  assumes inv: "ptinv s Q" and j: "j < MAXPRIO"
  shows "\<exists>s'. promote_ready j s = Ok s' \<and> ptinv s' (raised j Q (Q (LReady j)) []) \<and>
           core s' = procs_upd (\<lambda>p. p \<in> set (Q (LReady j))) promote_proc (core s)"
proof -
  have I0: "promote_inv j s Q (Q (LReady j)) s" unfolding promote_inv_def
    using inv by (intro exI[of _ "[]"]) (simp add: raised_def)
  have h: "head (getl (LReady j) s) = hd_ptr (Q (LReady j))" using inv by (rule ptinv_head) (use j in simp)
  have "\<exists>s'. walk (promote_body j) (hd_ptr (Q (LReady j))) s = Ok (None, s') \<and> promote_inv j s Q [] s'"
    using promote_ready_step[OF inv j] by (rule walk_run[of "promote_inv j s Q", OF I0])
  then show ?thesis using h by (auto simp: promote_ready_def promote_inv_def)
qed

text \<open>The lists after the ready lists \<open>k\<close> and above have been raised.\<close>

definition shifted :: "nat \<Rightarrow> (lref \<Rightarrow> nat list) \<Rightarrow> lref \<Rightarrow> nat list" where
  "shifted k Q l =
     (case l of
        LState st \<Rightarrow> Q l
      | LReady i \<Rightarrow>
          if i < k \<or> MAXPRIO < i \<or> MAXPRIO \<le> k then Q l
          else if i = k then []
          else if i = MAXPRIO then Q (LReady MAXPRIO) @ Q (LReady (MAXPRIO - 1))
          else Q (LReady (i - 1)))"

lemma shifted_raise:
  assumes "k < MAXPRIO"
  shows "raised k (shifted (Suc k) Q) (shifted (Suc k) Q (LReady k)) [] = shifted k Q"
proof (cases "MAXPRIO = Suc k")
  case True
  show ?thesis unfolding raised_def shifted_def fun_eq_iff True by (auto split: lref.splits)
next
  case False
  with assms show ?thesis by (auto simp: raised_def shifted_def fun_eq_iff split: lref.splits)
qed

lemma shifted_top: "shifted MAXPRIO Q = Q"
  by (auto simp: shifted_def fun_eq_iff split: lref.splits)

lemma promote_lists_ok:
  assumes inv: "ptinv s Q"
  shows "\<exists>s'. for_each (\<lambda>j s. rbind (promote_ready j s) (\<lambda>s'. Ok (None :: unit option, s'))) (rev [0..<MAXPRIO]) s = Ok (None, s') \<and>
     ptinv s' (shifted 0 Q) \<and>
     core s' = procs_upd (\<lambda>p. \<exists>j < MAXPRIO. p \<in> set (Q (LReady j))) promote_proc (core s)"
proof -
  let ?f = "\<lambda>j s. rbind (promote_ready j s) (\<lambda>s'. Ok (None :: unit option, s'))"
  have "\<exists>s'. for_each ?f (rev [k..<MAXPRIO]) s = Ok (None, s') \<and> ptinv s' (shifted k Q) \<and>
     core s' = procs_upd (\<lambda>p. \<exists>j. k \<le> j \<and> j < MAXPRIO \<and> p \<in> set (Q (LReady j))) promote_proc (core s)"
    if "k \<le> MAXPRIO" for k
    using that
  proof (induction k rule: inc_induct)
    case base
    have "(\<lambda>p. \<exists>j. MAXPRIO \<le> j \<and> j < MAXPRIO \<and> p \<in> set (Q (LReady j))) = (\<lambda>p. False)" by auto
    then show ?case using inv by (simp add: shifted_top)
  next
    case (step k)
    then obtain s1 where s1: "for_each ?f (rev [Suc k..<MAXPRIO]) s = Ok (None, s1)" "ptinv s1 (shifted (Suc k) Q)"
      "core s1 = procs_upd (\<lambda>p. \<exists>j. Suc k \<le> j \<and> j < MAXPRIO \<and> p \<in> set (Q (LReady j))) promote_proc (core s)" by blast
    obtain s2 where s2: "promote_ready k s1 = Ok s2" "ptinv s2 (shifted k Q)"
      "core s2 = procs_upd (\<lambda>p. p \<in> set (Q (LReady k))) promote_proc (core s1)"
      using promote_ready_ok[OF s1(2) step.hyps(2)] shifted_raise[OF step.hyps(2)] by (auto simp: shifted_def)
    have "\<not> (\<exists>j. Suc k \<le> j \<and> j < MAXPRIO \<and> p \<in> set (Q (LReady j)))" if "p \<in> set (Q (LReady k))" for p
      using that by (auto simp: in_LReady[OF inv])
    then have "core s2 = procs_upd (\<lambda>p. \<exists>j. k \<le> j \<and> j < MAXPRIO \<and> p \<in> set (Q (LReady j))) promote_proc (core s)"
      unfolding s2(3) s1(3) using step.hyps(2)
      by (intro pt_st.equality) (auto simp: procs_upd_def fun_eq_iff in_LReady[OF inv])
    then show ?case using s1(1) s2 step.hyps by (auto simp: upt_conv_Cons for_each_append)
  qed
  from this[of 0] show ?thesis by simp
qed

lemma promote_proc_simps [simp]:
  "state (promote_proc x) = state x" "nxt (promote_proc x) = nxt x" "chan (promote_proc x) = chan x"
  "kstack (promote_proc x) = kstack x" "pgdir (promote_proc x) = pgdir x"
  by (simp_all add: promote_proc_def Let_def)

lemma promote_proc_prio: "unat (priority x) \<le> MAXPRIO \<Longrightarrow> unat (priority (promote_proc x)) \<le> MAXPRIO"
  by (auto simp: promote_proc_def Let_def MAXPRIO_def unat_word_ariths word_less_nat_alt)

definition plist_inv :: "procstate \<Rightarrow> 'a pt_st_scheme \<Rightarrow> (lref \<Rightarrow> nat list) \<Rightarrow> nat list \<Rightarrow> 'a pt_st_scheme \<Rightarrow> bool" where
  "plist_inv st s0 Q rest s \<longleftrightarrow>
     (\<exists>ds. Q (LState st) = ds @ rest \<and> ptinv s Q \<and> core s = procs_upd (\<lambda>p. p \<in> set ds) promote_proc (core s0))"

lemma promote_list_ok:
  assumes inv: "ptinv s Q" and st: "st \<noteq> RUNNABLE"
  shows "\<exists>s'. promote_list st s = Ok s' \<and> ptinv s' Q \<and>
           core s' = procs_upd (\<lambda>p. p \<in> set (Q (LState st))) promote_proc (core s)"
proof -
  let ?body = "\<lambda>p s. let s1 = pupd p promote_proc s in Ok (None :: unit option, nxt (proc s1 p), s1)"
  have step: "\<exists>s2. ?body p s1 = Ok (None, hd_ptr rest, s2) \<and> plist_inv st s Q rest s2"
    if I: "plist_inv st s Q (p # rest) s1" for p rest s1
  proof -
    obtain ds where Q: "Q (LState st) = ds @ p # rest" and inv1: "ptinv s1 Q"
      and core: "core s1 = procs_upd (\<lambda>p. p \<in> set ds) promote_proc (core s)"
      using I by (auto simp: plist_inv_def)
    have d: "p \<notin> set ds" using ptinvD(4)[OF inv, of "LState st"] Q by simp
    have p: "p < NPROC" "state (proc s1 p) = st" using in_LState[OF inv1 st, of p] Q by auto
    have "ptinv (pupd p promote_proc s1) Q"
      using inv1 p st prio_le[OF inv1 p(1)] by (intro ptinv_pupd) (simp_all add: lkey_def promote_proc_prio)
    moreover have "core (pupd p promote_proc s1) = procs_upd (\<lambda>q. q \<in> set (ds @ [p])) promote_proc (core s)"
      using procs_upd_insert[of "\<lambda>q. q \<in> set ds" p promote_proc "core s"] d core by simp
    ultimately have "plist_inv st s Q rest (pupd p promote_proc s1)"
      unfolding plist_inv_def using Q by (intro exI[of _ "ds @ [p]"]) simp
    then show ?thesis using ptinv_next[OF inv1 _ Q] by simp
  qed
  have I0: "plist_inv st s Q (Q (LState st)) s"
    unfolding plist_inv_def using inv by (intro exI[of _ "[]"]) simp
  have h: "head (getl (LState st) s) = hd_ptr (Q (LState st))" using inv by (rule ptinv_head) simp
  have "\<exists>s'. walk ?body (hd_ptr (Q (LState st))) s = Ok (None, s') \<and> plist_inv st s Q [] s'"
    using step by (rule walk_run[of "plist_inv st s Q", OF I0])
  then show ?thesis using h by (auto simp: promote_list_def plist_inv_def)
qed

text \<open>The processes the promotion reaches: all but the RUNNABLE ones of top priority.\<close>

definition promotable :: "proc \<Rightarrow> bool" where
  "promotable x \<longleftrightarrow> state x = SLEEPING \<or> state x = RUNNING \<or> (state x = RUNNABLE \<and> unat (priority x) < MAXPRIO)"

lemma procs_upd_twice:
  assumes "\<And>p. P p \<Longrightarrow> \<not> P' p"
  shows "procs_upd P' f (procs_upd P f s) = procs_upd (\<lambda>p. P p \<or> P' p) f s"
  unfolding procs_upd_def using assms by (intro pt_st.equality) (auto simp: fun_eq_iff)

lemma promote_all_ok:
  assumes inv: "ptinv s Q"
  shows "\<exists>s'. promote_all s = Ok s' \<and> ptinv s' (shifted 0 Q) \<and>
           core s' = (procs_upd (\<lambda>p. p < NPROC \<and> promotable (proc s p)) promote_proc (core s))
                       \<lparr>PromoteAtTime := ticks s + TICKS_TO_PROMOTE\<rparr>"
proof -
  obtain s1 where s1: "promote_list SLEEPING s = Ok s1" "ptinv s1 Q"
      "core s1 = procs_upd (\<lambda>p. p \<in> set (Q (LState SLEEPING))) promote_proc (core s)"
    using promote_list_ok[OF inv, of SLEEPING] by auto
  obtain s2 where s2: "for_each (\<lambda>j s. rbind (promote_ready j s) (\<lambda>s'. Ok (None :: unit option, s'))) (rev [0..<MAXPRIO]) s1 = Ok (None, s2)"
      "ptinv s2 (shifted 0 Q)" "core s2 = procs_upd (\<lambda>p. \<exists>j < MAXPRIO. p \<in> set (Q (LReady j))) promote_proc (core s1)"
    using promote_lists_ok[OF s1(2)] by auto
  obtain s3 where s3: "promote_list RUNNING s2 = Ok s3" "ptinv s3 (shifted 0 Q)"
      "core s3 = procs_upd (\<lambda>p. p \<in> set (Q (LState RUNNING))) promote_proc (core s2)"
    using promote_list_ok[OF s2(2), of RUNNING] by (auto simp: shifted_def)
  let ?A = "\<lambda>p. p \<in> set (Q (LState SLEEPING))" and ?B = "\<lambda>p. \<exists>j < MAXPRIO. p \<in> set (Q (LReady j))"
    and ?C = "\<lambda>p. p \<in> set (Q (LState RUNNING))"
  have "core s3 = procs_upd (\<lambda>p. (?A p \<or> ?B p) \<or> ?C p) promote_proc (core s)"
    unfolding s3(3) s2(3) s1(3) by (subst procs_upd_twice, use inv in \<open>auto simp: in_LState in_LReady\<close>)+
  also have "(\<lambda>p. (?A p \<or> ?B p) \<or> ?C p) = (\<lambda>p. p < NPROC \<and> promotable (proc s p))"
    using inv by (auto simp: in_LState in_LReady promotable_def fun_eq_iff)
  finally have core: "core s3 = procs_upd (\<lambda>p. p < NPROC \<and> promotable (proc s p)) promote_proc (core s)" .
  have "ticks s3 = ticks s" using arg_cong[OF core, of ticks] by simp
  then show ?thesis using s1(1) s2(1) s3(1,2) core runnable_empty(2)[OF s1(2)]
    by (simp add: promote_all_def del: getl.simps)
qed

section \<open>Switching to a process\<close>

text \<open>The CPU after \<open>switchuvm\<close>.\<close>

definition uvm_cpu :: "uint \<Rightarrow> proc \<Rightarrow> cpu \<Rightarrow> cpu" where
  "uvm_cpu ts x k =
     k\<lparr>gdt := (gdt k)(SEG_TSS := (SEG16 STS_T32A ts (104 - 1) 0)\<lparr>sd_s := 0\<rparr>),
       ts_ss0 := of_nat SEG_KDATA * 8, ts_esp0 := kstack x + KSTACKSIZE, ts_iomb := 0xFFFF,
       cr3 := V2P (pgdir x)\<rparr>"

lemma switchuvm_eq:
  assumes "cpu_ok (cpus s c)" "kstack (proc s p) \<noteq> 0" "pgdir (proc s p) \<noteq> 0"
  shows "switchuvm c (Some p) s = Ok (cpu_upd c (\<lambda>k. uvm_cpu (ts_addr s c) (proc s p) (saved k)) s)"
proof (cases "ncli (cpus s c) = 0")
  case True
  then show ?thesis using assms
    using FL_IF_restore[of "eflags (cpus s c)"] FL_IF_clear_id[of "eflags (cpus s c)"]
    by (auto simp: switchuvm_def Let_def cpu_upd_def popcli_def pushcli_def cli_def sti_def interrupts_on_def
        saved_def uvm_cpu_def fun_eq_iff intro!: kmem_st.equality cpu.equality)
next
  case False
  then show ?thesis using assms FL_IF_clear_id[of "eflags (cpus s c)"]
    by (auto simp: switchuvm_def Let_def cpu_upd_def popcli_def pushcli_def cli_def interrupts_on_def
        saved_def uvm_cpu_def cpu_ok_def fun_eq_iff intro!: kmem_st.equality cpu.equality)
qed

lemma core_cpu_upd [simp]: "core (cpu_upd c f s) = cpu_upd c f (core s)"
  by (simp add: cpu_upd_def)

definition running_proc :: "uint \<Rightarrow> proc \<Rightarrow> proc" where
  "running_proc now x = x\<lparr>state := RUNNING, cpu_ticks_in := now\<rparr>"

lemma dispatch_ok:
  assumes inv: "ptinv s Q" and p: "p \<in> set (Q (LReady i))" and cpu: "cpu_ok (cpus s c)" "0 < ncli (cpus s c)"
    and m: "kstack (proc s p) \<noteq> 0" "pgdir (proc s p) \<noteq> 0"
  shows "\<exists>s'. dispatch c i p s = Ok s' \<and> ptinv s' (moved (LReady i) (LState RUNNING) p Q) \<and>
     core s' = pupd p (running_proc (ticks s))
                 (cpu_upd c (\<lambda>k. uvm_cpu (ts_addr s c) (proc s p) (k\<lparr>cproc := Some p\<rparr>)) (core s))"
proof -
  let ?g = "\<lambda>k. uvm_cpu (ts_addr s c) (proc s p) (k\<lparr>cproc := Some p\<rparr>)"
  let ?s0 = "cpu_upd c (\<lambda>k. k\<lparr>cproc := Some p\<rparr>) s"
  have pr: "p < NPROC" "state (proc s p) = RUNNABLE" "unat (priority (proc s p)) = i"
    using p by (auto simp: in_LReady[OF inv])
  have sw: "switchuvm c (Some p) ?s0 = Ok (cpu_upd c ?g s)"
    using switchuvm_eq[of ?s0 c p] cpu m by (simp add: cpu_ok_def saved_def cpu_upd_def)
  have inv1: "ptinv (cpu_upd c ?g s) Q" using inv by simp
  have l: "lkey (proc (cpu_upd c ?g s) p) = LReady i" using pr by (simp add: lkey_def)
  obtain s2 where s2: "relist (LReady i) p ''Empty List or process is not in list'' RUNNABLE
              (\<lambda>x. x\<lparr>state := RUNNING\<rparr>) (\<lambda>x. LState (state x)) (cpu_upd c ?g s) = Ok s2"
      "ptinv s2 (moved (LReady i) (LState RUNNING) p Q)"
      "core s2 = pupd p (\<lambda>x. x\<lparr>state := RUNNING\<rparr>) (core (cpu_upd c ?g s))"
    using relist_ok[OF inv1 pr(1) l, of RUNNABLE "\<lambda>x. x\<lparr>state := RUNNING\<rparr>" "\<lambda>x. LState (state x)"]
      pr prio_le[OF inv pr(1)] by (auto simp: lkey_def)
  let ?s3 = "pupd p (\<lambda>x. x\<lparr>cpu_ticks_in := ticks s2\<rparr>) s2"
  have tk: "ticks s2 = ticks s" using arg_cong[OF s2(3), of ticks] by simp
  have "ptinv ?s3 (moved (LReady i) (LState RUNNING) p Q)"
    using s2(2) prio_le[OF s2(2) pr(1)] by (intro ptinv_pupd) (simp_all add: lkey_def)
  moreover have "core ?s3 = pupd p (running_proc (ticks s)) (cpu_upd c ?g (core s))"
    unfolding core_pupd[OF link_indep_field(10)] s2(3) pupd_pupd core_cpu_upd tk
    by (rule pupd_cong) (simp add: running_proc_def)
  ultimately show ?thesis using sw s2(1) by (simp add: dispatch_def)
qed

text \<open>The highest nonempty ready list, and its head.\<close>

definition top_ready :: "(lref \<Rightarrow> nat list) \<Rightarrow> nat \<Rightarrow> nat \<Rightarrow> bool" where
  "top_ready Q i p \<longleftrightarrow>
     i \<le> MAXPRIO \<and> hd_ptr (Q (LReady i)) = Some p \<and> (\<forall>k. i < k \<and> k \<le> MAXPRIO \<longrightarrow> Q (LReady k) = [])"

lemma for_each_top:
  assumes "\<And>i. i < n \<Longrightarrow> f i s = (case hd_ptr (L i) of None \<Rightarrow> Ok (None, s) | Some p \<Rightarrow> rbind (g i p) (\<lambda>s'. Ok (Some p, s')))"
  shows "(for_each f (rev [0..<n]) s = Ok (None, s) \<and> (\<forall>k < n. L k = [])) \<or>
         (\<exists>i p. i < n \<and> hd_ptr (L i) = Some p \<and> (\<forall>k. i < k \<and> k < n \<longrightarrow> L k = []) \<and>
            for_each f (rev [0..<n]) s = rbind (g i p) (\<lambda>s'. Ok (Some p, s')))"
  using assms
proof (induction n)
  case 0
  then show ?case by simp
next
  case (Suc n)
  have IH: "(for_each f (rev [0..<n]) s = Ok (None, s) \<and> (\<forall>k < n. L k = [])) \<or>
         (\<exists>i p. i < n \<and> hd_ptr (L i) = Some p \<and> (\<forall>k. i < k \<and> k < n \<longrightarrow> L k = []) \<and>
            for_each f (rev [0..<n]) s = rbind (g i p) (\<lambda>s'. Ok (Some p, s')))"
    using Suc by simp
  show ?case
  proof (cases "hd_ptr (L n)")
    case None
    then show ?thesis using IH Suc.prems[of n] by (auto simp: less_Suc_eq)
  next
    case (Some p)
    have "for_each f (rev [0..<Suc n]) s = rbind (g n p) (\<lambda>s'. Ok (Some p, s'))"
      using Suc.prems[of n] Some by simp
    then show ?thesis using Some by (intro disjI2 exI[of _ n] exI[of _ p]) auto
  qed
qed

lemma scheduler_pick_eq:
  assumes inv: "ptinv s Q"
  shows "(scheduler_pick c s = Ok (None, s) \<and> (\<forall>k \<le> MAXPRIO. Q (LReady k) = [])) \<or>
         (\<exists>i p. top_ready Q i p \<and> scheduler_pick c s = rbind (dispatch c i p s) (\<lambda>s'. Ok (Some p, s')))"
proof -
  have "(scheduler_pick c s = Ok (None, s) \<and> (\<forall>k < Suc MAXPRIO. Q (LReady k) = [])) \<or>
         (\<exists>i p. i < Suc MAXPRIO \<and> hd_ptr (Q (LReady i)) = Some p \<and> (\<forall>k. i < k \<and> k < Suc MAXPRIO \<longrightarrow> Q (LReady k) = []) \<and>
            scheduler_pick c s = rbind (dispatch c i p s) (\<lambda>s'. Ok (Some p, s')))"
    unfolding scheduler_pick_def
    by (rule for_each_top[where L = "\<lambda>k. Q (LReady k)"])
       (simp add: ptinv_head[OF inv] less_Suc_eq_le del: getl.simps)
  then show ?thesis unfolding top_ready_def less_Suc_eq_le by blast
qed

section \<open>scheduler\<close>

definition sched_lists :: "'a pt_st_scheme \<Rightarrow> (lref \<Rightarrow> nat list) \<Rightarrow> lref \<Rightarrow> nat list" where
  "sched_lists s Q = (if PromoteAtTime s \<le> ticks s then shifted 0 Q else Q)"

definition sched_promoted :: "'a pt_st_scheme \<Rightarrow> 'a pt_st_scheme" where
  "sched_promoted s =
     (if PromoteAtTime s \<le> ticks s
      then (procs_upd (\<lambda>p. p < NPROC \<and> promotable (proc s p)) promote_proc s)
             \<lparr>PromoteAtTime := ticks s + TICKS_TO_PROMOTE\<rparr>
      else s)"

text \<open>A process that may be dispatched has a kernel stack and a page directory.\<close>

definition has_mem :: "proc \<Rightarrow> bool" where
  "has_mem x \<longleftrightarrow> kstack x \<noteq> 0 \<and> pgdir x \<noteq> 0"

definition runnable_mem :: "'a pt_st_scheme \<Rightarrow> bool" where
  "runnable_mem s \<longleftrightarrow> (\<forall>p < NPROC. state (proc s p) = RUNNABLE \<longrightarrow> has_mem (proc s p))"

lemma has_mem_core [simp]: "has_mem (proc (core s) p) = has_mem (proc s p)"
  by (simp add: has_mem_def)

lemma promotable_core [simp]: "promotable (proc (core s) p) = promotable (proc s p)"
  by (simp add: promotable_def)

lemma sched_promoted_simps [simp]:
  "cpus (sched_promoted s) = cpus s" "ptable_lock (sched_promoted s) = ptable_lock s"
  "ticks (sched_promoted s) = ticks s" "ts_addr (sched_promoted s) = ts_addr s"
  "state (proc (sched_promoted s) p) = state (proc s p)" "kstack (proc (sched_promoted s) p) = kstack (proc s p)"
  "pgdir (proc (sched_promoted s) p) = pgdir (proc s p)" "chan (proc (sched_promoted s) p) = chan (proc s p)"
  "has_mem (proc (sched_promoted s) p) = has_mem (proc s p)"
  by (simp_all add: sched_promoted_def procs_upd_def has_mem_def)

text \<open>The locked state the scheduler starts from: interrupts enabled, then the lock taken.\<close>

definition sched_start :: "nat \<Rightarrow> 'a pt_st_scheme \<Rightarrow> 'a pt_st_scheme" where
  "sched_start c s = with_lock c (s\<lparr>cpus := sti c (cpus s)\<rparr>)"

definition dispatched :: "nat \<Rightarrow> nat \<Rightarrow> 'a pt_st_scheme \<Rightarrow> 'a pt_st_scheme" where
  "dispatched c p s =
     pupd p (running_proc (ticks s)) (cpu_upd c (\<lambda>k. uvm_cpu (ts_addr s c) (proc s p) (k\<lparr>cproc := Some p\<rparr>)) s)"

lemma sti_simps [simp]:
  "ncli (sti c cs d) = ncli (cs d)" "cproc (sti c cs d) = cproc (cs d)" "d \<noteq> c \<Longrightarrow> sti c cs d = cs d"
  by (auto simp: sti_def)

lemma ready_sti: "ready_cpu c s \<Longrightarrow> ncli (cpus s c) = 0 \<Longrightarrow> ready_cpu c (s\<lparr>cpus := sti c (cpus s)\<rparr>)"
  by (simp add: ready_cpu_def cpu_ok_def)

lemma sched_start_cpu:
  assumes "ready_cpu c s" "ncli (cpus s c) = 0"
  shows "cpu_ok (cpus (sched_start c s) c)" "ncli (cpus (sched_start c s) c) = 1"
  using assms by (simp_all add: sched_start_def with_lock_def ready_cpu_def cpu_ok_def)

lemma promote_if_due:
  assumes "ptinv s Q"
  shows "\<exists>s'. (if ticks s \<ge> PromoteAtTime s then promote_all s else Ok s) = Ok s' \<and>
           ptinv s' (sched_lists s Q) \<and> core s' = sched_promoted (core s)"
  using promote_all_ok[OF assms] assms by (auto simp: sched_lists_def sched_promoted_def)

lemma uvm_cpu_cong: "kstack x = kstack y \<Longrightarrow> pgdir x = pgdir y \<Longrightarrow> uvm_cpu ts x = uvm_cpu ts y"
  by (simp add: uvm_cpu_def fun_eq_iff)

lemma scheduler_enter_ok:
  assumes rdy: "ready_cpu c s" "ncli (cpus s c) = 0" and inv: "ptinv s Q" and m: "runnable_mem s"
  shows "((\<forall>k \<le> MAXPRIO. sched_lists s Q (LReady k) = []) \<and>
          (\<exists>s'. scheduler_enter c s = Ok (None, s') \<and> ptinv s' (sched_lists s Q) \<and> ready_cpu c s' \<and>
                proc (core s') = proc (sched_promoted (core s)) \<and> cpus s' = sti c ((cpus s)(c := saved (sti c (cpus s) c))))) \<or>
         (\<exists>i p s'. top_ready (sched_lists s Q) i p \<and> scheduler_enter c s = Ok (Some p, s') \<and>
            ptinv s' (moved (LReady i) (LState RUNNING) p (sched_lists s Q)) \<and>
            core s' = dispatched c p (sched_promoted (core (sched_start c s))))"
proof -
  let ?s0 = "s\<lparr>cpus := sti c (cpus s)\<rparr>" and ?s1 = "sched_start c s" and ?Q = "sched_lists s Q"
  have acq: "ptable_acquire c ?s0 = Ok ?s1"
    unfolding sched_start_def using ready_sti[OF rdy] by (rule ptable_acquire_eq)
  have inv1: "ptinv ?s1 Q" using inv by (simp add: sched_start_def)
  obtain s2 where s2: "(if ticks ?s1 \<ge> PromoteAtTime ?s1 then promote_all ?s1 else Ok ?s1) = Ok s2"
      "ptinv s2 ?Q" "core s2 = sched_promoted (core ?s1)"
    using promote_if_due[OF inv1] by (auto simp: sched_lists_def sched_start_def)
  have cpus2: "cpus s2 = cpus ?s1" using arg_cong[OF s2(3), of cpus] by simp
  have fld: "proc (core s2) = proc (sched_promoted (core s))" unfolding s2(3)
    by (simp add: sched_promoted_def sched_start_def with_lock_def procs_upd_def fun_eq_iff)
  have eq: "scheduler_enter c s = rbind (scheduler_pick c s2) (\<lambda>(r, s3). case r of Some p \<Rightarrow> Ok (Some p, s3)
       | None \<Rightarrow> rbind (ptable_release c s3) (\<lambda>s4. Ok (None, s4\<lparr>cpus := sti c (cpus s4)\<rparr>)))"
    using acq s2(1) by (simp add: scheduler_enter_def)
  from scheduler_pick_eq[OF s2(2), of c] show ?thesis
  proof (elim disjE exE conjE)
    assume none: "scheduler_pick c s2 = Ok (None, s2)" "\<forall>k \<le> MAXPRIO. ?Q (LReady k) = []"
    have "ptable_lock s2 = ptable_lock ?s1" using arg_cong[OF s2(3), of ptable_lock] by simp
    with cpus2 have "ptable_release c s2 = Ok (s2\<lparr>cpus := (cpus ?s0)(c := saved (cpus ?s0 c)), ptable_lock := ptable_lock ?s0\<rparr>)"
      unfolding sched_start_def by (intro ptable_release_eq[OF ready_sti[OF rdy]])
    moreover have "(cpus ?s0)(c := saved (cpus ?s0 c)) = (cpus s)(c := saved (sti c (cpus s) c))" by (auto simp: fun_eq_iff)
    ultimately show ?thesis using none s2(2) fld rdy
      by (simp add: eq ready_cpu_def cpu_ok_def)
  next
    fix i p assume top: "top_ready ?Q i p" and pick: "scheduler_pick c s2 = rbind (dispatch c i p s2) (\<lambda>s'. Ok (Some p, s'))"
    have p: "p \<in> set (?Q (LReady i))" using top by (auto simp: top_ready_def hd_ptr_eq_Some)
    have mem2: "has_mem (proc s2 p)"
    proof -
      have "p < NPROC" "state (proc s2 p) = RUNNABLE" using p by (auto simp: in_LReady[OF s2(2)])
      moreover have "state (proc (core s2) p) = state (proc s p)" "has_mem (proc (core s2) p) = has_mem (proc s p)"
        unfolding fld by simp_all
      ultimately show ?thesis using m by (simp add: runnable_mem_def)
    qed
    obtain s' where s': "dispatch c i p s2 = Ok s'" "ptinv s' (moved (LReady i) (LState RUNNING) p ?Q)"
        "core s' = pupd p (running_proc (ticks s2)) (cpu_upd c (\<lambda>k. uvm_cpu (ts_addr s2 c) (proc s2 p) (k\<lparr>cproc := Some p\<rparr>)) (core s2))"
      using dispatch_ok[OF s2(2) p, of c] sched_start_cpu[OF rdy] cpus2 mem2 by (auto simp: has_mem_def)
    have "uvm_cpu ts (proc s2 p) = uvm_cpu ts (proc (core s2) p)" for ts by (rule uvm_cpu_cong) simp_all
    moreover have "ticks s2 = ticks (core s2)" "ts_addr s2 = ts_addr (core s2)" by simp_all
    ultimately have "core s' = dispatched c p (core s2)" unfolding dispatched_def s'(3) by metis
    then show ?thesis using top s' pick s2(3) by (auto simp: eq)
  qed
qed

section \<open>sched, yield, sleep\<close>

text \<open>The accounting of \<open>sched\<close>, and what \<open>yield\<close> and \<open>sleep\<close> make of a process.\<close>

definition acct_proc :: "uint \<Rightarrow> proc \<Rightarrow> proc" where
  "acct_proc now x = x\<lparr>cpu_ticks_total := cpu_ticks_total x + (now - cpu_ticks_in x)\<rparr>"

definition yield_proc :: "uint \<Rightarrow> proc \<Rightarrow> proc" where
  "yield_proc now x = acct_proc now ((charge_budget now x)\<lparr>state := RUNNABLE\<rparr>)"

definition sleep_proc :: "uint \<Rightarrow> chan \<Rightarrow> proc \<Rightarrow> proc" where
  "sleep_proc now ch x = acct_proc now (charge_budget now (x\<lparr>chan := ch, state := SLEEPING\<rparr>))"

lemma charge_budget_simps [simp]:
  "state (charge_budget now x) = state x" "pid (charge_budget now x) = pid x"
  "kstack (charge_budget now x) = kstack x" "pgdir (charge_budget now x) = pgdir x"
  "cpu_ticks_in (charge_budget now x) = cpu_ticks_in x" "chan (charge_budget now x) = chan x"
  by (simp_all add: charge_budget_def Let_def)

lemma charge_budget_prio: "unat (priority x) \<le> n \<Longrightarrow> unat (priority (charge_budget now x)) \<le> n"
proof -
  have "priority x > 0 \<Longrightarrow> unat (priority x - 1) \<le> unat (priority x)"
    by (simp add: unat_diff_uint word_less_nat_alt)
  then show "unat (priority x) \<le> n \<Longrightarrow> ?thesis" by (auto simp: charge_budget_def Let_def)
qed

lemma acct_proc_simps [simp]:
  "state (acct_proc now x) = state x" "priority (acct_proc now x) = priority x" "lkey (acct_proc now x) = lkey x"
  "kstack (acct_proc now x) = kstack x" "pgdir (acct_proc now x) = pgdir x" "chan (acct_proc now x) = chan x"
  "link_indep (acct_proc now)"
  by (simp_all add: acct_proc_def lkey_def link_indep_def)

lemma held_by_with_lock: "held_by c (ptable_lock (with_lock c s))"
  by (simp add: with_lock_def)

lemma sched_enter_ok:
  assumes "cpu_ok (cpus s c)" "ncli (cpus s c) = 1" "held_by c (ptable_lock s)" "cproc (cpus s c) = Some p"
    and "state (proc s p) \<noteq> RUNNING"
  shows "sched_enter c s = Ok (intena (cpus s c), pupd p (acct_proc (ticks s)) s)"
proof -
  have "saved (cpus s c) = cpus s c" using assms(2) by (simp add: saved_def)
  moreover have "\<not> interrupts_on (cpus s) c" using assms(1,2) by (simp add: cpu_ok_def interrupts_on_def)
  ultimately show ?thesis using assms
    by (simp add: sched_enter_def myproc_eq holding_eq held_by_def acct_proc_def fun_upd_idem pupd_def)
qed

lemma pushcli_saved: "pushcli c (cs(c := saved (cs c))) = pushcli c cs"
  by (auto simp: pushcli_def cli_def saved_def Let_def fun_eq_iff)

lemma with_lock_after: "with_lock c (after_lock c s) = with_lock c s"
  by (simp add: with_lock_def after_lock_def pushcli_saved)

lemma with_lock_cpu:
  assumes "ready_cpu c s" "ncli (cpus s c) = 0"
  shows "cpu_ok (cpus (with_lock c s) c)" "ncli (cpus (with_lock c s) c) = 1"
    "cproc (cpus (with_lock c s) d) = cproc (cpus s d)"
  using assms by (simp_all add: with_lock_def ready_cpu_def cpu_ok_def cproc_pushcli)

text \<open>Leaving the CPU through \<open>relist\<close> and \<open>sched\<close>, from a state that holds the lock.\<close>

lemma relist_sched:
  assumes inv: "ptinv s Q" and p: "p < NPROC" "state (proc s p) = RUNNING"
    and cpu: "cpu_ok (cpus s c)" "ncli (cpus s c) = 1" "held_by c (ptable_lock s)" "cproc (cpus s c) = Some p"
    and f: "link_indep f" "state (f (proc s p)) \<noteq> RUNNING" "unat (priority (f (proc s p))) \<le> MAXPRIO"
    and m: "\<And>n. m (f ((proc s p)\<lparr>nxt := n\<rparr>)) = lkey (f (proc s p))"
    and g: "link_indep g" "\<And>x. state (g x) = state x" "\<And>x. unat (priority (g x)) \<le> unat (priority x)"
      "\<And>x. state (f (proc s p)) = RUNNABLE \<Longrightarrow> priority (g x) = priority x"
  shows "\<exists>s1 s2. relist (LState (state (proc s p))) p msg RUNNING f m s = Ok s1 \<and>
     sched_enter c (pupd p g s1) = Ok (intena (cpus s c), s2) \<and> ticks s1 = ticks s \<and>
     ptinv s2 (moved (LState RUNNING) (lkey (f (proc s p))) p Q) \<and>
     core s2 = pupd p (\<lambda>x. acct_proc (ticks s) (g (f x))) (core s)"
proof -
  have l: "lkey (proc s p) = LState RUNNING" using p by (simp add: lkey_def)
  obtain s1 where s1: "relist (LState RUNNING) p msg RUNNING f m s = Ok s1"
      "ptinv s1 (moved (LState RUNNING) (lkey (f (proc s p))) p Q)" "core s1 = pupd p f (core s)"
    using relist_ok[where m = m, OF inv p(1) l p(2) f(1) m f(3)] by blast
  have glob: "cpus s1 = cpus s" "ptable_lock s1 = ptable_lock s" "ticks s1 = ticks s"
    using arg_cong[OF s1(3), of cpus] arg_cong[OF s1(3), of ptable_lock] arg_cong[OF s1(3), of ticks] by simp_all
  have "state (proc s1 p) = state (f (proc (core s) p))" using arg_cong[OF s1(3), of "\<lambda>s. state (proc s p)"] by simp
  moreover have "f (proc (core s) p) = (f (proc s p))\<lparr>nxt := None\<rparr>" using f(1) by (simp add: core_def link_indep_def)
  ultimately have st1: "state (proc s1 p) = state (f (proc s p))" by simp
  then have st: "state (proc (pupd p g s1) p) \<noteq> RUNNING" using f(2) g(2) by simp
  have key: "lkey (g (proc s1 p)) = lkey (proc s1 p)" using g(2,4) st1 by (auto simp: lkey_def)
  have inv1: "ptinv (pupd p g s1) (moved (LState RUNNING) (lkey (f (proc s p))) p Q)"
    using s1(2) g(1) key prio_le[OF s1(2) p(1)] g(3)[of "proc s1 p"] by (intro ptinv_pupd) auto
  have "sched_enter c (pupd p g s1) = Ok (intena (cpus s c), pupd p (acct_proc (ticks s)) (pupd p g s1))"
    using sched_enter_ok[of "pupd p g s1" c p] cpu glob st by simp
  moreover have "ptinv (pupd p (acct_proc (ticks s)) (pupd p g s1)) (moved (LState RUNNING) (lkey (f (proc s p))) p Q)"
    using prio_le[OF inv1 p(1)] by (intro ptinv_pupd[OF inv1]) simp_all
  moreover have "core (pupd p (acct_proc (ticks s)) (pupd p g s1)) = pupd p (\<lambda>x. acct_proc (ticks s) (g (f x))) (core s)"
    using g(1) s1(3) by (subst core_pupd) simp_all
  ultimately show ?thesis using s1(1) glob p by auto
qed

lemma yield_enter_ok:
  assumes rdy: "ready_cpu c s" "ncli (cpus s c) = 0" and inv: "ptinv s Q"
    and p: "cproc (cpus s c) = Some p" "p < NPROC" "state (proc s p) = RUNNING"
  shows "\<exists>s'. yield_enter c s = Ok (intena (cpus (with_lock c s) c), s') \<and>
     ptinv s' (moved (LState RUNNING) (LReady (unat (priority (charge_budget (ticks s) (proc s p))))) p Q) \<and>
     core s' = pupd p (yield_proc (ticks s)) (core (with_lock c s))"
proof -
  let ?s1 = "with_lock c s" let ?s3 = "pupd p (charge_budget (ticks s)) ?s1"
  note W = with_lock_cpu[OF rdy]
  have prio: "unat (priority (charge_budget (ticks s) (proc s p))) \<le> MAXPRIO"
    using prio_le[OF inv p(2)] by (rule charge_budget_prio)
  have inv3: "ptinv ?s3 Q" using inv p prio by (intro ptinv_pupd) (simp_all add: lkey_def)
  have key: "lkey ((charge_budget (ticks s) (proc s p))\<lparr>state := RUNNABLE\<rparr>) =
             LReady (unat (priority (charge_budget (ticks s) (proc s p))))" by (simp add: lkey_def)
  obtain s4 s2 where s4: "relist (LState (state (proc ?s3 p))) p ''Empty List or process not in list'' RUNNING
        (\<lambda>x. x\<lparr>state := RUNNABLE\<rparr>) (\<lambda>x. LReady (unat (priority x))) ?s3 = Ok s4"
      "sched_enter c (pupd p (\<lambda>x. x) s4) = Ok (intena (cpus ?s3 c), s2)"
      "ptinv s2 (moved (LState RUNNING) (lkey ((proc ?s3 p)\<lparr>state := RUNNABLE\<rparr>)) p Q)"
      "core s2 = pupd p (\<lambda>x. acct_proc (ticks ?s3) (x\<lparr>state := RUNNABLE\<rparr>)) (core ?s3)"
    using relist_sched[where m = "\<lambda>x. LReady (unat (priority x))" and f = "\<lambda>x. x\<lparr>state := RUNNABLE\<rparr>" and g = "\<lambda>x. x"
        and c = c and msg = "''Empty List or process not in list''", OF inv3 p(2)] p prio W held_by_with_lock[of c s]
    by (auto simp: lkey_def link_indep_def)
  have "pupd p (\<lambda>x. x) s4 = s4" by (rule pupd_id) simp
  moreover have "core s2 = pupd p (yield_proc (ticks s)) (core ?s1)"
    unfolding s4(4) by (simp add: pupd_pupd) (rule pupd_cong, simp add: yield_proc_def)
  moreover have "ready_cpu c (after_lock c s)" using rdy by simp
  ultimately show ?thesis using s4 p rdy key
    by (simp add: yield_enter_def myproc_eq ready_cpu_def ptable_acquire_eq with_lock_after flip: after_lock_def)
qed

text \<open>
  \<open>sleep\<close> called with \<open>ptable.lock\<close> itself, from a state that holds it.  The process goes to
  the end of the sleeping list with its channel set, so a later \<open>wakeup\<close> finds it.
\<close>

lemma sleep_locked_ok:
  assumes inv: "ptinv s Q" and cpu: "cpu_ok (cpus s c)" "ncli (cpus s c) = 1" "held_by c (ptable_lock s)"
    and p: "cproc (cpus s c) = Some p" "p < NPROC" "state (proc s p) = RUNNING"
  shows "\<exists>s'. sleep_enter c ch PtableLock s = Ok (intena (cpus s c), s') \<and>
     ptinv s' (moved (LState RUNNING) (LState SLEEPING) p Q) \<and> core s' = pupd p (sleep_proc (ticks s) ch) (core s)"
proof -
  obtain s4 s2 where s4: "relist (LState (state (proc s p))) p ''Empty list or process not in list'' RUNNING
        (\<lambda>x. x\<lparr>chan := ch, state := SLEEPING\<rparr>) (\<lambda>x. LState (state x)) s = Ok s4"
      "sched_enter c (pupd p (charge_budget (ticks s)) s4) = Ok (intena (cpus s c), s2)" "ticks s4 = ticks s"
      "ptinv s2 (moved (LState RUNNING) (lkey ((proc s p)\<lparr>chan := ch, state := SLEEPING\<rparr>)) p Q)"
      "core s2 = pupd p (\<lambda>x. acct_proc (ticks s) (charge_budget (ticks s) (x\<lparr>chan := ch, state := SLEEPING\<rparr>))) (core s)"
    using relist_sched[where m = "\<lambda>x. LState (state x)" and f = "\<lambda>x. x\<lparr>chan := ch, state := SLEEPING\<rparr>"
        and g = "charge_budget (ticks s)" and c = c and msg = "''Empty list or process not in list''", OF inv p(2)]
      p cpu prio_le[OF inv p(2)] charge_budget_prio by (auto simp: lkey_def)
  have "(cpus s)(c := saved (cpus s c)) = cpus s" using cpu by (simp add: saved_def fun_upd_idem)
  then show ?thesis using s4 cpu p
    by (simp add: sleep_enter_def myproc_eq lkey_def sleep_proc_def[abs_def])
qed

end
