(* ===== verification/Vm_Thms.thy ===== *)
theory Vm_Thms
  imports Vm
begin

unbundle bit_operations_syntax

text \<open>
  Correctness of the page-table code.  \<open>pte m pgd va\<close> is the entry the MMU would use for
  \<open>va\<close> (0 when there is no page table); \<open>pgd_ok\<close> says that the directory and its tables
  are distinct kernel pages, none of them on the free list.
\<close>

section \<open>Page tables in memory\<close>

definition present :: "uint \<Rightarrow> bool" where
  "present w \<longleftrightarrow> w AND PTE_P \<noteq> 0"

text \<open>The address of word \<open>i\<close> of a page.\<close>

definition ent :: "uint \<Rightarrow> nat \<Rightarrow> uint" where
  "ent v i = v + of_nat (4 * i)"

definition pde :: "mem \<Rightarrow> uint \<Rightarrow> nat \<Rightarrow> uint" where
  "pde m pgd i = ld32 m (ent pgd i)"

definition tab :: "mem \<Rightarrow> uint \<Rightarrow> nat \<Rightarrow> uint" where
  "tab m pgd i = P2V (PTE_ADDR (pde m pgd i))"

definition pte :: "mem \<Rightarrow> uint \<Rightarrow> uint \<Rightarrow> uint" where
  "pte m pgd va =
     (if present (pde m pgd (unat (PDX va)))
      then ld32 m (ent (tab m pgd (unat (PDX va))) (unat (PTX va))) else 0)"

definition pgd_ok :: "mem \<Rightarrow> uint \<Rightarrow> uint set \<Rightarrow> uint \<Rightarrow> bool" where
  "pgd_ok m e F pgd \<longleftrightarrow>
     kpage e pgd \<and> pgd \<notin> F \<and>
     (\<forall>i < 1024. present (pde m pgd i) \<longrightarrow> kpage e (tab m pgd i) \<and> tab m pgd i \<notin> F \<and> tab m pgd i \<noteq> pgd) \<and>
     (\<forall>i < 1024. \<forall>j < 1024. present (pde m pgd i) \<longrightarrow> present (pde m pgd j) \<longrightarrow> tab m pgd i = tab m pgd j \<longrightarrow> i = j)"

text \<open>The pages a page table consists of.\<close>

definition pt_pages :: "mem \<Rightarrow> uint \<Rightarrow> uint set" where
  "pt_pages m pgd = insert pgd {tab m pgd i |i. i < 1024 \<and> present (pde m pgd i)}"

lemma ent_word: "v + 4 * w = ent v (unat w)"
  by (simp add: ent_def)

lemma PDX_bound: "unat (PDX va) < 1024" and PTX_bound: "unat (PTX va) < 1024"
  using PDX_less[of va] PTX_less[of va] by (simp_all add: NPDENTRIES_def NPTENTRIES_def)

lemma same_page_iff: "PDX a = PDX b \<and> PTX a = PTX b \<longleftrightarrow> PGROUNDDOWN a = PGROUNDDOWN b"
proof -
  have e: "unat a div 4096 = unat a div 2 ^ 22 * 1024 + unat a div 2 ^ 12 mod 1024" for a :: uint
    using div_mult_mod_eq[of "unat a div 4096" 1024] by (simp add: div_mult2_eq[symmetric])
  have "PGROUNDDOWN a = PGROUNDDOWN b \<longleftrightarrow> unat a div 4096 = unat b div 4096"
    by (simp add: word_unat_eq_iff unat_PGROUNDDOWN)
  also have "\<dots> \<longleftrightarrow> unat a div 2 ^ 22 = unat b div 2 ^ 22 \<and> unat a div 2 ^ 12 mod 1024 = unat b div 2 ^ 12 mod 1024"
  proof
    assume "unat a div 4096 = unat b div 4096"
    moreover have "x div 2 ^ 22 = x div 4096 div 1024" for x :: nat by (simp add: div_mult2_eq[symmetric])
    ultimately show "unat a div 2 ^ 22 = unat b div 2 ^ 22 \<and> unat a div 2 ^ 12 mod 1024 = unat b div 2 ^ 12 mod 1024"
      by simp
  next
    assume "unat a div 2 ^ 22 = unat b div 2 ^ 22 \<and> unat a div 2 ^ 12 mod 1024 = unat b div 2 ^ 12 mod 1024"
    then show "unat a div 4096 = unat b div 4096" unfolding e by simp
  qed
  finally show ?thesis by (simp add: word_unat_eq_iff unat_PDX unat_PTX)
qed

text \<open>Entries of a page are aligned words inside it.\<close>

lemma unat_ent: "page_aligned v \<Longrightarrow> i < 1024 \<Longrightarrow> unat (ent v i) = unat v + 4 * i"
  unfolding ent_def by (rule unat_page_off) auto

lemma ent_in: "page_aligned v \<Longrightarrow> i < 1024 \<Longrightarrow> ent v i \<in> page v"
  unfolding ent_def by (rule page_off_in) auto

lemma entry_aligned:
  assumes "page_aligned v" "i < 1024"
  shows "aligned4 (ent v i)"
proof -
  obtain k where "unat v = 4096 * k" using assms(1) by (rule page_alignedE)
  moreover have "unat (ent v i) = unat v + 4 * i" using assms by (rule unat_ent)
  ultimately have "unat (ent v i) = 4 * (1024 * k + i)" by simp
  then show ?thesis unfolding aligned4_def by (metis mod_mult_self1_is_0)
qed

lemma entry_neq:
  assumes "page_aligned v" "page_aligned w" "i < 1024" "j < 1024" "v \<noteq> w \<or> i \<noteq> j"
  shows "ent v i \<noteq> ent w j"
proof
  assume e: "ent v i = ent w j"
  have "ent v i \<in> page v" "ent w j \<in> page w" using assms by (simp_all add: ent_in)
  with e have "v = w" using pages_disjoint[of v w] assms(1,2) by auto
  moreover have "unat (ent v i) = unat v + 4 * i" "unat (ent w j) = unat w + 4 * j"
    using assms by (simp_all add: unat_ent)
  ultimately show False using e assms(5) by simp
qed

lemma st32_entry:
  assumes "page_aligned v" "page_aligned w" "i < 1024" "j < 1024" "v \<noteq> w \<or> i \<noteq> j"
  shows "ld32 (st32 m (ent v i) x) (ent w j) = ld32 m (ent w j)"
  using assms entry_neq[OF assms] by (intro ld32_st32_other entry_aligned) auto

lemma st32_entry_outside:
  assumes "page_aligned v" "i < 1024" "a \<notin> page v"
  shows "st32 m (ent v i) x a = m a"
proof (rule st32_outside)
  fix k :: nat assume "k < 4"
  then have "v + of_nat (4 * i + k) \<in> page v" using assms by (intro page_off_in) auto
  then show "a \<noteq> ent v i + of_nat k" using assms(3) by (auto simp: ent_def algebra_simps)
qed

lemma ld32_entry_cong:
  assumes "page_aligned v" "i < 1024" "\<And>a. a \<in> page v \<Longrightarrow> m a = m' a"
  shows "ld32 m (ent v i) = ld32 m' (ent v i)"
  unfolding ent_def using assms by (intro ld32_page_cong) auto

lemma P2V_V2P [simp]: "P2V (V2P v) = v" "V2P (P2V v) = v"
  by (simp_all add: P2V_def V2P_def)

lemma kpage_aligned: "kpage e v \<Longrightarrow> page_aligned v"
  by (simp add: kpage_def)

lemma V2P_aligned: "page_aligned v \<Longrightarrow> page_aligned (V2P v)"
proof -
  assume "page_aligned v"
  then obtain k where "unat v = 4096 * k" by (rule page_alignedE)
  then show ?thesis by (simp add: page_aligned_def V2P_def KERNBASE_def unat_diff_uint)
qed

lemma pgd_ok_pgd: "pgd_ok m e F pgd \<Longrightarrow> page_aligned pgd"
  by (simp add: pgd_ok_def kpage_def)

lemma pgd_ok_tab: "pgd_ok m e F pgd \<Longrightarrow> i < 1024 \<Longrightarrow> present (pde m pgd i) \<Longrightarrow>
    page_aligned (tab m pgd i) \<and> tab m pgd i \<noteq> pgd \<and> tab m pgd i \<notin> F"
  by (simp add: pgd_ok_def kpage_def)

section \<open>walkpgdir\<close>

definition vm_ok :: "nat \<Rightarrow> 'a kmem_st_scheme \<Rightarrow> uint list \<Rightarrow> uint \<Rightarrow> bool" where
  "vm_ok c s xs pgd \<longleftrightarrow> kmem_ok c s xs \<and> pgd_ok (mem s) (end_sym s) (set xs) pgd"

text \<open>
  What a page-table operation may change: free pages are used up from the front of
  the free list, and memory is written only in the table's own pages and in those.
\<close>

definition vm_frame :: "'a kmem_st_scheme \<Rightarrow> uint list \<Rightarrow> uint \<Rightarrow> 'a kmem_st_scheme \<Rightarrow> uint list \<Rightarrow> bool" where
  "vm_frame s xs pgd s' xs' \<longleftrightarrow>
     end_sym s' = end_sym s \<and> (\<exists>n. xs' = drop n xs) \<and>
     pt_pages (mem s') pgd \<subseteq> pt_pages (mem s) pgd \<union> set xs \<and>
     (\<forall>a. (\<forall>v \<in> pt_pages (mem s) pgd \<union> set xs. a \<notin> page v) \<longrightarrow> mem s' a = mem s a)"

lemma vm_frame_refl: "vm_frame s xs pgd s xs"
  unfolding vm_frame_def by (auto intro: exI[of _ 0])

lemma set_drop_sub: "xs' = drop n xs \<Longrightarrow> set xs' \<subseteq> set xs"
  by (simp add: set_drop_subset)

lemma vm_frame_trans:
  assumes "vm_frame s xs pgd s' xs'" "vm_frame s' xs' pgd s'' xs''"
  shows "vm_frame s xs pgd s'' xs''"
proof -
  obtain n where n: "xs' = drop n xs" using assms(1) by (auto simp: vm_frame_def)
  moreover obtain k where "xs'' = drop k xs'" using assms(2) by (auto simp: vm_frame_def)
  ultimately have d: "xs'' = drop (k + n) xs" by simp
  have sub: "pt_pages (mem s') pgd \<union> set xs' \<subseteq> pt_pages (mem s) pgd \<union> set xs"
    using assms(1) set_drop_sub[OF n] unfolding vm_frame_def by blast
  moreover have "mem s'' a = mem s a" if "\<forall>v \<in> pt_pages (mem s) pgd \<union> set xs. a \<notin> page v" for a
  proof -
    have "mem s'' a = mem s' a" using that sub assms(2) unfolding vm_frame_def by blast
    also have "\<dots> = mem s a" using that assms(1) unfolding vm_frame_def by blast
    finally show ?thesis .
  qed
  ultimately show ?thesis using assms d unfolding vm_frame_def by (auto intro!: exI[of _ "k + n"])
qed

lemma kmem_ok_mem:
  assumes "kmem_ok c s xs" "\<And>x a. x \<in> set xs \<Longrightarrow> a \<in> page x \<Longrightarrow> m' a = mem s a"
  shows "kmem_ok c (s\<lparr>mem := m'\<rparr>) xs"
proof -
  have "\<forall>x \<in> set xs. page_aligned x" using assms(1) by (auto simp: kmem_ok_def kpage_def)
  from flist_frame[OF this assms(2)] show ?thesis using assms(1) by (simp add: kmem_ok_def)
qed

lemma walkpgdir_present:
  assumes "present (pde (mem s) pgd (unat (PDX va)))"
  shows "walkpgdir c pgd va b s = Ok (ent (tab (mem s) pgd (unat (PDX va))) (unat (PTX va)), s)"
  using assms by (simp add: walkpgdir_def present_def pde_def tab_def ent_word)

lemma walkpgdir_absent:
  assumes "\<not> present (pde (mem s) pgd (unat (PDX va)))"
  shows "walkpgdir c pgd va False s = Ok (0, s)"
  using assms by (simp add: walkpgdir_def present_def pde_def ent_word)

lemma ent_nonzero: "kpage e v \<Longrightarrow> i < 1024 \<Longrightarrow> ent v i \<noteq> 0"
proof
  assume v: "kpage e v" "i < 1024" and "ent v i = 0"
  then have "unat v = 0" using unat_ent[OF kpage_aligned[OF v(1)] v(2)] by simp
  then show False using kpage_nonzero[OF v(1)] by (simp add: unat_0_iff)
qed

text \<open>The entry \<open>walkpgdir\<close> writes for a new page table.\<close>

lemma new_pde:
  assumes "page_aligned x"
  shows "PTE_ADDR (V2P x OR PTE_P OR PTE_W OR PTE_U) = V2P x" "present (V2P x OR PTE_P OR PTE_W OR PTE_U)"
proof -
  have seven: "PTE_P OR PTE_W OR PTE_U = 7" by (simp add: PTE_P_def PTE_W_def PTE_U_def)
  show "PTE_ADDR (V2P x OR PTE_P OR PTE_W OR PTE_U) = V2P x"
    using PTE_ADDR_or(1)[OF V2P_aligned[OF assms], of 7] by (simp add: seven or.assoc)
  have "bit (V2P x OR PTE_P OR PTE_W OR PTE_U) 0" by (simp add: bit_or_iff PTE_P_def)
  then have "bit ((V2P x OR PTE_P OR PTE_W OR PTE_U) AND PTE_P) 0" by (simp add: bit_and_iff PTE_P_def)
  then show "present (V2P x OR PTE_P OR PTE_W OR PTE_U)" unfolding present_def by (metis bit_0_eq bot_apply bot_bool_def)
qed

text \<open>Memory after a new page table has been zeroed and entered in the directory.\<close>

definition add_table :: "mem \<Rightarrow> uint \<Rightarrow> nat \<Rightarrow> uint \<Rightarrow> mem" where
  "add_table m pgd i x = st32 (memset m x 0 PGSIZE) (ent pgd i) (V2P x OR PTE_P OR PTE_W OR PTE_U)"

lemma memset_page: "memset m x 0 PGSIZE a = (if a \<in> page x then 0 else m a)"
  by (simp add: memset_apply page_def)

lemma add_table_mem:
  assumes "page_aligned pgd" "page_aligned x" "x \<noteq> pgd" "i < 1024"
  shows "a \<notin> page x \<Longrightarrow> a \<notin> page pgd \<Longrightarrow> add_table m pgd i x a = m a"
    and "a \<in> page x \<Longrightarrow> add_table m pgd i x a = 0"
proof -
  show "add_table m pgd i x a = m a" if "a \<notin> page x" "a \<notin> page pgd"
    using that assms by (simp add: add_table_def st32_entry_outside memset_page)
  show "add_table m pgd i x a = 0" if "a \<in> page x"
  proof -
    have "a \<notin> page pgd" using that pages_disjoint[of x pgd] assms by auto
    then show ?thesis using that assms by (simp add: add_table_def st32_entry_outside memset_page)
  qed
qed

lemma add_table_pde:
  assumes "page_aligned pgd" "page_aligned x" "x \<noteq> pgd" "i < 1024" "j < 1024"
  shows "pde (add_table m pgd i x) pgd j = (if j = i then V2P x OR PTE_P OR PTE_W OR PTE_U else pde m pgd j)"
proof (cases "j = i")
  case True
  then show ?thesis by (simp add: pde_def add_table_def)
next
  case False
  have "pde (add_table m pgd i x) pgd j = ld32 (memset m x 0 PGSIZE) (ent pgd j)"
    unfolding pde_def add_table_def using assms False by (intro st32_entry) auto
  also have "\<dots> = pde m pgd j" unfolding pde_def
    using assms pages_disjoint[of x pgd] by (intro ld32_entry_cong) (auto simp: memset_page)
  finally show ?thesis using False by simp
qed

lemma add_table_tab:
  assumes "page_aligned pgd" "page_aligned x" "x \<noteq> pgd" "i < 1024" "j < 1024"
  shows "tab (add_table m pgd i x) pgd j = (if j = i then x else tab m pgd j)"
  using assms by (simp add: tab_def add_table_pde new_pde)

lemma add_table_pte:
  assumes ok: "pgd_ok m e (insert x F) pgd" and x: "page_aligned x" and i: "i < 1024" "\<not> present (pde m pgd i)"
  shows "pte (add_table m pgd i x) pgd va = pte m pgd va"
proof -
  have al: "page_aligned pgd" "x \<noteq> pgd" using ok by (auto simp: pgd_ok_def kpage_def)
  note A = al(1) x al(2) i(1)
  let ?j = "unat (PDX va)" and ?k = "unat (PTX va)"
  show ?thesis
  proof (cases "?j = i")
    case True
    have "ld32 (add_table m pgd i x) (ent x ?k) = 0"
    proof (rule ld32_zero)
      fix k :: nat assume "k < 4"
      then have "x + of_nat (4 * ?k + k) \<in> page x" using x PTX_bound[of va] by (intro page_off_in) auto
      then show "add_table m pgd i x (ent x ?k + of_nat k) = 0"
        using add_table_mem(2)[OF A] by (simp add: ent_def algebra_simps)
    qed
    then show ?thesis using True i A PDX_bound[of va] by (simp add: pte_def add_table_pde add_table_tab)
  next
    case False
    show ?thesis
    proof (cases "present (pde m pgd ?j)")
      case True
      have tb: "page_aligned (tab m pgd ?j)" "tab m pgd ?j \<noteq> pgd" "tab m pgd ?j \<noteq> x"
        using pgd_ok_tab[OF ok PDX_bound True] by auto
      have "ld32 (add_table m pgd i x) (ent (tab m pgd ?j) ?k) = ld32 m (ent (tab m pgd ?j) ?k)"
        using tb PTX_bound[of va] A pages_disjoint
        by (intro ld32_entry_cong add_table_mem(1)[OF A]) blast+
      then show ?thesis using True False A PDX_bound[of va] by (simp add: pte_def add_table_pde add_table_tab)
    next
      case absent: False
      then show ?thesis using False A PDX_bound[of va] by (simp add: pte_def add_table_pde)
    qed
  qed
qed

lemma add_table_ok:
  assumes ok: "pgd_ok m e (insert x F) pgd" and x: "kpage e x" "x \<notin> F" and i: "i < 1024" "\<not> present (pde m pgd i)"
  shows "pgd_ok (add_table m pgd i x) e F pgd"
    and "pt_pages (add_table m pgd i x) pgd = insert x (pt_pages m pgd)"
proof -
  have al: "page_aligned pgd" "x \<noteq> pgd" "page_aligned x" using ok x by (auto simp: pgd_ok_def kpage_def)
  note pd = add_table_pde[OF al(1,3,2) i(1)] and tb = add_table_tab[OF al(1,3,2) i(1)]
  have pr: "present (pde (add_table m pgd i x) pgd j) \<longleftrightarrow> j = i \<or> present (pde m pgd j)" if "j < 1024" for j
    using that pd[of j] new_pde(2)[OF al(3)] by simp
  show "pgd_ok (add_table m pgd i x) e F pgd"
    using ok x i al(2) unfolding pgd_ok_def by (auto simp: pr tb)
  have "{tab (add_table m pgd i x) pgd j |j. j < 1024 \<and> present (pde (add_table m pgd i x) pgd j)} =
        insert x {tab m pgd j |j. j < 1024 \<and> present (pde m pgd j)}"
    using i pr tb by (auto split: if_splits) (metis, metis)
  then show "pt_pages (add_table m pgd i x) pgd = insert x (pt_pages m pgd)"
    unfolding pt_pages_def by (auto simp: insert_commute)
qed

lemma kmem_okD: "kmem_ok c s xs \<Longrightarrow> x \<in> set xs \<Longrightarrow> kpage (end_sym s) x" "kmem_ok c s xs \<Longrightarrow> distinct xs"
  by (simp_all add: kmem_ok_def)

lemma walkpgdir_new:
  assumes ok: "vm_ok c s (x # xs) pgd" and abs: "\<not> present (pde (mem s) pgd (unat (PDX va)))"
  shows "\<exists>s'. walkpgdir c pgd va True s = Ok (ent x (unat (PTX va)), s') \<and>
           mem s' = add_table (mem s) pgd (unat (PDX va)) x \<and> kmem_ok c s' xs \<and> end_sym s' = end_sym s"
proof -
  let ?i = "unat (PDX va)" and ?m = "add_table (mem s) pgd (unat (PDX va)) x"
  have km: "kmem_ok c s (x # xs)" and po: "pgd_ok (mem s) (end_sym s) (insert x (set xs)) pgd"
    using ok by (auto simp: vm_ok_def)
  obtain s1 where s1: "kalloc c s = Ok (x, s1)" "kmem_ok c s1 xs" "end_sym s1 = end_sym s" "mem s1 = mem s"
    using kmem_ok_kalloc[OF km] by auto
  have x: "kpage (end_sym s) x" "x \<noteq> 0" using kmem_okD(1)[OF km] kpage_nonzero by auto
  have "kmem_ok c (s1\<lparr>mem := ?m\<rparr>) xs"
  proof (rule kmem_ok_mem[OF s1(2)])
    fix y a assume y: "y \<in> set xs" "a \<in> page y"
    have al: "page_aligned pgd" "x \<noteq> pgd" "page_aligned x" "page_aligned y" "y \<noteq> pgd" "y \<noteq> x"
      using po x y kmem_okD[OF km] by (auto simp: pgd_ok_def kpage_def)
    then have "a \<notin> page x" "a \<notin> page pgd" using y pages_disjoint by blast+
    then show "?m a = mem s1 a" using add_table_mem(1)[OF al(1,3,2) PDX_bound] s1(4) by simp
  qed
  moreover have "walkpgdir c pgd va True s = Ok (ent x (unat (PTX va)), s1\<lparr>mem := ?m\<rparr>)"
    using abs s1(1,4) x(2)
    by (simp add: walkpgdir_def present_def pde_def ent_word add_table_def Let_def)
  ultimately show ?thesis using s1 by simp
qed

lemma walkpgdir_alloc:
  assumes ok: "vm_ok c s xs pgd"
  shows "\<exists>r s' xs'. walkpgdir c pgd va True s = Ok (r, s') \<and> vm_ok c s' xs' pgd \<and> vm_frame s xs pgd s' xs' \<and>
     (\<forall>va'. pte (mem s') pgd va' = pte (mem s) pgd va') \<and>
     (if r = 0 then xs = [] \<and> s' = s\<lparr>cpus := cpus s'\<rparr>
      else present (pde (mem s') pgd (unat (PDX va))) \<and> r = ent (tab (mem s') pgd (unat (PDX va))) (unat (PTX va)))"
proof (cases "present (pde (mem s) pgd (unat (PDX va)))")
  case True
  then have "kpage (end_sym s) (tab (mem s) pgd (unat (PDX va)))"
    using ok PDX_bound by (auto simp: vm_ok_def pgd_ok_def)
  then show ?thesis using walkpgdir_present[OF True] ok True ent_nonzero[OF _ PTX_bound] vm_frame_refl by fastforce
next
  case False
  show ?thesis
  proof (cases xs)
    case Nil
    then have km: "cpu_ok (cpus s c)" "free_lock (kmem_lock s)" "freelist s = 0"
      using ok by (auto simp: vm_ok_def kmem_ok_def)
    have "walkpgdir c pgd va True s = Ok (0, touch c s)"
    proof -
      have "(touch c s)\<lparr>freelist := 0\<rparr> = touch c s" using km by (intro kmem_st.equality) simp_all
      then show ?thesis using km False by (simp add: walkpgdir_def present_def pde_def ent_word kalloc_eq)
    qed
    moreover have "vm_ok c (touch c s) xs pgd" using ok by (simp add: vm_ok_def kmem_ok_def)
    moreover have "vm_frame s xs pgd (touch c s) xs" unfolding vm_frame_def by (auto intro: exI[of _ 0])
    moreover have "touch c s = s\<lparr>cpus := cpus (touch c s)\<rparr>" by (simp add: touch_def)
    ultimately show ?thesis using Nil by (intro exI[of _ 0] exI[of _ "touch c s"] exI[of _ xs]) simp
  next
    case (Cons x ys)
    let ?m = "add_table (mem s) pgd (unat (PDX va)) x"
    obtain s' where s': "walkpgdir c pgd va True s = Ok (ent x (unat (PTX va)), s')" "mem s' = ?m"
        "kmem_ok c s' ys" "end_sym s' = end_sym s"
      using walkpgdir_new[OF _ False] ok Cons by blast
    have po: "pgd_ok (mem s) (end_sym s) (insert x (set ys)) pgd" and km: "kmem_ok c s (x # ys)"
      using ok Cons by (auto simp: vm_ok_def)
    have x: "kpage (end_sym s) x" "x \<notin> set ys" using kmem_okD[OF km] by auto
    have al: "page_aligned pgd" "x \<noteq> pgd" "page_aligned x" using po x by (auto simp: pgd_ok_def kpage_def)
    note T = add_table_ok[OF po x PDX_bound False]
    have "vm_frame s xs pgd s' ys" unfolding vm_frame_def s'(2) T(2)
      using s'(4) Cons add_table_mem(1)[OF al(1,3,2) PDX_bound]
      by (auto intro!: exI[of _ 1] simp: pt_pages_def)
    moreover have "vm_ok c s' ys pgd" using T(1) s' by (simp add: vm_ok_def)
    moreover have "pte (mem s') pgd va' = pte (mem s) pgd va'" for va'
      unfolding s'(2) by (rule add_table_pte[OF po al(3) PDX_bound False])
    moreover have "present (pde ?m pgd (unat (PDX va)))" "tab ?m pgd (unat (PDX va)) = x"
      using al PDX_bound[of va] by (simp_all add: add_table_pde add_table_tab new_pde)
    ultimately show ?thesis using s'(1,2) ent_nonzero[OF x(1) PTX_bound, of va]
      by (intro exI[of _ "ent x (unat (PTX va))"] exI[of _ s'] exI[of _ ys]) simp
  qed
qed

text \<open>A store to a page-table entry changes the entry of one page.\<close>

definition put_pte :: "uint \<Rightarrow> uint \<Rightarrow> uint \<Rightarrow> 'a kmem_st_scheme \<Rightarrow> 'a kmem_st_scheme" where
  "put_pte pgd va w s = s\<lparr>mem := st32 (mem s) (ent (tab (mem s) pgd (unat (PDX va))) (unat (PTX va))) w\<rparr>"

lemma put_pte_ok:
  fixes s :: "'a kmem_st_scheme"
  assumes ok: "vm_ok c s xs pgd" and pr: "present (pde (mem s) pgd (unat (PDX va)))"
  shows "vm_ok c (put_pte pgd va w s) xs pgd" "vm_frame s xs pgd (put_pte pgd va w s) xs"
    "pte (mem (put_pte pgd va w s)) pgd va' = (if PGROUNDDOWN va' = PGROUNDDOWN va then w else pte (mem s) pgd va')"
proof -
  define s' where "s' = put_pte pgd va w s"
  note s'_def = s'_def[unfolded put_pte_def]
  let ?t = "tab (mem s) pgd (unat (PDX va))"
  have po: "pgd_ok (mem s) (end_sym s) (set xs) pgd" and km: "kmem_ok c s xs" using ok by (auto simp: vm_ok_def)
  have t: "page_aligned ?t" "?t \<noteq> pgd" "?t \<notin> set xs" using pgd_ok_tab[OF po PDX_bound pr] by auto
  have pd: "pde (mem s') pgd i = pde (mem s) pgd i" if "i < 1024" for i
    unfolding s'_def pde_def using t pgd_ok_pgd[OF po] PTX_bound[of va] that by (simp add: st32_entry)
  then have tb: "tab (mem s') pgd i = tab (mem s) pgd i" if "i < 1024" for i using that by (simp add: tab_def)
  have e: "end_sym s' = end_sym s" by (simp add: s'_def)
  have "kmem_ok c s' xs" unfolding s'_def
  proof (rule kmem_ok_mem[OF km])
    fix x a assume "x \<in> set xs" "a \<in> page x"
    moreover from this have "page_aligned x" using kmem_okD(1)[OF km] kpage_aligned by blast
    ultimately have "a \<notin> page ?t" using t pages_disjoint by blast
    then show "st32 (mem s) (ent ?t (unat (PTX va))) w a = mem s a" using t PTX_bound by (intro st32_entry_outside)
  qed
  moreover have "pgd_ok (mem s') (end_sym s) (set xs) pgd" using po unfolding pgd_ok_def by (simp add: pd tb)
  ultimately show "vm_ok c (put_pte pgd va w s) xs pgd" by (simp add: vm_ok_def e s'_def put_pte_def)
  have pp: "pt_pages (mem s') pgd = pt_pages (mem s) pgd" 
    unfolding pt_pages_def using pd tb by (metis (no_types, lifting))
  have tin: "?t \<in> pt_pages (mem s) pgd" using pr PDX_bound[of va] by (auto simp: pt_pages_def)
  have "mem s' a = mem s a" if "a \<notin> page ?t" for a
    unfolding s'_def using that t PTX_bound[of va] by (simp add: st32_entry_outside)
  then have "vm_frame s xs pgd s' xs" unfolding vm_frame_def pp using e tin by (auto intro: exI[of _ 0])
  then show "vm_frame s xs pgd (put_pte pgd va w s) xs" by (simp add: s'_def put_pte_def)
  have "pte (mem s') pgd va' = (if PGROUNDDOWN va' = PGROUNDDOWN va then w else pte (mem s) pgd va')"
  proof (cases "PGROUNDDOWN va' = PGROUNDDOWN va")
    case True
    then have "PDX va' = PDX va" "PTX va' = PTX va" using same_page_iff by blast+
    then show ?thesis using True pr PDX_bound[of va] by (simp add: pte_def pd tb) (simp add: s'_def)
  next
    case False
    then have ne: "PDX va' \<noteq> PDX va \<or> PTX va' \<noteq> PTX va" using same_page_iff by blast
    show ?thesis
    proof (cases "present (pde (mem s) pgd (unat (PDX va')))")
      case pr': True
      let ?t' = "tab (mem s) pgd (unat (PDX va'))"
      have t': "page_aligned ?t'" using pgd_ok_tab[OF po PDX_bound pr'] by auto
      have "?t \<noteq> ?t' \<or> unat (PTX va) \<noteq> unat (PTX va')"
        using po ne pr pr' PDX_bound unfolding pgd_ok_def by (metis word_unat_eq_iff)
      then have "ld32 (mem s') (ent ?t' (unat (PTX va'))) = ld32 (mem s) (ent ?t' (unat (PTX va')))"
        unfolding s'_def using t t' PTX_bound by (simp add: st32_entry)
      then show ?thesis using False pr' PDX_bound[of va'] by (simp add: pte_def pd tb)
    next
      case abs: False
      then show ?thesis using False PDX_bound[of va'] by (simp add: pte_def pd)
    qed
  qed
  then show "pte (mem (put_pte pgd va w s)) pgd va' = (if PGROUNDDOWN va' = PGROUNDDOWN va then w else pte (mem s) pgd va')"
    by (simp add: s'_def put_pte_def)
qed

section \<open>mappages\<close>

lemma span_add:
  assumes "p + q \<le> 2 ^ 32" "p < 2 ^ 32"
  shows "x \<in> span a (p + q) \<longleftrightarrow> x \<in> span a p \<or> x \<in> span (a + of_nat p) q"
proof -
  have e: "x - (a + of_nat p) = (x - a) - of_nat p" by simp
  have p: "unat (of_nat p :: uint) = p" using assms(2) by (simp add: unat_of_nat)
  have "unat (x - (a + of_nat p)) = (if p \<le> unat (x - a) then unat (x - a) - p else unat (x - a) + 2 ^ 32 - p)"
    unfolding e unat_diff_uint[of "x - a" "of_nat p"] p ..
  then show ?thesis using assms by (auto simp: span_def)
qed

text \<open>The entries after \<open>n\<close> pages from \<open>a\<close> have been mapped to the frames from \<open>pa\<close>.\<close>

definition mapped :: "uint \<Rightarrow> nat \<Rightarrow> uint \<Rightarrow> uint \<Rightarrow> (uint \<Rightarrow> uint) \<Rightarrow> uint \<Rightarrow> uint" where
  "mapped a n pa perm old va =
     (if va \<in> span a (4096 * n) then (pa + (PGROUNDDOWN va - a)) OR perm OR PTE_P else old va)"

lemma mapped_Suc:
  assumes "page_aligned a" "4096 * Suc n \<le> 2 ^ 32"
  shows "mapped (a + 4096) n (pa + 4096) perm
           (\<lambda>v. if PGROUNDDOWN v = PGROUNDDOWN a then pa OR perm OR PTE_P else old v) va =
         mapped a (Suc n) pa perm old va"
proof -
  have s: "va \<in> span a (4096 * Suc n) \<longleftrightarrow> va \<in> page a \<or> va \<in> span (a + 4096) (4096 * n)"
    using span_add[of 4096 "4096 * n" va a] assms(2) by (simp add: page_def)
  have pg: "va \<in> page a \<longleftrightarrow> PGROUNDDOWN va = a" using assms(1) by (rule page_iff)
  have d: "\<not> (va \<in> page a \<and> va \<in> span (a + 4096) (4096 * n))"
  proof
    assume both: "va \<in> page a \<and> va \<in> span (a + 4096) (4096 * n)"
    have "unat (va - (a + 4096)) = unat (va - a) + 2 ^ 32 - 4096"
      using both unat_diff_uint[of "va - a" 4096] by (simp add: page_def span_def diff_diff_eq)
    then show False using both assms(2) by (simp add: span_def)
  qed
  show ?thesis using s pg d PGROUNDDOWN_id[OF assms(1)] by (auto simp: mapped_def)
qed

lemma page_aligned_add: "page_aligned a \<Longrightarrow> page_aligned (a + 4096)"
proof -
  assume "page_aligned a"
  then obtain k where "unat a = 4096 * k" by (rule page_alignedE)
  moreover have "(4096 * k + 4096) mod 4294967296 mod 4096 = (4096 * k + 4096) mod 4096"
    by (rule mod_mod_cancel) simp
  ultimately show ?thesis by (simp add: page_aligned_def unat_word_ariths)
qed

lemma page_aligned_mult: "page_aligned a \<Longrightarrow> page_aligned (a + of_nat (4096 * k))"
proof (induction k)
  case (Suc k)
  then have "page_aligned (a + of_nat (4096 * k) + 4096)" by (simp only: page_aligned_add)
  then show ?case by (simp add: algebra_simps)
qed simp

text \<open>The outcome of mapping: success with exactly the new entries, or memory has run out.\<close>

definition map_result ::
  "nat \<Rightarrow> uint \<Rightarrow> uint \<Rightarrow> nat \<Rightarrow> uint \<Rightarrow> uint \<Rightarrow> 'a kmem_st_scheme \<Rightarrow> uint list \<Rightarrow> (int \<times> 'a kmem_st_scheme) res \<Rightarrow> bool" where
  "map_result c pgd a n pa perm s xs out \<longleftrightarrow>
     (\<exists>r s' xs'. out = Ok (r, s') \<and> vm_ok c s' xs' pgd \<and> vm_frame s xs pgd s' xs' \<and>
        ((r = 0 \<and> pte (mem s') pgd = mapped a n pa perm (pte (mem s) pgd)) \<or>
         (r = -1 \<and> xs' = [] \<and> (\<forall>va. va \<notin> span a (4096 * n) \<longrightarrow> pte (mem s') pgd va = pte (mem s) pgd va))))"

lemma mappages_step:
  assumes ok: "vm_ok c s xs pgd" and np: "\<not> present (pte (mem s) pgd a)"
  shows "(\<exists>s'. mappages_body c pgd lst perm (a, pa, s) = Ok (Inl (-1, s')) \<and> xs = [] \<and> vm_ok c s' [] pgd \<and>
            vm_frame s xs pgd s' [] \<and> pte (mem s') pgd = pte (mem s) pgd) \<or>
         (\<exists>s' xs'. mappages_body c pgd lst perm (a, pa, s) =
              Ok (if a = lst then Inl (0, s') else Inr (a + PGSIZE, pa + PGSIZE, s')) \<and>
            vm_ok c s' xs' pgd \<and> vm_frame s xs pgd s' xs' \<and>
            pte (mem s') pgd = (\<lambda>v. if PGROUNDDOWN v = PGROUNDDOWN a then pa OR perm OR PTE_P else pte (mem s) pgd v))"
proof -
  obtain r s1 ys where w: "walkpgdir c pgd a True s = Ok (r, s1)" "vm_ok c s1 ys pgd" "vm_frame s xs pgd s1 ys"
      "pte (mem s1) pgd = pte (mem s) pgd"
    and r: "if r = 0 then xs = [] \<and> s1 = s\<lparr>cpus := cpus s1\<rparr>
      else present (pde (mem s1) pgd (unat (PDX a))) \<and> r = ent (tab (mem s1) pgd (unat (PDX a))) (unat (PTX a))"
    using walkpgdir_alloc[OF ok, of a] by (auto simp: fun_eq_iff)
  show ?thesis
  proof (cases "r = 0")
    case True
    moreover have "ys = []" using True r w(3) by (auto simp: vm_frame_def)
    ultimately show ?thesis using w r by (simp add: mappages_body_def)
  next
    case False
    with r have pr: "present (pde (mem s1) pgd (unat (PDX a)))" and e: "r = ent (tab (mem s1) pgd (unat (PDX a))) (unat (PTX a))"
      by simp_all
    have "ld32 (mem s1) r = pte (mem s) pgd a" using fun_cong[OF w(4), of a] pr e by (simp add: pte_def)
    then have "ld32 (mem s1) r AND PTE_P = 0" using np by (simp add: present_def)
    then have b: "mappages_body c pgd lst perm (a, pa, s) =
        Ok (if a = lst then Inl (0, put_pte pgd a (pa OR perm OR PTE_P) s1)
            else Inr (a + PGSIZE, pa + PGSIZE, put_pte pgd a (pa OR perm OR PTE_P) s1))"
      using w(1) False e by (simp add: mappages_body_def put_pte_def)
    note P = put_pte_ok[OF w(2) pr, where w = "pa OR perm OR PTE_P"]
    show ?thesis unfolding b using vm_frame_trans[OF w(3) P(2)] P(1,3) w(4)
      by (intro disjI2 exI[of _ "put_pte pgd a (pa OR perm OR PTE_P) s1"] exI[of _ ys]) (simp add: fun_eq_iff)
  qed
qed

lemma span_page: "page_aligned a \<Longrightarrow> span a 4096 = {v. PGROUNDDOWN v = a}"
  using page_iff[of a] by (auto simp: page_def)

lemma mappages_loop:
  assumes "vm_ok c s xs pgd" "page_aligned a" "4096 * Suc n \<le> 2 ^ 32" "lst = a + of_nat (4096 * n)"
    and "\<And>va. va \<in> span a (4096 * Suc n) \<Longrightarrow> \<not> present (pte (mem s) pgd va)"
  shows "map_result c pgd a (Suc n) pa perm s xs (loop_res (mappages_body c pgd lst perm) (a, pa, s))"
  using assms
proof (induction n arbitrary: a pa s xs)
  case 0
  have np: "\<not> present (pte (mem s) pgd a)" using 0(5)[of a] by (simp add: span_def)
  have a: "PGROUNDDOWN a = a" using 0(2) by (rule PGROUNDDOWN_id)
  have m: "(\<lambda>v. if PGROUNDDOWN v = a then pa OR perm OR PTE_P else pte (mem s) pgd v) =
           mapped a (Suc 0) pa perm (pte (mem s) pgd)"
    using span_page[OF 0(2)] by (auto simp: mapped_def fun_eq_iff)
  have lst: "lst = a" using 0(4) by simp
  show ?case
    using mappages_step[OF 0(1) np, of lst perm pa] unfolding map_result_def a m lst
    by (subst loop_res_unfold) (fastforce)
next
  case (Suc n)
  have np: "\<not> present (pte (mem s) pgd a)" using Suc.prems(5)[of a] by (simp add: span_def)
  have a: "PGROUNDDOWN a = a" using Suc.prems(2) by (rule PGROUNDDOWN_id)
  have ne: "a \<noteq> lst"
  proof
    assume "a = lst"
    then have "(of_nat (4096 * Suc n) :: uint) = 0" using Suc.prems(4) by simp
    then have "unat (of_nat (4096 * Suc n) :: uint) = 0" by simp
    moreover have "unat (of_nat (4096 * Suc n) :: uint) = 4096 * Suc n"
      using Suc.prems(3) by (intro unat_of_nat_uint) simp
    ultimately show False by simp
  qed
  have sub: "va \<in> span a (4096 * Suc (Suc n))" if "va \<in> span (a + 4096) (4096 * Suc n)" for va
    using span_add[of 4096 "4096 * Suc n" va a] that Suc.prems(3) by simp
  from mappages_step[OF Suc.prems(1) np, of lst perm pa] show ?case
  proof (elim disjE exE conjE)
    fix s' assume "mappages_body c pgd lst perm (a, pa, s) = Ok (Inl (-1, s'))" "vm_ok c s' [] pgd"
      "vm_frame s xs pgd s' []" "pte (mem s') pgd = pte (mem s) pgd"
    then show ?thesis unfolding map_result_def by (subst loop_res_unfold) auto
  next
    fix s1 ys
    assume b: "mappages_body c pgd lst perm (a, pa, s) = Ok (if a = lst then Inl (0, s1) else Inr (a + PGSIZE, pa + PGSIZE, s1))"
      and ok1: "vm_ok c s1 ys pgd" and fr: "vm_frame s xs pgd s1 ys"
      and p1: "pte (mem s1) pgd = (\<lambda>v. if PGROUNDDOWN v = PGROUNDDOWN a then pa OR perm OR PTE_P else pte (mem s) pgd v)"
    have np1: "\<not> present (pte (mem s1) pgd va)" if "va \<in> span (a + 4096) (4096 * Suc n)" for va
    proof -
      have "va \<notin> page a"
      proof
        assume "va \<in> page a"
        then have "unat (va - (a + 4096)) = unat (va - a) + 2 ^ 32 - 4096"
          using unat_diff_uint[of "va - a" 4096] by (simp add: page_def span_def diff_diff_eq)
        then show False using that Suc.prems(3) by (simp add: span_def)
      qed
      then show ?thesis using Suc.prems(5)[OF sub[OF that]] page_iff[OF Suc.prems(2)] a by (simp add: p1)
    qed
    have "map_result c pgd (a + 4096) (Suc n) (pa + 4096) perm s1 ys
            (loop_res (mappages_body c pgd lst perm) (a + 4096, pa + 4096, s1))"
      by (rule Suc.IH[OF ok1 page_aligned_add[OF Suc.prems(2)]])
         (use Suc.prems(3,4) np1 in \<open>simp_all add: algebra_simps\<close>)
    then obtain r s' xs' where s': "loop_res (mappages_body c pgd lst perm) (a + 4096, pa + 4096, s1) = Ok (r, s')"
      "vm_ok c s' xs' pgd" "vm_frame s1 ys pgd s' xs'"
      and alt: "(r = 0 \<and> pte (mem s') pgd = mapped (a + 4096) (Suc n) (pa + 4096) perm (pte (mem s1) pgd)) \<or>
         (r = -1 \<and> xs' = [] \<and> (\<forall>va. va \<notin> span (a + 4096) (4096 * Suc n) \<longrightarrow> pte (mem s') pgd va = pte (mem s1) pgd va))"
      unfolding map_result_def by blast
    have m: "mapped (a + 4096) (Suc n) (pa + 4096) perm (pte (mem s1) pgd) = mapped a (Suc (Suc n)) pa perm (pte (mem s) pgd)"
      unfolding p1 using mapped_Suc[OF Suc.prems(2,3)] by (simp add: fun_eq_iff)
    have out: "pte (mem s') pgd va = pte (mem s) pgd va"
      if "\<forall>va. va \<notin> span (a + 4096) (4096 * Suc n) \<longrightarrow> pte (mem s') pgd va = pte (mem s1) pgd va"
        "va \<notin> span a (4096 * Suc (Suc n))" for va
    proof -
      have "va \<notin> span (a + 4096) (4096 * Suc n)" "va \<notin> page a"
        using sub that(2) span_add[of 4096 "4096 * Suc n" va a] Suc.prems(3) by (auto simp: page_def)
      then show ?thesis using that(1) page_iff[OF Suc.prems(2)] a by (simp add: p1)
    qed
    have "loop_res (mappages_body c pgd lst perm) (a, pa, s) = Ok (r, s')"
      using b ne s'(1) by (subst loop_res_unfold) (simp add: PGSIZE_def)
    moreover have "(r = 0 \<and> pte (mem s') pgd = mapped a (Suc (Suc n)) pa perm (pte (mem s) pgd)) \<or>
       (r = -1 \<and> xs' = [] \<and> (\<forall>va. va \<notin> span a (4096 * Suc (Suc n)) \<longrightarrow> pte (mem s') pgd va = pte (mem s) pgd va))"
      using alt m out by auto
    ultimately show ?thesis unfolding map_result_def
      using s'(2) vm_frame_trans[OF fr s'(3)] by blast
  qed
qed

lemma mappages_ok:
  assumes ok: "vm_ok c s xs pgd" and va: "page_aligned va" and n: "0 < n" "4096 * n \<le> 2 ^ 32" "len = of_nat (4096 * n)"
    and np: "\<And>a. a \<in> span va (4096 * n) \<Longrightarrow> \<not> present (pte (mem s) pgd a)"
  shows "map_result c pgd va n pa perm s xs (mappages c pgd va len pa perm s)"
proof -
  obtain k where k: "n = Suc k" using n(1) by (cases n) auto
  have "PGROUNDDOWN (va + len - 1) = va + of_nat (4096 * k)"
  proof -
    have e: "va + len - 1 = (va + of_nat (4096 * k)) + 4095" using n(3) k by (simp add: algebra_simps)
    have al: "page_aligned (va + of_nat (4096 * k))" using va by (rule page_aligned_mult)
    have "(va + of_nat (4096 * k)) + 4095 \<in> page (va + of_nat (4096 * k))" by (simp add: page_def span_def)
    then show ?thesis unfolding e using page_iff[OF al] by simp
  qed
  then show ?thesis unfolding mappages_def using mappages_loop[OF ok va _ refl, of k pa perm] n np
    by (simp add: k PGROUNDDOWN_id[OF va])
qed

end
