(* ===== verification/Bio.thy ===== *)
theory Bio
  imports Vm_Thms
begin

unbundle bit_operations_syntax

text \<open>
  Sleep locks (\<open>sleeplock.c\<close>), the IDE driver (\<open>ide.c\<close>) and the buffer cache (\<open>bio.c\<close>).
  The buffers are numbered \<open>0..NBUF-1\<close>; \<open>bcache.head\<close> is number \<open>NBUF\<close>.  The disk is a
  function from drive and sector to 512 bytes; it keeps the sequence of the sector
  writes it has received.  A process that has to wait for a sleep lock does not return
  (\<open>Hang\<close>) in this sequential model; a process that waits for the disk is resumed by the
  interrupt of its request, which \<open>iderw\<close> runs in place of \<open>sleep\<close>.
\<close>

section \<open>sleeplock.h, buf.h\<close>

record sleeplock =
  sl_locked :: uint
  sl_lk :: spinlock
  sl_name :: string
  sl_pid :: uint

record buf =
  b_flags :: uint
  b_dev :: uint
  b_blockno :: uint
  b_lock :: sleeplock
  b_refcnt :: uint
  b_prev :: nat
  b_next :: nat
  b_qnext :: ptr
  b_data :: "byte list"

definition B_VALID :: uint where "B_VALID = 2"
definition B_DIRTY :: uint where "B_DIRTY = 4"
definition BSIZE :: nat where "BSIZE = 512"

text \<open>
  \<open>ide_req\<close> is the read the drive is working on (drive and sector); \<open>ide_err\<close> the error
  bit of its status register.
\<close>

record bio_st = pt_st +
  bcache_lock :: spinlock
  buf :: "nat \<Rightarrow> buf"
  idelock :: spinlock
  idequeue :: ptr
  havedisk1 :: bool
  ide_req :: "(nat \<times> nat) option"
  ide_err :: bool
  disk :: "nat \<Rightarrow> nat \<Rightarrow> byte list"
  disk_writes :: "(nat \<times> nat \<times> byte list) list"
  ioapic :: "uint \<Rightarrow> uint"

definition bupd :: "nat \<Rightarrow> (buf \<Rightarrow> buf) \<Rightarrow> 'a bio_st_scheme \<Rightarrow> 'a bio_st_scheme" where
  "bupd b f s = s\<lparr>buf := (buf s)(b := f (buf s b))\<rparr>"

section \<open>ioapic.c\<close>

text \<open>The registers of the I/O APIC are a function of the register index.\<close>

definition REG_ID :: uint where "REG_ID = 0x00"
definition REG_VER :: uint where "REG_VER = 0x01"
definition REG_TABLE :: uint where "REG_TABLE = 0x10"
definition INT_DISABLED :: uint where "INT_DISABLED = 0x00010000"
definition T_IRQ0 :: uint where "T_IRQ0 = 32"
definition IRQ_TIMER :: uint where "IRQ_TIMER = 0"
definition IRQ_KBD :: uint where "IRQ_KBD = 1"
definition IRQ_COM1 :: uint where "IRQ_COM1 = 4"
definition IRQ_IDE :: uint where "IRQ_IDE = 14"
definition IRQ_ERROR :: uint where "IRQ_ERROR = 19"
definition IRQ_SPURIOUS :: uint where "IRQ_SPURIOUS = 31"

definition ioapicread :: "uint \<Rightarrow> (uint \<Rightarrow> uint) \<Rightarrow> uint" where
  "ioapicread reg io = io reg"

definition ioapicwrite :: "uint \<Rightarrow> uint \<Rightarrow> (uint \<Rightarrow> uint) \<Rightarrow> uint \<Rightarrow> uint" where
  "ioapicwrite reg d io = io(reg := d)"

definition ioapicinit :: "(uint \<Rightarrow> uint) \<Rightarrow> uint \<Rightarrow> uint" where
  "ioapicinit io =
     fold (\<lambda>i io. ioapicwrite (REG_TABLE + 2 * of_nat i + 1) 0
                  (ioapicwrite (REG_TABLE + 2 * of_nat i) (INT_DISABLED OR (T_IRQ0 + of_nat i)) io))
       [0..<unat (drop_bit 16 (ioapicread REG_VER io) AND 0xFF) + 1] io"

definition ioapicenable :: "uint \<Rightarrow> uint \<Rightarrow> 'a bio_st_scheme \<Rightarrow> 'a bio_st_scheme" where
  "ioapicenable irq cpunum s =
     s\<lparr>ioapic := ioapicwrite (REG_TABLE + 2 * irq + 1) (push_bit 24 cpunum)
                  (ioapicwrite (REG_TABLE + 2 * irq) (T_IRQ0 + irq) (ioapic s))\<rparr>"

section \<open>sleeplock.c\<close>

definition initsleeplock :: "string \<Rightarrow> sleeplock" where
  "initsleeplock name = \<lparr>sl_locked = 0, sl_lk = initlock ''sleep lock'', sl_name = name, sl_pid = 0\<rparr>"

text \<open>The sleep lock is reached through a reader and a writer of the state.\<close>

definition acquiresleep ::
  "nat \<Rightarrow> ('a pt_st_scheme \<Rightarrow> sleeplock) \<Rightarrow> (sleeplock \<Rightarrow> 'a pt_st_scheme \<Rightarrow> 'a pt_st_scheme) \<Rightarrow>
   'a pt_st_scheme \<Rightarrow> 'a pt_st_scheme res" where
  "acquiresleep c get put s =
     rbind (acquire c (cpus s) (sl_lk (get s))) (\<lambda>(cs, l).
     let s1 = put ((get s)\<lparr>sl_lk := l\<rparr>) (s\<lparr>cpus := cs\<rparr>)
     in if sl_locked (get s1) \<noteq> 0 then Hang
        else rbind (myproc c s1) (\<lambda>(po, s2). deref po (\<lambda>p.
          let s3 = put ((get s2)\<lparr>sl_locked := 1, sl_pid := pid (proc s2 p)\<rparr>) s2
          in rbind (release c (cpus s3) (sl_lk (get s3))) (\<lambda>(cs', l').
             Ok (put ((get s3)\<lparr>sl_lk := l'\<rparr>) (s3\<lparr>cpus := cs'\<rparr>))))))"

definition releasesleep ::
  "nat \<Rightarrow> chan \<Rightarrow> ('a pt_st_scheme \<Rightarrow> sleeplock) \<Rightarrow> (sleeplock \<Rightarrow> 'a pt_st_scheme \<Rightarrow> 'a pt_st_scheme) \<Rightarrow>
   'a pt_st_scheme \<Rightarrow> 'a pt_st_scheme res" where
  "releasesleep c ch get put s =
     rbind (acquire c (cpus s) (sl_lk (get s))) (\<lambda>(cs, l).
     let s1 = put ((get s)\<lparr>sl_lk := l, sl_locked := 0, sl_pid := 0\<rparr>) (s\<lparr>cpus := cs\<rparr>)
     in rbind (wakeup c ch s1) (\<lambda>s2.
        rbind (release c (cpus s2) (sl_lk (get s2))) (\<lambda>(cs', l').
        Ok (put ((get s2)\<lparr>sl_lk := l'\<rparr>) (s2\<lparr>cpus := cs'\<rparr>)))))"

definition holdingsleep ::
  "nat \<Rightarrow> ('a pt_st_scheme \<Rightarrow> sleeplock) \<Rightarrow> (sleeplock \<Rightarrow> 'a pt_st_scheme \<Rightarrow> 'a pt_st_scheme) \<Rightarrow>
   'a pt_st_scheme \<Rightarrow> (bool \<times> 'a pt_st_scheme) res" where
  "holdingsleep c get put s =
     rbind (acquire c (cpus s) (sl_lk (get s))) (\<lambda>(cs, l).
     let s1 = put ((get s)\<lparr>sl_lk := l\<rparr>) (s\<lparr>cpus := cs\<rparr>); r = (sl_locked (get s1) \<noteq> 0)
     in rbind (release c (cpus s1) (sl_lk (get s1))) (\<lambda>(cs', l').
        Ok (r, put ((get s1)\<lparr>sl_lk := l'\<rparr>) (s1\<lparr>cpus := cs'\<rparr>))))"

definition get_block :: "nat \<Rightarrow> 'a bio_st_scheme \<Rightarrow> sleeplock" where
  "get_block b s = b_lock (buf s b)"

definition put_block :: "nat \<Rightarrow> sleeplock \<Rightarrow> 'a bio_st_scheme \<Rightarrow> 'a bio_st_scheme" where
  "put_block b l s = bupd b (\<lambda>x. x\<lparr>b_lock := l\<rparr>) s"

section \<open>ide.c\<close>

text \<open>The task-file registers \<open>0x1f3\<close> to \<open>0x1f6\<close> as \<open>idestart\<close> loads them, and how the drive reads them.\<close>

definition ide_regs :: "uint \<Rightarrow> uint \<Rightarrow> uint \<times> uint \<times> uint \<times> uint" where
  "ide_regs dv sector =
     (sector AND 0xff, drop_bit 8 sector AND 0xff, drop_bit 16 sector AND 0xff,
      0xe0 OR push_bit 4 (dv AND 1) OR (drop_bit 24 sector AND 0x0f))"

definition ide_decode :: "uint \<times> uint \<times> uint \<times> uint \<Rightarrow> nat \<times> nat" where
  "ide_decode = (\<lambda>(r3, r4, r5, r6).
     (unat (drop_bit 4 r6 AND 1),
      unat (r3 OR push_bit 8 r4 OR push_bit 16 r5 OR push_bit 24 (r6 AND 0x0f))))"

definition idewait :: "bool \<Rightarrow> 'a bio_st_scheme \<Rightarrow> int" where
  "idewait checkerr s = (if checkerr \<and> ide_err s then -1 else 0)"

text \<open>\<open>ncpu\<close> is the number of CPUs found at boot, \<open>disk1\<close> whether the second drive answers.\<close>

definition ideinit :: "uint \<Rightarrow> bool \<Rightarrow> 'a bio_st_scheme \<Rightarrow> 'a bio_st_scheme" where
  "ideinit ncpu disk1 s =
     (let s1 = ioapicenable IRQ_IDE (ncpu - 1) (s\<lparr>idelock := initlock ''ide''\<rparr>)
      in if disk1 then s1\<lparr>havedisk1 := True\<rparr> else s1)"

definition idestart :: "ptr \<Rightarrow> 'a bio_st_scheme \<Rightarrow> 'a bio_st_scheme res" where
  "idestart bo s =
     (case bo of
        None \<Rightarrow> Panic ''idestart''
      | Some b \<Rightarrow>
          if b_blockno (buf s b) \<ge> FSSIZE then Panic ''incorrect blockno''
          else let (drive, sector) = ide_decode (ide_regs (b_dev (buf s b)) (b_blockno (buf s b)))
               in if b_flags (buf s b) AND B_DIRTY \<noteq> 0
                  then Ok (s\<lparr>disk := (disk s)(drive := (disk s drive)(sector := b_data (buf s b))),
                             disk_writes := disk_writes s @ [(drive, sector, b_data (buf s b))],
                             ide_req := None\<rparr>)
                  else Ok (s\<lparr>ide_req := Some (drive, sector)\<rparr>))"

definition ide_acquire :: "nat \<Rightarrow> 'a bio_st_scheme \<Rightarrow> 'a bio_st_scheme res" where
  "ide_acquire c s = rbind (acquire c (cpus s) (idelock s)) (\<lambda>(cs, l). Ok (s\<lparr>cpus := cs, idelock := l\<rparr>))"

definition ide_release :: "nat \<Rightarrow> 'a bio_st_scheme \<Rightarrow> 'a bio_st_scheme res" where
  "ide_release c s = rbind (release c (cpus s) (idelock s)) (\<lambda>(cs, l). Ok (s\<lparr>cpus := cs, idelock := l\<rparr>))"

text \<open>\<open>insl\<close>: the data of the sector the drive was asked to read.\<close>

definition ide_input :: "'a bio_st_scheme \<Rightarrow> byte list" where
  "ide_input s = (case ide_req s of None \<Rightarrow> replicate BSIZE 0 | Some (drive, sector) \<Rightarrow> disk s drive sector)"

text \<open>The end of the active request: dequeue it, read the data, update the flags.\<close>

definition ide_complete :: "nat \<Rightarrow> 'a bio_st_scheme \<Rightarrow> 'a bio_st_scheme" where
  "ide_complete b s =
     (let s2 = s\<lparr>idequeue := b_qnext (buf s b)\<rparr>;
          s3 = (if b_flags (buf s2 b) AND B_DIRTY = 0 \<and> idewait True s2 \<ge> 0
                then bupd b (\<lambda>x. x\<lparr>b_data := ide_input s2\<rparr>) s2 else s2)
      in bupd b (\<lambda>x. x\<lparr>b_flags := (b_flags x OR B_VALID) AND NOT B_DIRTY\<rparr>) s3)"

definition ideintr :: "nat \<Rightarrow> 'a bio_st_scheme \<Rightarrow> 'a bio_st_scheme res" where
  "ideintr c s =
     rbind (ide_acquire c s) (\<lambda>s1.
       case idequeue s1 of
         None \<Rightarrow> ide_release c s1
       | Some b \<Rightarrow>
           rbind (wakeup c (Ch_buf b) (ide_complete b s1)) (\<lambda>s5.
           rbind (if idequeue s5 \<noteq> None then idestart (idequeue s5) s5 else Ok s5) (ide_release c)))"

text \<open>\<open>for(pp=&idequeue; *pp; pp=&(*pp)->qnext); *pp = b;\<close>: find the last buffer of the queue.\<close>

definition ide_append :: "nat \<Rightarrow> 'a bio_st_scheme \<Rightarrow> 'a bio_st_scheme res" where
  "ide_append b s =
     (case idequeue s of
        None \<Rightarrow> Ok (s\<lparr>idequeue := Some b\<rparr>)
      | Some q \<Rightarrow>
          rbind (walk (\<lambda>i (_ :: unit). if b_qnext (buf s i) = None then Ok (Some i, None, ())
                               else Ok (None, b_qnext (buf s i), ())) (Some q) ()) (\<lambda>(r, _).
            case r of None \<Rightarrow> Fault | Some i \<Rightarrow> Ok (bupd i (\<lambda>x. x\<lparr>b_qnext := Some b\<rparr>) s)))"

definition ide_done :: "nat \<Rightarrow> 'a bio_st_scheme \<Rightarrow> bool" where
  "ide_done b s \<longleftrightarrow> b_flags (buf s b) AND (B_VALID OR B_DIRTY) = B_VALID"

text \<open>The wait: \<open>idelock\<close> is released, the interrupt of the active request runs, \<open>idelock\<close> is taken again.\<close>

definition ide_wait :: "nat \<Rightarrow> nat \<Rightarrow> 'a bio_st_scheme \<Rightarrow> 'a bio_st_scheme res" where
  "ide_wait c b s =
     while_res (\<lambda>s. \<not> ide_done b s)
       (\<lambda>s. rbind (ide_release c s) (\<lambda>s1. rbind (ideintr c s1) (ide_acquire c))) s"

definition iderw :: "nat \<Rightarrow> nat \<Rightarrow> 'a bio_st_scheme \<Rightarrow> 'a bio_st_scheme res" where
  "iderw c b s =
     rbind (holdingsleep c (get_block b) (put_block b) s) (\<lambda>(h, s0).
       if \<not> h then Panic ''iderw: buf not locked''
       else if ide_done b s0 then Panic ''iderw: nothing to do''
       else if b_dev (buf s0 b) \<noteq> 0 \<and> \<not> havedisk1 s0 then Panic ''iderw: ide disk 1 not present''
       else rbind (ide_acquire c s0) (\<lambda>s1.
            rbind (ide_append b (bupd b (\<lambda>x. x\<lparr>b_qnext := None\<rparr>) s1)) (\<lambda>s2.
            rbind (if idequeue s2 = Some b then idestart (Some b) s2 else Ok s2) (\<lambda>s3.
            rbind (ide_wait c b s3) (ide_release c)))))"

section \<open>bio.c\<close>

definition bcache_acquire :: "nat \<Rightarrow> 'a bio_st_scheme \<Rightarrow> 'a bio_st_scheme res" where
  "bcache_acquire c s = rbind (acquire c (cpus s) (bcache_lock s)) (\<lambda>(cs, l). Ok (s\<lparr>cpus := cs, bcache_lock := l\<rparr>))"

definition bcache_release :: "nat \<Rightarrow> 'a bio_st_scheme \<Rightarrow> 'a bio_st_scheme res" where
  "bcache_release c s = rbind (release c (cpus s) (bcache_lock s)) (\<lambda>(cs, l). Ok (s\<lparr>cpus := cs, bcache_lock := l\<rparr>))"

definition binit :: "'a bio_st_scheme \<Rightarrow> 'a bio_st_scheme" where
  "binit s =
     (let s1 = s\<lparr>bcache_lock := initlock ''bcache''\<rparr>;
          s2 = bupd NBUF (\<lambda>x. x\<lparr>b_prev := NBUF, b_next := NBUF\<rparr>) s1
      in fold (\<lambda>b s.
           let s = bupd b (\<lambda>x. x\<lparr>b_next := b_next (buf s NBUF), b_prev := NBUF,
                                b_lock := initsleeplock ''buffer''\<rparr>) s;
               s = bupd (b_next (buf s NBUF)) (\<lambda>x. x\<lparr>b_prev := b\<rparr>) s
           in bupd NBUF (\<lambda>x. x\<lparr>b_next := b\<rparr>) s) [0..<NBUF] s2)"

text \<open>The walks of the LRU list end at \<open>bcache.head\<close>.\<close>

definition bptr :: "nat \<Rightarrow> ptr" where
  "bptr b = (if b = NBUF then None else Some b)"

definition bfind :: "uint \<Rightarrow> uint \<Rightarrow> 'a bio_st_scheme \<Rightarrow> (nat option \<times> unit) res" where
  "bfind dv bno s =
     walk (\<lambda>b u. if b_dev (buf s b) = dv \<and> b_blockno (buf s b) = bno then Ok (Some b, None, u)
                 else Ok (None, bptr (b_next (buf s b)), u)) (bptr (b_next (buf s NBUF))) ()"

definition bunused :: "'a bio_st_scheme \<Rightarrow> (nat option \<times> unit) res" where
  "bunused s =
     walk (\<lambda>b u. if b_refcnt (buf s b) = 0 \<and> b_flags (buf s b) AND B_DIRTY = 0 then Ok (Some b, None, u)
                 else Ok (None, bptr (b_prev (buf s b)), u)) (bptr (b_prev (buf s NBUF))) ()"

definition bget :: "nat \<Rightarrow> uint \<Rightarrow> uint \<Rightarrow> 'a bio_st_scheme \<Rightarrow> (nat \<times> 'a bio_st_scheme) res" where
  "bget c dv bno s =
     rbind (bcache_acquire c s) (\<lambda>s1.
     rbind (bfind dv bno s1) (\<lambda>(r, _).
       case r of
         Some b \<Rightarrow>
           rbind (bcache_release c (bupd b (\<lambda>x. x\<lparr>b_refcnt := b_refcnt x + 1\<rparr>) s1)) (\<lambda>s2.
           rbind (acquiresleep c (get_block b) (put_block b) s2) (\<lambda>s3. Ok (b, s3)))
       | None \<Rightarrow>
           rbind (bunused s1) (\<lambda>(r', _).
             case r' of
               Some b \<Rightarrow>
                 rbind (bcache_release c (bupd b (\<lambda>x. x\<lparr>b_dev := dv, b_blockno := bno, b_flags := 0, b_refcnt := 1\<rparr>) s1)) (\<lambda>s2.
                 rbind (acquiresleep c (get_block b) (put_block b) s2) (\<lambda>s3. Ok (b, s3)))
             | None \<Rightarrow> Panic ''bget: no buffers'')))"

definition bread :: "nat \<Rightarrow> uint \<Rightarrow> uint \<Rightarrow> 'a bio_st_scheme \<Rightarrow> (nat \<times> 'a bio_st_scheme) res" where
  "bread c dv bno s =
     rbind (bget c dv bno s) (\<lambda>(b, s1).
       if b_flags (buf s1 b) AND B_VALID = 0 then rbind (iderw c b s1) (\<lambda>s2. Ok (b, s2)) else Ok (b, s1))"

definition bwrite :: "nat \<Rightarrow> nat \<Rightarrow> 'a bio_st_scheme \<Rightarrow> 'a bio_st_scheme res" where
  "bwrite c b s =
     rbind (holdingsleep c (get_block b) (put_block b) s) (\<lambda>(h, s1).
       if \<not> h then Panic ''bwrite''
       else iderw c b (bupd b (\<lambda>x. x\<lparr>b_flags := b_flags x OR B_DIRTY\<rparr>) s1))"

text \<open>Unlink \<open>b\<close> and put it behind \<open>bcache.head\<close>.\<close>

definition bmru :: "nat \<Rightarrow> 'a bio_st_scheme \<Rightarrow> 'a bio_st_scheme" where
  "bmru b s =
     (let s = bupd (b_next (buf s b)) (\<lambda>x. x\<lparr>b_prev := b_prev (buf s b)\<rparr>) s;
          s = bupd (b_prev (buf s b)) (\<lambda>x. x\<lparr>b_next := b_next (buf s b)\<rparr>) s;
          s = bupd b (\<lambda>x. x\<lparr>b_next := b_next (buf s NBUF), b_prev := NBUF\<rparr>) s;
          s = bupd (b_next (buf s NBUF)) (\<lambda>x. x\<lparr>b_prev := b\<rparr>) s
      in bupd NBUF (\<lambda>x. x\<lparr>b_next := b\<rparr>) s)"

definition brelse :: "nat \<Rightarrow> nat \<Rightarrow> 'a bio_st_scheme \<Rightarrow> 'a bio_st_scheme res" where
  "brelse c b s =
     rbind (holdingsleep c (get_block b) (put_block b) s) (\<lambda>(h, s1).
       if \<not> h then Panic ''brelse''
       else rbind (releasesleep c (Ch_buf_lock b) (get_block b) (put_block b) s1) (\<lambda>s2.
            rbind (bcache_acquire c s2) (\<lambda>s3.
            let s4 = bupd b (\<lambda>x. x\<lparr>b_refcnt := b_refcnt x - 1\<rparr>) s3;
                s5 = (if b_refcnt (buf s4 b) = 0 then bmru b s4 else s4)
            in bcache_release c s5)))"

end
