(* ===== verification/Bio_Thms.thy ===== *)
theory Bio_Thms
  imports Bio
begin

unbundle bit_operations_syntax

text \<open>
  The buffer cache as its clients see it.  The operations of this layer take and
  release several locks and wake up processes; \<open>bview\<close> erases the process table, and
  each lemma says what an operation does to the rest of the state, exactly.
\<close>

section \<open>The rest of the state\<close>

definition zero_proc :: proc where
  "zero_proc = \<lparr>sz = 0, pgdir = 0, kstack = 0, state = UNUSED, pid = 0, parent = None, tf = 0, ctxt = 0,
     chan = Ch_null, killed = False, ofile = (\<lambda>_. None), cwd = None, pname = [], start_ticks = 0, uid = 0,
     gid = 0, cpu_ticks_total = 0, cpu_ticks_in = 0, nxt = None, priority = 0, budget = 0\<rparr>"

definition bview :: "'a pt_st_scheme \<Rightarrow> 'a pt_st_scheme" where
  "bview s = s\<lparr>proc := (\<lambda>_. zero_proc), plist := (\<lambda>_. \<lparr>head = None, tail = None\<rparr>),
               ready := (\<lambda>_. \<lparr>head = None, tail = None\<rparr>)\<rparr>"

lemma bview_core: "core s' = core s \<Longrightarrow> bview s' = bview s"
proof -
  have "bview s = bview (core s)" for s :: "'a pt_st_scheme" by (simp add: bview_def core_def)
  then show "core s' = core s \<Longrightarrow> ?thesis" by metis
qed

lemma bview_procs_upd [simp]: "bview (procs_upd P f s) = bview s"
  by (simp add: bview_def procs_upd_def)

lemma bview_of_core: "bview (core s) = bview s"
  by (simp add: bview_def core_def)

text \<open>
  What a file-system operation may assume of its CPU: interrupts are in a settled
  state, a process runs on it, whose pid is \<open>u\<close>, and the process table is sound.
\<close>

definition calm :: "nat \<Rightarrow> uint \<Rightarrow> 'a pt_st_scheme \<Rightarrow> bool" where
  "calm c u s \<longleftrightarrow>
     ready_cpu c s \<and> saved (cpus s c) = cpus s c \<and> (\<exists>Q. ptinv s Q) \<and>
     (\<exists>p. cproc (cpus s c) = Some p \<and> pid (proc s p) = u)"

lemma calm_cong:
  assumes "calm c u s" "cpus s' = cpus s" "ptable_lock s' = ptable_lock s" "proc s' = proc s"
    "plist s' = plist s" "ready s' = ready s"
  shows "calm c u s'"
  using assms ptinv_cong[of s' s] by (auto simp: calm_def ready_cpu_def)

text \<open>Acquiring and releasing a free lock leaves everything as it was.\<close>

lemma acquire_calm:
  assumes "calm c u s" "free_lock l"
  shows "acquire c (cpus s) l = Ok (pushcli c (cpus s), l\<lparr>locked := 1, lk_cpu := Some c\<rparr>)"
  using assms by (simp add: calm_def ready_cpu_def acquire_free)

lemma release_calm:
  assumes "calm c u s" "free_lock l"
  shows "release c (pushcli c (cpus s)) (l\<lparr>locked := 1, lk_cpu := Some c\<rparr>) = Ok (cpus s, l)"
  using assms by (simp add: calm_def ready_cpu_def release_held fun_upd_idem)

text \<open>A lock is held around this point of the operation.\<close>

definition inlock :: "nat \<Rightarrow> 'a pt_st_scheme \<Rightarrow> 'a pt_st_scheme" where
  "inlock c s = s\<lparr>cpus := pushcli c (cpus s)\<rparr>"

lemma calm_inlock: "calm c u s \<Longrightarrow> calm c u (inlock c s)"
  using ptinv_cong[of "inlock c s" s]
  by (auto simp: calm_def inlock_def ready_cpu_def saved_pushcli cproc_pushcli)

lemma wakeup_calm:
  assumes "calm c u s"
  shows "\<exists>s'. wakeup c ch s = Ok s' \<and> calm c u s' \<and> bview s' = bview s \<and>
     s' = s\<lparr>proc := proc s', plist := plist s', ready := ready s'\<rparr>"
proof -
  obtain Q p where Q: "ready_cpu c s" "saved (cpus s c) = cpus s c" "ptinv s Q" "cproc (cpus s c) = Some p" "pid (proc s p) = u"
    using assms by (auto simp: calm_def)
  have after: "after_lock c s = s" using Q(2) by (simp add: after_lock_def fun_upd_idem)
  obtain s' Q' where s': "wakeup c ch s = Ok s'" "ready_cpu c s'" "ptinv s' Q'" "core s' = wakeup1_scan ch (core s)"
    using wakeup_ok[OF Q(1,3), of ch] after by auto
  have core: "core s' = procs_upd (\<lambda>p. p < NPROC) (wake_proc ch) (core s)" using s'(4) by (simp add: wakeup1_scan_eq)
  have cp: "cpus s' = cpus s" using arg_cong[OF core, of cpus] by simp
  have "pid (proc s' p) = u" using arg_cong[OF core, of "\<lambda>s. pid (proc s p)"] Q(5) by (simp add: wake_proc_def)
  then have "calm c u s'" using s'(2,3) Q(2,4) cp by (auto simp: calm_def)
  moreover have bv: "bview s' = bview s" using arg_cong[OF core, of bview] by (simp add: bview_of_core)
  moreover have "s' = s\<lparr>proc := proc s', plist := plist s', ready := ready s'\<rparr>"
  proof -
    have "bview s'\<lparr>proc := proc s', plist := plist s', ready := ready s'\<rparr> =
          bview s\<lparr>proc := proc s', plist := plist s', ready := ready s'\<rparr>" by (simp only: bv)
    then show ?thesis by (simp add: bview_def)
  qed
  ultimately show ?thesis using s'(1) by blast
qed

lemma myproc_calm:
  assumes "calm c u s"
  shows "\<exists>p. myproc c s = Ok (Some p, s) \<and> pid (proc s p) = u"
  using assms by (auto simp: calm_def ready_cpu_def myproc_eq fun_upd_idem)

section \<open>Sleep locks\<close>

text \<open>A place in the state that holds a sleep lock, apart from CPUs and process table.\<close>

locale sleeplock_at =
  fixes get :: "'a pt_st_scheme \<Rightarrow> sleeplock"
    and put :: "sleeplock \<Rightarrow> 'a pt_st_scheme \<Rightarrow> 'a pt_st_scheme"
  assumes get_put: "get (put l s) = l"
    and put_put: "put l (put k s) = put l s"
    and put_get: "put (get s) s = s"
    and get_cpus: "get (s\<lparr>cpus := a\<rparr>) = get s"
    and get_procs: "get (s\<lparr>proc := pr, plist := pl, ready := rd\<rparr>) = get s"
    and put_cpus: "put l (s\<lparr>cpus := a\<rparr>) = (put l s)\<lparr>cpus := a\<rparr>"
    and put_procs: "put l (s\<lparr>proc := pr, plist := pl, ready := rd\<rparr>) = (put l s)\<lparr>proc := pr, plist := pl, ready := rd\<rparr>"
    and frame: "cpus (put l s) = cpus s" "proc (put l s) = proc s" "plist (put l s) = plist s"
      "ready (put l s) = ready s" "ptable_lock (put l s) = ptable_lock s"
begin

lemmas lens = get_put put_put put_get get_cpus put_cpus frame

lemma calm_put: "calm c u s \<Longrightarrow> calm c u (put l s)"
  by (rule calm_cong) (simp_all add: frame)

lemma holdingsleep_eq:
  assumes "calm c u s" "free_lock (sl_lk (get s))"
  shows "holdingsleep c get put s = Ok (sl_locked (get s) \<noteq> 0, s)"
proof -
  have "(get s)\<lparr>sl_lk := sl_lk (get s)\<rparr> = get s" by simp
  then show ?thesis
    by (simp add: holdingsleep_def acquire_calm[OF assms] release_calm[OF assms] lens)
qed

lemma acquiresleep_busy:
  assumes "calm c u s" "free_lock (sl_lk (get s))" "sl_locked (get s) \<noteq> 0"
  shows "acquiresleep c get put s = Hang"
  using assms by (simp add: acquiresleep_def acquire_calm lens)

lemma acquiresleep_eq:
  assumes cm: "calm c u s" and fr: "free_lock (sl_lk (get s))" and un: "sl_locked (get s) = 0"
  shows "acquiresleep c get put s = Ok (put ((get s)\<lparr>sl_locked := 1, sl_pid := u\<rparr>) s)"
proof -
  let ?l = "(sl_lk (get s))\<lparr>locked := 1, lk_cpu := Some c\<rparr>"
  let ?s1 = "put ((get s)\<lparr>sl_lk := ?l\<rparr>) (s\<lparr>cpus := pushcli c (cpus s)\<rparr>)"
  have "calm c u ?s1" using calm_inlock[OF cm] by (intro calm_put) (simp add: inlock_def)
  then obtain p where p: "myproc c ?s1 = Ok (Some p, ?s1)" "pid (proc ?s1 p) = u" using myproc_calm by blast
  have "(get s)\<lparr>sl_lk := sl_lk (get s), sl_locked := 1, sl_pid := u\<rparr> = (get s)\<lparr>sl_locked := 1, sl_pid := u\<rparr>" by simp
  then show ?thesis using p un
    by (simp add: acquiresleep_def acquire_calm[OF cm fr] release_calm[OF cm fr] lens)
qed

lemma releasesleep_eq:
  assumes cm: "calm c u s" and fr: "free_lock (sl_lk (get s))"
  shows "\<exists>s'. releasesleep c ch get put s = Ok s' \<and> calm c u s' \<and>
           bview s' = bview (put ((get s)\<lparr>sl_locked := 0, sl_pid := 0\<rparr>) s)"
proof -
  let ?l = "(sl_lk (get s))\<lparr>locked := 1, lk_cpu := Some c\<rparr>"
  let ?g = "(get s)\<lparr>sl_lk := ?l, sl_locked := 0, sl_pid := 0\<rparr>"
  let ?s1 = "put ?g (s\<lparr>cpus := pushcli c (cpus s)\<rparr>)"
  have "calm c u ?s1" using calm_inlock[OF cm] by (intro calm_put) (simp add: inlock_def)
  from wakeup_calm[OF this, of ch] obtain s2 where s2: "wakeup c ch ?s1 = Ok s2" "calm c u s2" "bview s2 = bview ?s1"
    and e: "s2 = ?s1\<lparr>proc := proc s2, plist := plist s2, ready := ready s2\<rparr>" by blast
  have g: "get s2 = ?g" using arg_cong[OF e, of get] by (simp add: get_procs get_put)
  have cp: "cpus s2 = pushcli c (cpus s)" using arg_cong[OF e, of cpus] by (simp add: lens)
  let ?k = "(get s)\<lparr>sl_locked := 0, sl_pid := 0\<rparr>"
  let ?s3 = "put ?k (s2\<lparr>cpus := cpus s\<rparr>)"
  have "releasesleep c ch get put s = Ok ?s3"
    using s2(1) by (simp add: releasesleep_def acquire_calm[OF cm fr] release_calm[OF cm fr] cp g)
  moreover have "?s3 = (put ?k s)\<lparr>proc := proc s2, plist := plist s2, ready := ready s2\<rparr>"
  proof -
    have "s2\<lparr>cpus := cpus s\<rparr> = (put ?g s)\<lparr>cpus := cpus s, proc := proc s2, plist := plist s2, ready := ready s2\<rparr>"
      by (subst e) (simp add: put_cpus)
    also have "\<dots> = (put ?g s)\<lparr>proc := proc s2, plist := plist s2, ready := ready s2\<rparr>"
      by (intro pt_st.equality) (simp_all add: frame)
    finally show ?thesis by (simp add: put_procs put_put)
  qed
  moreover have "calm c u ((put ?k s)\<lparr>proc := proc s2, plist := plist s2, ready := ready s2\<rparr>)"
  proof -
    let ?t = "(put ?k s)\<lparr>proc := proc s2, plist := plist s2, ready := ready s2\<rparr>"
    have "ptinv ?t Q = ptinv s2 Q" for Q by (rule ptinv_cong) simp_all
    moreover have "cproc (cpus s c) = cproc (cpus s2 c)" by (simp add: cp cproc_pushcli)
    ultimately show ?thesis using cm s2(2) by (auto simp: calm_def frame ready_cpu_def)
  qed
  ultimately show ?thesis by (simp add: bview_def)
qed

end

interpretation bl: sleeplock_at "get_block b" "put_block b"
  by unfold_locales (simp_all add: get_block_def put_block_def bupd_def fun_upd_idem)

end
