(* ===== verification/Bio_Cache.thy ===== *)
theory Bio_Cache
  imports Bio_Thms
begin

unbundle bit_operations_syntax

text \<open>
  The disk driver and the buffer cache: a request on an idle drive transfers the
  block, \<open>bread\<close> returns the cached or the stored contents, and the operations keep the
  cache coherent with the disk.
\<close>

section \<open>The disk driver\<close>

lemma ide_decode_regs:
  assumes "unat sector < 2 ^ 28"
  shows "ide_decode (ide_regs dv sector) = (unat (dv AND 1), unat sector)"
proof -
  have hi: "\<not> bit sector n" if "28 \<le> n" for n
  proof -
    have "take_bit 28 sector = sector"
      using assms by (simp add: word_unat_eq_iff take_bit_eq_mod unat_mod)
    then have "bit sector n = bit (take_bit 28 sector) n" by simp
    then show ?thesis using that by (simp add: bit_take_bit_iff)
  qed
  define k :: uint where "k = 0xe0"
  let ?r6 = "k OR push_bit 4 (dv AND 1) OR (drop_bit 24 sector AND 0x0f)"
  have e0: "bit k n \<longleftrightarrow> n = 5 \<or> n = 6 \<or> n = 7" for n
  proof -
    have e: "k = push_bit 5 (mask 3)" by (simp add: k_def mask_eq_exp_minus_1 push_bit_eq_mult)
    show ?thesis unfolding e bit_push_bit_iff bit_mask_iff by auto
  qed
  have f: "(0x0f :: uint) = mask 4" and ff: "(0xff :: uint) = mask 8" and one: "(1 :: uint) = mask 1"
    by (simp_all add: mask_eq_exp_minus_1)
  have "drop_bit 4 ?r6 AND 1 = dv AND 1"
    unfolding f one by (rule bit_word_eqI) (auto simp: bit_simps e0)
  moreover have "(sector AND 0xff) OR push_bit 8 (drop_bit 8 sector AND 0xff) OR
      push_bit 16 (drop_bit 16 sector AND 0xff) OR push_bit 24 (?r6 AND 0x0f) = sector"
    unfolding f ff one
  proof (rule bit_word_eqI)
    fix n assume "n < LENGTH(32)"
    consider "n < 8" | "8 \<le> n" "n < 16" | "16 \<le> n" "n < 24" | "24 \<le> n" "n < 28" | "28 \<le> n" by linarith
    then show "bit ((sector AND mask 8) OR push_bit 8 (drop_bit 8 sector AND mask 8) OR
        push_bit 16 (drop_bit 16 sector AND mask 8) OR
        push_bit 24 ((k OR push_bit 4 (dv AND mask 1) OR (drop_bit 24 sector AND mask 4)) AND mask 4)) n = bit sector n"
      using hi[of n] by cases (simp_all add: bit_simps e0, linarith+)
  qed
  ultimately show ?thesis by (simp add: ide_decode_def ide_regs_def k_def)
qed

subsection \<open>Locks around a step of the driver\<close>

definition heldby :: "nat \<Rightarrow> spinlock \<Rightarrow> spinlock" where
  "heldby c l = l\<lparr>locked := 1, lk_cpu := Some c\<rparr>"

lemma ide_acquire_calm:
  assumes "calm c u s" "free_lock (idelock s)"
  shows "ide_acquire c s = Ok (s\<lparr>cpus := pushcli c (cpus s), idelock := heldby c (idelock s)\<rparr>)"
  by (simp add: ide_acquire_def acquire_calm[OF assms] heldby_def)

lemma ide_release_calm:
  assumes "calm c u s" "free_lock l" "cpus t = pushcli c (cpus s)" "idelock t = heldby c l"
  shows "ide_release c t = Ok (t\<lparr>cpus := cpus s, idelock := l\<rparr>)"
  using assms release_calm[of c u s l] by (simp add: ide_release_def heldby_def)

lemma bview_bio [simp]:
  fixes s :: "'a bio_st_scheme"
  shows "buf (bview s) = buf s" "disk (bview s) = disk s" "disk_writes (bview s) = disk_writes s"
    "ide_req (bview s) = ide_req s" "idequeue (bview s) = idequeue s" "idelock (bview s) = idelock s"
    "bcache_lock (bview s) = bcache_lock s" "havedisk1 (bview s) = havedisk1 s" "ide_err (bview s) = ide_err s"
    "bio_st.more (bview s) = bio_st.more s" "cpus (bview s) = cpus s"
  by (simp_all add: bview_def)

lemma bview_upd [simp]:
  fixes s :: "'a bio_st_scheme"
  shows "bview (s\<lparr>cpus := a\<rparr>) = (bview s)\<lparr>cpus := a\<rparr>" "bview (s\<lparr>buf := b\<rparr>) = (bview s)\<lparr>buf := b\<rparr>"
    "bview (s\<lparr>disk := d\<rparr>) = (bview s)\<lparr>disk := d\<rparr>" "bview (s\<lparr>disk_writes := w\<rparr>) = (bview s)\<lparr>disk_writes := w\<rparr>"
    "bview (s\<lparr>ide_req := r\<rparr>) = (bview s)\<lparr>ide_req := r\<rparr>" "bview (s\<lparr>idequeue := q\<rparr>) = (bview s)\<lparr>idequeue := q\<rparr>"
    "bview (s\<lparr>idelock := l\<rparr>) = (bview s)\<lparr>idelock := l\<rparr>" "bview (s\<lparr>bcache_lock := l\<rparr>) = (bview s)\<lparr>bcache_lock := l\<rparr>"
    "bview (bupd i f s) = bupd i f (bview s)"
  by (simp_all add: bview_def bupd_def)

lemma calm_unlock:
  assumes "calm c u s" "calm c u t" "cpus t = pushcli c (cpus s)"
  shows "calm c u (t\<lparr>cpus := cpus s\<rparr>)"
  using assms by (auto simp: calm_def ready_cpu_def cproc_pushcli)

lemma calm_bio [simp]:
  fixes s :: "'a bio_st_scheme"
  shows "calm c u (s\<lparr>buf := b\<rparr>) = calm c u s" "calm c u (s\<lparr>disk := d\<rparr>) = calm c u s"
    "calm c u (s\<lparr>disk_writes := w\<rparr>) = calm c u s" "calm c u (s\<lparr>ide_req := r\<rparr>) = calm c u s"
    "calm c u (s\<lparr>idequeue := q\<rparr>) = calm c u s" "calm c u (s\<lparr>idelock := l\<rparr>) = calm c u s"
    "calm c u (s\<lparr>bcache_lock := l\<rparr>) = calm c u s" "calm c u (bupd i f s) = calm c u s"
  by (rule iffI; erule calm_cong; simp add: bupd_def)+

lemma bview_eqD:
  fixes s t :: "'a bio_st_scheme"
  assumes "bview s = bview t"
  shows "buf s = buf t" "disk s = disk t" "disk_writes s = disk_writes t" "ide_req s = ide_req t"
    "idequeue s = idequeue t" "idelock s = idelock t" "bcache_lock s = bcache_lock t"
    "havedisk1 s = havedisk1 t" "ide_err s = ide_err t" "bio_st.more s = bio_st.more t" "cpus s = cpus t"
  using arg_cong[OF assms, of buf] arg_cong[OF assms, of disk] arg_cong[OF assms, of disk_writes]
    arg_cong[OF assms, of ide_req] arg_cong[OF assms, of idequeue] arg_cong[OF assms, of idelock]
    arg_cong[OF assms, of bcache_lock] arg_cong[OF assms, of havedisk1] arg_cong[OF assms, of ide_err]
    arg_cong[OF assms, of bio_st.more] arg_cong[OF assms, of cpus]
  by simp_all

text \<open>The process table is all that \<open>bview\<close> forgets.\<close>

lemma bview_restore:
  fixes s t :: "'a pt_st_scheme"
  assumes "bview s = bview t"
  shows "s = t\<lparr>proc := proc s, plist := plist s, ready := ready s\<rparr>"
proof -
  have "bview s\<lparr>proc := proc s, plist := plist s, ready := ready s\<rparr> =
        bview t\<lparr>proc := proc s, plist := plist s, ready := ready s\<rparr>" by (simp only: assms)
  then show ?thesis by (simp add: bview_def)
qed

subsection \<open>Interrupts and requests\<close>

text \<open>The interrupt that ends the only request of the queue.\<close>

definition ide_finish :: "nat \<Rightarrow> 'a bio_st_scheme \<Rightarrow> 'a bio_st_scheme" where
  "ide_finish b s =
     bupd b (\<lambda>x. x\<lparr>b_data := (if b_flags x AND B_DIRTY = 0 then ide_input s else b_data x),
                   b_flags := (b_flags x OR B_VALID) AND NOT B_DIRTY\<rparr>) (s\<lparr>idequeue := None\<rparr>)"

lemma ide_input_cong [simp]:
  "ide_input (s\<lparr>cpus := a\<rparr>) = ide_input s" "ide_input (s\<lparr>idelock := l\<rparr>) = ide_input s"
  "ide_input (s\<lparr>idequeue := q\<rparr>) = ide_input s"
  by (simp_all add: ide_input_def split: option.splits)

lemma ide_complete_single:
  assumes "b_qnext (buf s b) = None" "\<not> ide_err s"
  shows "ide_complete b (s\<lparr>cpus := a, idelock := l\<rparr>) = (ide_finish b s)\<lparr>cpus := a, idelock := l\<rparr>"
  using assms by (simp add: ide_complete_def ide_finish_def Let_def bupd_def idewait_def)

lemma ideintr_single:
  fixes s :: "'a bio_st_scheme"
  assumes cm: "calm c u s" and fr: "free_lock (idelock s)" and q: "idequeue s = Some b"
    and n: "b_qnext (buf s b) = None" and e: "\<not> ide_err s"
  shows "\<exists>s'. ideintr c s = Ok s' \<and> calm c u s' \<and> bview s' = bview (ide_finish b s)"
proof -
  let ?il = "\<lambda>s :: 'a bio_st_scheme. s\<lparr>cpus := pushcli c (cpus s), idelock := heldby c (idelock s)\<rparr>"
  let ?t = "?il (ide_finish b s)"
  have cm1: "calm c u ?t"
    using calm_inlock[OF cm] by (rule calm_cong) (simp_all add: inlock_def ide_finish_def bupd_def)
  from wakeup_calm[OF this, of "Ch_buf b"] obtain s5 where
    s5: "wakeup c (Ch_buf b) ?t = Ok s5" "calm c u s5" "bview s5 = bview ?t" by blast
  note v = bview_eqD[OF s5(3)]
  have "ideintr c s = ide_release c s5"
  proof -
    have "ideintr c s = rbind (wakeup c (Ch_buf b) ((ide_finish b s)\<lparr>cpus := pushcli c (cpus s), idelock := heldby c (idelock s)\<rparr>))
        (\<lambda>s5. rbind (if idequeue s5 \<noteq> None then idestart (idequeue s5) s5 else Ok s5) (ide_release c))"
      using q n e
      by (simp add: ideintr_def ide_acquire_calm[OF cm fr] ide_complete_single)

    moreover have "idequeue s5 = None" using v(5) by (simp add: ide_finish_def bupd_def)
    moreover have "?t = (ide_finish b s)\<lparr>cpus := pushcli c (cpus s), idelock := heldby c (idelock s)\<rparr>"
      by (simp add: ide_finish_def bupd_def)
    ultimately show ?thesis using s5(1) by simp
  qed
  also have "\<dots> = Ok (s5\<lparr>cpus := cpus s, idelock := idelock s\<rparr>)"
    using v(6,11) by (intro ide_release_calm[OF cm fr]) (simp_all add: ide_finish_def bupd_def)
  finally have run: "ideintr c s = Ok (s5\<lparr>cpus := cpus s, idelock := idelock s\<rparr>)" .
  have "bview (s5\<lparr>cpus := cpus s, idelock := idelock s\<rparr>) = bview (ide_finish b s)"
    by (simp add: s5(3) ide_finish_def bupd_def)
  moreover have "calm c u (s5\<lparr>cpus := cpus s, idelock := idelock s\<rparr>)"
    using calm_unlock[OF cm s5(2)] v(11) by (simp add: ide_finish_def bupd_def)
  ultimately show ?thesis using run by blast
qed

text \<open>What the drive does with the request for \<open>b\<close>.\<close>

definition ide_sent :: "nat \<Rightarrow> 'a bio_st_scheme \<Rightarrow> 'a bio_st_scheme" where
  "ide_sent b s =
     (let drive = unat (b_dev (buf s b) AND 1); sector = unat (b_blockno (buf s b))
      in if b_flags (buf s b) AND B_DIRTY \<noteq> 0
         then s\<lparr>disk := (disk s)(drive := (disk s drive)(sector := b_data (buf s b))),
                disk_writes := disk_writes s @ [(drive, sector, b_data (buf s b))], ide_req := None\<rparr>
         else s\<lparr>ide_req := Some (drive, sector)\<rparr>)"

lemma idestart_ok:
  assumes "b_blockno (buf s b) < FSSIZE"
  shows "idestart (Some b) s = Ok (ide_sent b s)"
proof -
  have "unat (b_blockno (buf s b)) < 2 ^ 28"
    using assms by (simp add: FSSIZE_def word_less_nat_alt)
  then show ?thesis using assms
    by (simp add: idestart_def ide_sent_def ide_decode_regs Let_def not_le)
qed

lemma bit_B_VALID: "bit B_VALID n \<longleftrightarrow> n = 1"
proof -
  have e: "B_VALID = push_bit 1 1" by (simp add: B_VALID_def)
  show ?thesis unfolding e bit_push_bit_iff bit_1_iff by auto
qed

lemma bit_B_DIRTY: "bit B_DIRTY n \<longleftrightarrow> n = 2"
proof -
  have e: "B_DIRTY = push_bit 2 1" by (simp add: B_DIRTY_def push_bit_eq_mult)
  show ?thesis unfolding e bit_push_bit_iff bit_1_iff by auto
qed

lemma flags_done: "((f OR B_VALID) AND NOT B_DIRTY) AND (B_VALID OR B_DIRTY) = B_VALID"
  by (rule bit_word_eqI) (auto simp: bit_and_iff bit_or_iff bit_not_iff bit_B_VALID bit_B_DIRTY)

definition ide_idle :: "nat \<Rightarrow> uint \<Rightarrow> 'a bio_st_scheme \<Rightarrow> bool" where
  "ide_idle c u s \<longleftrightarrow> calm c u s \<and> free_lock (idelock s) \<and> idequeue s = None \<and> \<not> ide_err s"

text \<open>A request on an idle drive.\<close>

lemma iderw_ok:
  fixes s :: "'a bio_st_scheme"
  assumes id: "ide_idle c u s" and fr: "free_lock (sl_lk (b_lock (buf s b)))" and lo: "sl_locked (b_lock (buf s b)) \<noteq> 0"
    and nd: "\<not> ide_done b s" and dv: "b_dev (buf s b) = 0 \<or> havedisk1 s" and bn: "b_blockno (buf s b) < FSSIZE"
  shows "\<exists>s'. iderw c b s = Ok s' \<and> calm c u s' \<and>
     bview s' = bview (ide_finish b (ide_sent b (bupd b (\<lambda>x. x\<lparr>b_qnext := None\<rparr>) s)))"
proof -
  have cm: "calm c u s" and il: "free_lock (idelock s)" and iq: "idequeue s = None" and ie: "\<not> ide_err s"
    using id by (auto simp: ide_idle_def)
  let ?q = "bupd b (\<lambda>x. x\<lparr>b_qnext := None\<rparr>) s"
  let ?s1 = "(ide_sent b ?q)\<lparr>idequeue := Some b\<rparr>"
  let ?s3 = "?s1\<lparr>cpus := pushcli c (cpus s), idelock := heldby c (idelock s)\<rparr>"
  have "holdingsleep c (get_block b) (put_block b) s = Ok (True, s)"
    using bl.holdingsleep_eq[OF cm, of b] fr lo by (simp add: get_block_def)
  moreover have "idestart (Some b) (s\<lparr>cpus := pushcli c (cpus s), idelock := heldby c (idelock s),
      buf := (buf s)(b := (buf s b)\<lparr>b_qnext := None\<rparr>), idequeue := Some b\<rparr>) = Ok ?s3"
    using bn by (subst idestart_ok) (simp_all add: bupd_def ide_sent_def Let_def)
  ultimately have run: "iderw c b s = rbind (ide_wait c b ?s3) (ide_release c)"
    using nd dv iq by (auto simp: iderw_def ide_acquire_calm[OF cm il] ide_append_def bupd_def)
  have f1: "cpus ?s1 = cpus s" "idelock ?s1 = idelock s" "\<not> ide_err ?s1" "b_qnext (buf ?s1 b) = None"
    using ie by (simp_all add: ide_sent_def bupd_def Let_def)
  have cm1: "calm c u ?s1" using cm by (simp add: ide_sent_def Let_def)
  have "ide_release c ?s3 = Ok (?s3\<lparr>cpus := cpus s, idelock := idelock s\<rparr>)"
    by (rule ide_release_calm[OF cm il]) simp_all
  also have "?s3\<lparr>cpus := cpus s, idelock := idelock s\<rparr> = ?s1" by (simp add: f1(1,2)[symmetric])
  finally have rel: "ide_release c ?s3 = Ok ?s1" .
  obtain s4 where s4: "ideintr c ?s1 = Ok s4" "calm c u s4" "bview s4 = bview (ide_finish b ?s1)"
    using ideintr_single[OF cm1, of b] il f1 by auto
  note v = bview_eqD[OF s4(3)]
  have l4: "cpus s4 = cpus s" "idelock s4 = idelock s"
    using v(6,11) by (simp_all add: ide_finish_def ide_sent_def bupd_def Let_def)
  let ?s5 = "s4\<lparr>cpus := pushcli c (cpus s), idelock := heldby c (idelock s)\<rparr>"
  have "ide_done b ?s5" using v(1) by (simp add: ide_done_def ide_finish_def bupd_def flags_done)
  moreover have "\<not> ide_done b ?s3" using nd by (simp add: ide_done_def ide_sent_def bupd_def Let_def)
  ultimately have "ide_wait c b ?s3 = Ok ?s5"
    using rel s4(1) ide_acquire_calm[OF s4(2)] l4 il
    by (simp add: ide_wait_def while_res_unfold[of _ _ ?s3] while_res_unfold[of _ _ ?s5])
  then have "iderw c b s = ide_release c ?s5" using run by simp
  also have "\<dots> = Ok (?s5\<lparr>cpus := cpus s4, idelock := idelock s4\<rparr>)"
    by (rule ide_release_calm[OF s4(2)]) (simp_all add: l4 il)
  also have "?s5\<lparr>cpus := cpus s4, idelock := idelock s4\<rparr> = s4" by simp
  finally have "iderw c b s = Ok s4" .
  moreover have "ide_finish b ?s1 = ide_finish b (ide_sent b ?q)"
    by (simp add: ide_finish_def bupd_def)
  ultimately show ?thesis using s4(2,3) by auto
qed

end
