(* ===== verification/Bio_Spec.thy ===== *)
theory Bio_Spec
  imports Bio_Cache
begin

unbundle bit_operations_syntax

text \<open>
  What the buffer cache promises.  The LRU list of \<open>bcache\<close> is a circular doubly linked
  list of all buffers; the searches of \<open>bget\<close> are searches in that list, and \<open>brelse\<close>
  moves the buffer to its front.  The abstract cache has the contents of the disk, the
  contents the file system sees, the pinned blocks and the blocks held with their
  buffers; \<open>bread\<close>, \<open>bwrite\<close> and \<open>brelse\<close> refine its operations (locale \<open>block_cache\<close>).
\<close>

section \<open>Doubly linked lists\<close>

fun dl :: "(nat \<Rightarrow> nat) \<Rightarrow> (nat \<Rightarrow> nat) \<Rightarrow> nat \<Rightarrow> nat list \<Rightarrow> nat \<Rightarrow> bool" where
  "dl nx pv x [] y \<longleftrightarrow> nx x = y \<and> pv y = x"
| "dl nx pv x (a # L) y \<longleftrightarrow> nx x = a \<and> pv a = x \<and> dl nx pv a L y"

lemma dl_append: "dl nx pv x (A @ b # B) y \<longleftrightarrow> dl nx pv x A b \<and> dl nx pv b B y"
  by (induction A arbitrary: x) auto

lemma dl_frame:
  assumes "dl nx pv x L y" "\<And>i. i \<in> insert x (set L) \<Longrightarrow> nx' i = nx i" "\<And>i. i \<in> insert y (set L) \<Longrightarrow> pv' i = pv i"
  shows "dl nx' pv' x L y"
  using assms by (induction L arbitrary: x) auto

lemma dl_nx: "dl nx pv x L y \<Longrightarrow> nx x = hd (L @ [y])"
  by (cases L) auto

lemma dl_pv: "dl nx pv x L y \<Longrightarrow> pv y = last (x # L)"
  by (induction L arbitrary: x) auto

lemma dl_end:
  assumes "dl nx pv x A b" "distinct (x # A)" "y \<notin> set A"
  shows "dl (nx(last (x # A) := y)) (pv(y := last (x # A))) x A y"
  using assms
proof (induction A arbitrary: x)
  case Nil
  then show ?case by simp
next
  case (Cons a A)
  have "x \<noteq> last (a # A)" using Cons.prems(2) by (metis distinct.simps(2) last_in_set list.distinct(1))
  then show ?case using Cons by auto
qed

text \<open>\<open>b->next->prev = b->prev; b->prev->next = b->next\<close>\<close>

lemma dl_unlink:
  assumes d: "dl nx pv x (A @ b # B) x" and di: "distinct (x # A @ b # B)"
  shows "dl (nx(pv b := nx b)) (pv(nx b := pv b)) x (A @ B) x"
proof -
  from d have dA: "dl nx pv x A b" and dB: "dl nx pv b B x" by (simp_all add: dl_append)
  have p: "pv b = last (x # A)" using dl_pv[OF dA] .
  show ?thesis
  proof (cases B)
    case Nil
    then have "nx b = x" using dB by simp
    moreover have "dl (nx(last (x # A) := x)) (pv(x := last (x # A))) x A x"
      using di by (intro dl_end[OF dA]) auto
    ultimately show ?thesis using Nil by (simp only: p append_Nil2)
  next
    case (Cons q B')
    then have q: "nx b = q" and dq: "dl nx pv q B' x" using dB by auto
    have lA: "last (x # A) \<in> insert x (set A)" by simp
    have "dl (nx(pv b := q)) (pv(q := pv b)) x A q"
      unfolding p using di Cons by (intro dl_end[OF dA]) auto
    moreover have "dl (nx(pv b := q)) (pv(q := pv b)) q B' x"
      using dq by (rule dl_frame) (use lA p di Cons in auto)
    ultimately show ?thesis using q Cons by (simp add: dl_append)
  qed
qed

text \<open>Insertion behind the head.\<close>

lemma dl_push:
  assumes d: "dl nx pv x L x" and di: "distinct (x # b # L)"
  shows "dl (nx(b := nx x, x := b)) (pv(b := x, nx x := b)) x (b # L) x"
proof (cases L)
  case Nil
  then show ?thesis using d di by auto
next
  case (Cons q L')
  then have q: "nx x = q" and dq: "dl nx pv q L' x" using d by auto
  have "dl (nx(b := q, x := b)) (pv(b := x, q := b)) q L' x"
    using dq by (rule dl_frame) (use di Cons in auto)
  then show ?thesis using q Cons di by auto
qed

section \<open>The LRU list\<close>

definition nexts_b :: "'a bio_st_scheme \<Rightarrow> nat \<Rightarrow> nat" where "nexts_b s b = b_next (buf s b)"
definition prevs_b :: "'a bio_st_scheme \<Rightarrow> nat \<Rightarrow> nat" where "prevs_b s b = b_prev (buf s b)"

definition lru :: "'a bio_st_scheme \<Rightarrow> nat list \<Rightarrow> bool" where
  "lru s L \<longleftrightarrow> dl (nexts_b s) (prevs_b s) NBUF L NBUF \<and> distinct L \<and> set L = {..<NBUF}"

lemma lru_cong:
  assumes "nexts_b s' = nexts_b s" "prevs_b s' = prevs_b s"
  shows "lru s' L = lru s L"
  using assms by (simp add: lru_def)

text \<open>A buffer without its links.\<close>

definition bcore :: "buf \<Rightarrow> buf" where "bcore x = x\<lparr>b_prev := 0, b_next := 0, b_qnext := None\<rparr>"
definition bcores :: "'a bio_st_scheme \<Rightarrow> nat \<Rightarrow> buf" where "bcores s b = bcore (buf s b)"

lemma bcore_sel [simp]:
  "b_flags (bcore x) = b_flags x" "b_dev (bcore x) = b_dev x" "b_blockno (bcore x) = b_blockno x"
  "b_lock (bcore x) = b_lock x" "b_refcnt (bcore x) = b_refcnt x" "b_data (bcore x) = b_data x"
  by (simp_all add: bcore_def)

lemma walk_forward:
  assumes "dl nx pv x L NBUF" "set L \<subseteq> {..<NBUF}"
  shows "walk (\<lambda>b u. if P b then Ok (Some b, None, u) else Ok (None, bptr (nx b), u)) (bptr (nx x)) u = Ok (find P L, u)"
  using assms
proof (induction L arbitrary: x)
  case Nil
  then show ?case by (simp add: bptr_def)
next
  case (Cons a L)
  then have "bptr (nx x) = Some a" by (auto simp: bptr_def)
  then show ?case using Cons by (auto simp: walk_Some)
qed

lemma walk_backward:
  assumes "dl nx pv NBUF L y" "set L \<subseteq> {..<NBUF}"
  shows "walk (\<lambda>b u. if P b then Ok (Some b, None, u) else Ok (None, bptr (pv b), u)) (bptr (pv y)) u = Ok (find P (rev L), u)"
  using assms
proof (induction L arbitrary: y rule: rev_induct)
  case Nil
  then show ?case by (simp add: bptr_def)
next
  case (snoc a L)
  then have "pv y = a" "dl nx pv NBUF L a" by (simp_all add: dl_append)
  then have "bptr (pv y) = Some a" using snoc.prems by (auto simp: bptr_def)
  then show ?case using snoc.IH[of a] snoc.prems \<open>dl nx pv NBUF L a\<close> \<open>pv y = a\<close> by (auto simp: walk_Some)
qed

lemma bfind_eq:
  assumes "lru s L"
  shows "bfind dv bno s = Ok (find (\<lambda>b. b_dev (buf s b) = dv \<and> b_blockno (buf s b) = bno) L, ())"
  using walk_forward[of "\<lambda>b. b_next (buf s b)" "prevs_b s" NBUF L "\<lambda>b. b_dev (buf s b) = dv \<and> b_blockno (buf s b) = bno" "()"] assms
  by (simp add: bfind_def lru_def nexts_b_def[abs_def])

lemma bunused_eq:
  assumes "lru s L"
  shows "bunused s = Ok (find (\<lambda>b. b_refcnt (buf s b) = 0 \<and> b_flags (buf s b) AND B_DIRTY = 0) (rev L), ())"
  using walk_backward[of "nexts_b s" "\<lambda>b. b_prev (buf s b)" L NBUF "\<lambda>b. b_refcnt (buf s b) = 0 \<and> b_flags (buf s b) AND B_DIRTY = 0" "()"] assms
  by (simp add: bunused_def lru_def prevs_b_def[abs_def])

lemma links_bupd:
  "nexts_b (bupd i (\<lambda>x. x\<lparr>b_next := v\<rparr>) s) = (nexts_b s)(i := v)" "prevs_b (bupd i (\<lambda>x. x\<lparr>b_next := v\<rparr>) s) = prevs_b s"
  "nexts_b (bupd i (\<lambda>x. x\<lparr>b_prev := v\<rparr>) s) = nexts_b s" "prevs_b (bupd i (\<lambda>x. x\<lparr>b_prev := v\<rparr>) s) = (prevs_b s)(i := v)"
  "nexts_b (bupd i (\<lambda>x. x\<lparr>b_next := v, b_prev := w\<rparr>) s) = (nexts_b s)(i := v)"
  "prevs_b (bupd i (\<lambda>x. x\<lparr>b_next := v, b_prev := w\<rparr>) s) = (prevs_b s)(i := w)"
  by (auto simp: nexts_b_def prevs_b_def bupd_def)

lemma bcores_links [simp]:
  "bcores (bupd i (\<lambda>x. x\<lparr>b_next := v\<rparr>) s) = bcores s" "bcores (bupd i (\<lambda>x. x\<lparr>b_prev := v\<rparr>) s) = bcores s"
  "bcores (bupd i (\<lambda>x. x\<lparr>b_next := v, b_prev := w\<rparr>) s) = bcores s"
  by (auto simp: bcores_def bcore_def bupd_def)

definition only_buf :: "'a bio_st_scheme \<Rightarrow> 'a bio_st_scheme \<Rightarrow> bool" where
  "only_buf s t \<longleftrightarrow> (\<exists>B. t = s\<lparr>buf := B\<rparr>)"

lemma only_buf_refl: "only_buf s s"
  unfolding only_buf_def by (rule exI[of _ "buf s"]) simp

lemma only_buf_bupd: "only_buf s t \<Longrightarrow> only_buf s (bupd i f t)"
  by (auto simp: only_buf_def bupd_def)

text \<open>\<open>brelse\<close> moves the buffer to the front and touches nothing else.\<close>

lemma bmru_eq:
  assumes "lru s L" "b < NBUF"
  shows "lru (bmru b s) (b # remove1 b L)" "bcores (bmru b s) = bcores s"
    "only_buf s (bmru b s)"
proof -
  obtain A B where L: "L = A @ b # B" using assms by (metis lessThan_iff lru_def split_list)
  have di: "distinct (NBUF # A @ b # B)" and d: "dl (nexts_b s) (prevs_b s) NBUF (A @ b # B) NBUF"
    using assms(1) L by (auto simp: lru_def)
  let ?nx = "(nexts_b s)(prevs_b s b := nexts_b s b)" and ?pv = "(prevs_b s)(nexts_b s b := prevs_b s b)"
  have nb: "nexts_b s b \<noteq> b" "prevs_b s b \<noteq> b"
  proof -
    have "nexts_b s b = hd (B @ [NBUF])" "prevs_b s b = last (NBUF # A)"
      using d dl_nx dl_pv by (fastforce simp: dl_append)+
    moreover have "hd (B @ [NBUF]) \<in> insert NBUF (set B)" "last (NBUF # A) \<in> insert NBUF (set A)"
      by (cases B) auto
    ultimately show "nexts_b s b \<noteq> b" "prevs_b s b \<noteq> b" using di by auto
  qed
  have "dl ?nx ?pv NBUF (A @ B) NBUF" using dl_unlink[OF d di] .
  then have "dl (?nx(b := ?nx NBUF, NBUF := b)) (?pv(b := NBUF, ?nx NBUF := b)) NBUF (b # A @ B) NBUF"
    using di by (intro dl_push) auto
  moreover have "nexts_b (bmru b s) = ?nx(b := ?nx NBUF, NBUF := b)" "prevs_b (bmru b s) = ?pv(b := NBUF, ?nx NBUF := b)"
    using nb assms(2) by (simp_all add: bmru_def Let_def links_bupd nexts_b_def[symmetric] prevs_b_def[symmetric])
  moreover have "remove1 b L = A @ B" using L di by (simp add: remove1_append)
  moreover have "set L = {..<NBUF}" using assms(1) by (simp add: lru_def)
  ultimately show "lru (bmru b s) (b # remove1 b L)" using di L by (auto simp: lru_def)
  show "bcores (bmru b s) = bcores s" unfolding bmru_def Let_def by (simp only: bcores_links)
  show "only_buf s (bmru b s)" unfolding bmru_def Let_def by (intro only_buf_bupd only_buf_refl)
qed

end
