(* ===== verification/Bio_Refine.thy ===== *)
theory Bio_Refine
  imports Bio_Spec
begin

unbundle bit_operations_syntax

text \<open>
  The abstract block cache and its refinement by \<open>bread\<close>, \<open>bwrite\<close> and \<open>brelse\<close>.
\<close>

section \<open>The abstract cache\<close>

text \<open>
  Contents of the disk and contents as the file system sees them, by block number; the
  pinned blocks (modified, not yet on disk); the blocks held, with their buffers; the
  sequence of disk writes.
\<close>

record acache =
  ac_disk :: "uint \<Rightarrow> byte list"
  ac_view :: "uint \<Rightarrow> byte list"
  ac_pin :: "uint set"
  ac_held :: "uint \<Rightarrow> nat option"
  ac_writes :: "(nat \<times> nat \<times> byte list) list"

definition ac_read :: "uint \<Rightarrow> nat \<Rightarrow> acache \<Rightarrow> acache" where
  "ac_read n b A = A\<lparr>ac_held := (ac_held A)(n := Some b)\<rparr>"

definition ac_write :: "uint \<Rightarrow> acache \<Rightarrow> acache" where
  "ac_write n A = A\<lparr>ac_disk := (ac_disk A)(n := ac_view A n), ac_pin := ac_pin A - {n},
                     ac_writes := ac_writes A @ [(1, unat n, ac_view A n)]\<rparr>"

definition ac_release :: "uint \<Rightarrow> acache \<Rightarrow> acache" where
  "ac_release n A = A\<lparr>ac_held := (ac_held A)(n := None)\<rparr>"

definition ac_set :: "uint \<Rightarrow> byte list \<Rightarrow> acache \<Rightarrow> acache" where
  "ac_set n d A = A\<lparr>ac_view := (ac_view A)(n := d)\<rparr>"

definition ac_mark :: "uint \<Rightarrow> acache \<Rightarrow> acache" where
  "ac_mark n A = A\<lparr>ac_pin := insert n (ac_pin A)\<rparr>"

text \<open>The blocks that keep a buffer from being reused.\<close>

definition ac_busy :: "acache \<Rightarrow> uint set" where
  "ac_busy A = dom (ac_held A) \<union> ac_pin A"

section \<open>The invariant of the buffers\<close>

definition buf_ok :: "(nat \<Rightarrow> byte list) \<Rightarrow> buf \<Rightarrow> bool" where
  "buf_ok D x \<longleftrightarrow>
     free_lock (sl_lk (b_lock x)) \<and> length (b_data x) = BSIZE \<and>
     (if b_dev x = ROOTDEV
      then b_blockno x < FSSIZE \<and> (b_flags x = B_VALID \<or> b_flags x = B_VALID OR B_DIRTY) \<and>
           (b_refcnt x = 0 \<and> sl_locked (b_lock x) = 0 \<or> b_refcnt x = 1 \<and> sl_locked (b_lock x) = 1) \<and>
           (b_flags x = B_VALID \<and> sl_locked (b_lock x) = 0 \<longrightarrow> b_data x = D (unat (b_blockno x)))
      else b_dev x = 0 \<and> b_flags x = 0 \<and> b_refcnt x = 0 \<and> sl_locked (b_lock x) = 0)"

definition cache_ok :: "(nat \<Rightarrow> byte list) \<Rightarrow> (nat \<Rightarrow> buf) \<Rightarrow> bool" where
  "cache_ok D F \<longleftrightarrow>
     (\<forall>b < NBUF. buf_ok D (F b)) \<and>
     (\<forall>a < NBUF. \<forall>b < NBUF. b_dev (F a) = ROOTDEV \<longrightarrow> b_dev (F b) = ROOTDEV \<longrightarrow>
        b_blockno (F a) = b_blockno (F b) \<longrightarrow> a = b)"

definition caches :: "(nat \<Rightarrow> buf) \<Rightarrow> uint \<Rightarrow> nat \<Rightarrow> bool" where
  "caches F n b \<longleftrightarrow> b < NBUF \<and> b_dev (F b) = ROOTDEV \<and> b_blockno (F b) = n"

definition cached :: "(nat \<Rightarrow> buf) \<Rightarrow> uint \<Rightarrow> nat option" where
  "cached F n = find (\<lambda>b. b_dev (F b) = ROOTDEV \<and> b_blockno (F b) = n) [0..<NBUF]"

definition cabs :: "(nat \<Rightarrow> byte list) \<Rightarrow> (nat \<times> nat \<times> byte list) list \<Rightarrow> (nat \<Rightarrow> buf) \<Rightarrow> acache" where
  "cabs D W F =
     \<lparr>ac_disk = (\<lambda>n. D (unat n)),
      ac_view = (\<lambda>n. case cached F n of None \<Rightarrow> D (unat n) | Some b \<Rightarrow> b_data (F b)),
      ac_pin = {n. \<exists>b. cached F n = Some b \<and> b_flags (F b) = B_VALID OR B_DIRTY},
      ac_held = (\<lambda>n. case cached F n of None \<Rightarrow> None
                   | Some b \<Rightarrow> if sl_locked (b_lock (F b)) = 0 then None else Some b),
      ac_writes = W\<rparr>"

lemma ROOTDEV_neq_0 [simp]: "ROOTDEV \<noteq> 0" by (simp add: ROOTDEV_def)

lemma flags_neq [simp]:
  "B_VALID OR B_DIRTY \<noteq> B_VALID" "B_VALID \<noteq> B_VALID OR B_DIRTY" "B_VALID OR B_DIRTY \<noteq> 0" "B_VALID \<noteq> 0" "B_DIRTY \<noteq> 0"
  "B_VALID AND B_DIRTY = 0" "(B_VALID OR B_DIRTY) AND B_DIRTY \<noteq> 0" "B_VALID AND B_VALID \<noteq> 0"
  "(B_VALID OR B_DIRTY) AND B_VALID \<noteq> 0"
  by (simp_all add: B_VALID_def B_DIRTY_def)

lemma find_SomeD: "find P xs = Some x \<Longrightarrow> x \<in> set xs \<and> P x"
  by (induction xs) (auto split: if_splits)

lemma cached_Some:
  assumes "cache_ok D F"
  shows "cached F n = Some b \<longleftrightarrow> caches F n b"
proof -
  let ?P = "\<lambda>b. b_dev (F b) = ROOTDEV \<and> b_blockno (F b) = n"
  have fd: "a < NBUF \<and> ?P a" if "find ?P [0..<NBUF] = Some a" for a
    using find_SomeD[OF that] by auto
  have ex: "find ?P [0..<NBUF] = Some b" if "b < NBUF" "?P b"
  proof (cases "find ?P [0..<NBUF]")
    case None
    then show ?thesis using that by (auto simp: find_None_iff)
  next
    case (Some a)
    then show ?thesis using fd[OF Some] that assms by (auto simp: cache_ok_def)
  qed
  show ?thesis unfolding cached_def caches_def using fd ex by blast
qed

lemma cached_None: "cached F n = None \<longleftrightarrow> (\<forall>b. \<not> caches F n b)"
  by (auto simp: cached_def caches_def find_None_iff)

lemma caches_unique: "cache_ok D F \<Longrightarrow> caches F n a \<Longrightarrow> caches F n b \<Longrightarrow> a = b"
  by (auto simp: cache_ok_def caches_def)

text \<open>A buffer that changes but still caches the same block.\<close>

lemma cached_upd_same:
  assumes "caches F n b" "b_dev x = ROOTDEV" "b_blockno x = n"
  shows "cached (F(b := x)) = cached F"
proof
  fix m
  have "(\<lambda>i. b_dev ((F(b := x)) i) = ROOTDEV \<and> b_blockno ((F(b := x)) i) = m) =
        (\<lambda>i. b_dev (F i) = ROOTDEV \<and> b_blockno (F i) = m)"
    using assms by (auto simp: caches_def)
  then show "cached (F(b := x)) m = cached F m" by (simp add: cached_def)
qed

lemma cache_ok_upd_same:
  assumes "cache_ok D F" "caches F n b" "b_dev x = ROOTDEV" "b_blockno x = n" "buf_ok D x"
  shows "cache_ok D (F(b := x))"
  using assms by (auto simp: cache_ok_def caches_def)

lemma cached_neq:
  assumes "cache_ok D F" "caches F n b" "m \<noteq> n" "cached F m = Some a"
  shows "a \<noteq> b"
  using assms cached_Some[OF assms(1), of m a] by (auto simp: caches_def)

lemma cached_at: "cache_ok D F \<Longrightarrow> caches F n b \<Longrightarrow> cached F n = Some b"
  by (simp add: cached_Some)

lemma cabs_upd_same:
  assumes ok: "cache_ok D F" and c: "caches F n b" and x: "b_dev x = ROOTDEV" "b_blockno x = n"
  shows "cabs D W (F(b := x)) = (cabs D W F)
    \<lparr>ac_view := (ac_view (cabs D W F))(n := b_data x),
     ac_pin := (if b_flags x = B_VALID OR B_DIRTY then insert n (ac_pin (cabs D W F)) else ac_pin (cabs D W F) - {n}),
     ac_held := (ac_held (cabs D W F))(n := if sl_locked (b_lock x) = 0 then None else Some b)\<rparr>"
proof -
  note eq = cached_upd_same[OF c x] and at = cached_at[OF ok c] and ne = cached_neq[OF ok c]
  have "(case cached F m of None \<Rightarrow> D (unat m) | Some a \<Rightarrow> b_data ((F(b := x)) a)) =
      ((\<lambda>n. case cached F n of None \<Rightarrow> D (unat n) | Some b \<Rightarrow> b_data (F b))(n := b_data x)) m" for m
    using at ne[of m] by (cases "m = n") (auto split: option.splits)
  moreover have "{m. \<exists>a. cached F m = Some a \<and> b_flags ((F(b := x)) a) = B_VALID OR B_DIRTY} =
      (if b_flags x = B_VALID OR B_DIRTY then insert n {m. \<exists>a. cached F m = Some a \<and> b_flags (F a) = B_VALID OR B_DIRTY}
       else {m. \<exists>a. cached F m = Some a \<and> b_flags (F a) = B_VALID OR B_DIRTY} - {n})"
  proof -
    have "(\<exists>a. cached F m = Some a \<and> b_flags ((F(b := x)) a) = B_VALID OR B_DIRTY) \<longleftrightarrow>
        (if m = n then b_flags x = B_VALID OR B_DIRTY else \<exists>a. cached F m = Some a \<and> b_flags (F a) = B_VALID OR B_DIRTY)" for m
      using at ne[of m] by (cases "m = n") auto
    then show ?thesis by auto
  qed
  moreover have "(case cached F m of None \<Rightarrow> None | Some a \<Rightarrow> if sl_locked (b_lock ((F(b := x)) a)) = 0 then None else Some a) =
      ((\<lambda>n. case cached F n of None \<Rightarrow> None | Some b \<Rightarrow> if sl_locked (b_lock (F b)) = 0 then None else Some b)
        (n := if sl_locked (b_lock x) = 0 then None else Some b)) m" for m
    using at ne[of m] by (cases "m = n") (auto split: option.splits)
  ultimately show ?thesis unfolding cabs_def eq by auto
qed

text \<open>A buffer that is not in use is recycled for block \<open>n\<close>.\<close>

lemma recycle:
  assumes ok: "cache_ok D F" and no: "cached F n = None" and b: "b < NBUF" "b_refcnt (F b) = 0" "b_flags (F b) AND B_DIRTY = 0"
    and x: "b_dev x = ROOTDEV" "b_blockno x = n" "b_flags x = B_VALID" "b_data x = D (unat n)" "sl_locked (b_lock x) = 1"
      "buf_ok D x"
  shows "cache_ok D (F(b := x))" "cabs D W (F(b := x)) = ac_read n b (cabs D W F)"
proof -
  have fresh: "\<not> caches F n a" for a using no by (simp add: cached_None)
  then have nk: "\<not> (b_dev (F a) = ROOTDEV \<and> b_blockno (F a) = n)" if "a < NBUF" for a
    using that by (auto simp: caches_def)
  show ok': "cache_ok D (F(b := x))"
    unfolding cache_ok_def
  proof (intro conjI allI impI)
    fix a assume "a < NBUF"
    then show "buf_ok D ((F(b := x)) a)" using ok x by (simp add: cache_ok_def)
  next
    fix a d assume "a < NBUF" "d < NBUF" "b_dev ((F(b := x)) a) = ROOTDEV" "b_dev ((F(b := x)) d) = ROOTDEV"
      "b_blockno ((F(b := x)) a) = b_blockno ((F(b := x)) d)"
    then show "a = d" using x nk[of a] nk[of d] caches_unique[OF ok, of "b_blockno (F a)" a d]
      by (cases "a = b"; cases "d = b") (simp_all add: caches_def)
  qed
  have un: "sl_locked (b_lock (F b)) = 0" "b_flags (F b) \<noteq> B_VALID OR B_DIRTY"
    "b_dev (F b) = ROOTDEV \<Longrightarrow> b_data (F b) = D (unat (b_blockno (F b)))"
  proof -
    have "buf_ok D (F b)" using ok b(1) by (simp add: cache_ok_def)
    then show "sl_locked (b_lock (F b)) = 0" "b_flags (F b) \<noteq> B_VALID OR B_DIRTY"
      "b_dev (F b) = ROOTDEV \<Longrightarrow> b_data (F b) = D (unat (b_blockno (F b)))"
      using b by (auto simp: buf_ok_def split: if_splits)
  qed
  have at: "cached (F(b := x)) n = Some b"
    using b x ok' by (intro cached_at) (auto simp: caches_def)
  have oth: "cached (F(b := x)) m = (if cached F m = Some b then None else cached F m)" if m: "m \<noteq> n" for m
  proof (cases "cached F m")
    case None
    then have "\<not> caches (F(b := x)) m i" for i using m x by (cases "i = b") (auto simp: cached_None caches_def)
    then have "cached (F(b := x)) m = None" by (simp add: cached_None)
    then show ?thesis using None by simp
  next
    case (Some a)
    then have a: "caches F m a" using cached_Some[OF ok] by simp
    show ?thesis
    proof (cases "a = b")
      case True
      have "\<not> caches (F(b := x)) m i" for i
        using caches_unique[OF ok, of m i b] a True m x by (cases "i = b") (auto simp: caches_def)
      then have "cached (F(b := x)) m = None" by (simp add: cached_None)
      then show ?thesis using Some True by simp
    next
      case False
      then have "caches (F(b := x)) m a" using a by (simp add: caches_def)
      then show ?thesis using Some False cached_at[OF ok'] by simp
    qed
  qed
  have kb: "b_dev (F b) = ROOTDEV \<and> b_blockno (F b) = m" if "cached F m = Some b" for m
    using that cached_Some[OF ok, of m b] by (simp add: caches_def)
  have "(case cached (F(b := x)) m of None \<Rightarrow> D (unat m) | Some a \<Rightarrow> b_data ((F(b := x)) a)) =
      (case cached F m of None \<Rightarrow> D (unat m) | Some a \<Rightarrow> b_data (F a))" for m
    using at no oth[of m] x un kb[of m] by (cases "m = n") (auto split: option.splits)
  moreover have "(\<exists>a. cached (F(b := x)) m = Some a \<and> b_flags ((F(b := x)) a) = B_VALID OR B_DIRTY) \<longleftrightarrow>
      (\<exists>a. cached F m = Some a \<and> b_flags (F a) = B_VALID OR B_DIRTY)" for m
    using at no oth[of m] x un by (cases "m = n") auto
  moreover have "(case cached (F(b := x)) m of None \<Rightarrow> None | Some a \<Rightarrow> if sl_locked (b_lock ((F(b := x)) a)) = 0 then None else Some a) =
      ((\<lambda>n. case cached F n of None \<Rightarrow> None | Some b \<Rightarrow> if sl_locked (b_lock (F b)) = 0 then None else Some b)(n := Some b)) m" for m
    using at no oth[of m] x un by (cases "m = n") (auto split: option.splits)
  ultimately show "cabs D W (F(b := x)) = ac_read n b (cabs D W F)"
    unfolding cabs_def ac_read_def by (intro acache.equality) (simp_all add: fun_eq_iff del: fun_upd_apply)
qed

text \<open>Unless every buffer is busy there is one to recycle.\<close>

lemma unused_exists:
  assumes ok: "cache_ok D F" and few: "card (ac_busy (cabs D W F)) < NBUF"
  shows "\<exists>b < NBUF. b_refcnt (F b) = 0 \<and> b_flags (F b) AND B_DIRTY = 0"
proof (rule ccontr)
  assume "\<not> ?thesis"
  then have all: "b_refcnt (F b) \<noteq> 0 \<or> b_flags (F b) AND B_DIRTY \<noteq> 0" if "b < NBUF" for b using that by auto
  have root: "b_dev (F b) = ROOTDEV" if "b < NBUF" for b
  proof -
    have "buf_ok D (F b)" using ok that by (simp add: cache_ok_def)
    then show ?thesis using all[OF that] by (auto simp: buf_ok_def split: if_splits)
  qed
  have busy: "b_blockno (F b) \<in> ac_busy (cabs D W F)" if "b < NBUF" for b
  proof -
    have "cached F (b_blockno (F b)) = Some b" using that root by (intro cached_at[OF ok]) (simp add: caches_def)
    moreover have "buf_ok D (F b)" using ok that by (simp add: cache_ok_def)
    then have "sl_locked (b_lock (F b)) \<noteq> 0 \<or> b_flags (F b) = B_VALID OR B_DIRTY"
      using all[OF that] root[OF that] by (auto simp: buf_ok_def)
    ultimately show ?thesis by (auto simp: ac_busy_def cabs_def)
  qed
  have inj: "inj_on (\<lambda>b. b_blockno (F b)) {..<NBUF}"
    using ok root by (auto simp: inj_on_def cache_ok_def)
  have "finite (ac_busy (cabs D W F))"
    by (rule finite_subset[of _ UNIV]) simp_all
  then have "card ((\<lambda>b. b_blockno (F b)) ` {..<NBUF}) \<le> card (ac_busy (cabs D W F))"
    using busy by (intro card_mono) auto
  then show False using few card_image[OF inj] by simp
qed

end
