(* ===== verification/Bio_Laws.thy ===== *)
theory Bio_Laws
  imports Bio_Refine
begin

unbundle bit_operations_syntax

text \<open>
  The contract of the buffer cache (locale \<open>block_cache\<close>) and its proof for \<open>bread\<close>,
  \<open>bwrite\<close> and \<open>brelse\<close>.
\<close>

section \<open>The state invariant\<close>

definition binv :: "nat \<Rightarrow> uint \<Rightarrow> 'a bio_st_scheme \<Rightarrow> bool" where
  "binv c u s \<longleftrightarrow> ide_idle c u s \<and> free_lock (bcache_lock s) \<and> havedisk1 s \<and> (\<exists>L. lru s L) \<and>
     (\<forall>n. length (disk s 1 n) = BSIZE) \<and> cache_ok (disk s 1) (bcores s)"

definition babs :: "'a bio_st_scheme \<Rightarrow> acache" where
  "babs s = cabs (disk s 1) (disk_writes s) (bcores s)"

text \<open>Everything but the buffers and the drive is as before.\<close>

definition bframe :: "'a bio_st_scheme \<Rightarrow> 'a bio_st_scheme \<Rightarrow> bool" where
  "bframe s s' \<longleftrightarrow>
     bview s' = (bview s)\<lparr>buf := buf s', disk := disk s', disk_writes := disk_writes s', ide_req := ide_req s'\<rparr>"

lemma bframe_refl: "bframe s s"
  unfolding bframe_def by (intro bio_st.equality) simp_all

lemma bframe_trans:
  assumes "bframe s t" "bframe t r"
  shows "bframe s r"
  using assms by (simp add: bframe_def)

lemma bframe_more: "bframe s t \<Longrightarrow> bio_st.more t = bio_st.more s"
  unfolding bframe_def by (drule arg_cong[of _ _ bio_st.more]) simp

lemma bframe_bupd: "bframe s (bupd b f s)"
  by (simp add: bframe_def bupd_def bview_def)

lemma links_cong:
  assumes "bview s = bview t"
  shows "nexts_b s = nexts_b t" "prevs_b s = prevs_b t" "bcores s = bcores t"
  using bview_eqD(1)[OF assms] by (simp_all add: nexts_b_def[abs_def] prevs_b_def[abs_def] bcores_def[abs_def])

lemma binv_bview:
  assumes "binv c u t" "calm c u s" "bview s = bview t"
  shows "binv c u s"
  using assms bview_eqD[OF assms(3)] links_cong[OF assms(3)] by (auto simp: binv_def ide_idle_def lru_def)

lemma babs_bview: "bview s = bview t \<Longrightarrow> babs s = babs t"
  using bview_eqD[of s t] links_cong[of s t] by (simp add: babs_def)

lemma bcache_acquire_calm:
  assumes "calm c u s" "free_lock (bcache_lock s)"
  shows "bcache_acquire c s = Ok (s\<lparr>cpus := pushcli c (cpus s), bcache_lock := heldby c (bcache_lock s)\<rparr>)"
  by (simp add: bcache_acquire_def acquire_calm[OF assms] heldby_def)

lemma bcache_release_calm:
  assumes "calm c u s" "free_lock l" "cpus t = pushcli c (cpus s)" "bcache_lock t = heldby c l"
  shows "bcache_release c t = Ok (t\<lparr>cpus := cpus s, bcache_lock := l\<rparr>)"
  using assms release_calm[of c u s l] by (simp add: bcache_release_def heldby_def)

lemma lru_locked [simp]: "lru (s\<lparr>cpus := a, bcache_lock := l\<rparr>) L = lru s L"
  by (rule lru_cong) (simp_all add: nexts_b_def[abs_def] prevs_b_def[abs_def])

lemma bupd_locked [simp]: "(bupd b f (s\<lparr>cpus := a, bcache_lock := l\<rparr>)) = (bupd b f s)\<lparr>cpus := a, bcache_lock := l\<rparr>"
  by (simp add: bupd_def)

lemma bupd_bupd [simp]: "bupd b f (bupd b g s) = bupd b (\<lambda>x. f (g x)) s"
  by (simp add: bupd_def)

lemma buf_bupd [simp]: "buf (bupd b f s) = (buf s)(b := f (buf s b))"
  by (simp add: bupd_def)

lemma unchanged_bupd [simp]:
  "cpus (bupd b f s) = cpus s" "bcache_lock (bupd b f s) = bcache_lock s" "idelock (bupd b f s) = idelock s"
  "idequeue (bupd b f s) = idequeue s" "ide_err (bupd b f s) = ide_err s" "havedisk1 (bupd b f s) = havedisk1 s"
  "disk (bupd b f s) = disk s" "disk_writes (bupd b f s) = disk_writes s" "ide_req (bupd b f s) = ide_req s"
  by (simp_all add: bupd_def)

section \<open>bget\<close>

definition lock_buf :: "uint \<Rightarrow> buf \<Rightarrow> buf" where
  "lock_buf u x = x\<lparr>b_lock := (b_lock x)\<lparr>sl_locked := 1, sl_pid := u\<rparr>\<rparr>"

lemma put_block_bupd: "put_block b l (bupd b f s) = bupd b (\<lambda>x. (f x)\<lparr>b_lock := l\<rparr>) s"
  by (simp add: put_block_def)

text \<open>The end of \<open>bget\<close>: \<open>bcache.lock\<close> is released and the buffer locked.\<close>

lemma bget_tail:
  assumes cm: "calm c u s" and bf: "free_lock (bcache_lock s)" and fr: "free_lock (sl_lk (b_lock (f (buf s b))))"
    and un: "sl_locked (b_lock (f (buf s b))) = 0"
  shows "rbind (bcache_release c (bupd b f (s\<lparr>cpus := pushcli c (cpus s), bcache_lock := heldby c (bcache_lock s)\<rparr>)))
       (\<lambda>s2. rbind (acquiresleep c (get_block b) (put_block b) s2) (\<lambda>s3. Ok (b, s3))) =
     Ok (b, bupd b (\<lambda>x. lock_buf u (f x)) s)"
proof -
  let ?t = "bupd b f s"
  have "bcache_release c (bupd b f (s\<lparr>cpus := pushcli c (cpus s), bcache_lock := heldby c (bcache_lock s)\<rparr>)) =
      Ok (?t\<lparr>cpus := cpus s, bcache_lock := bcache_lock s\<rparr>)"
    by (subst bcache_release_calm[OF cm bf]) simp_all
  also have "?t\<lparr>cpus := cpus s, bcache_lock := bcache_lock s\<rparr> = ?t" by (simp add: bupd_def)
  finally have 1: "bcache_release c (bupd b f (s\<lparr>cpus := pushcli c (cpus s), bcache_lock := heldby c (bcache_lock s)\<rparr>)) = Ok ?t" .
  have "acquiresleep c (get_block b) (put_block b) ?t = Ok (put_block b ((get_block b ?t)\<lparr>sl_locked := 1, sl_pid := u\<rparr>) ?t)"
    using cm fr un by (intro bl.acquiresleep_eq) (simp_all add: get_block_def)
  moreover have "put_block b ((get_block b ?t)\<lparr>sl_locked := 1, sl_pid := u\<rparr>) ?t = bupd b (\<lambda>x. lock_buf u (f x)) s"
    by (simp add: put_block_def get_block_def bupd_def lock_buf_def)
  ultimately show ?thesis using 1 by simp
qed

lemma find_lru:
  assumes "lru s L" "b < NBUF" "P b" "\<And>a. a < NBUF \<Longrightarrow> P a \<Longrightarrow> a = b"
  shows "find P L = Some b"
proof -
  have L: "set L = {..<NBUF}" using assms(1) by (simp add: lru_def)
  have "find P L \<noteq> None" using L assms(2,3) by (auto simp: find_None_iff)
  then obtain a where a: "find P L = Some a" by blast
  then show ?thesis using find_SomeD[OF a] L assms(4)[of a] by simp
qed

lemma bget_hit:
  assumes inv: "binv c u s" and ca: "caches (bcores s) n b" and un: "sl_locked (b_lock (buf s b)) = 0"
  shows "bget c ROOTDEV n s = Ok (b, bupd b (\<lambda>x. lock_buf u (x\<lparr>b_refcnt := b_refcnt x + 1\<rparr>)) s)"
proof -
  obtain L where L: "lru s L" and cm: "calm c u s" and bf: "free_lock (bcache_lock s)"
    and ok: "cache_ok (disk s 1) (bcores s)" using inv by (auto simp: binv_def ide_idle_def)
  let ?s1 = "s\<lparr>cpus := pushcli c (cpus s), bcache_lock := heldby c (bcache_lock s)\<rparr>"
  have bN: "b < NBUF" using ca by (simp add: caches_def)
  have uq: "a = b" if "a < NBUF" "b_dev (buf s a) = ROOTDEV \<and> b_blockno (buf s a) = n" for a
    using caches_unique[OF ok, of n a b] ca that by (simp add: caches_def bcores_def)
  have "find (\<lambda>b. b_dev (buf s b) = ROOTDEV \<and> b_blockno (buf s b) = n) L = Some b"
    by (rule find_lru[OF L bN _ uq]) (use ca in \<open>simp_all add: caches_def bcores_def\<close>)
  then have "bfind ROOTDEV n ?s1 = Ok (Some b, ())" using L by (subst bfind_eq[of _ L]) simp_all
  then have run: "bget c ROOTDEV n s = rbind (bcache_release c (bupd b (\<lambda>x. x\<lparr>b_refcnt := b_refcnt x + 1\<rparr>) ?s1))
      (\<lambda>s2. rbind (acquiresleep c (get_block b) (put_block b) s2) (\<lambda>s3. Ok (b, s3)))"
    by (simp add: bget_def bcache_acquire_calm[OF cm bf])
  have "free_lock (sl_lk (b_lock (buf s b)))"
    using ok bN by (simp add: cache_ok_def buf_ok_def bcores_def)
  then show ?thesis unfolding run using un by (intro bget_tail[OF cm bf]) simp_all
qed

lemma bget_miss:
  assumes inv: "binv c u s" and no: "cached (bcores s) n = None"
    and few: "\<exists>b < NBUF. b_refcnt (buf s b) = 0 \<and> b_flags (buf s b) AND B_DIRTY = 0"
  shows "\<exists>b < NBUF. b_refcnt (buf s b) = 0 \<and> b_flags (buf s b) AND B_DIRTY = 0 \<and>
    bget c ROOTDEV n s =
      Ok (b, bupd b (\<lambda>x. lock_buf u (x\<lparr>b_dev := ROOTDEV, b_blockno := n, b_flags := 0, b_refcnt := 1\<rparr>)) s)"
proof -
  obtain L where L: "lru s L" and cm: "calm c u s" and bf: "free_lock (bcache_lock s)"
    and ok: "cache_ok (disk s 1) (bcores s)" using inv by (auto simp: binv_def ide_idle_def)
  let ?s1 = "s\<lparr>cpus := pushcli c (cpus s), bcache_lock := heldby c (bcache_lock s)\<rparr>"
  let ?P = "\<lambda>b. b_refcnt (buf s b) = 0 \<and> b_flags (buf s b) AND B_DIRTY = 0"
  have "find (\<lambda>b. b_dev (buf s b) = ROOTDEV \<and> b_blockno (buf s b) = n) L = None"
    using no L by (auto simp: find_None_iff cached_None caches_def bcores_def lru_def)
  then have 1: "bfind ROOTDEV n ?s1 = Ok (None, ())" using L by (subst bfind_eq[of _ L]) simp_all
  have "find ?P (rev L) \<noteq> None" using few L by (auto simp: find_None_iff lru_def)
  then obtain b where b: "find ?P (rev L) = Some b" by blast
  then have bP: "b < NBUF" "?P b" using find_SomeD[OF b] L by (auto simp: lru_def)
  have "bunused ?s1 = Ok (Some b, ())" using L b by (subst bunused_eq[of _ L]) simp_all
  then have run: "bget c ROOTDEV n s =
      rbind (bcache_release c (bupd b (\<lambda>x. x\<lparr>b_dev := ROOTDEV, b_blockno := n, b_flags := 0, b_refcnt := 1\<rparr>) ?s1))
      (\<lambda>s2. rbind (acquiresleep c (get_block b) (put_block b) s2) (\<lambda>s3. Ok (b, s3)))"
    using 1 by (simp add: bget_def bcache_acquire_calm[OF cm bf])
  have "buf_ok (disk s 1) (bcore (buf s b))" using ok bP(1) by (simp add: cache_ok_def bcores_def)
  then have "free_lock (sl_lk (b_lock (buf s b)))" "sl_locked (b_lock (buf s b)) = 0"
    using bP(2) by (auto simp: buf_ok_def split: if_splits)
  then have "bget c ROOTDEV n s =
      Ok (b, bupd b (\<lambda>x. lock_buf u (x\<lparr>b_dev := ROOTDEV, b_blockno := n, b_flags := 0, b_refcnt := 1\<rparr>)) s)"
    unfolding run by (intro bget_tail[OF cm bf]) simp_all
  then show ?thesis using bP by blast
qed

end
