(* ===== verification/Bio_Iface.thy ===== *)
theory Bio_Iface
  imports Bio_Laws
begin

unbundle bit_operations_syntax

text \<open>
  The interface of the buffer cache for its clients: the locale \<open>block_cache\<close> with the
  laws of \<open>bread\<close>, \<open>bwrite\<close>, \<open>brelse\<close> and of changing a held buffer, and its
  interpretation on the code.
\<close>

section \<open>Changing a buffer\<close>

lemma buf_ok_bcore [simp]: "buf_ok D (bcore x) = buf_ok D x"
  unfolding buf_ok_def bcore_sel ..

lemma bcores_bupd: "bcores (bupd b f s) = (bcores s)(b := bcore (f (buf s b)))"
  by (auto simp: bcores_def bupd_def)

lemma links_same:
  assumes "b_next (f (buf s b)) = b_next (buf s b)" "b_prev (f (buf s b)) = b_prev (buf s b)"
  shows "lru (bupd b f s) L = lru s L"
  using assms by (intro lru_cong) (auto simp: nexts_b_def prevs_b_def bupd_def)

lemma cabs_at:
  assumes "cache_ok D F" "caches F n b"
  shows "ac_view (cabs D W F) n = b_data (F b)" "n \<in> ac_pin (cabs D W F) \<longleftrightarrow> b_flags (F b) = B_VALID OR B_DIRTY"
    "ac_held (cabs D W F) n = (if sl_locked (b_lock (F b)) = 0 then None else Some b)"
  using cached_at[OF assms] by (simp_all add: cabs_def)

lemma held_caches:
  assumes "cache_ok D F" "ac_held (cabs D W F) n = Some b"
  shows "caches F n b" "sl_locked (b_lock (F b)) \<noteq> 0"
proof -
  have "cached F n = Some b \<and> sl_locked (b_lock (F b)) \<noteq> 0"
    using assms(2) by (simp add: cabs_def split: option.splits if_splits)
  then show "caches F n b" "sl_locked (b_lock (F b)) \<noteq> 0" using cached_Some[OF assms(1)] by simp_all
qed

text \<open>A change of a buffer that keeps its block, as the invariant and the abstraction see it.\<close>

lemma binv_bupd:
  assumes inv: "binv c u s" and ca: "caches (bcores s) n b"
    and x: "b_dev (f (buf s b)) = ROOTDEV" "b_blockno (f (buf s b)) = n"
      "b_next (f (buf s b)) = b_next (buf s b)" "b_prev (f (buf s b)) = b_prev (buf s b)"
      "buf_ok (disk s 1) (bcore (f (buf s b)))"
  shows "binv c u (bupd b f s)"
proof -
  have "cache_ok (disk s 1) (bcores (bupd b f s))"
    unfolding bcores_bupd using inv ca x by (intro cache_ok_upd_same) (simp_all add: binv_def)
  then show ?thesis using inv x by (simp add: binv_def ide_idle_def links_same)
qed

lemma babs_bupd:
  assumes inv: "binv c u s" and ca: "caches (bcores s) n b"
    and x: "b_dev (f (buf s b)) = ROOTDEV" "b_blockno (f (buf s b)) = n"
  shows "babs (bupd b f s) = (babs s)
    \<lparr>ac_view := (ac_view (babs s))(n := b_data (f (buf s b))),
     ac_pin := (if b_flags (f (buf s b)) = B_VALID OR B_DIRTY then insert n (ac_pin (babs s)) else ac_pin (babs s) - {n}),
     ac_held := (ac_held (babs s))(n := if sl_locked (b_lock (f (buf s b))) = 0 then None else Some b)\<rparr>"
  using inv unfolding babs_def bcores_bupd
  by (subst cabs_upd_same[OF _ ca]) (simp_all add: binv_def x)

lemma caches_ok:
  assumes "binv c u s" "caches (bcores s) n b"
  shows "buf_ok (disk s 1) (buf s b)" "b_dev (buf s b) = ROOTDEV" "b_blockno (buf s b) = n" "b < NBUF" "n < FSSIZE"
    "b_flags (buf s b) = B_VALID \<or> b_flags (buf s b) = B_VALID OR B_DIRTY"
    "free_lock (sl_lk (b_lock (buf s b)))" "length (b_data (buf s b)) = BSIZE"
proof -
  have "buf_ok (disk s 1) (bcores s b)" using assms by (simp add: binv_def cache_ok_def caches_def)
  then show ok: "buf_ok (disk s 1) (buf s b)" by (simp add: bcores_def)
  show k: "b_dev (buf s b) = ROOTDEV" "b_blockno (buf s b) = n" "b < NBUF"
    using assms(2) by (simp_all add: caches_def bcores_def)
  show "n < FSSIZE" "b_flags (buf s b) = B_VALID \<or> b_flags (buf s b) = B_VALID OR B_DIRTY"
    "free_lock (sl_lk (b_lock (buf s b)))" "length (b_data (buf s b)) = BSIZE"
    using ok k by (simp_all add: buf_ok_def)
qed

lemma babs_at:
  assumes "binv c u s" "caches (bcores s) n b"
  shows "ac_view (babs s) n = b_data (buf s b)" "n \<in> ac_pin (babs s) \<longleftrightarrow> b_flags (buf s b) = B_VALID OR B_DIRTY"
    "ac_held (babs s) n = (if sl_locked (b_lock (buf s b)) = 0 then None else Some b)"
  using assms cabs_at[of "disk s 1" "bcores s" n b "disk_writes s"] by (simp_all add: babs_def binv_def bcores_def)

lemma babs_held:
  assumes "binv c u s" "ac_held (babs s) n = Some b"
  shows "caches (bcores s) n b" "sl_locked (b_lock (buf s b)) = 1" "b_refcnt (buf s b) = 1"
proof -
  show ca: "caches (bcores s) n b"
    using assms held_caches[of "disk s 1" "bcores s" "disk_writes s" n b] by (simp add: binv_def babs_def)
  have "sl_locked (b_lock (buf s b)) \<noteq> 0"
    using assms held_caches[of "disk s 1" "bcores s" "disk_writes s" n b] by (simp add: binv_def babs_def bcores_def)
  then show "sl_locked (b_lock (buf s b)) = 1" "b_refcnt (buf s b) = 1"
    using caches_ok(1,2)[OF assms(1) ca] by (auto simp: buf_ok_def)
qed

lemma held_bupd_ok:
  assumes inv: "binv c u s" and h: "ac_held (babs s) n = Some b"
  shows "length d = BSIZE \<Longrightarrow> binv c u (bupd b (\<lambda>x. x\<lparr>b_data := d\<rparr>) s)"
    "babs (bupd b (\<lambda>x. x\<lparr>b_data := d\<rparr>) s) = ac_set n d (babs s)"
    "binv c u (bupd b (\<lambda>x. x\<lparr>b_flags := b_flags x OR B_DIRTY\<rparr>) s)"
    "babs (bupd b (\<lambda>x. x\<lparr>b_flags := b_flags x OR B_DIRTY\<rparr>) s) = ac_mark n (babs s)"
proof -
  note ca = babs_held(1)[OF inv h] and lo = babs_held(2)[OF inv h] and rc = babs_held(3)[OF inv h]
  note ok = caches_ok[OF inv ca] and at = babs_at[OF inv ca]
  have fl: "b_flags (buf s b) OR B_DIRTY = B_VALID OR B_DIRTY"
    using ok(6) by (auto simp: B_VALID_def B_DIRTY_def)
  show "length d = BSIZE \<Longrightarrow> binv c u (bupd b (\<lambda>x. x\<lparr>b_data := d\<rparr>) s)"
    using ok lo rc by (intro binv_bupd[OF inv ca]) (simp_all add: buf_ok_def)
  show "binv c u (bupd b (\<lambda>x. x\<lparr>b_flags := b_flags x OR B_DIRTY\<rparr>) s)"
    using ok lo rc fl by (intro binv_bupd[OF inv ca]) (simp_all add: buf_ok_def)
  show "babs (bupd b (\<lambda>x. x\<lparr>b_data := d\<rparr>) s) = ac_set n d (babs s)"
    using ok at h lo by (subst babs_bupd[OF inv ca]) (auto simp: ac_set_def fun_upd_idem insert_absorb intro!: acache.equality)
  show "babs (bupd b (\<lambda>x. x\<lparr>b_flags := b_flags x OR B_DIRTY\<rparr>) s) = ac_mark n (babs s)"
    using ok at h lo fl by (subst babs_bupd[OF inv ca]) (auto simp: ac_mark_def fun_upd_idem intro!: acache.equality)
qed

section \<open>bread\<close>

lemma bread_hit:
  assumes inv: "binv c u s" and ca: "caches (bcores s) n b" and un: "ac_held (babs s) n = None"
  shows "\<exists>s'. bread c ROOTDEV n s = Ok (b, s') \<and> binv c u s' \<and> bframe s s' \<and> babs s' = ac_read n b (babs s)"
proof -
  note ok = caches_ok[OF inv ca] and at = babs_at[OF inv ca]
  let ?f = "\<lambda>x. lock_buf u (x\<lparr>b_refcnt := b_refcnt x + 1\<rparr>)"
  have lo: "sl_locked (b_lock (buf s b)) = 0" using un at(3) by (simp split: if_splits)
  then have rc: "b_refcnt (buf s b) = 0" using ok(1,2) by (simp add: buf_ok_def)
  have "bread c ROOTDEV n s = Ok (b, bupd b ?f s)"
    using bget_hit[OF inv ca lo] ok(6) by (auto simp: bread_def lock_buf_def)
  moreover have "binv c u (bupd b ?f s)"
    using ok rc by (intro binv_bupd[OF inv ca]) (auto simp: lock_buf_def buf_ok_def)
  moreover have "babs (bupd b ?f s) = ac_read n b (babs s)"
    using ok at by (subst babs_bupd[OF inv ca])
      (auto simp: ac_read_def lock_buf_def fun_upd_idem insert_absorb intro!: acache.equality)
  ultimately show ?thesis using bframe_bupd by blast
qed

lemma ac_read_req [simp]: "binv c u (s\<lparr>ide_req := r\<rparr>) = binv c u s" "babs (s\<lparr>ide_req := r\<rparr>) = babs s"
proof -
  have "nexts_b (s\<lparr>ide_req := r\<rparr>) = nexts_b s" "prevs_b (s\<lparr>ide_req := r\<rparr>) = prevs_b s"
    and c: "bcores (s\<lparr>ide_req := r\<rparr>) = bcores s"
    by (simp_all add: nexts_b_def[abs_def] prevs_b_def[abs_def] bcores_def[abs_def])
  then have "lru (s\<lparr>ide_req := r\<rparr>) L = lru s L" for L by (intro lru_cong) simp_all
  then show "binv c u (s\<lparr>ide_req := r\<rparr>) = binv c u s" using c by (simp add: binv_def ide_idle_def)
  show "babs (s\<lparr>ide_req := r\<rparr>) = babs s" using c by (simp add: babs_def)
qed

lemma ROOTDEV_drive: "unat (ROOTDEV AND 1) = 1" by (simp add: ROOTDEV_def)

lemma bread_miss:
  assumes inv: "binv c u s" and no: "cached (bcores s) n = None" and n: "n < FSSIZE"
    and few: "card (ac_busy (babs s)) < NBUF"
  shows "\<exists>b s'. bread c ROOTDEV n s = Ok (b, s') \<and> binv c u s' \<and> bframe s s' \<and> babs s' = ac_read n b (babs s)"
proof -
  have ok: "cache_ok (disk s 1) (bcores s)" and id: "ide_idle c u s" and hd: "havedisk1 s"
    and len: "length (disk s 1 i) = BSIZE" for i
    using inv by (auto simp: binv_def)
  obtain b where b: "b < NBUF" "b_refcnt (buf s b) = 0" "b_flags (buf s b) AND B_DIRTY = 0"
    and get: "bget c ROOTDEV n s =
      Ok (b, bupd b (\<lambda>x. lock_buf u (x\<lparr>b_dev := ROOTDEV, b_blockno := n, b_flags := 0, b_refcnt := 1\<rparr>)) s)"
    using bget_miss[OF inv no] unused_exists[OF ok] few by (auto simp: babs_def bcores_def)
  let ?f = "\<lambda>x. lock_buf u (x\<lparr>b_dev := ROOTDEV, b_blockno := n, b_flags := 0, b_refcnt := 1\<rparr>)"
  let ?g = "\<lambda>x. (?f x)\<lparr>b_qnext := None, b_data := disk s 1 (unat n), b_flags := B_VALID\<rparr>"
  let ?t = "(bupd b ?g s)\<lparr>ide_req := Some (1, unat n)\<rparr>"
  have old: "buf_ok (disk s 1) (buf s b)" using ok b(1) by (simp add: cache_ok_def bcores_def)
  have fr: "free_lock (sl_lk (b_lock (buf s b)))" using old by (simp add: buf_ok_def)
  have "\<exists>s'. iderw c b (bupd b ?f s) = Ok s' \<and> calm c u s' \<and>
      bview s' = bview (ide_finish b (ide_sent b (bupd b (\<lambda>x. x\<lparr>b_qnext := None\<rparr>) (bupd b ?f s))))"
    using id hd n fr by (intro iderw_ok) (simp_all add: ide_idle_def lock_buf_def ide_done_def)
  moreover have "ide_finish b (ide_sent b (bupd b (\<lambda>x. x\<lparr>b_qnext := None\<rparr>) (bupd b ?f s))) = ?t"
    using id by (intro bio_st.equality) (simp_all add: ide_finish_def ide_sent_def Let_def ROOTDEV_drive lock_buf_def
        ide_input_def ide_idle_def bupd_def B_VALID_def B_DIRTY_def)
  ultimately obtain s' where s': "iderw c b (bupd b ?f s) = Ok s'" "calm c u s'" "bview s' = bview ?t" by auto
  have "bread c ROOTDEV n s = Ok (b, s')" using get s'(1) by (simp add: bread_def lock_buf_def)
  moreover have co: "cache_ok (disk s 1) (bcores (bupd b ?g s))" and ab: "babs (bupd b ?g s) = ac_read n b (babs s)"
  proof -
    note rec = recycle(1)[OF ok no b(1), of "bcore (?g (buf s b))"]
      recycle(2)[OF ok no b(1), of "bcore (?g (buf s b))" "disk_writes s"]
    have "buf_ok (disk s 1) (?g (buf s b))" using fr n len by (simp add: buf_ok_def lock_buf_def)
    then show "cache_ok (disk s 1) (bcores (bupd b ?g s))" "babs (bupd b ?g s) = ac_read n b (babs s)"
      unfolding bcores_bupd babs_def using rec b by (simp_all add: lock_buf_def bcores_def)
  qed
  moreover have "lru (bupd b ?g s) L = lru s L" for L by (intro links_same) (simp_all add: lock_buf_def)
  then have "binv c u (bupd b ?g s)" using inv co by (simp add: binv_def ide_idle_def)
  then have "binv c u ?t" by simp
  then have "binv c u s'" using s'(2,3) by (rule binv_bview)
  moreover have "bframe s s'" unfolding bframe_def bview_eqD[OF s'(3)] s'(3) by (simp add: bupd_def)
  moreover have "babs s' = ac_read n b (babs s)" using babs_bview[OF s'(3)] ab by simp
  ultimately show ?thesis by blast
qed

lemma bread_law:
  assumes "binv c u s" "n < FSSIZE" "ac_held (babs s) n = None" "n \<in> ac_pin (babs s) \<or> card (ac_busy (babs s)) < NBUF"
  shows "\<exists>b s'. bread c ROOTDEV n s = Ok (b, s') \<and> binv c u s' \<and> bframe s s' \<and> babs s' = ac_read n b (babs s)"
proof (cases "cached (bcores s) n")
  case None
  then have "n \<notin> ac_pin (babs s)" by (simp add: babs_def cabs_def)
  then show ?thesis using bread_miss[OF assms(1) None assms(2)] assms(4) by blast
next
  case (Some b)
  then have "caches (bcores s) n b" using assms(1) cached_Some by (auto simp: binv_def)
  then show ?thesis using bread_hit assms(1,3) by blast
qed

section \<open>bwrite\<close>

lemma cabs_disk:
  assumes "cached F n = Some b"
  shows "cabs (D(unat n := d)) W' F = (cabs D W F)\<lparr>ac_disk := (ac_disk (cabs D W F))(n := d), ac_writes := W'\<rparr>"
  using assms by (auto simp: cabs_def fun_eq_iff word_unat_eq_iff[symmetric] split: option.splits)

lemma cache_ok_disk:
  assumes ok: "cache_ok D F" and ca: "caches F n b" and lo: "sl_locked (b_lock (F b)) \<noteq> 0"
  shows "cache_ok (D(unat n := d)) F"
proof -
  have "buf_ok (D(unat n := d)) (F a)" if a: "a < NBUF" for a
  proof (cases "a = b")
    case True
    have "buf_ok D (F b)" using ok a True by (simp add: cache_ok_def)
    then show ?thesis using lo True by (auto simp: buf_ok_def)
  next
    case False
    have "\<not> caches F n a" using caches_unique[OF ok ca, of a] False by auto
    then have "b_dev (F a) = ROOTDEV \<Longrightarrow> b_blockno (F a) \<noteq> n" using a by (simp add: caches_def)
    moreover have "buf_ok D (F a)" using ok a by (simp add: cache_ok_def)
    ultimately show ?thesis by (auto simp: buf_ok_def word_unat_eq_iff[symmetric])
  qed
  then show ?thesis using ok by (simp add: cache_ok_def)
qed

lemma bwrite_law:
  assumes inv: "binv c u s" and h: "ac_held (babs s) n = Some b"
  shows "\<exists>s'. bwrite c b s = Ok s' \<and> binv c u s' \<and> bframe s s' \<and> babs s' = ac_write n (babs s)"
proof -
  note ca = babs_held(1)[OF inv h] and lo = babs_held(2)[OF inv h] and rc = babs_held(3)[OF inv h]
  note ok = caches_ok[OF inv ca] and at = babs_at[OF inv ca]
  have id: "ide_idle c u s" and hd: "havedisk1 s" and cok: "cache_ok (disk s 1) (bcores s)"
    and len: "length (disk s 1 i) = BSIZE" for i
    using inv by (auto simp: binv_def)
  let ?d = "b_data (buf s b)"
  let ?f = "\<lambda>x. x\<lparr>b_flags := b_flags x OR B_DIRTY\<rparr>" and ?g = "\<lambda>x. x\<lparr>b_qnext := None, b_flags := B_VALID\<rparr>"
  let ?t = "(bupd b ?g s)\<lparr>disk := (disk s)(1 := (disk s 1)(unat n := ?d)), disk_writes := disk_writes s @ [(1, unat n, ?d)],
              ide_req := None\<rparr>"
  have fl: "b_flags (buf s b) OR B_DIRTY = B_VALID OR B_DIRTY"
    using ok(6) by (auto simp: B_VALID_def B_DIRTY_def)
  have "holdingsleep c (get_block b) (put_block b) s = Ok (True, s)"
    using bl.holdingsleep_eq[of c u s b] id ok(7) lo by (simp add: get_block_def ide_idle_def)
  then have run: "bwrite c b s = iderw c b (bupd b ?f s)" by (simp add: bwrite_def)
  have "\<exists>s'. iderw c b (bupd b ?f s) = Ok s' \<and> calm c u s' \<and>
      bview s' = bview (ide_finish b (ide_sent b (bupd b (\<lambda>x. x\<lparr>b_qnext := None\<rparr>) (bupd b ?f s))))"
    using id hd ok lo fl by (intro iderw_ok) (simp_all add: ide_idle_def ide_done_def B_VALID_def B_DIRTY_def)
  moreover have "ide_finish b (ide_sent b (bupd b (\<lambda>x. x\<lparr>b_qnext := None\<rparr>) (bupd b ?f s))) = ?t"
  proof -
    have "((B_VALID OR B_DIRTY) OR B_VALID) AND NOT B_DIRTY = B_VALID" "(B_VALID OR B_DIRTY) AND B_DIRTY \<noteq> 0"
      by (simp_all add: B_VALID_def B_DIRTY_def)
    then show ?thesis using id ok(2,3) fl
      by (intro bio_st.equality) (simp_all add: ide_finish_def ide_sent_def Let_def ROOTDEV_drive ide_idle_def bupd_def)
  qed
  ultimately obtain s' where s': "iderw c b (bupd b ?f s) = Ok s'" "calm c u s'" "bview s' = bview ?t" by auto
  have g: "binv c u (bupd b ?g s)"
    using ok lo rc by (intro binv_bupd[OF inv ca]) (simp_all add: buf_ok_def)
  have gabs: "babs (bupd b ?g s) = (babs s)\<lparr>ac_pin := ac_pin (babs s) - {n}\<rparr>"
    using ok at h lo by (subst babs_bupd[OF inv ca]) (auto simp: fun_upd_idem intro!: acache.equality)
  have gca: "caches (bcores (bupd b ?g s)) n b" using ca ok by (simp add: bcores_bupd caches_def)
  have gok: "cache_ok (disk s 1) (bcores (bupd b ?g s))" using g by (simp add: binv_def)
  have "cache_ok ((disk s 1)(unat n := ?d)) (bcores (bupd b ?g s))"
    using gok gca by (rule cache_ok_disk) (simp add: bcores_bupd lo)
  moreover have "nexts_b ?t = nexts_b (bupd b ?g s)" "prevs_b ?t = prevs_b (bupd b ?g s)" and tc: "bcores ?t = bcores (bupd b ?g s)"
    by (simp_all add: nexts_b_def[abs_def] prevs_b_def[abs_def] bcores_def[abs_def])
  ultimately have tinv: "binv c u ?t" using g len ok(8) by (simp add: binv_def ide_idle_def lru_def)
  have "babs ?t = cabs ((disk s 1)(unat n := ?d)) (disk_writes s @ [(1, unat n, ?d)]) (bcores (bupd b ?g s))"
    unfolding babs_def tc by simp
  also have "\<dots> = (babs (bupd b ?g s))\<lparr>ac_disk := (ac_disk (babs (bupd b ?g s)))(n := ?d),
      ac_writes := disk_writes s @ [(1, unat n, ?d)]\<rparr>"
    by (subst cabs_disk[OF cached_at[OF gok gca]]) (simp add: babs_def)
  also have "\<dots> = ac_write n (babs s)"
    using at(1) by (simp add: gabs ac_write_def) (simp add: babs_def cabs_def)
  finally have tabs: "babs ?t = ac_write n (babs s)" .
  have "binv c u s'" using tinv s'(2,3) by (rule binv_bview)
  moreover have "bframe s s'" unfolding bframe_def bview_eqD[OF s'(3)] s'(3) by (simp add: bupd_def)
  moreover have "babs s' = ac_write n (babs s)" using babs_bview[OF s'(3)] tabs by simp
  ultimately show ?thesis using run s'(1) by auto
qed

section \<open>brelse\<close>

lemma brelse_law:
  assumes inv: "binv c u s" and h: "ac_held (babs s) n = Some b"
    and cl: "n \<in> ac_pin (babs s) \<or> ac_view (babs s) n = ac_disk (babs s) n"
  shows "\<exists>s'. brelse c b s = Ok s' \<and> binv c u s' \<and> bframe s s' \<and> babs s' = ac_release n (babs s)"
proof -
  note ca = babs_held(1)[OF inv h] and lo = babs_held(2)[OF inv h] and rc = babs_held(3)[OF inv h]
  note ok = caches_ok[OF inv ca] and at = babs_at[OF inv ca]
  have cm: "calm c u s" and bf: "free_lock (bcache_lock s)" using inv by (auto simp: binv_def ide_idle_def)
  let ?l = "(b_lock (buf s b))\<lparr>sl_locked := 0, sl_pid := 0\<rparr>"
  let ?g = "\<lambda>x. x\<lparr>b_lock := ?l, b_refcnt := 0\<rparr>"
  have hold: "holdingsleep c (get_block b) (put_block b) s = Ok (True, s)"
    using bl.holdingsleep_eq[OF cm, of b] ok(7) lo by (simp add: get_block_def)
  obtain s2 where s2: "releasesleep c (Ch_buf_lock b) (get_block b) (put_block b) s = Ok s2" "calm c u s2"
    "bview s2 = bview (bupd b (\<lambda>x. x\<lparr>b_lock := ?l\<rparr>) s)"
    using bl.releasesleep_eq[OF cm, of b "Ch_buf_lock b"] ok(7) by (auto simp: get_block_def put_block_def)
  note v = bview_eqD[OF s2(3)]
  let ?s3 = "s2\<lparr>cpus := pushcli c (cpus s2), bcache_lock := heldby c (bcache_lock s2)\<rparr>"
  let ?s4 = "bupd b (\<lambda>x. x\<lparr>b_refcnt := b_refcnt x - 1\<rparr>) ?s3"
  have bf2: "free_lock (bcache_lock s2)" using v(7) bf by simp
  have r4: "b_refcnt (buf ?s4 b) = 0" using v(1) rc by simp
  have run1: "brelse c b s = bcache_release c (bmru b ?s4)"
    using hold s2(1) r4 bcache_acquire_calm[OF s2(2) bf2] by (simp add: brelse_def Let_def)
  obtain L where L: "lru s L" using inv by (auto simp: binv_def)
  have "nexts_b ?s4 = nexts_b s" "prevs_b ?s4 = prevs_b s"
    by (rule ext, simp add: nexts_b_def prevs_b_def v(1))+
  then have "lru ?s4 L" using L by (simp add: lru_def)
  note mru = bmru_eq[OF this ok(4)]
  obtain B where B: "bmru b ?s4 = ?s4\<lparr>buf := B\<rparr>" using mru(3) by (auto simp: only_buf_def)
  let ?s' = "s2\<lparr>buf := B\<rparr>"
  have "bcache_release c (bmru b ?s4) = Ok ((bmru b ?s4)\<lparr>cpus := cpus s2, bcache_lock := bcache_lock s2\<rparr>)"
    unfolding B by (rule bcache_release_calm[OF s2(2) bf2]) simp_all
  also have "(bmru b ?s4)\<lparr>cpus := cpus s2, bcache_lock := bcache_lock s2\<rparr> = ?s'"
    unfolding B by (simp add: bupd_def)
  finally have run: "brelse c b s = Ok ?s'" using run1 by simp
  have lnk: "nexts_b ?s' = nexts_b (bmru b ?s4)" "prevs_b ?s' = prevs_b (bmru b ?s4)"
    unfolding B by (simp_all add: nexts_b_def[abs_def] prevs_b_def[abs_def])
  have "bcores ?s' = bcores (bmru b ?s4)" unfolding B by (simp add: bcores_def[abs_def])
  also have "\<dots> = bcores (bupd b ?g s)"
    unfolding mru(2) by (rule ext) (simp add: bcores_def bcore_def v(1) rc)
  finally have cores: "bcores ?s' = bcores (bupd b ?g s)" .
  have g: "binv c u (bupd b ?g s)"
    using ok cl at by (intro binv_bupd[OF inv ca]) (auto simp: buf_ok_def babs_def cabs_def)
  have gabs: "babs (bupd b ?g s) = ac_release n (babs s)"
    using ok at by (subst babs_bupd[OF inv ca])
      (auto simp: ac_release_def fun_upd_idem insert_absorb intro!: acache.equality)
  have "lru ?s' (b # remove1 b L)" using mru(1) lnk by (simp add: lru_def)
  then have "binv c u ?s'" using g s2(2) v cores by (auto simp: binv_def ide_idle_def)
  moreover have "babs ?s' = ac_release n (babs s)" using gabs v cores by (simp add: babs_def)
  moreover have "bframe s ?s'"
  proof -
    have "bview ?s' = (bview s)\<lparr>buf := B\<rparr>" by (simp add: s2(3) bupd_def)
    then show ?thesis unfolding bframe_def using v by (intro bio_st.equality) simp_all
  qed
  ultimately show ?thesis using run by blast
qed

section \<open>The contract\<close>

locale block_cache =
  fixes inv :: "'s \<Rightarrow> bool"
    and abs :: "'s \<Rightarrow> acache"
    and keeps :: "'s \<Rightarrow> 's \<Rightarrow> bool"
    and rd :: "uint \<Rightarrow> 's \<Rightarrow> (nat \<times> 's) res"
    and wr :: "nat \<Rightarrow> 's \<Rightarrow> 's res"
    and rel :: "nat \<Rightarrow> 's \<Rightarrow> 's res"
    and data :: "nat \<Rightarrow> 's \<Rightarrow> byte list"
    and setdata :: "nat \<Rightarrow> byte list \<Rightarrow> 's \<Rightarrow> 's"
  assumes keeps_refl: "keeps s s"
    and keeps_trans: "keeps s t \<Longrightarrow> keeps t r \<Longrightarrow> keeps s r"
    and rd_law: "inv s \<Longrightarrow> n < FSSIZE \<Longrightarrow> ac_held (abs s) n = None \<Longrightarrow>
      n \<in> ac_pin (abs s) \<or> card (ac_busy (abs s)) < NBUF \<Longrightarrow>
      \<exists>b s'. rd n s = Ok (b, s') \<and> inv s' \<and> keeps s s' \<and> abs s' = ac_read n b (abs s)"
    and wr_law: "inv s \<Longrightarrow> ac_held (abs s) n = Some b \<Longrightarrow>
      \<exists>s'. wr b s = Ok s' \<and> inv s' \<and> keeps s s' \<and> abs s' = ac_write n (abs s)"
    and rel_law: "inv s \<Longrightarrow> ac_held (abs s) n = Some b \<Longrightarrow>
      n \<in> ac_pin (abs s) \<or> ac_view (abs s) n = ac_disk (abs s) n \<Longrightarrow>
      \<exists>s'. rel b s = Ok s' \<and> inv s' \<and> keeps s s' \<and> abs s' = ac_release n (abs s)"
    and data_law: "inv s \<Longrightarrow> ac_held (abs s) n = Some b \<Longrightarrow> data b s = ac_view (abs s) n"
    and setdata_law: "inv s \<Longrightarrow> ac_held (abs s) n = Some b \<Longrightarrow> length d = BSIZE \<Longrightarrow>
      inv (setdata b d s) \<and> keeps s (setdata b d s) \<and> abs (setdata b d s) = ac_set n d (abs s)"
    and coherent: "inv s \<Longrightarrow> ac_held (abs s) n = None \<Longrightarrow> n \<notin> ac_pin (abs s) \<Longrightarrow> ac_view (abs s) n = ac_disk (abs s) n"
    and sized: "inv s \<Longrightarrow> length (ac_view (abs s) n) = BSIZE"
begin

text \<open>Reading a block and letting it go again changes nothing.\<close>

lemma peek:
  assumes "inv s" "n < FSSIZE" "ac_held (abs s) n = None" "n \<in> ac_pin (abs s) \<or> card (ac_busy (abs s)) < NBUF"
  shows "\<exists>b s1 s2. rd n s = Ok (b, s1) \<and> data b s1 = ac_view (abs s) n \<and> rel b s1 = Ok s2 \<and>
    inv s2 \<and> keeps s s1 \<and> keeps s s2 \<and> abs s2 = abs s"
proof -
  obtain b s1 where s1: "rd n s = Ok (b, s1)" "inv s1" "keeps s s1" "abs s1 = ac_read n b (abs s)"
    using rd_law[OF assms] by blast
  have h: "ac_held (abs s1) n = Some b" by (simp add: s1(4) ac_read_def)
  have "n \<in> ac_pin (abs s1) \<or> ac_view (abs s1) n = ac_disk (abs s1) n"
    using coherent[OF assms(1,3)] by (auto simp: s1(4) ac_read_def)
  from rel_law[OF s1(2) h this] obtain s2 where
    s2: "rel b s1 = Ok s2" "inv s2" "keeps s1 s2" "abs s2 = ac_release n (abs s1)" by blast
  have "abs s2 = abs s" using assms(3) by (simp add: s2(4) s1(4) ac_release_def ac_read_def fun_upd_idem)
  moreover have "data b s1 = ac_view (abs s) n" using data_law[OF s1(2) h] by (simp add: s1(4) ac_read_def)
  ultimately show ?thesis using s1 s2 keeps_trans by blast
qed

text \<open>Replacing the contents of a block and writing it through.\<close>

lemma update_through:
  assumes "inv s" "n < FSSIZE" "ac_held (abs s) n = None" "n \<in> ac_pin (abs s) \<or> card (ac_busy (abs s)) < NBUF"
    and len: "\<And>d. length d = BSIZE \<Longrightarrow> length (f d) = BSIZE"
  shows "\<exists>b s1 s2 s3. rd n s = Ok (b, s1) \<and> wr b (setdata b (f (data b s1)) s1) = Ok s2 \<and> rel b s2 = Ok s3 \<and>
    inv s3 \<and> keeps s s1 \<and> keeps s s3 \<and> abs s3 = ac_write n (ac_set n (f (ac_view (abs s) n)) (abs s))"
proof -
  obtain b s1 where s1: "rd n s = Ok (b, s1)" "inv s1" "keeps s s1" "abs s1 = ac_read n b (abs s)"
    using rd_law[OF assms(1-4)] by blast
  have h: "ac_held (abs s1) n = Some b" by (simp add: s1(4) ac_read_def)
  let ?d = "f (data b s1)"
  have dv: "data b s1 = ac_view (abs s) n" using data_law[OF s1(2) h] by (simp add: s1(4) ac_read_def)
  have "length ?d = BSIZE" using len sized[OF assms(1)] by (simp add: dv)
  note t = setdata_law[OF s1(2) h this]
  let ?t = "setdata b ?d s1"
  have ht: "ac_held (abs ?t) n = Some b" using t h by (simp add: ac_set_def)
  obtain s2 where s2: "wr b ?t = Ok s2" "inv s2" "keeps ?t s2" "abs s2 = ac_write n (abs ?t)"
    using wr_law[of ?t n b] t ht by blast
  have h2: "ac_held (abs s2) n = Some b" using ht by (simp add: s2(4) ac_write_def)
  have "ac_view (abs s2) n = ac_disk (abs s2) n" by (simp add: s2(4) ac_write_def)
  with rel_law[OF s2(2) h2] obtain s3 where
    s3: "rel b s2 = Ok s3" "inv s3" "keeps s2 s3" "abs s3 = ac_release n (abs s2)" by blast
  have "abs s3 = ac_write n (ac_set n (f (ac_view (abs s) n)) (abs s))"
    using t assms(3) by (simp add: s3(4) s2(4) s1(4) dv ac_release_def ac_read_def ac_write_def ac_set_def fun_upd_idem)
  moreover have "keeps s s3" using s1(3) t s2(3) s3(3) keeps_trans by blast
  ultimately show ?thesis using s1 s2 s3 by blast
qed

end

definition set_data :: "nat \<Rightarrow> byte list \<Rightarrow> 'a bio_st_scheme \<Rightarrow> 'a bio_st_scheme" where
  "set_data b d s = bupd b (\<lambda>x. x\<lparr>b_data := d\<rparr>) s"

lemma babs_coherent:
  assumes inv: "binv c u s" and h: "ac_held (babs s) n = None" "n \<notin> ac_pin (babs s)"
  shows "ac_view (babs s) n = ac_disk (babs s) n"
proof (cases "cached (bcores s) n")
  case None
  then show ?thesis by (simp add: babs_def cabs_def)
next
  case (Some b)
  then have ca: "caches (bcores s) n b" using inv cached_Some by (auto simp: binv_def)
  note ok = caches_ok[OF inv ca] and at = babs_at[OF inv ca]
  have "ac_disk (babs s) n = disk s 1 (unat n)" by (simp add: babs_def cabs_def)
  then show ?thesis using ok h at by (auto simp: buf_ok_def split: if_splits)
qed

lemma babs_sized:
  assumes inv: "binv c u s"
  shows "length (ac_view (babs s) n) = BSIZE"
proof (cases "cached (bcores s) n")
  case None
  then show ?thesis using inv by (simp add: babs_def cabs_def binv_def)
next
  case (Some b)
  then have ca: "caches (bcores s) n b" using inv cached_Some by (auto simp: binv_def)
  show ?thesis using caches_ok(8)[OF inv ca] babs_at(1)[OF inv ca] by simp
qed

interpretation bc: block_cache "binv c u" babs bframe "bread c ROOTDEV" "bwrite c" "brelse c"
    "\<lambda>b s. b_data (buf s b)" set_data for c u
proof (unfold_locales, goal_cases)
  case (1 s) show ?case by (rule bframe_refl)
next
  case (2 s t r) then show ?case by (rule bframe_trans)
next
  case (3 s n) then show ?case by (rule bread_law)
next
  case (4 s n b) then show ?case by (rule bwrite_law)
next
  case (5 s n b) then show ?case by (rule brelse_law)
next
  case (6 s n b) then show ?case by (simp add: babs_at(1)[OF 6(1) babs_held(1)[OF 6]])
next
  case (7 s n b d) then show ?case unfolding set_data_def using held_bupd_ok(1,2)[OF 7(1,2)] bframe_bupd by simp
next
  case (8 s n) then show ?case by (rule babs_coherent)
next
  case (9 s n) then show ?case by (rule babs_sized)
qed

end
