(* ===== verification/Log.thy ===== *)
theory Log
  imports Bio_Iface
begin

unbundle bit_operations_syntax

text \<open>
  The write-ahead log (\<open>log.c\<close>) and \<open>readsb\<close> of \<open>fs.c\<close>, which \<open>initlog\<close> calls.  The in-memory
  \<open>struct log\<close> extends the state; \<open>int\<close> fields are 32-bit words, compared signed.  A
  block is a list of bytes, in which the header fields are read and written as the code
  does through a pointer cast.  An index beyond an array faults.  An operation that has
  to wait for log space does not return (\<open>Hang\<close>) in this sequential model.
\<close>

section \<open>Words in a block\<close>

definition as_mem :: "byte list \<Rightarrow> mem" where
  "as_mem d = (\<lambda>a. if unat a < length d then d ! unat a else 0)"

definition ldw :: "byte list \<Rightarrow> nat \<Rightarrow> uint" where
  "ldw d i = ld32 (as_mem d) (of_nat i)"

definition stw :: "byte list \<Rightarrow> nat \<Rightarrow> uint \<Rightarrow> byte list" where
  "stw d i v = map (\<lambda>k. st32 (as_mem d) (of_nat i) v (of_nat k)) [0..<length d]"

section \<open>log.c\<close>

record superblock =
  sb_size :: uint
  sb_nblocks :: uint
  sb_ninodes :: uint
  sb_nlog :: uint
  sb_logstart :: uint
  sb_inodestart :: uint
  sb_bmapstart :: uint

record log_st = bio_st +
  log_lock :: spinlock
  log_start :: uint
  log_size :: uint
  log_outstanding :: uint
  log_committing :: uint
  log_dev :: uint
  lh_n :: uint
  lh_block :: "nat \<Rightarrow> uint"

definition log_acquire :: "nat \<Rightarrow> 'a log_st_scheme \<Rightarrow> 'a log_st_scheme res" where
  "log_acquire c s = rbind (acquire c (cpus s) (log_lock s)) (\<lambda>(cs, l). Ok (s\<lparr>cpus := cs, log_lock := l\<rparr>))"

definition log_release :: "nat \<Rightarrow> 'a log_st_scheme \<Rightarrow> 'a log_st_scheme res" where
  "log_release c s = rbind (release c (cpus s) (log_lock s)) (\<lambda>(cs, l). Ok (s\<lparr>cpus := cs, log_lock := l\<rparr>))"

text \<open>The tail indices of the loops \<open>for (tail = 0; tail < log.lh.n; tail++)\<close>.\<close>

definition lh_range :: "uint \<Rightarrow> nat list" where
  "lh_range n = [0..<nat (int_of n)]"

definition install_body :: "nat \<Rightarrow> nat \<Rightarrow> 'a log_st_scheme \<Rightarrow> (unit option \<times> 'a log_st_scheme) res" where
  "install_body c i s =
     rbind (bread c (log_dev s) (log_start s + of_nat i + 1) s) (\<lambda>(lbuf, s1).
     if i \<ge> LOGSIZE then Fault
     else rbind (bread c (log_dev s1) (lh_block s1 i) s1) (\<lambda>(dbuf, s2).
          rbind (bwrite c dbuf (set_data dbuf (b_data (buf s2 lbuf)) s2)) (\<lambda>s3.
          rbind (brelse c lbuf s3) (\<lambda>s4.
          rbind (brelse c dbuf s4) (\<lambda>s5. Ok (None, s5))))))"

definition install_trans :: "nat \<Rightarrow> 'a log_st_scheme \<Rightarrow> 'a log_st_scheme res" where
  "install_trans c s = rbind (for_each (install_body c) (lh_range (lh_n s)) s) (\<lambda>(_, s'). Ok s')"

text \<open>\<open>log.lh.block[i] = lh->block[i]\<close> for the first \<open>n\<close> entries.\<close>

definition head_body :: "byte list \<Rightarrow> nat \<Rightarrow> 'a log_st_scheme \<Rightarrow> (unit option \<times> 'a log_st_scheme) res" where
  "head_body d i s =
     (if i \<ge> LOGSIZE then Fault
      else Ok (None, s\<lparr>lh_block := (lh_block s)(i := ldw d (4 + 4 * i))\<rparr>))"

definition read_head :: "nat \<Rightarrow> 'a log_st_scheme \<Rightarrow> 'a log_st_scheme res" where
  "read_head c s =
     rbind (bread c (log_dev s) (log_start s) s) (\<lambda>(b, s1).
     let s2 = s1\<lparr>lh_n := ldw (b_data (buf s1 b)) 0\<rparr>
     in rbind (for_each (head_body (b_data (buf s1 b))) (lh_range (lh_n s2)) s2) (\<lambda>(_, s3).
        brelse c b s3))"

text \<open>\<open>hb->block[i] = log.lh.block[i]\<close> for the first \<open>n\<close> entries.\<close>

definition put_head :: "nat \<Rightarrow> (nat \<Rightarrow> uint) \<Rightarrow> byte list \<Rightarrow> byte list" where
  "put_head n bs d = fold (\<lambda>i d. stw d (4 + 4 * i) (bs i)) [0..<n] d"

definition write_head :: "nat \<Rightarrow> 'a log_st_scheme \<Rightarrow> 'a log_st_scheme res" where
  "write_head c s =
     rbind (bread c (log_dev s) (log_start s) s) (\<lambda>(b, s1).
     let d = stw (b_data (buf s1 b)) 0 (lh_n s1); n = nat (int_of (lh_n s1))
     in if n > LOGSIZE then Fault
        else rbind (bwrite c b (set_data b (put_head n (lh_block s1) d) s1)) (brelse c b))"

definition recover_from_log :: "nat \<Rightarrow> 'a log_st_scheme \<Rightarrow> 'a log_st_scheme res" where
  "recover_from_log c s =
     rbind (read_head c s) (\<lambda>s1.
     rbind (install_trans c s1) (\<lambda>s2.
     write_head c (s2\<lparr>lh_n := 0\<rparr>)))"

text \<open>fs.c: \<open>memmove(sb, bp->data, sizeof(*sb))\<close>\<close>

definition sb_of :: "byte list \<Rightarrow> superblock" where
  "sb_of d = \<lparr>sb_size = ldw d 0, sb_nblocks = ldw d 4, sb_ninodes = ldw d 8, sb_nlog = ldw d 12,
              sb_logstart = ldw d 16, sb_inodestart = ldw d 20, sb_bmapstart = ldw d 24\<rparr>"

definition readsb :: "nat \<Rightarrow> uint \<Rightarrow> 'a log_st_scheme \<Rightarrow> (superblock \<times> 'a log_st_scheme) res" where
  "readsb c dv s =
     rbind (bread c dv 1 s) (\<lambda>(b, s1).
     rbind (brelse c b s1) (\<lambda>s2. Ok (sb_of (b_data (buf s1 b)), s2)))"

definition sizeof_logheader :: nat where "sizeof_logheader = 4 + 4 * LOGSIZE"

definition initlog :: "nat \<Rightarrow> uint \<Rightarrow> 'a log_st_scheme \<Rightarrow> 'a log_st_scheme res" where
  "initlog c dv s =
     (if sizeof_logheader \<ge> BSIZE then Panic ''initlog: too big logheader''
      else rbind (readsb c dv (s\<lparr>log_lock := initlock ''log''\<rparr>)) (\<lambda>(sb, s1).
           recover_from_log c (s1\<lparr>log_start := sb_logstart sb, log_size := sb_nlog sb, log_dev := dv\<rparr>)))"

definition begin_op :: "nat \<Rightarrow> 'a log_st_scheme \<Rightarrow> 'a log_st_scheme res" where
  "begin_op c s =
     rbind (log_acquire c s) (\<lambda>s1.
     if log_committing s1 \<noteq> 0 then Hang
     else if int_of (lh_n s1) + (int_of (log_outstanding s1) + 1) * int MAXOPBLOCKS > int LOGSIZE then Hang
     else log_release c (s1\<lparr>log_outstanding := log_outstanding s1 + 1\<rparr>))"

definition write_log_body :: "nat \<Rightarrow> nat \<Rightarrow> 'a log_st_scheme \<Rightarrow> (unit option \<times> 'a log_st_scheme) res" where
  "write_log_body c i s =
     rbind (bread c (log_dev s) (log_start s + of_nat i + 1) s) (\<lambda>(to, s1).
     if i \<ge> LOGSIZE then Fault
     else rbind (bread c (log_dev s1) (lh_block s1 i) s1) (\<lambda>(from, s2).
          rbind (bwrite c to (set_data to (b_data (buf s2 from)) s2)) (\<lambda>s3.
          rbind (brelse c from s3) (\<lambda>s4.
          rbind (brelse c to s4) (\<lambda>s5. Ok (None, s5))))))"

definition write_log :: "nat \<Rightarrow> 'a log_st_scheme \<Rightarrow> 'a log_st_scheme res" where
  "write_log c s = rbind (for_each (write_log_body c) (lh_range (lh_n s)) s) (\<lambda>(_, s'). Ok s')"

definition commit :: "nat \<Rightarrow> 'a log_st_scheme \<Rightarrow> 'a log_st_scheme res" where
  "commit c s =
     (if int_of (lh_n s) > 0
      then rbind (write_log c s) (\<lambda>s1.
           rbind (write_head c s1) (\<lambda>s2.
           rbind (install_trans c s2) (\<lambda>s3.
           write_head c (s3\<lparr>lh_n := 0\<rparr>))))
      else Ok s)"

definition end_op :: "nat \<Rightarrow> 'a log_st_scheme \<Rightarrow> 'a log_st_scheme res" where
  "end_op c s =
     rbind (log_acquire c s) (\<lambda>s1.
     let s2 = s1\<lparr>log_outstanding := log_outstanding s1 - 1\<rparr>
     in if log_committing s2 \<noteq> 0 then Panic ''log.committing''
        else if log_outstanding s2 = 0
        then rbind (log_release c (s2\<lparr>log_committing := 1\<rparr>)) (\<lambda>s3.
             rbind (commit c s3) (\<lambda>s4.
             rbind (log_acquire c s4) (\<lambda>s5.
             rbind (wakeup c Ch_log (s5\<lparr>log_committing := 0\<rparr>)) (log_release c))))
        else rbind (wakeup c Ch_log s2) (log_release c))"

text \<open>The search for the block in the header: the first index that holds it, or \<open>n\<close>.\<close>

definition log_slot :: "uint \<Rightarrow> 'a log_st_scheme \<Rightarrow> nat res" where
  "log_slot bno s =
     rbind (for_each (\<lambda>i (_ :: unit). if i \<ge> LOGSIZE then Fault
                       else Ok (if lh_block s i = bno then Some i else None, ()))
              (lh_range (lh_n s)) ()) (\<lambda>(r, _).
     Ok (case r of Some i \<Rightarrow> i | None \<Rightarrow> nat (int_of (lh_n s))))"

definition log_write :: "nat \<Rightarrow> nat \<Rightarrow> 'a log_st_scheme \<Rightarrow> 'a log_st_scheme res" where
  "log_write c b s =
     (if int_of (lh_n s) \<ge> int LOGSIZE \<or> int_of (lh_n s) \<ge> int_of (log_size s) - 1
      then Panic ''too big a transaction''
      else if int_of (log_outstanding s) < 1 then Panic ''log_write outside of trans''
      else rbind (log_acquire c s) (\<lambda>s1.
           rbind (log_slot (b_blockno (buf s1 b)) s1) (\<lambda>i.
           let s2 = s1\<lparr>lh_block := (lh_block s1)(i := b_blockno (buf s1 b))\<rparr>;
               s3 = (if int i = int_of (lh_n s2) then s2\<lparr>lh_n := lh_n s2 + 1\<rparr> else s2)
           in log_release c (bupd b (\<lambda>x. x\<lparr>b_flags := b_flags x OR B_DIRTY\<rparr>) s3))))"

end
