(* ===== verification/Log_Thms.thy ===== *)
theory Log_Thms
  imports Log
begin

unbundle bit_operations_syntax

text \<open>
  The log: what \<open>write_log\<close>, \<open>write_head\<close> and \<open>install_trans\<close> do to the disk, in which order,
  and that a crash at any point of \<open>commit\<close> is repaired by \<open>recover_from_log\<close> to the state
  before the transaction or to the state after it.
\<close>

section \<open>Words in a block\<close>

lemma length_stw [simp]: "length (stw d i v) = length d"
  by (simp add: stw_def)

lemma as_mem_stw:
  assumes "i + 4 \<le> length d" "length d < 2 ^ 32"
  shows "as_mem (stw d i v) = st32 (as_mem d) (of_nat i) v"
proof
  fix a :: uint
  show "as_mem (stw d i v) a = st32 (as_mem d) (of_nat i) v a"
  proof (cases "unat a < length d")
    case True
    then have "as_mem (stw d i v) a = stw d i v ! unat a" by (simp add: as_mem_def)
    then show ?thesis using True by (simp add: stw_def)
  next
    case False
    have "a \<noteq> of_nat i + of_nat k" if "k < 4" for k
    proof
      assume "a = of_nat i + of_nat k"
      then have "a = of_nat (i + k)" by simp
      then have "unat a = i + k" using that assms by (simp add: unat_of_nat_uint del: of_nat_add)
      then show False using False that assms by linarith
    qed
    then have "st32 (as_mem d) (of_nat i) v a = as_mem d a" by (rule st32_outside)
    then show ?thesis using False by (simp add: as_mem_def)
  qed
qed

lemma ldw_stw_same: "i + 4 \<le> length d \<Longrightarrow> length d < 2 ^ 32 \<Longrightarrow> ldw (stw d i v) i = v"
  by (simp add: ldw_def as_mem_stw)

lemma ldw_stw_other:
  assumes "4 * i + 4 \<le> length d" "4 * j + 4 \<le> length d" "length d < 2 ^ 32" "i \<noteq> j"
  shows "ldw (stw d (4 * i) v) (4 * j) = ldw d (4 * j)"
proof -
  have a: "aligned4 (of_nat (4 * k))" if "4 * k + 4 \<le> length d" for k
    using that assms(3) by (simp add: aligned4_def unat_of_nat_uint del: of_nat_mult)
  have "(of_nat (4 * i) :: uint) \<noteq> of_nat (4 * j)"
  proof
    assume "(of_nat (4 * i) :: uint) = of_nat (4 * j)"
    then have "unat (of_nat (4 * i) :: uint) = unat (of_nat (4 * j) :: uint)" by simp
    then show False using assms by (simp add: unat_of_nat_uint del: of_nat_mult)
  qed
  then have "ld32 (st32 (as_mem d) (of_nat (4 * i)) v) (of_nat (4 * j)) = ld32 (as_mem d) (of_nat (4 * j))"
    by (intro ld32_st32_other a assms)
  then show ?thesis unfolding ldw_def using assms(1,3) by (simp only: as_mem_stw)
qed

section \<open>The header block\<close>

lemma length_put_head [simp]: "length (put_head n bs d) = length d"
  by (induction n) (simp_all add: put_head_def)

lemma put_head_Suc: "put_head (Suc n) bs d = stw (put_head n bs d) (4 * Suc n) (bs n)"
  by (simp add: put_head_def)

lemma put_head_0 [simp]: "put_head 0 bs d = d"
  by (simp add: put_head_def)

lemma ldw_put_head:
  assumes "4 * n + 4 \<le> length d" "length d < 2 ^ 32" "4 * j + 4 \<le> length d"
  shows "ldw (put_head n bs d) (4 * j) = (if 0 < j \<and> j \<le> n then bs (j - 1) else ldw d (4 * j))"
  using assms(1)
proof (induction n)
  case 0
  then show ?case by (cases j) simp_all
next
  case (Suc n)
  show ?case
  proof (cases "j = Suc n")
    case True
    then show ?thesis using Suc.prems assms unfolding put_head_Suc by (simp add: ldw_stw_same)
  next
    case False
    then have "ldw (put_head (Suc n) bs d) (4 * j) = ldw (put_head n bs d) (4 * j)"
      unfolding put_head_Suc using Suc.prems assms by (intro ldw_stw_other) auto
    then show ?thesis using Suc False by auto
  qed
qed

text \<open>The header the log writes, and what recovery reads from it.\<close>

definition head_of :: "nat \<Rightarrow> (nat \<Rightarrow> uint) \<Rightarrow> byte list \<Rightarrow> byte list" where
  "head_of n bs d = put_head n bs (stw d 0 (of_nat n))"

lemma head_of_facts:
  assumes "n \<le> LOGSIZE" "length d = BSIZE"
  shows "length (head_of n bs d) = BSIZE" "ldw (head_of n bs d) 0 = of_nat n"
    "i < n \<Longrightarrow> ldw (head_of n bs d) (4 + 4 * i) = bs i"
proof -
  have b: "4 * n + 4 \<le> length (stw d 0 (of_nat n))" "length (stw d 0 (of_nat n)) < 2 ^ 32"
    using assms by (simp_all add: LOGSIZE_def MAXOPBLOCKS_def BSIZE_def)
  show "length (head_of n bs d) = BSIZE" using assms(2) by (simp add: head_of_def)
  show "ldw (head_of n bs d) 0 = of_nat n"
    using ldw_put_head[OF b, of 0 bs] assms(2) by (simp add: head_of_def ldw_stw_same BSIZE_def)
  show "ldw (head_of n bs d) (4 + 4 * i) = bs i" if "i < n"
  proof -
    have "4 * Suc i + 4 \<le> length (stw d 0 (of_nat n))" using that b(1) by simp
    from ldw_put_head[OF b this, of bs] show ?thesis using that by (simp add: head_of_def)
  qed
qed

section \<open>Sequences of block copies\<close>

definition ac_copy :: "uint \<Rightarrow> uint \<Rightarrow> acache \<Rightarrow> acache" where
  "ac_copy dst src A = ac_write dst (ac_set dst (ac_view A src) A)"

fun put_all :: "(nat \<Rightarrow> 'k) \<Rightarrow> (nat \<Rightarrow> 'v) \<Rightarrow> nat \<Rightarrow> ('k \<Rightarrow> 'v) \<Rightarrow> 'k \<Rightarrow> 'v" where
  "put_all ks vs 0 D = D"
| "put_all ks vs (Suc n) D = (put_all ks vs n D)(ks n := vs n)"

lemma put_all_other: "m \<notin> ks ` {..<n} \<Longrightarrow> put_all ks vs n D m = D m"
  by (induction n) (auto simp: lessThan_Suc)

lemma put_all_at: "inj_on ks {..<n} \<Longrightarrow> i < n \<Longrightarrow> put_all ks vs n D (ks i) = vs i"
proof (induction n)
  case (Suc n)
  then have "i < n \<Longrightarrow> ks i \<noteq> ks n" by (auto simp: inj_on_def)
  then show ?case using Suc by (auto simp: lessThan_Suc less_Suc_eq)
qed simp

lemma put_all_cong: "(\<And>i. i < n \<Longrightarrow> ks i = ks' i \<and> vs i = vs' i) \<Longrightarrow> put_all ks vs n D = put_all ks' vs' n D"
  by (induction n) auto

primrec copies :: "(nat \<Rightarrow> uint) \<Rightarrow> (nat \<Rightarrow> uint) \<Rightarrow> nat \<Rightarrow> acache \<Rightarrow> acache" where
  "copies dst src 0 A = A"
| "copies dst src (Suc n) A = ac_copy (dst n) (src n) (copies dst src n A)"

lemma copies_eq:
  assumes "\<And>i j. i < n \<Longrightarrow> j < n \<Longrightarrow> dst i \<noteq> src j"
  shows "copies dst src n A = A
    \<lparr>ac_disk := put_all dst (\<lambda>i. ac_view A (src i)) n (ac_disk A),
     ac_view := put_all dst (\<lambda>i. ac_view A (src i)) n (ac_view A),
     ac_pin := ac_pin A - dst ` {..<n},
     ac_writes := ac_writes A @ map (\<lambda>i. (1, unat (dst i), ac_view A (src i))) [0..<n]\<rparr>"
  using assms
proof (induction n)
  case 0
  then show ?case by simp
next
  case (Suc n)
  have IH: "copies dst src n A = A
    \<lparr>ac_disk := put_all dst (\<lambda>i. ac_view A (src i)) n (ac_disk A),
     ac_view := put_all dst (\<lambda>i. ac_view A (src i)) n (ac_view A),
     ac_pin := ac_pin A - dst ` {..<n},
     ac_writes := ac_writes A @ map (\<lambda>i. (1, unat (dst i), ac_view A (src i))) [0..<n]\<rparr>"
    using Suc.IH Suc.prems by simp
  have "src n \<noteq> dst i" if "i < n" for i using Suc.prems[of i n] that by simp
  then have "src n \<notin> dst ` {..<n}" by blast
  then have "ac_view (copies dst src n A) (src n) = ac_view A (src n)" unfolding IH by (simp add: put_all_other)
  then have "copies dst src (Suc n) A = ac_write (dst n) (ac_set (dst n) (ac_view A (src n)) (copies dst src n A))"
    by (simp add: ac_copy_def)
  also have "\<dots> = A
    \<lparr>ac_disk := put_all dst (\<lambda>i. ac_view A (src i)) (Suc n) (ac_disk A),
     ac_view := put_all dst (\<lambda>i. ac_view A (src i)) (Suc n) (ac_view A),
     ac_pin := ac_pin A - dst ` {..<Suc n},
     ac_writes := ac_writes A @ map (\<lambda>i. (1, unat (dst i), ac_view A (src i))) [0..<Suc n]\<rparr>"
    unfolding IH by (auto simp: ac_write_def ac_set_def lessThan_Suc intro!: acache.equality)
  finally show ?case .
qed

context block_cache begin

text \<open>Two blocks are read.\<close>

lemma rd_room:
  assumes "inv s" "n < FSSIZE" "ac_held (abs s) n = None" "card (insert n (ac_busy (abs s))) \<le> NBUF"
  shows "\<exists>b s'. rd n s = Ok (b, s') \<and> inv s' \<and> keeps s s' \<and> abs s' = ac_read n b (abs s)"
proof (rule rd_law[OF assms(1-3)])
  have "card (ac_busy (abs s)) < NBUF" if "n \<notin> ac_busy (abs s)" using that assms(4) by (simp add: card_insert_if)
  then show "n \<in> ac_pin (abs s) \<or> card (ac_busy (abs s)) < NBUF"
    using assms(3) by (auto simp: ac_busy_def)
qed

lemma rd_two:
  assumes "inv s" "x < FSSIZE" "y < FSSIZE" "x \<noteq> y" "ac_held (abs s) x = None" "ac_held (abs s) y = None"
    and room: "card (insert y (insert x (ac_busy (abs s)))) \<le> NBUF"
  shows "\<exists>b s1 d s2. rd x s = Ok (b, s1) \<and> keeps s s1 \<and> rd y s1 = Ok (d, s2) \<and> inv s2 \<and> keeps s s2 \<and>
    abs s2 = ac_read y d (ac_read x b (abs s))"
proof -
  have "card (insert x (ac_busy (abs s))) \<le> card (insert y (insert x (ac_busy (abs s))))" by (intro card_mono) auto
  then have "card (insert x (ac_busy (abs s))) \<le> NBUF" using room by linarith
  from rd_room[OF assms(1,2,5) this] obtain b s1 where
    s1: "rd x s = Ok (b, s1)" "inv s1" "keeps s s1" "abs s1 = ac_read x b (abs s)" by blast
  have "ac_busy (abs s1) = insert x (ac_busy (abs s))" by (auto simp: s1(4) ac_read_def ac_busy_def)
  then have "card (insert y (ac_busy (abs s1))) \<le> NBUF" using room by simp
  moreover have "ac_held (abs s1) y = None" using assms(4,6) by (simp add: s1(4) ac_read_def)
  ultimately obtain d s2 where s2: "rd y s1 = Ok (d, s2)" "inv s2" "keeps s1 s2" "abs s2 = ac_read y d (abs s1)"
    using rd_room[OF s1(2) assms(3)] by blast
  have "keeps s s2" using s1(3) s2(3) by (rule keeps_trans)
  then show ?thesis using s1 s2 by auto
qed

text \<open>The contents of one held block go to the other one, which is written; both are released.\<close>

lemma copy_tail:
  assumes "inv s" "ac_held (abs s) d = Some bd" "ac_held (abs s) r = Some br" "d \<noteq> r"
    and cl: "r \<in> ac_pin (abs s) \<or> ac_view (abs s) r = ac_disk (abs s) r"
  shows "\<exists>s3 s4 s5. wr bd (setdata bd (data br s) s) = Ok s3 \<and> rel br s3 = Ok s4 \<and> rel bd s4 = Ok s5 \<and>
    inv s5 \<and> keeps s s5 \<and> abs s5 = ac_release d (ac_release r (ac_copy d r (abs s)))"
proof -
  have dv: "data br s = ac_view (abs s) r" using data_law[OF assms(1,3)] .
  have "length (data br s) = BSIZE" using sized[OF assms(1)] by (simp add: dv)
  note t = setdata_law[OF assms(1,2) this]
  let ?t = "setdata bd (data br s) s"
  have "ac_held (abs ?t) d = Some bd" using t assms(2) by (simp add: ac_set_def)
  with wr_law[of ?t] t obtain s3 where
    s3: "wr bd ?t = Ok s3" "inv s3" "keeps ?t s3" "abs s3 = ac_write d (abs ?t)" by blast
  have a3: "abs s3 = ac_copy d r (abs s)" using t by (simp add: s3(4) ac_copy_def dv)
  have h3: "ac_held (abs s3) r = Some br" "ac_held (abs s3) d = Some bd"
    using assms(2,3) by (simp_all add: a3 ac_copy_def ac_write_def ac_set_def)
  have "r \<in> ac_pin (abs s3) \<or> ac_view (abs s3) r = ac_disk (abs s3) r"
    using cl assms(4) by (auto simp: a3 ac_copy_def ac_write_def ac_set_def)
  from rel_law[OF s3(2) h3(1) this] obtain s4 where
    s4: "rel br s3 = Ok s4" "inv s4" "keeps s3 s4" "abs s4 = ac_release r (abs s3)" by blast
  have "ac_held (abs s4) d = Some bd" using h3(2) assms(4) by (simp add: s4(4) ac_release_def)
  moreover have "ac_view (abs s4) d = ac_disk (abs s4) d"
    by (simp add: s4(4) a3 ac_release_def ac_copy_def ac_write_def)
  ultimately obtain s5 where
    s5: "rel bd s4 = Ok s5" "inv s5" "keeps s4 s5" "abs s5 = ac_release d (abs s4)"
    using rel_law[OF s4(2)] by blast
  have "keeps s s5" using t s3(3) s4(3) s5(3) keeps_trans by blast
  then show ?thesis using s3(1) s4(1) s5 by (auto simp: s4(4) a3)
qed

lemma read_both:
  assumes "ac_held A x = None" "ac_held A y = None" "x \<noteq> y"
  shows "ac_release x (ac_release y (ac_copy x y (ac_read y d (ac_read x b A)))) = ac_copy x y A"
    "ac_release y (ac_release x (ac_copy y x (ac_read y d (ac_read x b A)))) = ac_copy y x A"
  using assms by (auto simp: ac_release_def ac_read_def ac_copy_def ac_write_def ac_set_def intro!: acache.equality)

text \<open>The loop bodies of \<open>write_log\<close> (the destination is read first) and \<open>install_trans\<close>.\<close>

lemma copy_down:
  assumes "inv s" "x < FSSIZE" "y < FSSIZE" "x \<noteq> y" "ac_held (abs s) x = None" "ac_held (abs s) y = None"
    and "card (insert y (insert x (ac_busy (abs s)))) \<le> NBUF"
  shows "\<exists>b s1 d s2 s3 s4 s5. rd x s = Ok (b, s1) \<and> keeps s s1 \<and> rd y s1 = Ok (d, s2) \<and>
    wr b (setdata b (data d s2) s2) = Ok s3 \<and> rel d s3 = Ok s4 \<and> rel b s4 = Ok s5 \<and>
    inv s5 \<and> keeps s s5 \<and> abs s5 = ac_copy x y (abs s)"
proof -
  obtain b s1 d s2 where s: "rd x s = Ok (b, s1)" "keeps s s1" "rd y s1 = Ok (d, s2)" "inv s2" "keeps s s2"
    and a: "abs s2 = ac_read y d (ac_read x b (abs s))" using rd_two[OF assms] by blast
  have "y \<in> ac_pin (abs s2) \<or> ac_view (abs s2) y = ac_disk (abs s2) y"
    using coherent[OF assms(1,6)] by (auto simp: a ac_read_def)
  moreover have "ac_held (abs s2) x = Some b" "ac_held (abs s2) y = Some d"
    using assms(4) by (simp_all add: a ac_read_def)
  ultimately obtain s3 s4 s5 where e: "wr b (setdata b (data d s2) s2) = Ok s3" "rel d s3 = Ok s4" "rel b s4 = Ok s5"
    "inv s5" "keeps s2 s5" "abs s5 = ac_release x (ac_release y (ac_copy x y (abs s2)))"
    using copy_tail[OF s(4), of x b y d] assms(4) by auto
  have "abs s5 = ac_copy x y (abs s)" unfolding e(6) a by (rule read_both(1)[OF assms(5,6,4)])
  moreover have "keeps s s5" using s(5) e(5) by (rule keeps_trans)
  ultimately show ?thesis using s(1-3) e(1-4) by blast
qed

lemma copy_up:
  assumes "inv s" "x < FSSIZE" "y < FSSIZE" "x \<noteq> y" "ac_held (abs s) x = None" "ac_held (abs s) y = None"
    and "card (insert y (insert x (ac_busy (abs s)))) \<le> NBUF"
  shows "\<exists>b s1 d s2 s3 s4 s5. rd x s = Ok (b, s1) \<and> keeps s s1 \<and> rd y s1 = Ok (d, s2) \<and>
    wr d (setdata d (data b s2) s2) = Ok s3 \<and> rel b s3 = Ok s4 \<and> rel d s4 = Ok s5 \<and>
    inv s5 \<and> keeps s s5 \<and> abs s5 = ac_copy y x (abs s)"
proof -
  obtain b s1 d s2 where s: "rd x s = Ok (b, s1)" "keeps s s1" "rd y s1 = Ok (d, s2)" "inv s2" "keeps s s2"
    and a: "abs s2 = ac_read y d (ac_read x b (abs s))" using rd_two[OF assms] by blast
  have "x \<in> ac_pin (abs s2) \<or> ac_view (abs s2) x = ac_disk (abs s2) x"
    using coherent[OF assms(1,5)] by (auto simp: a ac_read_def)
  moreover have "ac_held (abs s2) x = Some b" "ac_held (abs s2) y = Some d"
    using assms(4) by (simp_all add: a ac_read_def)
  ultimately obtain s3 s4 s5 where e: "wr d (setdata d (data b s2) s2) = Ok s3" "rel b s3 = Ok s4" "rel d s4 = Ok s5"
    "inv s5" "keeps s2 s5" "abs s5 = ac_release y (ac_release x (ac_copy y x (abs s2)))"
    using copy_tail[OF s(4), of y d x b] assms(4) by auto
  have "abs s5 = ac_copy y x (abs s)" unfolding e(6) a by (rule read_both(2)[OF assms(5,6,4)])
  moreover have "keeps s s5" using s(5) e(5) by (rule keeps_trans)
  ultimately show ?thesis using s(1-3) e(1-4) by blast
qed

end

section \<open>The loops of log.c\<close>

lemma for_each_upto:
  assumes "P 0 s" "\<And>k s. k < n \<Longrightarrow> P k s \<Longrightarrow> \<exists>s'. f k s = Ok (None, s') \<and> P (Suc k) s'"
  shows "\<exists>s'. for_each f [0..<n] s = Ok (None, s') \<and> P n s'"
  using assms(2)
proof (induction n)
  case 0
  then show ?case using assms(1) by simp
next
  case (Suc n)
  then obtain t where t: "for_each f [0..<n] s = Ok (None, t)" "P n t" by fastforce
  obtain t' where "f n t = Ok (None, t')" "P (Suc n) t'" using Suc.prems[of n t] t(2) by auto
  then show ?case using t(1) by (simp add: for_each_append)
qed

lemma bframe_log:
  fixes s t :: "'a log_st_scheme"
  assumes "bframe s t"
  shows "log_lock t = log_lock s" "log_start t = log_start s" "log_size t = log_size s"
    "log_outstanding t = log_outstanding s" "log_committing t = log_committing s" "log_dev t = log_dev s"
    "lh_n t = lh_n s" "lh_block t = lh_block s"
  using arg_cong[OF assms[unfolded bframe_def], of log_lock] arg_cong[OF assms[unfolded bframe_def], of log_start]
    arg_cong[OF assms[unfolded bframe_def], of log_size] arg_cong[OF assms[unfolded bframe_def], of log_outstanding]
    arg_cong[OF assms[unfolded bframe_def], of log_committing] arg_cong[OF assms[unfolded bframe_def], of log_dev]
    arg_cong[OF assms[unfolded bframe_def], of lh_n] arg_cong[OF assms[unfolded bframe_def], of lh_block]
  by (simp_all add: bview_def)

lemma bframe_log_more:
  fixes s t :: "'a log_st_scheme"
  assumes "bframe s t"
  shows "log_st.more t = log_st.more s"
  using arg_cong[OF assms[unfolded bframe_def], of log_st.more] by (simp add: bview_def)

text \<open>Home of the \<open>i\<close>-th logged block in the log.\<close>

definition lblk :: "'a log_st_scheme \<Rightarrow> nat \<Rightarrow> uint" where
  "lblk s i = log_start s + of_nat i + 1"

definition larea :: "'a log_st_scheme \<Rightarrow> nat \<Rightarrow> uint set" where
  "larea s n = insert (log_start s) (lblk s ` {..<n})"

definition log_room :: "nat \<Rightarrow> uint \<Rightarrow> 'a log_st_scheme \<Rightarrow> nat \<Rightarrow> bool" where
  "log_room c u s n \<longleftrightarrow>
     binv c u s \<and> log_dev s = ROOTDEV \<and> ac_held (babs s) = (\<lambda>_. None) \<and> n \<le> LOGSIZE \<and>
     unat (log_start s) + n < unat FSSIZE \<and> card (ac_pin (babs s)) < NBUF \<and>
     (\<forall>i < n. lh_block s i < FSSIZE \<and> lh_block s i \<notin> larea s n \<and> card (insert (lh_block s i) (ac_pin (babs s))) < NBUF)"

lemma lblk_unat:
  assumes "unat (log_start s) + n < unat FSSIZE" "i < n"
  shows "unat (lblk s i) = unat (log_start s) + i + 1" "lblk s i < FSSIZE"
proof -
  have "of_nat (unat (log_start s) + i + 1) = lblk s i" by (simp add: lblk_def)
  moreover have "unat (of_nat (unat (log_start s) + i + 1) :: uint) = unat (log_start s) + i + 1"
    using assms by (intro unat_of_nat_uint) (simp add: FSSIZE_def)
  ultimately show e: "unat (lblk s i) = unat (log_start s) + i + 1" by simp
  show "lblk s i < FSSIZE" unfolding word_less_nat_alt e using assms by linarith
qed

lemma lblk_inj:
  assumes "unat (log_start s) + n < unat FSSIZE"
  shows "inj_on (lblk s) {..<n}"
  by (rule inj_onI) (metis add_right_cancel add_left_cancel assms lblk_unat(1) lessThan_iff)

lemma copies_pin: "ac_pin (copies dst src n A) \<subseteq> ac_pin A" "ac_held (copies dst src n A) = ac_held A"
  by (induction n) (auto simp: ac_copy_def ac_write_def ac_set_def)

lemma room_step:
  assumes "log_room c u s n" "k < n" "P \<subseteq> ac_pin (babs s)"
  shows "card (insert (lh_block s k) (insert (lblk s k) (dom (\<lambda>_ :: uint. None :: nat option) \<union> P))) \<le> NBUF"
proof -
  have "card (insert (lh_block s k) (insert (lblk s k) P)) \<le> Suc (card (insert (lh_block s k) P))"
    by (subst insert_commute) (simp add: card_insert_if)
  also have "card (insert (lh_block s k) P) \<le> card (insert (lh_block s k) (ac_pin (babs s)))"
    using assms(3) by (intro card_mono) auto
  also have "\<dots> < NBUF" using assms by (simp add: log_room_def)
  finally show ?thesis by simp
qed

lemma log_roomD:
  assumes "log_room c u s n" "k < n"
  shows "lblk s k < FSSIZE" "lh_block s k < FSSIZE" "j < n \<Longrightarrow> lblk s j \<noteq> lh_block s k" "lh_block s k \<noteq> log_start s"
    "log_start s \<noteq> lblk s k"
proof -
  show "lblk s k < FSSIZE" using assms lblk_unat(2) by (auto simp: log_room_def)
  have o: "lh_block s k \<notin> larea s n" using assms by (simp add: log_room_def)
  show "lh_block s k < FSSIZE" using assms by (simp add: log_room_def)
  have "j < n \<Longrightarrow> lblk s j \<in> larea s n" "log_start s \<in> larea s n" by (simp_all add: larea_def)
  then show "j < n \<Longrightarrow> lblk s j \<noteq> lh_block s k" "lh_block s k \<noteq> log_start s" using o by metis+
  show "log_start s \<noteq> lblk s k" using lblk_unat(1)[of s n k] assms by (auto simp: log_room_def)
qed

lemma write_log_ok:
  assumes r: "log_room c u s n" and n: "nat (int_of (lh_n s)) = n"
  shows "\<exists>t. write_log c s = Ok t \<and> binv c u t \<and> bframe s t \<and> babs t = copies (lblk s) (lh_block s) n (babs s)"
proof -
  let ?P = "\<lambda>k t. binv c u t \<and> bframe s t \<and> babs t = copies (lblk s) (lh_block s) k (babs s)"
  have "\<exists>t. for_each (write_log_body c) [0..<n] s = Ok (None, t) \<and> ?P n t"
  proof (rule for_each_upto)
    show "?P 0 s" using r bframe_refl by (auto simp: log_room_def)
  next
    fix k t assume k: "k < n" and P: "?P k t"
    note fr = bframe_log[OF conjunct1[OF conjunct2[OF P]]]
    have h: "ac_held (babs t) = (\<lambda>_. None)" using P r copies_pin(2) by (simp add: log_room_def)
    have pin: "ac_pin (babs t) \<subseteq> ac_pin (babs s)" using P copies_pin(1) by simp
    note L = log_roomD(1)[OF r k] and B = log_roomD(2)[OF r k] log_roomD(3)[OF r k k]
    have room: "card (insert (lh_block s k) (insert (lblk s k) (ac_busy (babs t)))) \<le> NBUF"
      using room_step[OF r k pin] by (simp add: ac_busy_def h)
    obtain b s1 d s2 s3 s4 s5 where *: "bread c ROOTDEV (lblk s k) t = Ok (b, s1)" "bframe t s1"
      "bread c ROOTDEV (lh_block s k) s1 = Ok (d, s2)" "bwrite c b (set_data b (b_data (buf s2 d)) s2) = Ok s3"
      "brelse c d s3 = Ok s4" "brelse c b s4 = Ok s5" "binv c u s5" "bframe t s5"
      "babs s5 = ac_copy (lblk s k) (lh_block s k) (babs t)"
      using bc.copy_down[of c u t, OF _ L B(1) B(2) _ _ room] P h by auto
    note fr1 = bframe_log[OF *(2)]
    have "k < LOGSIZE" using r k by (simp add: log_room_def)
    then have "write_log_body c k t = Ok (None, s5)"
      using * r by (simp add: write_log_body_def fr fr1 log_room_def lblk_def)
    moreover have "bframe s s5" using P *(8) bframe_trans by blast
    ultimately show "\<exists>s'. write_log_body c k t = Ok (None, s') \<and> ?P (Suc k) s'" using * P by auto
  qed
  then show ?thesis by (auto simp: write_log_def lh_range_def n)
qed

lemma install_ok:
  assumes r: "log_room c u s n" and n: "nat (int_of (lh_n s)) = n"
  shows "\<exists>t. install_trans c s = Ok t \<and> binv c u t \<and> bframe s t \<and> babs t = copies (lh_block s) (lblk s) n (babs s)"
proof -
  let ?P = "\<lambda>k t. binv c u t \<and> bframe s t \<and> babs t = copies (lh_block s) (lblk s) k (babs s)"
  have "\<exists>t. for_each (install_body c) [0..<n] s = Ok (None, t) \<and> ?P n t"
  proof (rule for_each_upto)
    show "?P 0 s" using r bframe_refl by (auto simp: log_room_def)
  next
    fix k t assume k: "k < n" and P: "?P k t"
    note fr = bframe_log[OF conjunct1[OF conjunct2[OF P]]]
    have h: "ac_held (babs t) = (\<lambda>_. None)" using P r copies_pin(2) by (simp add: log_room_def)
    have pin: "ac_pin (babs t) \<subseteq> ac_pin (babs s)" using P copies_pin(1) by simp
    note L = log_roomD(1)[OF r k] and B = log_roomD(2)[OF r k] log_roomD(3)[OF r k k]
    have room: "card (insert (lh_block s k) (insert (lblk s k) (ac_busy (babs t)))) \<le> NBUF"
      using room_step[OF r k pin] by (simp add: ac_busy_def h)
    obtain b s1 d s2 s3 s4 s5 where *: "bread c ROOTDEV (lblk s k) t = Ok (b, s1)" "bframe t s1"
      "bread c ROOTDEV (lh_block s k) s1 = Ok (d, s2)" "bwrite c d (set_data d (b_data (buf s2 b)) s2) = Ok s3"
      "brelse c b s3 = Ok s4" "brelse c d s4 = Ok s5" "binv c u s5" "bframe t s5"
      "babs s5 = ac_copy (lh_block s k) (lblk s k) (babs t)"
      using bc.copy_up[of c u t, OF _ L B(1) B(2) _ _ room] P h by auto
    note fr1 = bframe_log[OF *(2)]
    have "k < LOGSIZE" using r k by (simp add: log_room_def)
    then have "install_body c k t = Ok (None, s5)"
      using * r by (simp add: install_body_def fr fr1 log_room_def lblk_def)
    moreover have "bframe s s5" using P *(8) bframe_trans by blast
    ultimately show "\<exists>s'. install_body c k t = Ok (None, s') \<and> ?P (Suc k) s'" using * P by auto
  qed
  then show ?thesis by (auto simp: install_trans_def lh_range_def n)
qed

section \<open>The header\<close>

lemma log_fields_calm [simp]:
  fixes s :: "'a log_st_scheme"
  shows "calm c u (s\<lparr>lh_n := n\<rparr>) = calm c u s" "calm c u (s\<lparr>lh_block := f\<rparr>) = calm c u s"
    "calm c u (s\<lparr>log_lock := l\<rparr>) = calm c u s" "calm c u (s\<lparr>log_outstanding := x\<rparr>) = calm c u s"
    "calm c u (s\<lparr>log_committing := y\<rparr>) = calm c u s" "calm c u (s\<lparr>log_start := a\<rparr>) = calm c u s"
    "calm c u (s\<lparr>log_size := b\<rparr>) = calm c u s" "calm c u (s\<lparr>log_dev := v\<rparr>) = calm c u s"
  by (rule iffI; erule calm_cong; simp)+

lemma binv_cong:
  assumes "calm c u t = calm c u s" "idelock t = idelock s" "idequeue t = idequeue s" "ide_err t = ide_err s"
    "bcache_lock t = bcache_lock s" "havedisk1 t = havedisk1 s" "buf t = buf s" "disk t = disk s"
  shows "binv c u t = binv c u s"
proof -
  have "nexts_b t = nexts_b s" "prevs_b t = prevs_b s" "bcores t = bcores s"
    using assms(7) by (simp_all add: nexts_b_def[abs_def] prevs_b_def[abs_def] bcores_def[abs_def])
  then show ?thesis using assms by (simp add: binv_def ide_idle_def lru_def)
qed

lemma babs_cong: "buf t = buf s \<Longrightarrow> disk t = disk s \<Longrightarrow> disk_writes t = disk_writes s \<Longrightarrow> babs t = babs s"
  by (simp add: babs_def bcores_def[abs_def])

lemma log_fields_binv [simp]:
  fixes s :: "'a log_st_scheme"
  shows "binv c u (s\<lparr>lh_n := n\<rparr>) = binv c u s" "binv c u (s\<lparr>lh_block := f\<rparr>) = binv c u s"
    "binv c u (s\<lparr>log_lock := l\<rparr>) = binv c u s" "binv c u (s\<lparr>log_outstanding := x\<rparr>) = binv c u s"
    "binv c u (s\<lparr>log_committing := y\<rparr>) = binv c u s" "binv c u (s\<lparr>log_start := a\<rparr>) = binv c u s"
    "binv c u (s\<lparr>log_size := b\<rparr>) = binv c u s" "binv c u (s\<lparr>log_dev := v\<rparr>) = binv c u s"
  by (rule binv_cong; simp)+

lemma log_fields_babs [simp]:
  fixes s :: "'a log_st_scheme"
  shows "babs (s\<lparr>lh_n := n\<rparr>) = babs s" "babs (s\<lparr>lh_block := f\<rparr>) = babs s" "babs (s\<lparr>log_lock := l\<rparr>) = babs s"
    "babs (s\<lparr>log_outstanding := x\<rparr>) = babs s" "babs (s\<lparr>log_committing := y\<rparr>) = babs s"
    "babs (s\<lparr>log_start := a\<rparr>) = babs s" "babs (s\<lparr>log_size := b\<rparr>) = babs s" "babs (s\<lparr>log_dev := v\<rparr>) = babs s"
  by (rule babs_cong; simp)+

lemma busy_start:
  assumes "ac_held A = (\<lambda>_. None)" "card (ac_pin A) < NBUF"
  shows "n \<in> ac_pin A \<or> card (ac_busy A) < NBUF" "card (insert n (ac_busy A)) \<le> NBUF"
proof -
  show "n \<in> ac_pin A \<or> card (ac_busy A) < NBUF" using assms by (simp add: ac_busy_def)
  have "card (insert n (ac_busy A)) \<le> Suc (card (ac_busy A))" by (simp add: card_insert_if)
  then show "card (insert n (ac_busy A)) \<le> NBUF" using assms by (simp add: ac_busy_def)
qed

lemma write_head_ok:
  assumes inv: "binv c u s" and dv: "log_dev s = ROOTDEV" and h: "ac_held (babs s) = (\<lambda>_. None)"
    and few: "card (ac_pin (babs s)) < NBUF" and st: "log_start s < FSSIZE" and n: "lh_n s = of_nat n" "n \<le> LOGSIZE"
  shows "\<exists>t. write_head c s = Ok t \<and> binv c u t \<and> bframe s t \<and>
    babs t = ac_write (log_start s) (ac_set (log_start s)
      (head_of n (lh_block s) (ac_view (babs s) (log_start s))) (babs s))"
proof -
  have nn: "nat (int_of (lh_n s)) = n"
    using n by (simp add: int_of_small unat_of_nat_uint LOGSIZE_def MAXOPBLOCKS_def)
  let ?f = "\<lambda>d. put_head n (lh_block s) (stw d 0 (of_nat n))"
  obtain b s1 s2 s3 where *: "bread c ROOTDEV (log_start s) s = Ok (b, s1)"
    "bwrite c b (set_data b (?f (b_data (buf s1 b))) s1) = Ok s2" "brelse c b s2 = Ok s3"
    "binv c u s3" "bframe s s1" "bframe s s3"
    "babs s3 = ac_write (log_start s) (ac_set (log_start s) (?f (ac_view (babs s) (log_start s))) (babs s))"
    using bc.update_through[of c u s "log_start s" ?f, OF inv st _ busy_start(1)[OF h few]] h by auto
  note fr = bframe_log[OF *(5)]
  have "write_head c s = Ok s3"
    using * n nn by (simp add: write_head_def dv Let_def fr)
  then show ?thesis using * by (auto simp: head_of_def)
qed

lemma head_loop:
  assumes "n \<le> LOGSIZE"
  shows "for_each (head_body d) [0..<n] s =
    Ok (None, s\<lparr>lh_block := (\<lambda>i. if i < n then ldw d (4 + 4 * i) else lh_block s i)\<rparr>)"
proof -
  let ?g = "\<lambda>k. s\<lparr>lh_block := (\<lambda>i. if i < k then ldw d (4 + 4 * i) else lh_block s i)\<rparr>"
  have "\<exists>s'. for_each (head_body d) [0..<n] s = Ok (None, s') \<and> s' = ?g n"
  proof (rule for_each_upto)
    show "s = ?g 0" by simp
  next
    fix k t assume k: "k < n" "t = ?g k"
    have "(\<lambda>i. if i < k then ldw d (4 + 4 * i) else lh_block s i)(k := ldw d (4 + 4 * k)) =
        (\<lambda>i. if i < Suc k then ldw d (4 + 4 * i) else lh_block s i)" by (auto simp: less_Suc_eq)
    then show "\<exists>s'. head_body d k t = Ok (None, s') \<and> s' = ?g (Suc k)"
      using k assms by (simp add: head_body_def)
  qed
  then show ?thesis by simp
qed

lemma read_head_ok:
  assumes inv: "binv c u s" and dv: "log_dev s = ROOTDEV" and h: "ac_held (babs s) = (\<lambda>_. None)"
    and few: "card (ac_pin (babs s)) < NBUF" and st: "log_start s < FSSIZE"
    and n: "ldw (ac_view (babs s) (log_start s)) 0 = of_nat n" "n \<le> LOGSIZE"
  shows "\<exists>t. read_head c s = Ok t \<and> binv c u t \<and> babs t = babs s \<and> lh_n t = of_nat n \<and>
    (\<forall>i < n. lh_block t i = ldw (ac_view (babs s) (log_start s)) (4 + 4 * i)) \<and>
    log_dev t = log_dev s \<and> log_start t = log_start s \<and> log_size t = log_size s"
proof -
  let ?d = "ac_view (babs s) (log_start s)"
  obtain b s1 where *: "bread c ROOTDEV (log_start s) s = Ok (b, s1)" "binv c u s1" "bframe s s1"
    "babs s1 = ac_read (log_start s) b (babs s)"
    using bc.rd_room[of c u s "log_start s", OF inv st _ busy_start(2)[OF h few]] h by auto
  note fr = bframe_log[OF *(3)]
  have hb: "ac_held (babs s1) (log_start s) = Some b" by (simp add: *(4) ac_read_def)
  have dd: "b_data (buf s1 b) = ?d" using bc.data_law[OF *(2) hb] by (simp add: *(4) ac_read_def)
  have nn: "nat (int_of (of_nat n)) = n"
    using n(2) by (simp add: int_of_small unat_of_nat_uint LOGSIZE_def MAXOPBLOCKS_def)
  let ?s3 = "s1\<lparr>lh_n := of_nat n, lh_block := (\<lambda>i. if i < n then ldw ?d (4 + 4 * i) else lh_block s1 i)\<rparr>"
  have run: "read_head c s = brelse c b ?s3"
    using * n nn by (simp add: read_head_def dv dd lh_range_def head_loop cong: if_cong)
  have "log_start s \<in> ac_pin (babs ?s3) \<or> ac_view (babs ?s3) (log_start s) = ac_disk (babs ?s3) (log_start s)"
    using bc.coherent[OF inv, of "log_start s"] h by (auto simp: *(4) ac_read_def)
  then obtain t where t: "brelse c b ?s3 = Ok t" "binv c u t" "bframe ?s3 t" "babs t = ac_release (log_start s) (babs ?s3)"
    using bc.rel_law[of c u ?s3 "log_start s" b] *(2) hb by auto
  note ft = bframe_log[OF t(3)]
  have "babs t = babs s" using h by (simp add: t(4) *(4) ac_release_def ac_read_def)
  then show ?thesis using run t ft fr by auto
qed

end
