(* ===== verification/Log_Crash.thy ===== *)
theory Log_Crash
  imports Log_Thms
begin

unbundle bit_operations_syntax

text \<open>
  Commit and recovery.  The state invariant of the log, what \<open>commit\<close> leaves on the disk,
  the order of its disk writes, and what \<open>recover_from_log\<close> makes of any prefix of them.
\<close>

declare One_nat_def [simp del]

section \<open>The invariant of the log\<close>

definition lregion :: "'a log_st_scheme \<Rightarrow> uint set" where
  "lregion s = {m. unat (log_start s) \<le> unat m \<and> unat m < unat (log_start s) + unat (log_size s)}"

definition linv :: "nat \<Rightarrow> uint \<Rightarrow> 'a log_st_scheme \<Rightarrow> bool" where
  "linv c u s \<longleftrightarrow>
     binv c u s \<and> log_dev s = ROOTDEV \<and> 0 < unat (log_size s) \<and> unat (log_size s) \<le> LOGSIZE \<and>
     unat (log_start s) + unat (log_size s) \<le> unat FSSIZE \<and> unat (lh_n s) < unat (log_size s) \<and>
     inj_on (lh_block s) {..<unat (lh_n s)} \<and> ac_pin (babs s) = lh_block s ` {..<unat (lh_n s)} \<and>
     (\<forall>i < unat (lh_n s). lh_block s i < FSSIZE \<and> lh_block s i \<notin> lregion s) \<and>
     ldw (ac_disk (babs s) (log_start s)) 0 = 0"

definition idle_cache :: "'a log_st_scheme \<Rightarrow> bool" where
  "idle_cache s \<longleftrightarrow> ac_held (babs s) = (\<lambda>_. None)"

lemma larea_region:
  assumes "unat (log_start s) + unat (log_size s) \<le> unat FSSIZE" "n < unat (log_size s)"
  shows "larea s n \<subseteq> lregion s"
proof -
  have "unat (lblk s i) = unat (log_start s) + i + 1" if "i < n" for i
    using that assms by (intro lblk_unat(1)[of s n]) auto
  then show ?thesis using assms by (auto simp: larea_def lregion_def)
qed

lemma lh_count:
  assumes "linv c u s"
  shows "nat (int_of (lh_n s)) = unat (lh_n s)" "int_of (lh_n s) = int (unat (lh_n s))"
    "unat (lh_n s) < LOGSIZE" "lh_n s = of_nat (unat (lh_n s))"
proof -
  show l: "unat (lh_n s) < LOGSIZE" using assms by (simp add: linv_def)
  then show e: "int_of (lh_n s) = int (unat (lh_n s))" by (intro int_of_small) (simp add: LOGSIZE_def MAXOPBLOCKS_def)
  show "nat (int_of (lh_n s)) = unat (lh_n s)" by (simp add: e)
  show "lh_n s = of_nat (unat (lh_n s))" by simp
qed

lemma linv_room:
  assumes l: "linv c u s" and h: "idle_cache s"
  shows "log_room c u s (unat (lh_n s))"
proof -
  let ?n = "unat (lh_n s)"
  have ar: "larea s ?n \<subseteq> lregion s" using l by (intro larea_region) (auto simp: linv_def)
  have "card (ac_pin (babs s)) = ?n" using l by (simp add: linv_def card_image)
  then have "card (ac_pin (babs s)) < NBUF" using lh_count(3)[OF l] by (simp add: NBUF_def LOGSIZE_def)
  moreover have "insert (lh_block s i) (ac_pin (babs s)) = ac_pin (babs s)" if "i < ?n" for i
    using l that by (auto simp: linv_def)
  moreover have "lh_block s i \<notin> larea s ?n" if "i < ?n" for i
    using l that ar by (auto simp: linv_def)
  ultimately show ?thesis using l h by (auto simp: log_room_def linv_def idle_cache_def)
qed

section \<open>Commit\<close>

text \<open>The four stages of \<open>commit\<close> on the abstract cache.\<close>

definition cm_log :: "'a log_st_scheme \<Rightarrow> acache" where
  "cm_log s = copies (lblk s) (lh_block s) (unat (lh_n s)) (babs s)"

definition put_block0 :: "uint \<Rightarrow> byte list \<Rightarrow> acache \<Rightarrow> acache" where
  "put_block0 n d A = ac_write n (ac_set n d A)"

definition cm_head :: "'a log_st_scheme \<Rightarrow> byte list" where
  "cm_head s = head_of (unat (lh_n s)) (lh_block s) (ac_view (cm_log s) (log_start s))"

definition cm_committed :: "'a log_st_scheme \<Rightarrow> acache" where
  "cm_committed s = put_block0 (log_start s) (cm_head s) (cm_log s)"

definition cm_installed :: "'a log_st_scheme \<Rightarrow> acache" where
  "cm_installed s = copies (lh_block s) (lblk s) (unat (lh_n s)) (cm_committed s)"

definition cm_clear :: "'a log_st_scheme \<Rightarrow> byte list" where
  "cm_clear s = head_of 0 (lh_block s) (ac_view (cm_installed s) (log_start s))"

definition cm_done :: "'a log_st_scheme \<Rightarrow> acache" where
  "cm_done s = put_block0 (log_start s) (cm_clear s) (cm_installed s)"

lemma lblk_cong: "log_start t = log_start s \<Longrightarrow> lblk t = lblk s"
  by (simp add: lblk_def[abs_def])

lemma cm_log_eq:
  assumes l: "linv c u s" and h: "idle_cache s"
  shows "cm_log s = (babs s)
    \<lparr>ac_disk := put_all (lblk s) (\<lambda>i. ac_view (babs s) (lh_block s i)) (unat (lh_n s)) (ac_disk (babs s)),
     ac_view := put_all (lblk s) (\<lambda>i. ac_view (babs s) (lh_block s i)) (unat (lh_n s)) (ac_view (babs s)),
     ac_writes := ac_writes (babs s) @
       map (\<lambda>i. (1, unat (lblk s i), ac_view (babs s) (lh_block s i))) [0..<unat (lh_n s)]\<rparr>"
proof -
  note r = linv_room[OF l h]
  have ne: "lblk s j \<noteq> lh_block s k" if "k < unat (lh_n s)" "j < unat (lh_n s)" for j k
    using log_roomD(3)[OF r] that by blast
  have "ac_pin (babs s) = lh_block s ` {..<unat (lh_n s)}" using l by (simp add: linv_def)
  then have "ac_pin (babs s) \<inter> lblk s ` {..<unat (lh_n s)} = {}" using ne by (auto dest: sym)
  then have "ac_pin (babs s) - lblk s ` {..<unat (lh_n s)} = ac_pin (babs s)" by blast
  then show ?thesis unfolding cm_log_def using ne by (subst copies_eq) auto
qed

lemma cm_log_held: "ac_held (cm_log s) = ac_held (babs s)"
  by (simp add: cm_log_def copies_pin)

lemma commit_run:
  assumes l: "linv c u s" and h: "idle_cache s" and n: "0 < unat (lh_n s)"
  shows "\<exists>t. commit c s = Ok t \<and> binv c u t \<and> babs t = cm_done s \<and> lh_n t = 0 \<and>
    log_dev t = log_dev s \<and> log_start t = log_start s \<and> log_size t = log_size s \<and> log_lock t = log_lock s \<and>
    log_outstanding t = log_outstanding s \<and> log_committing t = log_committing s \<and> calm c u t \<and> log_st.more t = log_st.more s"
proof -
  let ?n = "unat (lh_n s)"
  note r = linv_room[OF l h] and cnt = lh_count[OF l]
  obtain s1 where s1: "write_log c s = Ok s1" "binv c u s1" "bframe s s1" "babs s1 = cm_log s"
    using write_log_ok[OF r cnt(1)] by (auto simp: cm_log_def)
  note f1 = bframe_log[OF s1(3)]
  have pin1: "ac_pin (babs s1) = ac_pin (babs s)" "ac_held (babs s1) = (\<lambda>_. None)"
    using h by (simp_all add: s1(4) cm_log_eq[OF l h] idle_cache_def)
  have few: "card (ac_pin (babs s)) < NBUF" using r by (simp add: log_room_def)
  have st: "log_start s < FSSIZE" using r by (simp add: log_room_def word_less_nat_alt)
  obtain s2 where s2: "write_head c s1 = Ok s2" "binv c u s2" "bframe s1 s2"
    "babs s2 = ac_write (log_start s1) (ac_set (log_start s1)
      (head_of ?n (lh_block s1) (ac_view (babs s1) (log_start s1))) (babs s1))"
    using write_head_ok[OF s1(2), of ?n] pin1 few st l cnt by (auto simp: f1 linv_def)
  note f2 = bframe_log[OF s2(3)]
  have a2: "babs s2 = cm_committed s" by (simp add: s2(4) s1(4) f1 cm_committed_def cm_head_def put_block0_def)
  have pin2: "ac_pin (babs s2) = ac_pin (babs s)" "ac_held (babs s2) = (\<lambda>_. None)"
  proof -
    have "ac_pin (babs s) = lh_block s ` {..<unat (lh_n s)}" using l by (simp add: linv_def)
    then have "log_start s \<notin> ac_pin (babs s)" using log_roomD(4)[OF r] by (metis imageE lessThan_iff)
    then show "ac_pin (babs s2) = ac_pin (babs s)" "ac_held (babs s2) = (\<lambda>_. None)"
      using pin1 by (simp_all add: s2(4) ac_write_def ac_set_def f1)
  qed
  have r2: "log_room c u s2 ?n"
    using r s2(2) pin2 by (simp add: log_room_def f1 f2 larea_def lblk_cong[of s2 s])
  obtain s3 where s3: "install_trans c s2 = Ok s3" "binv c u s3" "bframe s2 s3"
    "babs s3 = copies (lh_block s2) (lblk s2) ?n (babs s2)"
    using install_ok[OF r2] cnt(1) by (auto simp: f1 f2)
  note f3 = bframe_log[OF s3(3)]
  have a3: "babs s3 = cm_installed s"
    using a2 by (simp add: s3(4) cm_installed_def f1 f2 lblk_cong[of s2 s])
  let ?s3 = "s3\<lparr>lh_n := 0\<rparr>"
  have p3: "ac_pin (babs s3) \<subseteq> ac_pin (babs s)" "ac_held (babs s3) = (\<lambda>_. None)"
    using copies_pin[of "lh_block s2" "lblk s2" ?n "babs s2"] pin2 s3(4) by auto
  have "card (ac_pin (babs ?s3)) < NBUF" using card_mono[OF _ p3(1)] few by simp
  then obtain s4 where s4: "write_head c ?s3 = Ok s4" "binv c u s4" "bframe ?s3 s4"
    "babs s4 = ac_write (log_start ?s3) (ac_set (log_start ?s3)
      (head_of 0 (lh_block ?s3) (ac_view (babs ?s3) (log_start ?s3))) (babs ?s3))"
    using write_head_ok[of c u ?s3 0] s3(2) p3(2) st l by (auto simp: f1 f2 f3 linv_def)
  note f4 = bframe_log[OF s4(3)]
  have "babs s4 = cm_done s" by (simp add: s4(4) a3 f1 f2 f3 cm_done_def cm_clear_def put_block0_def)
  moreover have "0 < int_of (lh_n s)" unfolding cnt(2) using n by linarith
  then have "commit c s = Ok s4" using s1(1) s2(1) s3(1) s4(1) by (simp add: commit_def)
  moreover have "calm c u s4" using s4(2) by (simp add: binv_def ide_idle_def)
  moreover have "log_st.more s4 = log_st.more s"
    using bframe_log_more[OF s1(3)] bframe_log_more[OF s2(3)] bframe_log_more[OF s3(3)] bframe_log_more[OF s4(3)] by simp
  ultimately show ?thesis using s4(2) by (simp add: f1 f2 f3 f4)
qed

text \<open>Closed forms: the contents after each stage and the writes made.\<close>

lemma cm_stages:
  assumes l: "linv c u s" and h: "idle_cache s"
  defines "n \<equiv> unat (lh_n s)" and "v \<equiv> ac_view (babs s)"
  shows "i < n \<Longrightarrow> ac_view (cm_committed s) (lblk s i) = v (lh_block s i)"
    and "cm_installed s = (cm_committed s)
      \<lparr>ac_disk := put_all (lh_block s) (\<lambda>i. v (lh_block s i)) n (ac_disk (cm_committed s)),
       ac_view := put_all (lh_block s) (\<lambda>i. v (lh_block s i)) n (ac_view (cm_committed s)),
       ac_pin := {},
       ac_writes := ac_writes (cm_committed s) @ map (\<lambda>i. (1, unat (lh_block s i), v (lh_block s i))) [0..<n]\<rparr>"
proof -
  note r = linv_room[OF l h]
  have inj: "inj_on (lblk s) {..<n}" using r by (auto simp: log_room_def n_def intro: lblk_inj)
  have V: "ac_view (cm_committed s) (lblk s i) = v (lh_block s i)" if "i < n" for i
    using that log_roomD(5)[OF r, of i] put_all_at[OF inj that]
    by (simp add: cm_committed_def put_block0_def ac_write_def ac_set_def cm_log_eq[OF l h] n_def v_def)
  then show "i < n \<Longrightarrow> ac_view (cm_committed s) (lblk s i) = v (lh_block s i)" .
  have ne: "lh_block s k \<noteq> lblk s j" if "k < n" "j < n" for j k
    using log_roomD(3)[OF r, of k j] that by (auto simp: n_def)
  have pins: "ac_pin (cm_committed s) - lh_block s ` {..<n} = {}"
    using l by (auto simp: cm_committed_def put_block0_def ac_write_def ac_set_def cm_log_eq[OF l h] linv_def n_def)
  have sub: "put_all (lh_block s) (\<lambda>i. ac_view (cm_committed s) (lblk s i)) n D =
      put_all (lh_block s) (\<lambda>i. v (lh_block s i)) n D" for D
    using V by (intro put_all_cong) simp
  have "map (\<lambda>i. (1 :: nat, unat (lh_block s i), ac_view (cm_committed s) (lblk s i))) [0..<n] =
      map (\<lambda>i. (1, unat (lh_block s i), v (lh_block s i))) [0..<n]"
    using V by simp
  then show "cm_installed s = (cm_committed s)
      \<lparr>ac_disk := put_all (lh_block s) (\<lambda>i. v (lh_block s i)) n (ac_disk (cm_committed s)),
       ac_view := put_all (lh_block s) (\<lambda>i. v (lh_block s i)) n (ac_view (cm_committed s)),
       ac_pin := {},
       ac_writes := ac_writes (cm_committed s) @ map (\<lambda>i. (1, unat (lh_block s i), v (lh_block s i))) [0..<n]\<rparr>"
    unfolding cm_installed_def n_def[symmetric] by (subst copies_eq[OF ne]) (simp_all add: pins sub)
qed

definition cm_writes :: "'a log_st_scheme \<Rightarrow> (nat \<times> nat \<times> byte list) list" where
  "cm_writes s =
     map (\<lambda>i. (1, unat (lblk s i), ac_view (babs s) (lh_block s i))) [0..<unat (lh_n s)] @
     [(1, unat (log_start s), cm_head s)] @
     map (\<lambda>i. (1, unat (lh_block s i), ac_view (babs s) (lh_block s i))) [0..<unat (lh_n s)] @
     [(1, unat (log_start s), cm_clear s)]"

lemma cm_done_facts:
  assumes l: "linv c u s" and h: "idle_cache s"
  shows "ac_writes (cm_done s) = ac_writes (babs s) @ cm_writes s" "ac_pin (cm_done s) = {}"
    "ac_held (cm_done s) = (\<lambda>_. None)" "ac_disk (cm_done s) (log_start s) = cm_clear s"
    "m \<notin> larea s (unat (lh_n s)) \<Longrightarrow> ac_view (cm_done s) m = ac_view (babs s) m"
    "m \<notin> larea s (unat (lh_n s)) \<Longrightarrow> ac_disk (cm_done s) m = ac_view (babs s) m"
proof -
  let ?n = "unat (lh_n s)"
  note inst = cm_stages(2)[OF l h] and log = cm_log_eq[OF l h] and r = linv_room[OF l h]
  have inj: "inj_on (lh_block s) {..<?n}" and pin: "ac_pin (babs s) = lh_block s ` {..<?n}"
    using l by (simp_all add: linv_def)
  show "ac_writes (cm_done s) = ac_writes (babs s) @ cm_writes s"
    by (simp add: cm_done_def put_block0_def ac_write_def ac_set_def inst cm_committed_def log cm_writes_def)
  show "ac_pin (cm_done s) = {}" by (simp add: cm_done_def put_block0_def ac_write_def ac_set_def inst)
  show "ac_held (cm_done s) = (\<lambda>_. None)"
    using h by (simp add: cm_done_def put_block0_def ac_write_def ac_set_def inst cm_committed_def log idle_cache_def)
  show "ac_disk (cm_done s) (log_start s) = cm_clear s"
    by (simp add: cm_done_def put_block0_def ac_write_def ac_set_def)
  assume m: "m \<notin> larea s ?n"
  then have ms: "m \<noteq> log_start s" "m \<notin> lblk s ` {..<?n}" by (auto simp: larea_def)
  have co: "m \<notin> lh_block s ` {..<?n} \<Longrightarrow> ac_disk (babs s) m = ac_view (babs s) m"
    using babs_coherent[of c u s m] l h pin by (simp add: linv_def idle_cache_def)
  have "(m \<in> lh_block s ` {..<?n} \<longrightarrow>
      ac_view (cm_done s) m = ac_view (babs s) m \<and> ac_disk (cm_done s) m = ac_view (babs s) m)"
    using ms put_all_at[OF inj]
    by (auto simp: cm_done_def put_block0_def ac_write_def ac_set_def inst)
  moreover have "(m \<notin> lh_block s ` {..<?n} \<longrightarrow>
      ac_view (cm_done s) m = ac_view (babs s) m \<and> ac_disk (cm_done s) m = ac_disk (babs s) m)"
    using ms by (simp add: cm_done_def put_block0_def ac_write_def ac_set_def inst put_all_other cm_committed_def log)
  ultimately show "ac_view (cm_done s) m = ac_view (babs s) m" "ac_disk (cm_done s) m = ac_view (babs s) m"
    using co by auto
qed

section \<open>Recovery\<close>

lemma recover_ok:
  assumes inv: "binv c u t" and dv: "log_dev t = ROOTDEV" and h: "idle_cache t" and p: "ac_pin (babs t) = {}"
    and st: "unat (log_start t) + n < unat FSSIZE" "n \<le> LOGSIZE"
    and hd: "ldw (ac_disk (babs t) (log_start t)) 0 = of_nat n"
    and bs: "\<And>i. i < n \<Longrightarrow> ldw (ac_disk (babs t) (log_start t)) (4 + 4 * i) = bs i"
    and ok: "\<And>i. i < n \<Longrightarrow> bs i < FSSIZE \<and> bs i \<notin> larea t n"
  shows "\<exists>r. recover_from_log c t = Ok r \<and> binv c u r \<and> idle_cache r \<and> ac_pin (babs r) = {} \<and> lh_n r = 0 \<and>
     log_start r = log_start t \<and> log_dev r = ROOTDEV \<and> log_size r = log_size t \<and> ldw (ac_disk (babs r) (log_start t)) 0 = 0 \<and>
     (\<forall>m. m \<notin> larea t n \<longrightarrow> ac_disk (babs r) m =
        put_all bs (\<lambda>i. ac_disk (babs t) (lblk t i)) n (ac_disk (babs t)) m)"
proof -
  have co: "ac_view (babs t) = ac_disk (babs t)"
    using babs_coherent[OF inv] h p by (auto simp: idle_cache_def)
  have h': "ac_held (babs t) = (\<lambda>_. None)" using h by (simp add: idle_cache_def)
  have few: "card (ac_pin (babs t)) < NBUF" by (simp add: p NBUF_def MAXOPBLOCKS_def)
  have sf: "log_start t < FSSIZE" using st by (simp add: word_less_nat_alt)
  obtain t1 where t1: "read_head c t = Ok t1" "binv c u t1" "babs t1 = babs t" "lh_n t1 = of_nat n"
    "\<forall>i < n. lh_block t1 i = bs i" "log_dev t1 = log_dev t" "log_start t1 = log_start t" "log_size t1 = log_size t"
    using read_head_ok[OF inv dv h' few sf, of n] hd bs st co by auto
  have nn: "nat (int_of (lh_n t1)) = n"
    using st(2) by (simp add: t1(4) int_of_small unat_of_nat_uint LOGSIZE_def MAXOPBLOCKS_def)
  have la: "larea t1 n = larea t n" using lblk_cong[OF t1(7)] by (simp add: larea_def t1(7))
  have "log_room c u t1 n"
    using t1 st ok dv h' p by (auto simp: log_room_def la NBUF_def MAXOPBLOCKS_def)
  from install_ok[OF this nn] obtain t2 where t2: "install_trans c t1 = Ok t2" "binv c u t2" "bframe t1 t2"
    "babs t2 = copies (lh_block t1) (lblk t1) n (babs t1)" by blast
  note f2 = bframe_log[OF t2(3)]
  have ne: "lh_block t1 i \<noteq> lblk t1 j" if "i < n" "j < n" for i j
    using ok[OF that(1)] t1(5) that lblk_cong[OF t1(7)] by (auto simp: larea_def)
  have a2: "babs t2 = (babs t)
    \<lparr>ac_disk := put_all bs (\<lambda>i. ac_disk (babs t) (lblk t i)) n (ac_disk (babs t)),
     ac_view := put_all bs (\<lambda>i. ac_disk (babs t) (lblk t i)) n (ac_disk (babs t)),
     ac_writes := ac_writes (babs t) @ map (\<lambda>i. (1, unat (bs i), ac_disk (babs t) (lblk t i))) [0..<n]\<rparr>"
  proof -
    have "put_all (lh_block t1) (\<lambda>i. ac_disk (babs t) (lblk t i)) n D = put_all bs (\<lambda>i. ac_disk (babs t) (lblk t i)) n D" for D
      using t1(5) by (intro put_all_cong) simp
    moreover have "babs t2 = (babs t1)
      \<lparr>ac_disk := put_all (lh_block t1) (\<lambda>i. ac_view (babs t1) (lblk t1 i)) n (ac_disk (babs t1)),
       ac_view := put_all (lh_block t1) (\<lambda>i. ac_view (babs t1) (lblk t1 i)) n (ac_view (babs t1)),
       ac_pin := ac_pin (babs t1) - lh_block t1 ` {..<n},
       ac_writes := ac_writes (babs t1) @ map (\<lambda>i. (1, unat (lh_block t1 i), ac_view (babs t1) (lblk t1 i))) [0..<n]\<rparr>"
      unfolding t2(4) by (rule copies_eq[OF ne])
    ultimately show ?thesis
      using t1(5) by (intro acache.equality) (simp_all add: t1(3) co p lblk_cong[OF t1(7)])
  qed
  let ?t2 = "t2\<lparr>lh_n := 0\<rparr>"
  obtain r where r: "write_head c ?t2 = Ok r" "binv c u r" "bframe ?t2 r"
    "babs r = ac_write (log_start ?t2) (ac_set (log_start ?t2)
      (head_of 0 (lh_block ?t2) (ac_view (babs ?t2) (log_start ?t2))) (babs ?t2))"
    using write_head_ok[of c u ?t2 0] t2(2) h' p sf dv by (auto simp: a2 f2 t1 NBUF_def MAXOPBLOCKS_def)
  note f3 = bframe_log[OF r(3)]
  have run: "recover_from_log c t = Ok r" using t1(1) t2(1) r(1) by (simp add: recover_from_log_def)
  have "length (ac_view (babs t2) (log_start t)) = BSIZE" using babs_sized[OF t2(2)] .
  then have "ldw (ac_disk (babs r) (log_start t)) 0 = 0"
    using head_of_facts(2)[of 0] by (simp add: r(4) ac_write_def ac_set_def f2 t1(7) LOGSIZE_def)
  moreover have "ac_disk (babs r) m = put_all bs (\<lambda>i. ac_disk (babs t) (lblk t i)) n (ac_disk (babs t)) m"
    if "m \<notin> larea t n" for m
    using that by (auto simp: r(4) a2 ac_write_def ac_set_def f2 t1(7) larea_def)
  moreover have "ac_pin (babs r) = {}" "idle_cache r"
    using p h' by (auto simp: r(4) a2 ac_write_def ac_set_def idle_cache_def)
  ultimately show ?thesis using run r(2) f3 f2 t1 dv by auto
qed

section \<open>Crashes\<close>

text \<open>The disk after a prefix of a sequence of sector writes.\<close>

fun replay :: "(nat \<Rightarrow> byte list) \<Rightarrow> (nat \<times> nat \<times> byte list) list \<Rightarrow> nat \<Rightarrow> byte list" where
  "replay D [] = D"
| "replay D ((dr, sec, d) # ws) = replay (D(sec := d)) ws"

lemma replay_append: "replay D (ws @ ws') = replay (replay D ws) ws'"
  by (induction ws arbitrary: D) auto

lemma replay_other: "sec \<notin> (\<lambda>(dr, sec, d). sec) ` set ws \<Longrightarrow> replay D ws sec = D sec"
  by (induction ws arbitrary: D) auto

lemma replay_map: "replay D (map (\<lambda>i. (dv, ks i, vs i)) [0..<n]) = put_all ks vs n D"
  by (induction n) (auto simp: replay_append)

text \<open>A machine that comes up again: its disk has the first \<open>k\<close> writes of the list, nothing is cached.\<close>

definition crashed :: "nat \<Rightarrow> uint \<Rightarrow> 'a log_st_scheme \<Rightarrow> (nat \<times> nat \<times> byte list) list \<Rightarrow> nat \<Rightarrow> 'a log_st_scheme \<Rightarrow> bool" where
  "crashed c u s ws k r \<longleftrightarrow>
     binv c u r \<and> idle_cache r \<and> ac_pin (babs r) = {} \<and> log_dev r = ROOTDEV \<and> log_start r = log_start s \<and>
     disk r 1 = replay (disk s 1) (take k ws)"

lemma ac_disk_babs: "ac_disk (babs s) m = disk s 1 (unat m)"
  by (simp add: babs_def cabs_def)

lemma sectors_map: "(\<lambda>(dr, sec, d). sec) ` set (take k (map (\<lambda>i. (dv :: nat, ks i, vs i)) [0..<n])) \<subseteq> ks ` {..<n}"
  by (auto dest!: in_set_takeD)

lemma replay_away:
  assumes "sec \<notin> ks ` {..<n}"
  shows "replay D (take k (map (\<lambda>i. (dv, ks i, vs i)) [0..<n])) sec = D sec"
proof (rule replay_other)
  show "sec \<notin> (\<lambda>(dr, sec, d). sec) ` set (take k (map (\<lambda>i. (dv, ks i, vs i)) [0..<n]))"
    using assms sectors_map[of k dv ks vs n] by (meson subsetD)
qed

lemma unat_notin:
  fixes m :: uint
  shows "m \<notin> f ` A \<Longrightarrow> unat m \<notin> (\<lambda>i. unat (f i)) ` A"
  by (auto simp: word_unat_eq_iff[symmetric])

lemma crash_before:
  assumes l: "linv c u s" and h: "idle_cache s" and k: "k \<le> unat (lh_n s)" and r: "crashed c u s (cm_writes s) k r"
  shows "ac_disk (babs r) (log_start s) = ac_disk (babs s) (log_start s)"
    "m \<notin> larea s (unat (lh_n s)) \<Longrightarrow> ac_disk (babs r) m = ac_disk (babs s) m"
proof -
  let ?n = "unat (lh_n s)"
  let ?W1 = "map (\<lambda>i. (1, unat (lblk s i), ac_view (babs s) (lh_block s i))) [0..<?n]"
  have tk: "take k (cm_writes s) = take k ?W1" using k by (simp add: cm_writes_def)
  have "replay (disk s 1) (take k ?W1) (unat m) = disk s 1 (unat m)" if "m \<notin> lblk s ` {..<?n}" for m
  proof -
    have "unat m \<notin> (\<lambda>i. unat (lblk s i)) ` {..<?n}" using that by (rule unat_notin)
    then show ?thesis by (rule replay_away)
  qed
  then have *: "ac_disk (babs r) m = ac_disk (babs s) m" if "m \<notin> lblk s ` {..<?n}" for m
    using that r tk by (simp add: ac_disk_babs crashed_def)
  have "log_start s \<notin> lblk s ` {..<?n}" using log_roomD(5)[OF linv_room[OF l h]] by (metis imageE lessThan_iff)
  then show "ac_disk (babs r) (log_start s) = ac_disk (babs s) (log_start s)" by (rule *)
  show "m \<notin> larea s ?n \<Longrightarrow> ac_disk (babs r) m = ac_disk (babs s) m" using * by (auto simp: larea_def)
qed

lemma crash_between:
  assumes l: "linv c u s" and h: "idle_cache s" and k: "unat (lh_n s) < k" "k \<le> 2 * unat (lh_n s) + 1"
    and r: "crashed c u s (cm_writes s) k r"
  shows "ac_disk (babs r) (log_start s) = cm_head s"
    "i < unat (lh_n s) \<Longrightarrow> ac_disk (babs r) (lblk s i) = ac_view (babs s) (lh_block s i)"
    "m \<notin> larea s (unat (lh_n s)) \<Longrightarrow> m \<notin> lh_block s ` {..<unat (lh_n s)} \<Longrightarrow> ac_disk (babs r) m = ac_disk (babs s) m"
proof -
  let ?n = "unat (lh_n s)"
  let ?W1 = "map (\<lambda>i. (1, unat (lblk s i), ac_view (babs s) (lh_block s i))) [0..<?n]"
  let ?W2 = "map (\<lambda>i. (1, unat (lh_block s i), ac_view (babs s) (lh_block s i))) [0..<?n]"
  let ?D = "(put_all (\<lambda>i. unat (lblk s i)) (\<lambda>i. ac_view (babs s) (lh_block s i)) ?n (disk s 1))(unat (log_start s) := cm_head s)"
  note room = linv_room[OF l h]
  have "take k (cm_writes s) = ?W1 @ [(1, unat (log_start s), cm_head s)] @ take (k - ?n - 1) ?W2"
  proof -
    define j where "j = k - ?n - 1"
    then have "k - ?n = Suc j" "j \<le> ?n" "k - ?n - 1 = j" "min k ?n = ?n" using k by auto
    then show ?thesis by (simp add: cm_writes_def)
  qed
  then have dr: "disk r 1 = replay ?D (take (k - ?n - 1) ?W2)"
    using r by (simp add: crashed_def replay_append replay_map)
  have away: "ac_disk (babs r) m = ?D (unat m)" if "m \<notin> lh_block s ` {..<?n}" for m
  proof -
    have "unat m \<notin> (\<lambda>i. unat (lh_block s i)) ` {..<?n}" using that by (rule unat_notin)
    then show ?thesis unfolding ac_disk_babs dr by (rule replay_away)
  qed
  have "log_start s \<notin> lh_block s ` {..<?n}" using log_roomD(4)[OF room] by (metis imageE lessThan_iff)
  then show "ac_disk (babs r) (log_start s) = cm_head s" using away by simp
  have inj: "inj_on (\<lambda>i. unat (lblk s i)) {..<?n}"
    using room lblk_inj[of s ?n] by (simp add: inj_on_def log_room_def word_unat_eq_iff[symmetric])
  show "ac_disk (babs r) (lblk s i) = ac_view (babs s) (lh_block s i)" if i: "i < ?n"
  proof -
    have "lblk s i \<notin> lh_block s ` {..<?n}" using log_roomD(3)[OF room _ i] by (metis imageE lessThan_iff)
    then show ?thesis using away[of "lblk s i"] put_all_at[OF inj i] log_roomD(5)[OF room i]
      by (simp add: word_unat_eq_iff[symmetric])
  qed
  show "ac_disk (babs r) m = ac_disk (babs s) m" if m: "m \<notin> larea s ?n" "m \<notin> lh_block s ` {..<?n}"
  proof -
    have "m \<noteq> log_start s" "m \<notin> lblk s ` {..<?n}" using m(1) by (simp_all add: larea_def)
    moreover from this(2) have "unat m \<notin> (\<lambda>i. unat (lblk s i)) ` {..<?n}" by (rule unat_notin)
    ultimately show ?thesis using away[OF m(2)] by (simp add: put_all_other ac_disk_babs word_unat_eq_iff[symmetric])
  qed
qed

lemma crash_after:
  assumes l: "linv c u s" and h: "idle_cache s" and k: "2 * unat (lh_n s) + 1 < k"
    and r: "crashed c u s (cm_writes s) k r"
  shows "ac_disk (babs r) (log_start s) = cm_clear s"
    "m \<notin> larea s (unat (lh_n s)) \<Longrightarrow> ac_disk (babs r) m = ac_view (babs s) m"
proof -
  let ?n = "unat (lh_n s)"
  let ?D1 = "put_all (\<lambda>i. unat (lblk s i)) (\<lambda>i. ac_view (babs s) (lh_block s i)) ?n (disk s 1)"
  let ?D2 = "put_all (\<lambda>i. unat (lh_block s i)) (\<lambda>i. ac_view (babs s) (lh_block s i)) ?n (?D1(unat (log_start s) := cm_head s))"
  have "take k (cm_writes s) = cm_writes s" using k by (simp add: cm_writes_def)
  then have dr: "disk r 1 = ?D2(unat (log_start s) := cm_clear s)"
    using r by (simp add: crashed_def cm_writes_def replay_append replay_map)
  show "ac_disk (babs r) (log_start s) = cm_clear s" by (simp add: ac_disk_babs dr)
  assume m: "m \<notin> larea s ?n"
  have lm: "m \<noteq> log_start s" "m \<notin> lblk s ` {..<?n}" using m by (simp_all add: larea_def)
  from lm(2) have lu: "unat m \<notin> (\<lambda>i. unat (lblk s i)) ` {..<?n}" by (rule unat_notin)
  have e: "ac_disk (babs r) m = ?D2 (unat m)" using lm by (simp add: ac_disk_babs dr word_unat_eq_iff[symmetric])
  show "ac_disk (babs r) m = ac_view (babs s) m"
  proof (cases "m \<in> lh_block s ` {..<?n}")
    case True
    then obtain i where i: "i < ?n" "m = lh_block s i" by auto
    have "inj_on (\<lambda>i. unat (lh_block s i)) {..<?n}"
      using l by (simp add: inj_on_def linv_def word_unat_eq_iff[symmetric])
    from put_all_at[OF this i(1)] show ?thesis unfolding e by (simp add: i(2))
  next
    case False
    have "ac_view (babs s) m = ac_disk (babs s) m"
      using babs_coherent[of c u s m] l h False by (simp add: linv_def idle_cache_def)
    moreover from False have "unat m \<notin> (\<lambda>i. unat (lh_block s i)) ` {..<?n}" by (rule unat_notin)
    ultimately show ?thesis unfolding e using lm lu by (simp add: put_all_other ac_disk_babs word_unat_eq_iff[symmetric])
  qed
qed

lemma head_sizes:
  assumes l: "linv c u s" and h: "idle_cache s"
  shows "length (ac_view (cm_log s) (log_start s)) = BSIZE" "length (ac_view (cm_installed s) (log_start s)) = BSIZE"
proof -
  let ?n = "unat (lh_n s)"
  note room = linv_room[OF l h]
  have "log_start s \<notin> lblk s ` {..<?n}" using log_roomD(5)[OF room] by (metis imageE lessThan_iff)
  then have "ac_view (cm_log s) (log_start s) = ac_view (babs s) (log_start s)"
    by (simp add: cm_log_eq[OF l h] put_all_other)
  then show len: "length (ac_view (cm_log s) (log_start s)) = BSIZE"
    using babs_sized[of c u s] l by (simp add: linv_def)
  have "log_start s \<notin> lh_block s ` {..<?n}" using log_roomD(4)[OF room] by (metis imageE lessThan_iff)
  then have "ac_view (cm_installed s) (log_start s) = cm_head s"
    by (simp add: cm_stages(2)[OF l h] put_all_other cm_committed_def put_block0_def ac_write_def ac_set_def)
  then show "length (ac_view (cm_installed s) (log_start s)) = BSIZE"
    using head_of_facts(1)[OF _ len] lh_count(3)[OF l] by (simp add: cm_head_def)
qed

text \<open>Recovery from any prefix of the writes of \<open>commit\<close>.\<close>

lemma recovered:
  assumes l: "linv c u s" and h: "idle_cache s" and r: "crashed c u s (cm_writes s) k r"
  shows "\<exists>r'. recover_from_log c r = Ok r' \<and>
    (\<forall>m. m \<notin> larea s (unat (lh_n s)) \<longrightarrow>
       ac_disk (babs r') m = (if k \<le> unat (lh_n s) then ac_disk (babs s) m else ac_view (babs s) m))"
proof -
  let ?n = "unat (lh_n s)"
  have R: "binv c u r" "log_dev r = ROOTDEV" "idle_cache r" "ac_pin (babs r) = {}" and st: "log_start r = log_start s"
    using r by (simp_all add: crashed_def)
  note room = linv_room[OF l h]
  have la: "larea r j = larea s j" for j using lblk_cong[OF st] by (simp add: larea_def st)
  have la0: "m \<notin> larea s ?n \<Longrightarrow> m \<notin> larea r 0" for m by (auto simp: larea_def st)
  have f0: "unat (log_start r) + 0 < unat FSSIZE" "unat (log_start r) + ?n < unat FSSIZE" "?n \<le> LOGSIZE"
    using room by (auto simp: log_room_def st)
  consider "k \<le> ?n" | "?n < k" "k \<le> 2 * ?n + 1" | "2 * ?n + 1 < k" by linarith
  then show ?thesis
  proof cases
    case 1
    note b = crash_before[OF l h 1 r]
    have "ldw (ac_disk (babs r) (log_start r)) 0 = of_nat 0" using l by (simp add: st b(1) linv_def)
    from recover_ok[OF R f0(1) _ this, of undefined] obtain r' where
      "recover_from_log c r = Ok r'" "\<forall>m. m \<notin> larea r 0 \<longrightarrow> ac_disk (babs r') m = ac_disk (babs r) m" by auto
    then show ?thesis using b(2) la0 1 by simp
  next
    case 2
    note b = crash_between[OF l h 2 r]
    note hd = head_of_facts[OF f0(3) head_sizes(1)[OF l h], where bs = "lh_block s", folded cm_head_def]
    have "lh_block s i \<notin> larea r ?n \<and> lh_block s i < FSSIZE" if "i < ?n" for i
      using room that by (simp add: log_room_def la)
    then obtain r' where r': "recover_from_log c r = Ok r'"
      "\<forall>m. m \<notin> larea s ?n \<longrightarrow> ac_disk (babs r') m =
         put_all (lh_block s) (\<lambda>i. ac_disk (babs r) (lblk r i)) ?n (ac_disk (babs r)) m"
      using recover_ok[OF R f0(2,3), of "lh_block s"] hd b(1) by (auto simp: st la)
    have "ac_disk (babs r') m = ac_view (babs s) m" if m: "m \<notin> larea s ?n" for m
    proof (cases "m \<in> lh_block s ` {..<?n}")
      case True
      then obtain i where i: "i < ?n" "m = lh_block s i" by auto
      have "inj_on (lh_block s) {..<?n}" using l by (simp add: linv_def)
      then show ?thesis using r'(2) m i b(2)[OF i(1)] lblk_cong[OF st] by (simp add: put_all_at)
    next
      case False
      then show ?thesis using r'(2) m b(3)[OF m False] babs_coherent[of c u s m] l h
        by (simp add: put_all_other linv_def idle_cache_def)
    qed
    then show ?thesis using r'(1) 2 by auto
  next
    case 3
    note b = crash_after[OF l h 3 r]
    from head_of_facts(2)[OF _ head_sizes(2)[OF l h], of 0] have "ldw (ac_disk (babs r) (log_start r)) 0 = of_nat 0"
      by (simp add: st b(1) cm_clear_def)
    from recover_ok[OF R f0(1) _ this, of undefined] obtain r' where
      "recover_from_log c r = Ok r'" "\<forall>m. m \<notin> larea r 0 \<longrightarrow> ac_disk (babs r') m = ac_disk (babs r) m" by auto
    then show ?thesis using b(2) la0 3 by simp
  qed
qed

end
