(* ===== verification/Demo.thy ===== *)
theory Demo
  imports Log_Crash
begin

text \<open>
  Concrete kernel states.  Process 0 runs on CPU 0, process 1 sleeps on \<open>ticks\<close>, process 2
  is ready at the top priority, the rest of the table is free.  The disk of the logged
  state has one modified block in the cache and a transaction that is not yet committed.
\<close>

section \<open>A process table\<close>

definition demo_proc :: "nat \<Rightarrow> proc" where
  "demo_proc p =
     (let x = zero_proc\<lparr>kstack := 0x80400000, pgdir := 0x80500000, pid := of_nat p + 1, priority := 6, budget := 125\<rparr>
      in if p = 0 then x\<lparr>state := RUNNING\<rparr>
         else if p = 1 then x\<lparr>state := SLEEPING, chan := Ch_ticks\<rparr>
         else if p = 2 then x\<lparr>state := RUNNABLE\<rparr>
         else zero_proc\<lparr>nxt := (if p < 63 then Some (p + 1) else None)\<rparr>)"

definition demo_plist :: "procstate \<Rightarrow> ptrs" where
  "demo_plist = (\<lambda>_. \<lparr>head = None, tail = None\<rparr>)
     (RUNNING := \<lparr>head = Some 0, tail = Some 0\<rparr>, SLEEPING := \<lparr>head = Some 1, tail = Some 1\<rparr>,
      UNUSED := \<lparr>head = Some 3, tail = Some 63\<rparr>)"

definition demo_ready :: "nat \<Rightarrow> ptrs" where
  "demo_ready = (\<lambda>_. \<lparr>head = None, tail = None\<rparr>)(6 := \<lparr>head = Some 2, tail = Some 2\<rparr>)"

definition demo_Q :: "lref \<Rightarrow> nat list" where
  "demo_Q = (\<lambda>_. [])(LState RUNNING := [0], LState SLEEPING := [1], LReady 6 := [2], LState UNUSED := [3..<NPROC])"

definition demo_cpus :: cpus where
  "demo_cpus = (\<lambda>_. idle_cpu)(0 := idle_cpu\<lparr>cproc := Some 0\<rparr>)"

lemma chain_upt:
  assumes "\<And>i. a \<le> i \<Longrightarrow> Suc i < b \<Longrightarrow> nx i = Some (Suc i)" "a < b" "nx (b - 1) = None"
  shows "chain nx (Some a) [a..<b]"
  using assms
proof (induction "b - a" arbitrary: a)
  case 0
  then show ?case by simp
next
  case (Suc k)
  show ?case
  proof (cases "Suc a < b")
    case True
    have "chain nx (Some (Suc a)) [Suc a..<b]" using Suc.hyps(2) Suc.prems True by (intro Suc.hyps(1)) auto
    then show ?thesis using Suc.prems(1)[of a] True by (simp add: upt_conv_Cons)
  next
    case False
    then have "b = Suc a" using Suc.prems(2) by simp
    then show ?thesis using Suc.prems(3) by simp
  qed
qed

lemma demo_ptinv:
  assumes s: "proc s = demo_proc" "plist s = demo_plist" "ready s = demo_ready"
  shows "ptinv s demo_Q"
proof -
  have nx: "nexts s = (\<lambda>p. if 3 \<le> p \<and> p < 63 then Some (p + 1) else None)"
    by (auto simp: nexts_def s demo_proc_def zero_proc_def Let_def)
  have free: "chain (nexts s) (Some 3) [3..<NPROC]" by (rule chain_upt) (auto simp: nx NPROC_def)
  have "last [3..<NPROC] = NPROC - 1" by (simp add: NPROC_def)
  then have tl: "last_ptr [3..<NPROC] = Some 63" by (simp add: last_ptr_def NPROC_def)
  have "list_rep (nexts s) (getl l s) (demo_Q l)" for l
  proof (cases l)
    case (LState st)
    then show ?thesis using free
      tl by (cases st) (simp_all add: list_rep_def demo_Q_def s demo_plist_def nx last_ptr_def[of "[_]"])
  next
    case (LReady k)
    then show ?thesis by (simp add: list_rep_def demo_Q_def s demo_ready_def nx last_ptr_def)
  qed
  moreover have "distinct (demo_Q l)" for l by (simp add: demo_Q_def)
  moreover have mem: "p \<in> set (demo_Q l) \<longleftrightarrow> p < NPROC \<and> lkey (proc s p) = l" for p l
  proof -
    have "3 < NPROC" by (simp add: NPROC_def)
    then show ?thesis by (auto simp: demo_Q_def s demo_proc_def lkey_def zero_proc_def Let_def)
  qed
  ultimately have "linked s demo_Q (\<lambda>p. Some (lkey (proc s p)))"
    by (auto simp: linked_def lists_rep_def)
  moreover have "prio_ok s" by (simp add: prio_ok_def s demo_proc_def zero_proc_def Let_def MAXPRIO_def)
  ultimately show ?thesis by (simp add: ptinv_def)
qed

definition demo_st :: pt_st where
  "demo_st = \<lparr>cpus = demo_cpus, mem = (\<lambda>_. 0), end_sym = 0x80120000, data_sym = 0x80110000,
     kmem_lock = initlock ''kmem'', use_lock = True, freelist = 0, ptable_lock = initlock ''ptable'',
     proc = demo_proc, plist = demo_plist, ready = demo_ready, PromoteAtTime = 4000, initproc = Some 0,
     nextpid = 4, ticks = 100, kpgdir = 0x80600000, ts_addr = (\<lambda>_. 0x80110100), forkret_sym = 0x80100200,
     trapret_sym = 0x80100300\<rparr>"

lemma demo_cpu0: "cpu_ok (demo_cpus c)" "saved (demo_cpus c) = demo_cpus c" "cproc (demo_cpus 0) = Some 0"
  by (auto simp: demo_cpus_def idle_cpu_def cpu_ok_def saved_def)

lemma free_initlock [simp]: "free_lock (initlock n)"
  by (simp add: free_lock_def initlock_def)

lemma demo_ok: "ptinv demo_st demo_Q" "ready_cpu 0 demo_st" "calm 0 1 demo_st"
proof -
  show p: "ptinv demo_st demo_Q" by (rule demo_ptinv) (simp_all add: demo_st_def)
  show r: "ready_cpu 0 demo_st" using demo_cpu0 by (simp add: ready_cpu_def demo_st_def)
  show "calm 0 1 demo_st" using p r demo_cpu0
    by (auto simp: calm_def demo_st_def demo_proc_def zero_proc_def Let_def)
qed

text \<open>A kernel with one free page.\<close>

definition demo_mem :: pt_st where
  "demo_mem = demo_st\<lparr>freelist := 0x80400000\<rparr>"

lemma demo_mem_simps [simp]: "mem demo_mem = (\<lambda>_. 0)" "end_sym demo_mem = 0x80120000"
  by (simp_all add: demo_mem_def demo_st_def)

lemma demo_kpage: "kpage 0x80120000 v \<longleftrightarrow> page_aligned v \<and> 0x80120000 \<le> v \<and> v - 0x80000000 < 0xE000000"
  by (simp add: kpage_def V2P_def KERNBASE_def PHYSTOP_def)

lemma demo_mem_ok: "kmem_ok 0 demo_mem [0x80400000]"
  using demo_cpu0
  by (simp add: kmem_ok_def demo_kpage page_aligned_def One_nat_def) (simp add: demo_mem_def demo_st_def ld32_def One_nat_def)

section \<open>A logged state\<close>

definition demo_buf :: "nat \<Rightarrow> buf" where
  "demo_buf b = \<lparr>b_flags = 0, b_dev = 0, b_blockno = 0, b_lock = initsleeplock ''buffer'', b_refcnt = 0,
     b_prev = (if b = 0 then NBUF else b - 1), b_next = (if b = NBUF then 0 else b + 1), b_qnext = None,
     b_data = replicate BSIZE 0\<rparr>"

text \<open>A kernel with this disk, these buffers, and a header of \<open>n\<close> logged blocks; \<open>x\<close> is the state above the log.\<close>

definition demo_log :: "(nat \<Rightarrow> byte list) \<Rightarrow> (nat \<Rightarrow> buf) \<Rightarrow> uint \<Rightarrow> (nat \<Rightarrow> uint) \<Rightarrow> 'a \<Rightarrow> 'a log_st_scheme" where
  "demo_log D F n bs x = \<lparr>cpus = demo_cpus, mem = (\<lambda>_. 0), end_sym = 0x80120000, data_sym = 0x80110000,
     kmem_lock = initlock ''kmem'', use_lock = True, freelist = 0, ptable_lock = initlock ''ptable'',
     proc = demo_proc, plist = demo_plist, ready = demo_ready, PromoteAtTime = 4000, initproc = Some 0,
     nextpid = 4, ticks = 100, kpgdir = 0x80600000, ts_addr = (\<lambda>_. 0x80110100), forkret_sym = 0x80100200,
     trapret_sym = 0x80100300, bcache_lock = initlock ''bcache'', buf = F, idelock = initlock ''ide'', idequeue = None,
     havedisk1 = True, ide_req = None, ide_err = False, disk = (\<lambda>_. D), disk_writes = [], ioapic = (\<lambda>_. 0),
     log_lock = initlock ''log'', log_start = 2, log_size = 30, log_outstanding = 0, log_committing = 0,
     log_dev = ROOTDEV, lh_n = n, lh_block = bs, \<dots> = x\<rparr>"

definition demo_disk :: "nat \<Rightarrow> byte list" where "demo_disk = (\<lambda>_. replicate BSIZE 0)"

text \<open>Buffer 0 caches block 100 with modified contents, pinned by the log.\<close>

definition demo_bufs :: "nat \<Rightarrow> buf" where
  "demo_bufs = demo_buf(0 := (demo_buf 0)\<lparr>b_flags := B_VALID OR B_DIRTY, b_dev := ROOTDEV, b_blockno := 100,
                                         b_data := replicate BSIZE 7\<rparr>)"

definition demo_tx :: log_st where
  "demo_tx = demo_log demo_disk demo_bufs 1 (\<lambda>_. 100) ()"

lemma dl_upt:
  assumes "\<And>i. a \<le> i \<Longrightarrow> i < b \<Longrightarrow> nx i = Suc i \<and> pv (Suc i) = i" "nx x = a" "pv a = x" "a \<le> b"
  shows "dl nx pv x [a..<b] b"
  using assms
proof (induction "b - a" arbitrary: a x)
  case 0
  then show ?case by simp
next
  case (Suc k)
  have "dl nx pv a [Suc a..<b] b"
    using Suc.hyps(2) Suc.prems by (intro Suc.hyps(1)) auto
  then show ?case using Suc.prems Suc.hyps(2) by (simp add: upt_conv_Cons)
qed

lemma demo_lru:
  assumes "\<And>b. b_next (F b) = b_next (demo_buf b)" "\<And>b. b_prev (F b) = b_prev (demo_buf b)"
  shows "lru (demo_log D F n bs x) [0..<NBUF]"
proof -
  have "0 < NBUF" by (simp add: NBUF_def MAXOPBLOCKS_def)
  moreover have "nexts_b (demo_log D F n bs x) = (\<lambda>b. if b = NBUF then 0 else b + 1)"
    "prevs_b (demo_log D F n bs x) = (\<lambda>b. if b = 0 then NBUF else b - 1)"
    using assms by (auto simp: nexts_b_def prevs_b_def demo_log_def demo_buf_def)
  ultimately show ?thesis unfolding lru_def by (auto intro!: dl_upt)
qed

lemma demo_binv:
  assumes "\<And>b. b_next (F b) = b_next (demo_buf b)" "\<And>b. b_prev (F b) = b_prev (demo_buf b)"
    "\<And>i. length (D i) = BSIZE" "cache_ok D (\<lambda>b. bcore (F b))"
  shows "binv 0 1 (demo_log D F n bs x)"
proof -
  let ?s = "demo_log D F n bs x"
  have "ptinv ?s demo_Q" by (rule demo_ptinv) (simp_all add: demo_log_def)
  then have "calm 0 1 ?s" using demo_cpu0
    by (auto simp: calm_def ready_cpu_def demo_log_def demo_proc_def zero_proc_def Let_def)
  then have "ide_idle 0 1 ?s" by (simp add: ide_idle_def demo_log_def)
  moreover have "bcores ?s = (\<lambda>b. bcore (F b))" by (simp add: bcores_def[abs_def] demo_log_def)
  ultimately show ?thesis using demo_lru[where D = D and n = n and bs = bs and x = x, OF assms(1,2)] assms(3,4)
    by (auto simp: binv_def demo_log_def)
qed

lemma demo_fresh: "cache_ok D (\<lambda>b. bcore (demo_buf b))"
  by (simp add: cache_ok_def buf_ok_def demo_buf_def initsleeplock_def)

lemma demo_fresh_abs:
  "babs (demo_log D demo_buf n bs x) =
     \<lparr>ac_disk = (\<lambda>m. D (unat m)), ac_view = (\<lambda>m. D (unat m)), ac_pin = {}, ac_held = (\<lambda>_. None), ac_writes = []\<rparr>"
proof -
  have "cached (\<lambda>b. bcore (demo_buf b)) m = None" for m by (simp add: cached_None caches_def demo_buf_def)
  then show ?thesis by (simp add: babs_def cabs_def bcores_def[abs_def] demo_log_def)
qed

lemma demo_tx_abs:
  "ac_pin (babs demo_tx) = {100}" "ac_held (babs demo_tx) = (\<lambda>_. None)"
  "ac_disk (babs demo_tx) m = replicate BSIZE 0" "ac_view (babs demo_tx) 100 = replicate BSIZE 7"
proof -
  let ?F = "\<lambda>b. bcore (demo_bufs b)"
  have c: "cached ?F m = (if m = 100 then Some 0 else None)" for m
  proof -
    have "[0..<NBUF] = 0 # [1..<NBUF]" by (simp add: NBUF_def MAXOPBLOCKS_def upt_conv_Cons)
    moreover have "find (\<lambda>b. b_dev (?F b) = ROOTDEV \<and> b_blockno (?F b) = m) [1..<NBUF] = None"
      by (auto simp: find_None_iff demo_bufs_def demo_buf_def)
    ultimately show ?thesis by (auto simp: cached_def demo_bufs_def)
  qed
  have e: "babs demo_tx = cabs demo_disk [] ?F"
    by (simp add: babs_def bcores_def[abs_def] demo_tx_def demo_log_def)
  have "b_data (?F 0) = replicate BSIZE 7" "b_flags (?F 0) = B_VALID OR B_DIRTY" "sl_locked (b_lock (?F 0)) = 0"
    by (simp_all add: demo_bufs_def demo_buf_def initsleeplock_def)
  then show "ac_pin (babs demo_tx) = {100}" "ac_held (babs demo_tx) = (\<lambda>_. None)"
    "ac_disk (babs demo_tx) m = replicate BSIZE 0" "ac_view (babs demo_tx) 100 = replicate BSIZE 7"
    by (auto simp: e cabs_def c demo_disk_def)
qed

lemma demo_tx_binv: "binv 0 1 demo_tx"
  unfolding demo_tx_def
proof (rule demo_binv)
  show "cache_ok demo_disk (\<lambda>b. bcore (demo_bufs b))"
    by (auto simp: cache_ok_def buf_ok_def demo_bufs_def demo_buf_def initsleeplock_def FSSIZE_def word_less_nat_alt)
qed (simp_all add: demo_bufs_def demo_disk_def)

lemma ldw_zero: "length d = BSIZE \<Longrightarrow> (\<And>k. k < 4 \<Longrightarrow> d ! k = 0) \<Longrightarrow> ldw d 0 = 0"
  by (auto simp: ldw_def as_mem_def BSIZE_def unat_of_nat_uint intro!: ld32_zero)

lemma demo_tx_linv: "linv 0 1 demo_tx" "idle_cache demo_tx" "unat (lh_n demo_tx) = 1" "log_start demo_tx = 2"
proof -
  have "ldw (replicate BSIZE 0) 0 = 0" by (rule ldw_zero) (simp_all add: BSIZE_def)
  moreover have "log_dev demo_tx = ROOTDEV" "log_size demo_tx = 30" "log_start demo_tx = 2" "lh_n demo_tx = 1"
    "lh_block demo_tx = (\<lambda>_. 100)" by (simp_all add: demo_tx_def demo_log_def)
  moreover have "(\<lambda>_ :: nat. 100 :: uint) ` {..<1} = {100}" by auto
  ultimately show "linv 0 1 demo_tx" using demo_tx_binv demo_tx_abs
    by (simp add: linv_def LOGSIZE_def MAXOPBLOCKS_def FSSIZE_def lregion_def inj_on_def word_less_nat_alt)
  show "idle_cache demo_tx" using demo_tx_abs by (simp add: idle_cache_def)
  show "unat (lh_n demo_tx) = 1" "log_start demo_tx = 2" by (simp_all add: demo_tx_def demo_log_def)
qed

end
