(* ===== verification/Log_Ops.thy ===== *)
theory Log_Ops
  imports Demo
begin

unbundle bit_operations_syntax

text \<open>
  The operations of a transaction: \<open>begin_op\<close> reserves log space, \<open>log_write\<close> records and
  pins a block, \<open>end_op\<close> commits when the last operation ends; all keep the invariant of
  the log.
\<close>

section \<open>log.lock\<close>

lemma log_acquire_calm:
  assumes "calm c u s" "free_lock (log_lock s)"
  shows "log_acquire c s = Ok (s\<lparr>cpus := pushcli c (cpus s), log_lock := heldby c (log_lock s)\<rparr>)"
  by (simp add: log_acquire_def acquire_calm[OF assms] heldby_def)

lemma log_release_calm:
  assumes "calm c u s" "free_lock l" "cpus t = pushcli c (cpus s)" "log_lock t = heldby c l"
  shows "log_release c t = Ok (t\<lparr>cpus := cpus s, log_lock := l\<rparr>)"
  using assms release_calm[of c u s l] by (simp add: log_release_def heldby_def)

lemma linv_calm: "linv c u s \<Longrightarrow> calm c u s"
  by (simp add: linv_def binv_def ide_idle_def)

lemma linv_cong:
  assumes "binv c u t = binv c u s" "babs t = babs s" "log_dev t = log_dev s" "log_size t = log_size s"
    "log_start t = log_start s" "lh_n t = lh_n s" "lh_block t = lh_block s"
  shows "linv c u t = linv c u s"
  using assms by (simp add: linv_def lregion_def)

section \<open>begin_op\<close>

definition log_space :: "'a log_st_scheme \<Rightarrow> int" where
  "log_space s = int_of (lh_n s) + int_of (log_outstanding s) * int MAXOPBLOCKS"

lemma begin_op_ok:
  assumes l: "linv c u s" and fr: "free_lock (log_lock s)" and nc: "log_committing s = 0"
    and sp: "log_space s + int MAXOPBLOCKS \<le> int LOGSIZE"
  shows "begin_op c s = Ok (s\<lparr>log_outstanding := log_outstanding s + 1\<rparr>)"
proof -
  note cm = linv_calm[OF l]
  have "\<not> int_of (lh_n s) + (int_of (log_outstanding s) + 1) * int MAXOPBLOCKS > int LOGSIZE"
    using sp by (simp add: log_space_def algebra_simps)
  then have "begin_op c s = log_release c (s\<lparr>cpus := pushcli c (cpus s), log_lock := heldby c (log_lock s),
      log_outstanding := log_outstanding s + 1\<rparr>)"
    using nc by (simp add: begin_op_def log_acquire_calm[OF cm fr])
  also have "\<dots> = Ok (s\<lparr>cpus := pushcli c (cpus s), log_lock := heldby c (log_lock s),
      log_outstanding := log_outstanding s + 1, cpus := cpus s, log_lock := log_lock s\<rparr>)"
    by (rule log_release_calm[OF cm fr]) simp_all
  finally show ?thesis by simp
qed

section \<open>log_write\<close>

text \<open>What the steps of a transaction may change: the buffers, the disk, the log header.\<close>

definition lframe :: "'a log_st_scheme \<Rightarrow> 'a log_st_scheme \<Rightarrow> bool" where
  "lframe s t \<longleftrightarrow>
     bview t = (bview s)\<lparr>buf := buf t, disk := disk t, disk_writes := disk_writes t, ide_req := ide_req t,
                         lh_n := lh_n t, lh_block := lh_block t\<rparr>"

lemma bview_header [simp]: "lh_n (bview s) = lh_n s" "lh_block (bview s) = lh_block s"
  by (simp_all add: bview_def)

lemma lframe_refl: "lframe s s"
  unfolding lframe_def by (intro log_st.equality) simp_all

lemma lframe_trans:
  assumes "lframe s t" "lframe t r"
  shows "lframe s r"
  using assms by (simp add: lframe_def)

lemma lframe_bframe:
  assumes "bframe s t"
  shows "lframe s t"
  using assms bframe_log(7,8)[OF assms] unfolding lframe_def bframe_def by (intro log_st.equality) simp_all

lemma for_each_search:
  assumes "n \<le> L"
  shows "for_each (\<lambda>i (_ :: unit). if i \<ge> L then Fault else Ok (if P i then Some i else None, ())) [0..<n] () =
    Ok (find P [0..<n], ())"
proof -
  have *: "for_each (\<lambda>i (_ :: unit). if i \<ge> L then Fault else Ok (if P i then Some i else None, ())) xs () =
      Ok (find P xs, ())" if "set xs \<subseteq> {..<L}" for xs
    using that by (induction xs) auto
  show ?thesis by (rule *) (use assms in auto)
qed

text \<open>The slot of a block in the header, and the header with the block entered.\<close>

definition slot :: "(nat \<Rightarrow> uint) \<Rightarrow> nat \<Rightarrow> uint \<Rightarrow> nat" where
  "slot bs n m = (case find (\<lambda>i. bs i = m) [0..<n] of Some i \<Rightarrow> i | None \<Rightarrow> n)"

lemma slot_cases:
  obtains (old) "slot bs n m < n" "bs (slot bs n m) = m" "m \<in> bs ` {..<n}"
  | (new) "slot bs n m = n" "m \<notin> bs ` {..<n}"
proof (cases "find (\<lambda>i. bs i = m) [0..<n]")
  case None
  then have "m \<notin> bs ` {..<n}" by (auto simp: find_None_iff)
  then show ?thesis using None new by (simp add: slot_def)
next
  case (Some i)
  then have "i < n" "bs i = m" using find_SomeD[OF Some] by auto
  then show ?thesis using Some old by (auto simp: slot_def)
qed

lemma log_slot_eq:
  assumes "linv c u s"
  shows "log_slot m s = Ok (slot (lh_block s) (unat (lh_n s)) m)"
  using lh_count(3)[OF assms] unfolding log_slot_def lh_range_def lh_count(1)[OF assms] slot_def
  by (subst for_each_search) simp_all

lemma log_slot_cong: "lh_n t = lh_n s \<Longrightarrow> lh_block t = lh_block s \<Longrightarrow> log_slot m t = log_slot m s"
  unfolding log_slot_def by (simp cong: if_cong option.case_cong)

lemma linv_append:
  assumes l: "linv c u s" and b: "binv c u t" and a: "babs t = ac_mark m (babs s)"
    and f: "log_dev t = log_dev s" "log_size t = log_size s" "log_start t = log_start s"
    and m: "m < FSSIZE" "m \<notin> lregion s"
    and h: "lh_block t = (lh_block s)(slot (lh_block s) (unat (lh_n s)) m := m)"
      "lh_n t = (if slot (lh_block s) (unat (lh_n s)) m = unat (lh_n s) then lh_n s + 1 else lh_n s)"
    and sp: "unat (lh_n s) + 1 < unat (log_size s)"
  shows "linv c u t"
proof -
  let ?n = "unat (lh_n s)"
  have hd: "ldw (ac_disk (babs t) (log_start t)) 0 = 0" using l by (simp add: a ac_mark_def f linv_def)
  have S: "unat (lh_n s + 1) = Suc ?n"
    using lh_count(3)[OF l] by (simp add: unat_word_ariths LOGSIZE_def MAXOPBLOCKS_def)
  show ?thesis
  proof (cases rule: slot_cases[of "lh_block s" ?n m])
    case old
    have "lh_n t = lh_n s" "lh_block t = lh_block s" using h old by (auto simp: fun_upd_idem)
    then show ?thesis using l old b hd m by (auto simp: linv_def a ac_mark_def f lregion_def insert_absorb)
  next
    case new
    then have n': "unat (lh_n t) = Suc ?n" and bl: "lh_block t = (lh_block s)(?n := m)" using h S by auto
    have inj: "inj_on (lh_block t) {..<Suc ?n}"
      using l new(2) unfolding bl lessThan_Suc by (auto simp: linv_def inj_on_def)
    have "ac_pin (babs t) = lh_block t ` {..<Suc ?n}"
      using l unfolding bl lessThan_Suc a ac_mark_def by (auto simp: linv_def)
    moreover have "\<forall>i < Suc ?n. lh_block t i < FSSIZE \<and> lh_block t i \<notin> lregion t"
      using l m unfolding bl by (auto simp: linv_def lregion_def f less_Suc_eq)
    ultimately show ?thesis using l b hd inj sp by (simp add: linv_def f n')
  qed
qed

lemma log_write_ok:
  assumes l: "linv c u s" and fr: "free_lock (log_lock s)" and hb: "ac_held (babs s) m = Some b"
    and m: "m \<notin> lregion s" and out: "0 < int_of (log_outstanding s)" and sp: "unat (lh_n s) + 1 < unat (log_size s)"
  shows "\<exists>t. log_write c b s = Ok t \<and> linv c u t \<and> babs t = ac_mark m (babs s) \<and> log_lock t = log_lock s \<and>
    log_outstanding t = log_outstanding s \<and> log_committing t = log_committing s \<and> log_start t = log_start s \<and>
    log_size t = log_size s \<and> lh_n t = (if m \<in> ac_pin (babs s) then lh_n s else lh_n s + 1) \<and> lframe s t"
proof -
  let ?n = "unat (lh_n s)" and ?i = "slot (lh_block s) (unat (lh_n s)) m"
  note cm = linv_calm[OF l] and cnt = lh_count[OF l]
  have inv: "binv c u s" using l by (simp add: linv_def)
  note ca = babs_held(1)[OF inv hb]
  note ok = caches_ok[OF inv ca]
  have sz: "int_of (log_size s) = int (unat (log_size s))"
    using l by (intro int_of_small) (simp add: linv_def LOGSIZE_def MAXOPBLOCKS_def)
  let ?u = "\<lambda>t. bupd b (\<lambda>x. x\<lparr>b_flags := b_flags x OR B_DIRTY\<rparr>) (t\<lparr>lh_block := (lh_block s)(?i := m),
      lh_n := (if ?i = ?n then lh_n s + 1 else lh_n s)\<rparr>)"
  let ?s1 = "s\<lparr>cpus := pushcli c (cpus s), log_lock := heldby c (log_lock s)\<rparr>"
  have sl: "log_slot m ?s1 = Ok ?i"
    using log_slot_eq[OF l, of m] log_slot_cong[of ?s1 s m] by simp
  have g: "\<not> (int_of (lh_n s) \<ge> int LOGSIZE \<or> int_of (lh_n s) \<ge> int_of (log_size s) - 1)"
    using cnt(3) sp unfolding cnt(2) sz by linarith
  have eqv: "(int ?i = int_of (lh_n s)) = (?i = ?n)" unfolding cnt(2) by (rule of_nat_eq_iff)
  have "log_write c b s = log_release c (?u ?s1)"
    using g out sl ok(3) unfolding log_write_def log_acquire_calm[OF cm fr]
    by (simp add: Let_def eqv bupd_def)
  also have "\<dots> = Ok ((?u ?s1)\<lparr>cpus := cpus s, log_lock := log_lock s\<rparr>)"
    by (rule log_release_calm[OF cm fr]) (simp_all add: bupd_def)
  also have "(?u ?s1)\<lparr>cpus := cpus s, log_lock := log_lock s\<rparr> = ?u s" by (simp add: bupd_def)
  finally have run: "log_write c b s = Ok (?u s)" .
  have "binv c u (?u s)" "babs (?u s) = ac_mark m (babs s)"
    using held_bupd_ok(3,4)[of c u "s\<lparr>lh_block := (lh_block s)(?i := m), lh_n := (if ?i = ?n then lh_n s + 1 else lh_n s)\<rparr>" m b]
      inv hb by simp_all
  then have "linv c u (?u s)"
    using m ok(5) sp by (intro linv_append[OF l]) (simp_all add: bupd_def)
  moreover have "(if ?i = ?n then lh_n s + 1 else lh_n s) = (if m \<in> ac_pin (babs s) then lh_n s else lh_n s + 1)"
    using l by (cases rule: slot_cases[of "lh_block s" ?n m]) (auto simp: linv_def)
  moreover have "lframe s (?u s)" by (simp add: lframe_def bupd_def bview_def)
  ultimately show ?thesis using run \<open>babs (?u s) = ac_mark m (babs s)\<close> by (auto simp: bupd_def)
qed

end
