(* ===== verification/Fs.thy ===== *)
theory Fs
  imports Log_Ops
begin

unbundle bit_operations_syntax

text \<open>
  The block and inode layers of \<open>fs.c\<close>, up to \<open>stati\<close>: the free-block bitmap, the inode
  cache, the block map of an inode.  The state adds the in-memory super block and
  \<open>struct icache\<close>; the entries of the cache are numbered \<open>0..NINODE-1\<close>.  \<open>short\<close> fields are
  16-bit words and \<open>int\<close> fields 32-bit words, compared signed.  The fields of a \<open>struct
  dinode\<close> are read and written in the bytes of its block, as the code does through a
  pointer cast.
\<close>

section \<open>fs.h, file.h\<close>

definition NDIRECT :: nat where "NDIRECT = 12"
definition NINDIRECT :: nat where "NINDIRECT = BSIZE div 4"
definition MAXFILE :: nat where "MAXFILE = NDIRECT + NINDIRECT"
definition ROOTINO :: uint where "ROOTINO = 1"
definition IPB :: uint where "IPB = 8"
definition BPB :: nat where "BPB = BSIZE * 8"
definition DIRSIZ :: nat where "DIRSIZ = 14"
definition T_DIR :: ushort where "T_DIR = 1"
definition T_FILE :: ushort where "T_FILE = 2"
definition T_DEV :: ushort where "T_DEV = 3"

definition IBLOCK :: "uint \<Rightarrow> superblock \<Rightarrow> uint" where
  "IBLOCK i sb = i div IPB + sb_inodestart sb"

definition BBLOCK :: "uint \<Rightarrow> superblock \<Rightarrow> uint" where
  "BBLOCK b sb = b div of_nat BPB + sb_bmapstart sb"

record dinode =
  di_type :: ushort
  di_major :: ushort
  di_minor :: ushort
  di_nlink :: ushort
  di_size :: uint
  di_addrs :: "nat \<Rightarrow> uint"

definition sizeof_dinode :: nat where "sizeof_dinode = 64"

record inode =
  i_dev :: uint
  i_inum :: uint
  i_ref :: uint
  i_lock :: sleeplock
  i_valid :: uint
  i_type :: ushort
  i_major :: ushort
  i_minor :: ushort
  i_nlink :: ushort
  i_size :: uint
  i_addrs :: "nat \<Rightarrow> uint"

record fs_st = log_st +
  fsb :: superblock
  icache_lock :: spinlock
  inode :: "nat \<Rightarrow> inode"

definition iupd :: "nat \<Rightarrow> (inode \<Rightarrow> inode) \<Rightarrow> 'a fs_st_scheme \<Rightarrow> 'a fs_st_scheme" where
  "iupd i f s = s\<lparr>inode := (inode s)(i := f (inode s i))\<rparr>"

definition icache_acquire :: "nat \<Rightarrow> 'a fs_st_scheme \<Rightarrow> 'a fs_st_scheme res" where
  "icache_acquire c s = rbind (acquire c (cpus s) (icache_lock s)) (\<lambda>(cs, l). Ok (s\<lparr>cpus := cs, icache_lock := l\<rparr>))"

definition icache_release :: "nat \<Rightarrow> 'a fs_st_scheme \<Rightarrow> 'a fs_st_scheme res" where
  "icache_release c s = rbind (release c (cpus s) (icache_lock s)) (\<lambda>(cs, l). Ok (s\<lparr>cpus := cs, icache_lock := l\<rparr>))"

definition get_ilock :: "nat \<Rightarrow> 'a fs_st_scheme \<Rightarrow> sleeplock" where
  "get_ilock i s = i_lock (inode s i)"

definition put_ilock :: "nat \<Rightarrow> sleeplock \<Rightarrow> 'a fs_st_scheme \<Rightarrow> 'a fs_st_scheme" where
  "put_ilock i l s = iupd i (\<lambda>x. x\<lparr>i_lock := l\<rparr>) s"

section \<open>struct dinode in a block\<close>

definition lds :: "byte list \<Rightarrow> nat \<Rightarrow> ushort" where
  "lds d i = ucast (as_mem d (of_nat i)) OR push_bit 8 (ucast (as_mem d (of_nat i + 1)))"

definition sts :: "byte list \<Rightarrow> nat \<Rightarrow> ushort \<Rightarrow> byte list" where
  "sts d i v = d[i := ucast v, i + 1 := ucast (drop_bit 8 v)]"

definition get_dinode :: "byte list \<Rightarrow> nat \<Rightarrow> dinode" where
  "get_dinode d o1 = \<lparr>di_type = lds d o1, di_major = lds d (o1 + 2), di_minor = lds d (o1 + 4),
     di_nlink = lds d (o1 + 6), di_size = ldw d (o1 + 8), 
     di_addrs = (\<lambda>k. if k \<le> NDIRECT then ldw d (o1 + 12 + 4 * k) else 0)\<rparr>"

text \<open>\<open>memmove(dip->addrs, ip->addrs, sizeof(ip->addrs))\<close>\<close>

definition put_addrs :: "byte list \<Rightarrow> nat \<Rightarrow> (nat \<Rightarrow> uint) \<Rightarrow> byte list" where
  "put_addrs d o1 a = fold (\<lambda>k d. stw d (o1 + 4 * k) (a k)) [0..<NDIRECT + 1] d"

definition put_dinode :: "byte list \<Rightarrow> nat \<Rightarrow> dinode \<Rightarrow> byte list" where
  "put_dinode d o1 x =
     (let d = sts d o1 (di_type x); d = sts d (o1 + 2) (di_major x); d = sts d (o1 + 4) (di_minor x);
          d = sts d (o1 + 6) (di_nlink x); d = stw d (o1 + 8) (di_size x)
      in put_addrs d (o1 + 12) (di_addrs x))"

text \<open>The offset of inode \<open>inum\<close> in its block: \<open>(struct dinode*)bp->data + inum%IPB\<close>.\<close>

definition dinode_off :: "uint \<Rightarrow> nat" where
  "dinode_off inum = sizeof_dinode * unat (inum mod IPB)"

section \<open>Blocks\<close>

definition bzero :: "nat \<Rightarrow> uint \<Rightarrow> uint \<Rightarrow> 'a log_st_scheme \<Rightarrow> 'a log_st_scheme res" where
  "bzero c dv bno s =
     rbind (bread c dv bno s) (\<lambda>(bp, s1).
     rbind (log_write c bp (set_data bp (replicate BSIZE 0) s1)) (brelse c bp))"

text \<open>The bit of block \<open>bi\<close> in a bitmap block: \<open>data[bi/8] & (1 << (bi % 8))\<close>.\<close>

definition bit_mask :: "nat \<Rightarrow> byte" where
  "bit_mask bi = push_bit (bi mod 8) 1"

definition balloc_body ::
  "nat \<Rightarrow> uint \<Rightarrow> uint \<Rightarrow> nat \<Rightarrow> nat \<Rightarrow> 'a log_st_scheme \<Rightarrow> (uint option \<times> 'a log_st_scheme) res" where
  "balloc_body c dv b bp bi s =
     (let d = b_data (buf s bp); m = bit_mask bi
      in if d ! (bi div 8) AND m = 0 then
           rbind (log_write c bp (set_data bp (d[bi div 8 := d ! (bi div 8) OR m]) s)) (\<lambda>s1.
           rbind (brelse c bp s1) (\<lambda>s2.
           rbind (bzero c dv (b + of_nat bi) s2) (\<lambda>s3. Ok (Some (b + of_nat bi), s3))))
         else Ok (None, s))"

definition balloc_block ::
  "nat \<Rightarrow> uint \<Rightarrow> uint \<Rightarrow> 'a fs_st_scheme \<Rightarrow> (uint option \<times> 'a fs_st_scheme) res" where
  "balloc_block c dv b s =
     rbind (bread c dv (BBLOCK b (fsb s)) s) (\<lambda>(bp, s1).
     rbind (for_each (balloc_body c dv b bp) [0..<min BPB (unat (sb_size (fsb s)) - unat b)] s1) (\<lambda>(r, s2).
       case r of Some a \<Rightarrow> Ok (Some a, s2) | None \<Rightarrow> rbind (brelse c bp s2) (\<lambda>s3. Ok (None, s3))))"

text \<open>The values of \<open>b\<close> in \<open>for(b = 0; b < sb.size; b += BPB)\<close>.\<close>

definition bmap_starts :: "uint \<Rightarrow> uint list" where
  "bmap_starts n = map (\<lambda>k. of_nat (BPB * k)) [0..<(unat n + BPB - 1) div BPB]"

definition balloc :: "nat \<Rightarrow> uint \<Rightarrow> 'a fs_st_scheme \<Rightarrow> (uint \<times> 'a fs_st_scheme) res" where
  "balloc c dv s =
     rbind (for_each (balloc_block c dv) (bmap_starts (sb_size (fsb s))) s) (\<lambda>(r, s1).
       case r of Some a \<Rightarrow> Ok (a, s1) | None \<Rightarrow> Panic ''balloc: out of blocks'')"

definition bfree :: "nat \<Rightarrow> uint \<Rightarrow> uint \<Rightarrow> 'a fs_st_scheme \<Rightarrow> 'a fs_st_scheme res" where
  "bfree c dv b s =
     rbind (readsb c dv s) (\<lambda>(sb, s0).
     let s1 = s0\<lparr>fsb := sb\<rparr>
     in rbind (bread c dv (BBLOCK b (fsb s1)) s1) (\<lambda>(bp, s2).
        let bi = unat (b mod of_nat BPB); m = bit_mask bi; d = b_data (buf s2 bp)
        in if d ! (bi div 8) AND m = 0 then Panic ''freeing free block''
           else rbind (log_write c bp (set_data bp (d[bi div 8 := d ! (bi div 8) AND NOT m]) s2)) (brelse c bp)))"

section \<open>The inode cache\<close>

text \<open>The scan of \<open>iget\<close>: an early return is a hit, the accumulator the first empty slot.\<close>

definition iget_body ::
  "uint \<Rightarrow> uint \<Rightarrow> 'a fs_st_scheme \<Rightarrow> nat \<Rightarrow> nat option \<Rightarrow> (nat option \<times> nat option) res" where
  "iget_body dv inum s ip emp =
     (if int_of (i_ref (inode s ip)) > 0 \<and> i_dev (inode s ip) = dv \<and> i_inum (inode s ip) = inum
      then Ok (Some ip, emp)
      else Ok (None, if emp = None \<and> i_ref (inode s ip) = 0 then Some ip else emp))"

definition iget :: "nat \<Rightarrow> uint \<Rightarrow> uint \<Rightarrow> 'a fs_st_scheme \<Rightarrow> (nat \<times> 'a fs_st_scheme) res" where
  "iget c dv inum s =
     rbind (icache_acquire c s) (\<lambda>s1.
     rbind (for_each (iget_body dv inum s1) [0..<NINODE] None) (\<lambda>(hit, emp).
       case hit of
         Some ip \<Rightarrow> rbind (icache_release c (iupd ip (\<lambda>x. x\<lparr>i_ref := i_ref x + 1\<rparr>) s1)) (\<lambda>s2. Ok (ip, s2))
       | None \<Rightarrow>
          (case emp of
             None \<Rightarrow> Panic ''iget: no inodes''
           | Some ip \<Rightarrow>
               rbind (icache_release c (iupd ip (\<lambda>x. x\<lparr>i_dev := dv, i_inum := inum, i_ref := 1, i_valid := 0\<rparr>) s1))
                 (\<lambda>s2. Ok (ip, s2)))))"

definition ialloc_body ::
  "nat \<Rightarrow> uint \<Rightarrow> ushort \<Rightarrow> uint \<Rightarrow> 'a fs_st_scheme \<Rightarrow> (nat option \<times> 'a fs_st_scheme) res" where
  "ialloc_body c dv ty inum s =
     rbind (bread c dv (IBLOCK inum (fsb s)) s) (\<lambda>(bp, s1).
       let d = b_data (buf s1 bp); o1 = dinode_off inum
       in if lds d o1 = 0 then
            rbind (log_write c bp (set_data bp (sts (take o1 d @ replicate sizeof_dinode 0 @ drop (o1 + sizeof_dinode) d) o1 ty) s1)) (\<lambda>s2.
            rbind (brelse c bp s2) (\<lambda>s3.
            rbind (iget c dv inum s3) (\<lambda>(ip, s4). Ok (Some ip, s4))))
          else rbind (brelse c bp s1) (\<lambda>s2. Ok (None, s2)))"

definition ialloc :: "nat \<Rightarrow> uint \<Rightarrow> ushort \<Rightarrow> 'a fs_st_scheme \<Rightarrow> (nat \<times> 'a fs_st_scheme) res" where
  "ialloc c dv ty s =
     rbind (for_each (ialloc_body c dv ty) (map of_nat [1..<unat (sb_ninodes (fsb s))]) s) (\<lambda>(r, s1).
       case r of Some ip \<Rightarrow> Ok (ip, s1) | None \<Rightarrow> Panic ''ialloc: no inodes'')"

definition dinode_of :: "inode \<Rightarrow> dinode" where
  "dinode_of x = \<lparr>di_type = i_type x, di_major = i_major x, di_minor = i_minor x, di_nlink = i_nlink x,
                  di_size = i_size x, di_addrs = i_addrs x\<rparr>"

definition iupdate :: "nat \<Rightarrow> nat \<Rightarrow> 'a fs_st_scheme \<Rightarrow> 'a fs_st_scheme res" where
  "iupdate c ip s =
     rbind (bread c (i_dev (inode s ip)) (IBLOCK (i_inum (inode s ip)) (fsb s)) s) (\<lambda>(bp, s1).
     rbind (log_write c bp
              (set_data bp (put_dinode (b_data (buf s1 bp)) (dinode_off (i_inum (inode s1 ip))) (dinode_of (inode s1 ip))) s1))
       (brelse c bp))"

definition idup :: "nat \<Rightarrow> ptr \<Rightarrow> 'a fs_st_scheme \<Rightarrow> (nat \<times> 'a fs_st_scheme) res" where
  "idup c ipo s =
     deref ipo (\<lambda>ip.
     rbind (icache_acquire c s) (\<lambda>s1.
     rbind (icache_release c (iupd ip (\<lambda>x. x\<lparr>i_ref := i_ref x + 1\<rparr>) s1)) (\<lambda>s2. Ok (ip, s2))))"

text \<open>The fields \<open>ilock\<close> copies from the disk inode.\<close>

definition load_inode :: "dinode \<Rightarrow> inode \<Rightarrow> inode" where
  "load_inode d x = x\<lparr>i_type := di_type d, i_major := di_major d, i_minor := di_minor d, i_nlink := di_nlink d,
     i_size := di_size d, i_addrs := di_addrs d\<rparr>"

definition ilock :: "nat \<Rightarrow> ptr \<Rightarrow> 'a fs_st_scheme \<Rightarrow> 'a fs_st_scheme res" where
  "ilock c ipo s =
     (case ipo of
        None \<Rightarrow> Panic ''ilock''
      | Some ip \<Rightarrow>
          if int_of (i_ref (inode s ip)) < 1 then Panic ''ilock''
          else rbind (acquiresleep c (get_ilock ip) (put_ilock ip) s) (\<lambda>s1.
            if i_valid (inode s1 ip) = 0 then
              rbind (bread c (i_dev (inode s1 ip)) (IBLOCK (i_inum (inode s1 ip)) (fsb s1)) s1) (\<lambda>(bp, s2).
              let s3 = iupd ip (load_inode (get_dinode (b_data (buf s2 bp)) (dinode_off (i_inum (inode s2 ip))))) s2
              in rbind (brelse c bp s3) (\<lambda>s4.
                 let s5 = iupd ip (\<lambda>x. x\<lparr>i_valid := 1\<rparr>) s4
                 in if i_type (inode s5 ip) = 0 then Panic ''ilock: no type'' else Ok s5))
            else Ok s1))"

definition iunlock :: "nat \<Rightarrow> ptr \<Rightarrow> 'a fs_st_scheme \<Rightarrow> 'a fs_st_scheme res" where
  "iunlock c ipo s =
     (case ipo of
        None \<Rightarrow> Panic ''iunlock''
      | Some ip \<Rightarrow>
          rbind (holdingsleep c (get_ilock ip) (put_ilock ip) s) (\<lambda>(h, s1).
          if \<not> h \<or> int_of (i_ref (inode s1 ip)) < 1 then Panic ''iunlock''
          else releasesleep c (Ch_inode_lock ip) (get_ilock ip) (put_ilock ip) s1))"

section \<open>Inode content\<close>

definition bmap :: "nat \<Rightarrow> nat \<Rightarrow> uint \<Rightarrow> 'a fs_st_scheme \<Rightarrow> (uint \<times> 'a fs_st_scheme) res" where
  "bmap c ip bn s =
     (if unat bn < NDIRECT then
        (if i_addrs (inode s ip) (unat bn) = 0 then
           rbind (balloc c (i_dev (inode s ip)) s) (\<lambda>(a, s1).
           Ok (a, iupd ip (\<lambda>x. x\<lparr>i_addrs := (i_addrs x)(unat bn := a)\<rparr>) s1))
         else Ok (i_addrs (inode s ip) (unat bn), s))
      else if unat bn - NDIRECT < NINDIRECT then
        rbind (if i_addrs (inode s ip) NDIRECT = 0 then
                 rbind (balloc c (i_dev (inode s ip)) s) (\<lambda>(a, s1).
                 Ok (a, iupd ip (\<lambda>x. x\<lparr>i_addrs := (i_addrs x)(NDIRECT := a)\<rparr>) s1))
               else Ok (i_addrs (inode s ip) NDIRECT, s)) (\<lambda>(ia, s1).
        rbind (bread c (i_dev (inode s1 ip)) ia s1) (\<lambda>(bp, s2).
        let k = 4 * (unat bn - NDIRECT)
        in rbind (if ldw (b_data (buf s2 bp)) k = 0 then
                    rbind (balloc c (i_dev (inode s2 ip)) s2) (\<lambda>(a, s3).
                    rbind (log_write c bp (set_data bp (stw (b_data (buf s3 bp)) k a) s3)) (\<lambda>s4. Ok (a, s4)))
                  else Ok (ldw (b_data (buf s2 bp)) k, s2)) (\<lambda>(a, s5).
           rbind (brelse c bp s5) (\<lambda>s6. Ok (a, s6)))))
      else Panic ''bmap: out of range'')"

definition itrunc_direct :: "nat \<Rightarrow> nat \<Rightarrow> nat \<Rightarrow> 'a fs_st_scheme \<Rightarrow> (unit option \<times> 'a fs_st_scheme) res" where
  "itrunc_direct c ip i s =
     (if i_addrs (inode s ip) i \<noteq> 0 then
        rbind (bfree c (i_dev (inode s ip)) (i_addrs (inode s ip) i) s) (\<lambda>s1.
        Ok (None, iupd ip (\<lambda>x. x\<lparr>i_addrs := (i_addrs x)(i := 0)\<rparr>) s1))
      else Ok (None, s))"

definition itrunc_indirect :: "nat \<Rightarrow> nat \<Rightarrow> nat \<Rightarrow> nat \<Rightarrow> 'a fs_st_scheme \<Rightarrow> (unit option \<times> 'a fs_st_scheme) res" where
  "itrunc_indirect c ip bp j s =
     (let a = ldw (b_data (buf s bp)) (4 * j)
      in if a \<noteq> 0 then rbind (bfree c (i_dev (inode s ip)) a s) (\<lambda>s1. Ok (None, s1)) else Ok (None, s))"

definition itrunc :: "nat \<Rightarrow> nat \<Rightarrow> 'a fs_st_scheme \<Rightarrow> 'a fs_st_scheme res" where
  "itrunc c ip s =
     rbind (for_each (itrunc_direct c ip) [0..<NDIRECT] s) (\<lambda>(_, s1).
     rbind (if i_addrs (inode s1 ip) NDIRECT \<noteq> 0 then
              rbind (bread c (i_dev (inode s1 ip)) (i_addrs (inode s1 ip) NDIRECT) s1) (\<lambda>(bp, s2).
              rbind (for_each (itrunc_indirect c ip bp) [0..<NINDIRECT] s2) (\<lambda>(_, s3).
              rbind (brelse c bp s3) (\<lambda>s4.
              rbind (bfree c (i_dev (inode s4 ip)) (i_addrs (inode s4 ip) NDIRECT) s4) (\<lambda>s5.
              Ok (iupd ip (\<lambda>x. x\<lparr>i_addrs := (i_addrs x)(NDIRECT := 0)\<rparr>) s5)))))
            else Ok s1) (\<lambda>s6.
     iupdate c ip (iupd ip (\<lambda>x. x\<lparr>i_size := 0\<rparr>) s6)))"

definition iput :: "nat \<Rightarrow> ptr \<Rightarrow> 'a fs_st_scheme \<Rightarrow> 'a fs_st_scheme res" where
  "iput c ipo s =
     deref ipo (\<lambda>ip.
     rbind (acquiresleep c (get_ilock ip) (put_ilock ip) s) (\<lambda>s1.
     rbind (if i_valid (inode s1 ip) \<noteq> 0 \<and> i_nlink (inode s1 ip) = 0 then
              rbind (icache_acquire c s1) (\<lambda>s2.
              let r = i_ref (inode s2 ip)
              in rbind (icache_release c s2) (\<lambda>s3.
                 if r = 1 then
                   rbind (itrunc c ip s3) (\<lambda>s4.
                   rbind (iupdate c ip (iupd ip (\<lambda>x. x\<lparr>i_type := 0\<rparr>) s4)) (\<lambda>s5.
                   Ok (iupd ip (\<lambda>x. x\<lparr>i_valid := 0\<rparr>) s5)))
                 else Ok s3))
            else Ok s1) (\<lambda>s6.
     rbind (releasesleep c (Ch_inode_lock ip) (get_ilock ip) (put_ilock ip) s6) (\<lambda>s7.
     rbind (icache_acquire c s7) (\<lambda>s8.
     icache_release c (iupd ip (\<lambda>x. x\<lparr>i_ref := i_ref x - 1\<rparr>) s8))))))"

definition iunlockput :: "nat \<Rightarrow> ptr \<Rightarrow> 'a fs_st_scheme \<Rightarrow> 'a fs_st_scheme res" where
  "iunlockput c ipo s = rbind (iunlock c ipo s) (iput c ipo)"

record stat =
  st_type :: ushort
  st_dev :: uint
  st_ino :: uint
  st_nlink :: ushort
  st_size :: uint

definition stati :: "inode \<Rightarrow> stat" where
  "stati x = \<lparr>st_type = i_type x, st_dev = i_dev x, st_ino = i_inum x, st_nlink = i_nlink x, st_size = i_size x\<rparr>"

end
