(* ===== verification/Console.thy ===== *)
theory Console
  imports Fs
begin

unbundle bit_operations_syntax

text \<open>
  The console (\<open>console.c\<close>), the serial port (\<open>uart.c\<close>) and the process listings of
  \<open>proc.c\<close> that the console starts.  The screen is the CGA memory \<open>crt\<close> with the cursor
  register; the serial port keeps the bytes sent.  Characters are passed as C \<open>int\<close>; a
  \<open>char\<close> is signed.  A reader that has to wait for input does not return (\<open>Hang\<close>).  The
  bytes \<open>consoleread\<close> stores at its destination are part of its result; the source of
  \<open>consolewrite\<close> is a function from the offset to the byte, which may fault.
\<close>

section \<open>State\<close>

text \<open>The function pointers of \<open>struct devsw\<close>.\<close>

datatype devread = Fn_consoleread
datatype devwrite = Fn_consolewrite

record con_st = fs_st +
  cons_lock :: spinlock
  cons_locking :: bool
  panicked :: bool
  in_buf :: "nat \<Rightarrow> byte"
  in_r :: uint
  in_w :: uint
  in_e :: uint
  crt :: "nat \<Rightarrow> ushort"
  crt_pos :: nat
  uart :: bool
  uart_out :: "byte list"
  uart_in :: "byte list"
  kbd_shift :: uint
  kbd_in :: "byte list"
  devsw_read :: "nat \<Rightarrow> devread option"
  devsw_write :: "nat \<Rightarrow> devwrite option"

definition BACKSPACE :: int where "BACKSPACE = 0x100"
definition INPUT_BUF :: nat where "INPUT_BUF = 128"
definition CONSOLE :: nat where "CONSOLE = 1"

text \<open>\<open>C(x)\<close>: control-x.\<close>

definition Ctl :: "char \<Rightarrow> int" where
  "Ctl ch = of_char ch - 64"

text \<open>The bytes of a string literal, without the NUL.\<close>

definition lit :: "string \<Rightarrow> byte list" where
  "lit cs = map of_char cs"

definition cons_acquire :: "nat \<Rightarrow> 'a con_st_scheme \<Rightarrow> 'a con_st_scheme res" where
  "cons_acquire c s = rbind (acquire c (cpus s) (cons_lock s)) (\<lambda>(cs, l). Ok (s\<lparr>cpus := cs, cons_lock := l\<rparr>))"

definition cons_release :: "nat \<Rightarrow> 'a con_st_scheme \<Rightarrow> 'a con_st_scheme res" where
  "cons_release c s = rbind (release c (cpus s) (cons_lock s)) (\<lambda>(cs, l). Ok (s\<lparr>cpus := cs, cons_lock := l\<rparr>))"

section \<open>uart.c\<close>

definition uartputc :: "int \<Rightarrow> 'a con_st_scheme \<Rightarrow> 'a con_st_scheme" where
  "uartputc ch s = (if \<not> uart s then s else s\<lparr>uart_out := uart_out s @ [word_of_int ch]\<rparr>)"

text \<open>\<open>pres\<close>: the status register of the port is not \<open>0xFF\<close>.  The reads that
  acknowledge a pending interrupt drop the byte in the receive register.\<close>

definition uartinit :: "bool \<Rightarrow> 'a con_st_scheme \<Rightarrow> 'a con_st_scheme" where
  "uartinit pres s =
     (if \<not> pres then s
      else fold (\<lambda>b. uartputc (sint b)) (lit ''xv6...'' @ [10])
             (ioapicenable IRQ_COM1 0 (s\<lparr>uart := True, uart_in := tl (uart_in s)\<rparr>)))"

definition uartgetc :: "'a con_st_scheme \<Rightarrow> int \<times> 'a con_st_scheme" where
  "uartgetc s =
     (if \<not> uart s then (-1, s)
      else case uart_in s of [] \<Rightarrow> (-1, s) | b # bs \<Rightarrow> (Word.uint b, s\<lparr>uart_in := bs\<rparr>))"

section \<open>console.c: output\<close>

definition cga_cell :: "int \<Rightarrow> ushort" where
  "cga_cell ch = (word_of_int ch AND 0xff) OR 0x0700"

definition cgaputc :: "int \<Rightarrow> 'a con_st_scheme \<Rightarrow> 'a con_st_scheme res" where
  "cgaputc ch s =
     (let pos = crt_pos s;
          (pos, s) = (if ch = 10 then (pos + (80 - pos mod 80), s)
                      else if ch = BACKSPACE then (if pos > 0 then pos - 1 else pos, s)
                      else (pos + 1, s\<lparr>crt := (crt s)(pos := cga_cell ch)\<rparr>))
      in if pos > 25 * 80 then Panic ''pos under/overflow''
         else let (pos, s) =
                (if pos div 80 \<ge> 24 then
                   let s = s\<lparr>crt := (\<lambda>i. if i < 23 * 80 then crt s (i + 80) else crt s i)\<rparr>;
                       pos = pos - 80
                   in (pos, s\<lparr>crt := (\<lambda>i. if pos \<le> i \<and> i < 24 * 80 then 0 else crt s i)\<rparr>)
                 else (pos, s))
              in Ok (s\<lparr>crt_pos := pos, crt := (crt s)(pos := cga_cell 32)\<rparr>))"

definition consputc :: "int \<Rightarrow> 'a con_st_scheme \<Rightarrow> 'a con_st_scheme res" where
  "consputc ch s =
     (if panicked s then Hang
      else cgaputc ch (if ch = BACKSPACE then uartputc 8 (uartputc 32 (uartputc 8 s)) else uartputc ch s))"

definition putbytes :: "byte list \<Rightarrow> 'a con_st_scheme \<Rightarrow> 'a con_st_scheme res" where
  "putbytes bs s = rbind (for_each (\<lambda>b s. rbind (consputc (sint b) s) (\<lambda>s'. Ok (None :: unit option, s'))) bs s) (\<lambda>(_, s'). Ok s')"

text \<open>
  The digits of \<open>printint\<close> in the order they are produced.  The state of the loop is the
  number left and the part of \<open>buf\<close> written; \<open>buf\<close> has 16 bytes.
\<close>

definition digits :: "byte list" where "digits = lit ''0123456789abcdef''"

definition digit_body :: "uint \<Rightarrow> uint \<times> byte list \<Rightarrow> (byte list + uint \<times> byte list) res" where
  "digit_body base = (\<lambda>(x, buf).
     if base = 0 \<or> unat (x mod base) \<ge> length digits \<or> length buf \<ge> 16 then Fault
     else let buf = buf @ [digits ! unat (x mod base)]; x = x div base
          in if x \<noteq> 0 then Ok (Inr (x, buf)) else Ok (Inl buf))"

text \<open>The characters \<open>printint\<close> prints.\<close>

definition int_chars :: "uint \<Rightarrow> uint \<Rightarrow> bool \<Rightarrow> byte list res" where
  "int_chars xx base sign =
     (let neg = sign \<and> int_of xx < 0
      in rbind (loop_res (digit_body base) (if neg then - xx else xx, [])) (\<lambda>buf.
         if neg then (if length buf \<ge> 16 then Fault else Ok (rev (buf @ [45]))) else Ok (rev buf)))"

definition printint :: "uint \<Rightarrow> uint \<Rightarrow> bool \<Rightarrow> 'a con_st_scheme \<Rightarrow> 'a con_st_scheme res" where
  "printint xx base sign s = rbind (int_chars xx base sign) (\<lambda>bs. putbytes bs s)"

text \<open>
  The variable arguments of \<open>cprintf\<close>: a word, or a pointer to a string (\<open>None\<close> for NULL).
  An argument of the wrong kind or a missing one is undefined in C and faults here.
\<close>

datatype carg = CInt uint | CStr "byte list option"

fun cprintf_loop :: "byte list \<Rightarrow> carg list \<Rightarrow> 'a con_st_scheme \<Rightarrow> 'a con_st_scheme res" where
  "cprintf_loop [] args s = Ok s"
| "cprintf_loop (ch # f) args s =
     (if ch = 0 then Ok s
      else if ch \<noteq> 37 then rbind (consputc (Word.uint ch) s) (cprintf_loop f args)
      else case f of
             [] \<Rightarrow> Ok s
           | k # f' \<Rightarrow>
               if k = 0 then Ok s
               else if k = 100 then
                 (case args of CInt w # as \<Rightarrow> rbind (printint w 10 True s) (cprintf_loop f' as) | _ \<Rightarrow> Fault)
               else if k = 120 \<or> k = 112 then
                 (case args of CInt w # as \<Rightarrow> rbind (printint w 16 False s) (cprintf_loop f' as) | _ \<Rightarrow> Fault)
               else if k = 115 then
                 (case args of
                    CStr so # as \<Rightarrow>
                      rbind (putbytes (case so of None \<Rightarrow> lit ''(null)'' | Some bs \<Rightarrow> cstr bs) s) (cprintf_loop f' as)
                  | _ \<Rightarrow> Fault)
               else if k = 37 then rbind (consputc 37 s) (cprintf_loop f' args)
               else rbind (consputc 37 s) (\<lambda>s1. rbind (consputc (Word.uint k) s1) (cprintf_loop f' args)))"

definition cprintf :: "nat \<Rightarrow> byte list \<Rightarrow> carg list \<Rightarrow> 'a con_st_scheme \<Rightarrow> 'a con_st_scheme res" where
  "cprintf c f args s =
     (if cons_locking s
      then rbind (cons_acquire c s) (\<lambda>s1. rbind (cprintf_loop f args s1) (cons_release c))
      else cprintf_loop f args s)"

text \<open>
  What \<open>panic\<close> does before it loops forever: the state in which the machine is frozen.
  \<open>pcs\<close> are the ten return addresses \<open>getcallerpcs\<close> finds.
\<close>

definition panic_state :: "nat \<Rightarrow> byte list \<Rightarrow> uint list \<Rightarrow> 'a con_st_scheme \<Rightarrow> 'a con_st_scheme res" where
  "panic_state c msg pcs s =
     (let s1 = cpu_upd c (\<lambda>k. k\<lparr>eflags := eflags k AND NOT FL_IF\<rparr>) s\<lparr>cons_locking := False\<rparr>
      in rbind (cprintf c (lit ''lapicid %d: panic: '') [CInt (ucast (apicid (cpus s1 c)))] s1) (\<lambda>s2.
         rbind (cprintf c (cstr msg) [] s2) (\<lambda>s3.
         rbind (cprintf c [10] [] s3) (\<lambda>s4.
         rbind (for_each (\<lambda>pc s. rbind (cprintf c (lit '' %p'') [CInt pc] s) (\<lambda>s'. Ok (None :: unit option, s'))) pcs s4) (\<lambda>(_, s5).
         Ok (s5\<lparr>panicked := True\<rparr>))))))"

section \<open>proc.c: the listings\<close>

text \<open>The columns of milliseconds: seconds, and the remainder with leading zeros.\<close>

definition print_ms :: "nat \<Rightarrow> uint \<Rightarrow> byte list \<Rightarrow> 'a con_st_scheme \<Rightarrow> 'a con_st_scheme res" where
  "print_ms c t tabs s =
     (let i = t div 1000; r = t mod 1000
      in if r = 0 then cprintf c (lit ''%d'' @ tabs) [CInt i] s
         else if r < 10 then cprintf c (lit ''%d.00%d'' @ tabs) [CInt i, CInt r] s
         else if r < 100 then cprintf c (lit ''%d.0%d'' @ tabs) [CInt i, CInt r] s
         else cprintf c (lit ''%d.%d'' @ tabs) [CInt i, CInt r] s)"

definition procdumpP4 :: "nat \<Rightarrow> nat \<Rightarrow> byte list \<Rightarrow> 'a con_st_scheme \<Rightarrow> 'a con_st_scheme res" where
  "procdumpP4 c p st s =
     (let x = proc s p; nm = CStr (Some (pname x))
      in rbind (cprintf c (lit ''%d'' @ [9]) [CInt (pid x)] s) (\<lambda>s.
         rbind (if length (cstr (pname x)) < 8
                then cprintf c (lit ''%s'' @ [9, 9] @ lit ''%d'' @ [9] @ lit ''%d'' @ [9]) [nm, CInt (uid x), CInt (gid x)] s
                else cprintf c (lit ''%s'' @ [9] @ lit ''%d'' @ [9] @ lit ''%d'' @ [9]) [nm, CInt (uid x), CInt (gid x)] s) (\<lambda>s.
         rbind (cprintf c (lit ''%d'' @ [9]) [CInt (case parent x of None \<Rightarrow> pid x | Some q \<Rightarrow> pid (proc s q))] s) (\<lambda>s.
         rbind (cprintf c (lit ''%d'' @ [9]) [CInt (priority x)] s) (\<lambda>s.
         rbind (print_ms c (ticks s - start_ticks x) [9, 9] s) (\<lambda>s.
         rbind (print_ms c (cpu_ticks_total x) [9] s) (\<lambda>s.
         cprintf c (lit ''%s'' @ [9] @ lit ''%d'' @ [9]) [CStr (Some st), CInt (sz x)] s)))))))"

definition procdump_header :: "byte list" where
  "procdump_header = [10] @ lit ''PID'' @ [9] @ lit ''Name'' @ [9, 9] @ lit ''UID'' @ [9] @ lit ''GID'' @ [9] @
     lit ''PPID'' @ [9] @ lit ''Prio'' @ [9] @ lit ''Elapsed'' @ [9] @ lit ''CPU'' @ [9] @ lit ''State'' @ [9] @
     lit ''Size'' @ [9] @ lit '' PCs'' @ [10]"

text \<open>The saved frame pointer is the fourth word of \<open>struct context\<close>.\<close>

definition procdump_body :: "nat \<Rightarrow> nat \<Rightarrow> 'a con_st_scheme \<Rightarrow> (unit option \<times> 'a con_st_scheme) res" where
  "procdump_body c p s =
     (if state (proc s p) = UNUSED then Ok (None, s)
      else rbind (procdumpP4 c p (lit (states_name (state (proc s p)))) s) (\<lambda>s1.
           rbind (if state (proc s1 p) = SLEEPING
                  then rbind (for_each (\<lambda>pc s. rbind (cprintf c (lit '' %p'') [CInt pc] s) (\<lambda>s'. Ok (None :: unit option, s')))
                                (takeWhile (\<lambda>pc. pc \<noteq> 0) (getcallerpcs (mem s1) (ld32 (mem s1) (ctxt (proc s1 p) + 12) + 8))) s1)
                         (\<lambda>(_, s2). Ok s2)
                  else Ok s1) (\<lambda>s3.
           rbind (cprintf c [10] [] s3) (\<lambda>s4. Ok (None, s4)))))"

definition procdump :: "nat \<Rightarrow> 'a con_st_scheme \<Rightarrow> 'a con_st_scheme res" where
  "procdump c s =
     rbind (cprintf c procdump_header [] s) (\<lambda>s1.
     rbind (ptable_acquire c s1) (\<lambda>s2.
     rbind (for_each (procdump_body c) [0..<NPROC] s2) (\<lambda>(_, s3).
     ptable_release c s3)))"

definition sleep_list_body :: "nat \<Rightarrow> nat \<Rightarrow> 'a con_st_scheme \<Rightarrow> (unit option \<times> ptr \<times> 'a con_st_scheme) res" where
  "sleep_list_body c p s =
     rbind (cprintf c (if nxt (proc s p) = None then lit ''%d'' @ [10] else lit ''%d -> '') [CInt (pid (proc s p))] s) (\<lambda>s1.
     Ok (None, nxt (proc s1 p), s1))"

definition getSleepList :: "nat \<Rightarrow> 'a con_st_scheme \<Rightarrow> 'a con_st_scheme res" where
  "getSleepList c s =
     rbind (ptable_acquire c s) (\<lambda>s1.
       case head (getl (LState SLEEPING) s1) of
         None \<Rightarrow> rbind (cprintf c (lit ''No Processes Sleepin'' @ [10]) [] s1) (ptable_release c)
       | Some p \<Rightarrow>
           rbind (cprintf c (lit ''Sleep List Processes: '' @ [10]) [] s1) (\<lambda>s2.
           rbind (walk (sleep_list_body c) (Some p) s2) (\<lambda>(_, s3). ptable_release c s3)))"

definition getFreeList :: "nat \<Rightarrow> 'a con_st_scheme \<Rightarrow> 'a con_st_scheme res" where
  "getFreeList c s =
     rbind (ptable_acquire c s) (\<lambda>s1.
     rbind (walk (\<lambda>p n. Ok (None :: unit option, nxt (proc s1 p), n + 1)) (head (getl (LState UNUSED) s1)) (0 :: uint)) (\<lambda>(_, count).
     rbind (cprintf c (lit ''Free List Size: %d processes'' @ [10]) [CInt count] s1) (ptable_release c)))"

definition zombie_list_body :: "nat \<Rightarrow> nat \<Rightarrow> 'a con_st_scheme \<Rightarrow> (unit option \<times> ptr \<times> 'a con_st_scheme) res" where
  "zombie_list_body c p s =
     deref (parent (proc s p)) (\<lambda>q.
     rbind (cprintf c (if nxt (proc s p) = None then lit ''(%d, %d)'' @ [10] else lit ''(%d, %d) -> '')
              [CInt (pid (proc s p)), CInt (pid (proc s q))] s) (\<lambda>s1.
     Ok (None, nxt (proc s1 p), s1)))"

definition getZombieList :: "nat \<Rightarrow> 'a con_st_scheme \<Rightarrow> 'a con_st_scheme res" where
  "getZombieList c s =
     rbind (ptable_acquire c s) (\<lambda>s1.
       case head (getl (LState ZOMBIE) s1) of
         None \<Rightarrow> rbind (cprintf c (lit ''No Processes in ZOMBIE'' @ [10]) [] s1) (ptable_release c)
       | Some p \<Rightarrow>
           rbind (cprintf c (lit ''Zombie List Processes: '' @ [10]) [] s1) (\<lambda>s2.
           rbind (walk (zombie_list_body c) (Some p) s2) (\<lambda>(_, s3). ptable_release c s3)))"

definition ready_list_body :: "nat \<Rightarrow> nat \<Rightarrow> 'a con_st_scheme \<Rightarrow> (unit option \<times> ptr \<times> 'a con_st_scheme) res" where
  "ready_list_body c p s =
     rbind (cprintf c (if nxt (proc s p) = None then lit ''(%d, %d)'' @ [10, 10] else lit ''(%d, %d) -> '')
              [CInt (pid (proc s p)), CInt (budget (proc s p))] s) (\<lambda>s1.
     Ok (None, nxt (proc s1 p), s1))"

text \<open>The counter of the loop is \<open>MAXPRIO - i\<close>.\<close>

definition getReadyList :: "nat \<Rightarrow> 'a con_st_scheme \<Rightarrow> 'a con_st_scheme res" where
  "getReadyList c s =
     rbind (ptable_acquire c s) (\<lambda>s1.
     rbind (for_each (\<lambda>i s.
              rbind (if i = MAXPRIO then cprintf c (lit ''MAXPRIO: '') [] s
                     else if i > 0 then cprintf c (lit ''MAXPRIO-%d: '') [CInt (of_nat (MAXPRIO - i))] s
                     else cprintf c (lit ''0: '') [] s) (\<lambda>s2.
              case head (getl (LReady i) s2) of
                None \<Rightarrow> rbind (cprintf c (lit ''none. '' @ [10, 10]) [] s2) (\<lambda>s3. Ok (None :: unit option, s3))
              | Some p \<Rightarrow> rbind (walk (ready_list_body c) (Some p) s2) (\<lambda>(_, s3). Ok (None, s3))))
            (rev [0..<Suc MAXPRIO]) s1) (\<lambda>(_, s4).
     ptable_release c s4))"

section \<open>console.c: input\<close>

record intr_flags =
  doprocdump :: bool
  sleepList :: bool
  freeList :: bool
  readyList :: bool
  zombieList :: bool

definition kill_line :: "'a con_st_scheme \<Rightarrow> 'a con_st_scheme res" where
  "kill_line s =
     while_res (\<lambda>s. in_e s \<noteq> in_w s \<and> in_buf s (unat ((in_e s - 1) mod of_nat INPUT_BUF)) \<noteq> 10)
       (\<lambda>s. consputc BACKSPACE (s\<lparr>in_e := in_e s - 1\<rparr>)) s"

definition store_char :: "nat \<Rightarrow> int \<Rightarrow> 'a con_st_scheme \<Rightarrow> 'a con_st_scheme res" where
  "store_char c ch s =
     (if ch \<noteq> 0 \<and> in_e s - in_r s < of_nat INPUT_BUF then
        let ch = (if ch = 13 then 10 else ch);
            s1 = s\<lparr>in_buf := (in_buf s)(unat (in_e s mod of_nat INPUT_BUF) := word_of_int ch), in_e := in_e s + 1\<rparr>
        in rbind (consputc ch s1) (\<lambda>s2.
           if ch = 10 \<or> ch = Ctl (CHR ''D'') \<or> in_e s2 = in_r s2 + of_nat INPUT_BUF
           then wakeup c Ch_input (s2\<lparr>in_w := in_e s2\<rparr>)
           else Ok s2)
      else Ok s)"

definition intr_char :: "nat \<Rightarrow> int \<Rightarrow> intr_flags \<times> 'a con_st_scheme \<Rightarrow> (intr_flags \<times> 'a con_st_scheme) res" where
  "intr_char c ch = (\<lambda>(fl, s).
     if ch = Ctl (CHR ''P'') then Ok (fl\<lparr>doprocdump := True\<rparr>, s)
     else if ch = Ctl (CHR ''S'') then Ok (fl\<lparr>sleepList := True\<rparr>, s)
     else if ch = Ctl (CHR ''F'') then Ok (fl\<lparr>freeList := True\<rparr>, s)
     else if ch = Ctl (CHR ''R'') then rbind (kill_line s) (\<lambda>s1. Ok (fl\<lparr>readyList := True, zombieList := True\<rparr>, s1))
     else if ch = Ctl (CHR ''Z'') then rbind (kill_line s) (\<lambda>s1. Ok (fl\<lparr>zombieList := True\<rparr>, s1))
     else if ch = Ctl (CHR ''U'') then rbind (kill_line s) (\<lambda>s1. Ok (fl, s1))
     else if ch = Ctl (CHR ''H'') \<or> ch = 127 then
       (if in_e s \<noteq> in_w s then rbind (consputc BACKSPACE (s\<lparr>in_e := in_e s - 1\<rparr>)) (\<lambda>s1. Ok (fl, s1)) else Ok (fl, s))
     else rbind (store_char c ch s) (\<lambda>s1. Ok (fl, s1)))"

definition consoleintr ::
  "nat \<Rightarrow> ('a con_st_scheme \<Rightarrow> int \<times> 'a con_st_scheme) \<Rightarrow> 'a con_st_scheme \<Rightarrow> 'a con_st_scheme res" where
  "consoleintr c getc s =
     rbind (cons_acquire c s) (\<lambda>s1.
     rbind (loop_res (\<lambda>(fl, s).
              case getc s of (ch, s') \<Rightarrow>
                if ch < 0 then Ok (Inl (fl, s')) else rbind (intr_char c ch (fl, s')) (\<lambda>x. Ok (Inr x)))
            (\<lparr>doprocdump = False, sleepList = False, freeList = False, readyList = False, zombieList = False\<rparr>, s1)) (\<lambda>(fl, s2).
     rbind (cons_release c s2) (\<lambda>s3.
       if doprocdump fl then procdump c s3
       else if sleepList fl then getSleepList c s3
       else if freeList fl then getFreeList c s3
       else if readyList fl then getReadyList c s3
       else if zombieList fl then getZombieList c s3
       else Ok s3)))"

definition uartintr :: "nat \<Rightarrow> 'a con_st_scheme \<Rightarrow> 'a con_st_scheme res" where
  "uartintr c s = consoleintr c uartgetc s"

section \<open>The console device\<close>

text \<open>The loop of \<open>consoleread\<close>: the count left and the bytes stored so far; the result says
  whether the reader was killed.\<close>

definition consoleread_body ::
  "nat \<Rightarrow> int \<Rightarrow> int \<times> byte list \<times> 'a con_st_scheme \<Rightarrow>
   ((bool \<times> int \<times> byte list \<times> 'a con_st_scheme) + (int \<times> byte list \<times> 'a con_st_scheme)) res" where
  "consoleread_body c target = (\<lambda>(n, out, s).
     if \<not> n > 0 then Ok (Inl (False, n, out, s))
     else if in_r s = in_w s then
       rbind (myproc c s) (\<lambda>(po, s1). deref po (\<lambda>p.
       if killed (proc s1 p) then Ok (Inl (True, n, out, s1)) else Hang))
     else let ch = in_buf s (unat (in_r s mod of_nat INPUT_BUF)); s1 = s\<lparr>in_r := in_r s + 1\<rparr>
          in if sint ch = Ctl (CHR ''D'')
             then Ok (Inl (False, n, out, if n < target then s1\<lparr>in_r := in_r s1 - 1\<rparr> else s1))
             else if ch = 10 then Ok (Inl (False, n - 1, out @ [ch], s1))
             else Ok (Inr (n - 1, out @ [ch], s1)))"

definition consoleread ::
  "nat \<Rightarrow> ptr \<Rightarrow> int \<Rightarrow> 'a con_st_scheme \<Rightarrow> (int \<times> byte list \<times> 'a con_st_scheme) res" where
  "consoleread c ip n s =
     rbind (iunlock c ip s) (\<lambda>s1.
     rbind (cons_acquire c s1) (\<lambda>s2.
     rbind (loop_res (consoleread_body c n) (n, [], s2)) (\<lambda>(dead, n', out, s3).
     rbind (cons_release c s3) (\<lambda>s4.
     rbind (ilock c ip s4) (\<lambda>s5.
     Ok (if dead then -1 else n - n', out, s5))))))"

definition consolewrite ::
  "nat \<Rightarrow> ptr \<Rightarrow> (nat \<Rightarrow> byte res) \<Rightarrow> int \<Rightarrow> 'a con_st_scheme \<Rightarrow> (int \<times> 'a con_st_scheme) res" where
  "consolewrite c ip src n s =
     rbind (iunlock c ip s) (\<lambda>s1.
     rbind (cons_acquire c s1) (\<lambda>s2.
     rbind (for_each (\<lambda>i s. rbind (src i) (\<lambda>b. rbind (consputc (Word.uint b) s) (\<lambda>s'. Ok (None :: unit option, s'))))
              [0..<nat n] s2) (\<lambda>(_, s3).
     rbind (cons_release c s3) (\<lambda>s4.
     rbind (ilock c ip s4) (\<lambda>s5. Ok (n, s5))))))"

definition consoleinit :: "'a con_st_scheme \<Rightarrow> 'a con_st_scheme" where
  "consoleinit s =
     ioapicenable IRQ_KBD 0
       (s\<lparr>cons_lock := initlock ''console'', devsw_write := (devsw_write s)(CONSOLE := Some Fn_consolewrite),
          devsw_read := (devsw_read s)(CONSOLE := Some Fn_consoleread), cons_locking := True\<rparr>)"

end
