(* ===== verification/Dir.thy ===== *)
theory Dir
  imports Console
begin

unbundle bit_operations_syntax

text \<open>
  The rest of \<open>fs.c\<close>: reading and writing the content of an inode, directories and path
  names.  \<open>readi\<close> returns, with the result, the bytes it stores at its destination; the
  source of \<open>writei\<close> is a function from the offset to the byte, which may fault.  A path
  is the list of its bytes before the NUL; the array \<open>name\<close> that receives a path element
  is a list of \<open>DIRSIZ\<close> bytes.
\<close>

section \<open>iinit\<close>

definition iinit :: "nat \<Rightarrow> uint \<Rightarrow> 'a con_st_scheme \<Rightarrow> 'a con_st_scheme res" where
  "iinit c dv s =
     (let s1 = s\<lparr>icache_lock := initlock ''icache''\<rparr>;
          s2 = fold (\<lambda>i s. put_ilock i (initsleeplock ''inode'') s) [0..<NINODE] s1
      in rbind (readsb c dv s2) (\<lambda>(sb, s3).
         cprintf c (lit ''sb: size %d nblocks %d ninodes %d nlog %d logstart %d inodestart %d bmap start %d'' @ [10])
           [CInt (sb_size sb), CInt (sb_nblocks sb), CInt (sb_ninodes sb), CInt (sb_nlog sb), CInt (sb_logstart sb),
            CInt (sb_inodestart sb), CInt (sb_bmapstart sb)] (s3\<lparr>fsb := sb\<rparr>)))"

section \<open>readi and writei\<close>

definition readi_body ::
  "nat \<Rightarrow> nat \<Rightarrow> uint \<Rightarrow> uint \<times> uint \<times> byte list \<times> 'a fs_st_scheme \<Rightarrow>
   ((byte list \<times> 'a fs_st_scheme) + (uint \<times> uint \<times> byte list \<times> 'a fs_st_scheme)) res" where
  "readi_body c ip n = (\<lambda>(tot, off, out, s).
     if \<not> tot < n then Ok (Inl (out, s))
     else rbind (bmap c ip (off div of_nat BSIZE) s) (\<lambda>(a, s1).
          rbind (bread c (i_dev (inode s1 ip)) a s1) (\<lambda>(bp, s2).
          let m = min (n - tot) (of_nat BSIZE - off mod of_nat BSIZE);
              chunk = take (unat m) (drop (unat (off mod of_nat BSIZE)) (b_data (buf s2 bp)))
          in rbind (brelse c bp s2) (\<lambda>s3. Ok (Inr (tot + m, off + m, out @ chunk, s3))))))"

definition readi ::
  "nat \<Rightarrow> nat \<Rightarrow> uint \<Rightarrow> uint \<Rightarrow> 'a con_st_scheme \<Rightarrow> (int \<times> byte list \<times> 'a con_st_scheme) res" where
  "readi c ip off n s =
     (let x = inode s ip
      in if i_type x = T_DEV then
           (if sint (i_major x) < 0 \<or> sint (i_major x) \<ge> int NDEV then Ok (-1, [], s)
            else case devsw_read s (nat (sint (i_major x))) of
                   None \<Rightarrow> Ok (-1, [], s)
                 | Some Fn_consoleread \<Rightarrow> consoleread c (Some ip) (int_of n) s)
         else if off > i_size x \<or> off + n < off then Ok (-1, [], s)
         else let n = (if off + n > i_size x then i_size x - off else n)
              in rbind (loop_res (readi_body c ip n) (0, off, [], s)) (\<lambda>(out, s1). Ok (int_of n, out, s1)))"

text \<open>\<open>m\<close> bytes of the source from offset \<open>k\<close>.\<close>

primrec gather :: "(nat \<Rightarrow> byte res) \<Rightarrow> nat \<Rightarrow> nat \<Rightarrow> byte list res" where
  "gather src k 0 = Ok []"
| "gather src k (Suc m) = rbind (src k) (\<lambda>b. rbind (gather src (Suc k) m) (\<lambda>bs. Ok (b # bs)))"

text \<open>The block with the bytes \<open>bs\<close> stored at offset \<open>o1\<close>.\<close>

definition overlay :: "byte list \<Rightarrow> nat \<Rightarrow> byte list \<Rightarrow> byte list" where
  "overlay d o1 bs = take o1 d @ bs @ drop (o1 + length bs) d"

definition writei_body ::
  "nat \<Rightarrow> nat \<Rightarrow> (nat \<Rightarrow> byte res) \<Rightarrow> uint \<Rightarrow> uint \<times> uint \<times> 'a fs_st_scheme \<Rightarrow>
   ((uint \<times> 'a fs_st_scheme) + (uint \<times> uint \<times> 'a fs_st_scheme)) res" where
  "writei_body c ip src n = (\<lambda>(tot, off, s).
     if \<not> tot < n then Ok (Inl (off, s))
     else rbind (bmap c ip (off div of_nat BSIZE) s) (\<lambda>(a, s1).
          rbind (bread c (i_dev (inode s1 ip)) a s1) (\<lambda>(bp, s2).
          let m = min (n - tot) (of_nat BSIZE - off mod of_nat BSIZE)
          in rbind (gather src (unat tot) (unat m)) (\<lambda>bs.
             rbind (log_write c bp (set_data bp (overlay (b_data (buf s2 bp)) (unat (off mod of_nat BSIZE)) bs) s2)) (\<lambda>s3.
             rbind (brelse c bp s3) (\<lambda>s4. Ok (Inr (tot + m, off + m, s4))))))))"

definition writei ::
  "nat \<Rightarrow> nat \<Rightarrow> (nat \<Rightarrow> byte res) \<Rightarrow> uint \<Rightarrow> uint \<Rightarrow> 'a con_st_scheme \<Rightarrow> (int \<times> 'a con_st_scheme) res" where
  "writei c ip src off n s =
     (let x = inode s ip
      in if i_type x = T_DEV then
           (if sint (i_major x) < 0 \<or> sint (i_major x) \<ge> int NDEV then Ok (-1, s)
            else case devsw_write s (nat (sint (i_major x))) of
                   None \<Rightarrow> Ok (-1, s)
                 | Some Fn_consolewrite \<Rightarrow> consolewrite c (Some ip) src (int_of n) s)
         else if off > i_size x \<or> off + n < off then Ok (-1, s)
         else if off + n > of_nat (MAXFILE * BSIZE) then Ok (-1, s)
         else rbind (loop_res (writei_body c ip src n) (0, off, s)) (\<lambda>(off', s1).
              if n > 0 \<and> off' > i_size (inode s1 ip)
              then rbind (iupdate c ip (iupd ip (\<lambda>x. x\<lparr>i_size := off'\<rparr>) s1)) (\<lambda>s2. Ok (int_of n, s2))
              else Ok (int_of n, s1)))"

section \<open>Directories\<close>

definition sizeof_dirent :: nat where "sizeof_dirent = 16"

text \<open>\<open>strncmp\<close> of two arrays, which lie one after the other in the memory it is given.\<close>

definition arr :: "byte list \<Rightarrow> byte list" where
  "arr s = take DIRSIZ (s @ replicate DIRSIZ 0)"

definition namecmp :: "byte list \<Rightarrow> byte list \<Rightarrow> int" where
  "namecmp s t = strncmp (as_mem (arr s @ arr t)) 0 (of_nat DIRSIZ) DIRSIZ"

definition de_inum :: "byte list \<Rightarrow> ushort" where
  "de_inum de = lds de 0"

definition de_name :: "byte list \<Rightarrow> byte list" where
  "de_name de = take DIRSIZ (drop 2 de)"

definition mk_dirent :: "byte list \<Rightarrow> uint \<Rightarrow> byte list" where
  "mk_dirent name inum = sts (replicate 2 0 @ strncpy_arr (arr name) DIRSIZ) 0 (ucast inum)"

text \<open>The values of \<open>off\<close> in \<open>for(off = 0; off < dp->size; off += sizeof(de))\<close>.\<close>

definition dir_offs :: "uint \<Rightarrow> nat list" where
  "dir_offs n = map (\<lambda>k. sizeof_dirent * k) [0..<(unat n + sizeof_dirent - 1) div sizeof_dirent]"

definition read_dirent ::
  "nat \<Rightarrow> nat \<Rightarrow> nat \<Rightarrow> string \<Rightarrow> 'a con_st_scheme \<Rightarrow> (byte list \<times> 'a con_st_scheme) res" where
  "read_dirent c dp off msg s =
     rbind (readi c dp (of_nat off) (of_nat sizeof_dirent) s) (\<lambda>(r, de, s1).
     if r \<noteq> int sizeof_dirent then Panic msg else Ok (de, s1))"

definition dirlookup_body ::
  "nat \<Rightarrow> nat \<Rightarrow> byte list \<Rightarrow> nat \<Rightarrow> 'a con_st_scheme \<Rightarrow> ((nat \<times> uint) option \<times> 'a con_st_scheme) res" where
  "dirlookup_body c dp name off s =
     rbind (read_dirent c dp off ''dirlookup read'' s) (\<lambda>(de, s1).
       if de_inum de = 0 then Ok (None, s1)
       else if namecmp name (de_name de) = 0 then
         rbind (iget c (i_dev (inode s1 dp)) (ucast (de_inum de)) s1) (\<lambda>(ip, s2). Ok (Some (ip, of_nat off), s2))
       else Ok (None, s1))"

text \<open>The result is the inode and the offset of the entry (\<open>*poff\<close>).\<close>

definition dirlookup ::
  "nat \<Rightarrow> nat \<Rightarrow> byte list \<Rightarrow> 'a con_st_scheme \<Rightarrow> ((nat \<times> uint) option \<times> 'a con_st_scheme) res" where
  "dirlookup c dp name s =
     (if i_type (inode s dp) \<noteq> T_DIR then Panic ''dirlookup not DIR''
      else for_each (dirlookup_body c dp name) (dir_offs (i_size (inode s dp))) s)"

definition dirlink :: "nat \<Rightarrow> nat \<Rightarrow> byte list \<Rightarrow> uint \<Rightarrow> 'a con_st_scheme \<Rightarrow> (int \<times> 'a con_st_scheme) res" where
  "dirlink c dp name inum s =
     rbind (dirlookup c dp name s) (\<lambda>(r, s1).
       case r of
         Some (ip, _) \<Rightarrow> rbind (iput c (Some ip) s1) (\<lambda>s2. Ok (-1, s2))
       | None \<Rightarrow>
           rbind (for_each (\<lambda>off s. rbind (read_dirent c dp off ''dirlink read'' s) (\<lambda>(de, s').
                              Ok (if de_inum de = 0 then Some off else None, s')))
                    (dir_offs (i_size (inode s1 dp))) s1) (\<lambda>(o2, s2).
           let off = (case o2 of Some off \<Rightarrow> off
                      | None \<Rightarrow> sizeof_dirent * ((unat (i_size (inode s1 dp)) + sizeof_dirent - 1) div sizeof_dirent));
               de = mk_dirent name inum
           in rbind (writei c dp (\<lambda>k. Ok (de ! k)) (of_nat off) (of_nat sizeof_dirent) s2) (\<lambda>(w, s3).
              if w \<noteq> int sizeof_dirent then Panic ''dirlink'' else Ok (0, s3))))"

section \<open>Paths\<close>

definition slash :: byte where "slash = 47"

text \<open>The result is the rest of the path and the new contents of \<open>name\<close>; \<open>None\<close> is NULL.\<close>

definition skipelem :: "byte list \<Rightarrow> byte list \<Rightarrow> (byte list \<times> byte list) option" where
  "skipelem path name =
     (let p1 = dropWhile (\<lambda>b. b = slash) path
      in if p1 = [] then None
         else let e = takeWhile (\<lambda>b. b \<noteq> slash) p1; len = length e;
                  p2 = dropWhile (\<lambda>b. b \<noteq> slash) p1;
                  name' = (if len \<ge> DIRSIZ then take DIRSIZ e @ drop DIRSIZ name else e @ [0] @ drop (len + 1) name)
              in Some (dropWhile (\<lambda>b. b = slash) p2, name'))"

definition namex_body ::
  "nat \<Rightarrow> bool \<Rightarrow> nat \<times> byte list \<times> byte list \<times> 'a con_st_scheme \<Rightarrow>
   ((ptr \<times> byte list \<times> 'a con_st_scheme) + (nat \<times> byte list \<times> byte list \<times> 'a con_st_scheme)) res" where
  "namex_body c par = (\<lambda>(ip, path, name, s).
     case skipelem path name of
       None \<Rightarrow>
         if par then rbind (iput c (Some ip) s) (\<lambda>s1. Ok (Inl (None, name, s1)))
         else Ok (Inl (Some ip, name, s))
     | Some (path', name') \<Rightarrow>
         rbind (ilock c (Some ip) s) (\<lambda>s1.
         if i_type (inode s1 ip) \<noteq> T_DIR then rbind (iunlockput c (Some ip) s1) (\<lambda>s2. Ok (Inl (None, name', s2)))
         else if par \<and> path' = [] then rbind (iunlock c (Some ip) s1) (\<lambda>s2. Ok (Inl (Some ip, name', s2)))
         else rbind (dirlookup c ip name' s1) (\<lambda>(r, s2).
              rbind (iunlockput c (Some ip) s2) (\<lambda>s3.
              case r of None \<Rightarrow> Ok (Inl (None, name', s3)) | Some (nx, _) \<Rightarrow> Ok (Inr (nx, path', name', s3))))))"

definition namex ::
  "nat \<Rightarrow> byte list \<Rightarrow> bool \<Rightarrow> byte list \<Rightarrow> 'a con_st_scheme \<Rightarrow> (ptr \<times> byte list \<times> 'a con_st_scheme) res" where
  "namex c path par name s =
     rbind (if path \<noteq> [] \<and> hd path = slash then iget c ROOTDEV ROOTINO s
            else rbind (myproc c s) (\<lambda>(po, s1). deref po (\<lambda>p. idup c (cwd (proc s1 p)) s1))) (\<lambda>(ip, s2).
     loop_res (namex_body c par) (ip, path, name, s2))"

text \<open>
  The array \<open>name\<close> of the callers is uninitialised in C.  It is given as zeros here: only
  the bytes up to the NUL of the element last copied are ever read.
\<close>

definition namei :: "nat \<Rightarrow> byte list \<Rightarrow> 'a con_st_scheme \<Rightarrow> (ptr \<times> 'a con_st_scheme) res" where
  "namei c path s = rbind (namex c path False (replicate DIRSIZ 0) s) (\<lambda>(ip, _, s1). Ok (ip, s1))"

definition nameiparent ::
  "nat \<Rightarrow> byte list \<Rightarrow> 'a con_st_scheme \<Rightarrow> (ptr \<times> byte list \<times> 'a con_st_scheme) res" where
  "nameiparent c path s = namex c path True (replicate DIRSIZ 0) s"

end
