(* ===== verification/File.thy ===== *)
theory File
  imports Dir
begin

unbundle bit_operations_syntax

text \<open>
  Open files (\<open>file.c\<close>) and pipes (\<open>pipe.c\<close>).  The entries of \<open>ftable\<close> are numbered
  \<open>0..NFILE-1\<close>.  A \<open>struct pipe\<close> lives in a page from \<open>kalloc\<close>; its fields are kept in a map
  from the address of the page.  A process that has to wait for the other end of a pipe
  does not return (\<open>Hang\<close>).  Bytes stored at a destination are part of the result; a
  source is a function from the offset to the byte.
\<close>

datatype fdtype = FD_NONE | FD_PIPE | FD_INODE

record file_t =
  f_type :: fdtype
  f_ref :: uint
  f_readable :: bool
  f_writable :: bool
  f_pipe :: uint
  f_ip :: ptr
  f_off :: uint

definition PIPESIZE :: nat where "PIPESIZE = 512"

record pipe =
  p_lock :: spinlock
  p_data :: "nat \<Rightarrow> byte"
  nread :: uint
  nwrite :: uint
  readopen :: bool
  writeopen :: bool

record file_st = con_st +
  ftable_lock :: spinlock
  ftab :: "nat \<Rightarrow> file_t"
  pipe :: "uint \<Rightarrow> pipe"

definition fupd :: "nat \<Rightarrow> (file_t \<Rightarrow> file_t) \<Rightarrow> 'a file_st_scheme \<Rightarrow> 'a file_st_scheme" where
  "fupd f g s = s\<lparr>ftab := (ftab s)(f := g (ftab s f))\<rparr>"

definition pipeupd :: "uint \<Rightarrow> (pipe \<Rightarrow> pipe) \<Rightarrow> 'a file_st_scheme \<Rightarrow> 'a file_st_scheme" where
  "pipeupd p g s = s\<lparr>pipe := (pipe s)(p := g (pipe s p))\<rparr>"

definition ftable_acquire :: "nat \<Rightarrow> 'a file_st_scheme \<Rightarrow> 'a file_st_scheme res" where
  "ftable_acquire c s = rbind (acquire c (cpus s) (ftable_lock s)) (\<lambda>(cs, l). Ok (s\<lparr>cpus := cs, ftable_lock := l\<rparr>))"

definition ftable_release :: "nat \<Rightarrow> 'a file_st_scheme \<Rightarrow> 'a file_st_scheme res" where
  "ftable_release c s = rbind (release c (cpus s) (ftable_lock s)) (\<lambda>(cs, l). Ok (s\<lparr>cpus := cs, ftable_lock := l\<rparr>))"

definition pipe_acquire :: "nat \<Rightarrow> uint \<Rightarrow> 'a file_st_scheme \<Rightarrow> 'a file_st_scheme res" where
  "pipe_acquire c p s =
     rbind (acquire c (cpus s) (p_lock (pipe s p))) (\<lambda>(cs, l). Ok (pipeupd p (\<lambda>x. x\<lparr>p_lock := l\<rparr>) (s\<lparr>cpus := cs\<rparr>)))"

definition pipe_release :: "nat \<Rightarrow> uint \<Rightarrow> 'a file_st_scheme \<Rightarrow> 'a file_st_scheme res" where
  "pipe_release c p s =
     rbind (release c (cpus s) (p_lock (pipe s p))) (\<lambda>(cs, l). Ok (pipeupd p (\<lambda>x. x\<lparr>p_lock := l\<rparr>) (s\<lparr>cpus := cs\<rparr>)))"

section \<open>The file table\<close>

definition fileinit :: "'a file_st_scheme \<Rightarrow> 'a file_st_scheme" where
  "fileinit s = s\<lparr>ftable_lock := initlock ''ftable''\<rparr>"

definition filealloc :: "nat \<Rightarrow> 'a file_st_scheme \<Rightarrow> (ptr \<times> 'a file_st_scheme) res" where
  "filealloc c s =
     rbind (ftable_acquire c s) (\<lambda>s1.
     rbind (for_each (\<lambda>f s. if f_ref (ftab s f) = 0 then Ok (Some f, fupd f (\<lambda>x. x\<lparr>f_ref := 1\<rparr>) s) else Ok (None, s))
              [0..<NFILE] s1) (\<lambda>(r, s2).
     rbind (ftable_release c s2) (\<lambda>s3. Ok (r, s3))))"

definition filedup :: "nat \<Rightarrow> nat \<Rightarrow> 'a file_st_scheme \<Rightarrow> 'a file_st_scheme res" where
  "filedup c f s =
     rbind (ftable_acquire c s) (\<lambda>s1.
     if int_of (f_ref (ftab s1 f)) < 1 then Panic ''filedup''
     else ftable_release c (fupd f (\<lambda>x. x\<lparr>f_ref := f_ref x + 1\<rparr>) s1))"

definition pipeclose :: "nat \<Rightarrow> uint \<Rightarrow> bool \<Rightarrow> 'a file_st_scheme \<Rightarrow> 'a file_st_scheme res" where
  "pipeclose c p writable s =
     rbind (pipe_acquire c p s) (\<lambda>s1.
     rbind (if writable then wakeup c (Ch_nread p) (pipeupd p (\<lambda>x. x\<lparr>writeopen := False\<rparr>) s1)
            else wakeup c (Ch_nwrite p) (pipeupd p (\<lambda>x. x\<lparr>readopen := False\<rparr>) s1)) (\<lambda>s2.
     if \<not> readopen (pipe s2 p) \<and> \<not> writeopen (pipe s2 p)
     then rbind (pipe_release c p s2) (kfree c p)
     else pipe_release c p s2))"

definition fileclose :: "nat \<Rightarrow> nat \<Rightarrow> 'a file_st_scheme \<Rightarrow> 'a file_st_scheme res" where
  "fileclose c f s =
     rbind (ftable_acquire c s) (\<lambda>s1.
     if int_of (f_ref (ftab s1 f)) < 1 then Panic ''fileclose''
     else let s2 = fupd f (\<lambda>x. x\<lparr>f_ref := f_ref x - 1\<rparr>) s1
          in if int_of (f_ref (ftab s2 f)) > 0 then ftable_release c s2
             else let ff = ftab s2 f
                  in rbind (ftable_release c (fupd f (\<lambda>x. x\<lparr>f_ref := 0, f_type := FD_NONE\<rparr>) s2)) (\<lambda>s3.
                     if f_type ff = FD_PIPE then pipeclose c (f_pipe ff) (f_writable ff) s3
                     else if f_type ff = FD_INODE then
                       rbind (begin_op c s3) (\<lambda>s4. rbind (iput c (f_ip ff) s4) (end_op c))
                     else Ok s3))"

definition filestat :: "nat \<Rightarrow> nat \<Rightarrow> 'a file_st_scheme \<Rightarrow> (int \<times> stat option \<times> 'a file_st_scheme) res" where
  "filestat c f s =
     (if f_type (ftab s f) = FD_INODE then
        rbind (ilock c (f_ip (ftab s f)) s) (\<lambda>s1.
        deref (f_ip (ftab s1 f)) (\<lambda>ip.
        rbind (iunlock c (Some ip) s1) (\<lambda>s2. Ok (0, Some (stati (inode s1 ip)), s2))))
      else Ok (-1, None, s))"

section \<open>pipe.c\<close>

text \<open>
  The jump to \<open>bad\<close>, always with \<open>p\<close> null, so that there is no page to free: both files that were
  allocated are closed.
\<close>

definition pipe_bad :: "nat \<Rightarrow> ptr \<Rightarrow> ptr \<Rightarrow> 'a file_st_scheme \<Rightarrow> (int \<times> ptr \<times> ptr \<times> 'a file_st_scheme) res" where
  "pipe_bad c f0 f1 s =
     rbind (case f0 of None \<Rightarrow> Ok s | Some f \<Rightarrow> fileclose c f s) (\<lambda>s1.
     rbind (case f1 of None \<Rightarrow> Ok s1 | Some f \<Rightarrow> fileclose c f s1) (\<lambda>s2.
     Ok (-1, f0, f1, s2)))"

definition pipealloc :: "nat \<Rightarrow> 'a file_st_scheme \<Rightarrow> (int \<times> ptr \<times> ptr \<times> 'a file_st_scheme) res" where
  "pipealloc c s =
     rbind (filealloc c s) (\<lambda>(f0, s1).
       case f0 of
         None \<Rightarrow> pipe_bad c None None s1
       | Some r \<Rightarrow>
           rbind (filealloc c s1) (\<lambda>(f1, s2).
             case f1 of
               None \<Rightarrow> pipe_bad c f0 None s2
             | Some w \<Rightarrow>
                 rbind (kalloc c s2) (\<lambda>(p, s3).
                 if p = 0 then pipe_bad c f0 f1 s3
                 else let s4 = pipeupd p (\<lambda>x. x\<lparr>readopen := True, writeopen := True, nwrite := 0, nread := 0,
                                               p_lock := initlock ''pipe''\<rparr>) s3;
                          s5 = fupd r (\<lambda>x. x\<lparr>f_type := FD_PIPE, f_readable := True, f_writable := False, f_pipe := p\<rparr>) s4;
                          s6 = fupd w (\<lambda>x. x\<lparr>f_type := FD_PIPE, f_readable := False, f_writable := True, f_pipe := p\<rparr>) s5
                      in Ok (0, f0, f1, s6))))"

text \<open>One byte of \<open>pipewrite\<close>; an early return is the \<open>-1\<close> of a broken pipe.\<close>

definition pipewrite_body ::
  "nat \<Rightarrow> uint \<Rightarrow> (nat \<Rightarrow> byte res) \<Rightarrow> nat \<Rightarrow> 'a file_st_scheme \<Rightarrow> (unit option \<times> 'a file_st_scheme) res" where
  "pipewrite_body c p src i s =
     (if nwrite (pipe s p) = nread (pipe s p) + of_nat PIPESIZE then
        rbind (if \<not> readopen (pipe s p) then Ok (True, s)
               else rbind (myproc c s) (\<lambda>(po, s1). deref po (\<lambda>q. Ok (killed (proc s1 q), s1)))) (\<lambda>(broken, s2).
        if broken then Ok (Some (), s2) else Hang)
      else rbind (src i) (\<lambda>b.
           Ok (None, pipeupd p (\<lambda>x. x\<lparr>p_data := (p_data x)(unat (nwrite x mod of_nat PIPESIZE) := b),
                                     nwrite := nwrite x + 1\<rparr>) s)))"

definition pipewrite ::
  "nat \<Rightarrow> uint \<Rightarrow> (nat \<Rightarrow> byte res) \<Rightarrow> int \<Rightarrow> 'a file_st_scheme \<Rightarrow> (int \<times> 'a file_st_scheme) res" where
  "pipewrite c p src n s =
     rbind (pipe_acquire c p s) (\<lambda>s1.
     rbind (for_each (pipewrite_body c p src) [0..<nat n] s1) (\<lambda>(r, s2).
       if r \<noteq> None then rbind (pipe_release c p s2) (\<lambda>s3. Ok (-1, s3))
       else rbind (wakeup c (Ch_nread p) s2) (\<lambda>s3.
            rbind (pipe_release c p s3) (\<lambda>s4. Ok (n, s4)))))"

definition piperead_body ::
  "uint \<Rightarrow> nat \<Rightarrow> byte list \<times> 'a file_st_scheme \<Rightarrow> (unit option \<times> byte list \<times> 'a file_st_scheme) res" where
  "piperead_body p i = (\<lambda>(out, s).
     if nread (pipe s p) = nwrite (pipe s p) then Ok (Some (), out, s)
     else Ok (None, out @ [p_data (pipe s p) (unat (nread (pipe s p) mod of_nat PIPESIZE))],
              pipeupd p (\<lambda>x. x\<lparr>nread := nread x + 1\<rparr>) s))"

definition piperead ::
  "nat \<Rightarrow> uint \<Rightarrow> int \<Rightarrow> 'a file_st_scheme \<Rightarrow> (int \<times> byte list \<times> 'a file_st_scheme) res" where
  "piperead c p n s =
     rbind (pipe_acquire c p s) (\<lambda>s1.
     if nread (pipe s1 p) = nwrite (pipe s1 p) \<and> writeopen (pipe s1 p) then
       rbind (myproc c s1) (\<lambda>(po, s2). deref po (\<lambda>q.
       if killed (proc s2 q) then rbind (pipe_release c p s2) (\<lambda>s3. Ok (-1, [], s3)) else Hang))
     else rbind (for_each (piperead_body p) [0..<nat n] ([], s1)) (\<lambda>(_, out, s2).
          rbind (wakeup c (Ch_nwrite p) s2) (\<lambda>s3.
          rbind (pipe_release c p s3) (\<lambda>s4. Ok (int (length out), out, s4)))))"

section \<open>Reading and writing files\<close>

definition fileread ::
  "nat \<Rightarrow> nat \<Rightarrow> int \<Rightarrow> 'a file_st_scheme \<Rightarrow> (int \<times> byte list \<times> 'a file_st_scheme) res" where
  "fileread c f n s =
     (if \<not> f_readable (ftab s f) then Ok (-1, [], s)
      else if f_type (ftab s f) = FD_PIPE then piperead c (f_pipe (ftab s f)) n s
      else if f_type (ftab s f) = FD_INODE then
        rbind (ilock c (f_ip (ftab s f)) s) (\<lambda>s1.
        deref (f_ip (ftab s1 f)) (\<lambda>ip.
        rbind (readi c ip (f_off (ftab s1 f)) (word_of_int n) s1) (\<lambda>(r, out, s2).
        let s3 = (if r > 0 then fupd f (\<lambda>x. x\<lparr>f_off := f_off x + word_of_int r\<rparr>) s2 else s2)
        in rbind (iunlock c (f_ip (ftab s3 f)) s3) (\<lambda>s4. Ok (r, out, s4)))))
      else Panic ''fileread'')"

definition write_max :: int where
  "write_max = ((int MAXOPBLOCKS - 1 - 1 - 2) div 2) * 512"

text \<open>The loop of \<open>filewrite\<close>: the state is \<open>i\<close>; leaving it gives the final \<open>i\<close>.\<close>

definition filewrite_body ::
  "nat \<Rightarrow> nat \<Rightarrow> (nat \<Rightarrow> byte res) \<Rightarrow> int \<Rightarrow> int \<times> 'a file_st_scheme \<Rightarrow>
   ((int \<times> 'a file_st_scheme) + (int \<times> 'a file_st_scheme)) res" where
  "filewrite_body c f src n = (\<lambda>(i, s).
     if \<not> i < n then Ok (Inl (i, s))
     else let n1 = min (n - i) write_max
          in rbind (begin_op c s) (\<lambda>s1.
             rbind (ilock c (f_ip (ftab s1 f)) s1) (\<lambda>s2.
             deref (f_ip (ftab s2 f)) (\<lambda>ip.
             rbind (writei c ip (\<lambda>k. src (nat i + k)) (f_off (ftab s2 f)) (word_of_int n1) s2) (\<lambda>(r, s3).
             let s4 = (if r > 0 then fupd f (\<lambda>x. x\<lparr>f_off := f_off x + word_of_int r\<rparr>) s3 else s3)
             in rbind (iunlock c (f_ip (ftab s4 f)) s4) (\<lambda>s5.
                rbind (end_op c s5) (\<lambda>s6.
                if r < 0 then Ok (Inl (i, s6))
                else if r \<noteq> n1 then Panic ''short filewrite''
                else Ok (Inr (i + r, s6)))))))))"

definition filewrite ::
  "nat \<Rightarrow> nat \<Rightarrow> (nat \<Rightarrow> byte res) \<Rightarrow> int \<Rightarrow> 'a file_st_scheme \<Rightarrow> (int \<times> 'a file_st_scheme) res" where
  "filewrite c f src n s =
     (if \<not> f_writable (ftab s f) then Ok (-1, s)
      else if f_type (ftab s f) = FD_PIPE then pipewrite c (f_pipe (ftab s f)) src n s
      else if f_type (ftab s f) = FD_INODE then
        rbind (loop_res (filewrite_body c f src n) (0, s)) (\<lambda>(i, s1). Ok (if i = n then n else -1, s1))
      else Panic ''filewrite'')"

end
