(* ===== verification/Proc_Life.thy ===== *)
theory Proc_Life
  imports File
begin

unbundle bit_operations_syntax

text \<open>
  The life of a process (\<open>proc.c\<close>): \<open>userinit\<close>, \<open>fork\<close>, \<open>exit\<close>, \<open>wait\<close>, \<open>forkret\<close>.  A trap frame
  lies on the kernel stack; its fields are read and written at their offsets in memory.
  \<open>exit\<close> and a \<open>wait\<close> that has to sleep end in \<open>sched\<close>; the model returns the state in which
  the CPU is handed to the scheduler, with the interrupt flag \<open>sched\<close> saved.
\<close>

section \<open>x86.h: struct trapframe\<close>

definition tf_eax :: uint where "tf_eax = 28"
definition tf_es :: uint where "tf_es = 40"
definition tf_ds :: uint where "tf_ds = 44"
definition tf_trapno :: uint where "tf_trapno = 48"
definition tf_err :: uint where "tf_err = 52"
definition tf_eip :: uint where "tf_eip = 56"
definition tf_cs :: uint where "tf_cs = 60"
definition tf_eflags :: uint where "tf_eflags = 64"
definition tf_esp :: uint where "tf_esp = 68"
definition tf_ss :: uint where "tf_ss = 72"

definition DEFAULT_UID :: uint where "DEFAULT_UID = 67"
definition DEFAULT_GID :: uint where "DEFAULT_GID = 76"

definition st16 :: "mem \<Rightarrow> uint \<Rightarrow> ushort \<Rightarrow> mem" where
  "st16 m a v = m(a := ucast v, a + 1 := ucast (drop_bit 8 v))"

definition ld16 :: "mem \<Rightarrow> uint \<Rightarrow> ushort" where
  "ld16 m a = ucast (m a) OR push_bit 8 (ucast (m (a + 1)))"

text \<open>
  What remains of the kernel's state: the static \<open>first\<close> of \<open>forkret\<close>, the interrupt
  descriptor table, the CMOS registers, and whether the machine was switched off.
\<close>

record sys_st = file_st +
  forkret_first :: bool
  idt :: "nat \<Rightarrow> gatedesc"
  cmos :: "uint \<Rightarrow> uint"
  powered_off :: bool

definition curproc :: "nat \<Rightarrow> 'a kmem_st_scheme \<Rightarrow> (nat \<Rightarrow> 'a kmem_st_scheme \<Rightarrow> 'b res) \<Rightarrow> 'b res" where
  "curproc c s f = rbind (myproc c s) (\<lambda>(po, s1). deref po (\<lambda>p. f p s1))"

section \<open>userinit\<close>

definition user_trapframe :: "uint \<Rightarrow> mem \<Rightarrow> mem" where
  "user_trapframe t m =
     (let m = memset m t 0 sizeof_trapframe;
          m = st16 m (t + tf_cs) (of_nat (SEG_UCODE * 8) OR ucast DPL_USER);
          m = st16 m (t + tf_ds) (of_nat (SEG_UDATA * 8) OR ucast DPL_USER);
          m = st16 m (t + tf_es) (ld16 m (t + tf_ds));
          m = st16 m (t + tf_ss) (ld16 m (t + tf_ds));
          m = st32 m (t + tf_eflags) FL_IF;
          m = st32 m (t + tf_esp) PGSIZE
      in st32 m (t + tf_eip) 0)"

text \<open>\<open>ini\<close> and \<open>n\<close> are the address and the size of the initcode binary the linker provides.\<close>

definition userinit :: "nat \<Rightarrow> uint \<Rightarrow> uint \<Rightarrow> 'a file_st_scheme \<Rightarrow> 'a file_st_scheme res" where
  "userinit c ini n s =
     rbind (ptable_acquire c s) (\<lambda>s1.
     rbind (initFreeList (initProcessLists s1)) (\<lambda>s2.
     rbind (ptable_release c s2) (\<lambda>s3.
     rbind (allocproc c s3) (\<lambda>(po, s4). deref po (\<lambda>p.
     rbind (setupkvm c (s4\<lparr>initproc := Some p\<rparr>)) (\<lambda>(pgd, s5).
     if pgd = 0 then Panic ''userinit: out of memory?''
     else rbind (inituvm c pgd ini n (pupd p (\<lambda>x. x\<lparr>pgdir := pgd\<rparr>) s5)) (\<lambda>s6.
     let s7 = pupd p (\<lambda>x. x\<lparr>sz := PGSIZE\<rparr>) s6;
         s8 = s7\<lparr>mem := user_trapframe (tf (proc s7 p)) (mem s7)\<rparr>;
         s9 = pupd p (\<lambda>x. x\<lparr>pname := safestrcpy_arr (pname x) (str_bytes ''initcode'') 16\<rparr>) s8
     in rbind (namei c (lit ''/'') s9) (\<lambda>(ip, s10).
        rbind (ptable_acquire c (pupd p (\<lambda>x. x\<lparr>cwd := ip\<rparr>) s10)) (\<lambda>s11.
        rbind (relist (LState (state (proc s11 p))) p ''Empty list or process not in list'' EMBRYO
                 (\<lambda>x. x\<lparr>state := RUNNABLE, uid := DEFAULT_UID, gid := DEFAULT_GID\<rparr>) (\<lambda>x. LReady (unat (priority x)))
                 (s11\<lparr>PromoteAtTime := ticks s11 + TICKS_TO_PROMOTE\<rparr>)) (\<lambda>s12.
        ptable_release c s12))))))))))"

section \<open>fork\<close>

definition fork_files :: "nat \<Rightarrow> nat \<Rightarrow> nat \<Rightarrow> nat \<Rightarrow> 'a file_st_scheme \<Rightarrow> (unit option \<times> 'a file_st_scheme) res" where
  "fork_files c p np i s =
     (case ofile (proc s p) i of
        None \<Rightarrow> Ok (None, s)
      | Some f \<Rightarrow> rbind (filedup c f s) (\<lambda>s1. Ok (None, pupd np (\<lambda>x. x\<lparr>ofile := (ofile x)(i := Some f)\<rparr>) s1)))"

definition fork :: "nat \<Rightarrow> 'a file_st_scheme \<Rightarrow> (int \<times> 'a file_st_scheme) res" where
  "fork c s =
     curproc c s (\<lambda>p s0.
     rbind (allocproc c s0) (\<lambda>(npo, s1).
       case npo of
         None \<Rightarrow> Ok (-1, s1)
       | Some np \<Rightarrow>
         rbind (copyuvm c (pgdir (proc s1 p)) (sz (proc s1 p)) s1) (\<lambda>(pgd, s2).
         let s3 = pupd np (\<lambda>x. x\<lparr>pgdir := pgd\<rparr>) s2
         in if pgd = 0 then
              rbind (kfree c (kstack (proc s3 np)) s3) (\<lambda>s4.
              rbind (free_embryo c np ''Empty List or process not in list'' (pupd np (\<lambda>x. x\<lparr>kstack := 0\<rparr>) s4)) (\<lambda>s5.
              Ok (-1, s5)))
            else
              let s4 = pupd np (\<lambda>x. x\<lparr>uid := uid (proc s3 p), gid := gid (proc s3 p), sz := sz (proc s3 p), parent := Some p\<rparr>) s3;
                  s5 = s4\<lparr>mem := memmove (mem s4) (tf (proc s4 np)) (tf (proc s4 p)) sizeof_trapframe\<rparr>;
                  s6 = s5\<lparr>mem := st32 (mem s5) (tf (proc s5 np) + tf_eax) 0\<rparr>
              in rbind (for_each (fork_files c p np) [0..<NOFILE] s6) (\<lambda>(_, s7).
                 rbind (idup c (cwd (proc s7 p)) s7) (\<lambda>(ip, s8).
                 let s9 = pupd np (\<lambda>x. x\<lparr>cwd := Some ip, pname := safestrcpy_arr (pname x) (pname (proc s8 p)) 16\<rparr>) s8;
                     pd = pid (proc s9 np)
                 in rbind (ptable_acquire c s9) (\<lambda>s10.
                    rbind (relist (LState (state (proc s10 np))) np ''Empty list or process not in list'' EMBRYO
                             (\<lambda>x. x\<lparr>state := RUNNABLE\<rparr>) (\<lambda>_. LReady MAXPRIO) s10) (\<lambda>s11.
                    rbind (ptable_release c s11) (\<lambda>s12. Ok (int_of pd, s12)))))))))"

section \<open>exit\<close>

definition exit_files :: "nat \<Rightarrow> nat \<Rightarrow> nat \<Rightarrow> 'a file_st_scheme \<Rightarrow> (unit option \<times> 'a file_st_scheme) res" where
  "exit_files c p fd s =
     (case ofile (proc s p) fd of
        None \<Rightarrow> Ok (None, s)
      | Some f \<Rightarrow> rbind (fileclose c f s) (\<lambda>s1. Ok (None, pupd p (\<lambda>x. x\<lparr>ofile := (ofile x)(fd := None)\<rparr>) s1)))"

definition proc_chan :: "ptr \<Rightarrow> chan" where
  "proc_chan po = (case po of None \<Rightarrow> Ch_null | Some p \<Rightarrow> Ch_proc p)"

text \<open>Abandoned children are passed to init: on the ready lists, and on the other lists.\<close>

definition orphan_ready :: "nat \<Rightarrow> nat \<Rightarrow> nat \<Rightarrow> 'a pt_st_scheme \<Rightarrow> (unit option \<times> ptr \<times> 'a pt_st_scheme) res" where
  "orphan_ready cur j p s =
     (let s1 = (if parent (proc s p) = Some cur then pupd p (\<lambda>x. x\<lparr>parent := initproc s\<rparr>) s else s)
      in Ok (None, nxt (proc s1 p), s1))"

definition orphan_body :: "nat \<Rightarrow> nat \<Rightarrow> 'a pt_st_scheme \<Rightarrow> (unit option \<times> ptr \<times> 'a pt_st_scheme) res" where
  "orphan_body cur p s =
     rbind (if parent (proc s p) = Some cur then
              (let s1 = pupd p (\<lambda>x. x\<lparr>parent := initproc s\<rparr>) s
               in if state (proc s1 p) = ZOMBIE then wakeup1 (proc_chan (initproc s1)) s1 else Ok s1)
            else Ok s) (\<lambda>s2. Ok (None, nxt (proc s2 p), s2))"

definition exit_states :: "procstate list" where
  "exit_states = [EMBRYO, SLEEPING, RUNNABLE, RUNNING, ZOMBIE]"

text \<open>The locked part of \<open>exit\<close>, which ends in \<open>sched\<close> and does not come back.\<close>

definition exit_sched :: "nat \<Rightarrow> nat \<Rightarrow> 'a pt_st_scheme \<Rightarrow> (uint \<times> 'a pt_st_scheme) res" where
  "exit_sched c p s =
     rbind (ptable_acquire c s) (\<lambda>s1.
     rbind (wakeup1 (proc_chan (parent (proc s1 p))) s1) (\<lambda>s2.
     rbind (scan_states ''The Runnable list should be empty'' (orphan_ready p) (orphan_body p) exit_states s2) (\<lambda>(_, s3).
     rbind (relist (LState (state (proc s3 p))) p ''Empty list or process not in list'' RUNNING
              (\<lambda>x. x\<lparr>state := ZOMBIE\<rparr>) (\<lambda>x. LState (state x)) s3) (\<lambda>s4.
     sched_enter c s4))))"

definition exit_enter :: "nat \<Rightarrow> 'a file_st_scheme \<Rightarrow> (uint \<times> 'a file_st_scheme) res" where
  "exit_enter c s =
     rbind (myproc c s) (\<lambda>(po, s0).
     if po = initproc s0 then Panic ''init exiting''
     else deref po (\<lambda>p.
       rbind (for_each (exit_files c p) [0..<NOFILE] s0) (\<lambda>(_, s1).
       rbind (begin_op c s1) (\<lambda>s2.
       rbind (iput c (cwd (proc s2 p)) s2) (\<lambda>s3.
       rbind (end_op c s3) (\<lambda>s4.
       exit_sched c p (pupd p (\<lambda>x. x\<lparr>cwd := None\<rparr>) s4)))))))"

section \<open>wait\<close>

text \<open>\<open>while(p && p->parent != curproc) p = p->next;\<close>\<close>

definition find_child :: "nat \<Rightarrow> 'a pt_st_scheme \<Rightarrow> ptr \<Rightarrow> (nat option \<times> unit) res" where
  "find_child cur s p0 =
     walk (\<lambda>i u. if parent (proc s i) = Some cur then Ok (Some i, None, u) else Ok (None, nxt (proc s i), u)) p0 ()"

definition reap :: "nat \<Rightarrow> nat \<Rightarrow> 'a pt_st_scheme \<Rightarrow> (uint \<times> 'a pt_st_scheme) res" where
  "reap c p s =
     rbind (kfree c (kstack (proc s p)) s) (\<lambda>s1.
     rbind (freevm c (pgdir (proc s1 p)) (pupd p (\<lambda>x. x\<lparr>kstack := 0\<rparr>) s1)) (\<lambda>s2.
     rbind (relist (LState (state (proc s2 p))) p ''Empty List or process not in list'' ZOMBIE
              (\<lambda>x. x\<lparr>state := UNUSED\<rparr>) (\<lambda>x. LState (state x))
              (pupd p (\<lambda>x. x\<lparr>pid := 0, parent := None, pname := (pname x)[0 := 0], killed := False\<rparr>) s2)) (\<lambda>s3.
     Ok (pid (proc s p), s3))))"

text \<open>One list of the scan; the accumulator is \<open>havekids\<close>, an early return the pid of a reaped child.\<close>

definition wait_list ::
  "nat \<Rightarrow> nat \<Rightarrow> procstate \<Rightarrow> bool \<times> 'a pt_st_scheme \<Rightarrow> (uint option \<times> bool \<times> 'a pt_st_scheme) res" where
  "wait_list c cur i = (\<lambda>(havekids, s).
     if i = RUNNABLE then
       (if head (getl (LState i) s) \<noteq> None then Panic ''The Runnable list should be empty''
        else rbind (for_each (\<lambda>j hk. rbind (find_child cur s (head (getl (LReady j) s))) (\<lambda>(r, _).
                                Ok (None :: unit option, hk \<or> r \<noteq> None))) (rev [0..<Suc MAXPRIO]) havekids)
               (\<lambda>(_, hk). Ok (None, hk, s)))
     else rbind (find_child cur s (head (getl (LState i) s))) (\<lambda>(r, _).
          case r of
            None \<Rightarrow> Ok (None, havekids, s)
          | Some p \<Rightarrow>
              if state (proc s p) = ZOMBIE then rbind (reap c p s) (\<lambda>(pd, s1). Ok (Some pd, True, s1))
              else Ok (None, True, s)))"

text \<open>One round of the \<open>for(;;)\<close>, with \<open>ptable.lock\<close> held: \<open>Inl\<close> is the return value, \<open>Inr\<close> the
  interrupt flag saved when the process went to sleep.\<close>

definition wait_round :: "nat \<Rightarrow> nat \<Rightarrow> 'a pt_st_scheme \<Rightarrow> ((int + uint) \<times> 'a pt_st_scheme) res" where
  "wait_round c cur s =
     rbind (for_each (wait_list c cur) exit_states (False, s)) (\<lambda>(r, havekids, s1).
       case r of
         Some pd \<Rightarrow> rbind (ptable_release c s1) (\<lambda>s2. Ok (Inl (int_of pd), s2))
       | None \<Rightarrow>
           if \<not> havekids \<or> killed (proc s1 cur) then rbind (ptable_release c s1) (\<lambda>s2. Ok (Inl (-1), s2))
           else rbind (sleep_enter c (Ch_proc cur) PtableLock s1) (\<lambda>(ie, s2). Ok (Inr ie, s2)))"

definition wait_enter :: "nat \<Rightarrow> 'a pt_st_scheme \<Rightarrow> ((int + uint) \<times> 'a pt_st_scheme) res" where
  "wait_enter c s = curproc c s (\<lambda>p s0. rbind (ptable_acquire c s0) (wait_round c p))"

text \<open>What a waiting process does when the scheduler resumes it.\<close>

definition wait_resume :: "nat \<Rightarrow> nat \<Rightarrow> uint \<Rightarrow> 'a pt_st_scheme \<Rightarrow> ((int + uint) \<times> 'a pt_st_scheme) res" where
  "wait_resume c p ie s = rbind (sleep_exit c p ie PtableLock s) (wait_round c p)"

section \<open>forkret\<close>

definition forkret :: "nat \<Rightarrow> 'a sys_st_scheme \<Rightarrow> 'a sys_st_scheme res" where
  "forkret c s =
     rbind (ptable_release c s) (\<lambda>s1.
     if forkret_first s1
     then rbind (iinit c ROOTDEV (s1\<lparr>forkret_first := False\<rparr>)) (initlog c ROOTDEV)
     else Ok s1)"

end
