(* ===== verification/Exec.thy ===== *)
theory Exec
  imports Proc_Life
begin

unbundle bit_operations_syntax

text \<open>
  Access to user memory, the arguments of system calls (\<open>syscall.c\<close>), \<open>loaduvm\<close> of \<open>vm.c\<close> and
  \<open>exec\<close> (\<open>exec.c\<close>).  The kernel dereferences user addresses through the page table that is
  loaded in \<open>cr3\<close>; \<open>mmu\<close> is the translation of the processor, which faults on a missing page
  and on a write to a read-only one.
\<close>

section \<open>User memory\<close>

definition mmu :: "uint \<Rightarrow> bool \<Rightarrow> uint \<Rightarrow> 'a kmem_st_scheme \<Rightarrow> uint res" where
  "mmu pgd wr va s =
     (if va \<ge> KERNBASE then Ok va
      else let pde = ld32 (mem s) (pgd + 4 * PDX va)
           in if pde AND PTE_P = 0 \<or> wr \<and> pde AND PTE_W = 0 then Fault
              else let pte = ld32 (mem s) (P2V (PTE_ADDR pde) + 4 * PTX va)
                   in if pte AND PTE_P = 0 \<or> wr \<and> pte AND PTE_W = 0 then Fault
                      else Ok (P2V (PTE_ADDR pte) + (va AND 0xFFF)))"

definition cur_pgd :: "nat \<Rightarrow> 'a kmem_st_scheme \<Rightarrow> uint" where
  "cur_pgd c s = P2V (cr3 (cpus s c))"

definition vload :: "nat \<Rightarrow> uint \<Rightarrow> 'a kmem_st_scheme \<Rightarrow> byte res" where
  "vload c va s = rbind (mmu (cur_pgd c s) False va s) (\<lambda>ka. Ok (mem s ka))"

definition vstore :: "nat \<Rightarrow> uint \<Rightarrow> byte \<Rightarrow> 'a kmem_st_scheme \<Rightarrow> 'a kmem_st_scheme res" where
  "vstore c va b s = rbind (mmu (cur_pgd c s) True va s) (\<lambda>ka. Ok (s\<lparr>mem := (mem s)(ka := b)\<rparr>))"

primrec vload_bytes :: "nat \<Rightarrow> uint \<Rightarrow> nat \<Rightarrow> 'a kmem_st_scheme \<Rightarrow> byte list res" where
  "vload_bytes c va 0 s = Ok []"
| "vload_bytes c va (Suc n) s = rbind (vload c va s) (\<lambda>b. rbind (vload_bytes c (va + 1) n s) (\<lambda>bs. Ok (b # bs)))"

primrec vstore_bytes :: "nat \<Rightarrow> uint \<Rightarrow> byte list \<Rightarrow> 'a kmem_st_scheme \<Rightarrow> 'a kmem_st_scheme res" where
  "vstore_bytes c va [] s = Ok s"
| "vstore_bytes c va (b # bs) s = rbind (vstore c va b s) (vstore_bytes c (va + 1) bs)"

definition word_bytes :: "uint \<Rightarrow> byte list" where
  "word_bytes w = map (byte_of w) [0..<4]"

definition vload32 :: "nat \<Rightarrow> uint \<Rightarrow> 'a kmem_st_scheme \<Rightarrow> uint res" where
  "vload32 c va s = rbind (vload_bytes c va 4 s) (\<lambda>bs. Ok (ldw bs 0))"

section \<open>syscall.c: the arguments\<close>

text \<open>\<open>None\<close> stands for the return value \<open>-1\<close>.\<close>

definition fetchint :: "nat \<Rightarrow> uint \<Rightarrow> 'a pt_st_scheme \<Rightarrow> (uint option \<times> 'a pt_st_scheme) res" where
  "fetchint c addr s =
     curproc c s (\<lambda>p s1.
     if addr \<ge> sz (proc s1 p) \<or> addr + 4 > sz (proc s1 p) then Ok (None, s1)
     else rbind (vload32 c addr s1) (\<lambda>w. Ok (Some w, s1)))"

text \<open>The string at the pointer, without its NUL; its length is the return value.\<close>

definition fetchstr :: "nat \<Rightarrow> uint \<Rightarrow> 'a pt_st_scheme \<Rightarrow> (byte list option \<times> 'a pt_st_scheme) res" where
  "fetchstr c addr s =
     curproc c s (\<lambda>p s1.
     if addr \<ge> sz (proc s1 p) then Ok (None, s1)
     else rbind (for_each (\<lambda>k bs. rbind (vload c (addr + of_nat k) s1) (\<lambda>b.
                             if b = 0 then Ok (Some (), bs) else Ok (None, bs @ [b])))
                   [0..<unat (sz (proc s1 p)) - unat addr] []) (\<lambda>(r, bs).
          Ok (if r \<noteq> None then Some bs else None, s1)))"

definition argint :: "nat \<Rightarrow> nat \<Rightarrow> 'a pt_st_scheme \<Rightarrow> (uint option \<times> 'a pt_st_scheme) res" where
  "argint c n s =
     curproc c s (\<lambda>p s1. fetchint c (ld32 (mem s1) (tf (proc s1 p) + tf_esp) + 4 + 4 * of_nat n) s1)"

definition argptr :: "nat \<Rightarrow> nat \<Rightarrow> uint \<Rightarrow> 'a pt_st_scheme \<Rightarrow> (uint option \<times> 'a pt_st_scheme) res" where
  "argptr c n len s =
     curproc c s (\<lambda>p s1.
     rbind (argint c n s1) (\<lambda>(r, s2).
       case r of
         None \<Rightarrow> Ok (None, s2)
       | Some i \<Rightarrow>
           if int_of len < 0 \<or> i \<ge> sz (proc s2 p) \<or> i + len > sz (proc s2 p) then Ok (None, s2)
           else Ok (Some i, s2)))"

definition argstr :: "nat \<Rightarrow> nat \<Rightarrow> 'a pt_st_scheme \<Rightarrow> (byte list option \<times> 'a pt_st_scheme) res" where
  "argstr c n s =
     rbind (argint c n s) (\<lambda>(r, s1). case r of None \<Rightarrow> Ok (None, s1) | Some addr \<Rightarrow> fetchstr c addr s1)"

section \<open>elf.h\<close>

definition ELF_MAGIC :: uint where "ELF_MAGIC = 0x464C457F"
definition ELF_PROG_LOAD :: uint where "ELF_PROG_LOAD = 1"
definition sizeof_elfhdr :: nat where "sizeof_elfhdr = 52"
definition sizeof_proghdr :: nat where "sizeof_proghdr = 32"

record elfhdr =
  e_magic :: uint
  e_entry :: uint
  e_phoff :: uint
  e_phnum :: ushort

definition elfhdr_of :: "byte list \<Rightarrow> elfhdr" where
  "elfhdr_of d = \<lparr>e_magic = ldw d 0, e_entry = ldw d 24, e_phoff = ldw d 28, e_phnum = lds d 44\<rparr>"

record proghdr =
  ph_type :: uint
  ph_off :: uint
  ph_vaddr :: uint
  ph_filesz :: uint
  ph_memsz :: uint

definition proghdr_of :: "byte list \<Rightarrow> proghdr" where
  "proghdr_of d = \<lparr>ph_type = ldw d 0, ph_off = ldw d 4, ph_vaddr = ldw d 8, ph_filesz = ldw d 16, ph_memsz = ldw d 20\<rparr>"

section \<open>vm.c: loaduvm\<close>

definition loaduvm_body ::
  "nat \<Rightarrow> uint \<Rightarrow> uint \<Rightarrow> nat \<Rightarrow> uint \<Rightarrow> uint \<Rightarrow> uint \<times> 'a con_st_scheme \<Rightarrow>
   ((int \<times> 'a con_st_scheme) + (uint \<times> 'a con_st_scheme)) res" where
  "loaduvm_body c pgd addr ip offset len = (\<lambda>(i, s).
     if \<not> i < len then Ok (Inl (0, s))
     else rbind (walkpgdir c pgd (addr + i) False s) (\<lambda>(pte, s1).
          if pte = 0 then Panic ''loaduvm: address should exist''
          else let pa = PTE_ADDR (ld32 (mem s1) pte); n = (if len - i < PGSIZE then len - i else PGSIZE)
               in rbind (readi c ip (offset + i) n s1) (\<lambda>(r, bs, s2).
                  let s3 = s2\<lparr>mem := put_bytes (mem s2) (P2V pa) bs\<rparr>
                  in if word_of_int r \<noteq> n then Ok (Inl (-1, s3)) else Ok (Inr (i + PGSIZE, s3)))))"

definition loaduvm ::
  "nat \<Rightarrow> uint \<Rightarrow> uint \<Rightarrow> nat \<Rightarrow> uint \<Rightarrow> uint \<Rightarrow> 'a con_st_scheme \<Rightarrow> (int \<times> 'a con_st_scheme) res" where
  "loaduvm c pgd addr ip offset len s =
     (if addr mod PGSIZE \<noteq> 0 then Panic ''loaduvm: addr must be page aligned''
      else loop_res (loaduvm_body c pgd addr ip offset len) (0, s))"

section \<open>exec.c\<close>

text \<open>The jump to \<open>bad\<close>; \<open>pgd\<close> is 0 and \<open>ipo\<close> NULL where they are not set.\<close>

definition exec_bad :: "nat \<Rightarrow> uint \<Rightarrow> ptr \<Rightarrow> 'a con_st_scheme \<Rightarrow> (int \<times> 'a con_st_scheme) res" where
  "exec_bad c pgd ipo s =
     rbind (if pgd \<noteq> 0 then freevm c pgd s else Ok s) (\<lambda>s1.
     if ipo \<noteq> None then rbind (iunlockput c ipo s1) (\<lambda>s2. rbind (end_op c s2) (\<lambda>s3. Ok (-1, s3)))
     else Ok (-1, s1))"

text \<open>One program header; an early return is the jump to \<open>bad\<close>, the accumulator \<open>sz\<close>.\<close>

definition exec_load ::
  "nat \<Rightarrow> uint \<Rightarrow> nat \<Rightarrow> uint \<Rightarrow> nat \<Rightarrow> uint \<times> 'a con_st_scheme \<Rightarrow> (unit option \<times> uint \<times> 'a con_st_scheme) res" where
  "exec_load c pgd ip phoff i = (\<lambda>(z, s).
     rbind (readi c ip (phoff + of_nat (sizeof_proghdr * i)) (of_nat sizeof_proghdr) s) (\<lambda>(r, bs, s1).
     let ph = proghdr_of bs
     in if r \<noteq> int sizeof_proghdr then Ok (Some (), z, s1)
        else if ph_type ph \<noteq> ELF_PROG_LOAD then Ok (None, z, s1)
        else if ph_memsz ph < ph_filesz ph then Ok (Some (), z, s1)
        else if ph_vaddr ph + ph_memsz ph < ph_vaddr ph then Ok (Some (), z, s1)
        else rbind (allocuvm c pgd z (ph_vaddr ph + ph_memsz ph) s1) (\<lambda>(z', s2).
             if z' = 0 then Ok (Some (), z', s2)
             else if ph_vaddr ph mod PGSIZE \<noteq> 0 then Ok (Some (), z', s2)
             else rbind (loaduvm c pgd (ph_vaddr ph) ip (ph_off ph) (ph_filesz ph) s2) (\<lambda>(r', s3).
                  if r' < 0 then Ok (Some (), z', s3) else Ok (None, z', s3)))))"

text \<open>One argument string; the accumulator is \<open>sp\<close> and the pointers pushed so far.\<close>

definition exec_arg ::
  "nat \<Rightarrow> uint \<Rightarrow> byte list \<Rightarrow> uint \<times> uint list \<times> 'a con_st_scheme \<Rightarrow>
   (unit option \<times> uint \<times> uint list \<times> 'a con_st_scheme) res" where
  "exec_arg c pgd arg = (\<lambda>(sp, us, s).
     if length us \<ge> MAXARG then Ok (Some (), sp, us, s)
     else let sp = (sp - (of_nat (length arg) + 1)) AND NOT 3
          in rbind (copyout c pgd sp (arg @ [0]) s) (\<lambda>(r, s1).
             if r < 0 then Ok (Some (), sp, us, s1) else Ok (None, sp, us @ [sp], s1)))"

text \<open>The words \<open>ustack[0..3+argc]\<close>: fake return address, \<open>argc\<close>, \<open>argv\<close>, the pointers, NULL.\<close>

definition ustack :: "uint \<Rightarrow> uint list \<Rightarrow> uint list" where
  "ustack sp us = [0xffffffff, of_nat (length us), sp - (of_nat (length us) + 1) * 4] @ us @ [0]"

text \<open>The last element of the path: what follows the last slash.\<close>

definition path_last :: "byte list \<Rightarrow> byte list" where
  "path_last path = rev (takeWhile (\<lambda>b. b \<noteq> slash) (rev path))"

definition exec_commit ::
  "nat \<Rightarrow> nat \<Rightarrow> byte list \<Rightarrow> uint \<Rightarrow> uint \<Rightarrow> uint \<Rightarrow> uint \<Rightarrow> 'a con_st_scheme \<Rightarrow> (int \<times> 'a con_st_scheme) res" where
  "exec_commit c p path pgd z entry sp s =
     (let s1 = pupd p (\<lambda>x. x\<lparr>pname := safestrcpy_arr (pname x) (path_last path @ [0]) 16\<rparr>) s;
          oldpgdir = pgdir (proc s1 p);
          s2 = pupd p (\<lambda>x. x\<lparr>pgdir := pgd, sz := z\<rparr>) s1;
          s3 = s2\<lparr>mem := st32 (mem s2) (tf (proc s2 p) + tf_eip) entry\<rparr>;
          s4 = s3\<lparr>mem := st32 (mem s3) (tf (proc s3 p) + tf_esp) sp\<rparr>
      in rbind (switchuvm c (Some p) s4) (\<lambda>s5.
         rbind (freevm c oldpgdir s5) (\<lambda>s6. Ok (0, s6))))"

text \<open>The second half of \<open>exec\<close>, after the inode has been put back: stack, arguments, commit.\<close>

definition exec_stack ::
  "nat \<Rightarrow> nat \<Rightarrow> byte list \<Rightarrow> byte list list \<Rightarrow> uint \<Rightarrow> uint \<Rightarrow> uint \<Rightarrow> 'a con_st_scheme \<Rightarrow> (int \<times> 'a con_st_scheme) res" where
  "exec_stack c p path argv pgd entry z0 s =
     rbind (allocuvm c pgd (PGROUNDUP z0) (PGROUNDUP z0 + 2 * PGSIZE) s) (\<lambda>(z, s1).
     if z = 0 then exec_bad c pgd None s1
     else rbind (clearpteu c pgd (z - 2 * PGSIZE) s1) (\<lambda>s2.
          rbind (for_each (exec_arg c pgd) argv (z, [], s2)) (\<lambda>(r, sp, us, s3).
          if r \<noteq> None then exec_bad c pgd None s3
          else let sp' = sp - of_nat (3 + length us + 1) * 4
               in rbind (copyout c pgd sp' (concat (map word_bytes (ustack sp us))) s3) (\<lambda>(r', s4).
                  if r' < 0 then exec_bad c pgd None s4
                  else exec_commit c p path pgd z entry sp' s4))))"

text \<open>\<open>argv\<close> is the list of the argument strings; the NULL pointer ends it.\<close>

definition exec :: "nat \<Rightarrow> byte list \<Rightarrow> byte list list \<Rightarrow> 'a con_st_scheme \<Rightarrow> (int \<times> 'a con_st_scheme) res" where
  "exec c path argv s =
     curproc c s (\<lambda>p s0.
     rbind (begin_op c s0) (\<lambda>s1.
     rbind (namei c path s1) (\<lambda>(ipo, s2).
       case ipo of
         None \<Rightarrow> rbind (end_op c s2) (\<lambda>s3. Ok (-1, s3))
       | Some ip \<Rightarrow>
           rbind (ilock c ipo s2) (\<lambda>s3.
           rbind (readi c ip 0 (of_nat sizeof_elfhdr) s3) (\<lambda>(r, bs, s4).
           let elf = elfhdr_of bs
           in if r \<noteq> int sizeof_elfhdr \<or> e_magic elf \<noteq> ELF_MAGIC then exec_bad c 0 ipo s4
              else rbind (setupkvm c s4) (\<lambda>(pgd, s5).
                   if pgd = 0 then exec_bad c 0 ipo s5
                   else rbind (for_each (exec_load c pgd ip (e_phoff elf)) [0..<unat (e_phnum elf)] (0, s5)) (\<lambda>(r', z, s6).
                        if r' \<noteq> None then exec_bad c pgd ipo s6
                        else rbind (iunlockput c ipo s6) (\<lambda>s7.
                             rbind (end_op c s7) (\<lambda>s8.
                             exec_stack c p path argv pgd (e_entry elf) z s8)))))))))"

end
