(* ===== verification/Sysfile.thy ===== *)
theory Sysfile
  imports Exec
begin

unbundle bit_operations_syntax

text \<open>
  The file-system calls (\<open>sysfile.c\<close>).  Each takes its arguments from the user stack
  through \<open>argint\<close>, \<open>argptr\<close> and \<open>argstr\<close> and returns the value for \<open>%eax\<close>.  The bytes a read
  delivers are stored in user memory when the read returns.
\<close>

section \<open>File descriptors\<close>

definition argfd :: "nat \<Rightarrow> nat \<Rightarrow> 'a pt_st_scheme \<Rightarrow> ((nat \<times> nat) option \<times> 'a pt_st_scheme) res" where
  "argfd c n s =
     rbind (argint c n s) (\<lambda>(r, s1).
       case r of
         None \<Rightarrow> Ok (None, s1)
       | Some w \<Rightarrow>
           if int_of w < 0 \<or> int_of w \<ge> int NOFILE then Ok (None, s1)
           else curproc c s1 (\<lambda>p s2.
                case ofile (proc s2 p) (nat (int_of w)) of
                  None \<Rightarrow> Ok (None, s2)
                | Some f \<Rightarrow> Ok (Some (nat (int_of w), f), s2)))"

definition fdalloc :: "nat \<Rightarrow> nat \<Rightarrow> 'a pt_st_scheme \<Rightarrow> (int \<times> 'a pt_st_scheme) res" where
  "fdalloc c f s =
     curproc c s (\<lambda>p s1.
     rbind (for_each (\<lambda>fd s. if ofile (proc s p) fd = None
                             then Ok (Some fd, pupd p (\<lambda>x. x\<lparr>ofile := (ofile x)(fd := Some f)\<rparr>) s)
                             else Ok (None, s)) [0..<NOFILE] s1) (\<lambda>(r, s2).
     Ok (case r of Some fd \<Rightarrow> int fd | None \<Rightarrow> -1, s2)))"

definition sys_dup :: "nat \<Rightarrow> 'a file_st_scheme \<Rightarrow> (int \<times> 'a file_st_scheme) res" where
  "sys_dup c s =
     rbind (argfd c 0 s) (\<lambda>(r, s1).
       case r of
         None \<Rightarrow> Ok (-1, s1)
       | Some (_, f) \<Rightarrow>
           rbind (fdalloc c f s1) (\<lambda>(fd, s2).
           if fd < 0 then Ok (-1, s2) else rbind (filedup c f s2) (\<lambda>s3. Ok (fd, s3))))"

text \<open>The arguments of \<open>read\<close> and \<open>write\<close>: the file, the count, the buffer.\<close>

definition arg_rw :: "nat \<Rightarrow> 'a pt_st_scheme \<Rightarrow> ((nat \<times> uint \<times> uint) option \<times> 'a pt_st_scheme) res" where
  "arg_rw c s =
     rbind (argfd c 0 s) (\<lambda>(rf, s1).
       case rf of
         None \<Rightarrow> Ok (None, s1)
       | Some (_, f) \<Rightarrow>
           rbind (argint c 2 s1) (\<lambda>(rn, s2).
             case rn of
               None \<Rightarrow> Ok (None, s2)
             | Some n \<Rightarrow>
                 rbind (argptr c 1 n s2) (\<lambda>(rp, s3).
                 Ok (case rp of None \<Rightarrow> None | Some p \<Rightarrow> Some (f, n, p), s3))))"

definition sys_read :: "nat \<Rightarrow> 'a file_st_scheme \<Rightarrow> (int \<times> 'a file_st_scheme) res" where
  "sys_read c s =
     rbind (arg_rw c s) (\<lambda>(r, s1).
       case r of
         None \<Rightarrow> Ok (-1, s1)
       | Some (f, n, p) \<Rightarrow>
           rbind (fileread c f (int_of n) s1) (\<lambda>(v, bs, s2).
           rbind (vstore_bytes c p bs s2) (\<lambda>s3. Ok (v, s3))))"

definition sys_write :: "nat \<Rightarrow> 'a file_st_scheme \<Rightarrow> (int \<times> 'a file_st_scheme) res" where
  "sys_write c s =
     rbind (arg_rw c s) (\<lambda>(r, s1).
       case r of
         None \<Rightarrow> Ok (-1, s1)
       | Some (f, n, p) \<Rightarrow> filewrite c f (\<lambda>k. vload c (p + of_nat k) s1) (int_of n) s1)"

definition sys_close :: "nat \<Rightarrow> 'a file_st_scheme \<Rightarrow> (int \<times> 'a file_st_scheme) res" where
  "sys_close c s =
     rbind (argfd c 0 s) (\<lambda>(r, s1).
       case r of
         None \<Rightarrow> Ok (-1, s1)
       | Some (fd, f) \<Rightarrow>
           curproc c s1 (\<lambda>p s2.
           rbind (fileclose c f (pupd p (\<lambda>x. x\<lparr>ofile := (ofile x)(fd := None)\<rparr>) s2)) (\<lambda>s3. Ok (0, s3))))"

definition sizeof_stat :: uint where "sizeof_stat = 20"

definition half_bytes :: "ushort \<Rightarrow> byte list" where
  "half_bytes h = [ucast h, ucast (drop_bit 8 h)]"

text \<open>The stores of \<open>stati\<close> into the user's \<open>struct stat\<close>; the padding is not touched.\<close>

definition store_stat :: "nat \<Rightarrow> uint \<Rightarrow> stat \<Rightarrow> 'a kmem_st_scheme \<Rightarrow> 'a kmem_st_scheme res" where
  "store_stat c a st s =
     rbind (vstore_bytes c (a + 4) (word_bytes (st_dev st)) s) (\<lambda>s1.
     rbind (vstore_bytes c (a + 8) (word_bytes (st_ino st)) s1) (\<lambda>s2.
     rbind (vstore_bytes c a (half_bytes (st_type st)) s2) (\<lambda>s3.
     rbind (vstore_bytes c (a + 12) (half_bytes (st_nlink st)) s3) (\<lambda>s4.
     vstore_bytes c (a + 16) (word_bytes (st_size st)) s4))))"

definition sys_fstat :: "nat \<Rightarrow> 'a file_st_scheme \<Rightarrow> (int \<times> 'a file_st_scheme) res" where
  "sys_fstat c s =
     rbind (argfd c 0 s) (\<lambda>(rf, s1).
       case rf of
         None \<Rightarrow> Ok (-1, s1)
       | Some (_, f) \<Rightarrow>
           rbind (argptr c 1 sizeof_stat s1) (\<lambda>(rp, s2).
             case rp of
               None \<Rightarrow> Ok (-1, s2)
             | Some a \<Rightarrow>
                 rbind (filestat c f s2) (\<lambda>(v, so, s3).
                   case so of
                     None \<Rightarrow> Ok (v, s3)
                   | Some st \<Rightarrow> rbind (store_stat c a st s3) (\<lambda>s4. Ok (v, s4)))))"

section \<open>link and unlink\<close>

definition set_nlink :: "nat \<Rightarrow> (ushort \<Rightarrow> ushort) \<Rightarrow> 'a fs_st_scheme \<Rightarrow> 'a fs_st_scheme" where
  "set_nlink ip g s = iupd ip (\<lambda>x. x\<lparr>i_nlink := g (i_nlink x)\<rparr>) s"

definition link_bad :: "nat \<Rightarrow> nat \<Rightarrow> 'a con_st_scheme \<Rightarrow> (int \<times> 'a con_st_scheme) res" where
  "link_bad c ip s =
     rbind (ilock c (Some ip) s) (\<lambda>s1.
     rbind (iupdate c ip (set_nlink ip (\<lambda>n. n - 1) s1)) (\<lambda>s2.
     rbind (iunlockput c (Some ip) s2) (\<lambda>s3.
     rbind (end_op c s3) (\<lambda>s4. Ok (-1, s4)))))"

definition sys_link :: "nat \<Rightarrow> 'a file_st_scheme \<Rightarrow> (int \<times> 'a file_st_scheme) res" where
  "sys_link c s =
     rbind (argstr c 0 s) (\<lambda>(r0, s1).
       case r0 of
         None \<Rightarrow> Ok (-1, s1)
       | Some old \<Rightarrow>
     rbind (argstr c 1 s1) (\<lambda>(r1, s2).
       case r1 of
         None \<Rightarrow> Ok (-1, s2)
       | Some new \<Rightarrow>
     rbind (begin_op c s2) (\<lambda>s3.
     rbind (namei c old s3) (\<lambda>(ipo, s4).
       case ipo of
         None \<Rightarrow> rbind (end_op c s4) (\<lambda>s5. Ok (-1, s5))
       | Some ip \<Rightarrow>
     rbind (ilock c ipo s4) (\<lambda>s5.
     if i_type (inode s5 ip) = T_DIR
     then rbind (iunlockput c ipo s5) (\<lambda>s6. rbind (end_op c s6) (\<lambda>s7. Ok (-1, s7)))
     else
     rbind (iupdate c ip (set_nlink ip (\<lambda>n. n + 1) s5)) (\<lambda>s6.
     rbind (iunlock c ipo s6) (\<lambda>s7.
     rbind (nameiparent c new s7) (\<lambda>(dpo, name, s8).
       case dpo of
         None \<Rightarrow> link_bad c ip s8
       | Some dp \<Rightarrow>
     rbind (ilock c dpo s8) (\<lambda>s9.
     rbind (if i_dev (inode s9 dp) \<noteq> i_dev (inode s9 ip) then Ok (-1, s9)
            else dirlink c dp name (i_inum (inode s9 ip)) s9) (\<lambda>(r, s10).
     rbind (iunlockput c dpo s10) (\<lambda>s11.
     if r < 0 then link_bad c ip s11
     else rbind (iput c ipo s11) (\<lambda>s12. rbind (end_op c s12) (\<lambda>s13. Ok (0, s13))))))))))))))"

definition isdirempty :: "nat \<Rightarrow> nat \<Rightarrow> 'a con_st_scheme \<Rightarrow> (bool \<times> 'a con_st_scheme) res" where
  "isdirempty c dp s =
     rbind (for_each (\<lambda>off s. rbind (read_dirent c dp off ''isdirempty: readi'' s) (\<lambda>(de, s').
                        Ok (if de_inum de \<noteq> 0 then Some () else None, s')))
              (drop 2 (dir_offs (i_size (inode s dp)))) s) (\<lambda>(r, s1). Ok (r = None, s1))"

definition unlink_bad :: "nat \<Rightarrow> nat \<Rightarrow> 'a con_st_scheme \<Rightarrow> (int \<times> 'a con_st_scheme) res" where
  "unlink_bad c dp s = rbind (iunlockput c (Some dp) s) (\<lambda>s1. rbind (end_op c s1) (\<lambda>s2. Ok (-1, s2)))"

text \<open>The removal of the entry at \<open>off\<close> of \<open>dp\<close> for the locked inode \<open>ip\<close>.\<close>

definition unlink_entry :: "nat \<Rightarrow> nat \<Rightarrow> nat \<Rightarrow> uint \<Rightarrow> 'a con_st_scheme \<Rightarrow> (int \<times> 'a con_st_scheme) res" where
  "unlink_entry c dp ip off s =
     rbind (writei c dp (\<lambda>_. Ok 0) off (of_nat sizeof_dirent) s) (\<lambda>(w, s1).
     if w \<noteq> int sizeof_dirent then Panic ''unlink: writei''
     else rbind (if i_type (inode s1 ip) = T_DIR then iupdate c dp (set_nlink dp (\<lambda>n. n - 1) s1) else Ok s1) (\<lambda>s2.
          rbind (iunlockput c (Some dp) s2) (\<lambda>s3.
          rbind (iupdate c ip (set_nlink ip (\<lambda>n. n - 1) s3)) (\<lambda>s4.
          rbind (iunlockput c (Some ip) s4) (\<lambda>s5.
          rbind (end_op c s5) (\<lambda>s6. Ok (0, s6)))))))"

definition sys_unlink :: "nat \<Rightarrow> 'a file_st_scheme \<Rightarrow> (int \<times> 'a file_st_scheme) res" where
  "sys_unlink c s =
     rbind (argstr c 0 s) (\<lambda>(r0, s1).
       case r0 of
         None \<Rightarrow> Ok (-1, s1)
       | Some path \<Rightarrow>
     rbind (begin_op c s1) (\<lambda>s2.
     rbind (nameiparent c path s2) (\<lambda>(dpo, name, s3).
       case dpo of
         None \<Rightarrow> rbind (end_op c s3) (\<lambda>s4. Ok (-1, s4))
       | Some dp \<Rightarrow>
     rbind (ilock c dpo s3) (\<lambda>s4.
     if namecmp name (lit ''.'') = 0 \<or> namecmp name (lit ''..'') = 0 then unlink_bad c dp s4
     else rbind (dirlookup c dp name s4) (\<lambda>(r, s5).
       case r of
         None \<Rightarrow> unlink_bad c dp s5
       | Some (ip, off) \<Rightarrow>
     rbind (ilock c (Some ip) s5) (\<lambda>s6.
     if sint (i_nlink (inode s6 ip)) < 1 then Panic ''unlink: nlink < 1''
     else rbind (if i_type (inode s6 ip) = T_DIR then isdirempty c ip s6 else Ok (True, s6)) (\<lambda>(e, s7).
     if \<not> e then rbind (iunlockput c (Some ip) s7) (unlink_bad c dp)
     else unlink_entry c dp ip off s7)))))))"

section \<open>create, open, mkdir, mknod, chdir\<close>

text \<open>The part of \<open>create\<close> for a name that does not exist: \<open>dp\<close> is locked.\<close>

definition create_new ::
  "nat \<Rightarrow> nat \<Rightarrow> byte list \<Rightarrow> ushort \<Rightarrow> ushort \<Rightarrow> ushort \<Rightarrow> 'a con_st_scheme \<Rightarrow> (ptr \<times> 'a con_st_scheme) res" where
  "create_new c dp name ty maj mnr s =
     rbind (ialloc c (i_dev (inode s dp)) ty s) (\<lambda>(ip, s1).
     rbind (ilock c (Some ip) s1) (\<lambda>s2.
     rbind (iupdate c ip (iupd ip (\<lambda>x. x\<lparr>i_major := maj, i_minor := mnr, i_nlink := 1\<rparr>) s2)) (\<lambda>s3.
     rbind (if ty = T_DIR then
              rbind (iupdate c dp (set_nlink dp (\<lambda>n. n + 1) s3)) (\<lambda>s4.
              rbind (dirlink c ip (lit ''.'') (i_inum (inode s4 ip)) s4) (\<lambda>(r1, s5).
              if r1 < 0 then Panic ''create dots''
              else rbind (dirlink c ip (lit ''..'') (i_inum (inode s5 dp)) s5) (\<lambda>(r2, s6).
                   if r2 < 0 then Panic ''create dots'' else Ok s6)))
            else Ok s3) (\<lambda>s7.
     rbind (dirlink c dp name (i_inum (inode s7 ip)) s7) (\<lambda>(r, s8).
     if r < 0 then Panic ''create: dirlink''
     else rbind (iunlockput c (Some dp) s8) (\<lambda>s9. Ok (Some ip, s9)))))))"

definition create ::
  "nat \<Rightarrow> byte list \<Rightarrow> ushort \<Rightarrow> ushort \<Rightarrow> ushort \<Rightarrow> 'a con_st_scheme \<Rightarrow> (ptr \<times> 'a con_st_scheme) res" where
  "create c path ty maj mnr s =
     rbind (nameiparent c path s) (\<lambda>(dpo, name, s1).
       case dpo of
         None \<Rightarrow> Ok (None, s1)
       | Some dp \<Rightarrow>
     rbind (ilock c dpo s1) (\<lambda>s2.
     rbind (dirlookup c dp name s2) (\<lambda>(r, s3).
       case r of
         Some (ip, _) \<Rightarrow>
           rbind (iunlockput c dpo s3) (\<lambda>s4.
           rbind (ilock c (Some ip) s4) (\<lambda>s5.
           if ty = T_FILE \<and> i_type (inode s5 ip) = T_FILE then Ok (Some ip, s5)
           else rbind (iunlockput c (Some ip) s5) (\<lambda>s6. Ok (None, s6))))
       | None \<Rightarrow> create_new c dp name ty maj mnr s3)))"

definition O_RDONLY :: uint where "O_RDONLY = 0"
definition O_WRONLY :: uint where "O_WRONLY = 1"
definition O_RDWR :: uint where "O_RDWR = 2"
definition O_CREATE :: uint where "O_CREATE = 0x200"

text \<open>The locked inode \<open>open\<close> works on; \<open>None\<close> when the call fails.\<close>

definition open_inode :: "nat \<Rightarrow> byte list \<Rightarrow> uint \<Rightarrow> 'a con_st_scheme \<Rightarrow> (ptr \<times> 'a con_st_scheme) res" where
  "open_inode c path omode s =
     (if omode AND O_CREATE \<noteq> 0 then
        rbind (create c path T_FILE 0 0 s) (\<lambda>(ipo, s1).
        if ipo = None then rbind (end_op c s1) (\<lambda>s2. Ok (None, s2)) else Ok (ipo, s1))
      else
        rbind (namei c path s) (\<lambda>(ipo, s1).
          case ipo of
            None \<Rightarrow> rbind (end_op c s1) (\<lambda>s2. Ok (None, s2))
          | Some ip \<Rightarrow>
              rbind (ilock c ipo s1) (\<lambda>s2.
              if i_type (inode s2 ip) = T_DIR \<and> omode \<noteq> O_RDONLY
              then rbind (iunlockput c ipo s2) (\<lambda>s3. rbind (end_op c s3) (\<lambda>s4. Ok (None, s4)))
              else Ok (ipo, s2))))"

definition open_fail :: "nat \<Rightarrow> nat \<Rightarrow> 'a con_st_scheme \<Rightarrow> (int \<times> 'a con_st_scheme) res" where
  "open_fail c ip s = rbind (iunlockput c (Some ip) s) (\<lambda>s1. rbind (end_op c s1) (\<lambda>s2. Ok (-1, s2)))"

definition sys_open :: "nat \<Rightarrow> 'a file_st_scheme \<Rightarrow> (int \<times> 'a file_st_scheme) res" where
  "sys_open c s =
     rbind (argstr c 0 s) (\<lambda>(r0, s1).
       case r0 of
         None \<Rightarrow> Ok (-1, s1)
       | Some path \<Rightarrow>
     rbind (argint c 1 s1) (\<lambda>(r1, s2).
       case r1 of
         None \<Rightarrow> Ok (-1, s2)
       | Some omode \<Rightarrow>
     rbind (begin_op c s2) (\<lambda>s3.
     rbind (open_inode c path omode s3) (\<lambda>(ipo, s4).
       case ipo of
         None \<Rightarrow> Ok (-1, s4)
       | Some ip \<Rightarrow>
     rbind (filealloc c s4) (\<lambda>(fo, s5).
       case fo of
         None \<Rightarrow> open_fail c ip s5
       | Some f \<Rightarrow>
     rbind (fdalloc c f s5) (\<lambda>(fd, s6).
     if fd < 0 then rbind (fileclose c f s6) (open_fail c ip)
     else rbind (iunlock c (Some ip) s6) (\<lambda>s7.
          rbind (end_op c s7) (\<lambda>s8.
          Ok (fd, fupd f (\<lambda>x. x\<lparr>f_type := FD_INODE, f_ip := Some ip, f_off := 0,
                               f_readable := (omode AND O_WRONLY = 0),
                               f_writable := (omode AND O_WRONLY \<noteq> 0 \<or> omode AND O_RDWR \<noteq> 0)\<rparr>) s8)))))))))"

text \<open>The end of \<open>mkdir\<close> and \<open>mknod\<close>.\<close>

definition made :: "nat \<Rightarrow> ptr \<Rightarrow> 'a con_st_scheme \<Rightarrow> (int \<times> 'a con_st_scheme) res" where
  "made c ipo s =
     (case ipo of
        None \<Rightarrow> rbind (end_op c s) (\<lambda>s1. Ok (-1, s1))
      | Some ip \<Rightarrow> rbind (iunlockput c ipo s) (\<lambda>s1. rbind (end_op c s1) (\<lambda>s2. Ok (0, s2))))"

definition sys_mkdir :: "nat \<Rightarrow> 'a file_st_scheme \<Rightarrow> (int \<times> 'a file_st_scheme) res" where
  "sys_mkdir c s =
     rbind (begin_op c s) (\<lambda>s1.
     rbind (argstr c 0 s1) (\<lambda>(r0, s2).
       case r0 of
         None \<Rightarrow> made c None s2
       | Some path \<Rightarrow> rbind (create c path T_DIR 0 0 s2) (\<lambda>(ipo, s3). made c ipo s3)))"

definition sys_mknod :: "nat \<Rightarrow> 'a file_st_scheme \<Rightarrow> (int \<times> 'a file_st_scheme) res" where
  "sys_mknod c s =
     rbind (begin_op c s) (\<lambda>s1.
     rbind (argstr c 0 s1) (\<lambda>(r0, s2).
       case r0 of
         None \<Rightarrow> made c None s2
       | Some path \<Rightarrow>
     rbind (argint c 1 s2) (\<lambda>(r1, s3).
       case r1 of
         None \<Rightarrow> made c None s3
       | Some maj \<Rightarrow>
     rbind (argint c 2 s3) (\<lambda>(r2, s4).
       case r2 of
         None \<Rightarrow> made c None s4
       | Some mnr \<Rightarrow>
           rbind (create c path T_DEV (ucast maj) (ucast mnr) s4) (\<lambda>(ipo, s5). made c ipo s5)))))"

definition sys_chdir :: "nat \<Rightarrow> 'a file_st_scheme \<Rightarrow> (int \<times> 'a file_st_scheme) res" where
  "sys_chdir c s =
     curproc c s (\<lambda>p s0.
     rbind (begin_op c s0) (\<lambda>s1.
     rbind (argstr c 0 s1) (\<lambda>(r0, s2).
       case r0 of
         None \<Rightarrow> rbind (end_op c s2) (\<lambda>s3. Ok (-1, s3))
       | Some path \<Rightarrow>
     rbind (namei c path s2) (\<lambda>(ipo, s3).
       case ipo of
         None \<Rightarrow> rbind (end_op c s3) (\<lambda>s4. Ok (-1, s4))
       | Some ip \<Rightarrow>
     rbind (ilock c ipo s3) (\<lambda>s4.
     if i_type (inode s4 ip) \<noteq> T_DIR
     then rbind (iunlockput c ipo s4) (\<lambda>s5. rbind (end_op c s5) (\<lambda>s6. Ok (-1, s6)))
     else rbind (iunlock c ipo s4) (\<lambda>s5.
          rbind (iput c (cwd (proc s5 p)) s5) (\<lambda>s6.
          rbind (end_op c s6) (\<lambda>s7.
          Ok (0, pupd p (\<lambda>x. x\<lparr>cwd := ipo\<rparr>) s7)))))))))"

section \<open>exec and pipe\<close>

text \<open>The loop that fetches \<open>argv\<close>: the value is the list of strings, \<open>None\<close> a return of \<open>-1\<close>.\<close>

definition sys_exec_body ::
  "nat \<Rightarrow> uint \<Rightarrow> nat \<times> byte list list \<times> 'a pt_st_scheme \<Rightarrow>
   ((byte list list option \<times> 'a pt_st_scheme) + (nat \<times> byte list list \<times> 'a pt_st_scheme)) res" where
  "sys_exec_body c uargv = (\<lambda>(i, argv, s).
     if i \<ge> MAXARG then Ok (Inl (None, s))
     else rbind (fetchint c (uargv + 4 * of_nat i) s) (\<lambda>(r, s1).
       case r of
         None \<Rightarrow> Ok (Inl (None, s1))
       | Some uarg \<Rightarrow>
           if uarg = 0 then Ok (Inl (Some argv, s1))
           else rbind (fetchstr c uarg s1) (\<lambda>(rs, s2).
                  case rs of None \<Rightarrow> Ok (Inl (None, s2)) | Some bs \<Rightarrow> Ok (Inr (i + 1, argv @ [bs], s2)))))"

definition sys_exec :: "nat \<Rightarrow> 'a file_st_scheme \<Rightarrow> (int \<times> 'a file_st_scheme) res" where
  "sys_exec c s =
     rbind (argstr c 0 s) (\<lambda>(r0, s1).
       case r0 of
         None \<Rightarrow> Ok (-1, s1)
       | Some path \<Rightarrow>
     rbind (argint c 1 s1) (\<lambda>(r1, s2).
       case r1 of
         None \<Rightarrow> Ok (-1, s2)
       | Some uargv \<Rightarrow>
     rbind (loop_res (sys_exec_body c uargv) (0, [], s2)) (\<lambda>(r, s3).
       case r of None \<Rightarrow> Ok (-1, s3) | Some argv \<Rightarrow> exec c path argv s3)))"

definition sys_pipe :: "nat \<Rightarrow> 'a file_st_scheme \<Rightarrow> (int \<times> 'a file_st_scheme) res" where
  "sys_pipe c s =
     rbind (argptr c 0 8 s) (\<lambda>(r0, s1).
       case r0 of
         None \<Rightarrow> Ok (-1, s1)
       | Some a \<Rightarrow>
     rbind (pipealloc c s1) (\<lambda>(r, rfo, wfo, s2).
     if r < 0 then Ok (-1, s2)
     else deref rfo (\<lambda>rf. deref wfo (\<lambda>wf.
       rbind (fdalloc c rf s2) (\<lambda>(fd0, s3).
       rbind (if fd0 < 0 then Ok (-1, s3) else fdalloc c wf s3) (\<lambda>(fd1, s4).
       if fd1 < 0 then
         rbind (if fd0 \<ge> 0 then curproc c s4 (\<lambda>p s5. Ok (pupd p (\<lambda>x. x\<lparr>ofile := (ofile x)(nat fd0 := None)\<rparr>) s5))
                else Ok s4) (\<lambda>s6.
         rbind (fileclose c rf s6) (\<lambda>s7.
         rbind (fileclose c wf s7) (\<lambda>s8. Ok (-1, s8))))
       else
         rbind (vstore_bytes c a (word_bytes (word_of_int fd0)) s4) (\<lambda>s5.
         rbind (vstore_bytes c (a + 4) (word_bytes (word_of_int fd1)) s5) (\<lambda>s6. Ok (0, s6)))))))))"

end
