(* ===== verification/Kbd.thy ===== *)
theory Kbd
  imports Console
begin

unbundle bit_operations_syntax

text \<open>
  The keyboard driver (\<open>kbd.c\<close>, \<open>kbd.h\<close>): scan codes to characters.  The key maps are the
  tables of the header; an entry that is not initialised is 0.  The static \<open>shift\<close> and the
  scan codes waiting in the controller are part of the state.
\<close>

definition SHIFT :: uint where "SHIFT = 1"
definition CTL :: uint where "CTL = 2"
definition ALT :: uint where "ALT = 4"
definition CAPSLOCK :: uint where "CAPSLOCK = 8"
definition NUMLOCK :: uint where "NUMLOCK = 16"
definition SCROLLLOCK :: uint where "SCROLLLOCK = 32"
definition E0ESC :: uint where "E0ESC = 64"

text \<open>A C array with an initial segment and designated elements.\<close>

definition c_table :: "byte list \<Rightarrow> (nat \<times> byte) list \<Rightarrow> nat \<Rightarrow> byte" where
  "c_table xs ds i =
     (case map_of ds i of Some v \<Rightarrow> v | None \<Rightarrow> if i < length xs then xs ! i else 0)"

definition shiftcode :: "nat \<Rightarrow> byte" where
  "shiftcode = c_table [] [(0x1D, 2), (0x2A, 1), (0x36, 1), (0x38, 4), (0x9D, 2), (0xB8, 4)]"

definition togglecode :: "nat \<Rightarrow> byte" where
  "togglecode = c_table [] [(0x3A, 8), (0x45, 16), (0x46, 32)]"

definition normalmap :: "nat \<Rightarrow> byte" where
  "normalmap = c_table
    [0, 27, 49, 50, 51, 52, 53, 54,
     55, 56, 57, 48, 45, 61, 8, 9,
     113, 119, 101, 114, 116, 121, 117, 105,
     111, 112, 91, 93, 10, 0, 97, 115,
     100, 102, 103, 104, 106, 107, 108, 59,
     39, 96, 0, 92, 122, 120, 99, 118,
     98, 110, 109, 44, 46, 47, 0, 42,
     0, 32, 0, 0, 0, 0, 0, 0,
     0, 0, 0, 0, 0, 0, 0, 55,
     56, 57, 45, 52, 53, 54, 43, 49,
     50, 51, 48, 46, 0, 0, 0, 0]
    [(0x9C, 10), (0xB5, 47), (0xC8, 0xe2), (0xD0, 0xe3), (0xC9, 0xe6), (0xD1, 0xe7), (0xCB, 0xe4), (0xCD, 0xe5), (0x97, 0xe0), (0xCF, 0xe1), (0xD2, 0xe8), (0xD3, 0xe9)]"

definition shiftmap :: "nat \<Rightarrow> byte" where
  "shiftmap = c_table
    [0, 27, 33, 64, 35, 36, 37, 94,
     38, 42, 40, 41, 95, 43, 8, 9,
     81, 87, 69, 82, 84, 89, 85, 73,
     79, 80, 123, 125, 10, 0, 65, 83,
     68, 70, 71, 72, 74, 75, 76, 58,
     34, 126, 0, 124, 90, 88, 67, 86,
     66, 78, 77, 60, 62, 63, 0, 42,
     0, 32, 0, 0, 0, 0, 0, 0,
     0, 0, 0, 0, 0, 0, 0, 55,
     56, 57, 45, 52, 53, 54, 43, 49,
     50, 51, 48, 46, 0, 0, 0, 0]
    [(0x9C, 10), (0xB5, 47), (0xC8, 0xe2), (0xD0, 0xe3), (0xC9, 0xe6), (0xD1, 0xe7), (0xCB, 0xe4), (0xCD, 0xe5), (0x97, 0xe0), (0xCF, 0xe1), (0xD2, 0xe8), (0xD3, 0xe9)]"

definition ctlmap :: "nat \<Rightarrow> byte" where
  "ctlmap = c_table
    [0, 0, 0, 0, 0, 0, 0, 0,
     0, 0, 0, 0, 0, 0, 0, 0,
     17, 23, 5, 18, 20, 25, 21, 9,
     15, 16, 0, 0, 13, 0, 1, 19,
     4, 6, 7, 8, 10, 11, 12, 0,
     0, 0, 0, 28, 26, 24, 3, 22,
     2, 14, 13, 0, 0, 239, 0, 0]
    [(0x9C, 13), (0xB5, 0xef), (0xC8, 0xe2), (0xD0, 0xe3), (0xC9, 0xe6), (0xD1, 0xe7), (0xCB, 0xe4), (0xCD, 0xe5), (0x97, 0xe0), (0xCF, 0xe1), (0xD2, 0xe8), (0xD3, 0xe9)]"

definition charcode :: "uint \<Rightarrow> nat \<Rightarrow> byte" where
  "charcode k = (if k = 0 then normalmap else if k = 1 then shiftmap else ctlmap)"

text \<open>The character of a scan code under the modifiers \<open>sh\<close>, with caps lock applied.\<close>

definition key_char :: "uint \<Rightarrow> uint \<Rightarrow> uint" where
  "key_char sh d =
     (let ch = ucast (charcode (sh AND (CTL OR SHIFT)) (unat d))
      in if sh AND CAPSLOCK \<noteq> 0 then
           (if 97 \<le> ch \<and> ch \<le> 122 then ch - 32 else if 65 \<le> ch \<and> ch \<le> 90 then ch + 32 else ch)
         else ch)"

text \<open>One scan code: the character, or 0, and the new value of \<open>shift\<close>.\<close>

definition kbd_code :: "byte \<Rightarrow> uint \<Rightarrow> int \<times> uint" where
  "kbd_code b sh =
     (let d = ucast b :: uint
      in if d = 0xE0 then (0, sh OR E0ESC)
         else if d AND 0x80 \<noteq> 0 then
           let d = (if sh AND E0ESC \<noteq> 0 then d else d AND 0x7F)
           in (0, sh AND NOT (ucast (shiftcode (unat d)) OR E0ESC))
         else
           let (d, sh) = (if sh AND E0ESC \<noteq> 0 then (d OR 0x80, sh AND NOT E0ESC) else (d, sh));
               sh = sh OR ucast (shiftcode (unat d));
               sh = sh XOR ucast (togglecode (unat d))
           in (int_of (key_char sh d), sh))"

definition kbdgetc :: "'a con_st_scheme \<Rightarrow> int \<times> 'a con_st_scheme" where
  "kbdgetc s =
     (case kbd_in s of
        [] \<Rightarrow> (-1, s)
      | b # bs \<Rightarrow> (case kbd_code b (kbd_shift s) of (ch, sh) \<Rightarrow> (ch, s\<lparr>kbd_in := bs, kbd_shift := sh\<rparr>)))"

definition kbdintr :: "nat \<Rightarrow> 'a con_st_scheme \<Rightarrow> 'a con_st_scheme res" where
  "kbdintr c s = consoleintr c kbdgetc s"

end
