(* ===== verification/Sysproc.thy ===== *)
theory Sysproc
  imports Sysfile Kbd
begin

unbundle bit_operations_syntax

text \<open>
  The process system calls (\<open>sysproc.c\<close>), \<open>cmostime\<close> of \<open>lapic.c\<close>, the dispatcher (\<open>syscall.c\<close>)
  and the trap handler (\<open>trap.c\<close>).  A call that gives up the CPU before it is finished ends
  in \<open>sched\<close>; its outcome is \<open>Away\<close> with the interrupt flag \<open>sched\<close> saved and the state the
  scheduler takes over.
\<close>

datatype 's outcome = Done int 's | Away uint 's

definition finish :: "(int \<times> 's) res \<Rightarrow> 's outcome res" where
  "finish m = rbind m (\<lambda>(r, s). Ok (Done r s))"

definition away :: "(uint \<times> 's) res \<Rightarrow> 's outcome res" where
  "away m = rbind m (\<lambda>(ie, s). Ok (Away ie s))"

section \<open>lapic.c: cmostime\<close>

record rtcdate =
  second :: uint
  minute :: uint
  hour :: uint
  day :: uint
  month :: uint
  year :: uint

definition fill_rtcdate :: "(uint \<Rightarrow> uint) \<Rightarrow> rtcdate" where
  "fill_rtcdate cm = \<lparr>second = cm 0x00, minute = cm 0x02, hour = cm 0x04, day = cm 0x07, month = cm 0x08, year = cm 0x09\<rparr>"

definition bcd_conv :: "uint \<Rightarrow> uint" where
  "bcd_conv x = drop_bit 4 x * 10 + (x AND 0xf)"

text \<open>
  The registers do not change while they are read here; with an update in progress the
  loop goes on forever.
\<close>

definition cmostime :: "(uint \<Rightarrow> uint) \<Rightarrow> rtcdate res" where
  "cmostime cm =
     (if cm 0x0a AND 0x80 \<noteq> 0 then Hang
      else let t = fill_rtcdate cm;
               t = (if cm 0x0b AND 4 = 0
                    then \<lparr>second = bcd_conv (second t), minute = bcd_conv (minute t), hour = bcd_conv (hour t),
                          day = bcd_conv (day t), month = bcd_conv (month t), year = bcd_conv (year t)\<rparr>
                    else t)
           in Ok (t\<lparr>year := year t + 2000\<rparr>))"

definition rtc_bytes :: "rtcdate \<Rightarrow> byte list" where
  "rtc_bytes t = concat (map word_bytes [second t, minute t, hour t, day t, month t, year t])"

section \<open>sysproc.c\<close>

definition sys_fork :: "nat \<Rightarrow> 'a file_st_scheme \<Rightarrow> (int \<times> 'a file_st_scheme) res" where
  "sys_fork c s = fork c s"

definition sys_exit :: "nat \<Rightarrow> 'a file_st_scheme \<Rightarrow> 'a file_st_scheme outcome res" where
  "sys_exit c s = away (exit_enter c s)"

definition sys_wait :: "nat \<Rightarrow> 'a pt_st_scheme \<Rightarrow> 'a pt_st_scheme outcome res" where
  "sys_wait c s = rbind (wait_enter c s) (\<lambda>(r, s1). Ok (case r of Inl v \<Rightarrow> Done v s1 | Inr ie \<Rightarrow> Away ie s1))"

definition sys_kill :: "nat \<Rightarrow> 'a pt_st_scheme \<Rightarrow> (int \<times> 'a pt_st_scheme) res" where
  "sys_kill c s = rbind (argint c 0 s) (\<lambda>(r, s1). case r of None \<Rightarrow> Ok (-1, s1) | Some pd \<Rightarrow> kill c pd s1)"

definition sys_getpid :: "nat \<Rightarrow> 'a pt_st_scheme \<Rightarrow> (int \<times> 'a pt_st_scheme) res" where
  "sys_getpid c s = curproc c s (\<lambda>p s1. Ok (int_of (pid (proc s1 p)), s1))"

definition sys_sbrk :: "nat \<Rightarrow> 'a pt_st_scheme \<Rightarrow> (int \<times> 'a pt_st_scheme) res" where
  "sys_sbrk c s =
     rbind (argint c 0 s) (\<lambda>(r, s1).
       case r of
         None \<Rightarrow> Ok (-1, s1)
       | Some n \<Rightarrow>
           curproc c s1 (\<lambda>p s2.
           let addr = int_of (sz (proc s2 p))
           in rbind (growproc c n s2) (\<lambda>(v, s3). Ok (if v < 0 then -1 else addr, s3))))"

text \<open>
  One test of the loop condition of \<open>sys_sleep\<close>: \<open>ticks - ticks0 < n\<close> compares unsigned.
  A process that is resumed tests it again.
\<close>

definition sleep_round :: "nat \<Rightarrow> uint \<Rightarrow> uint \<Rightarrow> 'a pt_st_scheme \<Rightarrow> 'a pt_st_scheme outcome res" where
  "sleep_round c ticks0 n s =
     (if ticks s - ticks0 < n then
        curproc c s (\<lambda>p s1.
        if killed (proc s1 p) then Ok (Done (-1) s1) else away (sleep_enter c Ch_ticks NoLock s1))
      else Ok (Done 0 s))"

definition sys_sleep :: "nat \<Rightarrow> 'a pt_st_scheme \<Rightarrow> 'a pt_st_scheme outcome res" where
  "sys_sleep c s =
     rbind (argint c 0 s) (\<lambda>(r, s1).
       case r of None \<Rightarrow> Ok (Done (-1) s1) | Some n \<Rightarrow> sleep_round c (ticks s1) n s1)"

definition sys_sleep_resume ::
  "nat \<Rightarrow> nat \<Rightarrow> uint \<Rightarrow> uint \<Rightarrow> uint \<Rightarrow> 'a pt_st_scheme \<Rightarrow> 'a pt_st_scheme outcome res" where
  "sys_sleep_resume c p ie ticks0 n s = rbind (sleep_exit c p ie NoLock s) (sleep_round c ticks0 n)"

definition sys_uptime :: "'a pt_st_scheme \<Rightarrow> (int \<times> 'a pt_st_scheme) res" where
  "sys_uptime s = Ok (int_of (ticks s), s)"

definition sys_halt :: "nat \<Rightarrow> 'a sys_st_scheme \<Rightarrow> (int \<times> 'a sys_st_scheme) res" where
  "sys_halt c s =
     rbind (cprintf c (lit ''Shutting down ...'' @ [10]) [] s) (\<lambda>s1. Ok (0, s1\<lparr>powered_off := True\<rparr>))"

definition sys_date :: "nat \<Rightarrow> 'a sys_st_scheme \<Rightarrow> (int \<times> 'a sys_st_scheme) res" where
  "sys_date c s =
     rbind (argptr c 0 24 s) (\<lambda>(r, s1).
       case r of
         None \<Rightarrow> Ok (-1, s1)
       | Some a \<Rightarrow> rbind (cmostime (cmos s1)) (\<lambda>t. rbind (vstore_bytes c a (rtc_bytes t) s1) (\<lambda>s2. Ok (0, s2))))"

definition sys_getuid :: "nat \<Rightarrow> 'a pt_st_scheme \<Rightarrow> (int \<times> 'a pt_st_scheme) res" where
  "sys_getuid c s = curproc c s (\<lambda>p s1. Ok (int_of (uid (proc s1 p)), s1))"

definition sys_getgid :: "nat \<Rightarrow> 'a pt_st_scheme \<Rightarrow> (int \<times> 'a pt_st_scheme) res" where
  "sys_getgid c s = curproc c s (\<lambda>p s1. Ok (int_of (gid (proc s1 p)), s1))"

definition sys_getppid :: "nat \<Rightarrow> 'a pt_st_scheme \<Rightarrow> (int \<times> 'a pt_st_scheme) res" where
  "sys_getppid c s =
     curproc c s (\<lambda>p s1.
     Ok (int_of (case parent (proc s1 p) of None \<Rightarrow> pid (proc s1 p) | Some q \<Rightarrow> pid (proc s1 q)), s1))"

text \<open>
  The calls below ignore a failure of \<open>argint\<close>: they go on with the uninitialised local
  variable, whose value is the parameter \<open>junk\<close>.
\<close>

definition argint_or :: "nat \<Rightarrow> nat \<Rightarrow> uint \<Rightarrow> 'a pt_st_scheme \<Rightarrow> (uint \<times> 'a pt_st_scheme) res" where
  "argint_or c n junk s = rbind (argint c n s) (\<lambda>(r, s1). Ok (case r of None \<Rightarrow> junk | Some v \<Rightarrow> v, s1))"

definition sys_setuid :: "nat \<Rightarrow> uint \<Rightarrow> 'a pt_st_scheme \<Rightarrow> (int \<times> 'a pt_st_scheme) res" where
  "sys_setuid c junk s =
     curproc c s (\<lambda>p s1.
     rbind (argint_or c 0 junk s1) (\<lambda>(v, s2).
     if int_of v \<ge> 0 \<and> int_of v \<le> 32767 then Ok (0, pupd p (\<lambda>x. x\<lparr>uid := v\<rparr>) s2) else Ok (-1, s2)))"

definition sys_setgid :: "nat \<Rightarrow> uint \<Rightarrow> 'a pt_st_scheme \<Rightarrow> (int \<times> 'a pt_st_scheme) res" where
  "sys_setgid c junk s =
     curproc c s (\<lambda>p s1.
     rbind (argint_or c 0 junk s1) (\<lambda>(v, s2).
     if int_of v \<ge> 0 \<and> int_of v \<le> 32767 then Ok (0, pupd p (\<lambda>x. x\<lparr>gid := v\<rparr>) s2) else Ok (-1, s2)))"

text \<open>The bytes of a \<open>struct uproc\<close>.\<close>

definition sizeof_uproc :: nat where "sizeof_uproc = 100"

definition uproc_bytes :: "uproc \<Rightarrow> byte list" where
  "uproc_bytes u =
     concat (map word_bytes [u_pid u, u_uid u, u_gid u, u_ppid u, u_elapsed_ticks u, u_CPU_total_ticks u]) @
     u_state u @ word_bytes (u_size u) @ u_name u @ word_bytes (u_priority u) @ word_bytes (u_budget u)"

definition uproc_of :: "byte list \<Rightarrow> uproc" where
  "uproc_of d = \<lparr>u_pid = ldw d 0, u_uid = ldw d 4, u_gid = ldw d 8, u_ppid = ldw d 12, u_elapsed_ticks = ldw d 16,
     u_CPU_total_ticks = ldw d 20, u_state = take STRMAX (drop 24 d), u_size = ldw d 56,
     u_name = take STRMAX (drop 60 d), u_priority = ldw d 92, u_budget = ldw d 96\<rparr>"

text \<open>
  \<open>getprocs\<close> on the table at \<open>a\<close> in user memory.  An entry is written only where the loop
  filled one; the bytes it does not assign keep their value.
\<close>

definition user_table :: "nat \<Rightarrow> uint \<Rightarrow> 'a kmem_st_scheme \<Rightarrow> nat \<Rightarrow> uproc" where
  "user_table c a s i =
     (case vload_bytes c (a + of_nat (sizeof_uproc * i)) sizeof_uproc s of
        Ok bs \<Rightarrow> uproc_of bs | _ \<Rightarrow> uproc_of (replicate sizeof_uproc 0))"

definition sys_getprocs :: "nat \<Rightarrow> uint \<Rightarrow> 'a pt_st_scheme \<Rightarrow> (int \<times> 'a pt_st_scheme) res" where
  "sys_getprocs c junk s =
     rbind (argint_or c 0 junk s) (\<lambda>(mx, s1).
     if int_of mx < 0 then Ok (-1, s1)
     else rbind (argptr c 1 (of_nat sizeof_uproc * mx) s1) (\<lambda>(r, s2).
       case r of
         None \<Rightarrow> Ok (-1, s2)
       | Some a \<Rightarrow>
           rbind (getprocs c mx (user_table c a s2) s2) (\<lambda>(v, tab, s3).
           rbind (for_each (\<lambda>i s. rbind (vstore_bytes c (a + of_nat (sizeof_uproc * i)) (uproc_bytes (tab i)) s)
                                     (\<lambda>s'. Ok (None :: unit option, s')))
                    [0..<nat v] s3) (\<lambda>(_, s4). Ok (v, s4)))))"

definition sys_setpriority :: "nat \<Rightarrow> uint \<Rightarrow> uint \<Rightarrow> 'a pt_st_scheme \<Rightarrow> (int \<times> 'a pt_st_scheme) res" where
  "sys_setpriority c junk1 junk2 s =
     rbind (argint_or c 0 junk1 s) (\<lambda>(pd, s1).
     rbind (argint_or c 1 junk2 s1) (\<lambda>(pr, s2). setpriority c pd pr s2))"

definition sys_getpriority :: "nat \<Rightarrow> uint \<Rightarrow> 'a pt_st_scheme \<Rightarrow> (int \<times> 'a pt_st_scheme) res" where
  "sys_getpriority c junk s = rbind (argint_or c 0 junk s) (\<lambda>(pd, s1). getpriority c pd s1)"

section \<open>syscall.c: the dispatcher\<close>

text \<open>The table \<open>syscalls[]\<close>; the stack garbage two of the calls may read is a parameter.\<close>

definition syscalls :: "nat \<Rightarrow> uint \<Rightarrow> uint \<Rightarrow> (nat \<times> ('a sys_st_scheme \<Rightarrow> 'a sys_st_scheme outcome res)) list" where
  "syscalls c j1 j2 =
     [(1, \<lambda>s. finish (sys_fork c s)), (2, sys_exit c), (3, sys_wait c), (4, \<lambda>s. finish (sys_pipe c s)),
      (5, \<lambda>s. finish (sys_read c s)), (6, \<lambda>s. finish (sys_kill c s)), (7, \<lambda>s. finish (sys_exec c s)),
      (8, \<lambda>s. finish (sys_fstat c s)), (9, \<lambda>s. finish (sys_chdir c s)), (10, \<lambda>s. finish (sys_dup c s)),
      (11, \<lambda>s. finish (sys_getpid c s)), (12, \<lambda>s. finish (sys_sbrk c s)), (13, sys_sleep c),
      (14, \<lambda>s. finish (sys_uptime s)), (15, \<lambda>s. finish (sys_open c s)), (16, \<lambda>s. finish (sys_write c s)),
      (17, \<lambda>s. finish (sys_mknod c s)), (18, \<lambda>s. finish (sys_unlink c s)), (19, \<lambda>s. finish (sys_link c s)),
      (20, \<lambda>s. finish (sys_mkdir c s)), (21, \<lambda>s. finish (sys_close c s)), (22, \<lambda>s. finish (sys_halt c s)),
      (23, \<lambda>s. finish (sys_date c s)), (24, \<lambda>s. finish (sys_getuid c s)), (25, \<lambda>s. finish (sys_getgid c s)),
      (26, \<lambda>s. finish (sys_getppid c s)), (27, \<lambda>s. finish (sys_setuid c j1 s)), (28, \<lambda>s. finish (sys_setgid c j1 s)),
      (29, \<lambda>s. finish (sys_getprocs c j1 s)), (30, \<lambda>s. finish (sys_setpriority c j1 j2 s)),
      (31, \<lambda>s. finish (sys_getpriority c j1 s))]"

definition set_eax :: "nat \<Rightarrow> int \<Rightarrow> 'a pt_st_scheme \<Rightarrow> 'a pt_st_scheme" where
  "set_eax p v s = s\<lparr>mem := st32 (mem s) (tf (proc s p) + tf_eax) (word_of_int v)\<rparr>"

definition syscall :: "nat \<Rightarrow> uint \<Rightarrow> uint \<Rightarrow> 'a sys_st_scheme \<Rightarrow> 'a sys_st_scheme outcome res" where
  "syscall c j1 j2 s =
     curproc c s (\<lambda>p s1.
     let num = ld32 (mem s1) (tf (proc s1 p) + tf_eax)
     in case (if int_of num > 0 then map_of (syscalls c j1 j2) (nat (int_of num)) else None) of
          Some f \<Rightarrow>
            rbind (f s1) (\<lambda>out. case out of Done r s2 \<Rightarrow> Ok (Done 0 (set_eax p r s2)) | Away ie s2 \<Rightarrow> Ok (Away ie s2))
        | None \<Rightarrow>
            rbind (cprintf c (lit ''%d %s: unknown sys call %d'' @ [10])
                     [CInt (pid (proc s1 p)), CStr (Some (pname (proc s1 p))), CInt num] s1) (\<lambda>s2.
            Ok (Done 0 (set_eax p (-1) s2))))"

section \<open>trap.c\<close>

definition T_SYSCALL :: uint where "T_SYSCALL = 64"
definition SCHED_INTERVAL :: uint where "SCHED_INTERVAL = 10"

text \<open>\<open>vectors\<close> is the table of entry points of the generated \<open>vectors.S\<close>.\<close>

definition tvinit :: "(nat \<Rightarrow> uint) \<Rightarrow> 'a sys_st_scheme \<Rightarrow> 'a sys_st_scheme" where
  "tvinit vectors s =
     (let s1 = fold (\<lambda>i s. s\<lparr>idt := (idt s)(i := SETGATE False (of_nat (SEG_KCODE * 8)) (vectors i) 0)\<rparr>) [0..<256] s
      in s1\<lparr>idt := (idt s1)(unat T_SYSCALL := SETGATE True (of_nat (SEG_KCODE * 8)) (vectors (unat T_SYSCALL)) DPL_USER)\<rparr>)"

text \<open>\<open>if(myproc() && myproc()->killed && (tf->cs&3) == DPL_USER) exit();\<close>\<close>

definition exit_if_killed ::
  "nat \<Rightarrow> bool \<Rightarrow> ('a sys_st_scheme \<Rightarrow> 'a sys_st_scheme outcome res) \<Rightarrow> 'a sys_st_scheme \<Rightarrow> 'a sys_st_scheme outcome res" where
  "exit_if_killed c user k s =
     rbind (myproc c s) (\<lambda>(po, s1).
     case po of
       Some p \<Rightarrow> if killed (proc s1 p) \<and> user then sys_exit c s1 else k s1
     | None \<Rightarrow> k s1)"

definition trap_syscall :: "nat \<Rightarrow> uint \<Rightarrow> uint \<Rightarrow> uint \<Rightarrow> 'a sys_st_scheme \<Rightarrow> 'a sys_st_scheme outcome res" where
  "trap_syscall c j1 j2 t s =
     curproc c s (\<lambda>p s1.
     if killed (proc s1 p) then sys_exit c s1
     else rbind (syscall c j1 j2 (pupd p (\<lambda>x. x\<lparr>tf := t\<rparr>) s1)) (\<lambda>out.
            case out of
              Away ie s2 \<Rightarrow> Ok (Away ie s2)
            | Done _ s2 \<Rightarrow> curproc c s2 (\<lambda>q s3. if killed (proc s3 q) then sys_exit c s3 else Ok (Done 0 s3))))"

text \<open>
  The \<open>switch\<close> of \<open>trap\<close>.  The acknowledgement of the interrupt at the local APIC has no
  effect on the model's state.  \<open>cr2\<close> is the faulting address, which is only printed.
\<close>

definition trap_switch :: "nat \<Rightarrow> uint \<Rightarrow> uint \<Rightarrow> 'a sys_st_scheme \<Rightarrow> 'a sys_st_scheme res" where
  "trap_switch c cr2 t s =
     (let no = ld32 (mem s) (t + tf_trapno); eip = ld32 (mem s) (t + tf_eip); cs = ld16 (mem s) (t + tf_cs)
      in if no = T_IRQ0 + IRQ_TIMER then
           (if c = 0 then wakeup c Ch_ticks (s\<lparr>ticks := ticks s + 1\<rparr>) else Ok s)
         else if no = T_IRQ0 + IRQ_IDE then ideintr c s
         else if no = T_IRQ0 + IRQ_IDE + 1 then Ok s
         else if no = T_IRQ0 + IRQ_KBD then kbdintr c s
         else if no = T_IRQ0 + IRQ_COM1 then uartintr c s
         else if no = T_IRQ0 + 7 \<or> no = T_IRQ0 + IRQ_SPURIOUS then
           cprintf c (lit ''cpu%d: spurious interrupt at %x:%x'' @ [10]) [CInt (of_nat c), CInt (ucast cs), CInt eip] s
         else rbind (myproc c s) (\<lambda>(po, s1).
           case po of
             None \<Rightarrow> Panic ''trap''
           | Some p \<Rightarrow>
               if cs AND 3 = 0 then Panic ''trap''
               else rbind (cprintf c (lit ''pid %d %s: trap %d err %d on cpu %d eip 0x%x addr 0x%x--kill proc'' @ [10])
                             [CInt (pid (proc s1 p)), CStr (Some (pname (proc s1 p))), CInt no,
                              CInt (ld32 (mem s1) (t + tf_err)), CInt (of_nat c), CInt eip, CInt cr2] s1) (\<lambda>s2.
                    Ok (pupd p (\<lambda>x. x\<lparr>killed := True\<rparr>) s2))))"

definition trap_tail :: "nat \<Rightarrow> bool \<Rightarrow> 'a sys_st_scheme \<Rightarrow> 'a sys_st_scheme outcome res" where
  "trap_tail c user s = exit_if_killed c user (\<lambda>s1. Ok (Done 0 s1)) s"

text \<open>
  The trap handler on the frame at \<open>t\<close>.  A process that yields continues with \<open>trap_tail\<close> when
  it runs again.
\<close>

definition trap :: "nat \<Rightarrow> uint \<Rightarrow> uint \<Rightarrow> uint \<Rightarrow> uint \<Rightarrow> 'a sys_st_scheme \<Rightarrow> 'a sys_st_scheme outcome res" where
  "trap c j1 j2 cr2 t s =
     (let no = ld32 (mem s) (t + tf_trapno); user = (ld16 (mem s) (t + tf_cs) AND 3 = ucast DPL_USER)
      in if no = T_SYSCALL then trap_syscall c j1 j2 t s
         else rbind (trap_switch c cr2 t s) (\<lambda>s1.
              exit_if_killed c user (\<lambda>s2.
                rbind (myproc c s2) (\<lambda>(po, s3).
                  case po of
                    Some p \<Rightarrow>
                      if state (proc s3 p) = RUNNING \<and> no = T_IRQ0 + IRQ_TIMER \<and> ticks s3 mod SCHED_INTERVAL = 0
                      then away (yield_enter c s3) else trap_tail c user s3
                  | None \<Rightarrow> trap_tail c user s3)) s1))"

end
