(* ===== verification/Tx.thy ===== *)
theory Tx
  imports Fs
begin

unbundle bit_operations_syntax

text \<open>
  The file system inside a transaction.  The locale is what \<open>fs.c\<close> relies on between
  \<open>begin_op\<close> and \<open>end_op\<close>: reading a block, changing it and handing it to \<open>log_write\<close>,
  releasing it.  Its lemmas are the two idioms of \<open>fs.c\<close>: read a block and release it; read,
  change, log and release it.
\<close>

locale transaction =
  fixes inv :: "'s \<Rightarrow> bool"
    and abs :: "'s \<Rightarrow> acache"
    and cap :: "'s \<Rightarrow> nat"
    and keeps :: "'s \<Rightarrow> 's \<Rightarrow> bool"
    and rd :: "uint \<Rightarrow> 's \<Rightarrow> (nat \<times> 's) res"
    and lw :: "nat \<Rightarrow> 's \<Rightarrow> 's res"
    and rel :: "nat \<Rightarrow> 's \<Rightarrow> 's res"
    and data :: "nat \<Rightarrow> 's \<Rightarrow> byte list"
    and setdata :: "nat \<Rightarrow> byte list \<Rightarrow> 's \<Rightarrow> 's"
    and R :: "uint set"
  assumes keeps_refl: "keeps s s"
    and keeps_trans: "keeps s t \<Longrightarrow> keeps t r \<Longrightarrow> keeps s r"
    and rd_law: "inv s \<Longrightarrow> n < FSSIZE \<Longrightarrow> ac_held (abs s) n = None \<Longrightarrow>
      n \<in> ac_pin (abs s) \<or> card (ac_busy (abs s)) < NBUF \<Longrightarrow>
      \<exists>b s'. rd n s = Ok (b, s') \<and> inv s' \<and> keeps s s' \<and> abs s' = ac_read n b (abs s) \<and> cap s' = cap s"
    and lw_law: "inv s \<Longrightarrow> ac_held (abs s) n = Some b \<Longrightarrow> n \<notin> R \<Longrightarrow> 0 < cap s \<Longrightarrow>
      \<exists>s'. lw b s = Ok s' \<and> inv s' \<and> keeps s s' \<and> abs s' = ac_mark n (abs s) \<and>
           cap s' = (if n \<in> ac_pin (abs s) then cap s else cap s - 1)"
    and rel_law: "inv s \<Longrightarrow> ac_held (abs s) n = Some b \<Longrightarrow>
      n \<in> ac_pin (abs s) \<or> ac_view (abs s) n = ac_disk (abs s) n \<Longrightarrow>
      \<exists>s'. rel b s = Ok s' \<and> inv s' \<and> keeps s s' \<and> abs s' = ac_release n (abs s) \<and> cap s' = cap s"
    and data_law: "inv s \<Longrightarrow> ac_held (abs s) n = Some b \<Longrightarrow> data b s = ac_view (abs s) n"
    and setdata_law: "inv s \<Longrightarrow> ac_held (abs s) n = Some b \<Longrightarrow> length d = BSIZE \<Longrightarrow>
      inv (setdata b d s) \<and> keeps s (setdata b d s) \<and> abs (setdata b d s) = ac_set n d (abs s) \<and> cap (setdata b d s) = cap s"
    and coherent: "inv s \<Longrightarrow> ac_held (abs s) n = None \<Longrightarrow> n \<notin> ac_pin (abs s) \<Longrightarrow> ac_view (abs s) n = ac_disk (abs s) n"
    and sized: "inv s \<Longrightarrow> length (ac_view (abs s) n) = BSIZE"
    and pins: "inv s \<Longrightarrow> finite (ac_pin (abs s)) \<and> card (ac_pin (abs s)) + cap s < NBUF"
begin

lemma room:
  assumes "inv s" "finite (dom (ac_held (abs s)))" "card (dom (ac_held (abs s))) \<le> cap s"
  shows "card (ac_busy (abs s)) < NBUF"
proof -
  have "card (ac_busy (abs s)) \<le> card (dom (ac_held (abs s))) + card (ac_pin (abs s))"
    unfolding ac_busy_def by (rule card_Un_le)
  then show ?thesis using pins[OF assms(1)] assms(3) by linarith
qed

lemma look:
  assumes "inv s" "n < FSSIZE" "ac_held (abs s) n = None" "n \<in> ac_pin (abs s) \<or> card (ac_busy (abs s)) < NBUF"
  shows "\<exists>b s1. rd n s = Ok (b, s1) \<and> inv s1 \<and> keeps s s1 \<and> abs s1 = ac_read n b (abs s) \<and> cap s1 = cap s \<and>
    data b s1 = ac_view (abs s) n \<and> ac_held (abs s1) n = Some b"
proof -
  obtain b s1 where s1: "rd n s = Ok (b, s1)" "inv s1" "keeps s s1" "abs s1 = ac_read n b (abs s)" "cap s1 = cap s"
    using rd_law[OF assms] by blast
  have h: "ac_held (abs s1) n = Some b" by (simp add: s1(4) ac_read_def)
  then have "data b s1 = ac_view (abs s) n" using data_law[OF s1(2) h] by (simp add: s1(4) ac_read_def)
  then show ?thesis using s1 h by blast
qed

lemma read_released:
  assumes "inv s" "n < FSSIZE" "ac_held (abs s) n = None" "n \<in> ac_pin (abs s) \<or> card (ac_busy (abs s)) < NBUF"
  shows "\<exists>b s1 s2. rd n s = Ok (b, s1) \<and> data b s1 = ac_view (abs s) n \<and> rel b s1 = Ok s2 \<and>
    inv s1 \<and> inv s2 \<and> keeps s s1 \<and> keeps s s2 \<and> abs s2 = abs s \<and> cap s2 = cap s"
proof -
  obtain b s1 where s1: "rd n s = Ok (b, s1)" "inv s1" "keeps s s1" "abs s1 = ac_read n b (abs s)" "cap s1 = cap s"
      "data b s1 = ac_view (abs s) n" "ac_held (abs s1) n = Some b"
    using look[OF assms] by blast
  have "n \<in> ac_pin (abs s1) \<or> ac_view (abs s1) n = ac_disk (abs s1) n"
    using coherent[OF assms(1,3)] by (auto simp: s1(4) ac_read_def)
  from rel_law[OF s1(2,7) this] obtain s2 where
    s2: "rel b s1 = Ok s2" "inv s2" "keeps s1 s2" "abs s2 = ac_release n (abs s1)" "cap s2 = cap s1" by blast
  have "abs s2 = abs s" using assms(3) by (simp add: s2(4) s1(4) ac_release_def ac_read_def fun_upd_idem)
  moreover have "keeps s s2" using s1(3) s2(3) by (rule keeps_trans)
  ultimately show ?thesis using s1 s2 by auto
qed

text \<open>A held block is changed, logged and released.\<close>

lemma edit_held:
  assumes "inv s" and h: "ac_held (abs s) n = Some b" and "n \<notin> R" "0 < cap s" "length d = BSIZE"
  shows "\<exists>s2 s3. lw b (setdata b d s) = Ok s2 \<and> rel b s2 = Ok s3 \<and> inv s2 \<and> inv s3 \<and> keeps s s2 \<and> keeps s s3 \<and>
    abs s2 = ac_mark n (ac_set n d (abs s)) \<and> abs s3 = ac_release n (ac_mark n (ac_set n d (abs s))) \<and>
    cap s3 = (if n \<in> ac_pin (abs s) then cap s else cap s - 1)"
proof -
  note t = setdata_law[OF assms(1) h assms(5)]
  let ?t = "setdata b d s"
  have ht: "ac_held (abs ?t) n = Some b" and c: "0 < cap ?t" using t h assms(4) by (simp_all add: ac_set_def)
  obtain s2 where s2: "lw b ?t = Ok s2" "inv s2" "keeps ?t s2" "abs s2 = ac_mark n (abs ?t)"
      "cap s2 = (if n \<in> ac_pin (abs ?t) then cap ?t else cap ?t - 1)"
    using lw_law[of ?t n b] t ht assms(3) c by blast
  have h2: "ac_held (abs s2) n = Some b" "n \<in> ac_pin (abs s2)" using ht by (simp_all add: s2(4) ac_mark_def)
  from rel_law[OF s2(2) h2(1)] h2(2) obtain s3 where
    s3: "rel b s2 = Ok s3" "inv s3" "keeps s2 s3" "abs s3 = ac_release n (abs s2)" "cap s3 = cap s2" by blast
  have "keeps s s2" using t s2(3) keeps_trans by blast
  moreover have "keeps s s3" using t s2(3) s3(3) keeps_trans by blast
  moreover have "cap s3 = (if n \<in> ac_pin (abs s) then cap s else cap s - 1)" using t by (simp add: s3(5) s2(5) ac_set_def)
  ultimately show ?thesis using s2 s3 t by simp
qed

lemma edit:
  assumes "inv s" "n < FSSIZE" "ac_held (abs s) n = None" "n \<in> ac_pin (abs s) \<or> card (ac_busy (abs s)) < NBUF"
    and "n \<notin> R" "0 < cap s" "length (f (ac_view (abs s) n)) = BSIZE"
  shows "\<exists>b s1 s2 s3. rd n s = Ok (b, s1) \<and> data b s1 = ac_view (abs s) n \<and> inv s1 \<and> keeps s s1 \<and>
    lw b (setdata b (f (data b s1)) s1) = Ok s2 \<and> rel b s2 = Ok s3 \<and>
    inv s3 \<and> keeps s s3 \<and> abs s3 = ac_mark n (ac_set n (f (ac_view (abs s) n)) (abs s)) \<and>
    cap s3 = (if n \<in> ac_pin (abs s) then cap s else cap s - 1)"
proof -
  obtain b s1 where s1: "rd n s = Ok (b, s1)" "inv s1" "keeps s s1" "abs s1 = ac_read n b (abs s)" "cap s1 = cap s"
      "data b s1 = ac_view (abs s) n" "ac_held (abs s1) n = Some b"
    using look[OF assms(1-4)] by blast
  have "0 < cap s1" "length (f (data b s1)) = BSIZE" using s1 assms(6,7) by simp_all
  from edit_held[OF s1(2,7) assms(5) this] obtain s2 s3 where
    s3: "lw b (setdata b (f (data b s1)) s1) = Ok s2" "rel b s2 = Ok s3" "inv s3" "keeps s1 s3"
      "abs s3 = ac_release n (ac_mark n (ac_set n (f (data b s1)) (abs s1)))"
      "cap s3 = (if n \<in> ac_pin (abs s1) then cap s1 else cap s1 - 1)" by blast
  have "abs s3 = ac_mark n (ac_set n (f (ac_view (abs s) n)) (abs s))"
    using assms(3) by (simp add: s3(5) s1(4,6) ac_release_def ac_read_def ac_mark_def ac_set_def fun_upd_idem)
  moreover have "cap s3 = (if n \<in> ac_pin (abs s) then cap s else cap s - 1)" by (simp add: s3(6) s1(4,5) ac_read_def)
  moreover have "keeps s s3" using s1(3) s3(4) keeps_trans by blast
  ultimately show ?thesis using s1 s3 by blast
qed

end

section \<open>The log and the buffer cache provide transactions\<close>

definition txinv :: "nat \<Rightarrow> uint \<Rightarrow> uint set \<Rightarrow> 'a log_st_scheme \<Rightarrow> bool" where
  "txinv c u R s \<longleftrightarrow> linv c u s \<and> free_lock (log_lock s) \<and> 0 < int_of (log_outstanding s) \<and> lregion s = R"

lemma txinv_binv: "txinv c u R s \<Longrightarrow> binv c u s"
  by (simp add: txinv_def linv_def)

definition tcap :: "'a log_st_scheme \<Rightarrow> nat" where
  "tcap s = unat (log_size s) - 1 - unat (lh_n s)"

lemma txinv_held:
  assumes "txinv c u R s" "bframe s t" "binv c u t" "ac_pin (babs t) = ac_pin (babs s)" "ac_disk (babs t) = ac_disk (babs s)"
  shows "txinv c u R t" "tcap t = tcap s"
  using assms bframe_log[OF assms(2)] by (auto simp: txinv_def linv_def lregion_def tcap_def)

lemma txinv_cap:
  assumes "txinv c u R s" "0 < tcap s"
  shows "unat (lh_n s) + 1 < unat (log_size s)"
  using assms(2) by (simp add: tcap_def)

lemma txinv_log_write:
  assumes t: "txinv c u R s" and h: "ac_held (babs s) n = Some b" and n: "n \<notin> R" and c: "0 < tcap s"
  shows "\<exists>s'. log_write c b s = Ok s' \<and> txinv c u R s' \<and> lframe s s' \<and> babs s' = ac_mark n (babs s) \<and>
    tcap s' = (if n \<in> ac_pin (babs s) then tcap s else tcap s - 1)"
proof -
  have l: "linv c u s" using t by (simp add: txinv_def)
  obtain s' where s': "log_write c b s = Ok s'" "linv c u s'" "babs s' = ac_mark n (babs s)" "log_lock s' = log_lock s"
    "log_outstanding s' = log_outstanding s" "log_start s' = log_start s" "log_size s' = log_size s"
    "lh_n s' = (if n \<in> ac_pin (babs s) then lh_n s else lh_n s + 1)" "lframe s s'"
    using log_write_ok[OF l _ h _ _ txinv_cap[OF t c]] t n by (auto simp: txinv_def)
  have "unat (lh_n s + 1) = unat (lh_n s) + 1"
    using lh_count(3)[OF l] by (simp add: unat_word_ariths LOGSIZE_def MAXOPBLOCKS_def)
  then have "tcap s' = (if n \<in> ac_pin (babs s) then tcap s else tcap s - 1)" using s'(7,8) by (simp add: tcap_def add.assoc)
  moreover have "txinv c u R s'" using t s' by (simp add: txinv_def lregion_def)
  ultimately show ?thesis using s' by blast
qed

lemma txinv_pins:
  assumes "txinv c u R s"
  shows "finite (ac_pin (babs s)) \<and> card (ac_pin (babs s)) + tcap s < NBUF"
proof -
  have l: "linv c u s" using assms by (simp add: txinv_def)
  have "card (lh_block s ` {..<unat (lh_n s)}) \<le> card {..<unat (lh_n s)}" by (rule card_image_le) simp
  then have "card (ac_pin (babs s)) \<le> unat (lh_n s)" using l by (simp add: linv_def)
  moreover have "unat (lh_n s) < unat (log_size s)" "unat (log_size s) \<le> NBUF"
    using l by (simp_all add: linv_def NBUF_def LOGSIZE_def)
  moreover have "finite (ac_pin (babs s))" using l by (simp add: linv_def)
  ultimately show ?thesis by (simp add: tcap_def)
qed

interpretation tx: transaction "txinv c u R" babs tcap lframe "bread c ROOTDEV" "log_write c" "brelse c"
    "\<lambda>b s. b_data (buf s b)" set_data R for c u R
proof (unfold_locales, goal_cases)
  case (1 s) show ?case by (rule lframe_refl)
next
  case (2 s t r) then show ?case by (rule lframe_trans)
next
  case (3 s n)
  then have "binv c u s" by (simp add: txinv_binv)
  from bread_law[OF this 3(2-4)] obtain b s' where
    s': "bread c ROOTDEV n s = Ok (b, s')" "binv c u s'" "bframe s s'" "babs s' = ac_read n b (babs s)" by blast
  then show ?case using txinv_held[OF 3(1) s'(3,2)] lframe_bframe by (auto simp: ac_read_def)
next
  case (4 s n b) then show ?case by (rule txinv_log_write)
next
  case (5 s n b)
  then have "binv c u s" by (simp add: txinv_binv)
  from brelse_law[OF this 5(2,3)] obtain s' where
    s': "brelse c b s = Ok s'" "binv c u s'" "bframe s s'" "babs s' = ac_release n (babs s)" by blast
  then show ?case using txinv_held[OF 5(1) s'(3,2)] lframe_bframe by (auto simp: ac_release_def)
next
  case (6 s n b) then show ?case by (intro bc.data_law[OF txinv_binv])
next
  case (7 s n b d)
  then have "binv c u s" by (simp add: txinv_binv)
  from bc.setdata_law[OF this 7(2,3)] show ?case
    using txinv_held[OF 7(1), of "set_data b d s"] lframe_bframe by (auto simp: ac_set_def)
next
  case (8 s n) then show ?case by (intro bc.coherent[OF txinv_binv])
next
  case (9 s n) then show ?case by (intro bc.sized[OF txinv_binv])
next
  case (10 s) then show ?case by (rule txinv_pins)
qed

end
