(* ===== verification/Life_Thms.thy ===== *)
theory Life_Thms
  imports Proc_Life Proc_Sched
begin

text \<open>
  The locked part of \<open>exit\<close> and a round of \<open>wait\<close> on a table that satisfies \<open>ptinv\<close>: whom \<open>exit\<close>
  wakes, who becomes a child of init, which child \<open>wait\<close> finds; and the table that
  \<open>initProcessLists\<close> and \<open>initFreeList\<close> leave.
\<close>

section \<open>Passing children to init\<close>

lemma has_mem_upd [simp]:
  "has_mem (charge_budget now x) = has_mem x" "has_mem (acct_proc now x) = has_mem x"
  "has_mem (x\<lparr>state := st\<rparr>) = has_mem x" "has_mem (x\<lparr>chan := ch\<rparr>) = has_mem x" "has_mem (x\<lparr>cpu_ticks_in := now\<rparr>) = has_mem x"
  by (simp_all add: has_mem_def)

definition adopt :: "nat \<Rightarrow> ptr \<Rightarrow> proc \<Rightarrow> proc" where
  "adopt cur ini x = (if parent x = Some cur then x\<lparr>parent := ini\<rparr> else x)"

lemma adopt_simps [simp]:
  "state (adopt cur ini x) = state x" "nxt (adopt cur ini x) = nxt x" "priority (adopt cur ini x) = priority x"
  "chan (adopt cur ini x) = chan x" "pid (adopt cur ini x) = pid x" "lkey (adopt cur ini x) = lkey x"
  "has_mem (adopt cur ini x) = has_mem x"
  by (simp_all add: adopt_def lkey_def has_mem_def)

lemma adopt_other: "parent x \<noteq> Some cur \<Longrightarrow> adopt cur ini x = x"
  by (simp add: adopt_def)

lemma link_indep_adopt [simp]: "link_indep (adopt cur ini)"
  by (simp add: link_indep_def adopt_def)

lemma ptinv_adopt:
  assumes "ptinv s Q"
  shows "ptinv (procs_upd P (adopt cur ini) s) Q"
proof -
  have "nexts (procs_upd P (adopt cur ini) s) = nexts s" by (simp add: nexts_def fun_eq_iff)
  then have "lists_rep (procs_upd P (adopt cur ini) s) Q = lists_rep s Q"
    by (rule lists_rep_cong) (simp_all add: procs_upd_def)
  moreover have "lkey (proc (procs_upd P (adopt cur ini) s) p) = lkey (proc s p)" for p by simp
  ultimately show ?thesis using assms by (simp add: ptinv_def linked_def prio_ok_def)
qed

lemma procs_upd_glob [simp]: "initproc (procs_upd P f s) = initproc s" "getl l (procs_upd P f s) = getl l s"
  by (cases l; simp add: procs_upd_def)+

text \<open>A list without zombies: only the parents change.\<close>

definition adopts :: "nat \<Rightarrow> (nat \<Rightarrow> 'a pt_st_scheme \<Rightarrow> (unit option \<times> ptr \<times> 'a pt_st_scheme) res) \<Rightarrow> bool" where
  "adopts cur body \<longleftrightarrow> (\<forall>p t. state (proc t p) \<noteq> ZOMBIE \<longrightarrow>
     body p t = Ok (None, nxt (proc t p), pupd p (adopt cur (initproc t)) t))"

lemma adopt_upd:
  "pupd p (adopt cur ini) t = (if parent (proc t p) = Some cur then pupd p (\<lambda>x. x\<lparr>parent := ini\<rparr>) t else t)"
  by (simp add: pupd_cong[of "adopt cur ini" t p "\<lambda>x. x\<lparr>parent := ini\<rparr>"] pupd_id adopt_def)

lemma orphan_adopts: "adopts cur (orphan_body cur)" "adopts cur (orphan_ready cur j)"
  by (auto simp: adopts_def orphan_body_def orphan_ready_def adopt_upd Let_def)

lemma adopt_walk:
  assumes inv: "ptinv s Q" "lref_ok l" and b: "adopts cur body" "\<And>p. p \<in> set (Q l) \<Longrightarrow> state (proc s p) \<noteq> ZOMBIE"
  shows "walk body (hd_ptr (Q l)) s = Ok (None, procs_upd (\<lambda>q. q \<in> set (Q l)) (adopt cur (initproc s)) s)"
proof -
  let ?f = "adopt cur (initproc s)"
  define I where "I rest t \<longleftrightarrow> (\<exists>ds. Q l = ds @ rest \<and> t = procs_upd (\<lambda>q. q \<in> set ds) ?f s)" for rest t
  have "I (Q l) s" by (auto simp: I_def)
  then have "\<exists>s'. walk body (hd_ptr (Q l)) s = Ok (None, s') \<and> I [] s'"
  proof (rule walk_run)
    fix p rest t assume "I (p # rest) t"
    then obtain ds where ds: "Q l = ds @ p # rest" "t = procs_upd (\<lambda>q. q \<in> set ds) ?f s" by (auto simp: I_def)
    have "p \<notin> set ds" using ptinvD(4)[OF inv(1), of l] ds(1) by simp
    then have "pupd p ?f t = procs_upd (\<lambda>q. q \<in> set (ds @ [p])) ?f s"
      using procs_upd_insert[of "\<lambda>q. q \<in> set ds" p ?f s] ds(2) by simp
    moreover have "nxt (proc t p) = hd_ptr rest" using ptinv_next[OF inv ds(1)] ds(2) by simp
    moreover have "body p t = Ok (None, nxt (proc t p), pupd p ?f t)"
      using b(1) b(2)[of p] ds unfolding adopts_def by simp
    ultimately show "\<exists>s'. body p t = Ok (None, hd_ptr rest, s') \<and> I rest s'"
      using ds(1) by (auto simp: I_def intro!: exI[of _ "ds @ [p]"])
  qed
  then show ?thesis by (auto simp: I_def)
qed

lemma procs_upd_adopt2:
  "procs_upd P (adopt cur ini) (procs_upd R (adopt cur ini) s) = procs_upd (\<lambda>q. P q \<or> R q) (adopt cur ini) s"
  if "ini \<noteq> Some cur"
  using that by (intro pt_st.equality) (auto simp: procs_upd_def fun_eq_iff adopt_def)

lemma adopt_ready:
  assumes inv: "ptinv s Q" and ini: "initproc s \<noteq> Some cur" and js: "\<forall>j\<in>set js. j \<le> MAXPRIO"
  shows "for_each (\<lambda>j s. walk (orphan_ready cur j) (head (getl (LReady j) s)) s) js s =
    Ok (None, procs_upd (\<lambda>q. \<exists>j\<in>set js. q \<in> set (Q (LReady j))) (adopt cur (initproc s)) s)"
  using assms
proof (induction js arbitrary: s)
  case (Cons j js)
  let ?s1 = "procs_upd (\<lambda>q. q \<in> set (Q (LReady j))) (adopt cur (initproc s)) s"
  have h: "head (getl (LReady j) s) = hd_ptr (Q (LReady j))" using Cons.prems by (intro ptinv_head) simp_all
  have nz: "state (proc s p) \<noteq> ZOMBIE" if "p \<in> set (Q (LReady j))" for p
    using ptinv_in[OF Cons.prems(1) that] lkey_ready by fastforce
  have "walk (orphan_ready cur j) (head (getl (LReady j) s)) s = Ok (None, ?s1)"
    unfolding h using Cons.prems by (intro adopt_walk orphan_adopts nz) simp_all
  moreover have "ptinv ?s1 Q" using Cons.prems(1) by (rule ptinv_adopt)
  moreover have "procs_upd (\<lambda>q. \<exists>j\<in>set js. q \<in> set (Q (LReady j))) (adopt cur (initproc s)) ?s1 =
      procs_upd (\<lambda>q. \<exists>j\<in>set (j # js). q \<in> set (Q (LReady j))) (adopt cur (initproc s)) s"
    unfolding procs_upd_adopt2[OF Cons.prems(2)] by (rule procs_upd_cong) auto
  ultimately show ?case using Cons.IH[of ?s1] Cons.prems by simp
qed simp

text \<open>The zombies: a child among them wakes init.\<close>

definition woke :: "bool \<Rightarrow> chan \<Rightarrow> 'a pt_st_scheme \<Rightarrow> 'a pt_st_scheme" where
  "woke w ch s = procs_upd (\<lambda>q. w \<and> q < NPROC) (wake_proc ch) s"

definition zombie_inv :: "nat \<Rightarrow> 'a pt_st_scheme \<Rightarrow> (lref \<Rightarrow> nat list) \<Rightarrow> nat list \<Rightarrow> 'a pt_st_scheme \<Rightarrow> bool" where
  "zombie_inv cur s Q rest t \<longleftrightarrow> (\<exists>ds Q'. Q (LState ZOMBIE) = ds @ rest \<and> ptinv t Q' \<and> Q' (LState ZOMBIE) = Q (LState ZOMBIE) \<and>
     core t = procs_upd (\<lambda>q. q \<in> set ds) (adopt cur (initproc s))
       (woke (\<exists>z\<in>set ds. parent (proc s z) = Some cur) (proc_chan (initproc s)) (core s)))"

lemma wake_proc_simps [simp]:
  "parent (wake_proc ch x) = parent x" "pid (wake_proc ch x) = pid x" "has_mem (wake_proc ch x) = has_mem x"
  "priority (wake_proc ch x) = priority x" "chan (wake_proc ch x) = chan x"
  by (simp_all add: wake_proc_def has_mem_def)

lemma wake_adopt [simp]:
  "wake_proc ch (adopt cur ini x) = adopt cur ini (wake_proc ch x)" "wake_proc ch (wake_proc ch x) = wake_proc ch x"
  by (simp_all add: wake_proc_def adopt_def)

lemma proc_eqI: "(\<And>q. f q = g q) \<Longrightarrow> s\<lparr>proc := f\<rparr> = s\<lparr>proc := g\<rparr>"
  by (rule arg_cong[of f g]) (rule ext)

lemma zombie_child:
  assumes "p \<notin> set ds" "p < NPROC" "parent (proc s p) = Some cur"
  shows "procs_upd (\<lambda>q. q < NPROC) (wake_proc ch) (pupd p (\<lambda>x. x\<lparr>parent := ini\<rparr>) (procs_upd (\<lambda>q. q \<in> set ds) (adopt cur ini) (woke w ch s))) =
    procs_upd (\<lambda>q. q \<in> set (ds @ [p])) (adopt cur ini) (woke True ch s)"
proof -
  have "pupd p (\<lambda>x. x\<lparr>parent := ini\<rparr>) (procs_upd (\<lambda>q. q \<in> set ds) (adopt cur ini) (woke w ch s)) =
      pupd p (adopt cur ini) (procs_upd (\<lambda>q. q \<in> set ds) (adopt cur ini) (woke w ch s))"
    using assms by (intro pupd_cong) (simp add: adopt_def woke_def)
  also have "\<dots> = procs_upd (\<lambda>q. q = p \<or> q \<in> set ds) (adopt cur ini) (woke w ch s)" using assms(1) by (rule procs_upd_insert)
  finally show ?thesis by (simp add: procs_upd_def woke_def cong: if_cong) (rule proc_eqI, auto)
qed

lemma zombie_step:
  assumes inv: "ptinv s Q" and ini: "initproc s \<noteq> Some cur" and I: "zombie_inv cur s Q (p # rest) t"
  shows "\<exists>t'. orphan_body cur p t = Ok (None, hd_ptr rest, t') \<and> zombie_inv cur s Q rest t'"
proof -
  let ?ini = "initproc s" let ?ch = "proc_chan ?ini"
  obtain ds Q' where Q: "Q (LState ZOMBIE) = ds @ p # rest" and t: "ptinv t Q'" "Q' (LState ZOMBIE) = Q (LState ZOMBIE)"
    and core: "core t = procs_upd (\<lambda>q. q \<in> set ds) (adopt cur ?ini) (woke (\<exists>z\<in>set ds. parent (proc s z) = Some cur) ?ch (core s))"
    using I by (auto simp: zombie_inv_def)
  have d: "p \<notin> set ds" using ptinvD(4)[OF inv, of "LState ZOMBIE"] Q by simp
  have tz: "p < NPROC" "state (proc t p) = ZOMBIE" using ptinv_in[OF t(1), of p "LState ZOMBIE"] t(2) Q lkey_state by auto
  have ti: "initproc t = ?ini" using arg_cong[OF core, of initproc] by (simp add: woke_def)
  have pa: "parent (proc t p) = parent (proc s p)"
    using arg_cong[OF core, of "\<lambda>s. parent (proc s p)"] d by (simp add: woke_def)
  have nx: "nxt (proc t p) = hd_ptr rest" using ptinv_next[OF t(1), of "LState ZOMBIE" ds p rest] t(2) Q by simp
  show ?thesis
  proof (cases "parent (proc s p) = Some cur")
    case True
    let ?t1 = "pupd p (\<lambda>x. x\<lparr>parent := ?ini\<rparr>) t"
    have li: "link_indep (\<lambda>x. x\<lparr>parent := ?ini\<rparr>)" by (simp add: link_indep_def)
    have t1: "ptinv ?t1 Q'" using t(1) li prio_le[OF t(1) tz(1)] by (intro ptinv_pupd) (simp_all add: lkey_def)
    obtain t2 where t2: "wakeup1 ?ch ?t1 = Ok t2" "ptinv t2 (woken ?ch (proc ?t1) Q' (Q' (LState SLEEPING)) [])"
        "core t2 = wakeup1_scan ?ch (core ?t1)" using wakeup1_ok[OF t1] by blast
    have z: "woken ?ch (proc ?t1) Q' (Q' (LState SLEEPING)) [] (LState ZOMBIE) = Q (LState ZOMBIE)"
      using t(2) by (simp add: woken_def)
    then have "nxt (proc t2 p) = hd_ptr rest" using ptinv_next[OF t2(2), of "LState ZOMBIE" ds p rest] Q by simp
    then have "orphan_body cur p t = Ok (None, hd_ptr rest, t2)"
      using t2(1) tz(2) pa True ti by (simp add: orphan_body_def)
    moreover have "core t2 = procs_upd (\<lambda>q. q \<in> set (ds @ [p])) (adopt cur ?ini)
        (woke (\<exists>z\<in>set (ds @ [p]). parent (proc s z) = Some cur) ?ch (core s))"
      unfolding t2(3) wakeup1_scan_eq core_pupd[OF li] core using zombie_child[of p ds "core s" cur] True d tz(1) by simp
    ultimately show ?thesis using t2(2) z Q unfolding zombie_inv_def by (auto intro!: exI[of _ "ds @ [p]"])
  next
    case False
    then have "orphan_body cur p t = Ok (None, hd_ptr rest, t)" using pa nx by (simp add: orphan_body_def)
    moreover have "core t = procs_upd (\<lambda>q. q \<in> set (ds @ [p])) (adopt cur ?ini)
        (woke (\<exists>z\<in>set (ds @ [p]). parent (proc s z) = Some cur) ?ch (core s))"
      unfolding core using False by (simp add: procs_upd_def woke_def) (rule proc_eqI, auto simp: adopt_other)
    ultimately show ?thesis using t Q unfolding zombie_inv_def by (auto intro!: exI[of _ "ds @ [p]"])
  qed
qed

lemma zombie_walk:
  assumes "ptinv s Q" "initproc s \<noteq> Some cur"
  shows "\<exists>t. walk (orphan_body cur) (head (getl (LState ZOMBIE) s)) s = Ok (None, t) \<and> zombie_inv cur s Q [] t"
proof -
  have "zombie_inv cur s Q (Q (LState ZOMBIE)) s" unfolding zombie_inv_def
    using assms(1) by (intro exI[of _ "[]"] exI[of _ Q]) (simp add: woke_def)
  then have "\<exists>t. walk (orphan_body cur) (hd_ptr (Q (LState ZOMBIE))) s = Ok (None, t) \<and> zombie_inv cur s Q [] t"
    by (rule walk_run[of "zombie_inv cur s Q"]) (rule zombie_step[OF assms])
  moreover have "head (getl (LState ZOMBIE) s) = hd_ptr (Q (LState ZOMBIE))" using assms(1) by (rule ptinv_head) simp
  ultimately show ?thesis by simp
qed

section \<open>exit\<close>

definition adopted :: "nat \<Rightarrow> 'a pt_st_scheme \<Rightarrow> 'a pt_st_scheme" where
  "adopted cur s = procs_upd (\<lambda>q. q < NPROC \<and> state (proc s q) \<noteq> UNUSED) (adopt cur (initproc s)) s"

definition zombie_kid :: "nat \<Rightarrow> 'a pt_st_scheme \<Rightarrow> bool" where
  "zombie_kid cur s \<longleftrightarrow> (\<exists>z < NPROC. state (proc s z) = ZOMBIE \<and> parent (proc s z) = Some cur)"

lemma adopt_list:
  assumes "ptinv s Q" "initproc s \<noteq> Some cur" "st \<noteq> ZOMBIE" "st \<noteq> RUNNABLE"
  shows "walk (orphan_body cur) (head (getl (LState st) s)) s =
    Ok (None, procs_upd (\<lambda>q. q < NPROC \<and> state (proc s q) = st) (adopt cur (initproc s)) s)"
proof -
  have h: "head (getl (LState st) s) = hd_ptr (Q (LState st))" using assms(1) by (rule ptinv_head) simp
  have m: "p \<in> set (Q (LState st)) \<longleftrightarrow> p < NPROC \<and> state (proc s p) = st" for p
    using in_LState[OF assms(1), of st] assms(4) by auto
  have "walk (orphan_body cur) (hd_ptr (Q (LState st))) s =
      Ok (None, procs_upd (\<lambda>q. q \<in> set (Q (LState st))) (adopt cur (initproc s)) s)"
    using assms by (intro adopt_walk orphan_adopts) (auto simp: m)
  then show ?thesis by (simp only: h m)
qed

lemma core_procs_upd: "link_indep f \<Longrightarrow> core (procs_upd P f s) = procs_upd P f (core s)"
  by (intro pt_st.equality) (simp_all add: core_def procs_upd_def link_indep_def fun_eq_iff)

lemma adopted_all:
  assumes "initproc s \<noteq> Some cur" "\<And>q. q \<in> Z \<longleftrightarrow> q < NPROC \<and> state (proc s q) = ZOMBIE"
  shows "procs_upd (\<lambda>q. q \<in> Z) (adopt cur (initproc s)) (woke w ch (core (procs_upd (\<lambda>q. q < NPROC \<and>
      state (proc s q) \<in> {RUNNING, RUNNABLE, SLEEPING, EMBRYO}) (adopt cur (initproc s)) s))) = adopted cur (woke w ch (core s))"
proof -
  have u: "st \<noteq> UNUSED \<longleftrightarrow> st = ZOMBIE \<or> st \<in> {RUNNING, RUNNABLE, SLEEPING, EMBRYO}" for st by (cases st) auto
  have w: "state (wake_proc ch x) = UNUSED \<longleftrightarrow> state x = UNUSED" for x by (simp add: wake_proc_def)
  have i: "adopt cur (initproc s) (adopt cur (initproc s) x) = adopt cur (initproc s) x" for x using assms(1) by (simp add: adopt_def)
  have st: "state (proc (woke w ch (core s)) q) \<noteq> UNUSED \<longleftrightarrow> state (proc s q) \<noteq> UNUSED" for q by (simp add: woke_def w)
  have in': "initproc (woke w ch (core s)) = initproc s" by (simp add: woke_def)
  have "adopted cur (woke w ch (core s)) = procs_upd (\<lambda>q. q < NPROC \<and> (state (proc s q) = ZOMBIE \<or>
      state (proc s q) \<in> {RUNNING, RUNNABLE, SLEEPING, EMBRYO})) (adopt cur (initproc s)) (woke w ch (core s))"
    unfolding adopted_def st in' by (simp only: u)
  then show ?thesis unfolding assms(2) woke_def core_procs_upd[OF link_indep_adopt]
    by (simp add: procs_upd_def) (rule proc_eqI, auto simp: i)
qed

lemma exit_scan:
  assumes inv: "ptinv s Q" and ini: "initproc s \<noteq> Some cur"
  shows "\<exists>t Q'. scan_states msg (orphan_ready cur) (orphan_body cur) exit_states s = Ok (None, t) \<and>
    ptinv t Q' \<and> Q' (LState ZOMBIE) = Q (LState ZOMBIE) \<and>
    core t = adopted cur (woke (zombie_kid cur s) (proc_chan (initproc s)) (core s))"
proof -
  let ?i = "initproc s" let ?u = "\<lambda>P. procs_upd P (adopt cur ?i)"
  define A where "A sts = ?u (\<lambda>q. q < NPROC \<and> state (proc s q) \<in> sts) s" for sts
  have inv': "ptinv (A sts) Q" for sts unfolding A_def using inv by (rule ptinv_adopt)
  have more: "?u (\<lambda>q. q < NPROC \<and> state (proc s q) = st) (A sts) = A (insert st sts)" for st sts
    unfolding A_def procs_upd_adopt2[OF ini] by (rule arg_cong[of _ _ "\<lambda>P. ?u P s"]) auto
  have stq: "state (proc (A sts) q) = state (proc s q)" and ii: "initproc (A sts) = ?i" for sts q by (simp_all add: A_def)
  have lst: "walk (orphan_body cur) (head (getl (LState st) (A sts))) (A sts) = Ok (None, A (insert st sts))"
    if "st \<noteq> ZOMBIE" "st \<noteq> RUNNABLE" for st sts
    using adopt_list[OF inv'[of sts] _ that, of cur] ini unfolding stq ii more by simp
  have rdy: "for_each (\<lambda>j s. walk (orphan_ready cur j) (head (getl (LReady j) s)) s) (rev [0..<Suc MAXPRIO]) (A sts) =
      Ok (None, A (insert RUNNABLE sts))" for sts
  proof -
    have e: "(\<exists>j\<in>set (rev [0..<Suc MAXPRIO]). q \<in> set (Q (LReady j))) \<longleftrightarrow> q < NPROC \<and> state (proc s q) = RUNNABLE" for q
      using in_LReady[OF inv] prio_le[OF inv, of q] by (auto simp: less_Suc_eq_le)
    have j: "\<forall>j\<in>set (rev [0..<Suc MAXPRIO]). j \<le> MAXPRIO" by auto
    show ?thesis using adopt_ready[OF inv'[of sts] _ j, of cur] ini unfolding ii e more by simp
  qed
  let ?S = "{RUNNING, RUNNABLE, SLEEPING, EMBRYO}"
  obtain t where t: "walk (orphan_body cur) (head (getl (LState ZOMBIE) (A ?S))) (A ?S) = Ok (None, t)"
      "zombie_inv cur (A ?S) Q [] t"
    using zombie_walk[OF inv'[of ?S], of cur] ini ii by auto
  define B where "B i t = (if i = RUNNABLE then (if head (getl (LState i) t) \<noteq> None then Panic msg
      else for_each (\<lambda>j s. walk (orphan_ready cur j) (head (getl (LReady j) s)) s) (rev [0..<Suc MAXPRIO]) t)
    else walk (orphan_body cur) (head (getl (LState i) t)) t)" for i and t :: "'a pt_st_scheme"
  have B: "B st (A sts) = Ok (None, A (insert st sts))" if "st \<noteq> ZOMBIE" for st sts
    using lst[OF that] rdy runnable_empty(2)[OF inv'] unfolding B_def by (cases "st = RUNNABLE") (simp_all del: getl_simps upt_Suc)
  have "B ZOMBIE (A ?S) = Ok (None, t)" using t(1) by (simp add: B_def)
  then have "for_each B exit_states (A {}) = Ok (None, t)" by (simp add: exit_states_def B)
  then have "scan_states msg (orphan_ready cur) (orphan_body cur) exit_states (A {}) = Ok (None, t)"
    by (simp only: scan_states_def B_def[abs_def])
  then have "scan_states msg (orphan_ready cur) (orphan_body cur) exit_states s = Ok (None, t)" by (simp add: A_def)
  moreover obtain Q' where Q': "ptinv t Q'" "Q' (LState ZOMBIE) = Q (LState ZOMBIE)"
    and core: "core t = ?u (\<lambda>q. q \<in> set (Q (LState ZOMBIE)))
      (woke (\<exists>z\<in>set (Q (LState ZOMBIE)). parent (proc (A ?S) z) = Some cur) (proc_chan ?i) (core (A ?S)))"
    using t(2) unfolding zombie_inv_def ii by auto
  have z: "q \<in> set (Q (LState ZOMBIE)) \<longleftrightarrow> q < NPROC \<and> state (proc s q) = ZOMBIE" for q using in_LState[OF inv] by simp
  have "(\<exists>z\<in>set (Q (LState ZOMBIE)). parent (proc (A ?S) z) = Some cur) = zombie_kid cur s"
    by (auto simp: z zombie_kid_def A_def)
  then have "core t = adopted cur (woke (zombie_kid cur s) (proc_chan ?i) (core s))"
    unfolding core using adopted_all[OF ini z] by (simp only: A_def)
  ultimately show ?thesis using Q' by blast
qed

text \<open>The table, up to its links, when \<open>exit\<close> hands the CPU to the scheduler.\<close>

definition exit_table :: "nat \<Rightarrow> nat \<Rightarrow> 'a pt_st_scheme \<Rightarrow> 'a pt_st_scheme" where
  "exit_table c p s =
     pupd p (\<lambda>x. acct_proc (ticks s) (x\<lparr>state := ZOMBIE\<rparr>))
       (adopted p (woke (zombie_kid p s) (proc_chan (initproc s))
         (woke True (proc_chan (parent (proc s p))) (core (with_lock c s)))))"

lemma woke_simps [simp]:
  "cpus (woke w ch s) = cpus s" "ptable_lock (woke w ch s) = ptable_lock s" "ticks (woke w ch s) = ticks s"
  "initproc (woke w ch s) = initproc s" "parent (proc (woke w ch s) q) = parent (proc s q)"
  "pid (proc (woke w ch s) q) = pid (proc s q)" "has_mem (proc (woke w ch s) q) = has_mem (proc s q)"
  "state (proc (woke w ch s) q) = RUNNING \<longleftrightarrow> state (proc s q) = RUNNING"
  "state (proc (woke w ch s) q) = ZOMBIE \<longleftrightarrow> state (proc s q) = ZOMBIE"
  "state (proc (woke w ch s) q) = UNUSED \<longleftrightarrow> state (proc s q) = UNUSED"
  by (auto simp: woke_def wake_proc_def)

lemma adopted_simps [simp]:
  "cpus (adopted p s) = cpus s" "ptable_lock (adopted p s) = ptable_lock s" "ticks (adopted p s) = ticks s"
  "initproc (adopted p s) = initproc s" "state (proc (adopted p s) q) = state (proc s q)"
  "pid (proc (adopted p s) q) = pid (proc s q)" "has_mem (proc (adopted p s) q) = has_mem (proc s q)"
  by (simp_all add: adopted_def)

lemma exit_sched_ok:
  assumes rdy: "ready_cpu c s" "ncli (cpus s c) = 0" and inv: "ptinv s Q"
    and p: "cproc (cpus s c) = Some p" "p < NPROC" "state (proc s p) = RUNNING" "initproc s \<noteq> Some p"
  shows "\<exists>s' Q'. exit_sched c p s = Ok (intena (cpus (with_lock c s) c), s') \<and> ptinv s' Q' \<and>
    Q' (LState ZOMBIE) = Q (LState ZOMBIE) @ [p] \<and> core s' = exit_table c p s"
proof -
  let ?s1 = "with_lock c s" let ?ch = "proc_chan (parent (proc s p))"
  note W = with_lock_cpu[OF rdy]
  obtain s2 where s2: "wakeup1 ?ch ?s1 = Ok s2" "ptinv s2 (woken ?ch (proc ?s1) Q (Q (LState SLEEPING)) [])"
      "core s2 = woke True ?ch (core ?s1)"
    using wakeup1_ok[of ?s1 Q ?ch] inv by (auto simp: wakeup1_scan_eq woke_def)
  have i2: "initproc s2 = initproc s" using arg_cong[OF s2(3), of initproc] by simp
  have k2: "zombie_kid p s2 = zombie_kid p s"
    using arg_cong[OF s2(3), of "zombie_kid p"] by (simp add: zombie_kid_def)
  obtain s3 Q3 where s3: "scan_states ''The Runnable list should be empty'' (orphan_ready p) (orphan_body p) exit_states s2 = Ok (None, s3)"
      "ptinv s3 Q3" "Q3 (LState ZOMBIE) = Q (LState ZOMBIE)"
      "core s3 = adopted p (woke (zombie_kid p s) (proc_chan (initproc s)) (woke True ?ch (core ?s1)))"
    using exit_scan[OF s2(2), of p "''The Runnable list should be empty''"] p(4) i2 k2 unfolding s2(3)
    by (auto simp: woken_def)
  have f3: "cpus s3 = cpus ?s1" "ptable_lock s3 = ptable_lock ?s1" "ticks s3 = ticks s" "state (proc s3 p) = RUNNING"
    using arg_cong[OF s3(4), of cpus] arg_cong[OF s3(4), of ptable_lock] arg_cong[OF s3(4), of ticks]
      arg_cong[OF s3(4), of "\<lambda>s. state (proc s p) = RUNNING"] p(3) by simp_all
  obtain s4 s5 where s4: "relist (LState (state (proc s3 p))) p ''Empty list or process not in list'' RUNNING
        (\<lambda>x. x\<lparr>state := ZOMBIE\<rparr>) (\<lambda>x. LState (state x)) s3 = Ok s4"
      "sched_enter c (pupd p (\<lambda>x. x) s4) = Ok (intena (cpus s3 c), s5)"
      "ptinv s5 (moved (LState RUNNING) (lkey ((proc s3 p)\<lparr>state := ZOMBIE\<rparr>)) p Q3)"
      "core s5 = pupd p (\<lambda>x. acct_proc (ticks s3) (x\<lparr>state := ZOMBIE\<rparr>)) (core s3)"
    using relist_sched[where m = "\<lambda>x. LState (state x)" and f = "\<lambda>x. x\<lparr>state := ZOMBIE\<rparr>" and g = "\<lambda>x. x"
        and c = c and msg = "''Empty list or process not in list''", OF s3(2) p(2) f3(4)] f3 p W held_by_with_lock[of c s]
      prio_le[OF s3(2) p(2)] by (auto simp: lkey_def link_indep_def)
  have "pupd p (\<lambda>x. x) s4 = s4" by (rule pupd_id) simp
  then have "exit_sched c p s = Ok (intena (cpus ?s1 c), s5)"
    using s2(1) s3(1) s4(1,2) f3 by (simp add: exit_sched_def ptable_acquire_eq[OF rdy(1)])
  moreover have "moved (LState RUNNING) (lkey ((proc s3 p)\<lparr>state := ZOMBIE\<rparr>)) p Q3 (LState ZOMBIE) = Q (LState ZOMBIE) @ [p]"
    using s3(3) by (simp add: moved_def lkey_def)
  moreover have "core s5 = exit_table c p s" using s4(4) f3 s3(4) by (simp add: exit_table_def)
  ultimately show ?thesis using s4(3) by blast
qed

lemma acct_proc_pid: "pid (acct_proc now x) = pid x"
  by (simp add: acct_proc_def)

lemma exit_fields:
  assumes "core s' = exit_table c p s"
  shows "state (proc s' p) = ZOMBIE"
    and "q \<noteq> p \<Longrightarrow> state (proc s' q) =
      (if q < NPROC \<and> state (proc s q) = SLEEPING \<and> (chan (proc s q) = proc_chan (parent (proc s p)) \<or>
            chan (proc s q) = proc_chan (initproc s) \<and> zombie_kid p s)
       then RUNNABLE else state (proc s q))"
    and "q < NPROC \<Longrightarrow> state (proc s q) \<noteq> UNUSED \<Longrightarrow> parent (proc s' q) = (if parent (proc s q) = Some p then initproc s else parent (proc s q))"
    and "pid (proc s' q) = pid (proc s q)" "has_mem (proc s' q) = has_mem (proc s q)"
    and "cpus s' = cpus (with_lock c s)" "ptable_lock s' = ptable_lock (with_lock c s)"
proof -
  let ?t = "exit_table c p s"
  have f: "state (proc s' q) = state (proc ?t q)" "parent (proc s' q) = parent (proc ?t q)" "pid (proc s' q) = pid (proc ?t q)"
    "has_mem (proc s' q) = has_mem (proc ?t q)" for q
    using arg_cong[OF assms, of "\<lambda>s. state (proc s q)"] arg_cong[OF assms, of "\<lambda>s. parent (proc s q)"]
      arg_cong[OF assms, of "\<lambda>s. pid (proc s q)"] arg_cong[OF assms, of "\<lambda>s. has_mem (proc s q)"] by simp_all
  show "state (proc s' p) = ZOMBIE" by (simp add: f exit_table_def)
  show "state (proc s' q) = (if q < NPROC \<and> state (proc s q) = SLEEPING \<and> (chan (proc s q) = proc_chan (parent (proc s p)) \<or>
      chan (proc s q) = proc_chan (initproc s) \<and> zombie_kid p s) then RUNNABLE else state (proc s q))" if "q \<noteq> p"
    using that by (auto simp: f exit_table_def woke_def wake_proc_def)
  show "parent (proc s' q) = (if parent (proc s q) = Some p then initproc s else parent (proc s q))"
    if "q < NPROC" "state (proc s q) \<noteq> UNUSED"
    using that by (cases "q = p") (simp_all add: f exit_table_def adopted_def adopt_def acct_proc_def)
  show "pid (proc s' q) = pid (proc s q)" "has_mem (proc s' q) = has_mem (proc s q)"
    by (cases "q = p"; simp add: f exit_table_def acct_proc_pid)+
  show "cpus s' = cpus (with_lock c s)" "ptable_lock s' = ptable_lock (with_lock c s)"
    using arg_cong[OF assms, of cpus] arg_cong[OF assms, of ptable_lock] by (simp_all add: exit_table_def)
qed

section \<open>wait\<close>

lemma find_child_eq:
  assumes inv: "ptinv s Q" "lref_ok l"
  shows "find_child cur s (hd_ptr (Q l)) = Ok (find (\<lambda>i. parent (proc s i) = Some cur) (Q l), ())"
proof -
  let ?P = "\<lambda>i. parent (proc s i) = Some cur"
  let ?b = "\<lambda>i u. if ?P i then Ok (Some i, None, u) else Ok (None, nxt (proc s i), u)"
  have "walk ?b (hd_ptr bs) () = Ok (find ?P bs, ())" if "Q l = as @ bs" for as bs
    using that
  proof (induction bs arbitrary: as)
    case Nil
    then show ?case by simp
  next
    case (Cons p bs)
    have "nxt (proc s p) = hd_ptr bs" using ptinv_next[OF inv Cons.prems] .
    moreover have "walk ?b (hd_ptr bs) () = Ok (find ?P bs, ())" using Cons.IH[of "as @ [p]"] Cons.prems by simp
    ultimately show ?case by (simp add: walk_Some)
  qed
  from this[of "[]" "Q l"] show ?thesis by (simp add: find_child_def)
qed

definition kid_in :: "nat \<Rightarrow> procstate set \<Rightarrow> 'a pt_st_scheme \<Rightarrow> bool" where
  "kid_in cur A s \<longleftrightarrow> (\<exists>q < NPROC. state (proc s q) \<in> A \<and> parent (proc s q) = Some cur)"

lemma wait_list_state:
  assumes inv: "ptinv s Q" and st: "st \<noteq> ZOMBIE" "st \<noteq> RUNNABLE"
  shows "wait_list c cur st (hk, s) = Ok (None, hk \<or> kid_in cur {st} s, s)"
proof -
  have h: "head (getl (LState st) s) = hd_ptr (Q (LState st))" using inv by (rule ptinv_head) simp
  note e = find_child_eq[OF inv, of "LState st" cur]
  show ?thesis
  proof (cases "find (\<lambda>i. parent (proc s i) = Some cur) (Q (LState st))")
    case None
    then have "\<not> kid_in cur {st} s"
      using find_None_iff[of "\<lambda>i. parent (proc s i) = Some cur" "Q (LState st)"] in_LState[OF inv st(2)] by (auto simp: kid_in_def)
    then show ?thesis using e None h st by (simp add: wait_list_def del: getl_simps)
  next
    case (Some p)
    then have p: "p < NPROC" "state (proc s p) = st" "parent (proc s p) = Some cur"
      using in_LState[OF inv st(2)] find_SomeD[OF Some] by auto
    then have "kid_in cur {st} s" by (auto simp: kid_in_def)
    then show ?thesis using e Some h st p by (simp add: wait_list_def del: getl_simps)
  qed
qed

lemma kid_in_none:
  assumes "ptinv s Q" "find (\<lambda>i. parent (proc s i) = Some cur) (Q l) = None" "q < NPROC" "lkey (proc s q) = l"
  shows "parent (proc s q) \<noteq> Some cur"
  using ptinvD(3)[OF assms(1), of q l] assms(2-4) by (auto simp: find_None_iff)

lemma wait_list_ready:
  assumes inv: "ptinv s Q"
  shows "wait_list c cur RUNNABLE (hk, s) = Ok (None, hk \<or> kid_in cur {RUNNABLE} s, s)"
proof -
  let ?f = "\<lambda>j. find (\<lambda>i. parent (proc s i) = Some cur) (Q (LReady j))"
  define B where "B j hk = rbind (find_child cur s (head (getl (LReady j) s))) (\<lambda>(r, _). Ok (None :: unit option, hk \<or> r \<noteq> None))" for j hk
  have b: "B j hk = Ok (None, hk \<or> ?f j \<noteq> None)" if "j \<le> MAXPRIO" for j hk
    using find_child_eq[OF inv, of "LReady j" cur] ptinv_head[OF inv, of "LReady j"] that by (simp add: B_def)
  have "for_each B js hk = Ok (None, hk \<or> (\<exists>j\<in>set js. ?f j \<noteq> None))" if "\<forall>j\<in>set js. j \<le> MAXPRIO" for js
    using that by (induction js arbitrary: hk) (simp_all add: b)
  from this[of "rev [0..<Suc MAXPRIO]"] have "for_each B (rev [0..<Suc MAXPRIO]) hk =
      Ok (None, hk \<or> (\<exists>j \<le> MAXPRIO. ?f j \<noteq> None))" by (simp add: less_Suc_eq_le Bex_def del: upt_Suc)
  moreover have "(\<exists>j \<le> MAXPRIO. ?f j \<noteq> None) \<longleftrightarrow> kid_in cur {RUNNABLE} s"
  proof
    assume "\<exists>j \<le> MAXPRIO. ?f j \<noteq> None"
    then obtain j p where "?f j = Some p" by auto
    then have "p \<in> set (Q (LReady j))" "parent (proc s p) = Some cur" using find_SomeD by fastforce+
    then show "kid_in cur {RUNNABLE} s" using in_LReady[OF inv] by (auto simp: kid_in_def)
  next
    assume "kid_in cur {RUNNABLE} s"
    then obtain q where q: "q < NPROC" "state (proc s q) = RUNNABLE" "parent (proc s q) = Some cur" by (auto simp: kid_in_def)
    then have "?f (unat (priority (proc s q))) \<noteq> None" using kid_in_none[OF inv _ q(1)] by (force simp: lkey_def)
    then show "\<exists>j \<le> MAXPRIO. ?f j \<noteq> None" using prio_le[OF inv q(1)] by blast
  qed
  ultimately have "for_each B (rev [0..<Suc MAXPRIO]) hk = Ok (None, hk \<or> kid_in cur {RUNNABLE} s)" by simp
  then show ?thesis using runnable_empty(2)[OF inv] unfolding B_def[abs_def] wait_list_def by (simp del: upt_Suc)
qed

text \<open>The first zombie child, in the order in which the children died.\<close>

definition dead_child :: "nat \<Rightarrow> (lref \<Rightarrow> nat list) \<Rightarrow> 'a pt_st_scheme \<Rightarrow> nat option" where
  "dead_child cur Q s = find (\<lambda>i. parent (proc s i) = Some cur) (Q (LState ZOMBIE))"

lemma wait_round_eq:
  assumes inv: "ptinv s Q"
  shows "wait_round c cur s =
    (case dead_child cur Q s of
       Some p \<Rightarrow> rbind (reap c p s) (\<lambda>(pd, s1). rbind (ptable_release c s1) (\<lambda>s2. Ok (Inl (int_of pd), s2)))
     | None \<Rightarrow>
         if \<not> kid_in cur {EMBRYO, SLEEPING, RUNNABLE, RUNNING} s \<or> killed (proc s cur)
         then rbind (ptable_release c s) (\<lambda>s2. Ok (Inl (-1), s2))
         else rbind (sleep_enter c (Ch_proc cur) PtableLock s) (\<lambda>(ie, s2). Ok (Inr ie, s2)))"
proof -
  let ?k = "kid_in cur {EMBRYO, SLEEPING, RUNNABLE, RUNNING} s"
  have k: "(((kid_in cur {EMBRYO} s \<or> kid_in cur {SLEEPING} s) \<or> kid_in cur {RUNNABLE} s) \<or> kid_in cur {RUNNING} s) = ?k"
    by (auto simp: kid_in_def)
  have h: "head (getl (LState ZOMBIE) s) = hd_ptr (Q (LState ZOMBIE))" using inv by (rule ptinv_head) simp
  have z: "state (proc s p) = ZOMBIE" if "dead_child cur Q s = Some p" for p
    using that find_SomeD in_LState[OF inv, of ZOMBIE] unfolding dead_child_def by fastforce
  have "wait_list c cur ZOMBIE (hk, s) =
      (case dead_child cur Q s of None \<Rightarrow> Ok (None, hk, s) | Some p \<Rightarrow> rbind (reap c p s) (\<lambda>(pd, s1). Ok (Some pd, True, s1)))" for hk
    using find_child_eq[OF inv, of "LState ZOMBIE" cur] h z
    by (auto simp: wait_list_def dead_child_def simp del: getl_simps split: option.splits)
  then have "for_each (wait_list c cur) exit_states (False, s) =
      (case dead_child cur Q s of None \<Rightarrow> Ok (None, ?k, s)
       | Some p \<Rightarrow> rbind (reap c p s) (\<lambda>(pd, s1). Ok (Some pd, True, s1)))"
    unfolding exit_states_def using k
    by (simp add: wait_list_state[OF inv] wait_list_ready[OF inv] split: option.splits)
       (auto simp: rbind_assoc intro!: rbind_cong)
  then show ?thesis
    by (auto simp: wait_round_def rbind_assoc split: option.splits intro!: rbind_cong)
qed

end
