(* ===== verification/Proc_Machine.thy ===== *)
theory Proc_Machine
  imports Life_Thms
begin

text \<open>
  The scheduler as a machine of several CPUs.  A CPU is in its scheduler loop (no current
  process) or runs a process; a process that gave up its CPU keeps the point at which it
  continues.  An action takes \<open>ptable.lock\<close> at its start and frees it at its end, on the far
  side of the \<open>swtch\<close> when there is one, so the actions of different CPUs do not overlap.
\<close>

section \<open>Actions\<close>

text \<open>Where a process continues: in \<open>yield\<close> or in \<open>sleep(chan, 0)\<close>, with its saved \<open>intena\<close>.\<close>

datatype resume = RYield uint | RSleep uint

datatype action =
    Schedule nat
  | Yield nat
  | Sleep nat chan
  | Wakeup nat chan
  | Kill nat uint
  | SetPriority nat uint uint
  | Exit nat
  | Tick

record 's machine =
  kernel :: 's
  conts :: "nat \<Rightarrow> resume"

fun resume_proc :: "nat \<Rightarrow> nat \<Rightarrow> resume \<Rightarrow> 'a pt_st_scheme \<Rightarrow> 'a pt_st_scheme res" where
  "resume_proc c p (RYield ie) s = yield_exit c ie s"
| "resume_proc c p (RSleep ie) s = sleep_exit c p ie NoLock s"

text \<open>The process leaves the CPU, and the scheduler loop of the CPU goes on.\<close>

definition leave ::
  "nat \<Rightarrow> nat \<Rightarrow> (uint \<Rightarrow> resume) \<Rightarrow> (uint \<times> 'a pt_st_scheme) res \<Rightarrow> 'a pt_st_scheme machine \<Rightarrow> 'a pt_st_scheme machine res" where
  "leave c p r out M =
     rbind out (\<lambda>(ie, s1). rbind (scheduler_exit c s1) (\<lambda>s2.
     Ok \<lparr>kernel = s2, conts = (conts M)(p := r ie)\<rparr>))"

fun act :: "action \<Rightarrow> 'a pt_st_scheme machine \<Rightarrow> 'a pt_st_scheme machine res" where
  "act (Schedule c) M =
     rbind (scheduler_enter c (kernel M)) (\<lambda>(r, s1).
       case r of
         None \<Rightarrow> Ok (M\<lparr>kernel := s1\<rparr>)
       | Some p \<Rightarrow> rbind (resume_proc c p (conts M p) s1) (\<lambda>s2. Ok (M\<lparr>kernel := s2\<rparr>)))"
| "act (Yield c) M = deref (cproc (cpus (kernel M) c)) (\<lambda>p. leave c p RYield (yield_enter c (kernel M)) M)"
| "act (Sleep c ch) M = deref (cproc (cpus (kernel M) c)) (\<lambda>p. leave c p RSleep (sleep_enter c ch NoLock (kernel M)) M)"
| "act (Wakeup c ch) M = rbind (wakeup c ch (kernel M)) (\<lambda>s. Ok (M\<lparr>kernel := s\<rparr>))"
| "act (Kill c pd) M = rbind (kill c pd (kernel M)) (\<lambda>(_, s). Ok (M\<lparr>kernel := s\<rparr>))"
| "act (SetPriority c pd prio) M = rbind (setpriority c pd prio (kernel M)) (\<lambda>(_, s). Ok (M\<lparr>kernel := s\<rparr>))"
| "act (Exit c) M = deref (cproc (cpus (kernel M) c)) (\<lambda>p.
     rbind (exit_sched c p (kernel M)) (\<lambda>(_, s1). rbind (scheduler_exit c s1) (\<lambda>s2. Ok (M\<lparr>kernel := s2\<rparr>))))"
| "act Tick M = Ok (M\<lparr>kernel := (kernel M)\<lparr>ticks := ticks (kernel M) + 1\<rparr>\<rparr>)"

text \<open>
  A scheduler loop only schedules; a CPU that runs a process does the rest.  \<open>init\<close> does not
  exit.  Of \<open>exit\<close> the machine has the part under \<open>ptable.lock\<close>.
\<close>

fun enabled :: "action \<Rightarrow> 'a pt_st_scheme machine \<Rightarrow> bool" where
  "enabled (Schedule c) M \<longleftrightarrow> cproc (cpus (kernel M) c) = None"
| "enabled (Yield c) M \<longleftrightarrow> cproc (cpus (kernel M) c) \<noteq> None"
| "enabled (Sleep c ch) M \<longleftrightarrow> cproc (cpus (kernel M) c) \<noteq> None"
| "enabled (Exit c) M \<longleftrightarrow> cproc (cpus (kernel M) c) \<noteq> None \<and> cproc (cpus (kernel M) c) \<noteq> initproc (kernel M)"
| "enabled _ M \<longleftrightarrow> True"

inductive steps :: "'a pt_st_scheme machine \<Rightarrow> 'a pt_st_scheme machine \<Rightarrow> bool" for M where
  stay: "steps M M"
| more_steps: "steps M N \<Longrightarrow> enabled a N \<Longrightarrow> act a N = Ok N' \<Longrightarrow> steps M N'"

section \<open>The invariant\<close>

definition live :: "proc \<Rightarrow> bool" where
  "live x \<longleftrightarrow> state x = RUNNABLE \<or> state x = RUNNING \<or> state x = SLEEPING"

text \<open>Between actions the lock is free and interrupts are not nested.\<close>

definition quiet :: "'a pt_st_scheme \<Rightarrow> bool" where
  "quiet s \<longleftrightarrow> free_lock (ptable_lock s) \<and> (\<forall>c. cpu_ok (cpus s c) \<and> ncli (cpus s c) = 0)"

text \<open>The RUNNING processes are those the CPUs run, one each.\<close>

definition placed :: "'a pt_st_scheme \<Rightarrow> bool" where
  "placed s \<longleftrightarrow>
     (\<forall>c p. cproc (cpus s c) = Some p \<longrightarrow> p < NPROC \<and> state (proc s p) = RUNNING) \<and>
     (\<forall>c d p. cproc (cpus s c) = Some p \<longrightarrow> cproc (cpus s d) = Some p \<longrightarrow> c = d) \<and>
     (\<forall>p < NPROC. state (proc s p) = RUNNING \<longrightarrow> (\<exists>c. cproc (cpus s c) = Some p))"

definition live_mem :: "'a pt_st_scheme \<Rightarrow> bool" where
  "live_mem s \<longleftrightarrow> (\<forall>p < NPROC. live (proc s p) \<longrightarrow> has_mem (proc s p))"

definition sched_inv :: "'a pt_st_scheme \<Rightarrow> bool" where
  "sched_inv s \<longleftrightarrow> (\<exists>Q. ptinv s Q) \<and> quiet s \<and> placed s \<and> live_mem s"

lemma sched_inv_ready: "sched_inv s \<Longrightarrow> ready_cpu c s" "sched_inv s \<Longrightarrow> ncli (cpus s c) = 0" "sched_inv s \<Longrightarrow> runnable_mem s"
  by (auto simp: sched_inv_def quiet_def ready_cpu_def live_mem_def runnable_mem_def live_def)

lemma quiet_saved: "quiet s \<Longrightarrow> quiet (s'\<lparr>cpus := (cpus s)(c := saved (cpus s c)), ptable_lock := ptable_lock s\<rparr>)"
  by (simp add: quiet_def)

text \<open>A change of the table that neither starts nor stops a process.\<close>

lemma sched_inv_change:
  assumes inv: "sched_inv s" and s': "ptinv s' Q" "quiet s'"
    and c: "\<And>d. cproc (cpus s' d) = cproc (cpus s d)"
    and p: "\<And>p. state (proc s' p) = RUNNING \<longleftrightarrow> state (proc s p) = RUNNING"
      "\<And>p. live (proc s' p) \<Longrightarrow> live (proc s p)" "\<And>p. has_mem (proc s' p) = has_mem (proc s p)"
  shows "sched_inv s'"
proof -
  have "placed s'" using inv c p(1) by (simp add: sched_inv_def placed_def)
  moreover have "live_mem s'" using inv p(2,3) by (auto simp: sched_inv_def live_mem_def)
  ultimately show ?thesis using s' by (auto simp: sched_inv_def)
qed

text \<open>Process \<open>p\<close> leaves CPU \<open>c\<close>; process \<open>p\<close> enters CPU \<open>c\<close>.\<close>

lemma sched_inv_leave:
  assumes inv: "sched_inv s" and s': "ptinv s' Q" "quiet s'" and c: "cproc (cpus s c) = Some p"
    and c': "\<And>d. cproc (cpus s' d) = (if d = c then None else cproc (cpus s d))"
    and p: "state (proc s' p) \<noteq> RUNNING" "\<And>q. q \<noteq> p \<Longrightarrow> state (proc s' q) = RUNNING \<longleftrightarrow> state (proc s q) = RUNNING"
      "\<And>q. has_mem (proc s' q) = has_mem (proc s q)" "\<And>q. q \<noteq> p \<Longrightarrow> live (proc s' q) \<Longrightarrow> live (proc s q)"
  shows "sched_inv s'"
proof -
  have pl: "placed s" and lm: "live_mem s" using inv by (auto simp: sched_inv_def)
  have run: "p < NPROC" "state (proc s p) = RUNNING" using pl c by (auto simp: placed_def)
  have one: "cproc (cpus s d) \<noteq> Some p" if "d \<noteq> c" for d using pl c that by (auto simp: placed_def)
  have "placed s'" unfolding placed_def c'
  proof (intro conjI allI impI)
    fix d q assume "(if d = c then None else cproc (cpus s d)) = Some q"
    then have "d \<noteq> c" "cproc (cpus s d) = Some q" by (auto split: if_splits)
    moreover from this one have "q \<noteq> p" by blast
    ultimately show "q < NPROC" "state (proc s' q) = RUNNING" using pl p(2)[of q] by (auto simp: placed_def)
  next
    fix d e q assume "(if d = c then None else cproc (cpus s d)) = Some q" "(if e = c then None else cproc (cpus s e)) = Some q"
    then show "d = e" using pl by (auto simp: placed_def split: if_splits)
  next
    fix q assume "q < NPROC" "state (proc s' q) = RUNNING"
    moreover from this p(1) have "q \<noteq> p" by blast
    ultimately obtain d where d: "cproc (cpus s d) = Some q" using pl p(2)[of q] by (auto simp: placed_def)
    then have "d \<noteq> c" using c \<open>q \<noteq> p\<close> by auto
    then show "\<exists>d. (if d = c then None else cproc (cpus s d)) = Some q" using d by auto
  qed
  moreover have "live_mem s'" unfolding live_mem_def p(3)
  proof (intro allI impI)
    fix q assume q: "q < NPROC" "live (proc s' q)"
    have "live (proc s p)" using run by (simp add: live_def)
    then have "live (proc s q)" using p(4)[of q] q(2) by (cases "q = p") simp_all
    then show "has_mem (proc s q)" using lm q(1) by (simp add: live_mem_def)
  qed
  ultimately show ?thesis using s' by (auto simp: sched_inv_def)
qed

lemma sched_inv_enter:
  assumes inv: "sched_inv s" and s': "ptinv s' Q" "quiet s'" and c: "cproc (cpus s c) = None"
    and c': "\<And>d. cproc (cpus s' d) = (if d = c then Some p else cproc (cpus s d))"
    and p: "p < NPROC" "state (proc s p) = RUNNABLE" "state (proc s' p) = RUNNING"
      "\<And>q. q \<noteq> p \<Longrightarrow> state (proc s' q) = state (proc s q)" "\<And>q. has_mem (proc s' q) = has_mem (proc s q)"
  shows "sched_inv s'"
proof -
  have pl: "placed s" and lm: "live_mem s" using inv by (auto simp: sched_inv_def)
  have none: "cproc (cpus s d) \<noteq> Some p" for d using pl p(2) by (auto simp: placed_def)
  have "placed s'" unfolding placed_def c'
  proof (intro conjI allI impI)
    fix d q assume d: "(if d = c then Some p else cproc (cpus s d)) = Some q"
    then show "q < NPROC" "state (proc s' q) = RUNNING"
      using pl p none by (cases "q = p"; auto simp: placed_def split: if_splits)+
  next
    fix d e q assume "(if d = c then Some p else cproc (cpus s d)) = Some q" "(if e = c then Some p else cproc (cpus s e)) = Some q"
    then show "d = e" using pl none by (auto simp: placed_def split: if_splits)
  next
    fix q assume q: "q < NPROC" "state (proc s' q) = RUNNING"
    show "\<exists>d. (if d = c then Some p else cproc (cpus s d)) = Some q"
    proof (cases "q = p")
      case False
      then obtain d where "cproc (cpus s d) = Some q" using pl p(4) q by (auto simp: placed_def)
      moreover from this have "d \<noteq> c" using c by auto
      ultimately show ?thesis by auto
    qed auto
  qed
  moreover have "live_mem s'" unfolding live_mem_def p(5)
  proof (intro allI impI)
    fix q assume "q < NPROC" "live (proc s' q)"
    then show "has_mem (proc s q)" using lm p by (cases "q = p") (auto simp: live_mem_def live_def)
  qed
  ultimately show ?thesis using s' by (auto simp: sched_inv_def)
qed

section \<open>Every action keeps it\<close>

lemma ptable_release_top:
  assumes "cpu_ok (cpus s c)" "ncli (cpus s c) = 1" "held_by c (ptable_lock s)"
  shows "\<exists>k l. ptable_release c s = Ok (s\<lparr>cpus := (cpus s)(c := k), ptable_lock := l\<rparr>) \<and>
     cpu_ok k \<and> ncli k = 0 \<and> cproc k = cproc (cpus s c) \<and> free_lock l"
proof -
  have "saved (cpus s c) = cpus s c" using assms(2) by (simp add: saved_def)
  moreover have "\<not> interrupts_on (cpus s) c" using assms(1,2) by (simp add: cpu_ok_def interrupts_on_def)
  moreover define k where "k = (cpus s c)\<lparr>ncli := 0,
    eflags := (if intena (cpus s c) \<noteq> 0 then eflags (cpus s c) OR FL_IF else eflags (cpus s c))\<rparr>"
  ultimately have "ptable_release c s =
      Ok (s\<lparr>cpus := (cpus s)(c := k), ptable_lock := (ptable_lock s)\<lparr>lk_cpu := None, locked := 0\<rparr>\<rparr>)" using assms
    by (auto simp: ptable_release_def release_def holding_eq held_by_def popcli_def Let_def sti_def fun_upd_idem)
  moreover have "cpu_ok k" "ncli k = 0" "cproc k = cproc (cpus s c)" by (simp_all add: k_def cpu_ok_def)
  moreover have "free_lock ((ptable_lock s)\<lparr>lk_cpu := None, locked := 0\<rparr>)" by (simp add: free_lock_def)
  ultimately show ?thesis by blast
qed

text \<open>The fields of a state given up to its links.\<close>

lemma core_fields:
  assumes "core s' = core t"
  shows "cpus s' = cpus t" "ptable_lock s' = ptable_lock t" "state (proc s' q) = state (proc t q)"
    "has_mem (proc s' q) = has_mem (proc t q)"
  using arg_cong[OF assms, of cpus] arg_cong[OF assms, of ptable_lock] arg_cong[OF assms, of "\<lambda>s. state (proc s q)"]
    arg_cong[OF assms, of "\<lambda>s. has_mem (proc s q)"] by simp_all

lemma quiet_with_lock:
  assumes "sched_inv s"
  shows "cpu_ok (cpus (with_lock c s) c)" "ncli (cpus (with_lock c s) c) = 1" "held_by c (ptable_lock (with_lock c s))"
    "cproc (cpus (with_lock c s) d) = cproc (cpus s d)" "d \<noteq> c \<Longrightarrow> cpus (with_lock c s) d = cpus s d"
  using with_lock_cpu[OF sched_inv_ready(1,2)[OF assms], of c] by (simp_all add: with_lock_def cproc_pushcli)

lemma scheduler_exit_inv:
  assumes inv: "sched_inv s" and c: "cproc (cpus s c) = Some p"
    and s1: "ptinv s1 Q" "cpus s1 = cpus (with_lock c s)" "ptable_lock s1 = ptable_lock (with_lock c s)"
    and p: "state (proc s1 p) \<noteq> RUNNING" "\<And>q. q \<noteq> p \<Longrightarrow> state (proc s1 q) = RUNNING \<longleftrightarrow> state (proc s q) = RUNNING"
      "\<And>q. has_mem (proc s1 q) = has_mem (proc s q)" "\<And>q. q \<noteq> p \<Longrightarrow> live (proc s1 q) \<Longrightarrow> live (proc s q)"
  shows "\<exists>s2. scheduler_exit c s1 = Ok s2 \<and> sched_inv s2"
proof -
  note W = quiet_with_lock[OF inv]
  let ?t = "cpu_upd c (\<lambda>k. k\<lparr>cproc := None\<rparr>) (switchkvm c s1)"
  have "cpu_ok (cpus ?t c)" "ncli (cpus ?t c) = 1" "held_by c (ptable_lock ?t)"
    using W s1(2,3) by (simp_all add: switchkvm_def cpu_ok_def)
  then obtain k l where k: "ptable_release c ?t = Ok (?t\<lparr>cpus := (cpus ?t)(c := k), ptable_lock := l\<rparr>)"
      "cpu_ok k" "ncli k = 0" "cproc k = None" "free_lock l"
    using ptable_release_top[of ?t c] by (auto simp: switchkvm_def)
  let ?s2 = "?t\<lparr>cpus := (cpus ?t)(c := k), ptable_lock := l\<rparr>"
  have other: "cpus ?s2 d = cpus s d" if "d \<noteq> c" for d using that s1(2) W(5)[OF that] by (simp add: switchkvm_def)
  have pr: "proc ?s2 = proc s1" by (simp add: switchkvm_def)
  have "sched_inv ?s2"
  proof (rule sched_inv_leave[OF inv _ _ c])
    show "ptinv ?s2 Q" using s1(1) by (simp add: switchkvm_def)
    have "cpu_ok (cpus ?s2 d) \<and> ncli (cpus ?s2 d) = 0" for d
    proof (cases "d = c")
      case False
      show ?thesis unfolding other[OF False] using inv by (simp add: sched_inv_def quiet_def)
    qed (use k in simp)
    then show "quiet ?s2" using k by (simp add: quiet_def)
    show "cproc (cpus ?s2 d) = (if d = c then None else cproc (cpus s d))" for d
      using k other[of d] by (cases "d = c") auto
  qed (use p in \<open>simp_all add: pr\<close>)
  then show ?thesis using k by (auto simp: scheduler_exit_def)
qed

lemma leave_ok:
  assumes "sched_inv (kernel M)" "cproc (cpus (kernel M) c) = Some p"
    and "out = Ok (ie, s1)" "ptinv s1 Q" "core s1 = core (pupd p f (with_lock c (kernel M)))"
    and "state (f (proc (kernel M) p)) \<noteq> RUNNING" "has_mem (f (proc (kernel M) p)) = has_mem (proc (kernel M) p)"
  shows "\<exists>M'. leave c p r out M = Ok M' \<and> sched_inv (kernel M')"
proof -
  note F = core_fields[OF assms(5)]
  have "\<exists>s2. scheduler_exit c s1 = Ok s2 \<and> sched_inv s2"
    by (rule scheduler_exit_inv[OF assms(1,2,4)]) (use F assms(6,7) in \<open>auto simp: pupd_def live_def split: if_splits\<close>)
  then show ?thesis using assms(3) by (auto simp: leave_def)
qed

lemma link_indep_yield: "link_indep (yield_proc now)" and link_indep_sleep: "link_indep (sleep_proc now ch)"
  by (simp_all add: link_indep_def yield_proc_def sleep_proc_def acct_proc_def charge_budget_def Let_def)

lemma sched_invE:
  assumes "sched_inv s" "cproc (cpus s c) = Some p"
  obtains Q where "ptinv s Q" "p < NPROC" "state (proc s p) = RUNNING" "ready_cpu c s" "ncli (cpus s c) = 0"
proof -
  obtain Q where "ptinv s Q" using assms(1) by (auto simp: sched_inv_def)
  moreover have "p < NPROC" "state (proc s p) = RUNNING" using assms by (auto simp: sched_inv_def placed_def)
  ultimately show ?thesis using that sched_inv_ready(1,2)[OF assms(1)] by blast
qed

lemma yield_act:
  assumes "sched_inv (kernel M)" "enabled (Yield c) M"
  shows "\<exists>M'. act (Yield c) M = Ok M' \<and> sched_inv (kernel M')"
proof -
  let ?s = "kernel M"
  obtain p where p: "cproc (cpus ?s c) = Some p" using assms(2) by auto
  from sched_invE[OF assms(1) p] obtain Q where q: "ptinv ?s Q" "p < NPROC" "state (proc ?s p) = RUNNING"
    "ready_cpu c ?s" "ncli (cpus ?s c) = 0" .
  obtain s' where s': "yield_enter c ?s = Ok (intena (cpus (with_lock c ?s) c), s')"
    "ptinv s' (moved (LState RUNNING) (LReady (unat (priority (charge_budget (ticks ?s) (proc ?s p))))) p Q)"
    "core s' = pupd p (yield_proc (ticks ?s)) (core (with_lock c ?s))"
    using yield_enter_ok[OF q(4,5,1) p q(2,3)] by blast
  have e: "core s' = core (pupd p (yield_proc (ticks ?s)) (with_lock c ?s))" using s'(3) link_indep_yield by simp
  show ?thesis
    using leave_ok[OF assms(1) p s'(1,2) e, of RYield] p by (simp add: yield_proc_def)
qed

text \<open>\<open>sleep\<close> without a lock takes \<open>ptable.lock\<close> and goes on as with that lock.\<close>

lemma sleep_nolock:
  assumes "ready_cpu c s" "ncli (cpus s c) = 0" "cproc (cpus s c) = Some p"
  shows "sleep_enter c ch NoLock s = sleep_enter c ch PtableLock (with_lock c s)"
proof -
  note W = with_lock_cpu[OF assms(1,2)]
  have "(cpus (with_lock c s))(c := saved (cpus (with_lock c s) c)) = cpus (with_lock c s)"
    using W by (simp add: saved_def fun_upd_idem)
  moreover have "(with_lock c s)\<lparr>cpus := cpus (with_lock c s)\<rparr> = with_lock c s" by simp
  ultimately have m: "myproc c (with_lock c s) = Ok (Some p, with_lock c s)"
    using W assms(3) by (simp add: myproc_eq)
  have "ptable_acquire c (after_lock c s) = Ok (with_lock c s)"
    using assms(1) by (simp add: ptable_acquire_eq with_lock_after)
  then show ?thesis using assms m
    by (simp add: sleep_enter_def myproc_eq ready_cpu_def flip: after_lock_def)
qed

lemma sleep_act:
  assumes "sched_inv (kernel M)" "enabled (Sleep c ch) M"
  shows "\<exists>M'. act (Sleep c ch) M = Ok M' \<and> sched_inv (kernel M')"
proof -
  let ?s = "kernel M"
  obtain p where p: "cproc (cpus ?s c) = Some p" using assms(2) by auto
  from sched_invE[OF assms(1) p] obtain Q where q: "ptinv ?s Q" "p < NPROC" "state (proc ?s p) = RUNNING"
    "ready_cpu c ?s" "ncli (cpus ?s c) = 0" .
  note W = quiet_with_lock[OF assms(1), of c]
  obtain s' where s': "sleep_enter c ch NoLock ?s = Ok (intena (cpus (with_lock c ?s) c), s')"
    "ptinv s' (moved (LState RUNNING) (LState SLEEPING) p Q)"
    "core s' = pupd p (sleep_proc (ticks ?s) ch) (core (with_lock c ?s))"
    using sleep_locked_ok[of "with_lock c ?s" Q c p ch] W q p by (auto simp: sleep_nolock[OF q(4,5) p])
  have e: "core s' = core (pupd p (sleep_proc (ticks ?s) ch) (with_lock c ?s))" using s'(3) link_indep_sleep by simp
  show ?thesis
    using leave_ok[OF assms(1) p s'(1,2) e, of RSleep] p by (simp add: sleep_proc_def)
qed

lemma top_ready_RUNNABLE:
  assumes "ptinv s Q" "top_ready (sched_lists s Q) i p"
  shows "p < NPROC" "state (proc s p) = RUNNABLE"
proof -
  have "p \<in> set (sched_lists s Q (LReady i))" using assms(2) by (auto simp: top_ready_def hd_ptr_eq_Some)
  then have "\<exists>j. p \<in> set (Q (LReady j))" by (auto simp: sched_lists_def shifted_def split: if_splits)
  then show "p < NPROC" "state (proc s p) = RUNNABLE" using in_LReady[OF assms(1)] by auto
qed

lemma resume_ok:
  assumes "cpu_ok (cpus s c)" "ncli (cpus s c) = 1" "held_by c (ptable_lock s)" "ptinv s Q" "p < NPROC"
  shows "\<exists>s2. resume_proc c p r s = Ok s2 \<and> ptinv s2 Q \<and> free_lock (ptable_lock s2) \<and>
     cpu_ok (cpus s2 c) \<and> ncli (cpus s2 c) = 0 \<and> cproc (cpus s2 c) = cproc (cpus s c) \<and>
     (\<forall>d. d \<noteq> c \<longrightarrow> cpus s2 d = cpus s d) \<and>
     (\<forall>q. state (proc s2 q) = state (proc s q) \<and> has_mem (proc s2 q) = has_mem (proc s q))"
proof -
  have rel: "\<exists>s2. ptable_release c t = Ok s2 \<and> ptinv s2 Q \<and> free_lock (ptable_lock s2) \<and>
     cpu_ok (cpus s2 c) \<and> ncli (cpus s2 c) = 0 \<and> cproc (cpus s2 c) = cproc (cpus s c) \<and>
     (\<forall>d. d \<noteq> c \<longrightarrow> cpus s2 d = cpus s d) \<and> proc s2 = proc t"
    if "ptinv t Q" "cpus t = cpus (sched_exit c ie s)" "ptable_lock t = ptable_lock s" for t ie
    using ptable_release_top[of t c] assms that by (auto simp: sched_exit_def cpu_ok_def)
  show ?thesis
  proof (cases r)
    case (RYield ie)
    then show ?thesis using rel[of "sched_exit c ie s" ie] assms(4) by (auto simp: yield_exit_def sched_exit_def)
  next
    case (RSleep ie)
    let ?t = "pupd p (\<lambda>x. x\<lparr>chan := Ch_null\<rparr>) (sched_exit c ie s)"
    have "ptinv ?t Q" using assms(4) prio_le[OF assms(4,5)]
      by (intro ptinv_pupd) (simp_all add: lkey_def sched_exit_def)
    from rel[OF this, of ie] obtain s2 where "ptable_release c ?t = Ok s2" "ptinv s2 Q" "free_lock (ptable_lock s2)"
     "cpu_ok (cpus s2 c)" "ncli (cpus s2 c) = 0" "cproc (cpus s2 c) = cproc (cpus s c)"
     "\<forall>d. d \<noteq> c \<longrightarrow> cpus s2 d = cpus s d" "proc s2 = proc ?t" by (auto simp: sched_exit_def)
    moreover have "state (proc ?t q) = state (proc s q) \<and> has_mem (proc ?t q) = has_mem (proc s q)" for q
      by (simp add: sched_exit_def pupd_def)
    ultimately show ?thesis using RSleep by (simp add: sleep_exit_def)
  qed
qed

lemma dispatched_fields:
  "cpus (dispatched c p s) d = (if d = c then uvm_cpu (ts_addr s c) (proc s p) ((cpus s c)\<lparr>cproc := Some p\<rparr>) else cpus s d)"
  "ptable_lock (dispatched c p s) = ptable_lock s"
  "state (proc (dispatched c p s) q) = (if q = p then RUNNING else state (proc s q))"
  "has_mem (proc (dispatched c p s) q) = has_mem (proc s q)"
  by (auto simp: dispatched_def pupd_def cpu_upd_def running_proc_def)

lemma schedule_act:
  assumes inv: "sched_inv (kernel M)" and en: "enabled (Schedule c) M"
  shows "\<exists>M'. act (Schedule c) M = Ok M' \<and> sched_inv (kernel M')"
proof -
  let ?s = "kernel M"
  obtain Q where Q: "ptinv ?s Q" using inv by (auto simp: sched_inv_def)
  have q: "quiet ?s" using inv by (simp add: sched_inv_def)
  have none: "cproc (cpus ?s c) = None" using en by simp
  note R = sched_inv_ready[OF inv]
  from scheduler_enter_ok[OF R(1,2) Q R(3), of c] consider
      (idle) s' where "scheduler_enter c ?s = Ok (None, s')" "ptinv s' (sched_lists ?s Q)" "ready_cpu c s'"
        "proc (core s') = proc (sched_promoted (core ?s))" "cpus s' = sti c ((cpus ?s)(c := saved (sti c (cpus ?s) c)))"
    | (run) i p s' where "top_ready (sched_lists ?s Q) i p" "scheduler_enter c ?s = Ok (Some p, s')"
        "ptinv s' (moved (LReady i) (LState RUNNING) p (sched_lists ?s Q))"
        "core s' = dispatched c p (sched_promoted (core (sched_start c ?s)))" by blast
  then show ?thesis
  proof cases
    case idle
    have f: "state (proc s' p) = state (proc ?s p)" "has_mem (proc s' p) = has_mem (proc ?s p)" for p
      using arg_cong[OF idle(4), of "\<lambda>x. state (x p)"] arg_cong[OF idle(4), of "\<lambda>x. has_mem (x p)"] by simp_all
    have "cpu_ok (cpus s' d) \<and> ncli (cpus s' d) = 0 \<and> cproc (cpus s' d) = cproc (cpus ?s d)" for d
      using q by (simp add: idle(5) quiet_def sti_def cpu_ok_def)
    then have "quiet s'" "\<And>d. cproc (cpus s' d) = cproc (cpus ?s d)" using idle(3) by (auto simp: quiet_def ready_cpu_def)
    then have "sched_inv s'" using f by (intro sched_inv_change[OF inv idle(2)]) (simp_all add: live_def)
    then show ?thesis using idle(1) by simp
  next
    case run
    let ?t = "dispatched c p (sched_promoted (core (sched_start c ?s)))"
    have F: "cpus s' = cpus ?t" "ptable_lock s' = ptable_lock ?t"
      using arg_cong[OF run(4), of cpus] arg_cong[OF run(4), of ptable_lock] by simp_all
    have st: "state (proc s' q) = (if q = p then RUNNING else state (proc ?s q))" "has_mem (proc s' q) = has_mem (proc ?s q)" for q
      using arg_cong[OF run(4), of "\<lambda>s. state (proc s q)"] arg_cong[OF run(4), of "\<lambda>s. has_mem (proc s q)"]
      by (simp_all add: dispatched_fields sched_start_def)
    note S = sched_start_cpu[OF R(1,2), of c]
    have oth: "cpus s' d = cpus ?s d" if "d \<noteq> c" for d
      using that by (simp add: F dispatched_fields sched_start_def with_lock_def)
    have cpu: "cpu_ok (cpus s' c)" "ncli (cpus s' c) = 1" "cproc (cpus s' c) = Some p"
      using S by (simp_all add: F dispatched_fields uvm_cpu_def cpu_ok_def)
    have lk: "held_by c (ptable_lock s')" by (simp add: F dispatched_fields sched_start_def held_by_with_lock)
    obtain s2 where s2: "resume_proc c p (conts M p) s' = Ok s2"
        "ptinv s2 (moved (LReady i) (LState RUNNING) p (sched_lists ?s Q))" "free_lock (ptable_lock s2)"
        "cpu_ok (cpus s2 c)" "ncli (cpus s2 c) = 0" "cproc (cpus s2 c) = Some p" "\<And>d. d \<noteq> c \<Longrightarrow> cpus s2 d = cpus ?s d"
        "\<And>q. state (proc s2 q) = state (proc s' q)" "\<And>q. has_mem (proc s2 q) = has_mem (proc s' q)"
      using resume_ok[OF cpu(1,2) lk run(3) top_ready_RUNNABLE(1)[OF Q run(1)], of "conts M p"] cpu(3) oth by auto
    have "cpu_ok (cpus s2 d) \<and> ncli (cpus s2 d) = 0" for d
      using s2(4,5) s2(7)[of d] q by (cases "d = c") (auto simp: quiet_def)
    then have "quiet s2" using s2(3) by (simp add: quiet_def)
    moreover have "cproc (cpus s2 d) = (if d = c then Some p else cproc (cpus ?s d))" for d
      using s2(6) s2(7)[of d] by (cases "d = c") auto
    ultimately have "sched_inv s2"
      using sched_inv_enter[OF inv s2(2) _ none] top_ready_RUNNABLE[OF Q run(1)] s2(8,9) st by auto
    then show ?thesis using run(2) s2(1) by simp
  qed
qed

text \<open>An operation that changes only the table, under the lock.\<close>

lemma table_act:
  assumes inv: "sched_inv s" and s': "ready_cpu c s'" "ptinv s' Q" "core s' = g (core (after_lock c s))"
    and g: "\<And>t. cpus (g t) = cpus t"
      "\<And>t q. state (proc (g t) q) = RUNNING \<longleftrightarrow> state (proc t q) = RUNNING"
      "\<And>t q. live (proc (g t) q) \<Longrightarrow> live (proc t q)" "\<And>t q. has_mem (proc (g t) q) = has_mem (proc t q)"
  shows "sched_inv s'"
proof -
  have q: "quiet s" using inv by (simp add: sched_inv_def)
  have c: "cpus s' = (cpus s)(c := saved (cpus s c))"
    using arg_cong[OF s'(3), of cpus] g(1) by (simp add: after_lock_def)
  have F: "state (proc s' p) = state (proc (g (core (after_lock c s))) p)"
    "live (proc s' p) = live (proc (g (core (after_lock c s))) p)"
    "has_mem (proc s' p) = has_mem (proc (g (core (after_lock c s))) p)" for p
    using arg_cong[OF s'(3), of "\<lambda>s. state (proc s p)"] arg_cong[OF s'(3), of "\<lambda>s. has_mem (proc s p)"]
    by (simp_all add: live_def)
  have "proc (after_lock c s) = proc s" by (simp add: after_lock_def)
  then have A: "state (proc (core (after_lock c s)) p) = state (proc s p)" "live (proc (core (after_lock c s)) p) = live (proc s p)"
    "has_mem (proc (core (after_lock c s)) p) = has_mem (proc s p)" for p by (simp_all add: live_def)
  show ?thesis
  proof (rule sched_inv_change[OF inv s'(2)])
    show "quiet s'" using q s'(1) by (simp add: quiet_def c ready_cpu_def)
    show "cproc (cpus s' d) = cproc (cpus s d)" for d by (simp add: c)
    show "(state (proc s' p) = RUNNING) = (state (proc s p) = RUNNING)" for p unfolding F g(2) A ..
    show "live (proc s p)" if "live (proc s' p)" for p using that g(3) unfolding F A[symmetric] by blast
    show "has_mem (proc s' p) = has_mem (proc s p)" for p unfolding F g(4) A ..
  qed
qed

lemma after_lock_inv: "sched_inv s \<Longrightarrow> sched_inv (after_lock c s)"
proof -
  assume inv: "sched_inv s"
  then obtain Q where Q: "ptinv s Q" by (auto simp: sched_inv_def)
  have "ptinv (after_lock c s) Q" using Q by (simp add: after_lock_def)
  then show ?thesis
    using sched_inv_ready(1)[OF inv, of c] by (intro table_act[OF inv, where g = "\<lambda>t. t"]) simp_all
qed

lemma wakeup_act:
  assumes "sched_inv (kernel M)"
  shows "\<exists>M'. act (Wakeup c ch) M = Ok M' \<and> sched_inv (kernel M')"
proof -
  obtain Q where Q: "ptinv (kernel M) Q" using assms by (auto simp: sched_inv_def)
  obtain s' where s': "wakeup c ch (kernel M) = Ok s'" "ready_cpu c s'"
    "ptinv s' (woken ch (proc (kernel M)) Q (Q (LState SLEEPING)) [])"
    "core s' = wakeup1_scan ch (core (after_lock c (kernel M)))"
    using wakeup_ok[OF sched_inv_ready(1)[OF assms] Q] by blast
  have "sched_inv s'" using s'(4) by (rule table_act[OF assms s'(2,3)])
    (auto simp: wakeup1_scan_eq wake_proc_def live_def split: if_splits)
  then show ?thesis using s'(1) by simp
qed

lemma kill_act:
  assumes "sched_inv (kernel M)"
  shows "\<exists>M'. act (Kill c pd) M = Ok M' \<and> sched_inv (kernel M')"
proof -
  obtain Q where Q: "ptinv (kernel M) Q" using assms by (auto simp: sched_inv_def)
  from kill_ok[OF sched_inv_ready(1)[OF assms] Q, of c pd] consider
      "kill c pd (kernel M) = Ok (-1, after_lock c (kernel M))"
    | p s' where "kill c pd (kernel M) = Ok (0, s')" "ready_cpu c s'" "ptinv s' (kill_lists p (proc (kernel M) p) Q)"
        "core s' = pupd p kill_proc (core (after_lock c (kernel M)))" by blast
  then show ?thesis
  proof cases
    case 1
    then show ?thesis using after_lock_inv[OF assms] by simp
  next
    case 2
    have "sched_inv s'" using 2(4) by (rule table_act[OF assms 2(2,3)])
      (auto simp: kill_proc_def live_def pupd_def has_mem_def split: if_splits)
    then show ?thesis using 2(1) by simp
  qed
qed

lemma setpriority_act:
  assumes "sched_inv (kernel M)"
  shows "\<exists>M'. act (SetPriority c pd prio) M = Ok M' \<and> sched_inv (kernel M')"
proof -
  obtain Q where Q: "ptinv (kernel M) Q" using assms by (auto simp: sched_inv_def)
  from setpriority_ok[OF sched_inv_ready(1)[OF assms] Q, of c pd prio] consider
      "setpriority c pd prio (kernel M) = Ok (-1, after_lock c (kernel M))"
    | p s' where "setpriority c pd prio (kernel M) = Ok (0, s')" "ready_cpu c s'"
        "ptinv s' (setprio_lists prio p (proc (kernel M) p) Q)"
        "core s' = pupd p (setprio_proc prio) (core (after_lock c (kernel M)))" by blast
  then show ?thesis
  proof cases
    case 1
    then show ?thesis using after_lock_inv[OF assms] by simp
  next
    case 2
    have "sched_inv s'" using 2(4) by (rule table_act[OF assms 2(2,3)])
      (auto simp: setprio_proc_def live_def pupd_def has_mem_def split: if_splits)
    then show ?thesis using 2(1) by simp
  qed
qed

lemma exit_act:
  assumes "sched_inv (kernel M)" "enabled (Exit c) M"
  shows "\<exists>M'. act (Exit c) M = Ok M' \<and> sched_inv (kernel M')"
proof -
  let ?s = "kernel M"
  obtain p where p: "cproc (cpus ?s c) = Some p" "initproc ?s \<noteq> Some p" using assms(2) by auto
  from sched_invE[OF assms(1) p(1)] obtain Q where q: "ptinv ?s Q" "p < NPROC" "state (proc ?s p) = RUNNING"
    "ready_cpu c ?s" "ncli (cpus ?s c) = 0" .
  obtain s' Q' where s': "exit_sched c p ?s = Ok (intena (cpus (with_lock c ?s) c), s')" "ptinv s' Q'"
    "core s' = exit_table c p ?s" using exit_sched_ok[OF q(4,5,1) p(1) q(2,3) p(2)] by blast
  note F = exit_fields[OF s'(3)]
  have "\<exists>s2. scheduler_exit c s' = Ok s2 \<and> sched_inv s2"
  proof (rule scheduler_exit_inv[OF assms(1) p(1) s'(2) F(6,7)])
    show "state (proc s' p) \<noteq> RUNNING" by (simp add: F(1))
    show "has_mem (proc s' q) = has_mem (proc ?s q)" for q by (rule F(5))
    fix q assume "q \<noteq> p"
    then show "state (proc s' q) = RUNNING \<longleftrightarrow> state (proc ?s q) = RUNNING" "live (proc s' q) \<Longrightarrow> live (proc ?s q)"
      using F(2)[of q] by (auto simp: live_def split: if_splits)
  qed
  then show ?thesis using s'(1) p(1) by auto
qed

lemma tick_act:
  assumes "sched_inv (kernel M)"
  shows "\<exists>M'. act Tick M = Ok M' \<and> sched_inv (kernel M')"
proof -
  obtain Q where "ptinv (kernel M) Q" using assms by (auto simp: sched_inv_def)
  then have "sched_inv ((kernel M)\<lparr>ticks := ticks (kernel M) + 1\<rparr>)"
    using assms by (intro sched_inv_change[OF assms]) (simp_all add: sched_inv_def quiet_def)
  then show ?thesis by simp
qed

lemmas act_ok = schedule_act yield_act sleep_act wakeup_act kill_act setpriority_act exit_act tick_act

lemma act_inv: "sched_inv (kernel M) \<Longrightarrow> enabled a M \<Longrightarrow> \<exists>M'. act a M = Ok M' \<and> sched_inv (kernel M')"
  by (cases a) (simp_all only: act_ok)

lemma steps_inv: "steps M N \<Longrightarrow> sched_inv (kernel M) \<Longrightarrow> sched_inv (kernel N)"
proof (induction rule: steps.induct)
  case (more_steps N a N')
  then show ?case using act_inv[of N a] by auto
qed

end
