(* ===== verification/Props_Kernel.thy ===== *)
theory Props_Kernel
  imports Sysproc Tx Proc_Machine
begin

unbundle bit_operations_syntax

declare One_nat_def [simp]

text \<open>
  Properties of the page allocator, the page tables, the process lists and the scheduler,
  each with an instance on a concrete kernel state.
\<close>

section \<open>Pages\<close>

text \<open>
  C31: A page that \<open>kalloc\<close> returns was on the free list; \<open>kfree\<close> of it succeeds, restores the
  free list, and changes no byte outside the page.
\<close>

theorem kalloc_kfree_roundtrip:
  assumes "kmem_ok c s xs" "kalloc c s = Ok (v, s1)" "v \<noteq> 0"
  shows "v \<in> set xs \<and> (\<exists>s2. kfree c v s1 = Ok s2 \<and> kmem_ok c s2 xs \<and> (\<forall>a. a \<notin> page v \<longrightarrow> mem s2 a = mem s a))"
proof -
  obtain s' where s': "kalloc c s = Ok (case xs of [] \<Rightarrow> 0 | x # _ \<Rightarrow> x, s')" "kmem_ok c s' (tl xs)"
    "end_sym s' = end_sym s" "mem s' = mem s" using kmem_ok_kalloc[OF assms(1)] by blast
  with assms(2,3) obtain ys where xs: "xs = v # ys" and [simp]: "s' = s1" by (cases xs) auto
  have "kpage (end_sym s1) v" "v \<notin> set ys" using assms(1) s'(3) by (auto simp: xs kmem_ok_def)
  with kmem_ok_kfree[of c s1 ys v] s' show ?thesis by (auto simp: xs)
qed

theorem kalloc_kfree_roundtrip_witness:
  "\<exists>s1. kalloc 0 demo_mem = Ok (0x80400000, s1) \<and> (\<exists>s2. kfree 0 0x80400000 s1 = Ok s2 \<and> kmem_ok 0 s2 [0x80400000])"
proof -
  obtain s1 where s1: "kalloc 0 demo_mem = Ok (0x80400000, s1)" using kmem_ok_kalloc[OF demo_mem_ok] by auto
  with kalloc_kfree_roundtrip[OF demo_mem_ok s1] show ?thesis by auto
qed

text \<open>
  C39: \<open>freerange\<close> ends and puts exactly the whole pages inside the range on the free list,
  in front of the pages that were there.
\<close>

theorem freerange_frees_pages:
  assumes "kmem_ok c s xs" "end_sym s \<le> vstart" "KERNBASE \<le> vstart" "vstart \<le> vend" "vend \<le> KERNBASE + PHYSTOP"
    and "\<And>x. x \<in> set xs \<Longrightarrow> x < vstart \<or> vend \<le> x"
  shows "\<exists>s'. freerange c vstart vend s = Ok s' \<and>
     kmem_ok c s' (rev (pages_from (PGROUNDUP vstart) ((unat vend - unat (PGROUNDUP vstart)) div 4096)) @ xs)"
  by (rule freerange_pages[OF assms])

theorem freerange_frees_pages_witness:
  "\<exists>s'. freerange 0 0x80300800 0x80303800 demo_mem = Ok s' \<and> kmem_ok 0 s' [0x80302000, 0x80301000, 0x80400000]"
proof -
  have "PGROUNDUP 0x80300800 = 0x80301000" by (simp add: PGROUNDUP_def PGSIZE_def)
  moreover have "pages_from 0x80301000 2 = [0x80301000, 0x80302000]"
    by (simp add: numeral_2_eq_2 pages_from_Suc)
  ultimately show ?thesis
    using freerange_frees_pages[OF demo_mem_ok, of "0x80300800" "0x80303800"]
    by (auto simp: KERNBASE_def PHYSTOP_def)
qed

section \<open>Page tables\<close>

text \<open>
  C22: \<open>mappages\<close> on page-aligned addresses that are not mapped either installs exactly the
  mappings asked for and leaves every other address alone, or returns \<open>-1\<close> with the free
  list exhausted and no mapping changed outside the range.  Only free pages and the pages
  of the table are written.
\<close>

theorem mappages_installs:
  assumes "vm_ok c s xs pgd" "page_aligned va" "0 < n" "4096 * n \<le> 2 ^ 32"
    and "\<And>a. a \<in> span va (4096 * n) \<Longrightarrow> \<not> present (pte (mem s) pgd a)"
  shows "\<exists>r s' xs'. mappages c pgd va (of_nat (4096 * n)) pa perm s = Ok (r, s') \<and> vm_ok c s' xs' pgd \<and>
     vm_frame s xs pgd s' xs' \<and>
     (r = 0 \<and> pte (mem s') pgd = mapped va n pa perm (pte (mem s) pgd) \<or>
      r = -1 \<and> xs' = [] \<and> (\<forall>a. a \<notin> span va (4096 * n) \<longrightarrow> pte (mem s') pgd a = pte (mem s) pgd a))"
  using mappages_ok[OF assms(1-4) refl assms(5)] by (simp add: map_result_def)

lemma zero_pde [simp]: "pde (\<lambda>_. 0) pgd i = 0"
  by (simp add: pde_def ld32_def)

lemma zero_present [simp]: "\<not> present 0"
  by (simp add: present_def)

lemma demo_vm_ok: "vm_ok 0 demo_mem [0x80400000] 0x80500000"
  using demo_mem_ok by (simp add: vm_ok_def pgd_ok_def demo_kpage page_aligned_def)

theorem mappages_installs_witness:
  "\<exists>r s' xs'. mappages 0 0x80500000 0x4000 (of_nat (4096 * 2)) 0x1000 PTE_W demo_mem = Ok (r, s') \<and>
     vm_ok 0 s' xs' 0x80500000 \<and>
     (r = 0 \<and> pte (mem s') 0x80500000 = mapped 0x4000 2 0x1000 PTE_W (\<lambda>_. 0) \<or> r = -1 \<and> xs' = [])"
proof -
  have "pte (mem demo_mem) 0x80500000 = (\<lambda>_. 0)" by (simp add: pte_def fun_eq_iff)
  with mappages_installs[OF demo_vm_ok, of "0x4000" 2 "0x1000" PTE_W] show ?thesis
    by (fastforce simp: page_aligned_def)
qed

section \<open>The process lists\<close>

text \<open>
  C13: \<open>stateListAdd\<close> and \<open>stateListRemove\<close> implement a family of disjoint sequences: adding
  a process that is on no list appends it, removing one takes out just that one and
  returns 0, removing one that is not there changes nothing and returns \<open>-1\<close>; nothing but
  the links and the list heads and tails is written.
\<close>

theorem stateLists_refine_sequences:
  assumes "lists_rep s Q" "lref_ok l"
  shows "if p \<in> set (Q l)
     then \<exists>s'. stateListRemove l (Some p) s = Ok (0, s') \<and> lists_rep s' (Q(l := remove1 p (Q l))) \<and> core s' = core s
     else stateListRemove l (Some p) s = Ok (-1, s) \<and>
       ((\<forall>m. p \<notin> set (Q m)) \<longrightarrow>
        (\<exists>s'. stateListAdd l p s = Ok s' \<and> lists_rep s' (Q(l := Q l @ [p])) \<and> core s' = core s))"
  using stateListRemove_rep[OF assms] stateListRemove_absent[OF assms] stateListAdd_rep[OF assms] by auto

lemma demo_lists: "lists_rep demo_st demo_Q"
  using demo_ok(1) by (rule ptinvD(1))

theorem stateLists_refine_sequences_witness:
  "(\<exists>s'. stateListRemove (LState SLEEPING) (Some 1) demo_st = Ok (0, s') \<and>
      lists_rep s' (demo_Q(LState SLEEPING := [])) \<and> core s' = core demo_st) \<and>
   stateListRemove (LState SLEEPING) (Some 2) demo_st = Ok (-1, demo_st)"
  using stateLists_refine_sequences[OF demo_lists, of "LState SLEEPING" 1]
    stateLists_refine_sequences[OF demo_lists, of "LState SLEEPING" 2] by (auto simp: demo_Q_def)

text \<open>
  C12: On a table whose lists agree with the process states, \<open>wakeup\<close> walks only the sleeping
  list but changes the table exactly as the earlier scan over all slots did; the lists
  agree with the states again, the processes woken being at the ends of their ready lists.
\<close>

theorem wakeup_equals_table_scan:
  assumes "ready_cpu c s" "ptinv s Q"
  shows "\<exists>s'. wakeup c ch s = Ok s' \<and> ready_cpu c s' \<and> core s' = wakeup1_scan ch (core (after_lock c s)) \<and>
     ptinv s' (\<lambda>l. case l of
        LState st \<Rightarrow> if st = SLEEPING then filter (\<lambda>p. chan (proc s p) \<noteq> ch) (Q l) else Q l
      | LReady k \<Rightarrow> Q l @ filter (\<lambda>p. chan (proc s p) = ch \<and> unat (priority (proc s p)) = k) (Q (LState SLEEPING)))"
proof -
  have "woken ch (proc s) Q (Q (LState SLEEPING)) [] = (\<lambda>l. case l of
        LState st \<Rightarrow> if st = SLEEPING then filter (\<lambda>p. chan (proc s p) \<noteq> ch) (Q l) else Q l
      | LReady k \<Rightarrow> Q l @ filter (\<lambda>p. chan (proc s p) = ch \<and> unat (priority (proc s p)) = k) (Q (LState SLEEPING)))"
    by (auto simp: woken_def fun_eq_iff split: lref.splits)
  then show ?thesis using wakeup_ok[OF assms, of ch] by auto
qed

theorem wakeup_equals_table_scan_witness:
  "\<exists>s' Q'. wakeup 0 Ch_ticks demo_st = Ok s' \<and> ptinv s' Q' \<and> Q' (LState SLEEPING) = [] \<and> Q' (LReady 6) = [2, 1]"
proof -
  have "chan (proc demo_st 1) = Ch_ticks" "unat (priority (proc demo_st 1)) = 6"
    by (simp_all add: demo_st_def demo_proc_def Let_def zero_proc_def)
  moreover have "demo_Q (LState SLEEPING) = [1]" "demo_Q (LReady 6) = [2]" by (simp_all add: demo_Q_def)
  ultimately have q: "filter (\<lambda>p. chan (proc demo_st p) \<noteq> Ch_ticks) (demo_Q (LState SLEEPING)) = []"
    "demo_Q (LReady 6) @ filter (\<lambda>p. chan (proc demo_st p) = Ch_ticks \<and> unat (priority (proc demo_st p)) = 6)
      (demo_Q (LState SLEEPING)) = [2, 1]" by simp_all
  from wakeup_equals_table_scan[OF demo_ok(2,1), of Ch_ticks] q show ?thesis by fastforce
qed

text \<open>
  C38: \<open>kill\<close> returns 0 exactly when some process that is not UNUSED has the pid; it marks one
  such process killed, makes it RUNNABLE on its ready list if it was asleep, and changes
  nothing else; otherwise it returns \<open>-1\<close> and changes nothing.
\<close>

theorem kill_marks_process:
  assumes "ready_cpu c s" "ptinv s Q"
  shows "if \<exists>p < NPROC. state (proc s p) \<noteq> UNUSED \<and> pid (proc s p) = pd
     then \<exists>p s'. p < NPROC \<and> state (proc s p) \<noteq> UNUSED \<and> pid (proc s p) = pd \<and> kill c pd s = Ok (0, s') \<and> ready_cpu c s' \<and>
       ptinv s' (if state (proc s p) = SLEEPING then moved (LState SLEEPING) (LReady (unat (priority (proc s p)))) p Q else Q) \<and>
       core s' = pupd p (\<lambda>x. if state x = SLEEPING then x\<lparr>killed := True, state := RUNNABLE\<rparr> else x\<lparr>killed := True\<rparr>)
                   (core (after_lock c s))
     else kill c pd s = Ok (-1, after_lock c s)"
  using kill_ok[OF assms, of pd] unfolding in_state_live kill_lists_def kill_proc_def by (auto simp: kill_proc_def[abs_def])

theorem kill_marks_process_witness:
  "(\<exists>s' Q'. kill 0 2 demo_st = Ok (0, s') \<and> ptinv s' Q' \<and> killed (proc s' 1)) \<and>
   kill 0 77 demo_st = Ok (-1, after_lock 0 demo_st)"
proof -
  let ?live = "\<lambda>pd p. p < NPROC \<and> state (proc demo_st p) \<noteq> UNUSED \<and> pid (proc demo_st p) = pd"
  have l: "?live pd p \<longleftrightarrow> p < 3 \<and> pd = of_nat p + 1" for p pd
    by (auto simp: demo_st_def demo_proc_def Let_def zero_proc_def NPROC_def)
  have small: "p < 3 \<longleftrightarrow> p = 0 \<or> p = 1 \<or> p = 2" for p :: nat by linarith
  have two: "?live 2 p \<longleftrightarrow> p = 1" for p unfolding l small by auto
  have none: "\<not> ?live 77 p" for p unfolding l small by (rule notI, elim conjE disjE) simp_all
  have "\<exists>p. ?live 2 p" unfolding two by simp
  then obtain p s' where s': "?live 2 p" "kill 0 2 demo_st = Ok (0, s')"
      "\<exists>Q'. ptinv s' Q'" "core s' = pupd p (\<lambda>x. if state x = SLEEPING then x\<lparr>killed := True, state := RUNNABLE\<rparr> else x\<lparr>killed := True\<rparr>)
                   (core (after_lock 0 demo_st))"
    using kill_marks_process[OF demo_ok(2,1), of 2] by auto
  have "p = 1" using s'(1) two by blast
  then have "killed (proc s' 1)" using arg_cong[OF s'(4), of "\<lambda>s. killed (proc s 1)"] by (simp add: pupd_def split: if_splits)
  then show ?thesis using s' none kill_marks_process[OF demo_ok(2,1), of 77] by auto
qed

end
