(* ===== verification/Props_Sched.thy ===== *)
theory Props_Sched
  imports Demo Proc_Machine
begin

text \<open>
  Properties of the scheduler: the machine of several CPUs, the choice of the next process,
  promotion and demotion.
\<close>

section \<open>The machine\<close>

lemma demo_proc_cases:
  "state (demo_proc p) = (if p = 0 then RUNNING else if p = 1 then SLEEPING else if p = 2 then RUNNABLE else UNUSED)"
  "p < 3 \<Longrightarrow> has_mem (demo_proc p)"
  by (auto simp: demo_proc_def Let_def zero_proc_def has_mem_def)

lemma demo_st_fields [simp]: "proc demo_st = demo_proc" "cpus demo_st = demo_cpus"
  by (simp_all add: demo_st_def)

lemma demo_cproc: "cproc (demo_cpus c) = (if c = 0 then Some 0 else None)"
  by (simp add: demo_cpus_def idle_cpu_def)

lemma demo_sched_inv: "sched_inv demo_st"
proof -
  have "quiet demo_st" using demo_ok(2) demo_cpu0(1)
    by (auto simp: quiet_def ready_cpu_def demo_cpus_def idle_cpu_def)
  moreover have "placed demo_st"
    by (auto simp: placed_def demo_cproc demo_proc_cases NPROC_def split: if_splits)
  moreover have "live_mem demo_st"
    by (auto simp: live_mem_def live_def demo_proc_cases split: if_splits)
  ultimately show ?thesis using demo_ok(1) by (auto simp: sched_inv_def)
qed

definition demo_machine :: "pt_st machine" where
  "demo_machine = \<lparr>kernel = demo_st, conts = (\<lambda>_. RYield 0)\<rparr>"

text \<open>
  C3: Whatever the CPUs do, in whatever order (scheduling, yielding, sleeping, waking,
  killing, changing priorities, exiting, clock ticks), a process that is RUNNING is the current process of
  exactly one CPU, the current process of a CPU is RUNNING, and every process is on the
  list of its state (and priority) and on no other.
\<close>

theorem scheduler_machine_safe:
  assumes "sched_inv (kernel M)" "steps M N"
  shows "(\<forall>p < NPROC. state (proc (kernel N) p) = RUNNING \<longleftrightarrow> (\<exists>!c. cproc (cpus (kernel N) c) = Some p)) \<and>
     (\<exists>Q. lists_rep (kernel N) Q \<and> (\<forall>l p. p \<in> set (Q l) \<longleftrightarrow> p < NPROC \<and> lkey (proc (kernel N) p) = l))"
proof -
  have inv: "sched_inv (kernel N)" using steps_inv[OF assms(2,1)] .
  then obtain Q where "ptinv (kernel N) Q" by (auto simp: sched_inv_def)
  note Q = ptinvD(1,3)[OF this]
  have "placed (kernel N)" using inv by (simp add: sched_inv_def)
  then have "\<forall>p < NPROC. state (proc (kernel N) p) = RUNNING \<longleftrightarrow> (\<exists>!c. cproc (cpus (kernel N) c) = Some p)"
    unfolding placed_def by blast
  then show ?thesis using Q by blast
qed

text \<open>CPU 1 of the demo machine is idle and takes process 2.\<close>

lemma demo_schedules: "\<exists>N. act (Schedule 1) demo_machine = Ok N \<and> cproc (cpus (kernel N) 1) = Some 2"
proof -
  have l: "sched_lists demo_st demo_Q = demo_Q" by (simp add: sched_lists_def demo_st_def)
  note R = sched_inv_ready[OF demo_sched_inv]
  have "demo_Q (LReady 6) = [2]" by (simp add: demo_Q_def)
  then have "\<not> (\<forall>k \<le> MAXPRIO. demo_Q (LReady k) = [])" by (auto simp: MAXPRIO_def)
  then obtain i p s' where run: "top_ready demo_Q i p" "scheduler_enter 1 demo_st = Ok (Some p, s')"
      "ptinv s' (moved (LReady i) (LState RUNNING) p demo_Q)" "core s' = dispatched 1 p (sched_promoted (core (sched_start 1 demo_st)))"
    using scheduler_enter_ok[OF R(1,2) demo_ok(1) R(3), of 1] unfolding l by blast
  have p: "p = 2" using run(1) by (auto simp: top_ready_def demo_Q_def hd_ptr_eq_Some split: if_splits)
  have F: "cpus s' = cpus (dispatched 1 p (sched_promoted (core (sched_start 1 demo_st))))"
      "ptable_lock s' = ptable_lock (dispatched 1 p (sched_promoted (core (sched_start 1 demo_st))))"
    using arg_cong[OF run(4), of cpus] arg_cong[OF run(4), of ptable_lock] by simp_all
  have "cpu_ok (cpus s' 1)" "ncli (cpus s' 1) = 1" "cproc (cpus s' 1) = Some p"
    using sched_start_cpu[OF R(1,2), of 1] by (simp_all add: F dispatched_fields uvm_cpu_def cpu_ok_def)
  moreover have "held_by 1 (ptable_lock s')" by (simp add: F dispatched_fields sched_start_def held_by_with_lock)
  moreover have "p < NPROC" by (simp add: p NPROC_def)
  ultimately show ?thesis using resume_ok[of s' 1 _ p "RYield 0"] run(2,3) p by (fastforce simp: demo_machine_def)
qed

theorem scheduler_machine_safe_witness:
  "\<exists>N. steps demo_machine N \<and> state (proc demo_st 2) = RUNNABLE \<and> state (proc (kernel N) 2) = RUNNING \<and>
     (\<forall>p < NPROC. state (proc (kernel N) p) = RUNNING \<longleftrightarrow> (\<exists>!c. cproc (cpus (kernel N) c) = Some p))"
proof -
  have inv: "sched_inv (kernel demo_machine)" by (simp add: demo_machine_def demo_sched_inv)
  have en: "enabled (Schedule 1) demo_machine" by (simp add: demo_machine_def demo_cproc)
  obtain N where N: "act (Schedule 1) demo_machine = Ok N" "cproc (cpus (kernel N) 1) = Some 2" using demo_schedules by blast
  have st: "steps demo_machine N" using steps.stay en N(1) by (rule more_steps)
  have "placed (kernel N)" using steps_inv[OF st inv] by (simp add: sched_inv_def)
  then have "state (proc (kernel N) 2) = RUNNING" using N(2) by (auto simp: placed_def)
  then show ?thesis using scheduler_machine_safe[OF inv st] st by (auto simp: demo_proc_cases)
qed

text \<open>
  C6: No action of a reachable machine panics, follows a null pointer or waits for ever: a
  CPU in its scheduler loop can always schedule, and one that runs a process can always
  yield, sleep, wake, kill, set priorities and, unless it runs init, exit.
\<close>

theorem scheduler_machine_progress:
  assumes "sched_inv (kernel M)" "steps M N" "enabled a N"
  shows "\<exists>N'. act a N = Ok N' \<and> steps M N'"
  using act_inv[OF steps_inv[OF assms(2,1)] assms(3)] more_steps[OF assms(2,3)] by blast

theorem scheduler_machine_progress_witness:
  "\<exists>N. act (Yield 0) demo_machine = Ok N \<and> steps demo_machine N"
  using scheduler_machine_progress[OF _ steps.stay, of demo_machine "Yield 0"]
  by (simp add: demo_machine_def demo_sched_inv demo_cproc)

section \<open>Choosing a process\<close>

text \<open>The ready lists and a process after a promotion, when one is due.\<close>

definition raised_lists :: "bool \<Rightarrow> (lref \<Rightarrow> nat list) \<Rightarrow> lref \<Rightarrow> nat list" where
  "raised_lists due Q l =
     (case l of
        LState st \<Rightarrow> Q l
      | LReady i \<Rightarrow>
          if \<not> due \<or> MAXPRIO < i then Q l else if i = 0 then []
          else if i = MAXPRIO then Q (LReady MAXPRIO) @ Q (LReady (MAXPRIO - 1)) else Q (LReady (i - 1)))"

definition raised_proc :: "bool \<Rightarrow> nat \<Rightarrow> proc \<Rightarrow> proc" where
  "raised_proc due p x =
     (if due \<and> p < NPROC \<and> (state x = SLEEPING \<or> state x = RUNNING \<or> state x = RUNNABLE \<and> unat (priority x) < MAXPRIO)
      then x\<lparr>priority := (if unat (priority x) < MAXPRIO then priority x + 1 else priority x), budget := BUDGET\<rparr> else x)"

lemma raised_lists_eq: "sched_lists s Q = raised_lists (PromoteAtTime s \<le> ticks s) Q"
  by (auto simp: sched_lists_def shifted_def raised_lists_def fun_eq_iff MAXPRIO_def split: lref.splits)

lemma raised_proc_eq: "proc (sched_promoted s) = (\<lambda>q. raised_proc (PromoteAtTime s \<le> ticks s) q (proc s q))"
  by (auto simp: sched_promoted_def procs_upd_def raised_proc_def promotable_def promote_proc_def word_less_nat_alt MAXPRIO_def fun_eq_iff)

text \<open>
  C9: The scheduler takes the head of the highest nonempty ready list, moves it to the end of
  the running list, makes it the current process of the CPU with its page table and kernel
  stack loaded, and notes the time; with all ready lists empty it frees the lock.  When
  \<open>PromoteAtTime\<close> has come, the lists and the processes are those after a promotion: every ready
  list below the top one has moved up by one level, and the sleeping and running processes and
  the ready ones below the top have a priority one higher and a fresh budget; otherwise
  no process changes but the one chosen.
\<close>

theorem scheduler_runs_highest:
  assumes "ready_cpu c s" "ncli (cpus s c) = 0" "ptinv s Q" "runnable_mem s"
  shows "let due = PromoteAtTime s \<le> ticks s; R = raised_lists due Q; P = (\<lambda>q. raised_proc due q (proc (core s) q))
     in if \<forall>k \<le> MAXPRIO. R (LReady k) = []
        then \<exists>s'. scheduler_enter c s = Ok (None, s') \<and> ptinv s' R \<and> ready_cpu c s' \<and> proc (core s') = P
        else \<exists>i p ps s'. i \<le> MAXPRIO \<and> R (LReady i) = p # ps \<and> (\<forall>k. i < k \<and> k \<le> MAXPRIO \<longrightarrow> R (LReady k) = []) \<and>
          scheduler_enter c s = Ok (Some p, s') \<and>
          ptinv s' (R(LReady i := ps, LState RUNNING := R (LState RUNNING) @ [p])) \<and>
          proc (core s') = P(p := (P p)\<lparr>state := RUNNING, cpu_ticks_in := ticks s\<rparr>) \<and>
          cproc (cpus s' c) = Some p \<and> cr3 (cpus s' c) = V2P (pgdir (proc s p)) \<and>
          ts_esp0 (cpus s' c) = kstack (proc s p) + KSTACKSIZE"
proof -
  let ?R = "raised_lists (PromoteAtTime s \<le> ticks s) Q" and ?P = "\<lambda>q. raised_proc (PromoteAtTime s \<le> ticks s) q (proc (core s) q)"
  have pr: "proc (sched_promoted (core s)) = ?P" using raised_proc_eq[of "core s"] by simp
  have st: "proc (core (sched_start c s)) = proc (core s)" "PromoteAtTime (sched_start c s) = PromoteAtTime s" "ticks (sched_start c s) = ticks s"
    by (simp_all add: sched_start_def core_def with_lock_def)
  have pr': "proc (sched_promoted (core (sched_start c s))) = ?P" using raised_proc_eq[of "core (sched_start c s)"] st by simp
  show ?thesis
    using scheduler_enter_ok[OF assms(1-4)] unfolding raised_lists_eq pr
  proof (elim disjE conjE exE)
    fix s' assume "scheduler_enter c s = Ok (None, s')" "ptinv s' ?R" "ready_cpu c s'" "\<forall>k\<le>MAXPRIO. ?R (LReady k) = []" "proc (core s') = ?P"
    then show ?thesis by (simp add: Let_def)
  next
    fix i p s' assume *: "top_ready ?R i p" "scheduler_enter c s = Ok (Some p, s')" "ptinv s' (moved (LReady i) (LState RUNNING) p ?R)"
      "core s' = dispatched c p (sched_promoted (core (sched_start c s)))"
    then obtain ps where q: "i \<le> MAXPRIO" "?R (LReady i) = p # ps" "\<forall>k. i < k \<and> k \<le> MAXPRIO \<longrightarrow> ?R (LReady k) = []"
      by (auto simp: top_ready_def hd_ptr_eq_Some)
    have "moved (LReady i) (LState RUNNING) p ?R = ?R(LReady i := ps, LState RUNNING := ?R (LState RUNNING) @ [p])"
      by (simp add: moved_def Let_def q(2))
    moreover have "proc (core s') = ?P(p := (?P p)\<lparr>state := RUNNING, cpu_ticks_in := ticks s\<rparr>)"
      unfolding *(4) dispatched_def using pr' st(3) by (simp add: pupd_def cpu_upd_def running_proc_def)
    moreover have "cpus s' = cpus (dispatched c p (sched_promoted (core (sched_start c s))))" using arg_cong[OF *(4), of cpus] by simp
    then have "cproc (cpus s' c) = Some p" "cr3 (cpus s' c) = V2P (pgdir (proc s p))" "ts_esp0 (cpus s' c) = kstack (proc s p) + KSTACKSIZE"
      by (simp_all add: dispatched_fields uvm_cpu_def sched_start_def)
    moreover have "\<not> (\<forall>k\<le>MAXPRIO. ?R (LReady k) = [])" using q(1,2) by auto
    ultimately show ?thesis unfolding Let_def using q *(2,3) by auto
  qed
qed

text \<open>The demo table at a time when a promotion is due: process 2 is chosen, process 1, asleep, gets a fresh budget.\<close>

theorem scheduler_runs_highest_witness:
  "\<exists>s'. scheduler_enter 1 (demo_st\<lparr>PromoteAtTime := 100\<rparr>) = Ok (Some 2, s') \<and> cproc (cpus s' 1) = Some 2 \<and>
     state (proc s' 2) = RUNNING \<and> state (proc s' 1) = SLEEPING \<and> budget (proc s' 1) = BUDGET"
proof -
  let ?s = "demo_st\<lparr>PromoteAtTime := 100\<rparr>" and ?R = "raised_lists True demo_Q"
  let ?P = "\<lambda>q. raised_proc True q (proc (core demo_st) q)"
  have due: "(PromoteAtTime ?s \<le> ticks ?s) = True" by (simp add: demo_st_def)
  have "ready_cpu 1 ?s" "ncli (cpus ?s 1) = 0" "ptinv ?s demo_Q" "runnable_mem ?s"
    using sched_inv_ready(1,2)[OF demo_sched_inv, of 1] sched_inv_ready(3)[OF demo_sched_inv] demo_ok(1)
    by (simp_all add: ready_cpu_def runnable_mem_def)
  note r = scheduler_runs_highest[OF this, unfolded due Let_def]
  have "?R (LReady MAXPRIO) \<noteq> []" by (simp add: raised_lists_def demo_Q_def MAXPRIO_def)
  then have "\<not> (\<forall>k \<le> MAXPRIO. ?R (LReady k) = [])" by auto
  with r obtain i p ps s' where r: "i \<le> MAXPRIO" "?R (LReady i) = p # ps" "scheduler_enter 1 ?s = Ok (Some p, s')"
     "proc (core s') = ?P(p := (?P p)\<lparr>state := RUNNING, cpu_ticks_in := ticks ?s\<rparr>)" "cproc (cpus s' 1) = Some p"
    by auto
  have "p = 2" using r(1,2) by (auto simp: raised_lists_def demo_Q_def MAXPRIO_def split: if_splits)
  moreover have "state (proc s' p) = RUNNING" using arg_cong[OF r(4), of "\<lambda>x. state (x p)"] by simp
  moreover have "state (proc s' 1) = SLEEPING" "budget (proc s' 1) = BUDGET" if "p = 2"
    using arg_cong[OF r(4), of "\<lambda>x. state (x 1)"] arg_cong[OF r(4), of "\<lambda>x. budget (x 1)"] that
    by (simp_all add: raised_proc_def demo_st_def demo_proc_def NPROC_def)
  ultimately show ?thesis using r by auto
qed

section \<open>Promotion and demotion\<close>

text \<open>
  C35: A promotion raises every sleeping or running process below the top priority, and
  every ready process below it, by one level, keeps the order of each ready list, and
  appends the former list \<open>MAXPRIO - 1\<close> behind the top list; every process it reaches gets a
  fresh budget; the ready processes of the top list are not touched.
\<close>

theorem promotion_raises_one_level:
  assumes "ptinv s Q"
  shows "\<exists>s'. promote_all s = Ok s' \<and> PromoteAtTime s' = ticks s + TICKS_TO_PROMOTE \<and>
     ptinv s' (\<lambda>l. case l of LState st \<Rightarrow> Q l
       | LReady i \<Rightarrow> if MAXPRIO < i then Q l else if i = 0 then []
           else if i = MAXPRIO then Q (LReady MAXPRIO) @ Q (LReady (MAXPRIO - 1)) else Q (LReady (i - 1))) \<and>
     (\<forall>p < NPROC. proc (core s') p =
        (if state (proc s p) = SLEEPING \<or> state (proc s p) = RUNNING \<or> state (proc s p) = RUNNABLE \<and> unat (priority (proc s p)) < MAXPRIO
         then (proc (core s) p)\<lparr>priority := (if unat (priority (proc s p)) < MAXPRIO then priority (proc s p) + 1
                                              else priority (proc s p)), budget := BUDGET\<rparr>
         else proc (core s) p))"
proof -
  obtain s' where s': "promote_all s = Ok s'" "ptinv s' (shifted 0 Q)"
    "core s' = (procs_upd (\<lambda>p. p < NPROC \<and> promotable (proc s p)) promote_proc (core s))\<lparr>PromoteAtTime := ticks s + TICKS_TO_PROMOTE\<rparr>"
    using promote_all_ok[OF assms] by blast
  have "shifted 0 Q = (\<lambda>l. case l of LState st \<Rightarrow> Q l
       | LReady i \<Rightarrow> if MAXPRIO < i then Q l else if i = 0 then []
           else if i = MAXPRIO then Q (LReady MAXPRIO) @ Q (LReady (MAXPRIO - 1)) else Q (LReady (i - 1)))"
    by (auto simp: shifted_def fun_eq_iff MAXPRIO_def split: lref.splits)
  moreover have "PromoteAtTime s' = ticks s + TICKS_TO_PROMOTE" using arg_cong[OF s'(3), of PromoteAtTime] by simp
  moreover have "proc (core s') p = (if promotable (proc s p) then promote_proc (proc (core s) p) else proc (core s) p)" if "p < NPROC" for p
    using that by (simp add: s'(3))
  ultimately show ?thesis using s'(1,2)
    by (auto simp: promotable_def promote_proc_def word_less_nat_alt MAXPRIO_def)
qed

theorem promotion_raises_one_level_witness:
  "\<exists>s' Q'. promote_all demo_st = Ok s' \<and> PromoteAtTime s' = 4100 \<and> ptinv s' Q' \<and> Q' (LReady 6) = [2]"
proof -
  let ?Q = "\<lambda>l. case l of LState st \<Rightarrow> demo_Q l
       | LReady i \<Rightarrow> if MAXPRIO < i then demo_Q l else if i = 0 then []
           else if i = MAXPRIO then demo_Q (LReady MAXPRIO) @ demo_Q (LReady (MAXPRIO - 1)) else demo_Q (LReady (i - 1))"
  have "?Q (LReady 6) = [2]" by (simp add: demo_Q_def MAXPRIO_def)
  moreover have "ticks demo_st + TICKS_TO_PROMOTE = 4100" by (simp add: demo_st_def TICKS_TO_PROMOTE_def)
  moreover obtain s' where "promote_all demo_st = Ok s'" "PromoteAtTime s' = ticks demo_st + TICKS_TO_PROMOTE" "ptinv s' ?Q"
    using promotion_raises_one_level[OF demo_ok(1)] by blast
  ultimately show ?thesis by auto
qed

text \<open>
  C36: \<open>yield\<close> charges the running process for its time slice.  With budget left it goes to the
  end of the ready list of its priority; with the budget used up it goes one level down
  (never below 0) with a fresh budget.  Its CPU time grows by the length of the slice.
\<close>

theorem yield_charges_and_requeues:
  assumes "ready_cpu c s" "ncli (cpus s c) = 0" "ptinv s Q" "cproc (cpus s c) = Some p" "p < NPROC" "state (proc s p) = RUNNING"
  defines "used \<equiv> ticks s - cpu_ticks_in (proc s p)"
  defines "spent \<equiv> int_of (budget (proc s p) - used) \<le> 0"
  defines "prio \<equiv> if spent \<and> priority (proc s p) > 0 then priority (proc s p) - 1 else priority (proc s p)"
  shows "\<exists>ie s'. yield_enter c s = Ok (ie, s') \<and>
     ptinv s' (moved (LState RUNNING) (LReady (unat prio)) p Q) \<and>
     proc (core s') = (proc (core s))(p := (proc (core s) p)\<lparr>state := RUNNABLE, priority := prio,
        budget := (if spent then BUDGET else budget (proc s p) - used), cpu_ticks_total := cpu_ticks_total (proc s p) + used\<rparr>)"
proof -
  obtain s' where s': "yield_enter c s = Ok (intena (cpus (with_lock c s) c), s')"
     "ptinv s' (moved (LState RUNNING) (LReady (unat (priority (charge_budget (ticks s) (proc s p))))) p Q)"
     "core s' = pupd p (yield_proc (ticks s)) (core (with_lock c s))" using yield_enter_ok[OF assms(1-6)] by blast
  have pr: "priority (charge_budget (ticks s) (proc s p)) = prio"
    by (simp add: charge_budget_def Let_def prio_def spent_def used_def)
  have x: "yield_proc (ticks s) (proc (core s) p) = (proc (core s) p)\<lparr>state := RUNNABLE, priority := prio,
        budget := (if spent then BUDGET else budget (proc s p) - used), cpu_ticks_total := cpu_ticks_total (proc s p) + used\<rparr>"
    by (simp add: yield_proc_def acct_proc_def charge_budget_def Let_def prio_def spent_def used_def)
  have "proc (core s') = (proc (core s))(p := yield_proc (ticks s) (proc (core s) p))"
    unfolding s'(3) by (simp add: pupd_def core_def with_lock_def)
  then show ?thesis using s'(1,2) unfolding pr x by blast
qed

theorem yield_charges_and_requeues_witness:
  "\<exists>ie s'. yield_enter 0 demo_st = Ok (ie, s') \<and> state (proc s' 0) = RUNNABLE \<and> budget (proc s' 0) = 25"
proof -
  have "ncli (cpus demo_st 0) = 0" "cproc (cpus demo_st 0) = Some 0" "state (proc demo_st 0) = RUNNING" "0 < NPROC"
    using sched_inv_ready(2)[OF demo_sched_inv] by (simp_all add: demo_cproc demo_proc_cases NPROC_def)
  from yield_charges_and_requeues[OF demo_ok(2) this(1) demo_ok(1) this(2,4,3)]
  obtain ie s' where r: "yield_enter 0 demo_st = Ok (ie, s')"
    "proc (core s') = (proc (core demo_st))(0 := (proc (core demo_st) 0)\<lparr>state := RUNNABLE,
        priority := (if int_of (budget (proc demo_st 0) - (ticks demo_st - cpu_ticks_in (proc demo_st 0))) \<le> 0 \<and> priority (proc demo_st 0) > 0
                     then priority (proc demo_st 0) - 1 else priority (proc demo_st 0)),
        budget := (if int_of (budget (proc demo_st 0) - (ticks demo_st - cpu_ticks_in (proc demo_st 0))) \<le> 0 then BUDGET
                   else budget (proc demo_st 0) - (ticks demo_st - cpu_ticks_in (proc demo_st 0))),
        cpu_ticks_total := cpu_ticks_total (proc demo_st 0) + (ticks demo_st - cpu_ticks_in (proc demo_st 0))\<rparr>)" by blast
  have "budget (proc demo_st 0) - (ticks demo_st - cpu_ticks_in (proc demo_st 0)) = 25"
    by (simp add: demo_st_def demo_proc_def Let_def zero_proc_def)
  then have "state (proc s' 0) = RUNNABLE" "budget (proc s' 0) = 25"
    using arg_cong[OF r(2), of "\<lambda>x. state (x 0)"] arg_cong[OF r(2), of "\<lambda>x. budget (x 0)"] by (simp_all add: int_of_def)
  then show ?thesis using r(1) by blast
qed

section \<open>Priorities\<close>

text \<open>
  C37: \<open>setpriority\<close> succeeds exactly when the pid is in \<open>[0, 32767]\<close>, the priority in
  \<open>[0, MAXPRIO]\<close>, and a sleeping, ready or running process has the pid.  A process whose
  priority changes gets the priority and a fresh budget and, when ready, moves to the end
  of the new ready list; a call with the priority it has changes nothing.
\<close>

theorem setpriority_moves:
  assumes "ready_cpu c s" "ptinv s Q"
  shows "if 0 \<le> int_of pd \<and> int_of pd \<le> 32767 \<and> 0 \<le> int_of prio \<and> int_of prio \<le> int MAXPRIO \<and>
       (\<exists>p < NPROC. state (proc s p) \<in> {SLEEPING, RUNNABLE, RUNNING} \<and> pid (proc s p) = pd)
     then \<exists>p s'. p < NPROC \<and> state (proc s p) \<in> {SLEEPING, RUNNABLE, RUNNING} \<and> pid (proc s p) = pd \<and>
       setpriority c pd prio s = Ok (0, s') \<and> ready_cpu c s' \<and>
       (if priority (proc s p) = prio then ptinv s' Q \<and> core s' = core (after_lock c s)
        else core s' = pupd p (\<lambda>x. x\<lparr>priority := prio, budget := BUDGET\<rparr>) (core (after_lock c s)) \<and>
          ptinv s' (if state (proc s p) = RUNNABLE
                    then moved (LReady (unat (priority (proc s p)))) (LReady (unat prio)) p Q else Q))
     else setpriority c pd prio s = Ok (-1, after_lock c s)"
  (is "if ?ok \<and> ?live then _ else _")
proof -
  have h: "has_pid s [SLEEPING, RUNNABLE, RUNNING] pd p \<longleftrightarrow>
      p < NPROC \<and> state (proc s p) \<in> {SLEEPING, RUNNABLE, RUNNING} \<and> pid (proc s p) = pd" for p
    by (simp add: has_pid_def in_state_def)
  have id: "priority (proc s p) = prio \<Longrightarrow> pupd p (setprio_proc prio) (core (after_lock c s)) = core (after_lock c s)" for p
    by (rule pupd_id) (simp add: setprio_proc_def after_lock_def)
  have ne: "priority (proc s p) \<noteq> prio \<Longrightarrow> pupd p (setprio_proc prio) (core (after_lock c s)) =
      pupd p (\<lambda>x. x\<lparr>priority := prio, budget := BUDGET\<rparr>) (core (after_lock c s))" for p
    by (rule pupd_cong) (simp add: setprio_proc_def after_lock_def)
  from setpriority_ok[OF assms, of pd prio] show ?thesis
  proof (elim disjE conjE exE)
    assume "setpriority c pd prio s = Ok (-1, after_lock c s)"
      "valid_pid pd \<and> valid_prio prio \<longrightarrow> (\<forall>p. \<not> has_pid s [SLEEPING, RUNNABLE, RUNNING] pd p)"
    then show ?thesis unfolding h valid_pid_def valid_prio_def by auto
  next
    fix p s' assume *: "valid_pid pd" "valid_prio prio" "has_pid s [SLEEPING, RUNNABLE, RUNNING] pd p" "setpriority c pd prio s = Ok (0, s')"
      "ready_cpu c s'" "ptinv s' (setprio_lists prio p (proc s p) Q)" "core s' = pupd p (setprio_proc prio) (core (after_lock c s))"
    have g: "0 \<le> int_of pd \<and> int_of pd \<le> 32767 \<and> 0 \<le> int_of prio \<and> int_of prio \<le> int MAXPRIO" "p < NPROC"
      "state (proc s p) \<in> {SLEEPING, RUNNABLE, RUNNING} \<and> pid (proc s p) = pd"
      using *(1-3) unfolding h valid_pid_def valid_prio_def by auto
    have "if priority (proc s p) = prio then ptinv s' Q \<and> core s' = core (after_lock c s)
        else core s' = pupd p (\<lambda>x. x\<lparr>priority := prio, budget := BUDGET\<rparr>) (core (after_lock c s)) \<and>
          ptinv s' (if state (proc s p) = RUNNABLE
                    then moved (LReady (unat (priority (proc s p)))) (LReady (unat prio)) p Q else Q)"
      using *(6,7) id[of p] ne[of p] by (auto simp: setprio_lists_def)
    then show ?thesis using g *(4,5) by auto
  qed
qed

theorem setpriority_moves_witness:
  "(\<exists>s'. setpriority 0 3 1 demo_st = Ok (0, s')) \<and> setpriority 0 3 7 demo_st = Ok (-1, after_lock 0 demo_st)"
proof -
  have "2 < NPROC" "state (proc demo_st 2) = RUNNABLE" "pid (proc demo_st 2) = 3"
    by (simp_all add: demo_proc_def Let_def zero_proc_def NPROC_def)
  then have "\<exists>p < NPROC. state (proc demo_st p) \<in> {SLEEPING, RUNNABLE, RUNNING} \<and> pid (proc demo_st p) = 3" by blast
  then show ?thesis using setpriority_moves[OF demo_ok(2,1), of 3 1] setpriority_moves[OF demo_ok(2,1), of 3 7]
    by (auto simp: int_of_def MAXPRIO_def)
qed

end
