(* ===== verification/Alloc_Thms.thy ===== *)
theory Alloc_Thms
  imports Life_Thms
begin

text \<open>
  The birth of a process: the table that \<open>initProcessLists\<close> and \<open>initFreeList\<close> set up, and
  \<open>allocproc\<close>, which takes the first free slot and prepares its kernel stack.
\<close>

declare One_nat_def [simp]

section \<open>The empty table\<close>

lemma getl_cleared: "getl l (fold (\<lambda>x. setl (h x) v) xs s) = (if l \<in> h ` set xs then v else getl l s)"
proof (induction xs arbitrary: s)
  case (Cons x xs)
  then show ?case by (cases "l = h x") auto
qed simp

lemma core_cleared: "core (fold (\<lambda>x. setl (h x) v) xs s) = core s" "proc (fold (\<lambda>x. setl (h x) v) xs s) = proc s"
  by (induction xs arbitrary: s) simp_all

lemma initProcessLists_rep:
  "lists_rep (initProcessLists s) (\<lambda>_. [])" "core (initProcessLists s) = core s"
proof -
  have "getl l (initProcessLists s) = \<lparr>head = None, tail = None\<rparr>" if "lref_ok l" for l
    using that by (cases l; cases "case l of LState st \<Rightarrow> st | _ \<Rightarrow> UNUSED")
      (auto simp: initProcessLists_def getl_cleared Let_def simp del: getl.simps fold.simps)
  then show "lists_rep (initProcessLists s) (\<lambda>_. [])" by (simp add: lists_rep_def list_rep_def)
  show "core (initProcessLists s) = core s" by (simp add: initProcessLists_def Let_def core_cleared del: fold.simps)
qed

definition free_lists :: "nat \<Rightarrow> lref \<Rightarrow> nat list" where
  "free_lists k = (\<lambda>l. if l = LState UNUSED then [0..<k] else [])"

definition freed_upto :: "'a pt_st_scheme \<Rightarrow> nat \<Rightarrow> 'a pt_st_scheme \<Rightarrow> bool" where
  "freed_upto s k t \<longleftrightarrow> linked t (free_lists k) (\<lambda>p. if p < k then Some (LState UNUSED) else None) \<and>
     core t = procs_upd (\<lambda>p. p < k) (\<lambda>x. x\<lparr>state := UNUSED\<rparr>) (core s)"

lemma freed_step:
  assumes "freed_upto s k t" "k < NPROC"
  shows "\<exists>t'. stateListAdd (LState UNUSED) k (pupd k (\<lambda>x. x\<lparr>state := UNUSED\<rparr>) t) = Ok t' \<and> freed_upto s (Suc k) t'"
proof -
  let ?f = "\<lambda>x. x\<lparr>state := UNUSED\<rparr>"
  have l: "linked (pupd k ?f t) (free_lists k) (\<lambda>p. if p < k then Some (LState UNUSED) else None)"
    using assms(1) by (simp add: freed_upto_def)
  obtain t' where t': "stateListAdd (LState UNUSED) k (pupd k ?f t) = Ok t'" "core t' = core (pupd k ?f t)"
      "linked t' ((free_lists k)(LState UNUSED := free_lists k (LState UNUSED) @ [k]))
        ((\<lambda>p. if p < k then Some (LState UNUSED) else None)(k := Some (LState UNUSED)))"
    using linked_add[OF l, of k "LState UNUSED"] assms(2) by auto
  have "(free_lists k)(LState UNUSED := free_lists k (LState UNUSED) @ [k]) = free_lists (Suc k)"
    by (simp add: free_lists_def fun_eq_iff)
  moreover have "((\<lambda>p. if p < k then Some (LState UNUSED) else None)(k := Some (LState UNUSED))) =
      (\<lambda>p. if p < Suc k then Some (LState UNUSED) else None)" by (auto simp: fun_eq_iff)
  moreover have "core t' = procs_upd (\<lambda>p. p < Suc k) ?f (core s)"
    using t'(2) assms(1) procs_upd_insert[of "\<lambda>p. p < k" k ?f "core s"] by (simp add: freed_upto_def less_Suc_eq disj_commute)
  ultimately show ?thesis using t' by (auto simp: freed_upto_def)
qed

lemma initFreeList_ok:
  assumes "prio_ok s"
  shows "\<exists>t. initFreeList (initProcessLists s) = Ok t \<and> ptinv t (free_lists NPROC) \<and>
    core t = procs_upd (\<lambda>p. p < NPROC) (\<lambda>x. x\<lparr>state := UNUSED\<rparr>) (core s)"
proof -
  let ?b = "\<lambda>p s. rbind (stateListAdd (LState UNUSED) p (pupd p (\<lambda>x. x\<lparr>state := UNUSED\<rparr>) s)) (\<lambda>s'. Ok (None :: unit option, s'))"
  define I where "I is t \<longleftrightarrow> (\<exists>k \<le> NPROC. is = [k..<NPROC] \<and> freed_upto s k t)" for "is" t
  have "free_lists 0 = (\<lambda>_. [])" by (simp add: free_lists_def fun_eq_iff)
  then have "freed_upto s 0 (initProcessLists s)"
    using initProcessLists_rep[of s] by (simp add: freed_upto_def linked_def)
  then have "I [0..<NPROC] (initProcessLists s)" by (auto simp: I_def)
  then have "\<exists>t. for_each ?b [0..<NPROC] (initProcessLists s) = Ok (None, t) \<and> I [] t"
  proof (rule for_each_run)
    fix i js t assume "I (i # js) t"
    then obtain k where k: "k \<le> NPROC" "i # js = [k..<NPROC]" "freed_upto s k t" by (auto simp: I_def)
    then have "k < NPROC" by (cases "k < NPROC") auto
    then have "i = k" "js = [Suc k..<NPROC]" using k(2) by (simp_all add: upt_conv_Cons)
    moreover obtain t' where "stateListAdd (LState UNUSED) k (pupd k (\<lambda>x. x\<lparr>state := UNUSED\<rparr>) t) = Ok t'" "freed_upto s (Suc k) t'"
      using freed_step[OF k(3) \<open>k < NPROC\<close>] by blast
    ultimately show "\<exists>t'. ?b i t = Ok (None, t') \<and> I js t'" using \<open>k < NPROC\<close> by (auto simp: I_def intro!: exI[of _ "Suc k"])
  qed
  moreover have "freed_upto s NPROC t" if "I [] t" for t
  proof -
    from that obtain k where "k \<le> NPROC" "[] = [k..<NPROC]" "freed_upto s k t" by (auto simp: I_def)
    then show ?thesis by (cases "k = NPROC") (simp_all add: upt_conv_Cons)
  qed
  ultimately obtain t where t: "initFreeList (initProcessLists s) = Ok t" "freed_upto s NPROC t"
    by (auto simp: initFreeList_def)
  have c: "core t = procs_upd (\<lambda>p. p < NPROC) (\<lambda>x. x\<lparr>state := UNUSED\<rparr>) (core s)" using t(2) by (simp add: freed_upto_def)
  have "state (proc t p) = UNUSED" "priority (proc t p) = priority (proc s p)" if "p < NPROC" for p
    using that arg_cong[OF c, of "\<lambda>s. state (proc s p)"] arg_cong[OF c, of "\<lambda>s. priority (proc s p)"] by simp_all
  then have "ptinv t (free_lists NPROC)" unfolding ptinv_def
    using t(2) assms by (auto simp: freed_upto_def prio_ok_def lkey_def intro: linked_key)
  then show ?thesis using t(1) c by blast
qed

section \<open>allocproc\<close>

text \<open>Moving a process under the lock, as the sections of \<open>allocproc\<close> do.\<close>

definition take_proc :: "uint \<Rightarrow> proc \<Rightarrow> proc" where
  "take_proc n x = x\<lparr>state := EMBRYO, pid := n\<rparr>"

lemma take_proc_indep [simp]: "link_indep (take_proc n)"
  by (simp add: link_indep_def take_proc_def)

lemma allocproc_take_ok:
  assumes rdy: "ready_cpu c s" and inv: "ptinv s Q" and p: "p < NPROC" "state (proc s p) = UNUSED"
  shows "\<exists>s'. allocproc_take c p s = Ok s' \<and> ready_cpu c s' \<and> ptinv s' (moved (LState UNUSED) (LState EMBRYO) p Q) \<and>
    core s' = (pupd p (take_proc (nextpid s)) (core (after_lock c s)))\<lparr>nextpid := nextpid s + 1\<rparr>"
proof -
  let ?s1 = "with_lock c s" let ?f = "take_proc (nextpid s)"
  have "\<exists>s'. relist (LState UNUSED) p ''Empty list or process not in list'' UNUSED ?f (\<lambda>x. LState (state x)) ?s1 = Ok s' \<and>
      ptinv s' (moved (LState UNUSED) (lkey (?f (proc ?s1 p))) p Q) \<and> core s' = pupd p ?f (core ?s1)"
    using inv p prio_le[OF inv p(1)] by (intro relist_ok) (simp_all add: lkey_def take_proc_def)
  then obtain s2 where s2: "relist (LState UNUSED) p ''Empty list or process not in list'' UNUSED ?f (\<lambda>x. LState (state x)) ?s1 = Ok s2"
      "ptinv s2 (moved (LState UNUSED) (LState EMBRYO) p Q)" "core s2 = pupd p ?f (core ?s1)"
    by (auto simp: lkey_def take_proc_def)
  have g: "cpus s2 = cpus ?s1" "ptable_lock s2 = ptable_lock ?s1" "nextpid s2 = nextpid s"
    using arg_cong[OF s2(3), of cpus] arg_cong[OF s2(3), of ptable_lock] arg_cong[OF s2(3), of nextpid] by simp_all
  let ?s3 = "s2\<lparr>nextpid := nextpid s + 1\<rparr>"
  let ?s' = "?s3\<lparr>cpus := (cpus s)(c := saved (cpus s c)), ptable_lock := ptable_lock s\<rparr>"
  have "ptable_release c ?s3 = Ok ?s'" using rdy g by (intro ptable_release_eq) simp_all
  then have "allocproc_take c p s = Ok ?s'"
    using s2(1) p(2) g by (simp add: allocproc_take_def ptable_acquire_eq[OF rdy] take_proc_def[abs_def])
  moreover have "core ?s' = (pupd p ?f (core (after_lock c s)))\<lparr>nextpid := nextpid s + 1\<rparr>"
    using s2(3) by (intro pt_st.equality) (simp_all add: after_lock_def with_lock_def pupd_def)
  ultimately show ?thesis using s2(2) rdy by (auto simp: ready_cpu_def)
qed

lemma free_embryo_ok:
  assumes rdy: "ready_cpu c s" and inv: "ptinv s Q" and p: "p < NPROC" "state (proc s p) = EMBRYO"
  shows "\<exists>s'. free_embryo c p msg s = Ok s' \<and> ready_cpu c s' \<and> ptinv s' (moved (LState EMBRYO) (LState UNUSED) p Q) \<and>
    core s' = pupd p (\<lambda>x. x\<lparr>state := UNUSED\<rparr>) (core (after_lock c s))"
proof -
  let ?s1 = "with_lock c s" let ?f = "\<lambda>x. x\<lparr>state := UNUSED\<rparr>"
  have "\<exists>s'. relist (LState EMBRYO) p msg EMBRYO ?f (\<lambda>x. LState (state x)) ?s1 = Ok s' \<and>
      ptinv s' (moved (LState EMBRYO) (lkey (?f (proc ?s1 p))) p Q) \<and> core s' = pupd p ?f (core ?s1)"
    using inv p prio_le[OF inv p(1)] by (intro relist_ok) (simp_all add: lkey_def)
  then obtain s2 where s2: "relist (LState EMBRYO) p msg EMBRYO ?f (\<lambda>x. LState (state x)) ?s1 = Ok s2"
      "ptinv s2 (moved (LState EMBRYO) (LState UNUSED) p Q)" "core s2 = pupd p ?f (core ?s1)"
    by (auto simp: lkey_def)
  have g: "cpus s2 = cpus ?s1" "ptable_lock s2 = ptable_lock ?s1"
    using arg_cong[OF s2(3), of cpus] arg_cong[OF s2(3), of ptable_lock] by simp_all
  let ?s' = "s2\<lparr>cpus := (cpus s)(c := saved (cpus s c)), ptable_lock := ptable_lock s\<rparr>"
  have "ptable_release c s2 = Ok ?s'" using rdy g by (intro ptable_release_eq) simp_all
  then have "free_embryo c p msg s = Ok ?s'"
    using s2(1) p(2) by (simp add: free_embryo_def ptable_acquire_eq[OF rdy])
  moreover have "core ?s' = pupd p ?f (core (after_lock c s))"
    using s2(3) by (intro pt_st.equality) (simp_all add: after_lock_def with_lock_def pupd_def)
  ultimately show ?thesis using s2(2) rdy by (auto simp: ready_cpu_def)
qed

text \<open>
  The new kernel stack: under the trap frame the return address \<open>trapret\<close>, under it a
  context whose \<open>eip\<close> is \<open>forkret\<close>.
\<close>

definition stack_mem :: "uint \<Rightarrow> uint \<Rightarrow> uint \<Rightarrow> mem \<Rightarrow> mem" where
  "stack_mem k tr fr m = st32 (memset (st32 m (k + 4016) tr) (k + 3996) 0 20) (k + 4012) fr"

definition new_stack :: "uint \<Rightarrow> proc \<Rightarrow> proc" where
  "new_stack k x = x\<lparr>tf := k + 4020, ctxt := k + 3996, cpu_ticks_total := 0, cpu_ticks_in := 0,
     budget := BUDGET, priority := of_nat MAXPRIO\<rparr>"

lemma new_stack_indep [simp]: "link_indep (new_stack k)" "state (new_stack k x) = state x"
  by (simp_all add: link_indep_def new_stack_def)

lemma allocproc_stack_eq:
  assumes "kstack (proc s p) = k"
  shows "allocproc_stack p s = (pupd p (new_stack k) s)\<lparr>mem := stack_mem k (trapret_sym s) (forkret_sym s) (mem s)\<rparr>"
  using assms
  by (intro pt_st.equality)
     (simp_all add: allocproc_stack_def Let_def KSTACKSIZE_def sizeof_trapframe_def sizeof_context_def stack_mem_def
       pupd_def new_stack_def add.commute)

lemma stack_mem_words:
  assumes "page_aligned k"
  shows "ld32 (stack_mem k tr fr m) (k + 4012) = fr" "ld32 (stack_mem k tr fr m) (k + 4016) = tr"
    "a \<notin> page k \<Longrightarrow> stack_mem k tr fr m a = m a"
proof -
  show "ld32 (stack_mem k tr fr m) (k + 4012) = fr" by (simp add: stack_mem_def)
  have al: "aligned4 (k + 4012)" "aligned4 (k + 4016)"
    using entry_aligned[OF assms, of 1003] entry_aligned[OF assms, of 1004] by (simp_all add: ent_def)
  have "ld32 (stack_mem k tr fr m) (k + 4016) = ld32 (memset (st32 m (k + 4016) tr) (k + 3996) 0 20) (k + 4016)"
    unfolding stack_mem_def using al by (intro ld32_st32_other) simp_all
  also have "\<dots> = ld32 (st32 m (k + 4016) tr) (k + 4016)"
  proof (rule ld32_cong)
    fix j :: nat assume "j < 4"
    then show "memset (st32 m (k + 4016) tr) (k + 3996) 0 20 (k + 4016 + of_nat j) = st32 m (k + 4016) tr (k + 4016 + of_nat j)"
      using less_4_cases[of j] by (auto simp: memset_apply span_def)
  qed
  finally show "ld32 (stack_mem k tr fr m) (k + 4016) = tr" by simp
  have in_page: "k + of_nat i \<in> page k" if "i < 4096" for i using page_off_in[OF assms that] .
  assume a: "a \<notin> page k"
  have o: "a \<noteq> k + 4012 + of_nat j" "a \<noteq> k + 4016 + of_nat j" if "j < 4" for j
    using in_page[of "4012 + j"] in_page[of "4016 + j"] that a by (auto simp: add.assoc)
  have "a \<notin> span (k + 3996) 20"
  proof
    assume "a \<in> span (k + 3996) 20"
    then have "unat (a - (k + 3996)) < 20" by (simp add: span_def)
    then have "k + of_nat (3996 + unat (a - (k + 3996))) \<in> page k" by (intro in_page) simp
    then show False using a by simp
  qed
  then show "stack_mem k tr fr m a = m a" using o by (simp add: stack_mem_def st32_outside memset_apply)
qed

lemma kmem_ok_same:
  assumes "kmem_ok c s xs" "cpu_ok (cpus t c)" "kmem_lock t = kmem_lock s" "freelist t = freelist s" "end_sym t = end_sym s"
    and "\<And>x a. x \<in> set xs \<Longrightarrow> a \<in> page x \<Longrightarrow> mem t a = mem s a"
  shows "kmem_ok c t xs"
proof -
  have "\<forall>x\<in>set xs. page_aligned x" using assms(1) by (simp add: kmem_ok_def kpage_def)
  then have "flist (mem t) (freelist t) xs = flist (mem s) (freelist t) xs" using assms(6) by (rule flist_frame)
  then show ?thesis using assms(1-5) by (simp add: kmem_ok_def)
qed

lemma after_lock_upd:
  "freelist (after_lock c s) = freelist s" "kmem_lock (after_lock c s) = kmem_lock s" "end_sym (after_lock c s) = end_sym s"
  by (simp_all add: after_lock_def)

definition new_proc :: "uint \<Rightarrow> uint \<Rightarrow> proc \<Rightarrow> proc" where
  "new_proc n k x = new_stack k ((take_proc n x)\<lparr>kstack := k\<rparr>)"

lemma allocproc_taken:
  assumes rdy: "ready_cpu c s" and inv: "ptinv s Q" and km: "kmem_ok c s xs" and Q: "Q (LState UNUSED) = p # ps"
  shows "\<exists>s1. allocproc_take c p s = Ok s1 \<and> ready_cpu c s1 \<and> ptinv s1 (moved (LState UNUSED) (LState EMBRYO) p Q) \<and>
    core s1 = (pupd p (take_proc (nextpid s)) (core (after_lock c s)))\<lparr>nextpid := nextpid s + 1\<rparr> \<and>
    kmem_ok c s1 xs \<and> mem s1 = mem s \<and> p < NPROC \<and> state (proc s1 p) = EMBRYO"
proof -
  have p: "p < NPROC" "state (proc s p) = UNUSED" using in_LState[OF inv, of UNUSED p] Q by auto
  obtain s1 where s1: "allocproc_take c p s = Ok s1" "ready_cpu c s1" "ptinv s1 (moved (LState UNUSED) (LState EMBRYO) p Q)"
      "core s1 = (pupd p (take_proc (nextpid s)) (core (after_lock c s)))\<lparr>nextpid := nextpid s + 1\<rparr>"
    using allocproc_take_ok[OF rdy inv p] by blast
  have f: "mem s1 = mem s" "freelist s1 = freelist s" "end_sym s1 = end_sym s" "kmem_lock s1 = kmem_lock s"
    using arg_cong[OF s1(4), of mem] arg_cong[OF s1(4), of freelist] arg_cong[OF s1(4), of end_sym] arg_cong[OF s1(4), of kmem_lock]
    by (simp_all add: after_lock_def)
  have "kmem_ok c s1 xs" using s1(2) f by (intro kmem_ok_same[OF km]) (simp_all add: ready_cpu_def)
  moreover have "state (proc s1 p) = EMBRYO" using arg_cong[OF s1(4), of "\<lambda>s. state (proc s p)"] by (simp add: take_proc_def)
  ultimately show ?thesis using s1 f p by blast
qed

lemma moved_back:
  assumes "ptinv s Q" "Q (LState UNUSED) = p # ps"
  shows "moved (LState EMBRYO) (LState UNUSED) p (moved (LState UNUSED) (LState EMBRYO) p Q) = Q(LState UNUSED := ps @ [p])"
    and "moved (LState UNUSED) (LState EMBRYO) p Q = Q(LState UNUSED := ps, LState EMBRYO := Q (LState EMBRYO) @ [p])"
proof -
  have "p \<notin> set (Q (LState EMBRYO))"
    using in_LState[OF assms(1), of UNUSED p] in_LState[OF assms(1), of EMBRYO p] assms(2) by auto
  then show "moved (LState EMBRYO) (LState UNUSED) p (moved (LState UNUSED) (LState EMBRYO) p Q) = Q(LState UNUSED := ps @ [p])"
    "moved (LState UNUSED) (LState EMBRYO) p Q = Q(LState UNUSED := ps, LState EMBRYO := Q (LState EMBRYO) @ [p])"
    using assms(2) by (auto simp: moved_def fun_eq_iff remove1_append)
qed

lemma allocproc_ok:
  assumes rdy: "ready_cpu c s" and inv: "ptinv s Q" and km: "kmem_ok c s xs" and Q: "Q (LState UNUSED) = p # ps"
  shows "case xs of
      [] \<Rightarrow> \<exists>s'. allocproc c s = Ok (None, s') \<and> ready_cpu c s' \<and> ptinv s' (Q(LState UNUSED := ps @ [p])) \<and> kmem_ok c s' []
    | k # ks \<Rightarrow> \<exists>s'. allocproc c s = Ok (Some p, s') \<and> ready_cpu c s' \<and> kmem_ok c s' ks \<and>
        ptinv s' (Q(LState UNUSED := ps, LState EMBRYO := Q (LState EMBRYO) @ [p])) \<and>
        proc (core s') = (proc (core s))(p := new_proc (nextpid s) k (proc (core s) p)) \<and> nextpid s' = nextpid s + 1 \<and>
        mem s' = stack_mem k (trapret_sym s) (forkret_sym s) (mem s)"
proof -
  let ?R = "moved (LState UNUSED) (LState EMBRYO) p Q"
  have h: "head (getl (LState UNUSED) s) = Some p" using ptinv_head[OF inv, of "LState UNUSED"] Q by simp
  obtain s1 where s1: "allocproc_take c p s = Ok s1" "ready_cpu c s1" "ptinv s1 ?R"
      "core s1 = (pupd p (take_proc (nextpid s)) (core (after_lock c s)))\<lparr>nextpid := nextpid s + 1\<rparr>"
      "kmem_ok c s1 xs" "mem s1 = mem s" "p < NPROC" "state (proc s1 p) = EMBRYO"
    using allocproc_taken[OF assms] by blast
  let ?s2 = "(touch c s1)\<lparr>freelist := (if freelist s1 \<noteq> 0 then ld32 (mem s1) (freelist s1) else 0)\<rparr>"
  have ka: "kalloc c s1 = Ok (freelist s1, ?s2)" using s1(5) by (intro kalloc_eq) (simp_all add: kmem_ok_def)
  have k2: "kmem_ok c ?s2 (tl xs)" "freelist s1 = (case xs of [] \<Rightarrow> 0 | x # _ \<Rightarrow> x)"
    using kmem_ok_kalloc[OF s1(5)] ka by auto
  have t: "proc (touch c s1) = proc s1" "ptinv (touch c s1) Q' = ptinv s1 Q'" "ready_cpu c (touch c s1) = ready_cpu c s1"
      "nextpid (touch c s1) = nextpid s1" "trapret_sym (touch c s1) = trapret_sym s1" "forkret_sym (touch c s1) = forkret_sym s1" for Q'
    by (simp_all add: touch_def ready_cpu_def)
  let ?s3 = "pupd p (\<lambda>x. x\<lparr>kstack := freelist s1\<rparr>) ?s2"
  have i3: "ptinv ?s3 ?R" using s1(3,8) prio_le[OF s1(3,7)] t by (intro ptinv_pupd) (simp_all add: lkey_def)
  have r3: "ready_cpu c ?s3" using s1(2) t by (simp add: ready_cpu_def)
  show ?thesis
  proof (cases xs)
    case Nil
    then have z: "freelist s1 = 0" using k2(2) by simp
    obtain s4 where s4: "free_embryo c p ''Empty list or process not in list'' ?s3 = Ok s4" "ready_cpu c s4"
        "ptinv s4 (moved (LState EMBRYO) (LState UNUSED) p ?R)" "core s4 = pupd p (\<lambda>x. x\<lparr>state := UNUSED\<rparr>) (core (after_lock c ?s3))"
      using free_embryo_ok[OF r3 i3 s1(7)] s1(8) t by auto
    have f4: "freelist s4 = freelist ?s2" "kmem_lock s4 = kmem_lock ?s2" "end_sym s4 = end_sym ?s2"
      using arg_cong[OF s4(4), of freelist] arg_cong[OF s4(4), of kmem_lock] arg_cong[OF s4(4), of end_sym]
      by (simp_all only: core_glob pupd_glob after_lock_upd)
    have "kmem_ok c s4 []" by (rule kmem_ok_same[OF _ _ f4(2,1,3)]) (use s4(2) k2(1) Nil in \<open>simp_all add: ready_cpu_def\<close>)
    then show ?thesis using h s1(1) ka z s4 moved_back(1)[OF inv Q] Nil by (simp add: allocproc_def)
  next
    case (Cons k ks)
    then have fk: "freelist s1 = k" and kp: "kpage (end_sym s1) k" "k \<notin> set ks" and ks: "\<forall>x\<in>set ks. page_aligned x"
      using k2(2) s1(5) by (auto simp: kmem_ok_def kpage_def)
    note al = kpage_aligned[OF kp(1)]
    let ?s' = "(pupd p (new_stack k) ?s3)\<lparr>mem := stack_mem k (trapret_sym s1) (forkret_sym s1) (mem s1)\<rparr>"
    have "allocproc_stack p ?s3 = ?s'" using allocproc_stack_eq[of ?s3 p k] fk t by simp
    then have "allocproc c s = Ok (Some p, ?s')"
      using h s1(1) ka fk kpage_nonzero[OF kp(1)] by (simp add: allocproc_def)
    moreover have "ptinv ?s' ?R"
      using ptinv_pupd[OF i3 new_stack_indep(1)[of k], of p] s1(8) t by (simp add: lkey_def new_stack_def MAXPRIO_def)
    moreover have "kmem_ok c ?s' ks"
    proof (rule kmem_ok_same[where s = ?s2])
      show "kmem_ok c ?s2 ks" using k2(1) Cons by simp
      fix x a assume "x \<in> set ks" "a \<in> page x"
      then have "a \<notin> page k" using pages_disjoint[of x k] al ks kp(2) by auto
      then show "mem ?s' a = mem ?s2 a" using stack_mem_words(3)[OF al] by simp
    qed (use s1(2) t in \<open>simp_all add: ready_cpu_def\<close>)
    moreover have f: "trapret_sym s1 = trapret_sym s" "forkret_sym s1 = forkret_sym s" "nextpid s1 = nextpid s + 1"
        "proc (core s1) = (proc (core s))(p := take_proc (nextpid s) (proc (core s) p))"
      using arg_cong[OF s1(4), of trapret_sym] arg_cong[OF s1(4), of forkret_sym] arg_cong[OF s1(4), of nextpid]
        arg_cong[OF s1(4), of proc] by (simp_all add: after_lock_def pupd_def core_def)
    moreover have "proc (core ?s') = (proc (core s))(p := new_proc (nextpid s) k (proc (core s) p))"
    proof -
      have n: "(new_stack k (x\<lparr>kstack := k\<rparr>))\<lparr>nxt := None\<rparr> = new_stack k ((x\<lparr>nxt := None\<rparr>)\<lparr>kstack := k\<rparr>)" for x
        by (simp add: new_stack_def)
      have c: "proc (core u) i = (proc u i)\<lparr>nxt := None\<rparr>" for u :: "'a pt_st_scheme" and i by (simp add: core_def)
      have q: "proc ?s' = (proc s1)(p := new_stack k ((proc s1 p)\<lparr>kstack := k\<rparr>))" using t(1) fk by (simp add: pupd_def)
      have "proc (core ?s') i = ((proc (core s))(p := new_proc (nextpid s) k (proc (core s) p))) i" for i
        using fun_cong[OF f(4), of i] unfolding c q new_proc_def by (cases "i = p") (simp_all add: n)
      then show ?thesis by (rule ext)
    qed
    ultimately show ?thesis using Cons moved_back(2)[OF inv Q] r3 s1(6) t by (auto simp: ready_cpu_def)
  qed
qed

end
