(* ===== verification/Free_Thms.thy ===== *)
theory Free_Thms
  imports Vm_Thms
begin

text \<open>
  Giving back the memory of a process: \<open>deallocuvm\<close> and \<open>freevm\<close> return every user page, every
  page table and the page directory to the free list, each once, and write nowhere else.
\<close>

section \<open>What an address space owns\<close>

definition upage :: "mem \<Rightarrow> uint \<Rightarrow> uint \<Rightarrow> uint" where
  "upage m pgd va = P2V (PTE_ADDR (pte m pgd va))"

text \<open>The user pages that are mapped at \<open>a\<close> or above.\<close>

definition pending :: "mem \<Rightarrow> uint \<Rightarrow> uint \<Rightarrow> uint set" where
  "pending m pgd a = {va. page_aligned va \<and> a \<le> va \<and> va < KERNBASE \<and> present (pte m pgd va)}"

definition upages_ok :: "mem \<Rightarrow> uint \<Rightarrow> uint set \<Rightarrow> uint \<Rightarrow> uint \<Rightarrow> bool" where
  "upages_ok m e F pgd a \<longleftrightarrow>
     (\<forall>va \<in> pending m pgd a. PTE_ADDR (pte m pgd va) \<noteq> 0 \<and> kpage e (upage m pgd va) \<and>
        upage m pgd va \<notin> F \<and> upage m pgd va \<notin> pt_pages m pgd) \<and>
     inj_on (upage m pgd) (pending m pgd a)"

definition space_ok :: "nat \<Rightarrow> 'a kmem_st_scheme \<Rightarrow> uint list \<Rightarrow> uint \<Rightarrow> uint \<Rightarrow> bool" where
  "space_ok c s xs pgd a \<longleftrightarrow> vm_ok c s xs pgd \<and> upages_ok (mem s) (end_sym s) (set xs) pgd a"

text \<open>Only memory, the free list and the saved interrupt flag of the CPU change.\<close>

definition kframe :: "nat \<Rightarrow> 'a kmem_st_scheme \<Rightarrow> 'a kmem_st_scheme \<Rightarrow> bool" where
  "kframe c s t \<longleftrightarrow> (\<exists>m f. t = s\<lparr>mem := m, freelist := f\<rparr> \<or> t = (touch c s)\<lparr>mem := m, freelist := f\<rparr>)"

definition only_in :: "uint set \<Rightarrow> 'a kmem_st_scheme \<Rightarrow> 'a kmem_st_scheme \<Rightarrow> bool" where
  "only_in P s t \<longleftrightarrow> (\<forall>a. (\<forall>v \<in> P. a \<notin> page v) \<longrightarrow> mem t a = mem s a)"

lemma kframe_refl: "kframe c s s"
  unfolding kframe_def by (intro exI[of _ "mem s"] exI[of _ "freelist s"]) simp

lemma touch_touch [simp]: "touch c (touch c s) = touch c s"
  by (simp add: touch_def)

lemma touch_upd [simp]: "touch c (s\<lparr>mem := m, freelist := f\<rparr>) = (touch c s)\<lparr>mem := m, freelist := f\<rparr>"
  by (simp add: touch_def)

lemma kframe_trans: "kframe c s t \<Longrightarrow> kframe c t u \<Longrightarrow> kframe c s u"
  unfolding kframe_def by fastforce

lemma kframe_mem: "kframe c s t \<Longrightarrow> kframe c s (t\<lparr>mem := m\<rparr>)"
  by (auto simp: kframe_def intro!: exI[of _ m] exI[of _ "freelist t"])

lemma kframe_simps:
  assumes "kframe c s t"
  shows "end_sym t = end_sym s" "kmem_st.more t = kmem_st.more s" "kmem_lock t = kmem_lock s"
  using assms by (auto simp: kframe_def)

lemma only_in_trans: "only_in P s t \<Longrightarrow> only_in P t u \<Longrightarrow> only_in P s u"
  by (simp add: only_in_def)

lemma only_in_mono: "only_in P s t \<Longrightarrow> P \<subseteq> R \<Longrightarrow> only_in R s t"
  by (auto simp: only_in_def)

lemma kfree_page:
  assumes "kmem_ok c s xs" "kpage (end_sym s) v" "v \<notin> set xs"
  obtains s' where "kfree c v s = Ok s'" "kmem_ok c s' (v # xs)" "kframe c s s'" "only_in {v} s s'"
proof -
  obtain s' where s': "kfree c v s = Ok s'" "kmem_ok c s' (v # xs)" "\<forall>a. a \<notin> page v \<longrightarrow> mem s' a = mem s a"
    using kmem_ok_kfree[OF assms] by blast
  moreover have "kframe c s s'"
    using s'(1) kfree_eq[of s c v] assms unfolding kmem_ok_def kframe_def by auto
  ultimately show ?thesis using that by (simp add: only_in_def)
qed

section \<open>The tables are not disturbed\<close>

lemma tables_same:
  assumes "pgd_ok (mem s) e F pgd" "only_in {v} s t" "page_aligned v" "v \<notin> pt_pages (mem s) pgd"
  shows "\<And>i. i < 1024 \<Longrightarrow> pde (mem t) pgd i = pde (mem s) pgd i" "\<And>i. i < 1024 \<Longrightarrow> tab (mem t) pgd i = tab (mem s) pgd i"
    "\<And>va. pte (mem t) pgd va = pte (mem s) pgd va" "pt_pages (mem t) pgd = pt_pages (mem s) pgd"
proof -
  have same: "mem t a = mem s a" if "w \<in> pt_pages (mem s) pgd" "page_aligned w" "a \<in> page w" for w a
    using that assms(2-4) pages_disjoint[of w v] unfolding only_in_def by blast
  show pd: "pde (mem t) pgd i = pde (mem s) pgd i" if "i < 1024" for i
    unfolding pde_def using that same[of pgd] pgd_ok_pgd[OF assms(1)] by (intro ld32_entry_cong) (auto simp: pt_pages_def)
  then show tb: "tab (mem t) pgd i = tab (mem s) pgd i" if "i < 1024" for i using that by (simp add: tab_def)
  show "pte (mem t) pgd va = pte (mem s) pgd va" for va
  proof (cases "present (pde (mem s) pgd (unat (PDX va)))")
    case True
    let ?w = "tab (mem s) pgd (unat (PDX va))"
    have "?w \<in> pt_pages (mem s) pgd" "page_aligned ?w"
      using True PDX_bound pgd_ok_tab[OF assms(1) PDX_bound True] by (auto simp: pt_pages_def)
    then have "ld32 (mem t) (ent ?w (unat (PTX va))) = ld32 (mem s) (ent ?w (unat (PTX va)))"
      using same[of ?w] PTX_bound by (intro ld32_entry_cong) auto
    then show ?thesis using True PDX_bound[of va] by (simp add: pte_def pd tb)
  qed (use PDX_bound[of va] in \<open>simp add: pte_def pd\<close>)
  show "pt_pages (mem t) pgd = pt_pages (mem s) pgd" unfolding pt_pages_def using pd tb by (metis (no_types, lifting))
qed

lemma put_pte_tables:
  assumes "vm_ok c s xs pgd" "present (pde (mem s) pgd (unat (PDX va)))"
  shows "\<And>i. i < 1024 \<Longrightarrow> pde (mem (put_pte pgd va w s)) pgd i = pde (mem s) pgd i"
    "pt_pages (mem (put_pte pgd va w s)) pgd = pt_pages (mem s) pgd" "only_in (pt_pages (mem s) pgd) s (put_pte pgd va w s)"
proof -
  let ?t = "tab (mem s) pgd (unat (PDX va))"
  have po: "pgd_ok (mem s) (end_sym s) (set xs) pgd" using assms(1) by (simp add: vm_ok_def)
  have t: "page_aligned ?t" "?t \<noteq> pgd" using pgd_ok_tab[OF po PDX_bound assms(2)] by auto
  show pd: "pde (mem (put_pte pgd va w s)) pgd i = pde (mem s) pgd i" if "i < 1024" for i
    unfolding pde_def put_pte_def using t pgd_ok_pgd[OF po] PTX_bound[of va] that by (simp add: st32_entry)
  then show "pt_pages (mem (put_pte pgd va w s)) pgd = pt_pages (mem s) pgd"
    unfolding pt_pages_def tab_def by (metis (no_types, lifting))
  have "?t \<in> pt_pages (mem s) pgd" using assms(2) PDX_bound[of va] by (auto simp: pt_pages_def)
  then show "only_in (pt_pages (mem s) pgd) s (put_pte pgd va w s)"
    using t PTX_bound[of va] by (auto simp: only_in_def put_pte_def st32_entry_outside)
qed

section \<open>The loop of deallocuvm\<close>

lemma next_page:
  assumes "page_aligned a" "a < KERNBASE"
  shows "page_aligned (a + PGSIZE)" "unat (a + PGSIZE) = unat a + 4096" "a + PGSIZE \<le> KERNBASE"
proof -
  obtain k where k: "unat a = 4096 * k" using assms(1) by (rule page_alignedE)
  have lt: "unat a < 2147483648" using assms(2) by (simp add: word_less_nat_alt KERNBASE_def)
  then show u: "unat (a + PGSIZE) = unat a + 4096" by (simp add: unat_word_ariths)
  show "page_aligned (a + PGSIZE)" using u k by (simp add: page_aligned_def)
  have "k < 524288" using lt k by simp
  then show "a + PGSIZE \<le> KERNBASE" using u k by (simp add: word_le_nat_alt KERNBASE_def)
qed

lemma next_table:
  assumes "a < KERNBASE"
  shows "unat (PGADDR (PDX a + 1) 0 0) = (unat a div 2 ^ 22 + 1) * 2 ^ 22"
proof -
  have "unat a < 2147483648" using assms by (simp add: word_less_nat_alt KERNBASE_def)
  then have d: "unat a div 2 ^ 22 < 512" by (simp add: less_mult_imp_div_less)
  then have "unat (PDX a + 1) = unat a div 2 ^ 22 + 1" by (simp add: unat_word_ariths unat_PDX)
  moreover have "PGADDR (PDX a + 1) 0 0 = (PDX a + 1) * 2 ^ 22" by (simp add: PGADDR_def PDXSHIFT_def push_bit_eq_mult)
  moreover have "unat (x * 2 ^ 22) = unat x * 2 ^ 22 mod 2 ^ 32" for x :: uint by (simp add: unat_word_ariths)
  moreover have "(unat a div 2 ^ 22 + 1) * 2 ^ 22 < 2 ^ 32" using d by simp
  ultimately show ?thesis by (metis mod_less)
qed

lemma pending_next:
  assumes "page_aligned a" "a < KERNBASE"
  shows "pending m pgd a = (if present (pte m pgd a) then insert a (pending m pgd (a + PGSIZE)) else pending m pgd (a + PGSIZE))"
proof -
  have "a \<le> va \<longleftrightarrow> va = a \<or> a + PGSIZE \<le> va" if "page_aligned va" for va
  proof -
    obtain k j where "unat a = 4096 * k" "unat va = 4096 * j" using assms(1) \<open>page_aligned va\<close> by (metis page_alignedE)
    then show ?thesis using next_page(2)[OF assms] by (auto simp: word_le_nat_alt word_unat_eq_iff)
  qed
  then show ?thesis using assms by (auto simp: pending_def)
qed

lemma pending_skip:
  assumes "a < KERNBASE" "\<not> present (pde m pgd (unat (PDX a)))"
  shows "pending m pgd a = pending m pgd (PGADDR (PDX a + 1) 0 0)"
proof -
  let ?b = "PGADDR (PDX a + 1) 0 0"
  note b = next_table[OF assms(1)]
  have "a \<le> va \<longleftrightarrow> ?b \<le> va" if "present (pte m pgd va)" for va
  proof
    assume "a \<le> va"
    then have le: "unat a div 2 ^ 22 \<le> unat va div 2 ^ 22" by (simp add: word_le_nat_alt div_le_mono)
    have "PDX va \<noteq> PDX a" using that assms(2) by (auto simp: pte_def present_def split: if_splits)
    then have "unat a div 2 ^ 22 \<noteq> unat va div 2 ^ 22" by (simp add: word_unat_eq_iff unat_PDX)
    then have "unat a div 2 ^ 22 + 1 \<le> unat va div 2 ^ 22" using le by simp
    then have "(unat a div 2 ^ 22 + 1) * 2 ^ 22 \<le> unat va" by (meson div_times_less_eq_dividend le_trans mult_le_mono1)
    then show "?b \<le> va" using b by (simp add: word_le_nat_alt)
  next
    assume "?b \<le> va"
    moreover have "unat a < (unat a div 2 ^ 22 + 1) * 2 ^ 22" using dividend_less_div_times[of "2 ^ 22" "unat a"] by simp
    ultimately show "a \<le> va" using b by (simp add: word_le_nat_alt)
  qed
  then show ?thesis by (auto simp: pending_def)
qed

text \<open>One turn: a mapped page is freed and its entry cleared.\<close>

lemma upages_okD:
  assumes "upages_ok m e F pgd a" "va \<in> pending m pgd a"
  shows "PTE_ADDR (pte m pgd va) \<noteq> 0" "kpage e (upage m pgd va)" "upage m pgd va \<notin> F" "upage m pgd va \<notin> pt_pages m pgd"
  using assms by (auto simp: upages_ok_def)

lemma dealloc_mapped:
  fixes s :: "'a kmem_st_scheme"
  assumes ok: "space_ok c s xs pgd a" and a: "page_aligned a" "a < KERNBASE" "present (pte (mem s) pgd a)"
  defines "v \<equiv> upage (mem s) pgd a"
  obtains t where "deallocuvm_body c pgd KERNBASE (a, s) = Ok (Inr (a + PGSIZE, t))" "kframe c s t" "vm_ok c t (v # xs) pgd"
    "pt_pages (mem t) pgd = pt_pages (mem s) pgd" "only_in (insert v (pt_pages (mem s) pgd)) s t"
    "\<And>va. pte (mem t) pgd va = (if PGROUNDDOWN va = a then 0 else pte (mem s) pgd va)"
    "\<And>i. i < 1024 \<Longrightarrow> pde (mem t) pgd i = pde (mem s) pgd i"
proof -
  have vm: "kmem_ok c s xs" "pgd_ok (mem s) (end_sym s) (set xs) pgd" and up: "upages_ok (mem s) (end_sym s) (set xs) pgd a"
    using ok by (simp_all add: space_ok_def vm_ok_def)
  have "a \<in> pending (mem s) pgd a" using a by (simp add: pending_def)
  note u = upages_okD[OF up this, folded v_def]
  let ?d = "unat (PDX a)"
  have pr: "present (pde (mem s) pgd ?d)" using a(3) by (auto simp: pte_def present_def split: if_splits)
  obtain s1 where s1: "kfree c v s = Ok s1" "kmem_ok c s1 (v # xs)" "kframe c s s1" "only_in {v} s s1"
    using kfree_page[OF vm(1) u(2,3)] by blast
  note same = tables_same[OF vm(2) s1(4) kpage_aligned[OF u(2)] u(4)]
  have "v \<noteq> pgd" "\<And>i. i < 1024 \<Longrightarrow> present (pde (mem s) pgd i) \<Longrightarrow> tab (mem s) pgd i \<noteq> v"
    using u(4) by (auto simp: pt_pages_def)
  then have "pgd_ok (mem s1) (end_sym s1) (set (v # xs)) pgd"
    using vm(2) kframe_simps(1)[OF s1(3)] unfolding pgd_ok_def by (auto simp: same(1,2))
  then have ok1: "vm_ok c s1 (v # xs) pgd" using s1(2) by (simp add: vm_ok_def)
  have pr1: "present (pde (mem s1) pgd ?d)" using pr PDX_bound same(1) by simp
  let ?t = "put_pte pgd a 0 s1"
  note p = put_pte_ok[OF ok1 pr1, where w = 0] and q = put_pte_tables[OF ok1 pr1, where w = 0]
  have al: "PGROUNDDOWN a = a" using a(1) page_iff[of a a] page_off_in[of a 0] by simp
  have e: "ld32 (mem s) (ent (tab (mem s) pgd ?d) (unat (PTX a))) = pte (mem s) pgd a" using pr by (simp add: pte_def)
  have nz: "ent (tab (mem s) pgd ?d) (unat (PTX a)) \<noteq> 0"
    using vm(2) pr PDX_bound by (intro ent_nonzero[OF _ PTX_bound]) (auto simp: pgd_ok_def)
  have "deallocuvm_body c pgd KERNBASE (a, s) = Ok (Inr (a + PGSIZE, ?t))"
    using a(2,3) nz u(1) s1(1) same(2)[OF PDX_bound]
    by (simp add: deallocuvm_body_def walkpgdir_present[OF pr] e present_def v_def upage_def put_pte_def)
  moreover have "kframe c s ?t" using kframe_mem[OF s1(3)] by (simp add: put_pte_def)
  moreover have "only_in (insert v (pt_pages (mem s) pgd)) s ?t"
    using only_in_mono[OF s1(4), of "insert v (pt_pages (mem s) pgd)"]
      only_in_mono[OF q(3)[unfolded same(4)], of "insert v (pt_pages (mem s) pgd)"] by (blast intro: only_in_trans)
  ultimately show ?thesis using that[of ?t] p(1,3) q(1,2) same al by simp
qed

definition upages :: "mem \<Rightarrow> uint \<Rightarrow> uint \<Rightarrow> uint set" where
  "upages m pgd a = upage m pgd ` pending m pgd a"

text \<open>What is left to do after a page has been freed.\<close>

lemma mapped_rest:
  assumes ok: "space_ok c s xs pgd a" and a: "page_aligned a" "a < KERNBASE" "present (pte (mem s) pgd a)"
    and t: "vm_ok c t (upage (mem s) pgd a # xs) pgd" "kframe c s t" "pt_pages (mem t) pgd = pt_pages (mem s) pgd"
    and pte: "\<And>va. pte (mem t) pgd va = (if PGROUNDDOWN va = a then 0 else pte (mem s) pgd va)"
  shows "space_ok c t (upage (mem s) pgd a # xs) pgd (a + PGSIZE)"
    "upages (mem s) pgd a = insert (upage (mem s) pgd a) (upages (mem t) pgd (a + PGSIZE))"
proof -
  let ?b = "a + PGSIZE"
  note pn = pending_next[OF a(1,2), of "mem s" pgd]
  have lt: "a < ?b" using next_page(2)[OF a(1,2)] by (simp add: word_less_nat_alt)
  have ne: "PGROUNDDOWN va \<noteq> a" if "page_aligned va" "?b \<le> va" for va
    using that lt page_iff[of va va] page_off_in[of va 0] by auto
  then have pd: "pending (mem t) pgd ?b = pending (mem s) pgd ?b" by (auto simp: pending_def pte)
  have up: "upage (mem t) pgd va = upage (mem s) pgd va" "pte (mem t) pgd va = pte (mem s) pgd va" if "va \<in> pending (mem s) pgd ?b" for va
    using that ne by (auto simp: upage_def pte pending_def)
  have sub: "pending (mem s) pgd ?b \<subseteq> pending (mem s) pgd a" and ins: "a \<in> pending (mem s) pgd a"
    unfolding pn using a(3) by auto
  have nin: "a \<notin> pending (mem s) pgd ?b" using lt by (auto simp: pending_def)
  have u: "upages_ok (mem s) (end_sym s) (set xs) pgd a" using ok by (simp add: space_ok_def)
  then have inj: "inj_on (upage (mem s) pgd) (pending (mem s) pgd a)" by (simp add: upages_ok_def)
  have "inj_on (upage (mem t) pgd) (pending (mem t) pgd ?b)"
    unfolding pd using inj_on_subset[OF inj sub] up(1) by (simp add: inj_on_def)
  moreover have "upage (mem s) pgd va \<noteq> upage (mem s) pgd a" if "va \<in> pending (mem s) pgd ?b" for va
    using that sub ins nin inj unfolding inj_on_def by blast
  ultimately have "upages_ok (mem t) (end_sym s) (insert (upage (mem s) pgd a) (set xs)) pgd ?b"
    using upages_okD[OF u subsetD[OF sub]] unfolding upages_ok_def pd t(3) by (simp add: up)
  then show "space_ok c t (upage (mem s) pgd a # xs) pgd ?b" using t(1) kframe_simps(1)[OF t(2)] by (simp add: space_ok_def)
  have "upages (mem t) pgd ?b = upages (mem s) pgd ?b" unfolding upages_def pd using up(1) by (intro image_cong) simp_all
  then show "upages (mem s) pgd a = insert (upage (mem s) pgd a) (upages (mem t) pgd ?b)"
    unfolding upages_def[of "mem s" pgd a] pn using a(3) by (simp add: upages_def)
qed

definition dealloced :: "nat \<Rightarrow> uint \<Rightarrow> uint \<Rightarrow> 'a kmem_st_scheme \<Rightarrow> uint list \<Rightarrow> 'a kmem_st_scheme \<Rightarrow> bool" where
  "dealloced c pgd a s xs t \<longleftrightarrow>
     (\<exists>ys. vm_ok c t ys pgd \<and> set ys = set xs \<union> upages (mem s) pgd a) \<and> kframe c s t \<and>
     pt_pages (mem t) pgd = pt_pages (mem s) pgd \<and> (\<forall>i < 1024. pde (mem t) pgd i = pde (mem s) pgd i) \<and>
     only_in (upages (mem s) pgd a \<union> pt_pages (mem s) pgd) s t"

lemma loop_res_step: "f s = Ok (Inr s') \<Longrightarrow> loop_res f s = loop_res f s'" "f s = Ok (Inl r) \<Longrightarrow> loop_res f s = Ok r"
  by (subst loop_res_unfold, simp)+

lemma upages_same: "pending m pgd a = pending m pgd b \<Longrightarrow> upages m pgd a = upages m pgd b"
  by (simp add: upages_def)

text \<open>A page that is not mapped is passed over, and a missing table with all its pages.\<close>

lemma dealloc_unmapped:
  assumes ok: "vm_ok c s xs pgd" and a: "page_aligned a" "a < KERNBASE" "\<not> present (pte (mem s) pgd a)"
  shows "\<exists>b. deallocuvm_body c pgd KERNBASE (a, s) = Ok (Inr (b, s)) \<and> page_aligned b \<and> a < b \<and> b \<le> KERNBASE \<and>
    pending (mem s) pgd a = pending (mem s) pgd b"
proof (cases "present (pde (mem s) pgd (unat (PDX a)))")
  case False
  let ?b = "PGADDR (PDX a + 1) 0 0"
  have "unat a < 2147483648" using a(2) by (simp add: word_less_nat_alt KERNBASE_def)
  then have "unat a div 2 ^ 22 < 512" by (simp add: less_mult_imp_div_less)
  then have "unat ?b \<le> 2147483648" "unat ?b mod 4096 = 0" using next_table[OF a(2)] by auto
  moreover have "unat a < unat ?b" using next_table[OF a(2)] dividend_less_div_times[of "2 ^ 22" "unat a"] by simp
  ultimately show ?thesis using False a(2)
    by (intro exI[of _ ?b] conjI pending_skip)
      (simp_all add: deallocuvm_body_def walkpgdir_absent page_aligned_def word_le_nat_alt word_less_nat_alt KERNBASE_def)
next
  case True
  have "ent (tab (mem s) pgd (unat (PDX a))) (unat (PTX a)) \<noteq> 0"
    using ok True PDX_bound by (intro ent_nonzero[OF _ PTX_bound]) (auto simp: vm_ok_def pgd_ok_def)
  moreover have "\<not> ld32 (mem s) (ent (tab (mem s) pgd (unat (PDX a))) (unat (PTX a))) AND PTE_P \<noteq> 0"
    using True a(3) by (simp add: pte_def present_def)
  ultimately have "deallocuvm_body c pgd KERNBASE (a, s) = Ok (Inr (a + PGSIZE, s))"
    using a(2) by (simp add: deallocuvm_body_def walkpgdir_present[OF True])
  then show ?thesis using next_page[OF a(1,2)] a(3) pending_next[OF a(1,2), of "mem s" pgd]
    by (intro exI[of _ "a + PGSIZE"]) (simp add: word_less_nat_alt)
qed

lemma dealloc_loop:
  assumes "page_aligned a" "a \<le> KERNBASE" "space_ok c s xs pgd a"
  shows "\<exists>t. loop_res (deallocuvm_body c pgd KERNBASE) (a, s) = Ok t \<and> dealloced c pgd a s xs t"
  using assms
proof (induction "unat KERNBASE - unat a" arbitrary: a s xs rule: less_induct)
  case less
  let ?F = "deallocuvm_body c pgd KERNBASE"
  have po: "vm_ok c s xs pgd" using less.prems(3) by (simp add: space_ok_def)
  consider (out) "\<not> a < KERNBASE" | (unmapped) "a < KERNBASE" "\<not> present (pte (mem s) pgd a)"
    | (mapped) "a < KERNBASE" "present (pte (mem s) pgd a)" by blast
  then show ?case
  proof cases
    case out
    then have "pending (mem s) pgd a = {}" by (auto simp: pending_def)
    then have "dealloced c pgd a s xs s" using po by (auto simp: dealloced_def upages_def only_in_def intro: kframe_refl)
    moreover have "?F (a, s) = Ok (Inl s)" using out by (simp add: deallocuvm_body_def)
    note loop_res_step(2)[of ?F, OF this]
    ultimately show ?thesis by (intro exI[of _ s]) simp
  next
    case unmapped
    obtain b where b: "?F (a, s) = Ok (Inr (b, s))" "page_aligned b" "a < b" "b \<le> KERNBASE" "pending (mem s) pgd a = pending (mem s) pgd b"
      using dealloc_unmapped[OF po less.prems(1) unmapped] by blast
    have "space_ok c s xs pgd b" using less.prems(3) b(5) by (simp add: space_ok_def upages_ok_def)
    moreover have "unat KERNBASE - unat b < unat KERNBASE - unat a" using b(3) unmapped(1) by (simp add: word_less_nat_alt diff_less_mono2)
    ultimately obtain t where "loop_res ?F (b, s) = Ok t" "dealloced c pgd b s xs t" using less.hyps b(2,4) by blast
    then show ?thesis using loop_res_step(1)[of ?F, OF b(1)] upages_same[OF b(5)] by (auto simp: dealloced_def)
  next
    case mapped
    let ?v = "upage (mem s) pgd a"
    obtain t1 where t1: "?F (a, s) = Ok (Inr (a + PGSIZE, t1))" "kframe c s t1" "vm_ok c t1 (?v # xs) pgd"
      "pt_pages (mem t1) pgd = pt_pages (mem s) pgd" "only_in (insert ?v (pt_pages (mem s) pgd)) s t1"
      "\<And>va. pte (mem t1) pgd va = (if PGROUNDDOWN va = a then 0 else pte (mem s) pgd va)"
      "\<And>i. i < 1024 \<Longrightarrow> pde (mem t1) pgd i = pde (mem s) pgd i"
      using dealloc_mapped[OF less.prems(3,1) mapped] by blast
    note np = next_page[OF less.prems(1) mapped(1)] and r = mapped_rest[OF less.prems(3,1) mapped t1(3,2,4,6)]
    have "unat KERNBASE - unat (a + PGSIZE) < unat KERNBASE - unat a" using mapped(1) np(2) by (simp add: word_less_nat_alt)
    then obtain t ys where t: "loop_res ?F (a + PGSIZE, t1) = Ok t" "vm_ok c t ys pgd"
      "set ys = set (?v # xs) \<union> upages (mem t1) pgd (a + PGSIZE)" "kframe c t1 t" "pt_pages (mem t) pgd = pt_pages (mem t1) pgd"
      "\<forall>i < 1024. pde (mem t) pgd i = pde (mem t1) pgd i" "only_in (upages (mem t1) pgd (a + PGSIZE) \<union> pt_pages (mem t1) pgd) t1 t"
      using less.hyps[OF _ np(1,3) r(1)] unfolding dealloced_def by blast
    let ?P = "upages (mem s) pgd a \<union> pt_pages (mem s) pgd"
    have "only_in ?P s t1" by (rule only_in_mono[OF t1(5)]) (use r(2) in auto)
    moreover have "only_in ?P t1 t" by (rule only_in_mono[OF t(7)]) (use r(2) t1(4) in auto)
    moreover have "set ys = set xs \<union> upages (mem s) pgd a" using t(3) r(2) by auto
    ultimately have "dealloced c pgd a s xs t"
      using t(2,5,6) t1(4,7) kframe_trans[OF t1(2) t(4)] only_in_trans[of ?P s t1 t] unfolding dealloced_def by auto
    then show ?thesis using loop_res_step(1)[of ?F, OF t1(1)] t(1) by auto
  qed
qed

section \<open>freevm\<close>

definition free_table :: "nat \<Rightarrow> uint \<Rightarrow> nat \<Rightarrow> 'a kmem_st_scheme \<Rightarrow> (unit option \<times> 'a kmem_st_scheme) res" where
  "free_table c pgd i s =
     (if ld32 (mem s) (pgd + 4 * of_nat i) AND PTE_P \<noteq> 0
      then rbind (kfree c (P2V (PTE_ADDR (ld32 (mem s) (pgd + 4 * of_nat i)))) s) (\<lambda>s'. Ok (None, s'))
      else Ok (None, s))"

text \<open>The tables of the entries \<open>js\<close>.\<close>

definition tables :: "mem \<Rightarrow> uint \<Rightarrow> nat set \<Rightarrow> uint set" where
  "tables m pgd J = {tab m pgd i |i. i \<in> J \<and> present (pde m pgd i)}"

lemma free_tables:
  assumes "distinct js" "set js \<subseteq> {..<1024}" "kmem_ok c s xs" "page_aligned pgd" "pgd \<notin> tables (mem s) pgd (set js)"
    "tables (mem s) pgd (set js) \<inter> set xs = {}" "\<forall>v \<in> tables (mem s) pgd (set js). kpage (end_sym s) v"
    "inj_on (tab (mem s) pgd) {i \<in> set js. present (pde (mem s) pgd i)}"
  shows "\<exists>t ys. for_each (free_table c pgd) js s = Ok (None, t) \<and> kmem_ok c t ys \<and> set ys = set xs \<union> tables (mem s) pgd (set js) \<and>
    kframe c s t \<and> only_in (tables (mem s) pgd (set js)) s t"
  using assms
proof (induction js arbitrary: s xs)
  case Nil
  then show ?case by (auto simp: tables_def only_in_def intro: kframe_refl)
next
  case (Cons i js)
  have w: "ld32 (mem s) (pgd + 4 * of_nat i) = pde (mem s) pgd i" by (simp add: pde_def ent_def)
  show ?case
  proof (cases "present (pde (mem s) pgd i)")
    case False
    then have "tables (mem s) pgd (set (i # js)) = tables (mem s) pgd (set js)" "free_table c pgd i s = Ok (None, s)"
      "{k \<in> set (i # js). present (pde (mem s) pgd k)} = {k \<in> set js. present (pde (mem s) pgd k)}"
      by (auto simp: tables_def free_table_def w present_def)
    then show ?thesis using Cons.IH[of s xs] Cons.prems by simp
  next
    case True
    let ?v = "tab (mem s) pgd i"
    have T: "tables (mem s) pgd (set (i # js)) = insert ?v (tables (mem s) pgd (set js))" using True by (auto simp: tables_def)
    have v: "kpage (end_sym s) ?v" "?v \<notin> set xs" "?v \<noteq> pgd" using Cons.prems(5-7) unfolding T by auto
    have nin: "?v \<notin> tables (mem s) pgd (set js)"
      using Cons.prems(1,8) True by (auto simp: tables_def inj_on_def)
    obtain s1 where s1: "kfree c ?v s = Ok s1" "kmem_ok c s1 (?v # xs)" "kframe c s s1" "only_in {?v} s s1"
      using kfree_page[OF Cons.prems(3) v(1,2)] by blast
    have "page pgd \<inter> page ?v = {}" using pages_disjoint[OF Cons.prems(4) kpage_aligned[OF v(1)]] v(3) by auto
    then have pd: "pde (mem s1) pgd k = pde (mem s) pgd k" if "k < 1024" for k
      unfolding pde_def using s1(4) that Cons.prems(4) by (intro ld32_entry_cong) (auto simp: only_in_def)
    have pj: "pde (mem s1) pgd k = pde (mem s) pgd k" if "k \<in> set js" for k using pd Cons.prems(2) that by auto
    have same: "tables (mem s1) pgd (set js) = tables (mem s) pgd (set js)"
      unfolding tables_def tab_def using pj by (metis (no_types, lifting))
    have same': "{k \<in> set js. present (pde (mem s1) pgd k)} = {k \<in> set js. present (pde (mem s) pgd k)}" using pj by auto
    have "inj_on (tab (mem s1) pgd) {k \<in> set js. present (pde (mem s) pgd k)}"
      using Cons.prems(8) by (auto simp: inj_on_def tab_def pj)
    then obtain t ys where t: "for_each (free_table c pgd) js s1 = Ok (None, t)" "kmem_ok c t ys"
      "set ys = set (?v # xs) \<union> tables (mem s) pgd (set js)" "kframe c s1 t" "only_in (tables (mem s) pgd (set js)) s1 t"
      using Cons.IH[OF _ _ s1(2) Cons.prems(4)] Cons.prems nin kframe_simps(1)[OF s1(3)] unfolding same same' T by auto
    have "free_table c pgd i s = Ok (None, s1)" using True s1(1) by (simp add: free_table_def w present_def tab_def)
    moreover have "only_in (insert ?v (tables (mem s) pgd (set js))) s t"
      using only_in_mono[OF s1(4)] only_in_mono[OF t(5)] by (blast intro: only_in_trans)
    ultimately show ?thesis using t(1-3) kframe_trans[OF s1(3) t(4)] unfolding T by auto
  qed
qed

lemma freevm_ok:
  assumes "space_ok c s xs pgd 0"
  shows "\<exists>t ys. freevm c pgd s = Ok t \<and> kmem_ok c t ys \<and> set ys = set xs \<union> upages (mem s) pgd 0 \<union> pt_pages (mem s) pgd \<and>
    kframe c s t \<and> only_in (upages (mem s) pgd 0 \<union> pt_pages (mem s) pgd) s t"
proof -
  have "page_aligned 0" by (simp add: page_aligned_def)
  from dealloc_loop[OF this _ assms] obtain s1 ys1 where s1: "loop_res (deallocuvm_body c pgd KERNBASE) (0, s) = Ok s1"
    "vm_ok c s1 ys1 pgd" "set ys1 = set xs \<union> upages (mem s) pgd 0" "kframe c s s1" "pt_pages (mem s1) pgd = pt_pages (mem s) pgd"
    "only_in (upages (mem s) pgd 0 \<union> pt_pages (mem s) pgd) s s1"
    unfolding dealloced_def by auto
  have "PGROUNDUP 0 = 0" by (simp add: PGROUNDUP_def PGSIZE_def)
  then have d: "deallocuvm c pgd KERNBASE 0 s = Ok (0, s1)" using s1(1) by (simp add: deallocuvm_def KERNBASE_def)
  have ok: "kmem_ok c s1 ys1" "pgd_ok (mem s1) (end_sym s1) (set ys1) pgd" using s1(2) by (simp_all add: vm_ok_def)
  define J where "J = [0..<NPDENTRIES]"
  have J: "set J = {..<1024}" "distinct J" unfolding J_def NPDENTRIES_def by (simp_all only: set_upt atLeast0LessThan distinct_upt)
  let ?T = "tables (mem s1) pgd (set J)"
  have pt: "pt_pages (mem s1) pgd = insert pgd ?T" by (simp add: pt_pages_def tables_def J(1))
  have T: "pgd \<notin> ?T" "?T \<inter> set ys1 = {}" "\<forall>v \<in> ?T. kpage (end_sym s1) v"
    using ok(2) unfolding pgd_ok_def tables_def J(1) by auto
  have "inj_on (tab (mem s1) pgd) {i \<in> set J. present (pde (mem s1) pgd i)}"
    using ok(2) unfolding pgd_ok_def inj_on_def J(1) by simp
  with free_tables[OF J(2) _ ok(1) pgd_ok_pgd[OF ok(2)] T]
  obtain s2 ys2 where s2: "for_each (free_table c pgd) J s1 = Ok (None, s2)" "kmem_ok c s2 ys2" "set ys2 = set ys1 \<union> ?T"
    "kframe c s1 s2" "only_in ?T s1 s2"
    unfolding J(1) by blast
  have "kpage (end_sym s2) pgd" "pgd \<notin> set ys2" using ok(2) s2(3) T(1) kframe_simps(1)[OF s2(4)] by (simp_all add: pgd_ok_def)
  then obtain t where t: "kfree c pgd s2 = Ok t" "kmem_ok c t (pgd # ys2)" "kframe c s2 t" "only_in {pgd} s2 t"
    using kfree_page[OF s2(2)] by blast
  have "pgd \<noteq> 0" using ok(2) kpage_nonzero by (auto simp: pgd_ok_def)
  then have "freevm c pgd s = Ok t" using d s2(1) t(1) unfolding freevm_def J_def free_table_def[abs_def] by simp
  moreover have "set (pgd # ys2) = set xs \<union> upages (mem s) pgd 0 \<union> pt_pages (mem s) pgd" using s1(3,5) s2(3) pt by auto
  moreover have "kframe c s t" using s1(4) s2(4) t(3) by (blast intro: kframe_trans)
  moreover have "only_in (upages (mem s) pgd 0 \<union> pt_pages (mem s) pgd) s t"
  proof (rule only_in_trans[OF s1(6) only_in_trans])
    show "only_in (upages (mem s) pgd 0 \<union> pt_pages (mem s) pgd) s1 s2" by (rule only_in_mono[OF s2(5)]) (use pt s1(5) in auto)
    show "only_in (upages (mem s) pgd 0 \<union> pt_pages (mem s) pgd) s2 t" by (rule only_in_mono[OF t(4)]) (use pt s1(5) in auto)
  qed
  ultimately show ?thesis using t(2) by blast
qed

end
