(* ===== verification/Reap_Thms.thy ===== *)
theory Reap_Thms
  imports Alloc_Thms Free_Thms Proc_Machine
begin

text \<open>
  The end of a process: \<open>wait\<close> gives the kernel stack, the user pages and the page tables of a
  zombie child back to the allocator and its slot back to the free list of the table.
\<close>

section \<open>Freeing a page next to an address space\<close>

lemma space_after_free:
  assumes ok: "space_ok c s xs pgd a" and s1: "kmem_ok c s1 (v # xs)" "kframe c s s1" "only_in {v} s s1"
    and v: "kpage (end_sym s) v" "v \<notin> upages (mem s) pgd a" "v \<notin> pt_pages (mem s) pgd"
  shows "space_ok c s1 (v # xs) pgd a" "upages (mem s1) pgd a = upages (mem s) pgd a" "pt_pages (mem s1) pgd = pt_pages (mem s) pgd"
proof -
  have po: "pgd_ok (mem s) (end_sym s) (set xs) pgd" and up: "upages_ok (mem s) (end_sym s) (set xs) pgd a"
    using ok by (simp_all add: space_ok_def vm_ok_def)
  note same = tables_same[OF po s1(3) kpage_aligned[OF v(1)] v(3)]
  have u: "upage (mem s1) pgd va = upage (mem s) pgd va" for va by (simp add: upage_def same(3))
  have p: "pending (mem s1) pgd a = pending (mem s) pgd a" by (simp add: pending_def same(3))
  have "v \<noteq> pgd" "\<And>i. i < 1024 \<Longrightarrow> present (pde (mem s) pgd i) \<Longrightarrow> tab (mem s) pgd i \<noteq> v"
    using v(3) by (auto simp: pt_pages_def)
  then have "pgd_ok (mem s1) (end_sym s1) (set (v # xs)) pgd"
    using po kframe_simps(1)[OF s1(2)] unfolding pgd_ok_def by (auto simp: same(1,2))
  moreover have "upages_ok (mem s1) (end_sym s1) (set (v # xs)) pgd a"
    using up v(2) kframe_simps(1)[OF s1(2)] unfolding upages_ok_def p same(3,4) u upages_def by auto
  ultimately show "space_ok c s1 (v # xs) pgd a" using s1(1) by (simp add: space_ok_def vm_ok_def)
  show "upages (mem s1) pgd a = upages (mem s) pgd a" by (simp add: upages_def p u)
  show "pt_pages (mem s1) pgd = pt_pages (mem s) pgd" by (rule same(4))
qed

lemma kframe_pt:
  fixes s t :: "'a pt_st_scheme"
  assumes "kframe c s t"
  shows "proc t = proc s" "plist t = plist s" "ready t = ready s" "ptable_lock t = ptable_lock s"
    "ncli (cpus s c) \<noteq> 0 \<Longrightarrow> cpus t = cpus s"
  using assms by (auto simp: kframe_def touch_def saved_def)

lemma pupd_mem: "pupd z f (s\<lparr>mem := m, freelist := g\<rparr>) = (pupd z f s)\<lparr>mem := m, freelist := g\<rparr>"
  by (rule pt_st.equality) (simp_all add: pupd_def)

lemma pupd_touch: "pupd z f (touch c s) = touch c (pupd z f s)"
  by (rule pt_st.equality) (simp_all add: pupd_def touch_def)

lemma kframe_pupd:
  assumes "kframe c s t"
  shows "kframe c (pupd z f s) (pupd z f t)"
  using assms unfolding kframe_def by (elim exE disjE) (auto simp: pupd_mem pupd_touch)

lemma space_ok_pupd [simp]: "space_ok c (pupd p f s) xs pgd a = space_ok c s xs pgd a"
  by (simp add: space_ok_def vm_ok_def kmem_ok_def)

section \<open>What a process owns\<close>

definition own_pages :: "nat \<Rightarrow> 'a pt_st_scheme \<Rightarrow> uint set" where
  "own_pages z s = insert (kstack (proc s z)) (upages (mem s) (pgdir (proc s z)) 0 \<union> pt_pages (mem s) (pgdir (proc s z)))"

text \<open>
  The page directory, its tables, the user pages and the kernel stack of a process are kernel
  pages, all different and none of them free.
\<close>

definition owns_memory :: "nat \<Rightarrow> 'a pt_st_scheme \<Rightarrow> uint list \<Rightarrow> nat \<Rightarrow> bool" where
  "owns_memory c s xs z \<longleftrightarrow>
     space_ok c s xs (pgdir (proc s z)) 0 \<and> kpage (end_sym s) (kstack (proc s z)) \<and>
     kstack (proc s z) \<notin> set xs \<union> upages (mem s) (pgdir (proc s z)) 0 \<union> pt_pages (mem s) (pgdir (proc s z))"

definition reaped :: "proc \<Rightarrow> proc" where
  "reaped x = x\<lparr>kstack := 0, pid := 0, parent := None, pname := (pname x)[0 := 0], killed := False, state := UNUSED\<rparr>"

lemma reap_frees:
  assumes "owns_memory c s xs z"
  obtains s1 s2 ys where "kfree c (kstack (proc s z)) s = Ok s1"
    "freevm c (pgdir (proc s1 z)) (pupd z (\<lambda>x. x\<lparr>kstack := 0\<rparr>) s1) = Ok s2" "kmem_ok c s2 ys"
    "set ys = set xs \<union> own_pages z s" "kframe c (pupd z (\<lambda>x. x\<lparr>kstack := 0\<rparr>) s) s2" "only_in (own_pages z s) s s2"
proof -
  let ?g = "pgdir (proc s z)" and ?k = "kstack (proc s z)" and ?f = "\<lambda>x. x\<lparr>kstack := 0\<rparr>"
  have sp: "space_ok c s xs ?g 0" and k: "kpage (end_sym s) ?k" "?k \<notin> set xs" "?k \<notin> upages (mem s) ?g 0" "?k \<notin> pt_pages (mem s) ?g"
    using assms by (auto simp: owns_memory_def)
  have "kmem_ok c s xs" using sp by (simp add: space_ok_def vm_ok_def)
  from kfree_page[OF this k(1,2)] obtain s1 where s1: "kfree c ?k s = Ok s1" "kmem_ok c s1 (?k # xs)" "kframe c s s1" "only_in {?k} s s1"
    by blast
  note sp1 = space_after_free[OF sp s1(2-4) k(1,3,4)]
  have "space_ok c (pupd z ?f s1) (?k # xs) ?g 0" using sp1(1) by simp
  from freevm_ok[OF this] obtain s2 ys where s2: "freevm c ?g (pupd z ?f s1) = Ok s2" "kmem_ok c s2 ys"
    "set ys = set (?k # xs) \<union> upages (mem s1) ?g 0 \<union> pt_pages (mem s1) ?g" "kframe c (pupd z ?f s1) s2"
    "only_in (upages (mem s1) ?g 0 \<union> pt_pages (mem s1) ?g) (pupd z ?f s1) s2"
    by auto
  have "kframe c (pupd z ?f s) s2" using kframe_pupd[OF s1(3)] s2(4) by (rule kframe_trans)
  moreover have "only_in (own_pages z s) s s2"
  proof (rule only_in_trans)
    show "only_in (own_pages z s) s s1" by (rule only_in_mono[OF s1(4)]) (simp add: own_pages_def)
    have "only_in (own_pages z s) (pupd z ?f s1) s2" by (rule only_in_mono[OF s2(5)]) (auto simp: own_pages_def sp1)
    then show "only_in (own_pages z s) s1 s2" by (simp add: only_in_def)
  qed
  moreover have "set ys = set xs \<union> own_pages z s" using s2(3) sp1(2,3) by (auto simp: own_pages_def)
  ultimately show ?thesis using that[OF s1(1)] s2(1,2) kframe_pt(1)[OF s1(3)] by simp
qed

lemma reap_ok:
  assumes inv: "ptinv s Q" and z: "z < NPROC" "state (proc s z) = ZOMBIE" and own: "owns_memory c s xs z" and held: "ncli (cpus s c) \<noteq> 0"
  shows "\<exists>s' ys. reap c z s = Ok (pid (proc s z), s') \<and> ptinv s' (moved (LState ZOMBIE) (LState UNUSED) z Q) \<and>
    proc (core s') = (proc (core s))(z := reaped (proc (core s) z)) \<and> kmem_ok c s' ys \<and> set ys = set xs \<union> own_pages z s \<and>
    only_in (own_pages z s) s s' \<and> cpus s' = cpus s \<and> ptable_lock s' = ptable_lock s"
proof -
  let ?f = "\<lambda>x. x\<lparr>kstack := 0\<rparr>" and ?g = "\<lambda>x. x\<lparr>pid := 0, parent := None, pname := (pname x)[0 := 0], killed := False\<rparr>"
    and ?u = "\<lambda>x. x\<lparr>state := UNUSED\<rparr>"
  obtain s1 s2 ys where s: "kfree c (kstack (proc s z)) s = Ok s1" "freevm c (pgdir (proc s1 z)) (pupd z ?f s1) = Ok s2"
    "kmem_ok c s2 ys" "set ys = set xs \<union> own_pages z s" "kframe c (pupd z ?f s) s2" "only_in (own_pages z s) s s2"
    using reap_frees[OF own] by blast
  note k = kframe_pt[OF s(5)]
  have pr: "unat (priority (proc s z)) \<le> MAXPRIO" using prio_le[OF inv z(1)] .
  have "ptinv (pupd z ?f s) Q" using inv pr by (intro ptinv_pupd) (simp_all add: lkey_def)
  then have i2: "ptinv s2 Q" using ptinv_cong[OF k(1-3)] by simp
  have p2: "proc s2 z = ?f (proc s z)" using k(1) by simp
  let ?s3 = "pupd z ?g s2"
  have i3: "ptinv ?s3 Q" using i2 pr p2 by (intro ptinv_pupd) (simp_all add: lkey_def link_indep_def)
  have "\<exists>s'. relist (LState ZOMBIE) z ''Empty List or process not in list'' ZOMBIE ?u (\<lambda>x. LState (state x)) ?s3 = Ok s' \<and>
      ptinv s' (moved (LState ZOMBIE) (lkey (?u (proc ?s3 z))) z Q) \<and> core s' = pupd z ?u (core ?s3)"
    using i3 z pr p2 by (intro relist_ok) (simp_all add: lkey_def)
  then obtain s' where s': "relist (LState ZOMBIE) z ''Empty List or process not in list'' ZOMBIE ?u (\<lambda>x. LState (state x)) ?s3 = Ok s'"
      "ptinv s' (moved (LState ZOMBIE) (LState UNUSED) z Q)" "core s' = pupd z ?u (core ?s3)"
    by (auto simp: lkey_def)
  have f: "mem s' = mem s2" "freelist s' = freelist s2" "end_sym s' = end_sym s2" "kmem_lock s' = kmem_lock s2" "cpus s' = cpus s2"
      "ptable_lock s' = ptable_lock s2"
    using arg_cong[OF s'(3), of mem] arg_cong[OF s'(3), of freelist] arg_cong[OF s'(3), of end_sym] arg_cong[OF s'(3), of kmem_lock]
      arg_cong[OF s'(3), of cpus] arg_cong[OF s'(3), of ptable_lock] by simp_all
  have "reap c z s = Ok (pid (proc s z), s')" using s(1,2) s'(1) p2 z(2) by (simp add: reap_def)
  moreover have "kmem_ok c s' ys" using s(3) f by (simp add: kmem_ok_def)
  moreover have "proc (core s') = (proc (core s))(z := reaped (proc (core s) z))"
  proof
    fix q show "proc (core s') q = ((proc (core s))(z := reaped (proc (core s) z))) q"
      using k(1) unfolding s'(3) by (cases "q = z") (simp_all add: core_def pupd_def reaped_def)
  qed
  ultimately show ?thesis using s'(2) s(4,6) f k(4,5) held by (auto simp: only_in_def)
qed

section \<open>The two ends of a round of wait\<close>

lemma wait_reaps:
  assumes inv: "ptinv s Q" and cpu: "cpu_ok (cpus s c)" "ncli (cpus s c) = 1" "held_by c (ptable_lock s)"
    and own: "owns_memory c s xs z" and z: "z < NPROC" "state (proc s z) = ZOMBIE" and d: "dead_child p Q s = Some z"
  shows "\<exists>s' ys. wait_round c p s = Ok (Inl (int_of (pid (proc s z))), s') \<and> free_lock (ptable_lock s') \<and>
    ptinv s' (moved (LState ZOMBIE) (LState UNUSED) z Q) \<and> proc (core s') = (proc (core s))(z := reaped (proc (core s) z)) \<and>
    kmem_ok c s' ys \<and> set ys = set xs \<union> own_pages z s \<and> only_in (own_pages z s) s s'"
proof -
  obtain s1 ys where s1: "reap c z s = Ok (pid (proc s z), s1)" "ptinv s1 (moved (LState ZOMBIE) (LState UNUSED) z Q)"
      "proc (core s1) = (proc (core s))(z := reaped (proc (core s) z))" "kmem_ok c s1 ys" "set ys = set xs \<union> own_pages z s"
      "only_in (own_pages z s) s s1" "cpus s1 = cpus s" "ptable_lock s1 = ptable_lock s"
    using reap_ok[OF inv z own] cpu(2) by auto
  obtain k l where r: "ptable_release c s1 = Ok (s1\<lparr>cpus := (cpus s1)(c := k), ptable_lock := l\<rparr>)" "cpu_ok k" "free_lock l"
    using ptable_release_top[of s1 c] cpu s1(7,8) by auto
  let ?s' = "s1\<lparr>cpus := (cpus s1)(c := k), ptable_lock := l\<rparr>"
  have "wait_round c p s = Ok (Inl (int_of (pid (proc s z))), ?s')" using wait_round_eq[OF inv, of c p] d s1(1) r(1) by simp
  moreover have "kmem_ok c ?s' ys" using s1(4) r(2) by (simp add: kmem_ok_def)
  moreover have "proc (core ?s') = proc (core s1)" by (simp add: core_def)
  ultimately show ?thesis using s1(2,3,5,6) r(3) by (intro exI[of _ ?s'] exI[of _ ys]) (simp add: only_in_def)
qed

lemma wait_sleeps:
  assumes "ptinv s Q" "cpu_ok (cpus s c)" "ncli (cpus s c) = 1" "held_by c (ptable_lock s)"
    "cproc (cpus s c) = Some p" "p < NPROC" "state (proc s p) = RUNNING"
    and None: "find (\<lambda>z. parent (proc s z) = Some p) (Q (LState ZOMBIE)) = None"
  shows "if (\<forall>q < NPROC. state (proc s q) \<noteq> UNUSED \<longrightarrow> parent (proc s q) \<noteq> Some p) \<or> killed (proc s p)
    then \<exists>s'. wait_round c p s = Ok (Inl (-1), s') \<and> ptinv s' Q \<and> proc s' = proc s \<and> free_lock (ptable_lock s')
    else \<exists>ie s'. wait_round c p s = Ok (Inr ie, s') \<and> ptinv s' (moved (LState RUNNING) (LState SLEEPING) p Q) \<and>
      state (proc s' p) = SLEEPING \<and> chan (proc s' p) = proc_chan (Some p) \<and>
      (\<forall>q. q \<noteq> p \<longrightarrow> proc (core s') q = proc (core s) q)"
proof -
  have z: "parent (proc s q) \<noteq> Some p" if "q < NPROC" "state (proc s q) = ZOMBIE" for q
    using kid_in_none[OF assms(1) None that(1)] that(2) by (simp add: lkey_def)
  have u: "st \<noteq> UNUSED \<longleftrightarrow> st = ZOMBIE \<or> st \<in> {EMBRYO, SLEEPING, RUNNABLE, RUNNING}" for st by (cases st) auto
  have k: "(\<not> kid_in p {EMBRYO, SLEEPING, RUNNABLE, RUNNING} s) = (\<forall>q < NPROC. state (proc s q) \<noteq> UNUSED \<longrightarrow> parent (proc s q) \<noteq> Some p)"
    unfolding kid_in_def u using z by blast
  note w = wait_round_eq[OF assms(1), of c p, unfolded dead_child_def None option.case k]
  show ?thesis
  proof (cases "(\<forall>q < NPROC. state (proc s q) \<noteq> UNUSED \<longrightarrow> parent (proc s q) \<noteq> Some p) \<or> killed (proc s p)")
    case True
    then show ?thesis using w ptable_release_top[OF assms(2-4)] assms(1) by auto
  next
    case False
    obtain s' where s': "sleep_enter c (Ch_proc p) PtableLock s = Ok (intena (cpus s c), s')"
        "ptinv s' (moved (LState RUNNING) (LState SLEEPING) p Q)" "core s' = pupd p (sleep_proc (ticks s) (Ch_proc p)) (core s)"
      using sleep_locked_ok[OF assms(1-7)] by blast
    have "state (proc s' p) = SLEEPING" "chan (proc s' p) = Ch_proc p"
      using arg_cong[OF s'(3), of "\<lambda>s. state (proc s p)"] arg_cong[OF s'(3), of "\<lambda>s. chan (proc s p)"]
      by (simp_all add: sleep_proc_def)
    moreover have "proc (core s') q = proc (core s) q" if "q \<noteq> p" for q using arg_cong[OF s'(3), of "\<lambda>s. proc s q"] that by simp
    moreover have "wait_round c p s = Ok (Inr (intena (cpus s c)), s')" unfolding w if_not_P[OF False] s'(1) by simp
    ultimately show ?thesis unfolding if_not_P[OF False] proc_chan_def using s'(2) by auto
  qed
qed

end
