(* ===== verification/Props_Life.thy ===== *)
theory Props_Life
  imports Demo Proc_Machine Reap_Thms
begin

text \<open>
  Properties of the life of a process: the table at boot, the slot a new process gets,
  \<open>exit\<close> and \<open>wait\<close>.
\<close>

declare One_nat_def [simp]

section \<open>The table at boot\<close>

text \<open>
  C27: \<open>initProcessLists\<close> followed by \<open>initFreeList\<close>, as \<open>userinit\<close> calls them, ends without a panic
  whatever the lists held before, and establishes the invariant of the process table: every
  slot is UNUSED and on the free list, in the order of the slots, and all other lists are
  empty.  The only requirement is that no slot has a priority above \<open>MAXPRIO\<close>, which the zeroed
  table satisfies.
\<close>

theorem boot_establishes_table:
  assumes "\<forall>p < NPROC. unat (priority (proc s p)) \<le> MAXPRIO"
  shows "\<exists>s'. initFreeList (initProcessLists s) = Ok s' \<and>
    ptinv s' (\<lambda>l. if l = LState UNUSED then [0..<NPROC] else []) \<and>
    (\<forall>p < NPROC. state (proc s' p) = UNUSED) \<and> cpus s' = cpus s \<and> mem s' = mem s"
proof -
  obtain t where t: "initFreeList (initProcessLists s) = Ok t" "ptinv t (free_lists NPROC)"
      "core t = procs_upd (\<lambda>p. p < NPROC) (\<lambda>x. x\<lparr>state := UNUSED\<rparr>) (core s)"
    using initFreeList_ok[of s] assms by (auto simp: prio_ok_def)
  have "state (proc t p) = UNUSED" if "p < NPROC" for p using arg_cong[OF t(3), of "\<lambda>s. state (proc s p)"] that by simp
  moreover have "cpus t = cpus s" "mem t = mem s" using arg_cong[OF t(3), of cpus] arg_cong[OF t(3), of mem] by simp_all
  ultimately show ?thesis using t(1,2) by (auto simp: free_lists_def)
qed

theorem boot_establishes_table_witness:
  "\<exists>s'. initFreeList (initProcessLists demo_st) = Ok s' \<and> state (proc s' 0) = UNUSED \<and> state (proc demo_st 0) = RUNNING"
proof -
  have "\<forall>p < NPROC. unat (priority (proc demo_st p)) \<le> MAXPRIO"
    using ptinvD(2)[OF demo_ok(1)] by (simp add: prio_ok_def)
  from boot_establishes_table[OF this] show ?thesis
    by (auto simp: NPROC_def demo_st_def demo_proc_def Let_def)
qed

section \<open>A new process\<close>

text \<open>
  C26: \<open>allocproc\<close> gives out the first slot of the free list: it becomes an EMBRYO with the next
  pid, a fresh budget and the top priority, and with the first free page as its kernel stack,
  on which the words that \<open>swtch\<close> and \<open>forkret\<close> will pop are the addresses of \<open>forkret\<close> and
  \<open>trapret\<close>, just below the trap frame.  No other process and no memory outside the new stack
  changes.  Without a free page the slot goes back to the end of the free list, and without
  a free slot nothing happens at all.
\<close>

theorem allocproc_prepares_process:
  assumes "ready_cpu c s" "ptinv s Q" "kmem_ok c s xs"
  shows "case Q (LState UNUSED) of
      [] \<Rightarrow> allocproc c s = Ok (None, s)
    | p # ps \<Rightarrow>
        (case xs of
           [] \<Rightarrow> \<exists>s'. allocproc c s = Ok (None, s') \<and> ptinv s' (Q(LState UNUSED := ps @ [p])) \<and> kmem_ok c s' []
         | k # ks \<Rightarrow> \<exists>s'. allocproc c s = Ok (Some p, s') \<and> kmem_ok c s' ks \<and>
             ptinv s' (Q(LState UNUSED := ps, LState EMBRYO := Q (LState EMBRYO) @ [p])) \<and>
             state (proc s' p) = EMBRYO \<and> pid (proc s' p) = nextpid s \<and> nextpid s' = nextpid s + 1 \<and>
             priority (proc s' p) = of_nat MAXPRIO \<and> budget (proc s' p) = BUDGET \<and>
             kstack (proc s' p) = k \<and> tf (proc s' p) = k + KSTACKSIZE - sizeof_trapframe \<and>
             ld32 (mem s') (ctxt (proc s' p) + 16) = forkret_sym s \<and> ld32 (mem s') (tf (proc s' p) - 4) = trapret_sym s \<and>
             ctxt (proc s' p) + 20 = tf (proc s' p) - 4 \<and>
             (\<forall>q. q \<noteq> p \<longrightarrow> proc (core s') q = proc (core s) q) \<and> (\<forall>a. a \<notin> page k \<longrightarrow> mem s' a = mem s a))"
proof (cases "Q (LState UNUSED)")
  case Nil
  then have "head (getl (LState UNUSED) s) = None" using ptinv_head[OF assms(2), of "LState UNUSED"] by simp
  then show ?thesis using Nil by (simp add: allocproc_def)
next
  case (Cons p ps)
  note A = allocproc_ok[OF assms Cons]
  show ?thesis
  proof (cases xs)
    case Nil
    then show ?thesis using A Cons by auto
  next
    case xs: (Cons k ks)
    obtain s' where s': "allocproc c s = Ok (Some p, s')" "kmem_ok c s' ks"
        "ptinv s' (Q(LState UNUSED := ps, LState EMBRYO := Q (LState EMBRYO) @ [p]))"
        "proc (core s') = (proc (core s))(p := new_proc (nextpid s) k (proc (core s) p))" "nextpid s' = nextpid s + 1"
        "mem s' = stack_mem k (trapret_sym s) (forkret_sym s) (mem s)"
      using A xs by auto
    have al: "page_aligned k" using assms(3) xs by (simp add: kmem_ok_def kpage_def)
    have e: "proc (core s') p = new_proc (nextpid s) k (proc (core s) p)" using s'(4) by simp
    have f: "state (proc s' p) = EMBRYO" "pid (proc s' p) = nextpid s" "priority (proc s' p) = of_nat MAXPRIO"
        "budget (proc s' p) = BUDGET" "kstack (proc s' p) = k" "tf (proc s' p) = k + 4020" "ctxt (proc s' p) = k + 3996"
      using arg_cong[OF e, of state] arg_cong[OF e, of pid] arg_cong[OF e, of priority] arg_cong[OF e, of budget]
        arg_cong[OF e, of kstack] arg_cong[OF e, of tf] arg_cong[OF e, of ctxt]
      by (simp_all add: new_proc_def new_stack_def take_proc_def)
    have w: "ctxt (proc s' p) + 16 = k + 4012" "tf (proc s' p) - 4 = k + 4016" "ctxt (proc s' p) + 20 = tf (proc s' p) - 4"
        "tf (proc s' p) = k + KSTACKSIZE - sizeof_trapframe" unfolding f by (simp_all add: KSTACKSIZE_def sizeof_trapframe_def)
    have l: "ld32 (mem s') (ctxt (proc s' p) + 16) = forkret_sym s" "ld32 (mem s') (tf (proc s' p) - 4) = trapret_sym s"
      unfolding w(1,2) s'(6) by (rule stack_mem_words[OF al])+
    have "mem s' a = mem s a" if "a \<notin> page k" for a using stack_mem_words(3)[OF al that] s'(6) by simp
    then show ?thesis using Cons xs s'(1-5) f(1-5) w(3,4) l by auto
  qed
qed

theorem allocproc_prepares_process_witness:
  "\<exists>s'. allocproc 0 demo_mem = Ok (Some 3, s') \<and> state (proc s' 3) = EMBRYO \<and> kstack (proc s' 3) = 0x80400000 \<and>
     ld32 (mem s') (ctxt (proc s' 3) + 16) = 0x80100200"
proof -
  have "demo_Q (LState UNUSED) = 3 # [4..<64]" by (simp add: demo_Q_def NPROC_def upt_conv_Cons)
  moreover have "ptinv demo_mem demo_Q" "ready_cpu 0 demo_mem" using demo_ok(1,2) by (simp_all add: demo_mem_def ready_cpu_def)
  ultimately show ?thesis using allocproc_prepares_process[OF _ _ demo_mem_ok, of demo_Q]
    by (auto simp: demo_mem_def demo_st_def)
qed

section \<open>exit\<close>

text \<open>
  C10: \<open>exit\<close> of a process other than init, once it holds \<open>ptable.lock\<close>, leaves through the scheduler
  with the process as the last of the zombies.  Every process whose parent it was now has
  init as its parent; a parent that waits for it is made ready, and so is init when one of
  the children passed to it is already a zombie; no other process changes its state, and
  pids and the invariant of the table are kept.
\<close>

theorem exit_passes_children_to_init:
  assumes "ready_cpu c s" "ncli (cpus s c) = 0" "ptinv s Q" "cproc (cpus s c) = Some p" "p < NPROC"
    "state (proc s p) = RUNNING" "initproc s \<noteq> Some p"
  shows "\<exists>ie s' Q'. exit_sched c p s = Ok (ie, s') \<and> ptinv s' Q' \<and> Q' (LState ZOMBIE) = Q (LState ZOMBIE) @ [p] \<and>
    state (proc s' p) = ZOMBIE \<and>
    (\<forall>q < NPROC. state (proc s q) \<noteq> UNUSED \<longrightarrow>
       parent (proc s' q) = (if parent (proc s q) = Some p then initproc s else parent (proc s q)) \<and> pid (proc s' q) = pid (proc s q)) \<and>
    (\<forall>q < NPROC. q \<noteq> p \<longrightarrow> state (proc s' q) =
       (if state (proc s q) = SLEEPING \<and>
            (chan (proc s q) = proc_chan (parent (proc s p)) \<or>
             chan (proc s q) = proc_chan (initproc s) \<and> (\<exists>z < NPROC. state (proc s z) = ZOMBIE \<and> parent (proc s z) = Some p))
        then RUNNABLE else state (proc s q)))"
proof -
  obtain s' Q' where s': "exit_sched c p s = Ok (intena (cpus (with_lock c s) c), s')" "ptinv s' Q'"
      "Q' (LState ZOMBIE) = Q (LState ZOMBIE) @ [p]" "core s' = exit_table c p s"
    using exit_sched_ok[OF assms] by blast
  note F = exit_fields[OF s'(4)]
  have "\<forall>q < NPROC. state (proc s q) \<noteq> UNUSED \<longrightarrow>
      parent (proc s' q) = (if parent (proc s q) = Some p then initproc s else parent (proc s q)) \<and> pid (proc s' q) = pid (proc s q)"
    using F(3,4) by blast
  moreover have "\<forall>q < NPROC. q \<noteq> p \<longrightarrow> state (proc s' q) =
       (if state (proc s q) = SLEEPING \<and> (chan (proc s q) = proc_chan (parent (proc s p)) \<or>
             chan (proc s q) = proc_chan (initproc s) \<and> (\<exists>z < NPROC. state (proc s z) = ZOMBIE \<and> parent (proc s z) = Some p))
        then RUNNABLE else state (proc s q))"
    using F(2) by (simp add: zombie_kid_def)
  ultimately show ?thesis using s'(1-3) F(1) by blast
qed

text \<open>Process 1 is init and waits for its child 0; process 2 is a child of 0.\<close>

definition demo_family :: pt_st where
  "demo_family = pupd 0 (\<lambda>x. x\<lparr>parent := Some 1\<rparr>) (pupd 1 (\<lambda>x. x\<lparr>chan := Ch_proc 1\<rparr>)
     (pupd 2 (\<lambda>x. x\<lparr>parent := Some 0\<rparr>) (demo_st\<lparr>initproc := Some 1\<rparr>)))"

lemma parent_indep: "link_indep (\<lambda>x. x\<lparr>parent := q\<rparr>)"
  by (simp add: link_indep_def)

lemma demo_family_ok: "ptinv demo_family demo_Q" "ready_cpu 0 demo_family" "ncli (cpus demo_family 0) = 0"
  "cproc (cpus demo_family 0) = Some 0" "state (proc demo_family 0) = RUNNING" "initproc demo_family = Some 1"
proof -
  have "ptinv (demo_st\<lparr>initproc := Some 1\<rparr>) demo_Q" using demo_ok(1) by simp
  then show "ptinv demo_family demo_Q" unfolding demo_family_def
    by (intro ptinv_pupd) (simp_all add: parent_indep lkey_def, simp_all add: demo_st_def demo_proc_def Let_def MAXPRIO_def pupd_def)
  show "ready_cpu 0 demo_family" using demo_ok(2) by (simp add: demo_family_def ready_cpu_def)
  show "ncli (cpus demo_family 0) = 0" "cproc (cpus demo_family 0) = Some 0" "state (proc demo_family 0) = RUNNING"
    "initproc demo_family = Some 1"
    by (simp_all add: demo_family_def demo_st_def demo_cpus_def idle_cpu_def pupd_def demo_proc_def Let_def)
qed

theorem exit_passes_children_to_init_witness:
  "\<exists>ie s'. exit_sched 0 0 demo_family = Ok (ie, s') \<and> state (proc s' 0) = ZOMBIE \<and> state (proc s' 1) = RUNNABLE \<and>
     parent (proc s' 2) = Some 1"
proof -
  have f: "state (proc demo_family 1) = SLEEPING" "chan (proc demo_family 1) = Ch_proc 1" "parent (proc demo_family 0) = Some 1"
    "parent (proc demo_family 2) = Some 0" "state (proc demo_family 2) = RUNNABLE"
    by (simp_all add: demo_family_def demo_st_def pupd_def demo_proc_def Let_def)
  have n: "0 < NPROC" "1 < NPROC" "2 < NPROC" by (simp_all add: NPROC_def)
  obtain ie s' where s': "exit_sched 0 0 demo_family = Ok (ie, s')" "state (proc s' 0) = ZOMBIE"
    and pa: "\<forall>q < NPROC. state (proc demo_family q) \<noteq> UNUSED \<longrightarrow> parent (proc s' q) =
      (if parent (proc demo_family q) = Some 0 then initproc demo_family else parent (proc demo_family q))"
    and st: "\<forall>q < NPROC. q \<noteq> 0 \<longrightarrow> state (proc s' q) = (if state (proc demo_family q) = SLEEPING \<and>
      (chan (proc demo_family q) = proc_chan (parent (proc demo_family 0)) \<or> chan (proc demo_family q) = proc_chan (initproc demo_family) \<and>
        (\<exists>z < NPROC. state (proc demo_family z) = ZOMBIE \<and> parent (proc demo_family z) = Some 0))
      then RUNNABLE else state (proc demo_family q))"
    using exit_passes_children_to_init[OF demo_family_ok(2,3,1,4) n(1) demo_family_ok(5)] demo_family_ok(6) by auto
  have "state (proc s' 1) = RUNNABLE" using st n(2) f by (simp add: proc_chan_def)
  moreover have "parent (proc s' 2) = Some 1" using pa n(3) f demo_family_ok(6) by simp
  ultimately show ?thesis using s' by blast
qed

section \<open>wait\<close>

text \<open>
  C11: A round of \<open>wait\<close>, with \<open>ptable.lock\<close> held, collects the child that died first.  If the caller has
  a zombie child, the first of them on the list of zombies is reaped: its pid is the result, its
  slot is cleared and goes to the end of the list of free slots, its kernel stack, its user
  pages, its page tables and its page directory are on the free list of the allocator and
  nothing else has been added to it, no other process and no other memory has changed, and the lock is
  free.  The memory of a zombie is taken to be its own: kernel pages, all different, none of them free.
  Otherwise, if the caller has no child or has been killed, the result is \<open>-1\<close>, the lock is free
  and no process has changed; and if it has a child the caller goes to sleep on its own
  address, which is the channel that \<open>exit\<close> of a child wakes.
\<close>

theorem wait_collects_or_sleeps:
  assumes "ptinv s Q" "cpu_ok (cpus s c)" "ncli (cpus s c) = 1" "held_by c (ptable_lock s)"
    "cproc (cpus s c) = Some p" "p < NPROC" "state (proc s p) = RUNNING"
    "\<forall>z < NPROC. state (proc s z) = ZOMBIE \<longrightarrow> owns_memory c s xs z"
  shows "case find (\<lambda>z. parent (proc s z) = Some p) (Q (LState ZOMBIE)) of
      Some z \<Rightarrow> state (proc s z) = ZOMBIE \<and>
        (\<exists>s' ys. wait_round c p s = Ok (Inl (int_of (pid (proc s z))), s') \<and> free_lock (ptable_lock s') \<and>
          ptinv s' (moved (LState ZOMBIE) (LState UNUSED) z Q) \<and>
          proc (core s') = (proc (core s))(z := (proc (core s) z)\<lparr>kstack := 0, pid := 0, parent := None,
            pname := (pname (proc s z))[0 := 0], killed := False, state := UNUSED\<rparr>) \<and>
          kmem_ok c s' ys \<and> set ys = set xs \<union> own_pages z s \<and> only_in (own_pages z s) s s')
    | None \<Rightarrow>
        if (\<forall>q < NPROC. state (proc s q) \<noteq> UNUSED \<longrightarrow> parent (proc s q) \<noteq> Some p) \<or> killed (proc s p)
        then \<exists>s'. wait_round c p s = Ok (Inl (-1), s') \<and> ptinv s' Q \<and> proc s' = proc s \<and> free_lock (ptable_lock s')
        else \<exists>ie s'. wait_round c p s = Ok (Inr ie, s') \<and> ptinv s' (moved (LState RUNNING) (LState SLEEPING) p Q) \<and>
          state (proc s' p) = SLEEPING \<and> chan (proc s' p) = proc_chan (Some p) \<and>
          (\<forall>q. q \<noteq> p \<longrightarrow> proc (core s') q = proc (core s) q)"
proof (cases "find (\<lambda>z. parent (proc s z) = Some p) (Q (LState ZOMBIE))")
  case (Some z)
  then have z: "z < NPROC" "state (proc s z) = ZOMBIE" using find_SomeD[OF Some] in_LState[OF assms(1), of ZOMBIE] by simp_all
  obtain s' ys where s': "wait_round c p s = Ok (Inl (int_of (pid (proc s z))), s')" "free_lock (ptable_lock s')"
      "ptinv s' (moved (LState ZOMBIE) (LState UNUSED) z Q)" "proc (core s') = (proc (core s))(z := reaped (proc (core s) z))"
      "kmem_ok c s' ys" "set ys = set xs \<union> own_pages z s" "only_in (own_pages z s) s s'"
    using wait_reaps[OF assms(1-4) _ z, of xs p] assms(8) z Some by (auto simp: dead_child_def)
  then show ?thesis using z(2) unfolding Some reaped_def by (auto simp: core_proc)
next
  case None
  then show ?thesis using wait_sleeps[OF assms(1-7) None] by simp
qed

text \<open>
  Process 2 has died, and process 0 is its parent.  Its page directory at \<open>0x80700000\<close> has one
  table, at \<open>0x80701000\<close>, which maps one page, at \<open>0x80702000\<close>; its kernel stack is at \<open>0x80703000\<close>.
\<close>

definition dead_mem :: mem where
  "dead_mem = st32 (st32 (\<lambda>_. 0) (ent 0x80700000 0) 0x701007) (ent 0x80701000 0) 0x702007"

definition dead_proc :: "nat \<Rightarrow> proc" where
  "dead_proc = demo_proc(2 := (demo_proc 2)\<lparr>state := ZOMBIE, parent := Some 0, pgdir := 0x80700000, kstack := 0x80703000\<rparr>)"

definition dead_Q :: "lref \<Rightarrow> nat list" where
  "dead_Q = demo_Q(LReady 6 := [], LState ZOMBIE := [2])"

definition demo_dead :: pt_st where
  "demo_dead = demo_st\<lparr>mem := dead_mem, proc := dead_proc, plist := demo_plist(ZOMBIE := \<lparr>head = Some 2, tail = Some 2\<rparr>),
     ready := (\<lambda>_. \<lparr>head = None, tail = None\<rparr>)\<rparr>"

lemma dead_parts: "mem demo_dead = dead_mem" "end_sym demo_dead = 0x80120000" "proc demo_dead = dead_proc" "cpus demo_dead = demo_cpus"
  "freelist demo_dead = 0" "kmem_lock demo_dead = initlock ''kmem''" "ptable_lock demo_dead = initlock ''ptable''"
  by (simp_all add: demo_dead_def demo_st_def)

lemma dead_ptinv: "ptinv demo_dead dead_Q"
proof -
  have nx: "nexts demo_dead = nexts demo_st" by (auto simp: nexts_def demo_dead_def dead_proc_def demo_st_def)
  have z: "nexts demo_st 2 = None" by (simp add: nexts_def demo_st_def demo_proc_def zero_proc_def Let_def)
  have n: "(2 :: nat) < NPROC" by (simp add: NPROC_def)
  have L: "list_rep (nexts demo_st) (getl l demo_st) (demo_Q l)" if "lref_ok l" for l
    using ptinvD(1)[OF demo_ok(1)] that by (auto simp: lists_rep_def)
  have "list_rep (nexts demo_dead) (getl l demo_dead) (dead_Q l)" if "lref_ok l" for l
  proof (cases "l = LState ZOMBIE \<or> l = LReady 6")
    case True
    then show ?thesis unfolding nx using z by (auto simp: list_rep_def dead_Q_def demo_dead_def last_ptr_def)
  next
    case False
    moreover have "getl l demo_dead = getl l demo_st" using False by (cases l) (auto simp: demo_dead_def demo_st_def demo_ready_def)
    ultimately show ?thesis using L[OF that] by (simp add: nx dead_Q_def)
  qed
  moreover have "distinct (dead_Q l)" for l using ptinvD(4)[OF demo_ok(1), of l] by (simp add: dead_Q_def)
  moreover have m: "p \<in> set (dead_Q l) \<longleftrightarrow> p < NPROC \<and> lkey (proc demo_dead p) = l" for p l
  proof (cases "p = 2")
    case True
    have "2 \<in> set (demo_Q l) \<longleftrightarrow> l = LReady 6" by (auto simp: demo_Q_def)
    then show ?thesis using True n by (auto simp: dead_Q_def dead_parts dead_proc_def lkey_def)
  next
    case False
    have "proc demo_st = demo_proc" "demo_Q (LReady 6) = [2]" "demo_Q (LState ZOMBIE) = []" by (simp_all add: demo_st_def demo_Q_def)
    then show ?thesis using False ptinvD(3)[OF demo_ok(1), of p l] by (auto simp: dead_Q_def dead_parts dead_proc_def)
  qed
  ultimately have "linked demo_dead dead_Q (\<lambda>p. Some (lkey (proc demo_dead p)))"
    by (auto simp: linked_def lists_rep_def)
  moreover have "prio_ok demo_dead" using ptinvD(2)[OF demo_ok(1)] by (simp add: prio_ok_def dead_parts dead_proc_def demo_st_def)
  ultimately show ?thesis by (simp add: ptinv_def)
qed

lemma ld32_zeros: "ld32 (\<lambda>_. 0) a = 0"
  by (simp add: ld32_def)

lemma dead_pages: "page_aligned 0x80700000" "page_aligned 0x80701000" "page_aligned 0x80702000" "page_aligned 0x80703000"
  by (simp_all add: page_aligned_def)

lemma dead_pde: "i < 1024 \<Longrightarrow> pde dead_mem 0x80700000 i = (if i = 0 then 0x701007 else 0)"
  using st32_entry[of "0x80701000" "0x80700000" 0 i] st32_entry[of "0x80700000" "0x80700000" 0 i] dead_pages
  by (auto simp: pde_def dead_mem_def ld32_zeros)

lemma dead_tab: "tab dead_mem 0x80700000 0 = 0x80701000"
  using dead_pde[of 0] by (simp add: tab_def PTE_ADDR_def P2V_def KERNBASE_def)

lemma dead_pte: "pte dead_mem 0x80700000 va = (if PGROUNDDOWN va = 0 then 0x702007 else 0)"
proof -
  have z: "PGROUNDDOWN va = 0 \<longleftrightarrow> PDX va = 0 \<and> PTX va = 0" using same_page_iff[of va 0] by (simp add: PDX_def PTX_def PGROUNDDOWN_def)
  have "ld32 dead_mem (ent 0x80701000 j) = (if j = 0 then 0x702007 else 0)" if "j < 1024" for j
    using st32_entry[of "0x80701000" "0x80701000" 0 j] st32_entry[of "0x80700000" "0x80701000" 0 j] dead_pages that
    by (auto simp: dead_mem_def ld32_zeros)
  from this[of "unat (PTX va)"] show ?thesis using PTX_bound[of va] PDX_bound[of va] dead_pde[of "unat (PDX va)"] dead_tab
    by (auto simp: pte_def z present_def PTE_P_def unat_eq_zero)
qed

lemma dead_pt_pages: "pt_pages dead_mem 0x80700000 = {0x80700000, 0x80701000}"
  using dead_tab by (auto simp: pt_pages_def dead_pde present_def PTE_P_def split: if_splits)

lemma dead_pending: "pending dead_mem 0x80700000 0 = {0}"
proof -
  have "page_aligned va \<Longrightarrow> PGROUNDDOWN va = va" for va using page_iff[of va va] page_off_in[of va 0] by simp
  then show ?thesis by (auto simp: pending_def dead_pte present_def PTE_P_def page_aligned_def KERNBASE_def PGROUNDDOWN_def)
qed

lemma dead_upage: "upages dead_mem 0x80700000 0 = {0x80702000}"
  by (simp add: upages_def dead_pending upage_def dead_pte PGROUNDDOWN_def PTE_ADDR_def P2V_def KERNBASE_def)

lemma dead_space:
  assumes "cpu_ok (cpus s c)" "free_lock (kmem_lock s)" "freelist s = 0" "mem s = dead_mem" "end_sym s = 0x80120000"
  shows "space_ok c s [] 0x80700000 0"
proof -
  have "kpage 0x80120000 0x80700000" "kpage 0x80120000 0x80701000" "kpage 0x80120000 0x80702000"
    by (simp_all add: demo_kpage page_aligned_def)
  then show ?thesis using assms dead_tab
    by (auto simp: space_ok_def vm_ok_def kmem_ok_def pgd_ok_def upages_ok_def dead_pde dead_pending dead_pt_pages upage_def dead_pte
        PGROUNDDOWN_def PTE_ADDR_def P2V_def KERNBASE_def present_def PTE_P_def split: if_splits)
qed

theorem wait_collects_or_sleeps_witness:
  "\<exists>s' ys. wait_round 0 0 (with_lock 0 demo_dead) = Ok (Inl 3, s') \<and> state (proc s' 2) = UNUSED \<and> pid (proc s' 2) = 0 \<and>
     kmem_ok 0 s' ys \<and> set ys = {0x80700000, 0x80701000, 0x80702000, 0x80703000}"
proof -
  let ?s = "with_lock 0 demo_dead"
  have r: "ready_cpu 0 demo_dead" "ncli (cpus demo_dead 0) = 0"
    using demo_ok(2) by (simp_all add: ready_cpu_def demo_dead_def demo_st_def demo_cpus_def idle_cpu_def)
  note W = with_lock_cpu[OF r]
  have f: "cproc (cpus ?s 0) = Some 0" "state (proc ?s 0) = RUNNING" "mem ?s = dead_mem" "kmem_lock ?s = initlock ''kmem''"
    "end_sym ?s = 0x80120000" "freelist ?s = 0" "proc ?s = dead_proc"
    using W demo_cpu0 by (simp_all add: dead_parts with_lock_def dead_proc_def demo_proc_def Let_def)
  have p: "pgdir (dead_proc 2) = 0x80700000" "kstack (dead_proc 2) = 0x80703000" "pid (dead_proc 2) = 3"
    by (simp_all add: dead_proc_def demo_proc_def Let_def)
  have "kpage 0x80120000 0x80703000" by (simp add: demo_kpage page_aligned_def)
  then have "owns_memory 0 ?s [] 2"
    using dead_space[of ?s 0] W f p by (simp add: owns_memory_def dead_upage dead_pt_pages)
  moreover have "state (dead_proc z) = ZOMBIE \<Longrightarrow> z = 2" for z
    by (auto simp: dead_proc_def demo_proc_def zero_proc_def Let_def split: if_splits)
  ultimately have own: "\<forall>z < NPROC. state (proc ?s z) = ZOMBIE \<longrightarrow> owns_memory 0 ?s [] z" unfolding f(7) by blast
  have "ptinv ?s dead_Q" using dead_ptinv by simp
  note w = wait_collects_or_sleeps[OF this W(1,2) held_by_with_lock f(1) _ f(2) own]
  have fd: "find (\<lambda>z. parent (proc ?s z) = Some 0) (dead_Q (LState ZOMBIE)) = Some 2"
    unfolding f(7) by (simp add: dead_Q_def dead_proc_def)
  obtain s' ys where s': "wait_round 0 0 ?s = Ok (Inl (int_of (pid (proc ?s 2))), s')" "kmem_ok 0 s' ys" "set ys = own_pages 2 ?s"
      "proc (core s') 2 = (proc (core ?s) 2)\<lparr>kstack := 0, pid := 0, parent := None, pname := (pname (proc ?s 2))[0 := 0], killed := False, state := UNUSED\<rparr>"
    using w unfolding fd by (auto simp: NPROC_def)
  have "own_pages 2 ?s = {0x80700000, 0x80701000, 0x80702000, 0x80703000}"
    unfolding own_pages_def f(3,7) p dead_upage dead_pt_pages by auto
  moreover have "state (proc s' 2) = UNUSED" "pid (proc s' 2) = 0"
    using arg_cong[OF s'(4), of state] arg_cong[OF s'(4), of pid] by (simp_all add: core_proc)
  moreover have "int_of (pid (proc ?s 2)) = 3" unfolding f(7) p by (simp add: int_of_def)
  ultimately show ?thesis using s'(1-3) by auto
qed

section \<open>The memory of a process\<close>

text \<open>
  C25: \<open>freevm\<close> gives back a whole address space.  When the page directory, its page tables and the pages
  mapped below \<open>KERNBASE\<close> are kernel pages, all different and none of them free, it ends without a
  panic, and the free list then has exactly these pages more, each once; memory outside them,
  the process table and everything else in the kernel is as before, but for the interrupt
  flag that the CPU saves.
\<close>

theorem freevm_returns_every_page:
  assumes "space_ok c s xs pgd 0"
  shows "\<exists>t ys. freevm c pgd s = Ok t \<and> kmem_ok c t ys \<and>
    set ys = set xs \<union> {upage (mem s) pgd va |va. page_aligned va \<and> va < KERNBASE \<and> present (pte (mem s) pgd va)} \<union>
      {tab (mem s) pgd i |i. i < 1024 \<and> present (pde (mem s) pgd i)} \<union> {pgd} \<and>
    (\<forall>a. (\<forall>v \<in> set ys - set xs. a \<notin> page v) \<longrightarrow> mem t a = mem s a) \<and>
    (t = s\<lparr>mem := mem t, freelist := freelist t\<rparr> \<or> t = (touch c s)\<lparr>mem := mem t, freelist := freelist t\<rparr>)"
proof -
  obtain t ys where t: "freevm c pgd s = Ok t" "kmem_ok c t ys" "set ys = set xs \<union> upages (mem s) pgd 0 \<union> pt_pages (mem s) pgd"
    "kframe c s t" "only_in (upages (mem s) pgd 0 \<union> pt_pages (mem s) pgd) s t"
    using freevm_ok[OF assms] by blast
  have u: "upages (mem s) pgd 0 = {upage (mem s) pgd va |va. page_aligned va \<and> va < KERNBASE \<and> present (pte (mem s) pgd va)}"
    by (auto simp: upages_def pending_def)
  have "(upages (mem s) pgd 0 \<union> pt_pages (mem s) pgd) \<inter> set xs = {}"
    using assms by (auto simp: space_ok_def vm_ok_def pgd_ok_def pt_pages_def upages_ok_def upages_def)
  then have "set ys - set xs = upages (mem s) pgd 0 \<union> pt_pages (mem s) pgd" using t(3) by auto
  moreover have "t = s\<lparr>mem := mem t, freelist := freelist t\<rparr> \<or> t = (touch c s)\<lparr>mem := mem t, freelist := freelist t\<rparr>"
    using t(4) by (auto simp: kframe_def)
  ultimately show ?thesis using t(1,2,3,5) unfolding u pt_pages_def only_in_def by (intro exI[of _ t] exI[of _ ys]) auto
qed

theorem freevm_returns_every_page_witness:
  "\<exists>t ys. freevm 0 0x80700000 demo_dead = Ok t \<and> kmem_ok 0 t ys \<and> set ys = {0x80700000, 0x80701000, 0x80702000}"
proof -
  have "space_ok 0 demo_dead [] 0x80700000 0" using demo_cpu0 by (intro dead_space) (simp_all add: dead_parts)
  from freevm_returns_every_page[OF this] obtain t ys where t: "freevm 0 0x80700000 demo_dead = Ok t" "kmem_ok 0 t ys"
    "set ys = {upage dead_mem 0x80700000 va |va. page_aligned va \<and> va < KERNBASE \<and> present (pte dead_mem 0x80700000 va)} \<union>
      {tab dead_mem 0x80700000 i |i. i < 1024 \<and> present (pde dead_mem 0x80700000 i)} \<union> {0x80700000}"
    unfolding dead_parts by auto
  have "{upage dead_mem 0x80700000 va |va. page_aligned va \<and> va < KERNBASE \<and> present (pte dead_mem 0x80700000 va)} = {0x80702000}"
    using dead_upage by (auto simp: upages_def pending_def)
  moreover have "{tab dead_mem 0x80700000 i |i. i < 1024 \<and> present (pde dead_mem 0x80700000 i)} = {0x80701000}"
    using dead_tab by (auto simp: dead_pde present_def PTE_P_def split: if_splits)
  ultimately show ?thesis using t by auto
qed

end
