(* ===== verification/Log_End.thy ===== *)
theory Log_End
  imports Tx
begin

text \<open>
  \<open>end_op\<close>: the operation that ends last commits the transaction; any other only gives up
  its reservation.  Waiting operations are woken in both cases.
\<close>

lemma wakeup_release:
  fixes t :: "'a log_st_scheme"
  assumes cm: "calm c u t" and fr: "free_lock (log_lock t)"
  shows "\<exists>r. rbind (wakeup c ch (t\<lparr>cpus := pushcli c (cpus t), log_lock := heldby c (log_lock t)\<rparr>)) (log_release c) = Ok r \<and>
    calm c u r \<and> bview r = bview t"
proof -
  let ?s = "t\<lparr>cpus := pushcli c (cpus t), log_lock := heldby c (log_lock t)\<rparr>"
  have "calm c u (t\<lparr>cpus := pushcli c (cpus t)\<rparr>)" using calm_inlock[OF cm] by (simp add: inlock_def)
  then have "calm c u (t\<lparr>cpus := pushcli c (cpus t)\<rparr>\<lparr>log_lock := heldby c (log_lock t)\<rparr>)" by simp
  from wakeup_calm[OF this, of ch] obtain s2 where s2: "wakeup c ch ?s = Ok s2" "calm c u s2"
    and e: "s2 = ?s\<lparr>proc := proc s2, plist := plist s2, ready := ready s2\<rparr>" by auto
  have cp: "cpus s2 = pushcli c (cpus t)" "log_lock s2 = heldby c (log_lock t)"
    using arg_cong[OF e, of cpus] arg_cong[OF e, of log_lock] by simp_all
  let ?r = "s2\<lparr>cpus := cpus t, log_lock := log_lock t\<rparr>"
  have rel: "log_release c s2 = Ok ?r" by (rule log_release_calm[OF cm fr cp])
  have r: "?r = t\<lparr>proc := proc s2, plist := plist s2, ready := ready s2\<rparr>" by (subst e) simp
  have "calm c u ?r"
  proof -
    have "ptinv ?r Q = ptinv s2 Q" for Q by (rule ptinv_cong) simp_all
    moreover have "cproc (cpus t c) = cproc (cpus s2 c)" by (simp add: cp cproc_pushcli)
    moreover have "ptable_lock ?r = ptable_lock t" by (subst r) simp
    ultimately show ?thesis using cm s2(2) by (auto simp: calm_def ready_cpu_def)
  qed
  moreover have "bview ?r = bview t" unfolding r by (simp add: bview_def)
  ultimately show ?thesis using s2(1) rel by auto
qed

text \<open>The commit of the last operation, empty or not.\<close>

lemma commit_any:
  assumes l: "linv c u s" and h: "idle_cache s"
  shows "\<exists>t. commit c s = Ok t \<and> linv c u t \<and> idle_cache t \<and> lh_n t = 0 \<and> log_lock t = log_lock s \<and>
     log_outstanding t = log_outstanding s \<and> log_committing t = log_committing s \<and> lregion t = lregion s \<and>
     log_st.more t = log_st.more s \<and> log_size t = log_size s \<and>
     (\<forall>m. m \<notin> lregion s \<longrightarrow> ac_disk (babs t) m = ac_view (babs s) m \<and> ac_view (babs t) m = ac_view (babs s) m)"
proof (cases "0 < unat (lh_n s)")
  case True
  obtain t where t: "commit c s = Ok t" "binv c u t" "babs t = cm_done s" "lh_n t = 0" "log_dev t = log_dev s" "log_start t = log_start s"
    "log_size t = log_size s" "log_lock t = log_lock s" "log_outstanding t = log_outstanding s" "log_committing t = log_committing s" "log_st.more t = log_st.more s"
    using commit_run[OF l h True] by blast
  note F = cm_done_facts[OF l h]
  have sub: "larea s (unat (lh_n s)) \<subseteq> lregion s" using l by (intro larea_region) (simp_all add: linv_def)
  have "ldw (cm_clear s) 0 = 0" using head_of_facts(2)[OF _ head_sizes(2)[OF l h], of 0] by (simp add: cm_clear_def)
  then have "linv c u t" using l t F(2,4) by (simp add: linv_def lregion_def)
  moreover have "idle_cache t" using F(3) t(3) by (simp add: idle_cache_def)
  moreover have "ac_disk (babs t) m = ac_view (babs s) m \<and> ac_view (babs t) m = ac_view (babs s) m" if "m \<notin> lregion s" for m
    using that sub F(5,6)[of m] unfolding t(3) by blast
  ultimately show ?thesis using t by (auto simp: lregion_def)
next
  case False
  then have n: "lh_n s = 0" by (simp add: word_unat_eq_iff)
  then have c: "commit c s = Ok s" by (simp add: commit_def int_of_def)
  have "ac_pin (babs s) = {}" using l n by (simp add: linv_def)
  moreover have "binv c u s" using l by (simp add: linv_def)
  ultimately have "ac_view (babs s) m = ac_disk (babs s) m" for m
    using bc.coherent[of c u s m] h by (simp add: idle_cache_def)
  then show ?thesis using c l h n by simp
qed

lemma end_op_last:
  assumes l: "linv c u s" and h: "idle_cache s" and fr: "free_lock (log_lock s)"
    and one: "log_outstanding s = 1" and nc: "log_committing s = 0"
  shows "\<exists>t. end_op c s = Ok t \<and> linv c u t \<and> idle_cache t \<and> lh_n t = 0 \<and> log_lock t = log_lock s \<and>
     log_outstanding t = 0 \<and> log_committing t = 0 \<and> lregion t = lregion s \<and>
     log_st.more t = log_st.more s \<and> log_size t = log_size s \<and>
     (\<forall>m. m \<notin> lregion s \<longrightarrow> ac_disk (babs t) m = ac_view (babs s) m \<and> ac_view (babs t) m = ac_view (babs s) m)"
proof -
  note cm = linv_calm[OF l]
  let ?s1 = "s\<lparr>cpus := pushcli c (cpus s), log_lock := heldby c (log_lock s), log_outstanding := 0, log_committing := 1\<rparr>"
  let ?s3 = "s\<lparr>log_outstanding := 0, log_committing := 1\<rparr>"
  have rel: "log_release c ?s1 = Ok ?s3" using log_release_calm[OF cm fr, of ?s1] by simp
  have l3: "linv c u ?s3" using l by (subst linv_cong[where s = s]) simp_all
  have h3: "idle_cache ?s3" using h by (simp add: idle_cache_def)
  obtain s4 where s4: "commit c ?s3 = Ok s4" "linv c u s4" "idle_cache s4" "lh_n s4 = 0" "log_lock s4 = log_lock s"
    "log_outstanding s4 = 0" "log_committing s4 = 1" "lregion s4 = lregion s" "log_st.more s4 = log_st.more s" "log_size s4 = log_size s"
    "\<And>m. m \<notin> lregion s \<Longrightarrow> ac_disk (babs s4) m = ac_view (babs s) m \<and> ac_view (babs s4) m = ac_view (babs s) m"
    using commit_any[OF l3 h3] by (auto simp: lregion_def)
  let ?t = "s4\<lparr>log_committing := 0\<rparr>"
  have ct: "calm c u ?t" "free_lock (log_lock ?t)" using linv_calm[OF s4(2)] fr s4(5) by simp_all
  obtain r where r: "rbind (wakeup c Ch_log (?t\<lparr>cpus := pushcli c (cpus ?t), log_lock := heldby c (log_lock ?t)\<rparr>)) (log_release c) = Ok r"
    "calm c u r" "bview r = bview ?t" using wakeup_release[OF ct] by blast
  have acq: "log_acquire c s4 = Ok (s4\<lparr>cpus := pushcli c (cpus s4), log_lock := heldby c (log_lock s4)\<rparr>)"
    using ct by (intro log_acquire_calm[of _ u]) simp_all
  have sw: "s4\<lparr>cpus := cs, log_lock := k, log_committing := 0\<rparr> = s4\<lparr>log_committing := 0, cpus := cs, log_lock := k\<rparr>" for cs k by simp
  have e: "end_op c s = Ok r" using one nc rel s4(1) acq r(1)
    by (simp add: end_op_def log_acquire_calm[OF cm fr] sw)
  have b: "binv c u r" by (rule binv_bview[OF _ r(2,3)]) (use s4(2) in \<open>simp add: linv_def\<close>)
  have f: "log_lock r = log_lock s" "log_outstanding r = 0" "log_committing r = 0" "lh_n r = 0" "log_start r = log_start s4"
    "log_size r = log_size s" "log_dev r = log_dev s4" "log_st.more r = log_st.more s"
    using arg_cong[OF r(3), of log_st.more] arg_cong[OF r(3), of log_lock] arg_cong[OF r(3), of log_outstanding] arg_cong[OF r(3), of log_committing]
      arg_cong[OF r(3), of lh_n] arg_cong[OF r(3), of log_start] arg_cong[OF r(3), of log_size] arg_cong[OF r(3), of log_dev] s4
    by (simp_all add: bview_def)
  have a: "babs r = babs s4" using bview_eqD[OF r(3)] by (intro babs_cong) simp_all
  have "linv c u r" using s4(2,4,10) b f a by (simp add: linv_def lregion_def)
  moreover have "idle_cache r" using s4(3) a by (simp add: idle_cache_def)
  moreover have "lregion r = lregion s" using f s4(8,10) by (simp add: lregion_def)
  ultimately show ?thesis using e f a s4(11) by auto
qed

text \<open>An operation that ends while others are running.\<close>

lemma end_op_more:
  assumes l: "linv c u s" and fr: "free_lock (log_lock s)" and more: "log_outstanding s \<noteq> 1" and nc: "log_committing s = 0"
  shows "\<exists>t. end_op c s = Ok t \<and> linv c u t \<and> babs t = babs s \<and> lh_n t = lh_n s \<and> log_lock t = log_lock s \<and>
     log_outstanding t = log_outstanding s - 1 \<and> log_committing t = 0 \<and> lregion t = lregion s"
proof -
  note cm = linv_calm[OF l]
  let ?t = "s\<lparr>log_outstanding := log_outstanding s - 1\<rparr>"
  have ct: "calm c u ?t" "free_lock (log_lock ?t)" using cm fr by simp_all
  obtain r where r: "rbind (wakeup c Ch_log (?t\<lparr>cpus := pushcli c (cpus ?t), log_lock := heldby c (log_lock ?t)\<rparr>)) (log_release c) = Ok r"
    "calm c u r" "bview r = bview ?t" using wakeup_release[OF ct] by blast
  have sw: "s\<lparr>cpus := cs, log_lock := k, log_outstanding := n\<rparr> = s\<lparr>log_outstanding := n, cpus := cs, log_lock := k\<rparr>" for cs k n by simp
  have e: "end_op c s = Ok r" using more nc r(1) by (simp add: end_op_def log_acquire_calm[OF cm fr] sw)
  have b: "binv c u r" by (rule binv_bview[OF _ r(2,3)]) (use l in \<open>simp add: linv_def\<close>)
  have f: "log_lock r = log_lock s" "log_outstanding r = log_outstanding s - 1" "log_committing r = 0" "lh_n r = lh_n s"
    "log_start r = log_start s" "log_size r = log_size s" "log_dev r = log_dev s" "lh_block r = lh_block s"
    using arg_cong[OF r(3), of log_lock] arg_cong[OF r(3), of log_outstanding] arg_cong[OF r(3), of log_committing]
      arg_cong[OF r(3), of lh_n] arg_cong[OF r(3), of log_start] arg_cong[OF r(3), of log_size] arg_cong[OF r(3), of log_dev]
      arg_cong[OF r(3), of lh_block] nc by (simp_all add: bview_def)
  have a: "babs r = babs s" using bview_eqD[OF r(3)] by (intro babs_cong) simp_all
  have "linv c u r" using l b f a by (simp add: linv_def lregion_def)
  then show ?thesis using e f a by (auto simp: lregion_def)
qed

end
