(* ===== verification/Props_Disk.thy ===== *)
theory Props_Disk
  imports Log_End
begin

unbundle bit_operations_syntax

declare One_nat_def [simp]

text \<open>
  Properties of the disk stack: the IDE driver, sleep locks, the buffer cache and the log.
\<close>

section \<open>Crash safety\<close>

text \<open>The disk of the sample transaction after the first \<open>k\<close> writes of its commit, freshly booted.\<close>

definition demo_boot :: "nat \<Rightarrow> log_st" where
  "demo_boot k = demo_log (replay demo_disk (take k (cm_writes demo_tx))) demo_buf 0 (\<lambda>_. 0) ()"

lemma replay_length:
  "(\<And>i. length (D i) = BSIZE) \<Longrightarrow> (\<And>w. w \<in> set ws \<Longrightarrow> length (snd (snd w)) = BSIZE) \<Longrightarrow> length (replay D ws i) = BSIZE"
proof (induction D ws rule: replay.induct)
  case (2 D dr sec d ws)
  show ?case unfolding replay.simps by (rule "2.IH") (use "2.prems" in \<open>force+\<close>)
qed simp

lemma demo_crashed: "crashed 0 1 demo_tx (cm_writes demo_tx) k (demo_boot k)"
proof -
  have "length d = BSIZE" if "(a, b, d) \<in> set (cm_writes demo_tx)" for a b d
    using that bc.sized[OF demo_tx_binv] head_sizes[OF demo_tx_linv(1,2)]
    by (auto simp: cm_writes_def cm_head_def cm_clear_def head_of_def)
  then have "length (replay demo_disk (take k (cm_writes demo_tx)) i) = BSIZE" for i
    by (intro replay_length) (auto simp: demo_disk_def dest!: in_set_takeD)
  then have "binv 0 1 (demo_boot k)" unfolding demo_boot_def by (intro demo_binv demo_fresh) simp_all
  then show ?thesis
    by (simp add: crashed_def idle_cache_def demo_boot_def demo_fresh_abs) (simp add: demo_log_def demo_tx_def)
qed

lemma babs_disk: "ac_disk (babs x) m = disk x 1 (unat m)" "ac_writes (babs x) = disk_writes x"
  by (simp_all add: babs_def cabs_def)

lemma commit_writes:
  assumes "linv c u s" "idle_cache s" "0 < unat (lh_n s)" "commit c s = Ok t"
  shows "disk_writes t = disk_writes s @ cm_writes s"
proof -
  have "babs t = cm_done s" using commit_run[OF assms(1-3)] assms(4) by auto
  from arg_cong[OF this, of ac_writes] show ?thesis using cm_done_facts(1)[OF assms(1,2)] by (simp add: babs_disk)
qed

text \<open>
  C1: A commit is atomic with respect to crashes.  It ends, with the log empty and the disk
  holding what the file system saw.  If the machine stops after any number \<open>k\<close> of its sector
  writes, recovery at the next boot ends as well, and gives the disk either as it was before
  the transaction in every block outside the log, or as after it in every such block.
\<close>

theorem commit_is_atomic:
  assumes "linv c u s" "idle_cache s" "0 < unat (lh_n s)"
  shows "\<exists>t ws. commit c s = Ok t \<and> lh_n t = 0 \<and> disk_writes t = disk_writes s @ ws \<and>
     (\<forall>m. m \<notin> larea s (unat (lh_n s)) \<longrightarrow> disk t 1 (unat m) = ac_view (babs s) m) \<and>
     (\<forall>k r. crashed c u s ws k r \<longrightarrow> (\<exists>r'. recover_from_log c r = Ok r' \<and>
        ((\<forall>m. m \<notin> larea s (unat (lh_n s)) \<longrightarrow> disk r' 1 (unat m) = disk s 1 (unat m)) \<or>
         (\<forall>m. m \<notin> larea s (unat (lh_n s)) \<longrightarrow> disk r' 1 (unat m) = disk t 1 (unat m)))))"
proof -
  obtain t where t: "commit c s = Ok t" "babs t = cm_done s" "lh_n t = 0" using commit_run[OF assms] by blast
  note F = cm_done_facts[OF assms(1,2)]
  have w: "disk_writes t = disk_writes s @ cm_writes s" by (rule commit_writes[OF assms t(1)])
  have dt: "disk t 1 (unat m) = ac_view (babs s) m" if "m \<notin> larea s (unat (lh_n s))" for m
    using F(6)[OF that] t(2) babs_disk(1)[of t m] by simp
  have "\<exists>r'. recover_from_log c r = Ok r' \<and>
        ((\<forall>m. m \<notin> larea s (unat (lh_n s)) \<longrightarrow> disk r' 1 (unat m) = disk s 1 (unat m)) \<or>
         (\<forall>m. m \<notin> larea s (unat (lh_n s)) \<longrightarrow> disk r' 1 (unat m) = disk t 1 (unat m)))"
    if "crashed c u s (cm_writes s) k r" for k r
    using recovered[OF assms(1,2) that] dt unfolding babs_disk(1) by (cases "k \<le> unat (lh_n s)") auto
  then show ?thesis using t(1,3) w dt by blast
qed

theorem commit_is_atomic_witness:
  "\<exists>t. commit 0 demo_tx = Ok t \<and> disk t 1 100 = replicate BSIZE 7 \<and>
     (\<forall>k. \<exists>r'. recover_from_log 0 (demo_boot k) = Ok r' \<and>
        (disk r' 1 100 = replicate BSIZE 0 \<or> disk r' 1 100 = replicate BSIZE 7))"
proof -
  have n: "0 < unat (lh_n demo_tx)" using demo_tx_linv(3) by simp
  have m: "100 \<notin> larea demo_tx (unat (lh_n demo_tx))" using demo_tx_linv(3,4) by (auto simp: larea_def lblk_def)
  obtain t ws where t: "commit 0 demo_tx = Ok t" "disk_writes t = disk_writes demo_tx @ ws"
     "\<And>m. m \<notin> larea demo_tx (unat (lh_n demo_tx)) \<Longrightarrow> disk t 1 (unat m) = ac_view (babs demo_tx) m"
     "\<And>k r. crashed 0 1 demo_tx ws k r \<Longrightarrow> (\<exists>r'. recover_from_log 0 r = Ok r' \<and>
        ((\<forall>m. m \<notin> larea demo_tx (unat (lh_n demo_tx)) \<longrightarrow> disk r' 1 (unat m) = disk demo_tx 1 (unat m)) \<or>
         (\<forall>m. m \<notin> larea demo_tx (unat (lh_n demo_tx)) \<longrightarrow> disk r' 1 (unat m) = disk t 1 (unat m))))"
    using commit_is_atomic[OF demo_tx_linv(1,2) n] by blast
  have "disk_writes t = disk_writes demo_tx @ cm_writes demo_tx"
    by (rule commit_writes[OF demo_tx_linv(1,2) n t(1)])
  then have ws: "ws = cm_writes demo_tx" using t(2) by simp
  have t100: "disk t 1 100 = replicate BSIZE 7" using t(3)[OF m] demo_tx_abs(4) by simp
  have s100: "disk demo_tx 1 100 = replicate BSIZE 0" by (simp add: demo_tx_def demo_log_def demo_disk_def)
  have "\<exists>r'. recover_from_log 0 (demo_boot k) = Ok r' \<and> (disk r' 1 100 = replicate BSIZE 0 \<or> disk r' 1 100 = replicate BSIZE 7)" for k
  proof -
    obtain r' where r': "recover_from_log 0 (demo_boot k) = Ok r'"
      "(\<forall>m. m \<notin> larea demo_tx (unat (lh_n demo_tx)) \<longrightarrow> disk r' 1 (unat m) = disk demo_tx 1 (unat m)) \<or>
       (\<forall>m. m \<notin> larea demo_tx (unat (lh_n demo_tx)) \<longrightarrow> disk r' 1 (unat m) = disk t 1 (unat m))"
      using t(4) demo_crashed ws by blast
    from r'(2) have "disk r' 1 (unat (100 :: uint)) = disk demo_tx 1 (unat (100 :: uint)) \<or>
        disk r' 1 (unat (100 :: uint)) = disk t 1 (unat (100 :: uint))" using m by blast
    then show ?thesis using r'(1) s100 t100 by simp
  qed
  then show ?thesis using t(1) t100 by blast
qed

section \<open>The log\<close>

text \<open>
  C34: \<open>log_write\<close> inside a transaction with room in the log keeps the invariant of the log,
  pins the block in the cache and absorbs a block logged before; the header grows by one
  entry exactly when the block is new.
\<close>

theorem log_write_absorbs:
  assumes "linv c u s" "free_lock (log_lock s)" "ac_held (babs s) m = Some b" "m \<notin> lregion s"
    and "0 < int_of (log_outstanding s)" "unat (lh_n s) + 1 < unat (log_size s)"
  shows "\<exists>t. log_write c b s = Ok t \<and> linv c u t \<and> ac_pin (babs t) = insert m (ac_pin (babs s)) \<and>
     ac_view (babs t) = ac_view (babs s) \<and> ac_disk (babs t) = ac_disk (babs s) \<and> ac_held (babs t) = ac_held (babs s) \<and>
     lh_n t = (if m \<in> ac_pin (babs s) then lh_n s else lh_n s + 1)"
  using log_write_ok[OF assms] by (auto simp: ac_mark_def)

text \<open>Within a transaction on the sample disk.\<close>

definition demo_op :: log_st where
  "demo_op = demo_tx\<lparr>log_outstanding := 1\<rparr>"

lemma demo_op_linv: "linv 0 1 demo_op" "babs demo_op = babs demo_tx"
proof -
  show b: "babs demo_op = babs demo_tx" by (simp add: babs_def demo_op_def bcores_def[abs_def])
  have "binv 0 1 demo_op = binv 0 1 demo_tx" by (simp add: demo_op_def)
  then show "linv 0 1 demo_op" using demo_tx_linv(1) b by (subst linv_cong[where s = demo_tx]) (simp_all add: demo_op_def)
qed

lemma demo_busy: "card (ac_busy (babs demo_tx)) < NBUF"
  by (simp add: ac_busy_def demo_tx_abs NBUF_def MAXOPBLOCKS_def)

lemma demo_op_txinv: "txinv 0 1 (lregion demo_tx) demo_op"
  using demo_op_linv by (simp add: txinv_def lregion_def demo_op_def demo_tx_def demo_log_def int_of_def)

theorem log_write_absorbs_witness:
  "\<exists>b s1 t. bread 0 ROOTDEV 101 demo_op = Ok (b, s1) \<and> log_write 0 b s1 = Ok t \<and> lh_n t = 2 \<and>
     ac_pin (babs t) = {100, 101}"
proof -
  obtain b s1 where s1: "bread 0 ROOTDEV 101 demo_op = Ok (b, s1)" "txinv 0 1 (lregion demo_tx) s1"
      "lframe demo_op s1" "babs s1 = ac_read 101 b (babs demo_op)" "tcap s1 = tcap demo_op" "ac_held (babs s1) 101 = Some b"
    using tx.look[OF demo_op_txinv, of 101] demo_busy by (auto simp: demo_op_linv demo_tx_abs FSSIZE_def)
  have "txinv 0 1 (lregion demo_tx) s1" by (rule s1(2))
  then have l: "linv 0 1 s1" "free_lock (log_lock s1)" "0 < int_of (log_outstanding s1)" "lregion s1 = lregion demo_tx"
    by (simp_all add: txinv_def)
  obtain b' s1' where "bread 0 ROOTDEV 101 demo_op = Ok (b', s1')" "bframe demo_op s1'"
    using bread_law[of 0 1 demo_op 101] txinv_binv[OF demo_op_txinv] demo_busy
    by (auto simp: demo_op_linv demo_tx_abs FSSIZE_def)
  then have f: "bframe demo_op s1" using s1(1) by simp
  have n: "lh_n s1 = 1" "log_size s1 = 30" using bframe_log[OF f] by (simp_all add: demo_op_def demo_tx_def demo_log_def)
  have "101 \<notin> lregion s1" unfolding l(4) by (simp add: lregion_def demo_tx_def demo_log_def)
  from log_write_absorbs[OF l(1,2) s1(6) this l(3)] n
  obtain t where t: "log_write 0 b s1 = Ok t" "ac_pin (babs t) = insert 101 (ac_pin (babs s1))"
    "lh_n t = (if 101 \<in> ac_pin (babs s1) then lh_n s1 else lh_n s1 + 1)" by auto
  have "ac_pin (babs s1) = {100}" by (simp add: s1(4) ac_read_def demo_op_linv demo_tx_abs)
  then have "lh_n t = 2" "ac_pin (babs t) = {100, 101}" using t n by auto
  then show ?thesis using s1(1) t(1) by blast
qed

text \<open>
  C2: A whole transaction on an idle log is durable: \<open>begin_op\<close>, a change of a block through
  the cache with \<open>log_write\<close>, and \<open>end_op\<close> all succeed; afterwards the block on the disk has
  the changed contents, every other block outside the log is as before, and the log is
  empty again.
\<close>

theorem transaction_is_durable:
  assumes "linv c u s" "idle_cache s" "free_lock (log_lock s)" "log_outstanding s = 0" "log_committing s = 0" "lh_n s = 0"
    and "n < FSSIZE" "n \<notin> lregion s" "2 \<le> unat (log_size s)" "\<And>d. length d = BSIZE \<Longrightarrow> length (f d) = BSIZE"
  shows "\<exists>s1 b s2 s3 s4 t. begin_op c s = Ok s1 \<and> bread c ROOTDEV n s1 = Ok (b, s2) \<and>
     log_write c b (set_data b (f (b_data (buf s2 b))) s2) = Ok s3 \<and> brelse c b s3 = Ok s4 \<and> end_op c s4 = Ok t \<and>
     linv c u t \<and> lh_n t = 0 \<and> log_outstanding t = 0 \<and>
     (\<forall>m. m \<notin> lregion s \<longrightarrow> disk t 1 (unat m) = (if m = n then f (disk s 1 (unat n)) else disk s 1 (unat m)))"
proof -
  let ?s1 = "s\<lparr>log_outstanding := 1\<rparr>"
  have s1: "begin_op c s = Ok ?s1"
    using begin_op_ok[OF assms(1,3,5)] assms(4,6) by (simp add: log_space_def int_of_def MAXOPBLOCKS_def LOGSIZE_def)
  have l1: "linv c u ?s1" using assms(1) by (subst linv_cong[where s = s]) simp_all
  have tx: "txinv c u (lregion s) ?s1" using l1 assms(3) by (simp add: txinv_def lregion_def int_of_def)
  have pin: "ac_pin (babs s) = {}" using assms(1,6) by (simp add: linv_def)
  have held: "ac_held (babs s) = (\<lambda>_. None)" using assms(2) by (simp add: idle_cache_def)
  have view: "ac_view (babs s) m = disk s 1 (unat m)" for m
    using bc.coherent[of c u s m] assms(1) pin held by (simp add: linv_def babs_disk)
  have busy: "card (ac_busy (babs s)) < NBUF" by (simp add: ac_busy_def pin held NBUF_def MAXOPBLOCKS_def)
  have len: "length (ac_view (babs s) n) = BSIZE" using bc.sized[of c u s n] assms(1) by (simp add: linv_def)
  have cap: "0 < tcap ?s1" using assms(6,9) by (simp add: tcap_def)
  have "\<exists>b s2 s3 s4. bread c ROOTDEV n ?s1 = Ok (b, s2) \<and> b_data (buf s2 b) = ac_view (babs ?s1) n \<and>
      txinv c u (lregion s) s2 \<and> lframe ?s1 s2 \<and>
      log_write c b (set_data b (f (b_data (buf s2 b))) s2) = Ok s3 \<and> brelse c b s3 = Ok s4 \<and> txinv c u (lregion s) s4 \<and>
      lframe ?s1 s4 \<and> babs s4 = ac_mark n (ac_set n (f (ac_view (babs ?s1) n)) (babs ?s1)) \<and>
      tcap s4 = (if n \<in> ac_pin (babs ?s1) then tcap ?s1 else tcap ?s1 - 1)"
    using tx.edit[OF tx assms(7) _ _ assms(8) cap, of f] held busy assms(10)[OF len] by simp
  then obtain b s2 s3 s4 where e: "bread c ROOTDEV n ?s1 = Ok (b, s2)"
      "log_write c b (set_data b (f (b_data (buf s2 b))) s2) = Ok s3" "brelse c b s3 = Ok s4" "txinv c u (lregion s) s4"
      "lframe ?s1 s4" "babs s4 = ac_mark n (ac_set n (f (ac_view (babs s) n)) (babs s))" by auto
  have f4: "log_outstanding s4 = 1" "log_committing s4 = 0" "log_lock s4 = log_lock s"
    using arg_cong[OF e(5)[unfolded lframe_def], of log_outstanding] arg_cong[OF e(5)[unfolded lframe_def], of log_committing]
      arg_cong[OF e(5)[unfolded lframe_def], of log_lock] assms(5) by (simp_all add: bview_def)
  have l4: "linv c u s4" "idle_cache s4" "free_lock (log_lock s4)" "lregion s4 = lregion s"
    using e(4) held f4 assms(3) by (simp_all add: txinv_def idle_cache_def e(6) ac_mark_def ac_set_def)
  obtain t where t: "end_op c s4 = Ok t" "linv c u t" "lh_n t = 0" "log_outstanding t = 0"
      "\<And>m. m \<notin> lregion s \<Longrightarrow> ac_disk (babs t) m = ac_view (babs s4) m"
    using end_op_last[OF l4(1-3) f4(1,2)] l4(4) by auto
  have "disk t 1 (unat m) = (if m = n then f (disk s 1 (unat n)) else disk s 1 (unat m))" if "m \<notin> lregion s" for m
    using t(5)[OF that] view by (simp add: babs_disk e(6) ac_mark_def ac_set_def)
  then show ?thesis using s1 e(1-3) t(1-4) by blast
qed

text \<open>A kernel with a blank disk and an empty log.\<close>

definition demo_idle :: log_st where
  "demo_idle = demo_log demo_disk demo_buf 0 (\<lambda>_. 0) ()"

lemma demo_idle_linv: "linv 0 1 demo_idle" "idle_cache demo_idle"
proof -
  have "binv 0 1 demo_idle" unfolding demo_idle_def by (intro demo_binv demo_fresh) (simp_all add: demo_disk_def)
  moreover have "ldw (replicate BSIZE 0) 0 = 0" by (rule ldw_zero) (simp_all add: BSIZE_def)
  moreover have "log_dev demo_idle = ROOTDEV" "log_size demo_idle = 30" "log_start demo_idle = 2" "lh_n demo_idle = 0"
    by (simp_all add: demo_idle_def demo_log_def)
  moreover have "ac_pin (babs demo_idle) = {}" "ac_disk (babs demo_idle) m = replicate BSIZE 0"
    "ac_held (babs demo_idle) = (\<lambda>_. None)" for m by (simp_all add: demo_idle_def demo_fresh_abs demo_disk_def)
  ultimately show "linv 0 1 demo_idle" "idle_cache demo_idle"
    by (simp_all add: linv_def idle_cache_def LOGSIZE_def MAXOPBLOCKS_def FSSIZE_def)
qed

theorem transaction_is_durable_witness:
  "\<exists>s1 b s2 s3 s4 t. begin_op 0 demo_idle = Ok s1 \<and> bread 0 ROOTDEV 100 s1 = Ok (b, s2) \<and>
     log_write 0 b (set_data b (replicate BSIZE 9) s2) = Ok s3 \<and> brelse 0 b s3 = Ok s4 \<and> end_op 0 s4 = Ok t \<and>
     disk t 1 100 = replicate BSIZE 9"
proof -
  have "free_lock (log_lock demo_idle)" "log_outstanding demo_idle = 0" "log_committing demo_idle = 0" "lh_n demo_idle = 0"
    "100 \<notin> lregion demo_idle" "2 \<le> unat (log_size demo_idle)" "(100 :: uint) < FSSIZE"
    by (simp_all add: demo_idle_def demo_log_def lregion_def FSSIZE_def)
  from transaction_is_durable[OF demo_idle_linv this(1-4,7,5,6), of "\<lambda>_. replicate BSIZE 9"] this(5)
  show ?thesis by (fastforce dest: spec[of _ 100])
qed

section \<open>The buffer cache\<close>

text \<open>
  C4: The buffer cache implements a disk seen through held blocks: \<open>bread\<close> locks the block
  and shows its current contents, whatever buffer it reuses; \<open>bwrite\<close> puts the contents of a held
  block on the disk, as one sector write; \<open>brelse\<close> of a block that is clean or pinned
  unlocks it and keeps what the file system sees.
\<close>

theorem buffer_cache_refines_disk:
  assumes "binv c u s"
  shows "(n < FSSIZE \<and> ac_held (babs s) n = None \<and> (n \<in> ac_pin (babs s) \<or> card (ac_busy (babs s)) < NBUF) \<longrightarrow>
       (\<exists>b t. bread c ROOTDEV n s = Ok (b, t) \<and> binv c u t \<and> bframe s t \<and>
          babs t = (babs s)\<lparr>ac_held := (ac_held (babs s))(n := Some b)\<rparr> \<and> b_data (buf t b) = ac_view (babs s) n)) \<and>
     (ac_held (babs s) n = Some b \<longrightarrow>
       (\<exists>t. bwrite c b s = Ok t \<and> binv c u t \<and> bframe s t \<and>
          babs t = (babs s)\<lparr>ac_disk := (ac_disk (babs s))(n := ac_view (babs s) n), ac_pin := ac_pin (babs s) - {n},
                            ac_writes := ac_writes (babs s) @ [(1, unat n, ac_view (babs s) n)]\<rparr>) \<and>
       (n \<in> ac_pin (babs s) \<or> ac_view (babs s) n = ac_disk (babs s) n \<longrightarrow>
         (\<exists>t. brelse c b s = Ok t \<and> binv c u t \<and> bframe s t \<and>
            babs t = (babs s)\<lparr>ac_held := (ac_held (babs s))(n := None)\<rparr>)))"
proof (intro conjI impI, goal_cases)
  case 1
  then obtain b t where t: "bread c ROOTDEV n s = Ok (b, t)" "binv c u t" "bframe s t" "babs t = ac_read n b (babs s)"
    using bread_law[OF assms] by blast
  have "b_data (buf t b) = ac_view (babs t) n" by (rule bc.data_law[OF t(2)]) (simp add: t(4) ac_read_def)
  then show ?case using t by (auto simp: ac_read_def)
next
  case 2
  then show ?case using bwrite_law[OF assms] by (auto simp: ac_write_def)
next
  case 3
  then show ?case using brelse_law[OF assms 3] by (auto simp: ac_release_def)
qed

theorem buffer_cache_refines_disk_witness:
  "\<exists>b t. bread 0 ROOTDEV 100 demo_tx = Ok (b, t) \<and> b_data (buf t b) = replicate BSIZE 7 \<and>
     (\<exists>t'. bwrite 0 b t = Ok t' \<and> disk t' 1 100 = replicate BSIZE 7)"
proof -
  obtain b t where t: "bread 0 ROOTDEV 100 demo_tx = Ok (b, t)" "binv 0 1 t" "b_data (buf t b) = replicate BSIZE 7"
      "babs t = (babs demo_tx)\<lparr>ac_held := (ac_held (babs demo_tx))(100 := Some b)\<rparr>"
    using buffer_cache_refines_disk[OF demo_tx_binv, of 100] demo_busy by (auto simp: demo_tx_abs FSSIZE_def)
  have "ac_held (babs t) 100 = Some b" by (simp add: t(4))
  then obtain t' where t': "bwrite 0 b t = Ok t'"
      "ac_disk (babs t') = (ac_disk (babs t))(100 := ac_view (babs t) 100)"
    using buffer_cache_refines_disk[OF t(2), of 100 b] by auto
  have "disk t' 1 100 = ac_disk (babs t') 100" by (simp add: babs_disk)
  also have "\<dots> = replicate BSIZE 7" by (simp add: t'(2) t(4) demo_tx_abs)
  finally show ?thesis using t t'(1) by blast
qed

end
