(* ===== verification/Demo_Sys.thy ===== *)
theory Demo_Sys
  imports Sysproc Log_End
begin

text \<open>
  A whole kernel state: the idle disk and process table of \<open>Demo\<close>, an inode cache, a
  console, a file table and an empty pipe at \<open>0x80400000\<close>.
\<close>

definition demo_inode :: inode where
  "demo_inode = \<lparr>i_dev = 0, i_inum = 0, i_ref = 0, i_lock = initsleeplock ''inode'', i_valid = 0, i_type = 0,
     i_major = 0, i_minor = 0, i_nlink = 0, i_size = 0, i_addrs = (\<lambda>_. 0)\<rparr>"

definition demo_file :: file_t where
  "demo_file = \<lparr>f_type = FD_NONE, f_ref = 0, f_readable = False, f_writable = False, f_pipe = 0, f_ip = None, f_off = 0\<rparr>"

definition demo_pipe :: pipe where
  "demo_pipe = \<lparr>p_lock = initlock ''pipe'', p_data = (\<lambda>_. 0), nread = 0xFFFFFFFF, nwrite = 0xFFFFFFFF,
     readopen = True, writeopen = True\<rparr>"

definition demo_sys :: sys_st where
  "demo_sys = \<lparr>cpus = demo_cpus, mem = (\<lambda>_. 0), end_sym = 0x80120000, data_sym = 0x80110000,
     kmem_lock = initlock ''kmem'', use_lock = True, freelist = 0, ptable_lock = initlock ''ptable'',
     proc = demo_proc, plist = demo_plist, ready = demo_ready, PromoteAtTime = 4000, initproc = Some 0,
     nextpid = 4, ticks = 100, kpgdir = 0x80600000, ts_addr = (\<lambda>_. 0x80110100), forkret_sym = 0x80100200,
     trapret_sym = 0x80100300, bcache_lock = initlock ''bcache'', buf = demo_buf, idelock = initlock ''ide'', idequeue = None,
     havedisk1 = True, ide_req = None, ide_err = False, disk = (\<lambda>_. demo_disk), disk_writes = [], ioapic = (\<lambda>_. 0),
     log_lock = initlock ''log'', log_start = 2, log_size = 30, log_outstanding = 0, log_committing = 0,
     log_dev = ROOTDEV, lh_n = 0, lh_block = (\<lambda>_. 0),
     fsb = \<lparr>sb_size = 1000, sb_nblocks = 941, sb_ninodes = 200, sb_nlog = 30, sb_logstart = 2, sb_inodestart = 32, sb_bmapstart = 58\<rparr>,
     icache_lock = initlock ''icache'', inode = (\<lambda>_. demo_inode), cons_lock = initlock ''console'', cons_locking = True,
     panicked = False, in_buf = (\<lambda>_. 0), in_r = 0, in_w = 0, in_e = 0, crt = (\<lambda>_. 0), crt_pos = 0, uart = True,
     uart_out = [], uart_in = [], kbd_shift = 0, kbd_in = [], devsw_read = (\<lambda>_. None), devsw_write = (\<lambda>_. None),
     ftable_lock = initlock ''ftable'', ftab = (\<lambda>_. demo_file), pipe = (\<lambda>_. demo_pipe), forkret_first = False,
     idt = (\<lambda>_. \<lparr>off_15_0 = 0, gd_cs = 0, gd_args = 0, gd_rsv1 = 0, gd_type = 0, gd_s = 0, gd_dpl = 0, gd_p = 0, off_31_16 = 0\<rparr>),
     cmos = (\<lambda>_. 0), powered_off = False\<rparr>"

lemma demo_sys_log: "demo_sys = demo_log demo_disk demo_buf 0 (\<lambda>_. 0) (log_st.more demo_sys)"
  by (simp add: demo_sys_def demo_log_def)

lemma demo_sys_binv: "binv 0 1 demo_sys"
  by (subst demo_sys_log) (intro demo_binv demo_fresh; simp add: demo_disk_def)

lemma demo_sys_abs: "babs demo_sys =
    \<lparr>ac_disk = (\<lambda>_. replicate BSIZE 0), ac_view = (\<lambda>_. replicate BSIZE 0), ac_pin = {}, ac_held = (\<lambda>_. None), ac_writes = []\<rparr>"
  by (subst demo_sys_log) (simp add: demo_fresh_abs demo_disk_def)

lemma demo_sys_linv: "linv 0 1 demo_sys" "idle_cache demo_sys"
proof -
  have "ldw (replicate BSIZE 0) 0 = 0" by (rule ldw_zero) (simp_all add: BSIZE_def)
  moreover have "log_dev demo_sys = ROOTDEV" "log_size demo_sys = 30" "log_start demo_sys = 2" "lh_n demo_sys = 0"
    by (simp_all add: demo_sys_def)
  ultimately show "linv 0 1 demo_sys" "idle_cache demo_sys" using demo_sys_binv
    by (simp_all add: linv_def idle_cache_def demo_sys_abs LOGSIZE_def MAXOPBLOCKS_def FSSIZE_def)
qed

lemma demo_sys_calm: "calm 0 1 demo_sys"
  using linv_calm[OF demo_sys_linv(1)] .

text \<open>The same kernel inside a transaction.\<close>

definition demo_op_sys :: sys_st where
  "demo_op_sys = demo_sys\<lparr>log_outstanding := 1\<rparr>"

lemma demo_op_sys_txinv: "txinv 0 1 {m. 2 \<le> unat m \<and> unat m < 32} demo_op_sys" "babs demo_op_sys = babs demo_sys"
proof -
  show b: "babs demo_op_sys = babs demo_sys" by (simp add: demo_op_sys_def)
  have "linv 0 1 demo_op_sys" using demo_sys_linv(1) b
    by (subst linv_cong[where s = demo_sys]) (simp_all add: demo_op_sys_def)
  then show "txinv 0 1 {m. 2 \<le> unat m \<and> unat m < 32} demo_op_sys"
    by (simp add: txinv_def lregion_def demo_op_sys_def demo_sys_def int_of_def)
qed

end
