(* ===== verification/Pipe_Thms.thy ===== *)
theory Pipe_Thms
  imports File Log_End
begin

unbundle bit_operations_syntax

text \<open>
  A pipe is a first-in first-out queue of at most \<open>PIPESIZE\<close> bytes.  \<open>nread\<close> and \<open>nwrite\<close> are
  counters of 32 bits that wrap around; \<open>PIPESIZE\<close> divides their range, so the ring stays
  consistent when they do.
\<close>

section \<open>The ring\<close>

definition ring :: "uint \<Rightarrow> nat" where
  "ring a = unat (a mod of_nat PIPESIZE)"

lemma ring_add: "ring (a + of_nat i) = (unat a + i) mod 512"
proof -
  have "unat (a + of_nat i) = (unat a + i) mod 2 ^ 32" by (simp add: unat_word_ariths unat_of_nat mod_simps)
  moreover have "(unat a + i) mod 2 ^ 32 mod 512 = (unat a + i) mod 512" by (rule mod_mod_cancel) simp
  ultimately show ?thesis by (simp add: ring_def PIPESIZE_def unat_mod)
qed

lemma ring_neq:
  assumes "i < j" "j < i + 512"
  shows "ring (a + of_nat i) \<noteq> ring (a + of_nat j)"
proof
  assume "ring (a + of_nat i) = ring (a + of_nat j)"
  then have "(unat a + j) mod 512 = (unat a + i) mod 512" by (simp add: ring_add)
  then have "512 dvd (unat a + j) - (unat a + i)" using assms(1) by (intro mod_eq_dvd_iff_nat[THEN iffD1]) simp_all
  then have "512 dvd j - i" by simp
  then show False using assms by (auto dest: dvd_imp_le)
qed

text \<open>The bytes in the pipe, oldest first.\<close>

definition pipe_rep :: "pipe \<Rightarrow> byte list \<Rightarrow> bool" where
  "pipe_rep x q \<longleftrightarrow> length q \<le> PIPESIZE \<and> nwrite x = nread x + of_nat (length q) \<and>
     (\<forall>i < length q. p_data x (ring (nread x + of_nat i)) = q ! i)"

definition pput :: "byte \<Rightarrow> pipe \<Rightarrow> pipe" where
  "pput b x = x\<lparr>p_data := (p_data x)(ring (nwrite x) := b), nwrite := nwrite x + 1\<rparr>"

definition pget :: "pipe \<Rightarrow> pipe" where
  "pget x = x\<lparr>nread := nread x + 1\<rparr>"

lemma pipe_rep_lock [simp]: "pipe_rep (x\<lparr>p_lock := l\<rparr>) q = pipe_rep x q"
  by (simp add: pipe_rep_def)

lemma of_nat_pipe:
  assumes "m \<le> PIPESIZE" "k \<le> PIPESIZE"
  shows "(of_nat m :: uint) = of_nat k \<longleftrightarrow> m = k"
proof -
  have "unat (of_nat m :: uint) = m" "unat (of_nat k :: uint) = k"
    using assms by (simp_all add: unat_of_nat_uint PIPESIZE_def)
  then show ?thesis by metis
qed

lemma pipe_full: "pipe_rep x q \<Longrightarrow> nwrite x = nread x + of_nat PIPESIZE \<longleftrightarrow> length q = PIPESIZE"
  using of_nat_pipe[of "length q" PIPESIZE] by (simp add: pipe_rep_def)

lemma pipe_empty: "pipe_rep x q \<Longrightarrow> nread x = nwrite x \<longleftrightarrow> q = []"
  using of_nat_pipe[of "length q" 0] by (auto simp: pipe_rep_def)

lemma pput_rep:
  assumes "pipe_rep x q" "length q < PIPESIZE"
  shows "pipe_rep (pput b x) (q @ [b])"
proof -
  have "p_data (pput b x) (ring (nread x + of_nat i)) = (q @ [b]) ! i" if "i < Suc (length q)" for i
  proof (cases "i = length q")
    case False
    then have "ring (nread x + of_nat i) \<noteq> ring (nwrite x)"
      using that assms ring_neq[of i "length q" "nread x"] by (auto simp: pipe_rep_def PIPESIZE_def)
    then show ?thesis using False that assms(1) by (simp add: pput_def pipe_rep_def nth_append)
  qed (use assms(1) in \<open>simp add: pput_def pipe_rep_def\<close>)
  then show ?thesis using assms by (simp add: pipe_rep_def) (simp add: pput_def)
qed

lemma pget_rep:
  assumes "pipe_rep x (b # q)"
  shows "pipe_rep (pget x) q" "p_data x (ring (nread x)) = b"
proof -
  have *: "p_data x (ring (nread x + of_nat i)) = (b # q) ! i" if "i < Suc (length q)" for i
    using assms that by (simp add: pipe_rep_def)
  from *[of 0] show "p_data x (ring (nread x)) = b" by simp
  have "p_data x (ring (nread x + 1 + of_nat i)) = q ! i" if "i < length q" for i
    using *[of "Suc i"] that by (simp add: add.assoc)
  then show "pipe_rep (pget x) q" using assms by (simp add: pipe_rep_def pget_def add.assoc)
qed

section \<open>The loops\<close>

lemma pipeupd_simps [simp]:
  "pipe (pipeupd p g s) p = g (pipe s p)" "pipeupd p f (pipeupd p g s) = pipeupd p (\<lambda>x. f (g x)) s"
  "cpus (pipeupd p g s) = cpus s" "proc (pipeupd p g s) = proc s" "ptable_lock (pipeupd p g s) = ptable_lock s"
  "pipeupd p (\<lambda>x. x) s = s"
  by (simp_all add: pipeupd_def)

lemma upt_step: "[k..<k + Suc n] = k # [Suc k..<Suc k + n]"
  by (subst upt_conv_Cons) (simp_all del: upt_Suc)

lemma pipewrite_body_put:
  assumes "pipe_rep (pipe s p) q" "length q < PIPESIZE" "src i = Ok b"
  shows "pipewrite_body c p src i s = Ok (None, pipeupd p (pput b) s)"
proof -
  have "nwrite (pipe s p) \<noteq> nread (pipe s p) + of_nat PIPESIZE" using pipe_full[OF assms(1)] assms(2) by simp
  then show ?thesis using assms(3) by (simp add: pipewrite_body_def pput_def[abs_def] ring_def)
qed

lemma pipewrite_loop:
  assumes "pipe_rep (pipe s p) q" "length q + length bs \<le> PIPESIZE" "\<And>i. i < length bs \<Longrightarrow> src (k + i) = Ok (bs ! i)"
  shows "for_each (pipewrite_body c p src) [k..<k + length bs] s = Ok (None, pipeupd p (fold pput bs) s)"
    "pipe_rep (fold pput bs (pipe s p)) (q @ bs)"
proof -
  have "for_each (pipewrite_body c p src) [k..<k + length bs] s = Ok (None, pipeupd p (fold pput bs) s) \<and>
    pipe_rep (fold pput bs (pipe s p)) (q @ bs)" using assms
  proof (induction bs arbitrary: k s q)
    case Nil
    then show ?case by (simp add: id_def)
  next
    case (Cons b bs)
    have b: "pipewrite_body c p src k s = Ok (None, pipeupd p (pput b) s)"
      using Cons.prems(2) Cons.prems(3)[of 0] by (intro pipewrite_body_put[OF Cons.prems(1)]) simp_all
    have r: "pipe_rep (pipe (pipeupd p (pput b) s) p) (q @ [b])" using Cons.prems by (simp add: pput_rep)
    have "\<And>i. i < length bs \<Longrightarrow> src (Suc k + i) = Ok (bs ! i)" using Cons.prems(3)[of "Suc _"] by simp
    from Cons.IH[OF r _ this] Cons.prems(2)
    have "for_each (pipewrite_body c p src) [Suc k..<Suc k + length bs] (pipeupd p (pput b) s) =
        Ok (None, pipeupd p (fold pput bs) (pipeupd p (pput b) s))"
      "pipe_rep (fold pput bs (pput b (pipe s p))) (q @ b # bs)" by simp_all
    moreover have "[k..<k + length (b # bs)] = k # [Suc k..<Suc k + length bs]" using upt_step[of k "length bs"] by simp
    ultimately show ?case using b by (simp add: comp_def del: upt_Suc)
  qed
  then show "for_each (pipewrite_body c p src) [k..<k + length bs] s = Ok (None, pipeupd p (fold pput bs) s)"
    "pipe_rep (fold pput bs (pipe s p)) (q @ bs)" by simp_all
qed

text \<open>A full pipe without readers.\<close>

lemma pipewrite_body_broken:
  assumes "pipe_rep (pipe s p) q" "length q = PIPESIZE" "\<not> readopen (pipe s p)"
  shows "pipewrite_body c p src i s = Ok (Some (), s)"
  using pipe_full[OF assms(1)] assms(2,3) by (simp add: pipewrite_body_def)

lemma piperead_loop:
  assumes "pipe_rep (pipe s p) q"
  shows "\<exists>r. for_each (piperead_body p) [k..<k + n] (out, s) = Ok (r, out @ take n q, pipeupd p (pget ^^ min n (length q)) s) \<and>
    pipe_rep ((pget ^^ min n (length q)) (pipe s p)) (drop n q)"
  using assms
proof (induction n arbitrary: k s q out)
  case 0
  then show ?case by (simp add: id_def)
next
  case (Suc n)
  note u = upt_step[of k n]
  show ?case
  proof (cases q)
    case Nil
    then have "nread (pipe s p) = nwrite (pipe s p)" using pipe_empty[OF Suc.prems] by simp
    then show ?thesis using Nil Suc.prems unfolding u by (simp add: piperead_body_def id_def)
  next
    case (Cons b q')
    have rep: "pipe_rep (pipe s p) (b # q')" using Suc.prems Cons by simp
    have "nread (pipe s p) \<noteq> nwrite (pipe s p)" using pipe_empty[OF rep] by simp
    then have b: "piperead_body p k (out, s) = Ok (None, out @ [b], pipeupd p pget s)"
      using pget_rep(2)[OF rep] by (simp add: piperead_body_def pget_def[abs_def] ring_def)
    have "pipe_rep (pipe (pipeupd p pget s) p) q'" using pget_rep(1)[OF rep] by simp
    from Suc.IH[OF this, of "Suc k" "out @ [b]"] obtain r where
      r: "for_each (piperead_body p) [Suc k..<Suc k + n] (out @ [b], pipeupd p pget s) =
         Ok (r, out @ b # take n q', pipeupd p (pget ^^ min n (length q')) (pipeupd p pget s))"
        "pipe_rep ((pget ^^ min n (length q')) (pget (pipe s p))) (drop n q')" by auto
    have f: "(pget ^^ m) (pget x) = (pget ^^ Suc m) x" for m x by (simp add: funpow_swap1)
    show ?thesis unfolding u using b r by (simp add: Cons f del: funpow.simps)
  qed
qed

section \<open>The operations\<close>

lemma calm_pipeupd [simp]: "calm c u (pipeupd p g s) = calm c u s"
  by (rule iffI; erule calm_cong; simp add: pipeupd_def)

lemma pipe_acquire_calm:
  assumes "calm c u s" "free_lock (p_lock (pipe s p))"
  shows "pipe_acquire c p s = Ok (pipeupd p (\<lambda>x. x\<lparr>p_lock := heldby c (p_lock x)\<rparr>) (s\<lparr>cpus := pushcli c (cpus s)\<rparr>))"
  by (simp add: pipe_acquire_def acquire_calm[OF assms] heldby_def pipeupd_def)

lemma pipe_release_calm:
  assumes "calm c u s" "free_lock l" "cpus t = pushcli c (cpus s)" "p_lock (pipe t p) = heldby c l"
  shows "pipe_release c p t = Ok (pipeupd p (\<lambda>x. x\<lparr>p_lock := l\<rparr>) (t\<lparr>cpus := cpus s\<rparr>))"
  using assms release_calm[of c u s l] by (simp add: pipe_release_def heldby_def)

lemma pipe_wakeup_release:
  fixes s :: "'a file_st_scheme"
  assumes cm: "calm c u s" and fr: "free_lock l" and g: "p_lock (g (pipe s p)) = heldby c l"
  shows "\<exists>r. rbind (wakeup c ch (pipeupd p g (s\<lparr>cpus := pushcli c (cpus s)\<rparr>))) (pipe_release c p) = Ok r \<and>
    calm c u r \<and> bview r = bview (pipeupd p (\<lambda>x. (g x)\<lparr>p_lock := l\<rparr>) s)"
proof -
  let ?s = "pipeupd p g (s\<lparr>cpus := pushcli c (cpus s)\<rparr>)"
  have "calm c u (s\<lparr>cpus := pushcli c (cpus s)\<rparr>)" using calm_inlock[OF cm] by (simp add: inlock_def)
  then have "calm c u ?s" by simp
  from wakeup_calm[OF this, of ch] obtain s2 where s2: "wakeup c ch ?s = Ok s2" "calm c u s2"
    and e: "s2 = ?s\<lparr>proc := proc s2, plist := plist s2, ready := ready s2\<rparr>" by auto
  have cp: "cpus s2 = pushcli c (cpus s)" "p_lock (pipe s2 p) = heldby c l"
    using arg_cong[OF e, of cpus] arg_cong[OF e, of "\<lambda>s. p_lock (pipe s p)"] g by simp_all
  let ?r = "pipeupd p (\<lambda>x. x\<lparr>p_lock := l\<rparr>) (s2\<lparr>cpus := cpus s\<rparr>)"
  have rel: "pipe_release c p s2 = Ok ?r" by (rule pipe_release_calm[OF cm fr cp])
  have r: "?r = (pipeupd p (\<lambda>x. (g x)\<lparr>p_lock := l\<rparr>) s)\<lparr>proc := proc s2, plist := plist s2, ready := ready s2\<rparr>"
    by (subst e) (simp add: pipeupd_def)
  have "calm c u (s2\<lparr>cpus := cpus s\<rparr>)"
  proof -
    have "ptinv (s2\<lparr>cpus := cpus s\<rparr>) Q = ptinv s2 Q" for Q by (rule ptinv_cong) simp_all
    moreover have "cproc (cpus s c) = cproc (cpus s2 c)" by (simp add: cp cproc_pushcli)
    ultimately show ?thesis using cm s2(2) by (auto simp: calm_def ready_cpu_def)
  qed
  then have "calm c u ?r" by simp
  moreover have "bview ?r = bview (pipeupd p (\<lambda>x. (g x)\<lparr>p_lock := l\<rparr>) s)" unfolding r by (simp add: bview_def)
  ultimately show ?thesis using s2(1) rel by auto
qed

lemma ring_op_lock [simp]:
  "pput b (x\<lparr>p_lock := l\<rparr>) = (pput b x)\<lparr>p_lock := l\<rparr>" "pget (x\<lparr>p_lock := l\<rparr>) = (pget x)\<lparr>p_lock := l\<rparr>"
  by (simp_all add: pput_def pget_def)

lemma fold_pput_lock [simp]: "fold pput bs (x\<lparr>p_lock := l\<rparr>) = (fold pput bs x)\<lparr>p_lock := l\<rparr>"
  by (induction bs arbitrary: x) simp_all

lemma fold_pput_fields [simp]:
  "p_lock (fold pput bs x) = p_lock x" "readopen (fold pput bs x) = readopen x" "writeopen (fold pput bs x) = writeopen x"
  by (induction bs arbitrary: x) (simp_all add: pput_def)

lemma pget_lock [simp]: "(pget ^^ n) (x\<lparr>p_lock := l\<rparr>) = ((pget ^^ n) x)\<lparr>p_lock := l\<rparr>"
  by (induction n) simp_all

lemma pget_fields [simp]:
  "p_lock ((pget ^^ n) x) = p_lock x" "readopen ((pget ^^ n) x) = readopen x" "writeopen ((pget ^^ n) x) = writeopen x"
  by (induction n arbitrary: x) (simp_all add: pget_def)

lemma pipeupd_lock_back: "p_lock (g (pipe s p)) = p_lock (pipe s p) \<Longrightarrow>
    pipeupd p (\<lambda>x. (g x)\<lparr>p_lock := p_lock (pipe s p)\<rparr>) s = pipeupd p g s"
  by (simp add: pipeupd_def) (metis fun_upd_apply pipe.surjective pipe.update_convs(1))

lemma bview_pipe: "bview r = bview t \<Longrightarrow> pipe r = pipe t"
  by (drule arg_cong[of _ _ pipe]) (simp add: bview_def)

lemma pipewrite_ok:
  fixes s :: "'a file_st_scheme"
  assumes cm: "calm c u s" and fr: "free_lock (p_lock (pipe s p))" and q: "pipe_rep (pipe s p) q"
    and n: "length q + length bs \<le> PIPESIZE" and src: "\<And>i. i < length bs \<Longrightarrow> src i = Ok (bs ! i)"
  shows "\<exists>t. pipewrite c p src (int (length bs)) s = Ok (int (length bs), t) \<and> calm c u t \<and>
     pipe_rep (pipe t p) (q @ bs) \<and> p_lock (pipe t p) = p_lock (pipe s p) \<and> bview t = bview (pipeupd p (fold pput bs) s)"
proof -
  let ?h = "\<lambda>x. x\<lparr>p_lock := heldby c (p_lock x)\<rparr>" and ?l = "p_lock (pipe s p)"
  let ?s1 = "pipeupd p ?h (s\<lparr>cpus := pushcli c (cpus s)\<rparr>)"
  have q1: "pipe_rep (pipe ?s1 p) q" using q by simp
  have lp: "for_each (pipewrite_body c p src) [0..<length bs] ?s1 = Ok (None, pipeupd p (fold pput bs) ?s1)"
    using pipewrite_loop(1)[OF q1 n, of src 0] src by simp
  let ?g = "\<lambda>x. fold pput bs (?h x)"
  obtain r where r: "rbind (wakeup c (Ch_nread p) (pipeupd p ?g (s\<lparr>cpus := pushcli c (cpus s)\<rparr>))) (pipe_release c p) = Ok r"
      "calm c u r" "bview r = bview (pipeupd p (\<lambda>x. (?g x)\<lparr>p_lock := ?l\<rparr>) s)"
    using pipe_wakeup_release[OF cm fr, of ?g p "Ch_nread p"] by auto
  have b: "bview r = bview (pipeupd p (fold pput bs) s)"
    using r(3) pipeupd_lock_back[of "fold pput bs" s p] by simp
  then have "pipe r p = fold pput bs (pipe s p)" by (drule_tac bview_pipe) simp
  then have "pipe_rep (pipe r p) (q @ bs)" "p_lock (pipe r p) = p_lock (pipe s p)"
    using pipewrite_loop(2)[OF q n, of src 0] src by simp_all
  moreover obtain w where "wakeup c (Ch_nread p) (pipeupd p ?g (s\<lparr>cpus := pushcli c (cpus s)\<rparr>)) = Ok w" "pipe_release c p w = Ok r"
    using r(1) by (auto simp: rbind_eq_Ok_iff)
  then have "pipewrite c p src (int (length bs)) s = Ok (int (length bs), r)"
    using lp by (simp add: pipewrite_def pipe_acquire_calm[OF cm fr])
  ultimately show ?thesis using r(2) b by blast
qed

lemma pipewrite_broken:
  fixes s :: "'a file_st_scheme"
  assumes cm: "calm c u s" and fr: "free_lock (p_lock (pipe s p))" and q: "pipe_rep (pipe s p) q"
    and n: "PIPESIZE < length q + length bs" and src: "\<And>i. i < length bs \<Longrightarrow> src i = Ok (bs ! i)" and ro: "\<not> readopen (pipe s p)"
  shows "\<exists>t. pipewrite c p src (int (length bs)) s = Ok (-1, t) \<and> pipe_rep (pipe t p) (q @ take (PIPESIZE - length q) bs)"
proof -
  let ?h = "\<lambda>x. x\<lparr>p_lock := heldby c (p_lock x)\<rparr>" and ?l = "p_lock (pipe s p)" and ?k = "PIPESIZE - length q"
  let ?s1 = "pipeupd p ?h (s\<lparr>cpus := pushcli c (cpus s)\<rparr>)" and ?bs = "take ?k bs"
  have q1: "pipe_rep (pipe ?s1 p) q" using q by simp
  have k: "length ?bs = ?k" "?k < length bs" "length q \<le> PIPESIZE" using n q by (auto simp: pipe_rep_def)
  have lp: "for_each (pipewrite_body c p src) [0..<?k] ?s1 = Ok (None, pipeupd p (fold pput ?bs) ?s1)"
    and rp: "pipe_rep (fold pput ?bs (pipe ?s1 p)) (q @ ?bs)"
    using pipewrite_loop[OF q1, of ?bs src 0] src k by simp_all
  let ?s2 = "pipeupd p (fold pput ?bs) ?s1"
  have "pipewrite_body c p src ?k ?s2 = Ok (Some (), ?s2)"
    using rp k ro by (intro pipewrite_body_broken[of _ _ "q @ ?bs"]) simp_all
  moreover have "[0..<length bs] = [0..<?k] @ ?k # [Suc ?k..<length bs]"
    using k by (metis upt_add_eq_append[of 0 ?k "length bs - ?k"] le_add_diff_inverse less_or_eq_imp_le upt_conv_Cons zero_le add_0)
  ultimately have lp2: "for_each (pipewrite_body c p src) [0..<length bs] ?s1 = Ok (Some (), ?s2)"
    using lp by (simp add: for_each_append)
  have "pipe_release c p ?s2 = Ok (pipeupd p (\<lambda>x. x\<lparr>p_lock := ?l\<rparr>) (?s2\<lparr>cpus := cpus s\<rparr>))"
    by (rule pipe_release_calm[OF cm fr]) simp_all
  moreover have "pipe_rep (pipe (pipeupd p (\<lambda>x. x\<lparr>p_lock := ?l\<rparr>) (?s2\<lparr>cpus := cpus s\<rparr>)) p) (q @ ?bs)"
    using rp by (simp add: pipeupd_def)
  ultimately show ?thesis using lp2 by (simp add: pipewrite_def pipe_acquire_calm[OF cm fr])
qed

lemma piperead_ok:
  fixes s :: "'a file_st_scheme"
  assumes cm: "calm c u s" and fr: "free_lock (p_lock (pipe s p))" and q: "pipe_rep (pipe s p) q"
    and w: "q \<noteq> [] \<or> \<not> writeopen (pipe s p)"
  shows "\<exists>t. piperead c p (int n) s = Ok (int (min n (length q)), take n q, t) \<and> calm c u t \<and> pipe_rep (pipe t p) (drop n q) \<and>
     p_lock (pipe t p) = p_lock (pipe s p) \<and> bview t = bview (pipeupd p (pget ^^ min n (length q)) s)"
proof -
  let ?h = "\<lambda>x. x\<lparr>p_lock := heldby c (p_lock x)\<rparr>" and ?l = "p_lock (pipe s p)" and ?m = "min n (length q)"
  let ?s1 = "pipeupd p ?h (s\<lparr>cpus := pushcli c (cpus s)\<rparr>)"
  have q1: "pipe_rep (pipe ?s1 p) q" using q by simp
  have go: "\<not> (nread (pipe ?s1 p) = nwrite (pipe ?s1 p) \<and> writeopen (pipe ?s1 p))" using pipe_empty[OF q] w by auto
  obtain x where lp: "for_each (piperead_body p) [0..<n] ([], ?s1) = Ok (x, take n q, pipeupd p (pget ^^ ?m) ?s1)"
    using piperead_loop[OF q1, of 0 n "[]"] by auto
  let ?g = "\<lambda>x. (pget ^^ ?m) (?h x)"
  obtain r where r: "rbind (wakeup c (Ch_nwrite p) (pipeupd p ?g (s\<lparr>cpus := pushcli c (cpus s)\<rparr>))) (pipe_release c p) = Ok r"
      "calm c u r" "bview r = bview (pipeupd p (\<lambda>x. (?g x)\<lparr>p_lock := ?l\<rparr>) s)"
    using pipe_wakeup_release[OF cm fr, of ?g p "Ch_nwrite p"] by auto
  have b: "bview r = bview (pipeupd p (pget ^^ ?m) s)"
    using r(3) pipeupd_lock_back[of "pget ^^ ?m" s p] by simp
  then have "pipe r p = (pget ^^ ?m) (pipe s p)" by (drule_tac bview_pipe) simp
  then have "pipe_rep (pipe r p) (drop n q)" "p_lock (pipe r p) = p_lock (pipe s p)"
    using piperead_loop[OF q, of 0 n "[]"] by auto
  moreover obtain y where "wakeup c (Ch_nwrite p) (pipeupd p ?g (s\<lparr>cpus := pushcli c (cpus s)\<rparr>)) = Ok y" "pipe_release c p y = Ok r"
    using r(1) by (auto simp: rbind_eq_Ok_iff)
  then have "piperead c p (int n) s = Ok (int ?m, take n q, r)"
    using lp go by (auto simp: piperead_def pipe_acquire_calm[OF cm fr])
  ultimately show ?thesis using r(2) b by blast
qed

end
