(* ===== verification/Props_Files.thy ===== *)
theory Props_Files
  imports Demo_Sys Pipe_Thms
begin

text \<open>
  Properties of pipes, open files and the file system.
\<close>

section \<open>Pipes\<close>

text \<open>
  C14: A pipe is a queue of bytes, first in first out, of at most 512, also when the 32-bit
  counters wrap around.  A write that fits appends its bytes and returns their number; a
  write that does not fit, to a pipe without readers, fills the pipe and returns \<open>-1\<close>; a
  read from a pipe that has bytes, or has no writers any more, takes up to \<open>m\<close> bytes from
  the front and returns their number (0 at the end of the stream).
\<close>

theorem pipe_is_fifo:
  assumes "calm c u s" "free_lock (p_lock (pipe s p))" "pipe_rep (pipe s p) q" "\<forall>i < length bs. src i = Ok (bs ! i)"
  shows "(length q + length bs \<le> PIPESIZE \<longrightarrow>
       (\<exists>t. pipewrite c p src (int (length bs)) s = Ok (int (length bs), t) \<and> calm c u t \<and> p_lock (pipe t p) = p_lock (pipe s p) \<and>
          pipe_rep (pipe t p) (q @ bs))) \<and>
     (PIPESIZE < length q + length bs \<and> \<not> readopen (pipe s p) \<longrightarrow>
       (\<exists>t. pipewrite c p src (int (length bs)) s = Ok (-1, t) \<and> pipe_rep (pipe t p) (q @ take (PIPESIZE - length q) bs))) \<and>
     (q \<noteq> [] \<or> \<not> writeopen (pipe s p) \<longrightarrow>
       (\<exists>t. piperead c p (int m) s = Ok (int (min m (length q)), take m q, t) \<and> calm c u t \<and> p_lock (pipe t p) = p_lock (pipe s p) \<and>
          pipe_rep (pipe t p) (drop m q)))"
  using pipewrite_ok[OF assms(1-3), of bs src] pipewrite_broken[OF assms(1-3), of bs src] piperead_ok[OF assms(1-3), of m] assms(4)
  by blast

lemma demo_pipe_rep: "pipe_rep (pipe demo_sys p) []" "free_lock (p_lock (pipe demo_sys p))"
  by (simp_all add: demo_sys_def pipe_rep_def demo_pipe_def)

theorem pipe_is_fifo_witness:
  "\<exists>t r. pipewrite 0 0x80400000 (\<lambda>i. Ok ([1, 2, 3] ! i)) 3 demo_sys = Ok (3, t) \<and>
     piperead 0 0x80400000 2 t = Ok (2, [1, 2], r) \<and> pipe_rep (pipe r 0x80400000) [3]"
proof -
  let ?p = "0x80400000 :: uint" and ?src = "\<lambda>i. Ok ([1, 2, 3 :: byte] ! i)"
  obtain t where t: "pipewrite 0 ?p ?src 3 demo_sys = Ok (3, t)" "calm 0 1 t" "p_lock (pipe t ?p) = p_lock (pipe demo_sys ?p)"
      "pipe_rep (pipe t ?p) [1, 2, 3]"
    using pipe_is_fifo[OF demo_sys_calm demo_pipe_rep(2,1), of "[1, 2, 3]" ?src ?p] by (auto simp: PIPESIZE_def)
  have "free_lock (p_lock (pipe t ?p))" using demo_pipe_rep(2) t(3) by simp
  from pipe_is_fifo[OF t(2) this t(4), of "[]" ?src 2] show ?thesis using t(1) by auto
qed

section \<open>The file table\<close>

text \<open>The table with its lock held, and the release that ends the section.\<close>

definition ftable_held :: "nat \<Rightarrow> 'a file_st_scheme \<Rightarrow> 'a file_st_scheme" where
  "ftable_held c s = s\<lparr>cpus := pushcli c (cpus s), ftable_lock := (ftable_lock s)\<lparr>locked := 1, lk_cpu := Some c\<rparr>\<rparr>"

definition ftable_done :: "nat \<Rightarrow> 'a file_st_scheme \<Rightarrow> 'a file_st_scheme" where
  "ftable_done c s = s\<lparr>cpus := (cpus s)(c := saved (cpus s c))\<rparr>"

lemma ftable_section:
  assumes "cpu_ok (cpus s c)" "free_lock (ftable_lock s)"
  shows "ftable_acquire c s = Ok (ftable_held c s)"
    "ftable_release c (fupd f g (ftable_held c s)) = Ok (fupd f g (ftable_done c s))"
    "ftable_release c (ftable_held c s) = Ok (ftable_done c s)"
    "ftab (ftable_held c s) = ftab s" "ftab (ftable_done c s) = ftab s"
proof -
  have "(ftable_lock s)\<lparr>locked := 0, lk_cpu := None\<rparr> = ftable_lock s" "(ftable_lock s)\<lparr>lk_cpu := None, locked := 0\<rparr> = ftable_lock s"
    using assms(2) by (simp_all add: free_lock_def)
  moreover have "held_by c ((ftable_lock s)\<lparr>locked := 1, lk_cpu := Some c\<rparr>)" by (simp add: held_by_def)
  note release_held[where cs = "cpus s", OF assms(1) this]
  ultimately show "ftable_release c (fupd f g (ftable_held c s)) = Ok (fupd f g (ftable_done c s))"
    "ftable_release c (ftable_held c s) = Ok (ftable_done c s)"
    by (simp_all add: ftable_release_def ftable_held_def ftable_done_def fupd_def)
qed (use assms in \<open>simp_all add: ftable_acquire_def acquire_free ftable_held_def ftable_done_def\<close>)

lemma filealloc_scan:
  "for_each (\<lambda>f s. if f_ref (ftab s f) = 0 then Ok (Some f, fupd f g s) else Ok (None, s)) fs s =
     Ok (case find (\<lambda>f. f_ref (ftab s f) = 0) fs of None \<Rightarrow> (None, s) | Some f \<Rightarrow> (Some f, fupd f g s))"
  by (induction fs) simp_all

lemma filealloc_eq:
  assumes "cpu_ok (cpus s c)" "free_lock (ftable_lock s)"
  shows "filealloc c s = Ok (case find (\<lambda>f. f_ref (ftab s f) = 0) [0..<NFILE] of
      None \<Rightarrow> (None, ftable_done c s)
    | Some f \<Rightarrow> (Some f, fupd f (\<lambda>x. x\<lparr>f_ref := 1\<rparr>) (ftable_done c s)))"
  by (simp add: filealloc_def ftable_section[OF assms] filealloc_scan split: option.splits)

lemma filedup_eq:
  assumes "cpu_ok (cpus s c)" "free_lock (ftable_lock s)"
  shows "filedup c f s = (if int_of (f_ref (ftab s f)) < 1 then Panic ''filedup''
    else Ok (fupd f (\<lambda>x. x\<lparr>f_ref := f_ref x + 1\<rparr>) (ftable_done c s)))"
  by (simp add: filedup_def ftable_section[OF assms])

lemma int_of_dec:
  assumes "1 \<le> int_of r"
  shows "int_of (r - 1) = int_of r - 1"
proof -
  have r: "int_of r = int (unat r)" using assms int_of_nonneg by simp
  have "sint r < 2 ^ 31" using sint_lt[of r] by simp
  then have "int (unat r) < 2 ^ 31" using r unfolding int_of_def by linarith
  then have lt: "unat r < 2 ^ 31" by (metis of_nat_less_iff of_nat_numeral of_nat_power)
  have "r \<noteq> 0" using assms r by auto
  then have "unat (r - 1) = unat r - 1" "0 < unat r" by (simp_all add: unat_minus_one unat_gt_0)
  then show ?thesis using r lt int_of_small[of "r - 1"] by simp
qed

lemma fupd_fupd: "fupd f g (fupd f h s) = fupd f (g \<circ> h) s" "ftab (fupd f g s) f = g (ftab s f)"
  by (simp_all add: fupd_def)

definition file_freed :: "file_t \<Rightarrow> file_t" where
  "file_freed x = x\<lparr>f_ref := 0, f_type := FD_NONE\<rparr>"

lemma fileclose_eq:
  assumes "cpu_ok (cpus s c)" "free_lock (ftable_lock s)"
  shows "fileclose c f s =
    (if int_of (f_ref (ftab s f)) < 1 then Panic ''fileclose''
     else if 1 < int_of (f_ref (ftab s f)) then Ok (fupd f (\<lambda>x. x\<lparr>f_ref := f_ref x - 1\<rparr>) (ftable_done c s))
     else let t = fupd f file_freed (ftable_done c s)
          in if f_type (ftab s f) = FD_PIPE then pipeclose c (f_pipe (ftab s f)) (f_writable (ftab s f)) t
             else if f_type (ftab s f) = FD_INODE then rbind (begin_op c t) (\<lambda>t. rbind (iput c (f_ip (ftab s f)) t) (end_op c))
             else Ok t)"
proof -
  note sec = ftable_section[OF assms]
  have free: "(\<lambda>x. x\<lparr>f_ref := 0, f_type := FD_NONE\<rparr>) \<circ> (\<lambda>x. x\<lparr>f_ref := f_ref x - 1\<rparr>) = file_freed"
    by (simp add: file_freed_def fun_eq_iff)
  show ?thesis
    using int_of_dec[of "f_ref (ftab s f)"]
    by (simp add: fileclose_def sec fupd_fupd free Let_def)
qed

text \<open>
  C28: The file table counts references.  \<open>filealloc\<close> takes the first entry without references, and
  returns 0 when there is none; \<open>filedup\<close> and \<open>fileclose\<close> of an entry without references panic,
  otherwise they add and take away one; \<open>fileclose\<close> of the last reference frees the entry before it
  closes the pipe or drops the inode that the entry referred to; and a \<open>filedup\<close> followed by a
  \<open>fileclose\<close> changes nothing.
\<close>

theorem file_table_counts:
  assumes "cpu_ok (cpus s c)" "free_lock (ftable_lock s)"
  shows "filealloc c s = Ok (case find (\<lambda>f. f_ref (ftab s f) = 0) [0..<NFILE] of
        None \<Rightarrow> (None, ftable_done c s)
      | Some f \<Rightarrow> (Some f, fupd f (\<lambda>x. x\<lparr>f_ref := 1\<rparr>) (ftable_done c s))) \<and>
    filedup c f s = (if int_of (f_ref (ftab s f)) < 1 then Panic ''filedup''
      else Ok (fupd f (\<lambda>x. x\<lparr>f_ref := f_ref x + 1\<rparr>) (ftable_done c s))) \<and>
    fileclose c f s =
      (if int_of (f_ref (ftab s f)) < 1 then Panic ''fileclose''
       else if 1 < int_of (f_ref (ftab s f)) then Ok (fupd f (\<lambda>x. x\<lparr>f_ref := f_ref x - 1\<rparr>) (ftable_done c s))
       else let t = fupd f file_freed (ftable_done c s)
            in if f_type (ftab s f) = FD_PIPE then pipeclose c (f_pipe (ftab s f)) (f_writable (ftab s f)) t
               else if f_type (ftab s f) = FD_INODE then rbind (begin_op c t) (\<lambda>t. rbind (iput c (f_ip (ftab s f)) t) (end_op c))
               else Ok t) \<and>
    (1 \<le> int_of (f_ref (ftab s f)) \<and> int_of (f_ref (ftab s f)) < 2 ^ 31 - 1 \<longrightarrow>
       rbind (filedup c f s) (fileclose c f) = Ok (ftable_done c s))"
proof (intro conjI impI filealloc_eq[OF assms] filedup_eq[OF assms] fileclose_eq[OF assms])
  let ?r = "f_ref (ftab s f)"
  assume a: "1 \<le> int_of ?r \<and> int_of ?r < 2 ^ 31 - 1"
  define u where "u = fupd f (\<lambda>x. x\<lparr>f_ref := f_ref x + 1\<rparr>) (ftable_done c s)"
  have "int_of ?r = int (unat ?r)" using a int_of_nonneg by simp
  moreover from this have "int (unat ?r) < int (2 ^ 31 - 1)" using a by simp
  then have "unat ?r < 2 ^ 31 - 1" by (rule of_nat_less_imp_less)
  then have "unat (?r + 1) = unat ?r + 1" by (simp add: unat_word_ariths)
  ultimately have r: "int_of (?r + 1) = int_of ?r + 1" using \<open>unat ?r < 2 ^ 31 - 1\<close> int_of_small[of "?r + 1"] by simp
  have u: "cpu_ok (cpus u c)" "free_lock (ftable_lock u)" "ftab u f = (ftab s f)\<lparr>f_ref := ?r + 1\<rparr>"
    using assms by (simp_all add: u_def fupd_def ftable_done_def)
  have "fupd f (\<lambda>x. x\<lparr>f_ref := f_ref x - 1\<rparr>) (ftable_done c u) = ftable_done c s"
    by (simp add: u_def fupd_def ftable_done_def fun_upd_idem)
  then have "fileclose c f u = Ok (ftable_done c s)" using fileclose_eq[OF u(1,2), of f] u(3) r a by simp
  then show "rbind (filedup c f s) (fileclose c f) = Ok (ftable_done c s)"
    using filedup_eq[OF assms, of f] a by (simp add: u_def)
qed

text \<open>A table whose entries 0 and 1 are in use, the second by two descriptors.\<close>

theorem file_table_counts_witness:
  "let s = demo_sys\<lparr>ftab := (\<lambda>_. demo_file)(0 := demo_file\<lparr>f_ref := 1\<rparr>, 1 := demo_file\<lparr>f_ref := 2\<rparr>)\<rparr>
   in filealloc 0 s = Ok (Some 2, fupd 2 (\<lambda>x. x\<lparr>f_ref := 1\<rparr>) (ftable_done 0 s)) \<and>
      fileclose 0 0 s = Ok (fupd 0 file_freed (ftable_done 0 s)) \<and> fileclose 0 2 s = Panic ''fileclose'' \<and>
      rbind (filedup 0 1 s) (fileclose 0 1) = Ok (ftable_done 0 s)"
proof -
  define s where "s = demo_sys\<lparr>ftab := (\<lambda>_. demo_file)(0 := demo_file\<lparr>f_ref := 1\<rparr>, 1 := demo_file\<lparr>f_ref := 2\<rparr>)\<rparr>"
  have ok: "cpu_ok (cpus s 0)" "free_lock (ftable_lock s)" by (simp_all add: s_def demo_sys_def demo_cpus_def idle_cpu_def cpu_ok_def)
  have f: "ftab s 0 = demo_file\<lparr>f_ref := 1\<rparr>" "ftab s 1 = demo_file\<lparr>f_ref := 2\<rparr>" "ftab s 2 = demo_file"
    by (simp_all add: s_def)
  have "[0..<NFILE] = 0 # 1 # 2 # [3..<NFILE]" by (simp add: NFILE_def upt_conv_Cons)
  then have "find (\<lambda>f. f_ref (ftab s f) = 0) [0..<NFILE] = Some 2" using f by (simp add: demo_file_def)
  moreover have n: "int_of 0 = 0" "int_of 1 = 1" "int_of 2 = 2" by (simp_all add: int_of_def)
  ultimately have "filealloc 0 s = Ok (Some 2, fupd 2 (\<lambda>x. x\<lparr>f_ref := 1\<rparr>) (ftable_done 0 s))" "fileclose 0 2 s = Panic ''fileclose''"
    using file_table_counts[OF ok, of 2] f by (simp_all add: demo_file_def)
  moreover have "fileclose 0 0 s = Ok (fupd 0 file_freed (ftable_done 0 s))"
    using file_table_counts[OF ok, of 0] f n by (simp add: demo_file_def)
  moreover have "1 \<le> int_of (f_ref (ftab s 1)) \<and> int_of (f_ref (ftab s 1)) < 2 ^ 31 - 1" using f(2) n by simp
  then have "rbind (filedup 0 1 s) (fileclose 0 1) = Ok (ftable_done 0 s)" using file_table_counts[OF ok, of 1] by blast
  ultimately show ?thesis unfolding Let_def s_def[symmetric] by blast
qed

section \<open>Allocating a pipe\<close>

text \<open>The entries of the file table without references, in the order of the scan.\<close>

definition free_entries :: "'a file_st_scheme \<Rightarrow> nat list" where
  "free_entries s = filter (\<lambda>f. f_ref (ftab s f) = 0) [0..<NFILE]"

text \<open>The state of the kernel an allocation needs: consistent CPU, free locks, the free pages.\<close>

definition files_ok :: "nat \<Rightarrow> 'a file_st_scheme \<Rightarrow> uint list \<Rightarrow> bool" where
  "files_ok c s xs \<longleftrightarrow> cpu_ok (cpus s c) \<and> free_lock (ftable_lock s) \<and> kmem_ok c s xs"

lemma find_filter: "find P xs = (case filter P xs of [] \<Rightarrow> None | x # _ \<Rightarrow> Some x)"
  by (induction xs) simp_all

lemma filter_rest:
  assumes "distinct xs" "filter P xs = r # ws"
  shows "filter (\<lambda>x. x \<noteq> r \<and> P x) xs = ws" "r \<notin> set ws"
proof -
  have d: "distinct (r # ws)" using assms distinct_filter[of xs P] by simp
  have "filter (\<lambda>x. x \<noteq> r \<and> P x) xs = filter (\<lambda>x. x \<noteq> r) (filter P xs)" by (simp add: conj_commute)
  also have "\<dots> = ws" unfolding assms(2) using d by (auto simp: filter_id_conv)
  finally show "filter (\<lambda>x. x \<noteq> r \<and> P x) xs = ws" .
  show "r \<notin> set ws" using d by simp
qed

lemma files_ok_parts [simp]:
  "files_ok c (fupd f g s) xs = files_ok c s xs" "files_ok c (ftable_done c s) xs = files_ok c s xs"
  "pipe (fupd f g s) = pipe s" "pipe (ftable_done c s) = pipe s" "ftab (ftable_done c s) = ftab s"
  by (simp_all add: files_ok_def fupd_def ftable_done_def kmem_ok_def)

definition entry_taken :: "nat \<Rightarrow> nat \<Rightarrow> 'a file_st_scheme \<Rightarrow> 'a file_st_scheme" where
  "entry_taken c f s = fupd f (\<lambda>x. x\<lparr>f_ref := 1\<rparr>) (ftable_done c s)"

lemma entry_taken_simps [simp]:
  "files_ok c (entry_taken c f s) xs = files_ok c s xs" "pipe (entry_taken c f s) = pipe s"
  "ftab (entry_taken c f s) = (ftab s)(f := (ftab s f)\<lparr>f_ref := 1\<rparr>)"
  by (simp_all add: entry_taken_def) (simp add: fupd_def)

lemma files_ok_pipe [simp]: "files_ok c (pipeupd p g s) xs = files_ok c s xs" "ftab (pipeupd p g s) = ftab s"
  "pipe (pipeupd p g s) = (pipe s)(p := g (pipe s p))"
  by (simp_all add: files_ok_def pipeupd_def kmem_ok_def)

lemma filealloc_first:
  assumes "files_ok c s xs"
  shows "filealloc c s = Ok (case free_entries s of [] \<Rightarrow> (None, ftable_done c s) | f # _ \<Rightarrow> (Some f, entry_taken c f s))"
  using filealloc_eq[of s c] assms by (simp add: files_ok_def find_filter free_entries_def entry_taken_def split: list.splits)

lemma free_entries_cong: "(\<And>f. f_ref (ftab s f) = f_ref (ftab t f)) \<Longrightarrow> free_entries s = free_entries t"
  by (simp add: free_entries_def)

lemma free_entries_rest:
  assumes "free_entries s = r # ws"
  shows "free_entries (entry_taken c r s) = ws" "f_ref (ftab s r) = 0" "r \<notin> set ws"
proof -
  have "(\<lambda>f. f_ref (((ftab s)(r := (ftab s r)\<lparr>f_ref := 1\<rparr>)) f) = 0) = (\<lambda>f. f \<noteq> r \<and> f_ref (ftab s f) = 0)" by auto
  then show "free_entries (entry_taken c r s) = ws" "r \<notin> set ws"
    using filter_rest[OF _ assms[unfolded free_entries_def]] by (simp_all add: free_entries_def)
  have "r \<in> set (free_entries s)" by (simp add: assms)
  then show "f_ref (ftab s r) = 0" by (simp add: free_entries_def)
qed

lemma fileclose_fresh:
  assumes "files_ok c s xs" "ftab s f = x\<lparr>f_ref := 1\<rparr>" "f_ref x = 0" "f_type x = FD_NONE"
  shows "\<exists>t. fileclose c f s = Ok t \<and> files_ok c t xs \<and> pipe t = pipe s \<and> ftab t = (ftab s)(f := x)"
proof -
  have "file_freed (ftab s f) = x" using assms(2-4) by (cases x) (simp add: file_freed_def)
  then have "ftab (fupd f file_freed (ftable_done c s)) = (ftab s)(f := x)" by (simp add: fupd_def)
  moreover have "fileclose c f s = Ok (fupd f file_freed (ftable_done c s))"
    using fileclose_eq[of s c f] assms by (simp add: files_ok_def int_of_def)
  ultimately show ?thesis using assms(1) by simp
qed

lemma kalloc_files:
  assumes "files_ok c s xs"
  shows "\<exists>t. kalloc c s = Ok (case xs of [] \<Rightarrow> 0 | x # _ \<Rightarrow> x, t) \<and> files_ok c t (tl xs) \<and> pipe t = pipe s \<and> ftab t = ftab s"
proof -
  have k: "kmem_ok c s xs" using assms by (simp add: files_ok_def)
  then have "kalloc c s = Ok (freelist s, (touch c s)\<lparr>freelist := (if freelist s \<noteq> 0 then ld32 (mem s) (freelist s) else 0)\<rparr>)"
    by (intro kalloc_eq) (simp_all add: kmem_ok_def)
  then show ?thesis using kmem_ok_kalloc[OF k] assms by (auto simp: files_ok_def touch_def)
qed

lemma files_ok_page: "files_ok c s (p # ps) \<Longrightarrow> p \<noteq> 0"
  by (auto simp: files_ok_def kmem_ok_def)

lemma pipe_bad_one:
  assumes "files_ok c s xs" "f_ref (ftab s r) = 0" "f_type (ftab s r) = FD_NONE"
  shows "\<exists>t. pipe_bad c (Some r) None (ftable_done c (entry_taken c r s)) = Ok (-1, Some r, None, t) \<and>
     files_ok c t xs \<and> ftab t = ftab s \<and> pipe t = pipe s"
  using fileclose_fresh[of c "ftable_done c (entry_taken c r s)" xs r "ftab s r"] assms by (auto simp: pipe_bad_def)

lemma pipe_bad_two:
  assumes "files_ok c s xs" "files_ok c s' xs" "pipe s' = pipe s" "r \<noteq> w"
    "ftab s' = (ftab s)(r := (ftab s r)\<lparr>f_ref := 1\<rparr>, w := (ftab s w)\<lparr>f_ref := 1\<rparr>)"
    "f_ref (ftab s r) = 0" "f_type (ftab s r) = FD_NONE" "f_ref (ftab s w) = 0" "f_type (ftab s w) = FD_NONE"
  shows "\<exists>t. pipe_bad c (Some r) (Some w) s' = Ok (-1, Some r, Some w, t) \<and> files_ok c t xs \<and> ftab t = ftab s \<and> pipe t = pipe s"
proof -
  obtain u where u: "fileclose c r s' = Ok u" "files_ok c u xs" "pipe u = pipe s'" "ftab u = (ftab s')(r := ftab s r)"
    using fileclose_fresh[OF assms(2), of r "ftab s r"] assms(4-7) by auto
  obtain t where t: "fileclose c w u = Ok t" "files_ok c t xs" "pipe t = pipe u" "ftab t = (ftab u)(w := ftab s w)"
    using fileclose_fresh[OF u(2), of w "ftab s w"] u(4) assms(4,5,8,9) by auto
  have "ftab t = ftab s" using t(4) u(4) assms(5) by (auto simp: fun_eq_iff)
  then show ?thesis using u t assms(3) by (simp add: pipe_bad_def)
qed

text \<open>The two entries and the pipe of a successful call.\<close>

definition pipe_made :: "nat \<Rightarrow> nat \<Rightarrow> uint \<Rightarrow> 'a file_st_scheme \<Rightarrow> 'a file_st_scheme" where
  "pipe_made r w p s =
     fupd w (\<lambda>x. x\<lparr>f_type := FD_PIPE, f_readable := False, f_writable := True, f_pipe := p\<rparr>)
       (fupd r (\<lambda>x. x\<lparr>f_type := FD_PIPE, f_readable := True, f_writable := False, f_pipe := p\<rparr>)
         (pipeupd p (\<lambda>x. x\<lparr>readopen := True, writeopen := True, nwrite := 0, nread := 0, p_lock := initlock ''pipe''\<rparr>) s))"

lemma pipe_made_ends:
  assumes "ftab t = (ftab s)(r := (ftab s r)\<lparr>f_ref := 1\<rparr>, w := (ftab s w)\<lparr>f_ref := 1\<rparr>)" "r \<noteq> w"
  shows "ftab (pipe_made r w p t) = (ftab s)
            (r := (ftab s r)\<lparr>f_ref := 1, f_type := FD_PIPE, f_readable := True, f_writable := False, f_pipe := p\<rparr>,
             w := (ftab s w)\<lparr>f_ref := 1, f_type := FD_PIPE, f_readable := False, f_writable := True, f_pipe := p\<rparr>)"
    "free_entries (pipe_made r w p t) = free_entries (entry_taken c w (entry_taken c r s))"
  using assms by (auto simp: pipe_made_def fupd_def fun_eq_iff intro!: free_entries_cong)

lemma pipe_made_pipe:
  "files_ok c (pipe_made r w p t) xs = files_ok c t xs" "q \<noteq> p \<Longrightarrow> pipe (pipe_made r w p t) q = pipe t q"
  "pipe_rep (pipe (pipe_made r w p t) p) []" "readopen (pipe (pipe_made r w p t) p)" "writeopen (pipe (pipe_made r w p t) p)"
  "free_lock (p_lock (pipe (pipe_made r w p t) p))"
  by (simp_all add: pipe_made_def pipe_rep_def)

text \<open>
  C29: \<open>pipealloc\<close> is all or nothing.  With two free entries in the file table and a free page it
  takes the first two entries and the first page, makes the entries the read and the write end
  of an empty pipe on that page, and changes no other entry; when an entry or the page is
  missing it returns \<open>-1\<close> with the file table, the pipes and the free list as they were.  Entries
  without references have the type \<open>FD_NONE\<close>, as \<open>fileclose\<close> leaves them.
\<close>

theorem pipealloc_all_or_nothing:
  assumes "files_ok c s xs" "\<And>f. f_ref (ftab s f) = 0 \<Longrightarrow> f_type (ftab s f) = FD_NONE"
  shows "case (free_entries s, xs) of
      (r # w # fs, p # ps) \<Rightarrow>
        r \<noteq> w \<and> (\<exists>t. pipealloc c s = Ok (0, Some r, Some w, t) \<and> files_ok c t ps \<and> free_entries t = fs \<and>
          ftab t = (ftab s)
            (r := (ftab s r)\<lparr>f_ref := 1, f_type := FD_PIPE, f_readable := True, f_writable := False, f_pipe := p\<rparr>,
             w := (ftab s w)\<lparr>f_ref := 1, f_type := FD_PIPE, f_readable := False, f_writable := True, f_pipe := p\<rparr>) \<and>
          pipe_rep (pipe t p) [] \<and> readopen (pipe t p) \<and> writeopen (pipe t p) \<and> free_lock (p_lock (pipe t p)) \<and>
          (\<forall>q. q \<noteq> p \<longrightarrow> pipe t q = pipe s q))
    | _ \<Rightarrow> \<exists>f0 f1 t. pipealloc c s = Ok (-1, f0, f1, t) \<and> files_ok c t xs \<and> ftab t = ftab s \<and> pipe t = pipe s"
proof -
  note first = filealloc_first[OF assms(1)]
  show ?thesis
  proof (cases "free_entries s")
    case Nil
    then show ?thesis using first assms(1) by (simp add: pipealloc_def pipe_bad_def)
  next
    case (Cons r ws)
    note r = free_entries_rest[OF Cons]
    have ok: "files_ok c (entry_taken c r s) xs" using assms(1) by simp
    note second = filealloc_first[OF ok, unfolded r(1)]
    show ?thesis
    proof (cases ws)
      case Nil
      then show ?thesis using first second Cons pipe_bad_one[OF assms(1) r(2) assms(2)[OF r(2)]]
        by (simp add: pipealloc_def) blast
    next
      case w: (Cons w fs)
      let ?u = "entry_taken c w (entry_taken c r s)"
      have rw: "r \<noteq> w" using r(3) w by simp
      note e = free_entries_rest[OF r(1)[unfolded w]]
      have fw: "f_ref (ftab s w) = 0" using e(2) rw by simp
      have uok: "files_ok c ?u xs" using assms(1) by simp
      obtain t where k: "kalloc c ?u = Ok (case xs of [] \<Rightarrow> 0 | x # _ \<Rightarrow> x, t)" "files_ok c t (tl xs)" "pipe t = pipe s"
          "ftab t = (ftab s)(r := (ftab s r)\<lparr>f_ref := 1\<rparr>, w := (ftab s w)\<lparr>f_ref := 1\<rparr>)"
        using kalloc_files[OF uok] rw by auto
      show ?thesis
      proof (cases xs)
        case Nil
        then obtain b where "pipe_bad c (Some r) (Some w) t = Ok (-1, Some r, Some w, b)" "files_ok c b xs" "ftab b = ftab s" "pipe b = pipe s"
          using pipe_bad_two[OF assms(1) _ k(3) rw k(4) r(2) assms(2)[OF r(2)] fw assms(2)[OF fw]] k(2) by auto
        then show ?thesis using first second Cons w k(1) Nil by (simp add: pipealloc_def)
      next
        case p: (Cons p ps)
        then have "p \<noteq> 0" using files_ok_page assms(1) by blast
        then have "pipealloc c s = Ok (0, Some r, Some w, pipe_made r w p t)"
          using first second Cons w p k(1) by (simp add: pipealloc_def Let_def pipe_made_def)
        then show ?thesis using Cons w p k rw e(1) pipe_made_ends[OF k(4) rw] by (simp add: pipe_made_pipe)
      qed
    qed
  qed
qed

text \<open>A table whose entry 0 is in use, with one free page and with none.\<close>

definition demo_files :: "uint \<Rightarrow> sys_st" where
  "demo_files p = demo_sys\<lparr>freelist := p, ftab := (\<lambda>_. demo_file)(0 := demo_file\<lparr>f_ref := 1\<rparr>)\<rparr>"

lemma demo_files_ok: "files_ok 0 (demo_files 0x80400000) [0x80400000]" "files_ok 0 (demo_files 0) []"
proof -
  have "ld32 (mem (demo_files p)) q = 0" "end_sym (demo_files p) = 0x80120000" for p q
    by (simp_all add: demo_files_def demo_sys_def ld32_def One_nat_def)
  moreover have "cpu_ok (cpus (demo_files p) 0)" "free_lock (ftable_lock (demo_files p))" "free_lock (kmem_lock (demo_files p))"
      "freelist (demo_files p) = p" for p
    by (simp_all add: demo_files_def demo_sys_def demo_cpu0)
  moreover have "kpage 0x80120000 0x80400000" by (simp add: demo_kpage page_aligned_def One_nat_def)
  ultimately show "files_ok 0 (demo_files 0x80400000) [0x80400000]" "files_ok 0 (demo_files 0) []"
    by (simp_all add: files_ok_def kmem_ok_def)
qed

lemma demo_files_free: "free_entries (demo_files p) = 1 # 2 # [3..<NFILE]"
proof -
  have "[0..<NFILE] = 0 # 1 # 2 # [3..<NFILE]" by (simp add: NFILE_def upt_conv_Cons)
  moreover have "filter (\<lambda>f. f_ref (ftab (demo_files p) f) = 0) [3..<NFILE] = [3..<NFILE]"
    by (auto simp: filter_id_conv demo_files_def demo_file_def)
  ultimately show ?thesis by (simp add: free_entries_def) (simp add: demo_files_def demo_file_def)
qed

theorem pipealloc_all_or_nothing_witness:
  "(\<exists>t. pipealloc 0 (demo_files 0x80400000) = Ok (0, Some 1, Some 2, t) \<and> files_ok 0 t [] \<and> pipe_rep (pipe t 0x80400000) [] \<and>
      f_writable (ftab t 2) \<and> \<not> f_writable (ftab t 1)) \<and>
   (\<exists>f0 f1 t. pipealloc 0 (demo_files 0) = Ok (-1, f0, f1, t) \<and> ftab t = ftab (demo_files 0))"
proof -
  have "f_ref (ftab (demo_files p) f) = 0 \<Longrightarrow> f_type (ftab (demo_files p) f) = FD_NONE" for p f
    by (simp add: demo_files_def demo_file_def split: if_splits)
  then show ?thesis
    using pipealloc_all_or_nothing[OF demo_files_ok(1)] pipealloc_all_or_nothing[OF demo_files_ok(2)]
    unfolding demo_files_free by fastforce
qed

end
