(* ===== verification/Fs_Thms.thy ===== *)
theory Fs_Thms
  imports Fs Tx
begin

unbundle bit_operations_syntax

declare One_nat_def [simp]

text \<open>
  The block allocator inside a transaction.  The bitmap is read through the buffer cache,
  as the file system sees it; \<open>balloc\<close> takes the first free block, marks it and zeroes it.
\<close>

section \<open>What a transaction leaves alone\<close>

lemma lframe_fs:
  fixes s t :: "'a fs_st_scheme"
  assumes "lframe s t"
  shows "fsb t = fsb s" "icache_lock t = icache_lock s" "inode t = inode s" "fs_st.more t = fs_st.more s"
  using arg_cong[OF assms[unfolded lframe_def], of fsb] arg_cong[OF assms[unfolded lframe_def], of icache_lock]
    arg_cong[OF assms[unfolded lframe_def], of inode] arg_cong[OF assms[unfolded lframe_def], of fs_st.more]
  by (simp_all add: bview_def)

lemma iupd_simps [simp]:
  "inode (iupd i f s) i = f (inode s i)" "j \<noteq> i \<Longrightarrow> inode (iupd i f s) j = inode s j" "fsb (iupd i f s) = fsb s"
  "buf (iupd i f s) = buf s" "babs (iupd i f s) = babs s" "tcap (iupd i f s) = tcap s"
  by (simp_all add: iupd_def tcap_def babs_def bcores_def[abs_def])

lemma calm_iupd [simp]: "calm c u (iupd i f s) = calm c u s"
  by (rule iffI; erule calm_cong; simp add: iupd_def)

lemma binv_iupd [simp]: "binv c u (iupd i f s) = binv c u s"
  by (rule binv_cong) (simp, simp_all add: iupd_def)

lemma txinv_iupd [simp]: "txinv c u R (iupd i f s) = txinv c u R s"
proof -
  have "linv c u (iupd i f s) = linv c u s" by (rule linv_cong) (simp, simp, simp_all add: iupd_def)
  then show ?thesis by (simp add: txinv_def lregion_def iupd_def)
qed

section \<open>bzero\<close>

lemma bzero_ok:
  fixes s :: "'a log_st_scheme"
  assumes "txinv c u R s" "n < FSSIZE" "ac_held (babs s) n = None" "n \<in> ac_pin (babs s) \<or> card (ac_busy (babs s)) < NBUF"
    and "n \<notin> R" "0 < tcap s"
  shows "\<exists>t. bzero c ROOTDEV n s = Ok t \<and> txinv c u R t \<and> lframe s t \<and>
    babs t = ac_mark n (ac_set n (replicate BSIZE 0) (babs s)) \<and> tcap t = (if n \<in> ac_pin (babs s) then tcap s else tcap s - 1)"
  using tx.edit[OF assms, of "\<lambda>_. replicate BSIZE 0"] by (auto simp: bzero_def)

section \<open>The bitmap\<close>

definition bit_used :: "byte list \<Rightarrow> nat \<Rightarrow> bool" where
  "bit_used d k \<longleftrightarrow> d ! (k div 8) AND bit_mask k \<noteq> 0"

definition set_bit_of :: "byte list \<Rightarrow> nat \<Rightarrow> byte list" where
  "set_bit_of d k = d[k div 8 := d ! (k div 8) OR bit_mask k]"

definition clear_bit_of :: "byte list \<Rightarrow> nat \<Rightarrow> byte list" where
  "clear_bit_of d k = d[k div 8 := d ! (k div 8) AND NOT (bit_mask k)]"

lemma bit_bit_mask: "bit (bit_mask k) i \<longleftrightarrow> i = k mod 8"
proof -
  define r where "r = k mod 8"
  have "r < 8" by (simp add: r_def)
  moreover have "bit (1 :: byte) j \<longleftrightarrow> j = 0" for j by (simp add: bit_1_iff)
  ultimately have "bit (push_bit r (1 :: byte)) i \<longleftrightarrow> i = r" by (auto simp: bit_simps)
  then show ?thesis by (simp add: bit_mask_def r_def)
qed

lemma bit_used_iff: "bit_used d k \<longleftrightarrow> bit (d ! (k div 8)) (k mod 8)"
proof -
  have "x AND m = 0 \<longleftrightarrow> (\<forall>i. \<not> (bit x i \<and> bit m i))" for x m :: byte
  proof -
    have "bit x i \<Longrightarrow> i < 8" for i using bit_imp_le_length[of x i] by simp
    then show ?thesis by (subst bit_eq_iff) (auto simp: bit_and_iff)
  qed
  then show ?thesis by (simp add: bit_used_def bit_bit_mask)
qed

lemma bit_used_set:
  assumes "k div 8 < length d"
  shows "bit_used (set_bit_of d k) j \<longleftrightarrow> j = k \<or> bit_used d j"
proof (cases "j div 8 = k div 8")
  case True
  then have "j mod 8 = k mod 8 \<longleftrightarrow> j = k" by (metis div_mult_mod_eq)
  then show ?thesis using True assms by (auto simp: bit_used_iff set_bit_of_def bit_or_iff bit_bit_mask)
qed (auto simp: bit_used_iff set_bit_of_def)

lemma bit_used_clear:
  assumes "k div 8 < length d"
  shows "bit_used (clear_bit_of d k) j \<longleftrightarrow> j \<noteq> k \<and> bit_used d j"
proof (cases "j div 8 = k div 8")
  case True
  then have "j mod 8 = k mod 8 \<longleftrightarrow> j = k" by (metis div_mult_mod_eq)
  moreover have "j mod 8 < 8" by simp
  ultimately show ?thesis using True assms
    by (auto simp: bit_used_iff clear_bit_of_def bit_and_iff bit_not_iff bit_bit_mask)
qed (auto simp: bit_used_iff clear_bit_of_def)

lemma clear_set_bit:
  assumes "\<not> bit_used d k" "k div 8 < length d"
  shows "clear_bit_of (set_bit_of d k) k = d"
proof -
  let ?b = "d ! (k div 8)"
  have "\<not> bit ?b (k mod 8)" using assms(1) by (simp add: bit_used_iff)
  then have "(?b OR bit_mask k) AND NOT (bit_mask k) = ?b"
    by (intro bit_word_eqI) (auto simp: bit_simps bit_bit_mask)
  then show ?thesis using assms(2) by (simp add: clear_bit_of_def set_bit_of_def)
qed

lemma length_bits [simp]: "length (set_bit_of d k) = length d" "length (clear_bit_of d k) = length d"
  by (simp_all add: set_bit_of_def clear_bit_of_def)

section \<open>balloc\<close>

text \<open>
  The layout the allocator relies on: one bitmap block, outside the log, and every block of
  the log and the bitmap block itself marked as used.
\<close>

definition bmap_block :: "'a fs_st_scheme \<Rightarrow> uint" where
  "bmap_block s = sb_bmapstart (fsb s)"

definition bitmap :: "'a fs_st_scheme \<Rightarrow> byte list" where
  "bitmap s = ac_view (babs s) (bmap_block s)"

definition layout :: "uint set \<Rightarrow> 'a fs_st_scheme \<Rightarrow> bool" where
  "layout R s \<longleftrightarrow> 0 < unat (sb_size (fsb s)) \<and> sb_size (fsb s) \<le> FSSIZE \<and> bmap_block s < FSSIZE \<and> bmap_block s \<notin> R \<and>
     (\<forall>b < sb_size (fsb s). \<not> bit_used (bitmap s) (unat b) \<longrightarrow> b \<notin> R \<and> b \<noteq> bmap_block s)"

text \<open>The first free block.\<close>

definition first_free :: "'a fs_st_scheme \<Rightarrow> nat \<Rightarrow> bool" where
  "first_free s k \<longleftrightarrow> k < unat (sb_size (fsb s)) \<and> \<not> bit_used (bitmap s) k \<and> (\<forall>j < k. bit_used (bitmap s) j)"

lemma first_free_outside:
  assumes "layout R s" "first_free s k"
  shows "(of_nat k :: uint) \<notin> R \<and> of_nat k \<noteq> bmap_block s"
proof -
  have n: "k < unat (sb_size (fsb s))" "\<not> bit_used (bitmap s) k" using assms(2) by (simp_all add: first_free_def)
  have "unat (of_nat k :: uint) = k" using n(1) unat_uint_less[of "sb_size (fsb s)"] by (simp add: unat_of_nat_uint)
  then show ?thesis using assms(1) n by (auto simp: layout_def word_less_nat_alt)
qed

lemma layout_one_block:
  assumes "layout R s"
  shows "bmap_starts (sb_size (fsb s)) = [0]" "BBLOCK 0 (fsb s) = bmap_block s"
    "min BPB (unat (sb_size (fsb s))) = unat (sb_size (fsb s))" "unat (sb_size (fsb s)) \<le> 2000"
proof -
  let ?n = "unat (sb_size (fsb s))"
  show n: "?n \<le> 2000" using assms by (simp add: layout_def FSSIZE_def word_le_nat_alt)
  have "0 < ?n" using assms by (simp add: layout_def)
  then have "(?n + BPB - 1) div BPB = 1" using n by (simp add: BPB_def BSIZE_def div_nat_eqI)
  then show "bmap_starts (sb_size (fsb s)) = [0]" by (simp add: bmap_starts_def)
  show "BBLOCK 0 (fsb s) = bmap_block s" by (simp add: BBLOCK_def bmap_block_def)
  show "min BPB ?n = ?n" using n by (simp add: BPB_def BSIZE_def)
qed

lemma for_each_skip: "(\<And>i. i \<in> set xs \<Longrightarrow> f i s = Ok (None, s)) \<Longrightarrow> for_each f xs s = Ok (None, s)"
  by (induction xs) simp_all

lemma upt_split: "k < n \<Longrightarrow> [0..<n] = [0..<k] @ k # [Suc k..<n]"
  using upt_add_eq_append[of 0 k "n - k"] by (simp add: upt_conv_Cons)

lemma balloc_ok:
  assumes tx: "txinv c u R s" and lay: "layout R s" and k: "first_free s k"
    and held: "ac_held (babs s) (bmap_block s) = None" "ac_held (babs s) (of_nat k) = None"
    and cap: "finite (dom (ac_held (babs s)))" "card (dom (ac_held (babs s))) + 2 \<le> tcap s"
  shows "\<exists>t. balloc c ROOTDEV s = Ok (of_nat k, t) \<and> txinv c u R t \<and> lframe s t \<and> tcap s \<le> tcap t + 2 \<and>
    babs t = ac_mark (of_nat k) (ac_set (of_nat k) (replicate BSIZE 0)
               (ac_mark (bmap_block s) (ac_set (bmap_block s) (set_bit_of (bitmap s) k) (babs s))))"
proof -
  let ?bb = "bmap_block s" and ?n = "unat (sb_size (fsb s))" and ?A = "babs s"
  note one = layout_one_block[OF lay]
  have kn: "k < ?n" "k < 2000" using k one(4) by (auto simp: first_free_def)
  then have uk: "unat (of_nat k :: uint) = k" by (simp add: unat_of_nat_uint)
  have kb: "(of_nat k :: uint) \<notin> R" "of_nat k \<noteq> ?bb" "(of_nat k :: uint) < FSSIZE" "?bb < FSSIZE" "?bb \<notin> R"
    using lay k uk kn by (auto simp: layout_def first_free_def word_less_nat_alt FSSIZE_def)
  have "card (dom (ac_held ?A)) \<le> tcap s" using cap(2) by simp
  then have busy: "card (ac_busy ?A) < NBUF" using tx.room[OF tx cap(1)] by blast
  obtain bp s1 where s1: "bread c ROOTDEV ?bb s = Ok (bp, s1)" "txinv c u R s1" "lframe s s1" "babs s1 = ac_read ?bb bp ?A"
      "tcap s1 = tcap s" "b_data (buf s1 bp) = bitmap s" "ac_held (babs s1) ?bb = Some bp"
    using tx.look[OF tx kb(4) held(1)] busy by (auto simp: bitmap_def)
  have len: "length (bitmap s) = BSIZE" using tx.sized[OF tx] by (simp add: bitmap_def)
  let ?d = "set_bit_of (bitmap s) k"
  obtain s2 s3 where e: "log_write c bp (set_data bp ?d s1) = Ok s2" "brelse c bp s2 = Ok s3" "txinv c u R s3" "lframe s1 s3"
      "babs s3 = ac_release ?bb (ac_mark ?bb (ac_set ?bb ?d (babs s1)))"
      "tcap s3 = (if ?bb \<in> ac_pin (babs s1) then tcap s1 else tcap s1 - 1)"
    using tx.edit_held[OF s1(2,7) kb(5), of ?d] cap(2) s1(5) len by auto
  have a3: "babs s3 = ac_mark ?bb (ac_set ?bb ?d ?A)"
    using held(1) by (simp add: e(5) s1(4) ac_release_def ac_read_def ac_mark_def ac_set_def fun_upd_idem)
  have c3: "tcap s \<le> tcap s3 + 1" using e(6) s1(5) by auto
  have h3: "ac_held (babs s3) = ac_held ?A" by (simp add: a3 ac_mark_def ac_set_def)
  have busy3: "card (ac_busy (babs s3)) < NBUF" using tx.room[OF e(3)] cap c3 unfolding h3 by linarith
  obtain t where t: "bzero c ROOTDEV (of_nat k) s3 = Ok t" "txinv c u R t" "lframe s3 t"
      "babs t = ac_mark (of_nat k) (ac_set (of_nat k) (replicate BSIZE 0) (babs s3))"
      "tcap t = (if of_nat k \<in> ac_pin (babs s3) then tcap s3 else tcap s3 - 1)"
    using bzero_ok[OF e(3) kb(3) _ _ kb(1)] busy3 held(2) c3 cap(2) unfolding h3 by auto
  have free: "\<not> bit_used (bitmap s) k" "\<And>j. j < k \<Longrightarrow> bit_used (bitmap s) j" using k by (simp_all add: first_free_def)
  have body: "balloc_body c ROOTDEV 0 bp k s1 = Ok (Some (of_nat k), t)"
    using free(1) e(1,2) t(1) by (simp add: balloc_body_def Let_def s1(6) bit_used_def set_bit_of_def)
  have skip: "for_each (balloc_body c ROOTDEV 0 bp) [0..<k] s1 = Ok (None, s1)"
    using free(2) by (intro for_each_skip) (simp add: balloc_body_def Let_def s1(6) bit_used_def)
  have "[0..<?n] = [0..<k] @ k # [Suc k..<?n]" by (rule upt_split[OF kn(1)])
  then have "for_each (balloc_body c ROOTDEV 0 bp) [0..<?n] s1 = Ok (Some (of_nat k), t)"
    using body skip by (simp add: for_each_append)
  then have "balloc c ROOTDEV s = Ok (of_nat k, t)"
    using s1(1) by (simp add: balloc_def balloc_block_def one)
  moreover have "lframe s t" using s1(3) e(4) t(3) lframe_trans by blast
  moreover have "tcap s \<le> tcap t + 2" using c3 t(5) by auto
  ultimately show ?thesis using t(2,4) a3 by auto
qed

lemma balloc_full:
  assumes tx: "txinv c u R s" and lay: "layout R s" and full: "\<And>j. j < unat (sb_size (fsb s)) \<Longrightarrow> bit_used (bitmap s) j"
    and held: "ac_held (babs s) (bmap_block s) = None"
    and cap: "finite (dom (ac_held (babs s)))" "card (dom (ac_held (babs s))) \<le> tcap s"
  shows "balloc c ROOTDEV s = Panic ''balloc: out of blocks''"
proof -
  let ?bb = "bmap_block s" and ?n = "unat (sb_size (fsb s))"
  note one = layout_one_block[OF lay]
  have bb: "?bb < FSSIZE" using lay by (simp add: layout_def)
  have busy: "card (ac_busy (babs s)) < NBUF" using tx.room[OF tx cap] .
  obtain bp s1 s2 where s1: "bread c ROOTDEV ?bb s = Ok (bp, s1)" "b_data (buf s1 bp) = bitmap s" "brelse c bp s1 = Ok s2"
    using tx.read_released[OF tx bb held] busy by (auto simp: bitmap_def)
  have "for_each (balloc_body c ROOTDEV 0 bp) [0..<?n] s1 = Ok (None, s1)"
    using full by (intro for_each_skip) (simp add: balloc_body_def Let_def s1(2) bit_used_def)
  then show ?thesis using s1 by (simp add: balloc_def balloc_block_def one)
qed

section \<open>bfree\<close>

lemma readsb_ok:
  fixes s :: "'a fs_st_scheme"
  assumes "txinv c u R s" "ac_held (babs s) 1 = None" "card (ac_busy (babs s)) < NBUF"
  shows "\<exists>t. readsb c ROOTDEV s = Ok (sb_of (ac_view (babs s) 1), t) \<and> txinv c u R t \<and> lframe s t \<and> babs t = babs s \<and> tcap t = tcap s"
proof -
  have "(1 :: uint) < FSSIZE" by (simp add: FSSIZE_def)
  from tx.read_released[OF assms(1) this assms(2)] assms(3) obtain b s1 s2 where
    "bread c ROOTDEV 1 s = Ok (b, s1)" "b_data (buf s1 b) = ac_view (babs s) 1" "brelse c b s1 = Ok s2"
    "txinv c u R s2" "lframe s s2" "babs s2 = babs s" "tcap s2 = tcap s" by blast
  then show ?thesis by (auto simp: readsb_def)
qed

lemma bfree_ok:
  fixes s :: "'a fs_st_scheme"
  assumes tx: "txinv c u R s" and lay: "layout R s" and sb: "sb_of (ac_view (babs s) 1) = fsb s"
    and b: "b < sb_size (fsb s)"
    and held: "ac_held (babs s) (bmap_block s) = None" "ac_held (babs s) 1 = None"
    and cap: "finite (dom (ac_held (babs s)))" "card (dom (ac_held (babs s))) < tcap s"
  shows "if bit_used (bitmap s) (unat b)
    then \<exists>t. bfree c ROOTDEV b s = Ok t \<and> txinv c u R t \<and> lframe s t \<and> tcap s \<le> tcap t + 1 \<and>
      babs t = ac_mark (bmap_block s) (ac_set (bmap_block s) (clear_bit_of (bitmap s) (unat b)) (babs s))
    else bfree c ROOTDEV b s = Panic ''freeing free block''"
proof -
  let ?bb = "bmap_block s" and ?A = "babs s"
  have "card (dom (ac_held ?A)) \<le> tcap s" using cap(2) by simp
  then have busy: "card (ac_busy ?A) < NBUF" using tx.room[OF tx cap(1)] by blast
  obtain s0 where s0: "readsb c ROOTDEV s = Ok (fsb s, s0)" "txinv c u R s0" "lframe s s0" "babs s0 = ?A" "tcap s0 = tcap s"
    using readsb_ok[OF tx held(2) busy] sb by auto
  have f0: "s0\<lparr>fsb := fsb s\<rparr> = s0" using lframe_fs(1)[OF s0(3)] by simp
  have bb: "?bb < FSSIZE" "?bb \<notin> R" using lay by (auto simp: layout_def)
  have n: "unat b < 2000" using layout_one_block(4)[OF lay] b by (simp add: word_less_nat_alt)
  have bl: "BBLOCK b (fsb s) = ?bb" "unat (b mod of_nat BPB) = unat b"
  proof -
    have "b div 4096 = 0" "b mod 4096 = b" using n by (simp_all add: word_unat_eq_iff unat_div unat_mod)
    then show "BBLOCK b (fsb s) = ?bb" "unat (b mod of_nat BPB) = unat b"
      by (simp_all add: BBLOCK_def bmap_block_def BPB_def BSIZE_def)
  qed
  obtain bp s1 where s1: "bread c ROOTDEV ?bb s0 = Ok (bp, s1)" "txinv c u R s1" "lframe s0 s1" "babs s1 = ac_read ?bb bp ?A"
      "tcap s1 = tcap s" "b_data (buf s1 bp) = bitmap s" "ac_held (babs s1) ?bb = Some bp"
    using tx.look[OF s0(2) bb(1)] busy held(1) by (auto simp: bitmap_def s0(4,5))
  have len: "length (bitmap s) = BSIZE" using tx.sized[OF tx] by (simp add: bitmap_def)
  let ?d = "clear_bit_of (bitmap s) (unat b)"
  obtain s2 s3 where e: "log_write c bp (set_data bp ?d s1) = Ok s2" "brelse c bp s2 = Ok s3" "txinv c u R s3" "lframe s1 s3"
      "babs s3 = ac_release ?bb (ac_mark ?bb (ac_set ?bb ?d (babs s1)))"
      "tcap s3 = (if ?bb \<in> ac_pin (babs s1) then tcap s1 else tcap s1 - 1)"
    using tx.edit_held[OF s1(2,7) bb(2), of ?d] cap(2) s1(5) len by auto
  have a3: "babs s3 = ac_mark ?bb (ac_set ?bb ?d ?A)"
    using held(1) by (simp add: e(5) s1(4) ac_release_def ac_read_def ac_mark_def ac_set_def fun_upd_idem)
  have "lframe s s3" using s0(3) s1(3) e(4) lframe_trans by blast
  moreover have "tcap s \<le> tcap s3 + 1" using e(6) s1(5) by auto
  ultimately show ?thesis using s0(1) f0 bl s1(1,6) e(1-3) a3
    by (simp add: bfree_def Let_def bit_used_def clear_bit_of_def)
qed

end
