(* ===== verification/Inode_Thms.thy ===== *)
theory Inode_Thms
  imports Fs_Thms Dir
begin

unbundle bit_operations_syntax

text \<open>
  The content of an inode as the file system sees it, and \<open>readi\<close> and \<open>writei\<close> against it.
\<close>

section \<open>Content\<close>

definition baddr :: "acache \<Rightarrow> inode \<Rightarrow> nat \<Rightarrow> uint" where
  "baddr A x bn = (if bn < NDIRECT then i_addrs x bn else ldw (ac_view A (i_addrs x NDIRECT)) (4 * (bn - NDIRECT)))"

definition fbyte :: "acache \<Rightarrow> inode \<Rightarrow> nat \<Rightarrow> byte" where
  "fbyte A x i = ac_view A (baddr A x (i div BSIZE)) ! (i mod BSIZE)"

definition content :: "acache \<Rightarrow> inode \<Rightarrow> byte list" where
  "content A x = map (fbyte A x) [0..<unat (i_size x)]"

text \<open>A block of the file system that nobody holds.\<close>

definition at_rest :: "acache \<Rightarrow> uint \<Rightarrow> bool" where
  "at_rest A a \<longleftrightarrow> a \<noteq> 0 \<and> a < FSSIZE \<and> ac_held A a = None"

text \<open>The first \<open>n\<close> blocks of the file are allocated.\<close>

definition mapped_to :: "acache \<Rightarrow> inode \<Rightarrow> nat \<Rightarrow> bool" where
  "mapped_to A x n \<longleftrightarrow> i_dev x = ROOTDEV \<and> n \<le> MAXFILE \<and> (\<forall>bn < n. at_rest A (baddr A x bn)) \<and>
     (NDIRECT < n \<longrightarrow> at_rest A (i_addrs x NDIRECT))"

lemma size_facts: "NDIRECT = 12" "MAXFILE = 140" "NINDIRECT = 128" "BSIZE = 512"
  by (simp_all add: NDIRECT_def MAXFILE_def NINDIRECT_def BSIZE_def)

section \<open>bmap of an allocated block\<close>

lemma bmap_mapped:
  fixes s :: "'a fs_st_scheme"
  assumes inv: "binv c u s" and m: "mapped_to (babs s) (inode s ip) n" "bn < n" "unat w = bn"
    and busy: "card (ac_busy (babs s)) < NBUF"
  shows "\<exists>t. bmap c ip w s = Ok (baddr (babs s) (inode s ip) bn, t) \<and> binv c u t \<and> bframe s t \<and> babs t = babs s"
proof (cases "bn < NDIRECT")
  case True
  then have "i_addrs (inode s ip) bn \<noteq> 0" using m by (auto simp: mapped_to_def at_rest_def baddr_def)
  then show ?thesis using True m(3) inv bframe_refl by (auto simp: bmap_def baddr_def)
next
  case False
  let ?ia = "i_addrs (inode s ip) NDIRECT"
  have ia: "?ia \<noteq> 0" "?ia < FSSIZE" "ac_held (babs s) ?ia = None" "i_dev (inode s ip) = ROOTDEV"
    and a: "baddr (babs s) (inode s ip) bn \<noteq> 0" and r: "bn - NDIRECT < NINDIRECT"
    using m False by (auto simp: mapped_to_def at_rest_def size_facts)
  obtain b s1 s2 where p: "bread c ROOTDEV ?ia s = Ok (b, s1)" "b_data (buf s1 b) = ac_view (babs s) ?ia" "brelse c b s1 = Ok s2"
      "binv c u s2" "bframe s s2" "babs s2 = babs s"
    using bc.peek[OF inv ia(2,3)] busy by blast
  have "ldw (b_data (buf s1 b)) (4 * (bn - NDIRECT)) = baddr (babs s) (inode s ip) bn"
    using False by (simp add: p(2) baddr_def)
  then show ?thesis using False r ia a p m(3) by (auto simp: bmap_def Let_def)
qed

section \<open>readi\<close>

lemma length_content [simp]: "length (content A x) = unat (i_size x)"
  by (simp add: content_def)

lemma within_block:
  fixes i j b :: nat
  assumes "i mod b + j < b"
  shows "(i + j) div b = i div b" "(i + j) mod b = i mod b + j"
proof -
  have e: "i + j = (i mod b + j) + b * (i div b)" by (simp add: algebra_simps)
  show "(i + j) div b = i div b" using assms by (subst e, subst div_mult_self2) auto
  show "(i + j) mod b = i mod b + j" using assms by (subst e, subst mod_mult_self2) simp
qed

lemma content_chunk:
  assumes "i + k \<le> unat (i_size x)" "i mod BSIZE + k \<le> BSIZE" "length (ac_view A (baddr A x (i div BSIZE))) = BSIZE"
  shows "take k (drop (i mod BSIZE) (ac_view A (baddr A x (i div BSIZE)))) = take k (drop i (content A x))"
proof (rule nth_equalityI)
  show "length (take k (drop (i mod BSIZE) (ac_view A (baddr A x (i div BSIZE))))) = length (take k (drop i (content A x)))"
    using assms by simp
next
  fix j assume "j < length (take k (drop (i mod BSIZE) (ac_view A (baddr A x (i div BSIZE)))))"
  then have j: "j < k" by simp
  then have "(i + j) div BSIZE = i div BSIZE" "(i + j) mod BSIZE = i mod BSIZE + j"
    using within_block[of i BSIZE j] assms(2) by simp_all
  then show "take k (drop (i mod BSIZE) (ac_view A (baddr A x (i div BSIZE)))) ! j = take k (drop i (content A x)) ! j"
    using j assms by (simp add: content_def fbyte_def)
qed

lemma bframe_fs:
  fixes s t :: "'a fs_st_scheme"
  assumes "bframe s t"
  shows "fsb t = fsb s" "inode t = inode s" "fs_st.more t = fs_st.more s" "icache_lock t = icache_lock s"
  using lframe_fs[OF lframe_bframe[OF assms]] by simp_all

text \<open>The number of bytes of a step of \<open>readi\<close> or \<open>writei\<close>.\<close>

definition step_len :: "uint \<Rightarrow> uint \<Rightarrow> uint \<Rightarrow> uint" where
  "step_len n tot off = min (n - tot) (of_nat BSIZE - off mod of_nat BSIZE)"

lemma unat_of_nat_BSIZE: "unat (of_nat BSIZE :: uint) = 512"
  by (simp add: BSIZE_def)

lemma step_len:
  assumes "tot < n"
  shows "unat (step_len n tot off) = min (unat n - unat tot) (512 - unat off mod 512)" "0 < unat (step_len n tot off)"
proof -
  have a: "unat (n - tot) = unat n - unat tot" using assms by (simp add: unat_sub less_imp_le)
  have o: "unat (off mod of_nat BSIZE) = unat off mod 512" by (simp only: unat_mod unat_of_nat_BSIZE)
  moreover have "unat off mod 512 < 512" by simp
  ultimately have "off mod of_nat BSIZE \<le> of_nat BSIZE" by (simp only: word_le_nat_alt unat_of_nat_BSIZE less_imp_le)
  then have b: "unat (of_nat BSIZE - off mod of_nat BSIZE) = 512 - unat off mod 512"
    by (simp only: unat_sub o unat_of_nat_BSIZE)
  have m: "unat (min x y) = min (unat x) (unat y)" for x y :: uint by (simp add: min_def word_le_nat_alt)
  show e: "unat (step_len n tot off) = min (unat n - unat tot) (512 - unat off mod 512)"
    by (simp only: step_len_def m a b)
  have "0 < unat n - unat tot" using assms by (simp add: word_less_nat_alt)
  then show "0 < unat (step_len n tot off)" unfolding e by simp
qed

lemma unat_add_le:
  assumes "unat a + unat b < 4294967296"
  shows "unat (a + b :: uint) = unat a + unat b"
  using assms by (simp add: unat_word_ariths)

text \<open>The overflow test \<open>off + n < off\<close>.\<close>

lemma uint_overflow: "(a + b :: uint) < a \<longleftrightarrow> 4294967296 \<le> unat a + unat b"
proof (cases "unat a + unat b < 4294967296")
  case True
  then show ?thesis by (simp add: word_less_nat_alt unat_add_le)
next
  case False
  have "unat a < 4294967296" "unat b < 4294967296" using unat_uint_less[of a] unat_uint_less[of b] by simp_all
  moreover from this False have "unat (a + b) = unat a + unat b - 4294967296" by (simp add: unat_word_ariths mod_if)
  ultimately show ?thesis using False by (simp add: word_less_nat_alt)
qed

text \<open>One step of the loop of \<open>readi\<close>.\<close>

lemma readi_step:
  fixes s :: "'a fs_st_scheme"
  assumes inv: "binv c u s" and busy: "card (ac_busy (babs s)) < NBUF"
    and m: "mapped_to (babs s) (inode s ip) nb" "unat off < 512 * nb" and tot: "tot < n"
    and sz: "unat off + (unat n - unat tot) \<le> unat (i_size (inode s ip))"
  shows "\<exists>t. readi_body c ip n (tot, off, out, s) =
      Ok (Inr (tot + step_len n tot off, off + step_len n tot off,
               out @ take (unat (step_len n tot off)) (drop (unat off) (content (babs s) (inode s ip))), t)) \<and>
    binv c u t \<and> bframe s t \<and> babs t = babs s"
proof -
  let ?x = "inode s ip" and ?A = "babs s" and ?m = "step_len n tot off"
  let ?a = "baddr ?A ?x (unat off div BSIZE)"
  have bn: "unat (off div of_nat BSIZE) = unat off div BSIZE" and bm: "unat (off mod of_nat BSIZE) = unat off mod BSIZE"
    by (simp_all only: unat_div unat_mod unat_of_nat_BSIZE) (simp_all add: BSIZE_def)
  have lt: "unat off div BSIZE < nb" using m(2) by (simp add: BSIZE_def)
  obtain s1 where s1: "bmap c ip (off div of_nat BSIZE) s = Ok (?a, s1)" "binv c u s1" "bframe s s1" "babs s1 = ?A"
    using bmap_mapped[OF inv m(1) lt bn busy] by blast
  have rest: "at_rest ?A ?a" "i_dev ?x = ROOTDEV" using m(1) lt by (auto simp: mapped_to_def)
  obtain b s2 s3 where p: "bread c ROOTDEV ?a s1 = Ok (b, s2)" "b_data (buf s2 b) = ac_view ?A ?a" "brelse c b s2 = Ok s3"
      "binv c u s3" "bframe s1 s3" "babs s3 = ?A"
    using bc.peek[OF s1(2), of ?a] busy rest by (auto simp: s1(4) at_rest_def)
  note ml = step_len[OF tot, of off]
  have "take (unat ?m) (drop (unat off mod BSIZE) (ac_view ?A ?a)) = take (unat ?m) (drop (unat off) (content ?A ?x))"
  proof (rule content_chunk)
    show "unat off + unat ?m \<le> unat (i_size ?x)" using ml sz by simp
    show "unat off mod BSIZE + unat ?m \<le> BSIZE" using ml by (simp add: BSIZE_def)
    show "length (ac_view ?A ?a) = BSIZE" using bc.sized[OF inv] .
  qed
  then have "readi_body c ip n (tot, off, out, s) =
      Ok (Inr (tot + ?m, off + ?m, out @ take (unat ?m) (drop (unat off) (content ?A ?x)), s3))"
    using tot s1(1) p(1-3) rest(2) bframe_fs(2)[OF s1(3)] bm
    by (simp add: readi_body_def Let_def flip: step_len_def)
  then show ?thesis using p(4-6) bframe_trans[OF s1(3) p(5)] by blast
qed

lemma take_add_drop: "take (a + b) xs = take a xs @ take b (drop a xs)"
  by (rule take_add)

lemma readi_loop:
  fixes s :: "'a fs_st_scheme"
  assumes inv: "binv c u s" and busy: "card (ac_busy (babs s)) < NBUF"
    and m: "mapped_to (babs s) (inode s ip) nb" "unat (i_size (inode s ip)) \<le> 512 * nb"
    and sz: "unat off + unat n \<le> unat (i_size (inode s ip))"
  shows "\<exists>t. loop_res (readi_body c ip n) (0, off, [], s) =
      Ok (take (unat n) (drop (unat off) (content (babs s) (inode s ip))), t) \<and> binv c u t \<and> bframe s t \<and> babs t = babs s"
proof -
  let ?C = "content (babs s) (inode s ip)"
  have big: "unat (i_size (inode s ip)) \<le> 71680" using m by (simp add: mapped_to_def size_facts)
  let ?I = "\<lambda>(tot :: uint, o1 :: uint, out, t). unat tot \<le> unat n \<and> unat o1 = unat off + unat tot \<and> out = take (unat tot) (drop (unat off) ?C) \<and>
    binv c u t \<and> bframe s t \<and> babs t = babs s"
  let ?R = "\<lambda>(out, t). out = take (unat n) (drop (unat off) ?C) \<and> binv c u t \<and> bframe s t \<and> babs t = babs s"
  have "\<exists>r. loop_res (readi_body c ip n) (0, off, [], s) = Ok r \<and> ?R r"
  proof (rule loop_res_rule[where I = ?I and M = "\<lambda>(tot, _). unat n - unat tot"])
    show "?I (0, off, [], s)" using inv bframe_refl by simp
  next
    fix z :: "uint \<times> uint \<times> byte list \<times> 'a fs_st_scheme" assume I: "?I z"
    obtain tot o1 out t where z: "z = (tot, o1, out, t)" by (cases z)
    have i: "unat tot \<le> unat n" "unat o1 = unat off + unat tot" "out = take (unat tot) (drop (unat off) ?C)"
      "binv c u t" "bframe s t" "babs t = babs s" using I by (auto simp: z)
    have ino: "inode t = inode s" using bframe_fs(2)[OF i(5)] .
    show "(\<exists>r. readi_body c ip n z = Ok (Inl r) \<and> ?R r) \<or>
      (\<exists>z'. readi_body c ip n z = Ok (Inr z') \<and> ?I z' \<and> (\<lambda>(tot, _). unat n - unat tot) z' < (\<lambda>(tot, _). unat n - unat tot) z)"
    proof (cases "tot < n")
      case False
      then have "unat tot = unat n" using i(1) by (simp add: word_less_nat_alt)
      then show ?thesis using False i by (simp add: z readi_body_def)
    next
      case True
      let ?m = "step_len n tot o1"
      note ml = step_len[OF True, of o1]
      have lt: "unat tot < unat n" using True by (simp add: word_less_nat_alt)
      obtain t' where t': "readi_body c ip n z = Ok (Inr (tot + ?m, o1 + ?m, out @ take (unat ?m) (drop (unat o1) ?C), t'))"
          "binv c u t'" "bframe t t'" "babs t' = babs s"
        using readi_step[OF i(4) _ _ _ True, of ip nb o1 out] busy m sz i(2) lt unfolding z i(6) ino by auto
      have mn: "unat ?m \<le> unat n - unat tot" "0 < unat ?m" unfolding ml(1) using ml by simp_all
      have "unat tot + unat ?m < 4294967296" "unat o1 + unat ?m < 4294967296" using mn(1) sz big i(2) lt by linarith+
      then have w: "unat (tot + ?m) = unat tot + unat ?m" "unat (o1 + ?m) = unat o1 + unat ?m" by (simp_all only: unat_add_le)
      have b: "unat (tot + ?m) \<le> unat n" "unat (o1 + ?m) = unat off + unat (tot + ?m)"
        unfolding w i(2) using mn(1) lt by linarith+
      have "out @ take (unat ?m) (drop (unat o1) ?C) = take (unat (tot + ?m)) (drop (unat off) ?C)"
        unfolding w(1) i(3) by (simp add: take_add i(2) add.commute)
      then have "?I (tot + ?m, o1 + ?m, out @ take (unat ?m) (drop (unat o1) ?C), t')"
        using t'(2,4) b bframe_trans[OF i(5) t'(3)] by (simp only: split)
      moreover have "unat n - unat (tot + ?m) < unat n - unat tot" unfolding w(1) using mn lt by linarith
      ultimately show ?thesis using t'(1) unfolding z by (intro disjI2 exI conjI) (assumption | simp only: split)+
    qed
  qed
  then show ?thesis by auto
qed

lemma readi_ok:
  fixes s :: "'a con_st_scheme"
  assumes inv: "binv c u s" and busy: "card (ac_busy (babs s)) < NBUF" and ty: "i_type (inode s ip) \<noteq> T_DEV"
    and m: "mapped_to (babs s) (inode s ip) nb" "unat (i_size (inode s ip)) \<le> 512 * nb"
  shows "if unat (i_size (inode s ip)) < unat off \<or> 4294967296 \<le> unat off + unat n then readi c ip off n s = Ok (-1, [], s)
    else \<exists>t. readi c ip off n s = Ok (int (min (unat n) (unat (i_size (inode s ip)) - unat off)),
        take (unat n) (drop (unat off) (content (babs s) (inode s ip))), t) \<and> binv c u t \<and> bframe s t \<and> babs t = babs s"
proof -
  let ?x = "inode s ip"
  have big: "unat (i_size ?x) \<le> 71680" using m by (simp add: mapped_to_def size_facts)
  have ov: "off + n < off \<longleftrightarrow> 4294967296 \<le> unat off + unat n" by (rule uint_overflow)
  show ?thesis
  proof (cases "i_size ?x < off \<or> off + n < off")
    case True
    then show ?thesis using ty ov by (auto simp: readi_def Let_def word_less_nat_alt)
  next
    case False
    then have f: "unat off \<le> unat (i_size ?x)" "unat off + unat n < 4294967296" using ov by (auto simp: word_less_nat_alt)
    let ?n = "if off + n > i_size ?x then i_size ?x - off else n"
    have un: "unat ?n = min (unat n) (unat (i_size ?x) - unat off)"
      using f by (auto simp: word_less_nat_alt unat_add_le unat_sub word_le_nat_alt)
    have le: "unat off + unat ?n \<le> unat (i_size ?x)" unfolding un using f(1) by linarith
    obtain t where t: "loop_res (readi_body c ip ?n) (0, off, [], s) =
        Ok (take (unat ?n) (drop (unat off) (content (babs s) ?x)), t)" "binv c u t" "bframe s t" "babs t = babs s"
      using readi_loop[OF inv busy m le] by blast
    have "take (unat ?n) (drop (unat off) (content (babs s) ?x)) = take (unat n) (drop (unat off) (content (babs s) ?x))"
      unfolding un by (simp add: min_def)
    moreover have "int_of ?n = int (unat ?n)" using un big by (intro int_of_small) simp
    ultimately have "readi c ip off n s = Ok (int (min (unat n) (unat (i_size ?x) - unat off)),
        take (unat n) (drop (unat off) (content (babs s) ?x)), t)"
      using t(1) False ty un by (simp add: readi_def Let_def)
    then show ?thesis using f t(2-4) by auto
  qed
qed

end
