(* ===== verification/Dinode_Thms.thy ===== *)
theory Dinode_Thms
  imports Fs Log_Thms
begin

unbundle bit_operations_syntax

text \<open>
  \<open>struct dinode\<close> in a block: what \<open>put_dinode\<close> stores at a slot is what \<open>get_dinode\<close> loads from
  it, and the other slots keep their bytes.
\<close>

section \<open>Half words and words\<close>

definition fits :: "byte list \<Rightarrow> nat \<Rightarrow> nat \<Rightarrow> bool" where
  "fits d i n \<longleftrightarrow> i + n \<le> length d \<and> length d < 2 ^ 32"

lemma as_mem_nth: "fits d i 1 \<Longrightarrow> as_mem d (of_nat i) = d ! i"
  by (simp add: as_mem_def fits_def unat_of_nat_uint)

lemma as_mem_shift:
  assumes "fits d i n" "k < n"
  shows "as_mem d (of_nat i + of_nat k) = d ! (i + k)"
  using as_mem_nth[of d "i + k"] assms by (simp add: fits_def)

lemma ldw_cong:
  assumes "fits d i 4" "fits e i 4" "\<And>j. i \<le> j \<Longrightarrow> j < i + 4 \<Longrightarrow> d ! j = e ! j"
  shows "ldw d i = ldw e i"
  unfolding ldw_def using assms by (intro ld32_cong) (simp add: as_mem_shift)

lemma lds_nth: "fits d i 2 \<Longrightarrow> lds d i = ucast (d ! i) OR push_bit 8 (ucast (d ! (i + 1)))"
  using as_mem_shift[of d i 2 0] as_mem_shift[of d i 2 1] by (simp add: lds_def)

lemma length_sts [simp]: "length (sts d i v) = length d"
  by (simp add: sts_def)

lemma fits_stores [simp]: "fits (sts d i v) = fits d" "fits (stw d i w) = fits d"
  by (simp_all add: fits_def[abs_def])

lemma stw_nth_other:
  assumes "fits d i 4" "j < i \<or> i + 4 \<le> j" "j < length d"
  shows "stw d i v ! j = d ! j"
proof -
  have "fits d j 1" using assms by (simp add: fits_def)
  moreover have "(of_nat j :: uint) \<noteq> of_nat i + of_nat k" if "k < 4" for k
  proof
    assume "(of_nat j :: uint) = of_nat i + of_nat k"
    then have "unat (of_nat j :: uint) = unat (of_nat (i + k) :: uint)" by simp
    then have "j = i + k" using assms that by (simp add: fits_def unat_of_nat_uint del: of_nat_add)
    then show False using assms(2) that by linarith
  qed
  then have "st32 (as_mem d) (of_nat i) v (of_nat j) = as_mem d (of_nat j)" by (rule st32_outside)
  ultimately show ?thesis using assms(3) by (simp add: stw_def as_mem_nth)
qed

lemma sts_nth_other: "j < i \<or> i + 2 \<le> j \<Longrightarrow> sts d i v ! j = d ! j"
  by (auto simp: sts_def)

lemma lds_sts_same [simp]: "fits d i 2 \<Longrightarrow> lds (sts d i v) i = v"
proof -
  assume "fits d i 2"
  then have "lds (sts d i v) i = ucast (ucast v :: byte) OR push_bit 8 (ucast (ucast (drop_bit 8 v) :: byte))"
    by (simp add: lds_nth) (simp add: sts_def fits_def)
  also have "\<dots> = v"
    by (rule bit_word_eqI) (auto simp: bit_or_iff bit_push_bit_iff bit_ucast_iff bit_drop_bit_eq not_less)
  finally show ?thesis .
qed

lemma lds_other [simp]:
  assumes "fits d i 2"
  shows "fits d j 2 \<Longrightarrow> i + 2 \<le> j \<or> j + 2 \<le> i \<Longrightarrow> lds (sts d j v) i = lds d i"
    "fits d j 4 \<Longrightarrow> i + 2 \<le> j \<or> j + 4 \<le> i \<Longrightarrow> lds (stw d j w) i = lds d i"
  using assms by (auto simp: lds_nth sts_nth_other stw_nth_other) (auto simp: fits_def stw_nth_other)

lemma ldw_other [simp]:
  assumes "fits d i 4"
  shows "fits d j 2 \<Longrightarrow> i + 4 \<le> j \<or> j + 2 \<le> i \<Longrightarrow> ldw (sts d j v) i = ldw d i"
    "fits d j 4 \<Longrightarrow> i + 4 \<le> j \<or> j + 4 \<le> i \<Longrightarrow> ldw (stw d j w) i = ldw d i"
  using assms by (auto intro!: ldw_cong sts_nth_other stw_nth_other simp: fits_def)

lemma ldw_same [simp]: "fits d i 4 \<Longrightarrow> ldw (stw d i v) i = v"
  by (simp add: fits_def ldw_stw_same)

section \<open>The address array\<close>

definition put_addrs_upto :: "nat \<Rightarrow> byte list \<Rightarrow> nat \<Rightarrow> (nat \<Rightarrow> uint) \<Rightarrow> byte list" where
  "put_addrs_upto n d i a = fold (\<lambda>k d. stw d (i + 4 * k) (a k)) [0..<n] d"

lemma put_addrs_upto_simps:
  "put_addrs_upto 0 d i a = d"
  "put_addrs_upto (Suc n) d i a = stw (put_addrs_upto n d i a) (i + 4 * n) (a n)"
  by (simp_all add: put_addrs_upto_def)

lemma length_put_addrs_upto [simp]: "length (put_addrs_upto n d i a) = length d"
  by (induction n) (simp_all add: put_addrs_upto_simps)

lemma fits_put_addrs_upto [simp]: "fits (put_addrs_upto n d i a) = fits d"
  by (simp add: fits_def[abs_def])

lemma fits_sub: "fits d i n \<Longrightarrow> j + m \<le> i + n \<Longrightarrow> fits d j m"
  by (simp add: fits_def)

lemma put_addrs_upto_nth:
  assumes "fits d i (4 * n)" "j < i \<or> i + 4 * n \<le> j" "j < length d"
  shows "put_addrs_upto n d i a ! j = d ! j"
  using assms
proof (induction n)
  case (Suc n)
  have "put_addrs_upto n d i a ! j = d ! j" using Suc.prems by (intro Suc.IH) (auto simp: fits_def)
  moreover have "fits d (i + 4 * n) 4" using Suc.prems(1) by (simp add: fits_def)
  ultimately show ?case using Suc.prems(2,3) by (subst put_addrs_upto_simps, subst stw_nth_other) auto
qed (simp add: put_addrs_upto_simps)

lemma put_addrs_upto_ldw:
  assumes "fits d i (4 * n)" "k < n"
  shows "ldw (put_addrs_upto n d i a) (i + 4 * k) = a k"
  using assms
proof (induction n)
  case (Suc n)
  have f: "fits d (i + 4 * n) 4" "fits d (i + 4 * k) 4" "fits d i (4 * n)" using Suc.prems by (auto simp: fits_def)
  show ?case
  proof (cases "k = n")
    case False
    then have "k < n" using Suc.prems(2) by simp
    then show ?thesis using Suc.IH[OF f(3)] f(1,2) by (simp add: put_addrs_upto_simps)
  qed (use f in \<open>simp add: put_addrs_upto_simps\<close>)
qed simp

lemma put_addrs_eq: "put_addrs d i a = put_addrs_upto 13 d i a"
  by (simp add: put_addrs_def put_addrs_upto_def NDIRECT_def)

section \<open>The inode\<close>

lemma length_put_dinode [simp]: "length (put_dinode d i x) = length d"
  by (simp add: put_dinode_def Let_def put_addrs_eq)

lemma put_dinode_nth:
  assumes "fits d i 64" "j < i \<or> i + 64 \<le> j" "j < length d"
  shows "put_dinode d i x ! j = d ! j"
proof -
  note f = fits_sub[OF assms(1)]
  have "fits d (i + 12) (4 * 13)" "fits d (i + 8) 4" by (rule f, simp)+
  then show ?thesis
    using assms(2,3) unfolding put_dinode_def Let_def put_addrs_eq
    by (subst put_addrs_upto_nth) (auto simp: stw_nth_other sts_nth_other)
qed

lemma get_dinode_cong:
  assumes "fits d i 64" "fits e i 64" "\<And>j. i \<le> j \<Longrightarrow> j < i + 64 \<Longrightarrow> d ! j = e ! j"
  shows "get_dinode d i = get_dinode e i"
proof -
  note f = fits_sub[OF assms(1)] fits_sub[OF assms(2)]
  have s: "lds d (i + j) = lds e (i + j)" if "j \<le> 62" for j using that assms(3) f by (simp add: lds_nth)
  have w: "ldw d (i + j) = ldw e (i + j)" if "j \<le> 60" for j using that assms(3) f by (intro ldw_cong) simp_all
  have a: "ldw d (i + 12 + 4 * k) = ldw e (i + 12 + 4 * k)" if "k \<le> NDIRECT" for k
    using w[of "12 + 4 * k"] that by (simp add: NDIRECT_def add.assoc)
  show ?thesis using s[of 0] s[of 2] s[of 4] s[of 6] w[of 8] a by (auto simp: get_dinode_def)
qed

definition on_disk :: "dinode \<Rightarrow> dinode" where
  "on_disk x = x\<lparr>di_addrs := (\<lambda>k. if k \<le> NDIRECT then di_addrs x k else 0)\<rparr>"

lemma get_put_dinode:
  assumes "fits d i 64"
  shows "get_dinode (put_dinode d i x) i = on_disk x"
proof -
  note f = fits_sub[OF assms]
  define e where "e = stw (sts (sts (sts (sts d i (di_type x)) (i + 2) (di_major x)) (i + 4) (di_minor x)) (i + 6) (di_nlink x)) (i + 8) (di_size x)"
  let ?p = "put_addrs_upto 13 e (i + 12) (di_addrs x)"
  have p: "put_dinode d i x = ?p" by (simp add: put_dinode_def Let_def put_addrs_eq e_def)
  have fe: "fits e = fits d" "length e = length d" by (simp_all add: e_def)
  have b: "?p ! j = e ! j" if "j < i + 12" for j using that assms by (intro put_addrs_upto_nth) (auto simp: fe fits_def)
  have s: "lds ?p (i + j) = lds e (i + j)" if "j \<le> 10" for j using that b f by (simp add: lds_nth fe)
  have w: "ldw ?p (i + 8) = ldw e (i + 8)" using b f by (intro ldw_cong) (simp_all add: fe)
  have a: "ldw ?p (i + 12 + 4 * k) = di_addrs x k" if "k \<le> NDIRECT" for k
    using that f by (intro put_addrs_upto_ldw) (auto simp: fe NDIRECT_def)
  have "lds e i = di_type x" "lds e (i + 2) = di_major x" "lds e (i + 4) = di_minor x" "lds e (i + 6) = di_nlink x" "ldw e (i + 8) = di_size x"
    unfolding e_def using f by simp_all
  then show ?thesis using s[of 0] s[of 2] s[of 4] s[of 6] w a by (intro dinode.equality) (auto simp: p get_dinode_def on_disk_def)
qed

lemma get_put_dinode_other:
  assumes "fits d i 64" "fits d j 64" "i + 64 \<le> j \<or> j + 64 \<le> i"
  shows "get_dinode (put_dinode d i x) j = get_dinode d j"
  using assms by (intro get_dinode_cong put_dinode_nth) (auto simp: fits_def)

end
