(* ===== verification/Write_Thms.thy ===== *)
theory Write_Thms
  imports Inode_Thms Dinode_Thms
begin

unbundle bit_operations_syntax

text \<open>
  \<open>writei\<close> into blocks that are allocated, inside a transaction: the content of the inode
  changes in the range written and nowhere else.
\<close>

section \<open>Changing one block\<close>

text \<open>No two blocks of the file coincide, and none is the block of indirect addresses.\<close>

definition separate :: "acache \<Rightarrow> inode \<Rightarrow> nat \<Rightarrow> bool" where
  "separate A x n \<longleftrightarrow> inj_on (baddr A x) {..<n} \<and> (NDIRECT < n \<longrightarrow> (\<forall>bn < n. baddr A x bn \<noteq> i_addrs x NDIRECT))"

lemma baddr_set:
  assumes "separate A x n" "k < n" "bn < n"
  shows "baddr (ac_mark a (ac_set (baddr A x k) d A)) x bn = baddr A x bn"
  using assms by (auto simp: baddr_def separate_def ac_mark_def ac_set_def)

lemma fbyte_set:
  assumes sep: "separate A x n" and k: "k < n" and i: "i < BSIZE * n"
  shows "fbyte (ac_mark a (ac_set (baddr A x k) d A)) x i = (if i div BSIZE = k then d ! (i mod BSIZE) else fbyte A x i)"
proof -
  have "i div BSIZE < n" using i by (simp add: less_mult_imp_div_less mult.commute)
  moreover from this have "baddr A x (i div BSIZE) = baddr A x k \<longleftrightarrow> i div BSIZE = k"
    using sep k by (auto simp: separate_def inj_on_def)
  ultimately show ?thesis using baddr_set[OF sep k] by (simp add: fbyte_def) (simp add: ac_mark_def ac_set_def)
qed

lemma fbyte_overlay:
  assumes sep: "separate A x n" and i: "i < BSIZE * n" and o: "off < BSIZE * n" and l: "off mod BSIZE + length bs \<le> BSIZE"
    and d: "length (ac_view A (baddr A x (off div BSIZE))) = BSIZE"
  shows "fbyte (ac_mark a (ac_set (baddr A x (off div BSIZE)) (overlay (ac_view A (baddr A x (off div BSIZE))) (off mod BSIZE) bs) A)) x i =
    (if off \<le> i \<and> i < off + length bs then bs ! (i - off) else fbyte A x i)"
proof -
  let ?k = "off div BSIZE" and ?d = "ac_view A (baddr A x (off div BSIZE))"
  have k: "?k < n" using o by (simp add: less_mult_imp_div_less mult.commute)
  note e = fbyte_set[OF sep k i]
  have in_range: "off \<le> i \<and> i < off + length bs \<longleftrightarrow>
      i div BSIZE = ?k \<and> off mod BSIZE \<le> i mod BSIZE \<and> i mod BSIZE < off mod BSIZE + length bs"
  proof
    assume r: "off \<le> i \<and> i < off + length bs"
    then obtain j where j: "i = off + j" "j < length bs" by (metis add_less_cancel_left le_Suc_ex)
    have "off mod BSIZE + j < BSIZE" using l j by simp
    from within_block[OF this] show "i div BSIZE = ?k \<and> off mod BSIZE \<le> i mod BSIZE \<and> i mod BSIZE < off mod BSIZE + length bs"
      using j by simp
  next
    assume r: "i div BSIZE = ?k \<and> off mod BSIZE \<le> i mod BSIZE \<and> i mod BSIZE < off mod BSIZE + length bs"
    have "i = ?k * BSIZE + i mod BSIZE" "off = ?k * BSIZE + off mod BSIZE" using r by (metis div_mult_mod_eq)+
    then show "off \<le> i \<and> i < off + length bs" using r by linarith
  qed
  have nth: "overlay ?d (off mod BSIZE) bs ! m = (if off mod BSIZE \<le> m \<and> m < off mod BSIZE + length bs
      then bs ! (m - off mod BSIZE) else ?d ! m)" if "m < BSIZE" for m
    using that d l by (auto simp: overlay_def nth_append min_def not_less)
  show ?thesis
  proof (cases "i div BSIZE = ?k")
    case True
    have im: "i mod BSIZE < BSIZE" by (simp add: BSIZE_def)
    have sub: "i - off = i mod BSIZE - off mod BSIZE"
      using True div_mult_mod_eq[of i BSIZE] div_mult_mod_eq[of off BSIZE] by (metis add_diff_cancel_left)
    have "fbyte A x i = ?d ! (i mod BSIZE)" by (simp add: fbyte_def True)
    then show ?thesis using True sub unfolding e nth[OF im] in_range by auto
  qed (use e in_range in auto)
qed

section \<open>The loop\<close>

definition wr_ok :: "uint set \<Rightarrow> acache \<Rightarrow> inode \<Rightarrow> nat \<Rightarrow> bool" where
  "wr_ok R A x n \<longleftrightarrow> mapped_to A x n \<and> separate A x n \<and> (\<forall>bn < n. baddr A x bn \<notin> R) \<and> ac_held A = (\<lambda>_. None)"

lemma wr_ok_set:
  assumes "wr_ok R A x n" "k < n"
  shows "wr_ok R (ac_mark a (ac_set (baddr A x k) d A)) x n"
proof -
  let ?B = "ac_mark a (ac_set (baddr A x k) d A)"
  have b: "baddr ?B x bn = baddr A x bn" if "bn < n" for bn using baddr_set[of A x n k bn] assms that by (simp add: wr_ok_def)
  have h: "ac_held ?B = ac_held A" by (simp add: ac_mark_def ac_set_def)
  then have "at_rest ?B m = at_rest A m" for m by (simp add: at_rest_def)
  moreover have "inj_on (baddr ?B x) {..<n}" using assms b by (simp add: wr_ok_def separate_def inj_on_def)
  ultimately show ?thesis using assms b h by (simp add: wr_ok_def mapped_to_def separate_def)
qed

lemma txinv_room:
  assumes "txinv c u R s" "ac_held (babs s) = (\<lambda>_. None)"
  shows "card (ac_busy (babs s)) < NBUF"
  using tx.room[OF assms(1)] assms(2) by simp

lemma gather_ok:
  assumes "\<And>i. i < n \<Longrightarrow> src (k + i) = Ok (bs ! (k + i))" "k + n \<le> length bs"
  shows "gather src k n = Ok (take n (drop k bs))"
  using assms
proof (induction n arbitrary: k)
  case (Suc n)
  have "src (Suc k + i) = Ok (bs ! (Suc k + i))" if "i < n" for i using Suc.prems(1)[of "Suc i"] that by simp
  then have "gather src (Suc k) n = Ok (take n (drop (Suc k) bs))" using Suc.prems(2) by (intro Suc.IH) simp_all
  moreover have "drop k bs = bs ! k # drop (Suc k) bs" using Suc.prems(2) by (simp add: Cons_nth_drop_Suc)
  ultimately show ?case using Suc.prems(1)[of 0] by simp
qed simp

lemma writei_step:
  fixes s :: "'a fs_st_scheme"
  assumes tx: "txinv c u R s" and w: "wr_ok R (babs s) (inode s ip) nb" and off: "unat off < BSIZE * nb" and tot: "tot < n"
    and cap: "0 < tcap s" and g: "gather src (unat tot) (unat (step_len n tot off)) = Ok bs"
    and bs: "length bs = unat (step_len n tot off)"
  defines "a \<equiv> baddr (babs s) (inode s ip) (unat off div BSIZE)"
  shows "\<exists>t. writei_body c ip src n (tot, off, s) = Ok (Inr (tot + step_len n tot off, off + step_len n tot off, t)) \<and>
    txinv c u R t \<and> lframe s t \<and> tcap s \<le> tcap t + 1 \<and>
    babs t = ac_mark a (ac_set a (overlay (ac_view (babs s) a) (unat off mod BSIZE) bs) (babs s))"
proof -
  let ?x = "inode s ip" and ?A = "babs s" and ?m = "step_len n tot off"
  have inv: "binv c u s" using tx by (rule txinv_binv)
  have busy: "card (ac_busy ?A) < NBUF" using txinv_room[OF tx] w by (simp add: wr_ok_def)
  have bn: "unat (off div of_nat BSIZE) = unat off div BSIZE" and bm: "unat (off mod of_nat BSIZE) = unat off mod BSIZE"
    by (simp_all only: unat_div unat_mod unat_of_nat_BSIZE) (simp_all add: BSIZE_def)
  have lt: "unat off div BSIZE < nb" using off by (simp add: less_mult_imp_div_less mult.commute)
  have mp: "mapped_to ?A ?x nb" using w by (simp add: wr_ok_def)
  obtain s1 where s1: "bmap c ip (off div of_nat BSIZE) s = Ok (a, s1)" "binv c u s1" "bframe s s1" "babs s1 = ?A"
    using bmap_mapped[OF inv mp lt bn busy] unfolding a_def by blast
  have t1: "txinv c u R s1" "tcap s1 = tcap s" using txinv_held[OF tx s1(3,2)] by (simp_all add: s1(4))
  have a: "a < FSSIZE" "ac_held ?A a = None" "a \<notin> R" "i_dev ?x = ROOTDEV"
    using w lt by (auto simp: wr_ok_def mapped_to_def at_rest_def a_def)
  note ml = step_len[OF tot, of off]
  have mb: "unat off mod BSIZE + length bs \<le> BSIZE" unfolding bs ml(1) by (simp add: BSIZE_def)
  let ?f = "\<lambda>d. overlay d (unat off mod BSIZE) bs"
  have len: "length (?f (ac_view (babs s1) a)) = BSIZE" using tx.sized[OF t1(1), of a] mb by (simp add: overlay_def)
  obtain b s2 s3 t where e: "bread c ROOTDEV a s1 = Ok (b, s2)" "log_write c b (set_data b (?f (b_data (buf s2 b))) s2) = Ok s3"
      "brelse c b s3 = Ok t" "txinv c u R t" "lframe s1 t" "babs t = ac_mark a (ac_set a (?f (ac_view ?A a)) ?A)"
      "tcap t = (if a \<in> ac_pin ?A then tcap s else tcap s - 1)"
    using tx.edit[OF t1(1) a(1) _ _ a(3), of ?f] len a(2) busy cap t1(2) unfolding s1(4) by auto
  have "writei_body c ip src n (tot, off, s) = Ok (Inr (tot + ?m, off + ?m, t))"
    using tot s1(1) e(1-3) a(4) bframe_fs(2)[OF s1(3)] bm g
    by (simp add: writei_body_def Let_def flip: step_len_def)
  moreover have "lframe s t" using lframe_trans[OF lframe_bframe[OF s1(3)] e(5)] .
  moreover have "tcap s \<le> tcap t + 1" using e(7) by (auto split: if_splits)
  ultimately show ?thesis using e(4,6) by blast
qed

text \<open>The number of blocks that \<open>r\<close> bytes from offset \<open>off\<close> touch.\<close>

definition blocks :: "nat \<Rightarrow> nat \<Rightarrow> nat" where
  "blocks off r = (if r = 0 then 0 else (off mod 512 + r + 511) div 512)"

lemma blocks_step:
  assumes "0 < r" "m = min r (512 - off mod 512)"
  shows "blocks (off + m) (r - m) + 1 \<le> blocks off r"
proof (cases "m = r")
  case True
  then show ?thesis using assms(1) by (simp add: blocks_def)
next
  case False
  have o: "off mod 512 < 512" by simp
  have m: "m = 512 - off mod 512" "m < r" using False assms(2) by auto
  have "(off + m) mod 512 = (off mod 512 + m) mod 512" by (simp add: mod_simps)
  then have "(off + m) mod 512 = 0" using m(1) o by simp
  then have l: "blocks (off + m) (r - m) = (r - m + 511) div 512" using m(2) by (simp add: blocks_def)
  have "off mod 512 + r + 511 = (r - m + 511) + 512" using m o by linarith
  then have "blocks off r = (r - m + 511) div 512 + 1" using m(2) by (simp add: blocks_def)
  then show ?thesis using l by simp
qed

text \<open>The state after \<open>k\<close> bytes of \<open>bs\<close> have been written from offset \<open>off\<close>.\<close>

definition wrote :: "nat \<Rightarrow> uint \<Rightarrow> uint set \<Rightarrow> 'a fs_st_scheme \<Rightarrow> inode \<Rightarrow> nat \<Rightarrow> nat \<Rightarrow> byte list \<Rightarrow> nat \<Rightarrow> 'a fs_st_scheme \<Rightarrow> bool" where
  "wrote c u R s x nb off bs k t \<longleftrightarrow>
     txinv c u R t \<and> lframe s t \<and> wr_ok R (babs t) x nb \<and> (\<forall>bn < nb. baddr (babs t) x bn = baddr (babs s) x bn) \<and>
     (\<forall>i < BSIZE * nb. fbyte (babs t) x i = (if off \<le> i \<and> i < off + k then bs ! (i - off) else fbyte (babs s) x i)) \<and>
     (\<forall>m. m \<notin> baddr (babs s) x ` {..<nb} \<longrightarrow> ac_view (babs t) m = ac_view (babs s) m)"

lemma wrote_0: "txinv c u R s \<Longrightarrow> wr_ok R (babs s) x nb \<Longrightarrow> wrote c u R s x nb off bs 0 s"
  by (auto simp: wrote_def lframe_refl)

lemma wrote_step:
  assumes w: "wrote c u R s x nb off bs k t" and t': "txinv c u R t'" "lframe t t'"
    and o: "off + k < BSIZE * nb" "(off + k) mod BSIZE + l \<le> BSIZE" "k + l \<le> length bs"
  defines "a \<equiv> baddr (babs t) x ((off + k) div BSIZE)"
  assumes b: "babs t' = ac_mark a (ac_set a (overlay (ac_view (babs t) a) ((off + k) mod BSIZE) (take l (drop k bs))) (babs t))"
  shows "wrote c u R s x nb off bs (k + l) t'"
proof -
  let ?cs = "take l (drop k bs)"
  have W: "wr_ok R (babs t) x nb" "separate (babs t) x nb" "\<And>bn. bn < nb \<Longrightarrow> baddr (babs t) x bn = baddr (babs s) x bn"
    "\<And>i. i < BSIZE * nb \<Longrightarrow> fbyte (babs t) x i = (if off \<le> i \<and> i < off + k then bs ! (i - off) else fbyte (babs s) x i)"
    "\<And>m. m \<notin> baddr (babs s) x ` {..<nb} \<Longrightarrow> ac_view (babs t) m = ac_view (babs s) m" "lframe s t" "txinv c u R t"
    using w by (auto simp: wrote_def wr_ok_def)
  have kb: "(off + k) div BSIZE < nb" using o(1) by (simp add: less_mult_imp_div_less mult.commute)
  have len: "length ?cs = l" using o(3) by simp
  have d: "length (ac_view (babs t) a) = BSIZE" using tx.sized[OF W(7)] .
  have "fbyte (babs t') x i = (if off \<le> i \<and> i < off + (k + l) then bs ! (i - off) else fbyte (babs s) x i)"
    if i: "i < BSIZE * nb" for i
  proof -
    have "fbyte (babs t') x i = (if off + k \<le> i \<and> i < off + k + length ?cs then ?cs ! (i - (off + k)) else fbyte (babs t) x i)"
      unfolding b a_def using o(2) d by (intro fbyte_overlay[OF W(2) i o(1)]) (simp_all only: len a_def)
    moreover have "off + k \<le> i \<Longrightarrow> i < off + k + l \<Longrightarrow> ?cs ! (i - (off + k)) = bs ! (i - off)" using o(3) by simp
    ultimately show ?thesis unfolding W(4)[OF i] len by auto
  qed
  moreover have "wr_ok R (babs t') x nb" unfolding b a_def by (rule wr_ok_set[OF W(1) kb])
  moreover have "baddr (babs t') x bn = baddr (babs s) x bn" if "bn < nb" for bn
    using baddr_set[OF W(2) kb that] W(3)[OF that] unfolding b a_def by simp
  moreover have "ac_view (babs t') m = ac_view (babs s) m" if "m \<notin> baddr (babs s) x ` {..<nb}" for m
  proof -
    have "m \<noteq> a" using that W(3)[OF kb] kb by (auto simp: a_def)
    then show ?thesis using W(5)[OF that] by (simp add: b ac_mark_def ac_set_def)
  qed
  ultimately show ?thesis using t' lframe_trans[OF W(6) t'(2)] by (simp add: wrote_def)
qed

lemma writei_loop:
  fixes s :: "'a fs_st_scheme"
  assumes tx: "txinv c u R s" and w: "wr_ok R (babs s) (inode s ip) nb" and n: "unat off + unat n \<le> BSIZE * nb"
    and bs: "length bs = unat n" and src: "\<And>i. i < unat n \<Longrightarrow> src i = Ok (bs ! i)"
    and cap: "blocks (unat off) (unat n) + spare \<le> tcap s"
  shows "\<exists>t. loop_res (writei_body c ip src n) (0, off, s) = Ok (off + n, t) \<and>
    wrote c u R s (inode s ip) nb (unat off) bs (unat n) t \<and> spare \<le> tcap t"
proof -
  have "nb \<le> 140" using w by (simp add: wr_ok_def mapped_to_def size_facts)
  then have big: "BSIZE * nb \<le> 71680" by (simp add: BSIZE_def)
  let ?x = "inode s ip"
  let ?I = "\<lambda>(tot :: uint, o1 :: uint, t). unat tot \<le> unat n \<and> o1 = off + tot \<and>
    wrote c u R s ?x nb (unat off) bs (unat tot) t \<and> blocks (unat off + unat tot) (unat n - unat tot) + spare \<le> tcap t"
  let ?R = "\<lambda>(o1, t). o1 = off + n \<and> wrote c u R s ?x nb (unat off) bs (unat n) t \<and> spare \<le> tcap t"
  have "\<exists>r. loop_res (writei_body c ip src n) (0, off, s) = Ok r \<and> ?R r"
  proof (rule loop_res_rule[where I = ?I and M = "\<lambda>(tot, _). unat n - unat tot"])
    show "?I (0, off, s)" using wrote_0[OF tx w] cap by simp
  next
    fix z :: "uint \<times> uint \<times> 'a fs_st_scheme" assume I: "?I z"
    obtain tot o1 t where z: "z = (tot, o1, t)" by (cases z)
    have i: "unat tot \<le> unat n" "o1 = off + tot" "wrote c u R s ?x nb (unat off) bs (unat tot) t"
      "blocks (unat off + unat tot) (unat n - unat tot) + spare \<le> tcap t" using I by (auto simp: z)
    have T: "txinv c u R t" "lframe s t" "wr_ok R (babs t) ?x nb" using i(3) by (auto simp: wrote_def)
    have ino: "inode t = inode s" using lframe_fs(3)[OF T(2)] .
    have "unat off + unat tot < 4294967296" using i(1) n big by linarith
    then have o1: "unat o1 = unat off + unat tot" unfolding i(2) by (rule unat_add_le)
    show "(\<exists>r. writei_body c ip src n z = Ok (Inl r) \<and> ?R r) \<or>
      (\<exists>z'. writei_body c ip src n z = Ok (Inr z') \<and> ?I z' \<and> (\<lambda>(tot, _). unat n - unat tot) z' < (\<lambda>(tot, _). unat n - unat tot) z)"
    proof (cases "tot < n")
      case False
      then have "tot = n" using i(1) by (simp add: word_less_nat_alt word_unat_eq_iff)
      then show ?thesis using i by (simp add: z writei_body_def)
    next
      case True
      let ?m = "step_len n tot o1" and ?cs = "take (unat (step_len n tot o1)) (drop (unat tot) bs)"
      note ml = step_len[OF True, of o1]
      have lt: "unat tot < unat n" using True by (simp add: word_less_nat_alt)
      have mn: "unat ?m \<le> unat n - unat tot" "0 < unat ?m" unfolding ml(1) using ml by simp_all
      have g: "gather src (unat tot) (unat ?m) = Ok ?cs" using src bs mn(1) lt by (intro gather_ok) simp_all
      have len: "length ?cs = unat ?m" using bs mn(1) by simp
      have bl: "blocks (unat off + unat tot + unat ?m) (unat n - unat tot - unat ?m) + 1 \<le> blocks (unat off + unat tot) (unat n - unat tot)"
        using lt ml(1) by (intro blocks_step) (simp_all only: o1)
      have ob: "unat o1 < BSIZE * nb" unfolding o1 using lt n by linarith
      have cp: "0 < tcap t" using bl i(4) by linarith
      obtain t' where t': "writei_body c ip src n z = Ok (Inr (tot + ?m, o1 + ?m, t'))" "txinv c u R t'" "lframe t t'"
          "tcap t \<le> tcap t' + 1"
          "babs t' = ac_mark (baddr (babs t) ?x (unat o1 div BSIZE)) (ac_set (baddr (babs t) ?x (unat o1 div BSIZE))
             (overlay (ac_view (babs t) (baddr (babs t) ?x (unat o1 div BSIZE))) (unat o1 mod BSIZE) ?cs) (babs t))"
        using writei_step[OF T(1) _ ob True cp g len, of ip] T(3) unfolding ino z by blast
      have "unat tot + unat ?m < 4294967296" using mn(1) n big lt by linarith
      then have wt: "unat (tot + ?m) = unat tot + unat ?m" by (rule unat_add_le)
      have "wrote c u R s ?x nb (unat off) bs (unat tot + unat ?m) t'"
      proof (rule wrote_step[OF i(3) t'(2,3)])
        show "unat off + unat tot < BSIZE * nb" using ob o1 by simp
        show "(unat off + unat tot) mod BSIZE + unat ?m \<le> BSIZE" unfolding ml(1) o1 by (simp add: BSIZE_def)
        show "unat tot + unat ?m \<le> length bs" using mn(1) lt bs by linarith
      qed (use t'(5) in \<open>simp only: o1\<close>)
      moreover have "unat tot + unat ?m \<le> unat n" "unat n - (unat tot + unat ?m) < unat n - unat tot" using mn lt by linarith+
      moreover have "blocks (unat off + (unat tot + unat ?m)) (unat n - (unat tot + unat ?m)) + spare \<le> tcap t'"
        using bl i(4) t'(4) by (simp add: add.assoc diff_diff_eq)
      ultimately show ?thesis using t'(1) i(2) wt
        by (intro disjI2 exI[of _ "(tot + ?m, o1 + ?m, t')"]) (simp add: z add.assoc)
    qed
  qed
  then show ?thesis by auto
qed

section \<open>iupdate\<close>

text \<open>The block of an inode and its slot in it.\<close>

definition iblock :: "'a fs_st_scheme \<Rightarrow> inode \<Rightarrow> uint" where
  "iblock s x = IBLOCK (i_inum x) (fsb s)"

lemma slot_fits: "length d = BSIZE \<Longrightarrow> fits d (dinode_off i) 64"
proof -
  assume "length d = BSIZE"
  moreover have "unat (i mod IPB) < 8" by (simp add: unat_mod IPB_def)
  ultimately show ?thesis by (simp add: fits_def dinode_off_def sizeof_dinode_def BSIZE_def)
qed

lemma iupdate_ok:
  fixes s :: "'a fs_st_scheme" and ip :: nat
  defines "x \<equiv> inode s ip" and "ib \<equiv> iblock s (inode s ip)"
  assumes tx: "txinv c u R s" and x: "i_dev x = ROOTDEV" "ib < FSSIZE" "ib \<notin> R" and h: "ac_held (babs s) = (\<lambda>_. None)"
    and cap: "0 < tcap s"
  shows "\<exists>t. iupdate c ip s = Ok t \<and> txinv c u R t \<and> lframe s t \<and> tcap s \<le> tcap t + 1 \<and>
    babs t = ac_mark ib (ac_set ib (put_dinode (ac_view (babs s) ib) (dinode_off (i_inum x)) (dinode_of x)) (babs s))"
proof -
  let ?f = "\<lambda>d. put_dinode d (dinode_off (i_inum x)) (dinode_of x)"
  have busy: "card (ac_busy (babs s)) < NBUF" using txinv_room[OF tx h] .
  obtain b s1 s2 t where e: "bread c ROOTDEV ib s = Ok (b, s1)" "lframe s s1" "log_write c b (set_data b (?f (b_data (buf s1 b))) s1) = Ok s2"
      "brelse c b s2 = Ok t" "txinv c u R t" "lframe s t" "babs t = ac_mark ib (ac_set ib (?f (ac_view (babs s) ib)) (babs s))"
      "tcap t = (if ib \<in> ac_pin (babs s) then tcap s else tcap s - 1)"
    using tx.edit[OF tx x(2) _ _ x(3) cap, of ?f] tx.sized[OF tx, of ib] h busy by auto
  have "inode s1 = inode s" using lframe_fs(3)[OF e(2)] .
  then have "iupdate c ip s = Ok t" using e(1,3,4) x(1) by (simp add: iupdate_def x_def ib_def iblock_def)
  moreover have "tcap s \<le> tcap t + 1" using e(8) by (auto split: if_splits)
  ultimately show ?thesis using e(5-7) by blast
qed

section \<open>writei\<close>

lemma lframe_iupd:
  assumes "lframe s t"
  shows "lframe (iupd i f s) (iupd i f t)"
proof -
  have b: "bview (iupd i f r) = iupd i f (bview r)" for r :: "'a fs_st_scheme" by (simp add: bview_def iupd_def)
  have "iupd i f (bview t) = iupd i f ((bview s)\<lparr>buf := buf t, disk := disk t, disk_writes := disk_writes t, ide_req := ide_req t,
      lh_n := lh_n t, lh_block := lh_block t\<rparr>)" using assms by (simp add: lframe_def)
  then show ?thesis unfolding lframe_def b by (simp add: iupd_def)
qed

lemma baddr_size [simp]: "baddr A (x\<lparr>i_size := v\<rparr>) = baddr A x"
  by (rule ext) (simp add: baddr_def)

lemma fbyte_size [simp]: "fbyte A (x\<lparr>i_size := v\<rparr>) = fbyte A x"
  by (rule ext) (simp add: fbyte_def)

lemma wr_ok_size [simp]: "wr_ok R A (x\<lparr>i_size := v\<rparr>) nb = wr_ok R A x nb"
  by (simp add: wr_ok_def mapped_to_def separate_def)

lemma nth_overlay:
  assumes "off \<le> length d" "i < max (length d) (off + length bs)"
  shows "overlay d off bs ! i = (if off \<le> i \<and> i < off + length bs then bs ! (i - off) else d ! i)"
proof -
  have "i < off + length bs \<or> off + length bs \<le> i \<and> i < length d" using assms(2) by linarith
  then show ?thesis using assms(1) by (auto simp: overlay_def nth_append min_def)
qed

lemma wrote_content:
  assumes "wrote c u R s x nb off bs (length bs) t" "off \<le> unat (i_size x)" "unat (i_size x) \<le> BSIZE * nb"
    "off + length bs \<le> BSIZE * nb" "unat v = max (unat (i_size x)) (off + length bs)"
  shows "content (babs t) (x\<lparr>i_size := v\<rparr>) = overlay (content (babs s) x) off bs"
proof (rule nth_equalityI)
  show "length (content (babs t) (x\<lparr>i_size := v\<rparr>)) = length (overlay (content (babs s) x) off bs)"
    using assms(2,5) by (simp add: overlay_def max_def)
  fix i assume "i < length (content (babs t) (x\<lparr>i_size := v\<rparr>))"
  then have i: "i < max (unat (i_size x)) (off + length bs)" using assms(5) by simp
  then have "i < BSIZE * nb" using assms(3,4) by linarith
  then have "fbyte (babs t) x i = (if off \<le> i \<and> i < off + length bs then bs ! (i - off) else fbyte (babs s) x i)"
    using assms(1) by (simp add: wrote_def)
  then show "content (babs t) (x\<lparr>i_size := v\<rparr>) ! i = overlay (content (babs s) x) off bs ! i"
    using i assms(2,5) nth_overlay[of off "content (babs s) x" i bs] by (auto simp: content_def)
qed

text \<open>Another block changes: the file does not.\<close>

lemma content_other_block:
  assumes "m \<notin> baddr A x ` {..<nb}" "NDIRECT < nb \<longrightarrow> m \<noteq> i_addrs x NDIRECT" "unat (i_size x) \<le> BSIZE * nb" "wr_ok R A x nb"
  shows "content (ac_mark a (ac_set m d A)) x = content A x" "wr_ok R (ac_mark a (ac_set m d A)) x nb"
    "\<And>bn. bn < nb \<Longrightarrow> baddr (ac_mark a (ac_set m d A)) x bn = baddr A x bn"
proof -
  let ?B = "ac_mark a (ac_set m d A)"
  show b: "baddr ?B x bn = baddr A x bn" if "bn < nb" for bn
    using assms(1,2) that by (auto simp: baddr_def ac_mark_def ac_set_def)
  have "fbyte ?B x i = fbyte A x i" if "i < unat (i_size x)" for i
  proof -
    have k: "i div BSIZE < nb" using that assms(3) by (simp add: less_mult_imp_div_less mult.commute)
    then have "baddr A x (i div BSIZE) \<noteq> m" using assms(1) by auto
    then show ?thesis using b[OF k] by (simp add: fbyte_def) (simp add: ac_mark_def ac_set_def)
  qed
  then show "content ?B x = content A x" by (simp add: content_def)
  have h: "ac_held ?B = ac_held A" by (simp add: ac_mark_def ac_set_def)
  then have "at_rest ?B m = at_rest A m" for m by (simp add: at_rest_def)
  moreover have "inj_on (baddr ?B x) {..<nb}" using assms(4) b by (simp add: wr_ok_def separate_def inj_on_def)
  ultimately show "wr_ok R ?B x nb" using assms(4) b h by (simp add: wr_ok_def mapped_to_def separate_def)
qed

lemma writei_ok:
  fixes s :: "'a con_st_scheme" and ip :: nat
  defines "x \<equiv> inode s ip" and "C \<equiv> content (babs s) (inode s ip)" and "ib \<equiv> iblock s (inode s ip)"
  assumes tx: "txinv c u R s" and w: "wr_ok R (babs s) x nb" and ty: "i_type x \<noteq> T_DEV"
    and off: "unat off \<le> unat (i_size x)" "unat (i_size x) \<le> 512 * nb" "unat off + unat n \<le> 512 * nb"
    and bs: "length bs = unat n" "\<And>i. i < unat n \<Longrightarrow> src i = Ok (bs ! i)"
    and ib: "ib < FSSIZE" "ib \<notin> R" "ib \<notin> baddr (babs s) x ` {..<nb}" "NDIRECT < nb \<longrightarrow> ib \<noteq> i_addrs x NDIRECT"
    and cap: "blocks (unat off) (unat n) + 1 \<le> tcap s"
  shows "\<exists>t. writei c ip src off n s = Ok (int (unat n), t) \<and> txinv c u R t \<and> wr_ok R (babs t) (inode t ip) nb \<and>
    inode t = (inode s)(ip := x\<lparr>i_size := max (i_size x) (off + n)\<rparr>) \<and> lframe (s\<lparr>inode := inode t\<rparr>) t \<and>
    content (babs t) (inode t ip) = overlay C (unat off) bs \<and>
    (\<forall>bn < nb. baddr (babs t) (inode t ip) bn = baddr (babs s) x bn) \<and>
    (i_size x < off + n \<longrightarrow> get_dinode (ac_view (babs t) ib) (dinode_off (i_inum x)) = on_disk (dinode_of (inode t ip)))"
proof -
  have nb: "nb \<le> 140" using w by (simp add: wr_ok_def mapped_to_def size_facts)
  have sz: "BSIZE = 512" by (simp add: BSIZE_def)
  have lt: "unat off + unat n < 4294967296" using off(3) nb by linarith
  then have on: "unat (off + n) = unat off + unat n" by (rule unat_add_le)
  have mx: "unat (max (i_size x) (off + n)) = max (unat (i_size x)) (unat off + length bs)"
    using on bs(1) by (simp add: max_def word_le_nat_alt)
  have guards: "\<not> off > i_size x" "\<not> off + n < off" "\<not> off + n > of_nat (MAXFILE * BSIZE)"
    using off nb on lt by (auto simp: uint_overflow word_less_nat_alt size_facts)
  have "unat n < 2 ^ 31" using off(3) nb by simp
  then have int: "int_of n = int (unat n)" by (rule int_of_small)
  have "unat off + unat n \<le> BSIZE * nb" using off(3) sz by simp
  from writei_loop[OF tx w[unfolded x_def] this bs(1) bs(2) cap] obtain t1 where
    t1: "loop_res (writei_body c ip src n) (0, off, s) = Ok (off + n, t1)" "wrote c u R s x nb (unat off) bs (length bs) t1" "1 \<le> tcap t1"
    unfolding x_def bs(1) by blast
  have T1: "txinv c u R t1" "lframe s t1" "wr_ok R (babs t1) x nb" "\<And>m. m < nb \<Longrightarrow> baddr (babs t1) x m = baddr (babs s) x m"
    using t1(2) by (auto simp: wrote_def)
  note fr = lframe_fs[OF T1(2)]
  have cont: "content (babs t1) (x\<lparr>i_size := max (i_size x) (off + n)\<rparr>) = overlay C (unat off) bs"
    unfolding C_def using wrote_content[OF t1(2) off(1) _ _ mx] off(2,3) bs(1) by (simp add: sz x_def)
  show ?thesis
  proof (cases "i_size x < off + n")
    case False
    then have same: "x\<lparr>i_size := max (i_size x) (off + n)\<rparr> = x" by (simp add: max_def)
    have "writei c ip src off n s = Ok (int (unat n), t1)"
      using guards t1(1) ty False int fr(3) by (simp add: writei_def Let_def x_def)
    moreover have "lframe (s\<lparr>inode := inode t1\<rparr>) t1" using T1(2) fr(3) by simp
    ultimately show ?thesis using T1 fr cont False by (simp add: same) (simp add: x_def)
  next
    case True
    let ?y = "x\<lparr>i_size := off + n\<rparr>" and ?t2 = "iupd ip (\<lambda>x. x\<lparr>i_size := off + n\<rparr>) t1"
    have my: "max (i_size x) (off + n) = off + n" using True by (simp add: max_absorb2)
    have n0: "n > 0" using True guards(1) by (cases "n = 0") (simp_all add: word_gt_0)
    have y: "inode ?t2 ip = ?y" "iblock ?t2 ?y = ib" using fr by (simp_all add: x_def iblock_def ib_def)
    have "i_dev ?y = ROOTDEV" "ac_held (babs ?t2) = (\<lambda>_. None)" using T1(3) by (simp_all add: wr_ok_def mapped_to_def)
    with iupdate_ok[where s = ?t2 and ip = ip, unfolded y] ib t1(3) T1(1) obtain t where t: "iupdate c ip ?t2 = Ok t" "txinv c u R t" "lframe ?t2 t"
      "babs t = ac_mark ib (ac_set ib (put_dinode (ac_view (babs t1) ib) (dinode_off (i_inum x)) (dinode_of ?y)) (babs t1))" by fastforce
    have fr2: "inode t = (inode s)(ip := ?y)" "fsb t = fsb s" using lframe_fs[OF t(3)] fr by (simp_all add: iupd_def x_def)
    have "s\<lparr>inode := inode t\<rparr> = iupd ip (\<lambda>x. x\<lparr>i_size := off + n\<rparr>) s" by (simp add: iupd_def fr2 x_def)
    then have fr3: "lframe (s\<lparr>inode := inode t\<rparr>) t" using lframe_trans[OF lframe_iupd[OF T1(2)] t(3)] by simp
    have "ib \<notin> baddr (babs t1) ?y ` {..<nb}" using ib(3) T1(4) by auto
    from content_other_block[OF this, of R] ib(4) T1(3) off(3) on
    have o: "content (babs t) ?y = content (babs t1) ?y" "wr_ok R (babs t) ?y nb" "\<And>bn. bn < nb \<Longrightarrow> baddr (babs t) ?y bn = baddr (babs s) x bn"
      using T1(4) by (simp_all add: t(4) sz)
    have "length (ac_view (babs t1) ib) = BSIZE" using tx.sized[OF T1(1)] .
    from get_put_dinode[OF slot_fits[OF this], of "i_inum x" "dinode_of ?y"]
    have g: "get_dinode (ac_view (babs t) ib) (dinode_off (i_inum x)) = on_disk (dinode_of ?y)"
      by (simp add: t(4) ac_mark_def ac_set_def)
    have "writei c ip src off n s = Ok (int (unat n), t)"
      using guards t1(1) ty True int fr(3) n0 t(1) by (simp add: writei_def Let_def x_def)
    then show ?thesis using t(2) fr2(1) fr3 o g cont by (simp add: my)
  qed
qed

end
