(* ===== verification/File_Thms.thy ===== *)
theory File_Thms
  imports Write_Thms File Log_End
begin

text \<open>
  Open files: the lock of an inode, and \<open>filewrite\<close> to an inode, which splits a write into
  transactions.
\<close>

declare One_nat_def [simp]

section \<open>Locking an inode\<close>

interpretation il: sleeplock_at "get_ilock i" "put_ilock i"
  by unfold_locales (simp_all add: get_ilock_def put_ilock_def iupd_def fun_upd_idem)

lemma linv_iupd [simp]: "linv c u (iupd i f s) = linv c u s"
  by (rule linv_cong) (simp, simp, simp_all add: iupd_def)

lemma idle_cache_iupd [simp]: "idle_cache (iupd i f s) = idle_cache s"
  by (simp add: idle_cache_def)

lemma ilock_ok:
  assumes "calm c u s" "0 < int_of (i_ref (inode s ip))" "i_valid (inode s ip) \<noteq> 0"
    "free_lock (sl_lk (i_lock (inode s ip)))" "sl_locked (i_lock (inode s ip)) = 0"
  shows "ilock c (Some ip) s = Ok (iupd ip (\<lambda>x. x\<lparr>i_lock := (i_lock x)\<lparr>sl_locked := 1, sl_pid := u\<rparr>\<rparr>) s)"
  using il.acquiresleep_eq[OF assms(1), of ip] assms(2-5)
  by (simp add: ilock_def get_ilock_def put_ilock_def) (simp add: iupd_def)

text \<open>Two states that differ in the process table only.\<close>

lemma bview_log:
  fixes s t :: "'a log_st_scheme"
  assumes e: "bview s = bview t" and c: "calm c u s" and l: "linv c u t"
  shows "linv c u s" "babs s = babs t" "log_lock s = log_lock t" "log_outstanding s = log_outstanding t"
    "log_committing s = log_committing t" "lregion s = lregion t" "log_size s = log_size t" "lh_n s = lh_n t" "log_st.more s = log_st.more t"
proof -
  have b: "binv c u s" by (rule binv_bview[OF _ c e]) (use l in \<open>simp add: linv_def\<close>)
  show f: "log_lock s = log_lock t" "log_outstanding s = log_outstanding t" "log_committing s = log_committing t"
    "log_size s = log_size t" "lh_n s = lh_n t" "log_st.more s = log_st.more t"
    using arg_cong[OF e, of log_lock] arg_cong[OF e, of log_outstanding] arg_cong[OF e, of log_committing] arg_cong[OF e, of log_size]
      arg_cong[OF e, of lh_n] arg_cong[OF e, of log_st.more] by (simp_all add: bview_def)
  have g: "log_start s = log_start t" "log_dev s = log_dev t" "lh_block s = lh_block t"
    using arg_cong[OF e, of log_start] arg_cong[OF e, of log_dev] arg_cong[OF e, of lh_block] by (simp_all add: bview_def)
  show a: "babs s = babs t" using bview_eqD[OF e] by (intro babs_cong) simp_all
  show "lregion s = lregion t" using f g by (simp add: lregion_def)
  then show "linv c u s" using l b f g a by (simp add: linv_def)
qed

lemma iunlock_ok:
  assumes "calm c u s" "0 < int_of (i_ref (inode s ip))" "free_lock (sl_lk (i_lock (inode s ip)))" "sl_locked (i_lock (inode s ip)) \<noteq> 0"
  shows "\<exists>t. iunlock c (Some ip) s = Ok t \<and> calm c u t \<and>
    bview t = bview (iupd ip (\<lambda>x. x\<lparr>i_lock := (i_lock x)\<lparr>sl_locked := 0, sl_pid := 0\<rparr>\<rparr>) s)"
proof -
  have "put_ilock ip ((i_lock (inode s ip))\<lparr>sl_locked := 0, sl_pid := 0\<rparr>) s =
      iupd ip (\<lambda>x. x\<lparr>i_lock := (i_lock x)\<lparr>sl_locked := 0, sl_pid := 0\<rparr>\<rparr>) s" by (simp add: put_ilock_def iupd_def)
  then show ?thesis
    using il.holdingsleep_eq[OF assms(1), of ip] il.releasesleep_eq[OF assms(1), of ip "Ch_inode_lock ip"] assms(2-4)
    by (auto simp: iunlock_def get_ilock_def)
qed

lemma more_fields:
  fixes s t :: "'a fs_st_scheme"
  assumes "log_st.more t = log_st.more s"
  shows "fsb t = fsb s" "inode t = inode s" "fs_st.more t = fs_st.more s"
  using assms by (cases s, cases t, simp)+

section \<open>Writing to an inode\<close>

text \<open>No transaction is running and nothing is waiting in the log.\<close>

definition quiet_log :: "nat \<Rightarrow> uint \<Rightarrow> uint set \<Rightarrow> 'a log_st_scheme \<Rightarrow> bool" where
  "quiet_log c u R s \<longleftrightarrow> linv c u s \<and> idle_cache s \<and> free_lock (log_lock s) \<and> log_outstanding s = 0 \<and>
     log_committing s = 0 \<and> lh_n s = 0 \<and> lregion s = R \<and> 6 \<le> unat (log_size s)"

text \<open>The inode at \<open>ip\<close>: in use, read from disk, not locked, a file whose first \<open>nb\<close> blocks are allocated.\<close>

definition winode :: "uint set \<Rightarrow> nat \<Rightarrow> nat \<Rightarrow> 'a fs_st_scheme \<Rightarrow> bool" where
  "winode R nb ip s \<longleftrightarrow>
     (let x = inode s ip
      in 0 < int_of (i_ref x) \<and> i_valid x \<noteq> 0 \<and> free_lock (sl_lk (i_lock x)) \<and> sl_locked (i_lock x) = 0 \<and> i_type x \<noteq> T_DEV \<and>
         wr_ok R (babs s) x nb \<and> unat (i_size x) \<le> 512 * nb \<and> iblock s x < FSSIZE \<and> iblock s x \<notin> R \<and>
         iblock s x \<notin> baddr (babs s) x ` {..<nb} \<and>
         (NDIRECT < nb \<longrightarrow> iblock s x \<noteq> i_addrs x NDIRECT \<and> i_addrs x NDIRECT \<notin> R))"

text \<open>File \<open>f\<close> is open for writing on the inode at \<open>ip\<close>.\<close>

definition wfile :: "nat \<Rightarrow> nat \<Rightarrow> 'a file_st_scheme \<Rightarrow> bool" where
  "wfile f ip s \<longleftrightarrow> f_type (ftab s f) = FD_INODE \<and> f_writable (ftab s f) \<and> f_ip (ftab s f) = Some ip \<and>
     unat (f_off (ftab s f)) \<le> unat (i_size (inode s ip))"

lemma lock_irrelevant [simp]:
  "baddr A (x\<lparr>i_lock := l\<rparr>) = baddr A x" "content A (x\<lparr>i_lock := l\<rparr>) = content A x" "wr_ok R A (x\<lparr>i_lock := l\<rparr>) nb = wr_ok R A x nb"
  "iblock s (x\<lparr>i_lock := l\<rparr>) = iblock s x" "iblock s (x\<lparr>i_size := v\<rparr>) = iblock s x"
proof -
  show b: "baddr A (x\<lparr>i_lock := l\<rparr>) = baddr A x" by (rule ext) (simp add: baddr_def)
  show "content A (x\<lparr>i_lock := l\<rparr>) = content A x" by (simp add: content_def fbyte_def[abs_def] b)
  show "wr_ok R A (x\<lparr>i_lock := l\<rparr>) nb = wr_ok R A x nb" by (simp add: wr_ok_def mapped_to_def separate_def b)
qed (simp_all add: iblock_def)

text \<open>The commit changes only blocks of the log.\<close>

lemma content_commit:
  assumes v: "\<And>m. m \<notin> R \<Longrightarrow> ac_view B m = ac_view A m" and w: "wr_ok R A x nb" and i: "NDIRECT < nb \<longrightarrow> i_addrs x NDIRECT \<notin> R"
    and sz: "unat (i_size x) \<le> BSIZE * nb" and h: "ac_held B = (\<lambda>_. None)"
  shows "content B x = content A x" "wr_ok R B x nb" "bn < nb \<Longrightarrow> baddr B x bn = baddr A x bn"
proof -
  have b: "baddr B x bn = baddr A x bn" if "bn < nb" for bn using v i that by (auto simp: baddr_def)
  then show "bn < nb \<Longrightarrow> baddr B x bn = baddr A x bn" .
  have "fbyte B x k = fbyte A x k" if "k < unat (i_size x)" for k
  proof -
    have n: "k div BSIZE < nb" using that sz by (simp add: less_mult_imp_div_less mult.commute)
    then have "baddr A x (k div BSIZE) \<notin> R" using w by (simp add: wr_ok_def)
    then show ?thesis using b[OF n] v by (simp add: fbyte_def)
  qed
  then show "content B x = content A x" by (simp add: content_def)
  have "at_rest B m = at_rest A m" for m using w h by (simp add: at_rest_def wr_ok_def)
  moreover have "inj_on (baddr B x) {..<nb}" using w b by (simp add: wr_ok_def separate_def inj_on_def)
  ultimately show "wr_ok R B x nb" using w b h by (simp add: wr_ok_def mapped_to_def separate_def)
qed

lemma overlay_overlay:
  assumes "off \<le> length d"
  shows "overlay (overlay d off xs) (off + length xs) ys = overlay d off (xs @ ys)"
  using assms by (simp add: overlay_def min_def add_ac)

lemma write_blocks: "r \<le> 1536 \<Longrightarrow> blocks off r \<le> 4"
proof -
  assume "r \<le> 1536"
  then have "off mod 512 + r + 511 < 5 * 512" by (simp add: less_le_trans[of "off mod 512 + r + 511" "512 + 1536 + 511"])
  then have "(off mod 512 + r + 511) div 512 < 5" by (rule less_mult_imp_div_less)
  then show ?thesis by (simp add: blocks_def)
qed

text \<open>The end of a step: the inode is unlocked and the transaction committed.\<close>

definition unlocked :: "inode \<Rightarrow> inode" where
  "unlocked x = x\<lparr>i_lock := (i_lock x)\<lparr>sl_locked := 0, sl_pid := 0\<rparr>\<rparr>"

lemma unlock_commit:
  fixes s :: "'a fs_st_scheme"
  assumes tx: "txinv c u R s" and o: "log_outstanding s = 1" "log_committing s = 0" "6 \<le> unat (log_size s)" and h: "idle_cache s"
    and x: "0 < int_of (i_ref (inode s ip))" "free_lock (sl_lk (i_lock (inode s ip)))" "sl_locked (i_lock (inode s ip)) \<noteq> 0"
  shows "\<exists>t. rbind (iunlock c (Some ip) s) (end_op c) = Ok t \<and> quiet_log c u R t \<and> fsb t = fsb s \<and>
    inode t = (inode s)(ip := unlocked (inode s ip)) \<and> fs_st.more t = fs_st.more s \<and>
    (\<forall>m. m \<notin> R \<longrightarrow> ac_view (babs t) m = ac_view (babs s) m)"
proof -
  have l: "linv c u s" "free_lock (log_lock s)" "lregion s = R" using tx by (simp_all add: txinv_def)
  let ?r = "iupd ip unlocked s"
  obtain t1 where t1: "iunlock c (Some ip) s = Ok t1" "calm c u t1" "bview t1 = bview ?r"
    using iunlock_ok[OF linv_calm[OF l(1)] x] unfolding unlocked_def by blast
  have "linv c u ?r" using l(1) by simp
  note V = bview_log[OF t1(3,2) this]
  have fl: "log_lock ?r = log_lock s" "log_outstanding ?r = 1" "log_committing ?r = 0" "lregion ?r = R" "log_size ?r = log_size s"
    using o l(3) by (simp_all add: iupd_def lregion_def)
  have "idle_cache t1" using h V(2) by (simp add: idle_cache_def)
  from end_op_last[OF V(1) this] V(3-7) fl l(2) obtain t where t: "end_op c t1 = Ok t" "linv c u t" "idle_cache t" "lh_n t = 0"
      "free_lock (log_lock t)" "log_outstanding t = 0" "log_committing t = 0" "lregion t = R" "log_st.more t = log_st.more t1"
      "log_size t = log_size s" "\<And>m. m \<notin> R \<Longrightarrow> ac_view (babs t) m = ac_view (babs s) m"
    using V(2) by auto
  have "log_st.more t = log_st.more ?r" using t(9) V(9) by simp
  then have "fsb t = fsb ?r" "inode t = inode ?r" "fs_st.more t = fs_st.more ?r" by (rule more_fields)+
  then have m: "fsb t = fsb s" "inode t = (inode s)(ip := unlocked (inode s ip))" "fs_st.more t = fs_st.more s"
    by (simp_all add: iupd_def)
  have "quiet_log c u R t" using t o by (simp add: quiet_log_def)
  then show ?thesis using t1(1) t(1,11) m by auto
qed

lemma fupd_simps [simp]:
  "ftab (fupd f g s) f = g (ftab s f)" "inode (fupd f g s) = inode s" "fsb (fupd f g s) = fsb s" "babs (fupd f g s) = babs s"
  "log_outstanding (fupd f g s) = log_outstanding s" "log_committing (fupd f g s) = log_committing s" "log_size (fupd f g s) = log_size s"
  by (simp_all add: fupd_def babs_def bcores_def[abs_def])

lemma calm_fupd [simp]: "calm c u (fupd f g s) = calm c u s"
  by (rule iffI; erule calm_cong; simp add: fupd_def)

lemma linv_fupd [simp]: "linv c u (fupd f g s) = linv c u s"
proof -
  have "binv c u (fupd f g s) = binv c u s" by (rule binv_cong) (simp, simp_all add: fupd_def)
  then show ?thesis by (rule linv_cong) (simp, simp_all add: fupd_def)
qed

lemma txinv_fupd [simp]: "txinv c u R (fupd f g s) = txinv c u R s"
  by (simp add: txinv_def) (simp add: fupd_def lregion_def)

lemma lframe_log:
  assumes "lframe s t"
  shows "log_lock t = log_lock s" "log_outstanding t = log_outstanding s" "log_committing t = log_committing s" "log_size t = log_size s"
  using arg_cong[OF assms[unfolded lframe_def], of log_lock] arg_cong[OF assms[unfolded lframe_def], of log_outstanding]
    arg_cong[OF assms[unfolded lframe_def], of log_committing] arg_cong[OF assms[unfolded lframe_def], of log_size]
  by (simp_all add: bview_def)

lemma more_ftab:
  fixes s t :: "'a file_st_scheme"
  assumes "fs_st.more t = fs_st.more s"
  shows "ftab t = ftab s"
  using assms by (cases s, cases t, simp)

text \<open>The write itself, inside the transaction, with the inode locked.\<close>

definition locked_by :: "uint \<Rightarrow> inode \<Rightarrow> inode" where
  "locked_by u x = x\<lparr>i_lock := (i_lock x)\<lparr>sl_locked := 1, sl_pid := u\<rparr>\<rparr>"

lemma write_locked:
  fixes s :: "'a file_st_scheme" and ip :: nat and u :: uint
  defines "x \<equiv> inode s ip" and "s2 \<equiv> iupd ip (locked_by u) (s\<lparr>log_outstanding := 1\<rparr>)"
  assumes q: "quiet_log c u R s" and w: "winode R nb ip s" and off: "unat off \<le> unat (i_size x)" "unat off + length cs \<le> 512 * nb"
    and k: "length cs \<le> 1536" and src: "\<And>j. j < length cs \<Longrightarrow> src j = Ok (cs ! j)"
  shows "\<exists>t. writei c ip src off (of_nat (length cs)) s2 = Ok (int (length cs), t) \<and> txinv c u R t \<and> wr_ok R (babs t) (inode t ip) nb \<and>
    inode t = (inode s)(ip := (locked_by u x)\<lparr>i_size := max (i_size x) (off + of_nat (length cs))\<rparr>) \<and>
    lframe (s2\<lparr>inode := inode t\<rparr>) t \<and> content (babs t) (inode t ip) = overlay (content (babs s) x) (unat off) cs \<and>
    (\<forall>bn < nb. baddr (babs t) (inode t ip) bn = baddr (babs s) x bn)"
proof -
  let ?n = "of_nat (length cs) :: uint" and ?y = "locked_by u x"
  have Q: "linv c u s" "free_lock (log_lock s)" "lh_n s = 0" "lregion s = R" "6 \<le> unat (log_size s)"
    using q by (simp_all add: quiet_log_def)
  have W: "i_type x \<noteq> T_DEV" "wr_ok R (babs s) x nb" "unat (i_size x) \<le> 512 * nb" "iblock s x < FSSIZE" "iblock s x \<notin> R"
    "iblock s x \<notin> baddr (babs s) x ` {..<nb}" "NDIRECT < nb \<longrightarrow> iblock s x \<noteq> i_addrs x NDIRECT"
    using w by (simp_all add: winode_def Let_def x_def)
  have l1: "linv c u (s\<lparr>log_outstanding := 1\<rparr>)" using Q(1) by (subst linv_cong[where s = s]) simp_all
  then have "txinv c u R (s\<lparr>log_outstanding := 1\<rparr>)" using Q(2,4) by (simp add: txinv_def lregion_def int_of_def)
  then have tx: "txinv c u R s2" by (simp add: s2_def)
  have y: "inode s2 ip = ?y" "babs s2 = babs s" "iblock s2 ?y = iblock s x" "tcap s2 = tcap s"
    by (simp_all add: s2_def x_def locked_by_def iblock_def) (simp add: iupd_def tcap_def)
  have un: "unat ?n = length cs" using k by (simp add: unat_of_nat_uint)
  have "blocks (unat off) (length cs) \<le> 4" using k by (rule write_blocks)
  then have cap: "blocks (unat off) (unat ?n) + 1 \<le> tcap s2" unfolding y(4) un using Q(3,5) by (simp add: tcap_def)
  have "\<exists>t. writei c ip src off ?n s2 = Ok (int (unat ?n), t) \<and> txinv c u R t \<and> wr_ok R (babs t) (inode t ip) nb \<and>
    inode t = (inode s2)(ip := ?y\<lparr>i_size := max (i_size ?y) (off + ?n)\<rparr>) \<and> lframe (s2\<lparr>inode := inode t\<rparr>) t \<and>
    content (babs t) (inode t ip) = overlay (content (babs s) ?y) (unat off) cs \<and>
    (\<forall>bn < nb. baddr (babs t) (inode t ip) bn = baddr (babs s) ?y bn)"
    using writei_ok[where s = s2 and ip = ip and bs = cs and src = src and off = off and n = ?n and nb = nb, OF tx] W off src cap
    unfolding y un by (auto simp: locked_by_def un)
  moreover have "(inode s2)(ip := v) = (inode s)(ip := v)" for v by (simp add: s2_def iupd_def)
  moreover have "i_size ?y = i_size x" "content A ?y = content A x" "baddr A ?y = baddr A x" for A by (simp_all add: locked_by_def)
  ultimately show ?thesis unfolding un by simp
qed

lemma winode_commit:
  fixes s t r :: "'a file_st_scheme"
  assumes w: "winode R nb ip s" and W: "wr_ok R (babs t) (inode t ip) nb" "unat (i_size (inode t ip)) \<le> 512 * nb"
    and x: "inode t ip = (locked_by u (inode s ip))\<lparr>i_size := v\<rparr>" "inode r ip = unlocked (inode t ip)" "fsb r = fsb s"
    and b: "\<And>bn. bn < nb \<Longrightarrow> baddr (babs t) (inode t ip) bn = baddr (babs s) (inode s ip) bn"
    and q: "quiet_log c u R r" and v: "\<And>m. m \<notin> R \<Longrightarrow> ac_view (babs r) m = ac_view (babs t) m"
  shows "winode R nb ip r" "content (babs r) (inode r ip) = content (babs t) (inode t ip)"
proof -
  let ?x = "inode s ip" and ?y = "inode t ip"
  have a: "i_addrs ?y = i_addrs ?x" "i_ref ?y = i_ref ?x" "i_valid ?y = i_valid ?x" "i_type ?y = i_type ?x" "i_inum ?y = i_inum ?x"
    "sl_lk (i_lock ?y) = sl_lk (i_lock ?x)" by (simp_all add: x(1) locked_by_def)
  have "ac_held (babs r) = (\<lambda>_. None)" using q by (simp add: quiet_log_def idle_cache_def)
  moreover have "NDIRECT < nb \<longrightarrow> i_addrs ?y NDIRECT \<notin> R" using w by (simp add: winode_def Let_def a)
  moreover have "unat (i_size ?y) \<le> BSIZE * nb" using W(2) by (simp add: BSIZE_def)
  ultimately have C: "content (babs r) ?y = content (babs t) ?y" "wr_ok R (babs r) ?y nb" "\<And>bn. bn < nb \<Longrightarrow> baddr (babs r) ?y bn = baddr (babs t) ?y bn"
    using content_commit[OF v W(1)] by blast+
  then show "content (babs r) (inode r ip) = content (babs t) ?y" by (simp add: x(2) unlocked_def)
  have "baddr (babs r) ?y ` {..<nb} = baddr (babs s) ?x ` {..<nb}" using C(3) b by (intro image_cong) simp_all
  moreover have "iblock r ?y = iblock s ?x" by (simp add: iblock_def a x(3))
  ultimately show "winode R nb ip r" using w C(2) W(2) by (simp add: winode_def Let_def x(2) unlocked_def a)
qed

lemma filewrite_step:
  fixes s :: "'a file_st_scheme" and ip f :: nat
  defines "x \<equiv> inode s ip" and "off \<equiv> f_off (ftab s f)"
  assumes q: "quiet_log c u R s" and w: "winode R nb ip s" and f: "wfile f ip s"
    and k: "0 < length cs" "length cs \<le> 1536" "unat off + length cs \<le> 512 * nb"
    and i: "0 \<le> i" "int (length cs) = min (n - i) write_max" and src: "\<And>j. j < length cs \<Longrightarrow> src (nat i + j) = Ok (cs ! j)"
  shows "\<exists>t. filewrite_body c f src n (i, s) = Ok (Inr (i + int (length cs), t)) \<and> quiet_log c u R t \<and> winode R nb ip t \<and> wfile f ip t \<and>
    unat (f_off (ftab t f)) = unat off + length cs \<and>
    content (babs t) (inode t ip) = overlay (content (babs s) x) (unat off) cs"
proof -
  let ?s1 = "s\<lparr>log_outstanding := 1\<rparr>" and ?n = "of_nat (length cs) :: uint" and ?g = "\<lambda>y. y\<lparr>f_off := f_off y + of_nat (length cs)\<rparr>"
  let ?s2 = "iupd ip (locked_by u) ?s1"
  have Q: "linv c u s" "free_lock (log_lock s)" "log_outstanding s = 0" "log_committing s = 0" "lh_n s = 0" "6 \<le> unat (log_size s)"
    using q by (simp_all add: quiet_log_def)
  have W: "0 < int_of (i_ref x)" "i_valid x \<noteq> 0" "free_lock (sl_lk (i_lock x))" "sl_locked (i_lock x) = 0" "unat (i_size x) \<le> 512 * nb"
    "nb \<le> 140" using w by (simp_all add: winode_def Let_def x_def wr_ok_def mapped_to_def size_facts)
  have F: "f_ip (ftab s f) = Some ip" "unat off \<le> unat (i_size x)" using f by (simp_all add: wfile_def off_def x_def)
  have s1: "begin_op c s = Ok ?s1"
    using begin_op_ok[OF Q(1,2,4)] Q(3,5) by (simp add: log_space_def int_of_def MAXOPBLOCKS_def LOGSIZE_def)
  have s2: "ilock c (Some ip) ?s1 = Ok ?s2"
    using linv_calm[OF Q(1)] W(1-4) ilock_ok[of c u ?s1 ip] by (simp add: x_def locked_by_def[abs_def])
  obtain t where t: "writei c ip (\<lambda>k. src (nat i + k)) off ?n ?s2 = Ok (int (length cs), t)" "txinv c u R t" "wr_ok R (babs t) (inode t ip) nb"
      "inode t = (inode s)(ip := (locked_by u x)\<lparr>i_size := max (i_size x) (off + ?n)\<rparr>)" "lframe (?s2\<lparr>inode := inode t\<rparr>) t"
      "content (babs t) (inode t ip) = overlay (content (babs s) x) (unat off) cs"
      "\<And>bn. bn < nb \<Longrightarrow> baddr (babs t) (inode t ip) bn = baddr (babs s) x bn"
    using write_locked[OF q w F(2)[unfolded x_def] k(3,2), of "\<lambda>k. src (nat i + k)"] src unfolding x_def by blast
  have "fs_st.more t = fs_st.more s" "fsb t = fsb s" "log_outstanding t = 1" "log_committing t = 0" "log_size t = log_size s"
    using lframe_fs[OF t(5)] lframe_log[OF t(5)] Q(4) by (simp_all add: iupd_def)
  note T = this more_ftab[OF this(1)]
  let ?t = "fupd f ?g t"
  have un: "unat off + length cs < 4294967296" using k(3) W(6) by linarith
  then have off': "unat (off + ?n) = unat off + length cs" by (simp add: unat_word_ariths unat_of_nat_uint)
  have sz: "i_size (inode t ip) = max (i_size x) (off + ?n)" by (simp add: t(4))
  then have sz': "unat (i_size (inode t ip)) = max (unat (i_size x)) (unat off + length cs)" using off' by (simp add: max_def word_le_nat_alt)
  have "idle_cache ?t" using t(3) by (simp add: idle_cache_def wr_ok_def)
  moreover have "0 < int_of (i_ref (inode ?t ip))" "free_lock (sl_lk (i_lock (inode ?t ip)))" "sl_locked (i_lock (inode ?t ip)) \<noteq> 0"
    using W(1,3) by (simp_all add: t(4) locked_by_def)
  moreover have "txinv c u R ?t" "log_outstanding ?t = 1" "log_committing ?t = 0" "6 \<le> unat (log_size ?t)" using t(2) T Q(6) by simp_all
  ultimately obtain r where r: "rbind (iunlock c (Some ip) ?t) (end_op c) = Ok r" "quiet_log c u R r" "fsb r = fsb ?t"
      "inode r = (inode ?t)(ip := unlocked (inode ?t ip))" "fs_st.more r = fs_st.more ?t"
      "\<And>m. m \<notin> R \<Longrightarrow> ac_view (babs r) m = ac_view (babs ?t) m"
    using unlock_commit by blast
  have fr: "ftab r = ftab ?t" using more_ftab[OF r(5)] .
  have wr: "winode R nb ip r" "content (babs r) (inode r ip) = content (babs t) (inode t ip)"
  proof -
    have p: "unat (i_size (inode t ip)) \<le> 512 * nb" using sz' W(5) k(3) by simp
    have y: "inode t ip = (locked_by u (inode s ip))\<lparr>i_size := max (i_size x) (off + ?n)\<rparr>" by (simp add: t(4) x_def)
    have z: "inode r ip = unlocked (inode t ip)" "fsb r = fsb s" using r(3,4) T by simp_all
    have v: "\<And>m. m \<notin> R \<Longrightarrow> ac_view (babs r) m = ac_view (babs t) m" using r(6) by simp
    note e = winode_commit[OF w t(3) p y z t(7)[unfolded x_def] r(2) v]
    show "winode R nb ip r" "content (babs r) (inode r ip) = content (babs t) (inode t ip)" using e by blast+
  qed
  have "wfile f ip r" using f fr T sz' off' unfolding wfile_def
    by (simp add: r(4) unlocked_def off_def)
  moreover have "f_off (ftab r f) = off + ?n" by (simp add: fr T off_def)
  moreover have "filewrite_body c f src n (i, s) = Ok (Inr (i + int (length cs), r))"
  proof -
    have ft: "ftab ?s2 = ftab s" "ftab ?s1 = ftab s" by (simp_all add: iupd_def)
    have wi: "(word_of_int (int (length cs)) :: uint) = ?n" by simp
    have fi: "f_ip (ftab ?t f) = Some ip" using F(1) T by simp
    have lt: "i < n" using i(2) k(1) by linarith
    obtain r5 where "iunlock c (Some ip) ?t = Ok r5" "end_op c r5 = Ok r" using r(1) by (auto simp: rbind_eq_Ok_iff)
    then show ?thesis
      using s1 s2 t(1) F(1) ft lt k(1) fi by (simp add: filewrite_body_def Let_def i(2)[symmetric] wi off_def)
  qed
  ultimately show ?thesis using r(2) wr t(6) off' by auto
qed

lemma filewrite_ok:
  fixes s :: "'a file_st_scheme" and ip f :: nat
  defines "off \<equiv> f_off (ftab s f)" and "C \<equiv> content (babs s) (inode s ip)"
  assumes q: "quiet_log c u R s" and w: "winode R nb ip s" and f: "wfile f ip s"
    and k: "unat off + length bs \<le> 512 * nb" and src: "\<And>j. j < length bs \<Longrightarrow> src j = Ok (bs ! j)"
  shows "\<exists>t. filewrite c f src (int (length bs)) s = Ok (int (length bs), t) \<and> quiet_log c u R t \<and> winode R nb ip t \<and> wfile f ip t \<and>
    unat (f_off (ftab t f)) = unat off + length bs \<and> content (babs t) (inode t ip) = overlay C (unat off) bs"
proof -
  let ?n = "int (length bs)"
  let ?J = "\<lambda>i t. quiet_log c u R t \<and> winode R nb ip t \<and> wfile f ip t \<and> unat (f_off (ftab t f)) = unat off + nat i \<and>
      content (babs t) (inode t ip) = overlay C (unat off) (take (nat i) bs)"
  let ?I = "\<lambda>(i, t). 0 \<le> i \<and> i \<le> ?n \<and> ?J i t"
  have len: "unat off \<le> length C" using f by (simp add: wfile_def off_def C_def)
  have wm: "write_max = 1536" by (simp add: write_max_def MAXOPBLOCKS_def)
  have "\<exists>r. loop_res (filewrite_body c f src ?n) (0, s) = Ok r \<and> (\<lambda>(i, t). i = ?n \<and> ?J ?n t) r"
  proof (rule loop_res_rule[where I = ?I and M = "\<lambda>(i, _). nat (?n - i)"])
    show "?I (0, s)" using q w f len by (simp add: off_def C_def overlay_def)
  next
    fix z :: "int \<times> 'a file_st_scheme" assume I: "?I z"
    obtain i t where z: "z = (i, t)" by (cases z)
    have i: "0 \<le> i" "i \<le> ?n" and J: "quiet_log c u R t" "winode R nb ip t" "wfile f ip t" "unat (f_off (ftab t f)) = unat off + nat i"
      "content (babs t) (inode t ip) = overlay C (unat off) (take (nat i) bs)" using I by (auto simp: z)
    show "(\<exists>r. filewrite_body c f src ?n z = Ok (Inl r) \<and> (\<lambda>(i, t). i = ?n \<and> ?J ?n t) r) \<or>
      (\<exists>z'. filewrite_body c f src ?n z = Ok (Inr z') \<and> ?I z' \<and> (\<lambda>(i, _). nat (?n - i)) z' < (\<lambda>(i, _). nat (?n - i)) z)"
    proof (cases "i < ?n")
      case False
      then have "i = ?n" using i by simp
      then show ?thesis using J by (simp add: z filewrite_body_def)
    next
      case True
      let ?m = "nat (min (?n - i) write_max)"
      let ?cs = "take ?m (drop (nat i) bs)"
      have m: "0 < ?m" "?m \<le> 1536" "nat i + ?m \<le> length bs" using True i by (simp_all add: wm)
      have lc: "length ?cs = ?m" using m(3) by simp
      have im: "int (length ?cs) = min (?n - i) write_max" using lc True by (simp add: wm)
      have "\<exists>t'. filewrite_body c f src ?n (i, t) = Ok (Inr (i + int (length ?cs), t')) \<and> quiet_log c u R t' \<and> winode R nb ip t' \<and>
          wfile f ip t' \<and> unat (f_off (ftab t' f)) = unat (f_off (ftab t f)) + length ?cs \<and>
          content (babs t') (inode t' ip) = overlay (content (babs t) (inode t ip)) (unat (f_off (ftab t f))) ?cs"
        by (rule filewrite_step[OF J(1-3) _ _ _ i(1) im]) (use m lc J(4) k src in auto)
      then obtain t' where t': "filewrite_body c f src ?n (i, t) = Ok (Inr (i + int ?m, t'))" "quiet_log c u R t'" "winode R nb ip t'"
          "wfile f ip t'" "unat (f_off (ftab t' f)) = unat off + nat i + ?m"
          "content (babs t') (inode t' ip) = overlay (overlay C (unat off) (take (nat i) bs)) (unat off + nat i) ?cs"
        unfolding lc J(4,5) by blast
      have ni: "nat (i + int ?m) = nat i + ?m" using i(1) nat_add_distrib[of i "int ?m"] by linarith
      have "length (take (nat i) bs) = nat i" using i by simp
      then have "content (babs t') (inode t' ip) = overlay C (unat off) (take (nat i + ?m) bs)"
        using overlay_overlay[OF len, of "take (nat i) bs" ?cs] t'(6) by (simp add: take_add)
      then have "?J (i + int ?m) t'" using t'(2-5) unfolding ni by (simp add: add.assoc)
      moreover have "i + int ?m \<le> ?n" "0 \<le> i + int ?m" "nat (?n - (i + int ?m)) < nat (?n - i)" using m i by linarith+
      ultimately show ?thesis using t'(1) unfolding z by (intro disjI2 exI[of _ "(i + int ?m, t')"]) (simp only: prod.case simp_thms)
    qed
  qed
  then obtain t where t: "loop_res (filewrite_body c f src ?n) (0, s) = Ok (?n, t)" "?J ?n t" by auto
  have "filewrite c f src ?n s = Ok (?n, t)" using f t(1) by (simp add: filewrite_def wfile_def)
  then show ?thesis using t(2) by auto
qed

text \<open>With nothing in the log, the disk has what the file system sees.\<close>

lemma quiet_disk:
  assumes "quiet_log c u R s"
  shows "disk s 1 (unat m) = ac_view (babs s) m"
proof -
  have q: "linv c u s" "idle_cache s" "lh_n s = 0" using assms by (simp_all add: quiet_log_def)
  then have "ac_view (babs s) m = ac_disk (babs s) m" using bc.coherent[of c u s m] by (simp add: linv_def idle_cache_def)
  then show ?thesis by (simp add: babs_def cabs_def)
qed

end
