(* ===== verification/Props_Fs.thy ===== *)
theory Props_Fs
  imports Demo_Sys File_Thms
begin

text \<open>
  Properties of the file system: the block allocator, inodes on disk, reading and writing
  the content of an inode.
\<close>

declare One_nat_def [simp]

section \<open>A file system\<close>

text \<open>
  Blocks 0 to 59 hold the boot block, the superblock, the log, the inodes, the bitmap (block
  58) and are marked as used, the others are free in the bitmap.  Entry 1 of the inode cache
  is a file of 1000 bytes in blocks 100 and 101.
\<close>

definition demo_fs_disk :: "nat \<Rightarrow> byte list" where
  "demo_fs_disk m =
     (if m = 1 then fold (\<lambda>(i, v) d. stw d i v) [(0, 1000), (4, 941), (8, 200), (12, 30), (16, 2), (20, 32), (24, 58)] (replicate BSIZE 0)
      else if m = 58 then replicate 7 0xFF @ [0x0F] @ replicate 504 0
      else replicate BSIZE 0)"

definition demo_fs :: sys_st where
  "demo_fs = (demo_log demo_fs_disk demo_buf 0 (\<lambda>_. 0) (log_st.more demo_sys))\<lparr>log_outstanding := 1,
     inode := (\<lambda>_. demo_inode)(1 := demo_inode\<lparr>i_dev := ROOTDEV, i_inum := 5, i_ref := 1, i_valid := 1, i_type := T_FILE,
       i_nlink := 1, i_size := 1000, i_addrs := (\<lambda>_. 0)(0 := 100, 1 := 101)\<rparr>)\<rparr>"

abbreviation demo_log_blocks :: "uint set" where
  "demo_log_blocks \<equiv> {m. 2 \<le> unat m \<and> unat m < 32}"

lemma length_demo_fs_disk [simp]: "length (demo_fs_disk m) = BSIZE"
  by (simp add: demo_fs_disk_def BSIZE_def)

lemma demo_fs_abs: "babs demo_fs =
    \<lparr>ac_disk = (\<lambda>m. demo_fs_disk (unat m)), ac_view = (\<lambda>m. demo_fs_disk (unat m)), ac_pin = {}, ac_held = (\<lambda>_. None), ac_writes = []\<rparr>"
proof -
  let ?s = "demo_log demo_fs_disk demo_buf 0 (\<lambda>_. 0) (log_st.more demo_sys)"
  have "babs demo_fs = babs ?s" by (simp add: babs_def bcores_def[abs_def] demo_fs_def)
  then show ?thesis by (simp only: demo_fresh_abs)
qed

lemma demo_fs_parts: "fsb demo_fs = fsb demo_sys" "tcap demo_fs = 29" "sb_size (fsb demo_sys) = 1000" "sb_bmapstart (fsb demo_sys) = 58"
  "sb_inodestart (fsb demo_sys) = 32"
  "inode demo_fs 1 = demo_inode\<lparr>i_dev := ROOTDEV, i_inum := 5, i_ref := 1, i_valid := 1, i_type := T_FILE,
       i_nlink := 1, i_size := 1000, i_addrs := (\<lambda>_. 0)(0 := 100, 1 := 101)\<rparr>"
  by (simp_all add: demo_fs_def demo_sys_def demo_log_def tcap_def)

lemma demo_fs_txinv: "txinv 0 1 demo_log_blocks demo_fs"
proof -
  let ?s = "demo_log demo_fs_disk demo_buf 0 (\<lambda>_. 0) (log_st.more demo_sys)"
  have b: "binv 0 1 ?s" by (intro demo_binv demo_fresh) simp_all
  then have c: "calm 0 1 ?s" by (simp add: binv_def ide_idle_def)
  then have "calm 0 1 demo_fs" by (rule calm_cong) (simp_all add: demo_fs_def)
  with b c have "binv 0 1 demo_fs" by (subst binv_cong[where s = ?s]) (simp_all add: demo_fs_def)
  moreover have "ldw (demo_fs_disk 2) 0 = 0" by (rule ldw_zero) (simp_all add: demo_fs_disk_def BSIZE_def)
  moreover have "log_dev demo_fs = ROOTDEV" "log_size demo_fs = 30" "log_start demo_fs = 2" "lh_n demo_fs = 0"
    "log_lock demo_fs = initlock ''log''" "log_outstanding demo_fs = 1"
    by (simp_all add: demo_fs_def demo_log_def)
  ultimately show ?thesis
    by (simp add: txinv_def linv_def demo_fs_abs LOGSIZE_def MAXOPBLOCKS_def FSSIZE_def lregion_def int_of_def)
qed

lemma demo_fs_bitmap: "bit_used (bitmap demo_fs) k \<longleftrightarrow> k < 60" if "k < 1000" for k
proof -
  have "bitmap demo_fs = replicate 7 0xFF @ [0x0F] @ replicate 504 0"
    by (simp add: bitmap_def bmap_block_def demo_fs_parts demo_fs_abs demo_fs_disk_def)
  then have d: "bitmap demo_fs ! (k div 8) = (if k div 8 < 7 then 0xFF else if k div 8 = 7 then 0x0F else 0)"
    using that by (auto simp: nth_append)
  have "bit (0xFF :: byte) r" "bit (0x0F :: byte) r \<longleftrightarrow> r < 4" if "r < 8" for r
    using that by (auto simp: less_Suc_eq numeral_eq_Suc)
  then have "bit_used (bitmap demo_fs) k \<longleftrightarrow> k div 8 < 7 \<or> k div 8 = 7 \<and> k mod 8 < 4"
    by (auto simp: bit_used_iff d)
  then show ?thesis by presburger
qed

lemma demo_fs_layout: "layout demo_log_blocks demo_fs" "first_free demo_fs 60"
proof -
  have "bmap_block demo_fs = 58" by (simp add: bmap_block_def demo_fs_parts)
  moreover have "unat b < 1000" if "b < (1000 :: uint)" for b using that by (simp add: word_less_nat_alt)
  ultimately show "layout demo_log_blocks demo_fs"
    by (auto simp: layout_def demo_fs_parts demo_fs_bitmap FSSIZE_def)
  show "first_free demo_fs 60" by (simp add: first_free_def demo_fs_parts demo_fs_bitmap)
qed

lemma demo_fs_super: "sb_of (ac_view (babs demo_fs) 1) = fsb demo_fs"
proof -
  have f: "fits (replicate BSIZE 0) i 4" if "i \<le> 28" for i using that by (simp add: fits_def BSIZE_def)
  show ?thesis unfolding demo_fs_parts
    by (simp add: demo_fs_abs demo_fs_disk_def sb_of_def f) (simp add: demo_sys_def)
qed

section \<open>The block allocator\<close>

text \<open>
  C15: Inside a transaction \<open>balloc\<close> returns the first block that the bitmap has free: its bit
  is set, the block is zeroed, every other block keeps its content, and all of it is logged.
  When no bit is clear the kernel panics.
\<close>

theorem balloc_takes_first_free:
  assumes "txinv c u R s" "layout R s" "ac_held (babs s) = (\<lambda>_. None)" "2 \<le> tcap s"
  shows "(\<forall>k. first_free s k \<longrightarrow>
       (\<exists>t. balloc c ROOTDEV s = Ok (of_nat k, t) \<and> txinv c u R t \<and> bitmap t = set_bit_of (bitmap s) k \<and>
          ac_view (babs t) (of_nat k) = replicate BSIZE 0 \<and> of_nat k \<in> ac_pin (babs t) \<and> bmap_block s \<in> ac_pin (babs t) \<and>
          (\<forall>m. m \<noteq> of_nat k \<and> m \<noteq> bmap_block s \<longrightarrow> ac_view (babs t) m = ac_view (babs s) m))) \<and>
     ((\<forall>j < unat (sb_size (fsb s)). bit_used (bitmap s) j) \<longrightarrow> balloc c ROOTDEV s = Panic ''balloc: out of blocks'')"
proof (intro conjI allI impI)
  fix k assume k: "first_free s k"
  have ne: "(of_nat k :: uint) \<noteq> bmap_block s" using first_free_outside[OF assms(2) k] by simp
  obtain t where t: "balloc c ROOTDEV s = Ok (of_nat k, t)" "txinv c u R t" "lframe s t"
      "babs t = ac_mark (of_nat k) (ac_set (of_nat k) (replicate BSIZE 0)
               (ac_mark (bmap_block s) (ac_set (bmap_block s) (set_bit_of (bitmap s) k) (babs s))))"
    using balloc_ok[OF assms(1,2) k] assms(3,4) by auto
  have "bmap_block t = bmap_block s" using lframe_fs(1)[OF t(3)] by (simp add: bmap_block_def)
  then show "\<exists>t. balloc c ROOTDEV s = Ok (of_nat k, t) \<and> txinv c u R t \<and> bitmap t = set_bit_of (bitmap s) k \<and>
          ac_view (babs t) (of_nat k) = replicate BSIZE 0 \<and> of_nat k \<in> ac_pin (babs t) \<and> bmap_block s \<in> ac_pin (babs t) \<and>
          (\<forall>m. m \<noteq> of_nat k \<and> m \<noteq> bmap_block s \<longrightarrow> ac_view (babs t) m = ac_view (babs s) m)"
    using t(1,2) ne by (intro exI[of _ t]) (auto simp: bitmap_def[of t] t(4) ac_mark_def ac_set_def)
qed (use balloc_full[OF assms(1,2)] assms(3) in simp)

theorem balloc_takes_first_free_witness:
  "\<exists>t. balloc 0 ROOTDEV demo_fs = Ok (60, t) \<and> bit_used (bitmap t) 60"
proof -
  have "ac_held (babs demo_fs) = (\<lambda>_. None)" "2 \<le> tcap demo_fs" by (simp_all add: demo_fs_abs demo_fs_parts)
  from balloc_takes_first_free[OF demo_fs_txinv demo_fs_layout(1) this] demo_fs_layout(2) obtain t where
    "balloc 0 ROOTDEV demo_fs = Ok (of_nat 60, t)" "bitmap t = set_bit_of (bitmap demo_fs) 60" by blast
  moreover have "bitmap demo_fs ! 7 = 0x0F" by (simp add: bitmap_def bmap_block_def demo_fs_parts demo_fs_abs demo_fs_disk_def nth_append)
  ultimately show ?thesis by (auto simp: bit_used_set bitmap_def[of demo_fs] demo_fs_abs BSIZE_def)
qed

text \<open>
  C32: \<open>bfree\<close> undoes \<open>balloc\<close>: after allocating a block and freeing it the bitmap is what it
  was, and freeing the block a second time panics, as does freeing it without allocating it.
\<close>

theorem bfree_undoes_balloc:
  assumes "txinv c u R s" "layout R s" "ac_held (babs s) = (\<lambda>_. None)" "4 \<le> tcap s" "first_free s k"
    "sb_of (ac_view (babs s) 1) = fsb s" "bit_used (bitmap s) 1" "bmap_block s \<noteq> 1"
  shows "\<exists>t r. balloc c ROOTDEV s = Ok (of_nat k, t) \<and> bfree c ROOTDEV (of_nat k) t = Ok r \<and> txinv c u R r \<and>
    bitmap r = bitmap s \<and> bfree c ROOTDEV (of_nat k) r = Panic ''freeing free block'' \<and>
    bfree c ROOTDEV (of_nat k) s = Panic ''freeing free block''"
proof -
  let ?k = "of_nat k :: uint" and ?bb = "bmap_block s"
  have ks: "k < unat (sb_size (fsb s))" "\<not> bit_used (bitmap s) k" using assms(5) by (simp_all add: first_free_def)
  have uk: "unat ?k = k" using ks(1) unat_uint_less[of "sb_size (fsb s)"] by (simp add: unat_of_nat_uint)
  have kb: "?k < sb_size (fsb s)" using ks(1) uk by (simp add: word_less_nat_alt)
  have k1: "?k \<noteq> 1" using assms(7) ks(2) uk by auto
  have ne: "?k \<noteq> ?bb" using first_free_outside[OF assms(2,5)] by simp
  obtain t where t: "balloc c ROOTDEV s = Ok (?k, t)" "txinv c u R t" "lframe s t" "tcap s \<le> tcap t + 2"
      "babs t = ac_mark ?k (ac_set ?k (replicate BSIZE 0) (ac_mark ?bb (ac_set ?bb (set_bit_of (bitmap s) k) (babs s))))"
    using balloc_ok[OF assms(1,2,5)] assms(3,4) by auto
  have T: "fsb t = fsb s" "bmap_block t = ?bb" "ac_view (babs t) 1 = ac_view (babs s) 1" "ac_held (babs t) = (\<lambda>_. None)"
    "bitmap t = set_bit_of (bitmap s) k"
    using lframe_fs(1)[OF t(3)] k1 assms(3,8) ne by (auto simp: bmap_block_def bitmap_def t(5) ac_mark_def ac_set_def)
  have "unat (sb_size (fsb s)) \<le> 2000" using layout_one_block(4)[OF assms(2)] .
  then have k8: "k div 8 < length (bitmap s)" using ks(1) tx.sized[OF assms(1)] by (simp add: bitmap_def BSIZE_def)
  have lay: "layout R t" using assms(2) k8 by (simp add: layout_def T bit_used_set)
  have cl: "clear_bit_of (set_bit_of (bitmap s) k) k = bitmap s" using ks(2) k8 by (rule clear_set_bit)
  obtain r where r: "bfree c ROOTDEV ?k t = Ok r" "txinv c u R r" "lframe t r" "tcap t \<le> tcap r + 1"
      "babs r = ac_mark ?bb (ac_set ?bb (bitmap s) (babs t))"
    using bfree_ok[OF t(2) lay, of ?k] assms(4,6) t(4) kb k8 uk by (auto simp: T bit_used_set cl)
  have U: "fsb r = fsb s" "bmap_block r = ?bb" "ac_view (babs r) 1 = ac_view (babs s) 1" "ac_held (babs r) = (\<lambda>_. None)" "bitmap r = bitmap s"
    using lframe_fs(1)[OF r(3)] T assms(8) by (auto simp: bmap_block_def bitmap_def r(5) ac_mark_def ac_set_def)
  have "layout R r" using assms(2) by (simp add: layout_def U)
  from bfree_ok[OF r(2) this, of ?k] bfree_ok[OF assms(1,2,6), of ?k] t(4) r(4) assms(3,4,6) kb uk ks(2)
  have "bfree c ROOTDEV ?k r = Panic ''freeing free block''" "bfree c ROOTDEV ?k s = Panic ''freeing free block''"
    by (simp_all add: U)
  then show ?thesis using t(1) r(1,2) U(5) by blast
qed

theorem bfree_undoes_balloc_witness:
  "\<exists>t r. balloc 0 ROOTDEV demo_fs = Ok (60, t) \<and> bfree 0 ROOTDEV 60 t = Ok r \<and> bitmap r = bitmap demo_fs"
proof -
  have "ac_held (babs demo_fs) = (\<lambda>_. None)" "4 \<le> tcap demo_fs" "bit_used (bitmap demo_fs) 1" "bmap_block demo_fs \<noteq> 1"
    by (simp_all add: demo_fs_abs demo_fs_parts demo_fs_bitmap bmap_block_def del: One_nat_def)
  with bfree_undoes_balloc[OF demo_fs_txinv demo_fs_layout(1) _ _ demo_fs_layout(2) demo_fs_super]
  show ?thesis by fastforce
qed

section \<open>Inodes on disk\<close>

text \<open>
  C33: An inode survives its trip to the disk block: storing \<open>struct dinode\<close> in its slot, as
  \<open>iupdate\<close> does, and loading it from there, as \<open>ilock\<close> does, gives the same type, numbers,
  link count, size and 13 addresses, and leaves the seven other inodes of the block alone.
\<close>

theorem dinode_roundtrip:
  assumes "length d = BSIZE"
  shows "get_dinode (put_dinode d (dinode_off i) x) (dinode_off i) = on_disk x \<and>
    length (put_dinode d (dinode_off i) x) = BSIZE \<and>
    (i mod IPB \<noteq> j mod IPB \<longrightarrow> get_dinode (put_dinode d (dinode_off i) x) (dinode_off j) = get_dinode d (dinode_off j))"
proof (intro conjI impI)
  show "get_dinode (put_dinode d (dinode_off i) x) (dinode_off i) = on_disk x"
    by (rule get_put_dinode[OF slot_fits[OF assms]])
  show "length (put_dinode d (dinode_off i) x) = BSIZE" using assms by simp
  assume "i mod IPB \<noteq> j mod IPB"
  then have "unat (i mod IPB) < unat (j mod IPB) \<or> unat (j mod IPB) < unat (i mod IPB)" by (metis nat_neq_iff word_unat_eq_iff)
  then have "dinode_off i + 64 \<le> dinode_off j \<or> dinode_off j + 64 \<le> dinode_off i"
    by (auto simp: dinode_off_def sizeof_dinode_def)
  then show "get_dinode (put_dinode d (dinode_off i) x) (dinode_off j) = get_dinode d (dinode_off j)"
    by (intro get_put_dinode_other slot_fits assms)
qed

theorem dinode_roundtrip_witness:
  "get_dinode (put_dinode (replicate BSIZE 0) (dinode_off 5) \<lparr>di_type = T_FILE, di_major = 0, di_minor = 0, di_nlink = 1,
      di_size = 1000, di_addrs = (\<lambda>_. 0)(0 := 100)\<rparr>) (dinode_off 5) =
     \<lparr>di_type = T_FILE, di_major = 0, di_minor = 0, di_nlink = 1, di_size = 1000, di_addrs = (\<lambda>_. 0)(0 := 100)\<rparr>"
  using dinode_roundtrip[of "replicate BSIZE 0"] by (auto simp: on_disk_def)

section \<open>Reading and writing\<close>

text \<open>
  C16: \<open>readi\<close> on a file whose blocks are allocated returns the bytes of the content from the
  offset on, at most \<open>n\<close> of them and none past the end of the file, with their number; an
  offset past the end or one that overflows 32 bits gives \<open>-1\<close>.  Nothing on the disk or in the
  view of it changes.
\<close>

theorem readi_reads_content:
  assumes "binv c u s" "card (ac_busy (babs s)) < NBUF" "i_type (inode s ip) \<noteq> T_DEV"
    "mapped_to (babs s) (inode s ip) nb" "unat (i_size (inode s ip)) \<le> BSIZE * nb"
  shows "if unat (i_size (inode s ip)) < unat off \<or> 4294967296 \<le> unat off + unat n then readi c ip off n s = Ok (-1, [], s)
    else \<exists>t. readi c ip off n s = Ok (int (min (unat n) (unat (i_size (inode s ip)) - unat off)),
        take (unat n) (drop (unat off) (content (babs s) (inode s ip))), t) \<and> binv c u t \<and> babs t = babs s \<and> inode t = inode s"
proof -
  have "unat (i_size (inode s ip)) \<le> 512 * nb" using assms(5) by (simp add: BSIZE_def)
  from readi_ok[OF assms(1-4) this, of off n] show ?thesis using bframe_fs(2)[of s] by (auto split: if_splits)
qed

lemma demo_fs_file: "wr_ok demo_log_blocks (babs demo_fs) (inode demo_fs 1) 2"
proof -
  have a: "baddr (babs demo_fs) (inode demo_fs 1) 0 = 100" "baddr (babs demo_fs) (inode demo_fs 1) 1 = 101"
    unfolding demo_fs_parts by (simp_all add: baddr_def NDIRECT_def)
  have lt2: "bn < 2 \<Longrightarrow> bn = 0 \<or> bn = 1" for bn :: nat by auto
  have "baddr (babs demo_fs) (inode demo_fs 1) bn \<in> {100, 101}" if "bn < 2" for bn using lt2[OF that] a by auto
  moreover have "at_rest (babs demo_fs) 100" "at_rest (babs demo_fs) 101"
    by (simp_all add: at_rest_def demo_fs_abs FSSIZE_def)
  ultimately have "\<forall>bn < 2. at_rest (babs demo_fs) (baddr (babs demo_fs) (inode demo_fs 1) bn) \<and>
      baddr (babs demo_fs) (inode demo_fs 1) bn \<notin> demo_log_blocks" by fastforce
  moreover have "inj_on (baddr (babs demo_fs) (inode demo_fs 1)) {..<2}"
  proof (rule inj_onI)
    fix x y :: nat assume "x \<in> {..<2}" "y \<in> {..<2}" and e: "baddr (babs demo_fs) (inode demo_fs 1) x = baddr (babs demo_fs) (inode demo_fs 1) y"
    then have "x = 0 \<or> x = 1" "y = 0 \<or> y = 1" using lt2 by simp_all
    then show "x = y" using e a by auto
  qed
  moreover have "ac_held (babs demo_fs) = (\<lambda>_. None)" "i_dev (inode demo_fs 1) = ROOTDEV"
    by (simp_all add: demo_fs_abs demo_fs_parts del: One_nat_def)
  ultimately show ?thesis by (simp add: wr_ok_def mapped_to_def separate_def size_facts del: One_nat_def)
qed

lemma demo_fs_inode: "i_type (inode demo_fs 1) \<noteq> T_DEV" "unat (i_size (inode demo_fs 1)) = 1000"
  by (simp_all add: demo_fs_parts T_FILE_def T_DEV_def del: One_nat_def)

lemma demo_fs_iblock: "iblock demo_fs (inode demo_fs 1) = 32" "iblock demo_fs (inode demo_fs 1) \<notin> baddr (babs demo_fs) (inode demo_fs 1) ` {..<2}"
proof -
  show ib: "iblock demo_fs (inode demo_fs 1) = 32" by (simp add: iblock_def demo_fs_parts IBLOCK_def IPB_def del: One_nat_def)
  have a: "baddr (babs demo_fs) (inode demo_fs 1) 0 = 100" "baddr (babs demo_fs) (inode demo_fs 1) 1 = 101"
    unfolding demo_fs_parts by (simp_all add: baddr_def NDIRECT_def)
  then have "baddr (babs demo_fs) (inode demo_fs 1) ` {..<2} = {100, 101}" by (simp add: lessThan_Suc numeral_2_eq_2 insert_commute)
  then show "iblock demo_fs (inode demo_fs 1) \<notin> baddr (babs demo_fs) (inode demo_fs 1) ` {..<2}" by (simp add: ib del: One_nat_def)
qed

theorem readi_reads_content_witness:
  "\<exists>t. readi 0 1 990 100 demo_fs = Ok (10, take 10 (drop 990 (content (babs demo_fs) (inode demo_fs 1))), t)"
proof -
  have "binv 0 1 demo_fs" "card (ac_busy (babs demo_fs)) < NBUF" "mapped_to (babs demo_fs) (inode demo_fs 1) 2"
    using demo_fs_txinv txinv_binv txinv_room[OF demo_fs_txinv] demo_fs_file by (auto simp: demo_fs_abs wr_ok_def)
  from readi_reads_content[OF this(1,2) demo_fs_inode(1) this(3), of 990 100] show ?thesis
    by (auto simp: demo_fs_inode BSIZE_def simp del: One_nat_def)
qed

text \<open>
  C8: Inside a transaction with room for the blocks it touches and the inode, \<open>writei\<close> of \<open>n\<close>
  bytes into allocated blocks returns \<open>n\<close>; the content is the old one with the bytes laid over
  it from the offset on; the size grows to the end of the write and, when it does, the inode
  on disk is brought up to date; no other inode in memory changes.  Reading the range back
  returns the bytes written.
\<close>

theorem writei_then_readi:
  fixes s :: "'a con_st_scheme" and ip :: nat
  assumes "txinv c u R s" "wr_ok R (babs s) (inode s ip) nb" "i_type (inode s ip) \<noteq> T_DEV"
    "unat off \<le> unat (i_size (inode s ip))" "unat (i_size (inode s ip)) \<le> BSIZE * nb" "unat off + length bs \<le> BSIZE * nb"
    "unat n = length bs" "\<forall>i < length bs. src i = Ok (bs ! i)"
    "iblock s (inode s ip) < FSSIZE" "iblock s (inode s ip) \<notin> R" "iblock s (inode s ip) \<notin> baddr (babs s) (inode s ip) ` {..<nb}"
    "NDIRECT < nb \<longrightarrow> iblock s (inode s ip) \<noteq> i_addrs (inode s ip) NDIRECT"
    "blocks (unat off) (length bs) + 1 \<le> tcap s"
  shows "\<exists>t t'. writei c ip src off n s = Ok (int (length bs), t) \<and> txinv c u R t \<and>
    inode t = (inode s)(ip := (inode s ip)\<lparr>i_size := max (i_size (inode s ip)) (off + n)\<rparr>) \<and>
    content (babs t) (inode t ip) = overlay (content (babs s) (inode s ip)) (unat off) bs \<and>
    (i_size (inode s ip) < off + n \<longrightarrow>
       get_dinode (ac_view (babs t) (iblock s (inode s ip))) (dinode_off (i_inum (inode s ip))) = on_disk (dinode_of (inode t ip))) \<and>
    readi c ip off n t = Ok (int (length bs), bs, t')"
proof -
  have le: "unat (i_size (inode s ip)) \<le> 512 * nb" "unat off + unat n \<le> 512 * nb" using assms(5-7) by (simp_all add: BSIZE_def)
  have nb: "nb \<le> 140" using assms(2) by (simp add: wr_ok_def mapped_to_def size_facts)
  have src: "src i = Ok (bs ! i)" if "i < unat n" for i using assms(7,8) that by simp
  obtain t where t: "writei c ip src off n s = Ok (int (unat n), t)" "txinv c u R t" "wr_ok R (babs t) (inode t ip) nb"
      "inode t = (inode s)(ip := (inode s ip)\<lparr>i_size := max (i_size (inode s ip)) (off + n)\<rparr>)"
      "content (babs t) (inode t ip) = overlay (content (babs s) (inode s ip)) (unat off) bs"
      "i_size (inode s ip) < off + n \<longrightarrow>
       get_dinode (ac_view (babs t) (iblock s (inode s ip))) (dinode_off (i_inum (inode s ip))) = on_disk (dinode_of (inode t ip))"
    using writei_ok[OF assms(1-4) le, of bs src] assms(7-13) src by (auto simp: assms(7))
  have lt: "unat off + unat n < 4294967296" using le(2) nb by linarith
  then have on: "unat (off + n) = unat off + unat n" by (rule unat_add_le)
  have sz: "unat (i_size (inode t ip)) = max (unat (i_size (inode s ip))) (unat off + length bs)"
    using on assms(7) by (simp add: t(4) max_def word_le_nat_alt)
  have c: "length (content (babs s) (inode s ip)) = unat (i_size (inode s ip))" by simp
  have rd: "take (length bs) (drop (unat off) (content (babs t) (inode t ip))) = bs"
    using assms(4) by (simp add: t(5) overlay_def)
  have "binv c u t" "card (ac_busy (babs t)) < NBUF" "i_type (inode t ip) \<noteq> T_DEV" "mapped_to (babs t) (inode t ip) nb"
    "unat (i_size (inode t ip)) \<le> 512 * nb"
    using t(2,3) txinv_binv txinv_room[OF t(2)] assms(3,7) le sz by (auto simp: wr_ok_def t(4))
  from readi_ok[OF this, of off n] obtain t' where "readi c ip off n t = Ok (int (length bs), bs, t')"
    using lt sz rd assms(7) by (auto split: if_splits)
  then show ?thesis using t(1,2,4-6) assms(7) by auto
qed

theorem writei_then_readi_witness:
  "\<exists>t t'. writei 0 1 (\<lambda>_. Ok 7) 500 520 demo_fs = Ok (520, t) \<and> i_size (inode t 1) = 1020 \<and>
     readi 0 1 500 520 t = Ok (520, replicate 520 7, t')"
proof -
  let ?bs = "replicate 520 (7 :: byte)" and ?x = "inode demo_fs 1"
  have r: "iblock demo_fs ?x < FSSIZE" "iblock demo_fs ?x \<notin> demo_log_blocks" "iblock demo_fs ?x \<notin> baddr (babs demo_fs) ?x ` {..<2}"
    "NDIRECT < 2 \<longrightarrow> iblock demo_fs ?x \<noteq> i_addrs ?x NDIRECT"
    using demo_fs_iblock by (simp_all add: FSSIZE_def NDIRECT_def del: One_nat_def)
  have "unat (500 :: uint) \<le> unat (i_size ?x)" "unat (i_size ?x) \<le> BSIZE * 2" "unat (500 :: uint) + length ?bs \<le> BSIZE * 2"
    "unat (520 :: uint) = length ?bs" "\<forall>i < length ?bs. (\<lambda>_. Ok 7) i = Ok (?bs ! i)"
    by (simp_all add: demo_fs_inode BSIZE_def del: One_nat_def)
  from writei_then_readi[OF demo_fs_txinv demo_fs_file demo_fs_inode(1) this r]
  obtain t t' where "writei 0 1 (\<lambda>_. Ok 7) 500 520 demo_fs = Ok (520, t)" "inode t 1 = ?x\<lparr>i_size := max (i_size ?x) 1020\<rparr>"
      "readi 0 1 500 520 t = Ok (520, ?bs, t')"
    by (auto simp: blocks_def demo_fs_parts(2) simp del: One_nat_def)
  then show ?thesis by (auto simp: demo_fs_parts max_def simp del: One_nat_def)
qed







end
