(* ===== verification/Args_Thms.thy ===== *)
theory Args_Thms
  imports Exec
begin

unbundle bit_operations_syntax

text \<open>
  The memory of the running process as its page table shows it, and the checks of
  \<open>syscall.c\<close> on the arguments a process passes.
\<close>

declare One_nat_def [simp]

section \<open>User memory\<close>

text \<open>The bytes of the address space with page directory \<open>pgd\<close>.\<close>

definition umem :: "mem \<Rightarrow> uint \<Rightarrow> mem" where
  "umem m pgd va = m (P2V (PTE_ADDR (pte m pgd va)) + (va AND 0xFFF))"

definition user_ok :: "nat \<Rightarrow> uint \<Rightarrow> 'a kmem_st_scheme \<Rightarrow> bool" where
  "user_ok c n s \<longleftrightarrow> n \<le> KERNBASE \<and> (\<forall>va < n. present (pte (mem s) (cur_pgd c s) va))"

lemma vload_user:
  assumes "user_ok c n s" "va < n"
  shows "vload c va s = Ok (umem (mem s) (cur_pgd c s) va)"
proof -
  let ?pgd = "cur_pgd c s"
  have p: "present (pte (mem s) ?pgd va)" "\<not> KERNBASE \<le> va" using assms by (auto simp: user_ok_def)
  then have d: "present (pde (mem s) ?pgd (unat (PDX va)))" by (auto simp: pte_def present_def split: if_splits)
  then have "pte (mem s) ?pgd va = ld32 (mem s) (P2V (PTE_ADDR (pde (mem s) ?pgd (unat (PDX va)))) + 4 * PTX va)"
    by (simp add: pte_def tab_def ent_word)
  then show ?thesis using p d
    by (simp add: vload_def mmu_def Let_def umem_def present_def) (simp add: ent_word pde_def)
qed

lemma vload_bytes_user:
  assumes "user_ok c n s" "unat va + k \<le> unat n"
  shows "vload_bytes c va k s = Ok (map (\<lambda>i. umem (mem s) (cur_pgd c s) (va + of_nat i)) [0..<k])"
  using assms(2)
proof (induction k arbitrary: va)
  case (Suc k)
  have lt: "va < n" using Suc.prems by (simp add: word_less_nat_alt)
  have "unat n < 4294967296" using unat_uint_less[of n] by simp
  then have "unat (va + 1) = unat va + 1" using Suc.prems by (simp add: unat_word_ariths)
  then have "vload_bytes c (va + 1) k s = Ok (map (\<lambda>i. umem (mem s) (cur_pgd c s) (va + 1 + of_nat i)) [0..<k])"
    using Suc.prems by (intro Suc.IH) simp
  then show ?case using vload_user[OF assms(1) lt]
    by (simp add: upt_conv_Cons map_Suc_upt[symmetric] add.assoc del: upt_Suc)
qed simp

lemma vload32_user:
  assumes "user_ok c n s" "unat va + 4 \<le> unat n"
  shows "vload32 c va s = Ok (ld32 (umem (mem s) (cur_pgd c s)) va)"
proof -
  let ?u = "umem (mem s) (cur_pgd c s)" and ?bs = "map (\<lambda>i. umem (mem s) (cur_pgd c s) (va + of_nat i)) [0..<4]"
  have "as_mem ?bs (of_nat k) = ?u (va + of_nat k)" if "k < 4" for k :: nat
  proof -
    have "unat (of_nat k :: uint) = k" using that by (simp add: unat_of_nat_uint)
    then show ?thesis using that by (simp add: as_mem_def)
  qed
  then have "ld32 (as_mem ?bs) 0 = ld32 ?u va"
    using ld32_bytes[of "as_mem ?bs" 0 "ld32 ?u va"] ld32_bytes[of ?u va "ld32 ?u va"] by simp
  then show ?thesis using vload_bytes_user[OF assms] by (simp add: vload32_def ldw_def)
qed

section \<open>The checks\<close>

lemma for_each_string:
  assumes "\<And>k. k \<in> set ks \<Longrightarrow> f k = Ok (g k)"
  shows "for_each (\<lambda>k bs. rbind (f k) (\<lambda>b. if b = 0 then Ok (Some (), bs) else Ok (None, bs @ [b]))) ks acc =
    Ok (if 0 \<in> set (map g ks) then Some () else None, acc @ takeWhile (\<lambda>b. b \<noteq> 0) (map g ks))"
  using assms by (induction ks arbitrary: acc) auto

text \<open>The bytes of user memory from \<open>addr\<close> up to the end of the process.\<close>

definition utail :: "nat \<Rightarrow> uint \<Rightarrow> uint \<Rightarrow> 'a kmem_st_scheme \<Rightarrow> byte list" where
  "utail c addr n s = map (\<lambda>k. umem (mem s) (cur_pgd c s) (addr + of_nat k)) [0..<unat n - unat addr]"

lemma no_wrap:
  assumes "n \<le> KERNBASE" "unat k \<le> 2147483648"
  shows "a \<ge> n \<or> a + k > n \<longleftrightarrow> \<not> (unat a < unat n \<and> unat a + unat (k :: uint) \<le> unat n)"
proof (cases "a < n")
  case True
  have "unat n \<le> 2147483648" using assms(1) by (simp add: word_le_nat_alt KERNBASE_def)
  then have "unat a + unat k < 4294967296" using True assms(2) by (simp add: word_less_nat_alt)
  then have "unat (a + k) = unat a + unat k" by (simp add: unat_word_ariths)
  then show ?thesis using True by (auto simp: word_less_nat_alt word_le_nat_alt)
next
  case False
  then show ?thesis by (simp add: word_less_nat_alt word_le_nat_alt)
qed

lemma int_of_neg: "int_of w < 0 \<longleftrightarrow> \<not> unat w < 2147483648"
proof
  assume "\<not> unat w < 2147483648"
  moreover have "int_of w < 2147483648" using sint_lt[of w] by (simp add: int_of_def)
  ultimately show "int_of w < 0" using int_of_nonneg[of w] by linarith
qed (use int_of_small[of w] in auto)

lemma fetchint_eq:
  assumes me: "myproc c s = Ok (Some p, s)" and u: "user_ok c (sz (proc s p)) s"
  shows "fetchint c addr s =
    Ok (if unat addr + 4 \<le> unat (sz (proc s p)) then Some (ld32 (umem (mem s) (cur_pgd c s)) addr) else None, s)"
proof -
  have "addr \<ge> sz (proc s p) \<or> addr + 4 > sz (proc s p) \<longleftrightarrow> \<not> unat addr + 4 \<le> unat (sz (proc s p))"
    using no_wrap[of "sz (proc s p)" 4 addr] u by (auto simp: user_ok_def)
  then show ?thesis using me vload32_user[OF u] by (simp add: fetchint_def curproc_def)
qed

lemma fetchstr_eq:
  assumes me: "myproc c s = Ok (Some p, s)" and u: "user_ok c (sz (proc s p)) s"
  shows "fetchstr c addr s =
    Ok (if 0 \<in> set (utail c addr (sz (proc s p)) s)
        then Some (takeWhile (\<lambda>b. b \<noteq> 0) (utail c addr (sz (proc s p)) s)) else None, s)"
proof (cases "addr \<ge> sz (proc s p)")
  case True
  then show ?thesis using me by (simp add: fetchstr_def curproc_def utail_def word_le_nat_alt)
next
  case False
  let ?n = "unat (sz (proc s p)) - unat addr"
  have "vload c (addr + of_nat k) s = Ok (umem (mem s) (cur_pgd c s) (addr + of_nat k))" if "k \<in> set [0..<?n]" for k
  proof (rule vload_user[OF u])
    have k: "unat addr + k < unat (sz (proc s p))" using that by auto
    then have "unat addr + k < 4294967296" using unat_uint_less[of "sz (proc s p)"] by simp
    then have "unat (addr + of_nat k) = unat addr + k" by (simp add: unat_word_ariths unat_of_nat_uint)
    then show "addr + of_nat k < sz (proc s p)" using k by (simp add: word_less_nat_alt)
  qed
  from for_each_string[of "[0..<?n]", OF this, of "\<lambda>x. x" "[]"] show ?thesis
    using me False by (simp add: fetchstr_def curproc_def utail_def)
qed

text \<open>The address of argument \<open>n\<close> on the user stack.\<close>

definition arg_addr :: "nat \<Rightarrow> nat \<Rightarrow> 'a pt_st_scheme \<Rightarrow> uint" where
  "arg_addr p n s = ld32 (mem s) (tf (proc s p) + tf_esp) + 4 + 4 * of_nat n"

lemma argint_eq:
  assumes "myproc c s = Ok (Some p, s)"
  shows "argint c n s = fetchint c (arg_addr p n s) s"
  using assms by (simp add: argint_def curproc_def arg_addr_def)

lemma argptr_eq:
  assumes me: "myproc c s = Ok (Some p, s)" and u: "user_ok c (sz (proc s p)) s"
  shows "argptr c n len s =
    Ok (if unat (arg_addr p n s) + 4 \<le> unat (sz (proc s p)) \<and> unat len < 2147483648 \<and>
           unat (ld32 (umem (mem s) (cur_pgd c s)) (arg_addr p n s)) < unat (sz (proc s p)) \<and>
           unat (ld32 (umem (mem s) (cur_pgd c s)) (arg_addr p n s)) + unat len \<le> unat (sz (proc s p))
        then Some (ld32 (umem (mem s) (cur_pgd c s)) (arg_addr p n s)) else None, s)"
proof -
  let ?i = "ld32 (umem (mem s) (cur_pgd c s)) (arg_addr p n s)" and ?n = "sz (proc s p)"
  have neg: "int_of len < 0 \<longleftrightarrow> \<not> unat len < 2147483648" by (rule int_of_neg)
  have "int_of len < 0 \<or> ?i \<ge> ?n \<or> ?i + len > ?n \<longleftrightarrow>
      \<not> (unat len < 2147483648 \<and> unat ?i < unat ?n \<and> unat ?i + unat len \<le> unat ?n)"
    using no_wrap[of ?n len ?i] u neg unfolding user_ok_def by (cases "unat len < 2147483648") simp_all
  then show ?thesis using me fetchint_eq[OF me u] argint_eq[OF me]
    by (auto simp: argptr_def curproc_def split: if_splits)
qed

end
