(* ===== verification/Props_Sys.thy ===== *)
theory Props_Sys
  imports Demo_Sys Args_Thms
begin

text \<open>
  Properties of the system-call layer.
\<close>

declare One_nat_def [simp]

section \<open>Arguments\<close>

text \<open>
  C17: The checks on the arguments of a system call accept exactly what lies inside the memory
  of the process, also at the ends of the 32-bit range.  \<open>fetchint\<close> loads the word at \<open>addr\<close>
  when all four bytes are below \<open>sz\<close> and returns \<open>-1\<close> otherwise; \<open>fetchstr\<close> returns the string
  at \<open>addr\<close> when its terminating NUL is below \<open>sz\<close>; \<open>argptr\<close> returns pointer argument \<open>n\<close> when
  the argument itself and the \<open>len\<close> bytes it points to are below \<open>sz\<close>.  None of them faults
  or changes the state.
\<close>

theorem arguments_checked:
  assumes "myproc c s = Ok (Some p, s)" "user_ok c (sz (proc s p)) s"
  shows "fetchint c addr s =
      Ok (if unat addr + 4 \<le> unat (sz (proc s p)) then Some (ld32 (umem (mem s) (cur_pgd c s)) addr) else None, s) \<and>
    fetchstr c addr s =
      Ok (if 0 \<in> set (utail c addr (sz (proc s p)) s)
          then Some (takeWhile (\<lambda>b. b \<noteq> 0) (utail c addr (sz (proc s p)) s)) else None, s) \<and>
    argint c n s = fetchint c (arg_addr p n s) s \<and>
    argptr c n len s =
      Ok (let a = arg_addr p n s; i = ld32 (umem (mem s) (cur_pgd c s)) a
          in if unat a + 4 \<le> unat (sz (proc s p)) \<and> unat len < 2147483648 \<and> unat i < unat (sz (proc s p)) \<and>
                unat i + unat len \<le> unat (sz (proc s p)) then Some i else None, s)"
  unfolding Let_def
  by (intro conjI fetchint_eq[OF assms] fetchstr_eq[OF assms] argint_eq[OF assms(1)] argptr_eq[OF assms])

text \<open>
  A process of one page: the page directory at \<open>0x80500000\<close>, one page table, the page at
  \<open>0x80502000\<close>; the trap frame at \<open>0x80503000\<close> has the stack pointer \<open>0xFC\<close>, and argument 0
  is the pointer \<open>0x200\<close>.
\<close>

definition demo_user_mem :: mem where
  "demo_user_mem = st32 (st32 (st32 (st32 (\<lambda>_. 0) 0x80500000 0x501007) 0x80501000 0x502007) 0x80502100 0x200) (0x80503000 + tf_esp) 0xFC"

definition demo_user :: sys_st where
  "demo_user = demo_sys\<lparr>mem := demo_user_mem, cpus := demo_cpus(0 := (demo_cpus 0)\<lparr>cr3 := 0x500000\<rparr>),
     proc := demo_proc(0 := (demo_proc 0)\<lparr>sz := 0x1000, tf := 0x80503000\<rparr>)\<rparr>"

lemma demo_user_me: "myproc 0 demo_user = Ok (Some 0, demo_user)"
proof -
  have "cpu_ok (cpus demo_user 0)" "saved (cpus demo_user 0) = cpus demo_user 0" "cproc (cpus demo_user 0) = Some 0"
    by (simp_all add: demo_user_def demo_cpus_def idle_cpu_def cpu_ok_def saved_def)
  then show ?thesis by (simp add: myproc_eq fun_upd_idem)
qed

lemma demo_user_parts: "mem demo_user = demo_user_mem" "cur_pgd 0 demo_user = 0x80500000" "sz (proc demo_user 0) = 0x1000"
  "tf (proc demo_user 0) = 0x80503000"
  by (simp_all add: demo_user_def cur_pgd_def P2V_def KERNBASE_def)

lemma demo_user_pte: "pte demo_user_mem 0x80500000 va = 0x502007" if "va < 0x1000" for va
proof -
  have "unat va < 4096" using that by (simp add: word_less_nat_alt)
  then have "PGROUNDDOWN va = PGROUNDDOWN 0" by (simp add: word_unat_eq_iff unat_PGROUNDDOWN)
  then have x: "PDX va = 0" "PTX va = 0" using same_page_iff[of va 0] by (simp_all add: PDX_def PTX_def)
  have "ld32 demo_user_mem 0x80500000 = 0x501007" "ld32 demo_user_mem 0x80501000 = 0x502007"
    by (simp_all add: demo_user_mem_def tf_esp_def ld32_st32_other aligned4_def)
  then show ?thesis by (simp add: pte_def pde_def tab_def ent_def x present_def PTE_P_def PTE_ADDR_def P2V_def KERNBASE_def)
qed

lemma demo_user_ok: "user_ok 0 (sz (proc demo_user 0)) demo_user"
  by (simp add: user_ok_def demo_user_parts demo_user_pte KERNBASE_def present_def PTE_P_def)

theorem arguments_checked_witness:
  "argptr 0 0 100 demo_user = Ok (Some 0x200, demo_user) \<and> argptr 0 0 0x1000 demo_user = Ok (None, demo_user) \<and>
   fetchint 0 0xFFFFFFFF demo_user = Ok (None, demo_user)"
proof -
  note a = arguments_checked[OF demo_user_me demo_user_ok]
  have "ld32 demo_user_mem (0x80503000 + tf_esp) = 0xFC" "ld32 demo_user_mem 0x80502100 = 0x200"
    by (simp_all add: demo_user_mem_def tf_esp_def ld32_st32_other aligned4_def)
  then have "arg_addr 0 0 demo_user = 0x100" by (simp add: arg_addr_def demo_user_parts)
  moreover have "ld32 (umem demo_user_mem 0x80500000) 0x100 = 0x200"
  proof -
    have "umem demo_user_mem 0x80500000 (0x100 + of_nat k) = demo_user_mem (0x80502100 + of_nat k)" if "k < 4" for k :: nat
      using less_4_cases[OF that] by (auto simp: umem_def demo_user_pte PTE_ADDR_def P2V_def KERNBASE_def)
    then show ?thesis using \<open>ld32 demo_user_mem 0x80502100 = 0x200\<close> by (simp add: ld32_bytes)
  qed
  ultimately show ?thesis
    using a[where n = 0 and len = 100] a[where n = 0 and len = "0x1000"] a[where addr = "0xFFFFFFFF"]
    by (simp add: demo_user_parts)
qed

section \<open>Interrupt gates\<close>

lemma idt_fold:
  "idt (fold (\<lambda>i s. s\<lparr>idt := (idt s)(i := g i)\<rparr>) xs s) = (\<lambda>i. if i \<in> set xs then g i else idt s i)"
  by (induction xs arbitrary: s) (auto simp: fun_eq_iff)

lemma gate_fields:
  "gd_dpl (SETGATE tr sel v d) = ucast d" "gd_type (SETGATE tr sel v d) = ucast (if tr then STS_TG32 else STS_IG32)"
  "gd_p (SETGATE tr sel v d) = 1" "gd_s (SETGATE tr sel v d) = 0" "gd_cs (SETGATE tr sel v d) = ucast sel"
  by (simp_all add: SETGATE_def)

lemma gate_offset: "(ucast (off_31_16 (SETGATE tr sel v d)) :: uint) * 65536 + ucast (off_15_0 (SETGATE tr sel v d)) = v"
proof -
  have "v AND 0xffff = take_bit 16 v" by (simp add: take_bit_eq_mask mask_eq_exp_minus_1)
  then have lo: "unat (v AND 0xffff) = unat v mod 65536" by (simp add: take_bit_eq_mod unat_mod)
  have hi: "unat (drop_bit 16 v) = unat v div 65536" by (simp add: drop_bit_eq_div unat_div)
  have "unat v < 2 ^ 32" using unsigned_less[of v] by simp
  then have "unat v div 65536 < 65536" by (simp add: less_mult_imp_div_less)
  then show ?thesis using lo hi
    by (simp add: SETGATE_def word_unat_eq_iff unat_word_ariths unsigned_ucast_eq take_bit_eq_mod)
qed

text \<open>
  C30: After \<open>tvinit\<close> every one of the 256 gates is present, enters the kernel code segment at its
  own vector, and is closed to user mode, except the gate of system calls: a program can enter
  the kernel by \<open>int\<close> only with \<open>T_SYSCALL\<close>.  All gates but that one also turn interrupts off.
\<close>

theorem only_system_calls_enter:
  assumes "i < 256"
  shows "let g = idt (tvinit vectors s) i
     in gd_dpl g = (if i = unat T_SYSCALL then 3 else 0) \<and> gd_type g = (if i = unat T_SYSCALL then 15 else 14) \<and>
        gd_p g = 1 \<and> gd_s g = 0 \<and> gd_cs g = of_nat (SEG_KCODE * 8) \<and>
        (ucast (off_31_16 g) :: uint) * 65536 + ucast (off_15_0 g) = vectors i"
proof -
  have "idt (tvinit vectors s) i =
      (if i = unat T_SYSCALL then SETGATE True (of_nat (SEG_KCODE * 8)) (vectors i) DPL_USER
       else SETGATE False (of_nat (SEG_KCODE * 8)) (vectors i) 0)"
    using assms by (simp add: tvinit_def idt_fold Let_def)
  then show ?thesis by (simp add: Let_def gate_offset gate_fields STS_TG32_def STS_IG32_def DPL_USER_def SEG_KCODE_def)
qed

theorem only_system_calls_enter_witness:
  "let t = idt (tvinit (\<lambda>i. 0x80105000 + of_nat i) demo_sys)
   in gd_dpl (t 64) = 3 \<and> gd_type (t 64) = 15 \<and> gd_dpl (t 14) = 0 \<and> gd_type (t 14) = 14 \<and>
      (ucast (off_31_16 (t 14)) :: uint) * 65536 + ucast (off_15_0 (t 14)) = 0x8010500E"
  using only_system_calls_enter[of 64 "\<lambda>i. 0x80105000 + of_nat i" demo_sys]
    only_system_calls_enter[of 14 "\<lambda>i. 0x80105000 + of_nat i" demo_sys]
  by (simp add: T_SYSCALL_def Let_def)

end
