(* ===== verification/Ulib.thy ===== *)
theory Ulib
  imports Console
begin

unbundle bit_operations_syntax

text \<open>
  The user library: the string routines of \<open>ulib.c\<close> over the memory of a process, and
  \<open>printf.c\<close>, whose output is the list of bytes it writes, one \<open>write\<close> per byte.  Routines
  that exist in the kernel as well have the prefix \<open>u_\<close>.  The loops over strings end only if
  there is a NUL; they are loops that may not return.
\<close>

section \<open>ulib.c\<close>

definition strcpy_body :: "uint \<times> uint \<times> mem \<Rightarrow> (mem + uint \<times> uint \<times> mem) res" where
  "strcpy_body = (\<lambda>(s, t, m).
     let m1 = m(s := m t) in Ok (if m1 s \<noteq> 0 then Inr (s + 1, t + 1, m1) else Inl m1))"

definition strcpy :: "mem \<Rightarrow> uint \<Rightarrow> uint \<Rightarrow> mem res" where
  "strcpy m s t = loop_res strcpy_body (s, t, m)"

definition strcmp_body :: "mem \<Rightarrow> uint \<times> uint \<Rightarrow> (int + uint \<times> uint) res" where
  "strcmp_body m = (\<lambda>(p, q).
     Ok (if m p \<noteq> 0 \<and> m p = m q then Inr (p + 1, q + 1) else Inl (uint (m p) - uint (m q))))"

definition strcmp :: "mem \<Rightarrow> uint \<Rightarrow> uint \<Rightarrow> int res" where
  "strcmp m p q = loop_res (strcmp_body m) (p, q)"

definition u_strlen :: "mem \<Rightarrow> uint \<Rightarrow> uint res" where
  "u_strlen m s = loop_res (\<lambda>n. Ok (if m (s + n) \<noteq> 0 then Inr (n + 1) else Inl n)) 0"

definition u_memset :: "mem \<Rightarrow> uint \<Rightarrow> uint \<Rightarrow> uint \<Rightarrow> mem" where
  "u_memset m dst c n = stosb m dst (ucast c) (unat n)"

definition strchr :: "mem \<Rightarrow> uint \<Rightarrow> byte \<Rightarrow> uint res" where
  "strchr m s c = loop_res (\<lambda>s. Ok (if m s = 0 then Inl 0 else if m s = c then Inl s else Inr (s + 1))) s"

text \<open>
  \<open>gets\<close>: \<open>inp\<close> are the bytes that \<open>read(0, &c, 1)\<close> still delivers; at their end it returns
  less than 1.  The result is the memory and the input left.
\<close>

fun gets_loop :: "mem \<Rightarrow> uint \<Rightarrow> int \<Rightarrow> int \<Rightarrow> byte list \<Rightarrow> mem \<times> int \<times> byte list" where
  "gets_loop m dst i mx [] = (m, i, [])"
| "gets_loop m dst i mx (c # inp) =
     (if \<not> i + 1 < mx then (m, i, c # inp)
      else let m1 = m(dst + word_of_int i := c)
           in if c = 10 \<or> c = 13 then (m1, i + 1, inp) else gets_loop m1 dst (i + 1) mx inp)"

definition gets :: "mem \<Rightarrow> uint \<Rightarrow> int \<Rightarrow> byte list \<Rightarrow> mem \<times> byte list" where
  "gets m dst mx inp = (case gets_loop m dst 0 mx inp of (m1, i, rest) \<Rightarrow> (m1(dst + word_of_int i := 0), rest))"

text \<open>\<open>atoi\<close> and \<open>atoo\<close>: the base is 10 or 8; the C \<open>int\<close> is a 32-bit word and wraps.\<close>

definition skip_spaces :: "mem \<Rightarrow> uint \<Rightarrow> (uint + uint) res" where
  "skip_spaces m s = Ok (if m s = 32 then Inr (s + 1) else Inl s)"

definition ato_body :: "mem \<Rightarrow> byte \<Rightarrow> uint \<times> uint \<Rightarrow> (uint + uint \<times> uint) res" where
  "ato_body m base = (\<lambda>(s, n).
     Ok (if 48 \<le> m s \<and> m s \<le> 48 + base - 1 then Inr (s + 1, n * ucast base + ucast (m s) - 48) else Inl n))"

definition ato :: "byte \<Rightarrow> mem \<Rightarrow> uint \<Rightarrow> uint res" where
  "ato base m s =
     rbind (loop_res (skip_spaces m) s) (\<lambda>s1.
     let sign = (if m s1 = 45 then - 1 else 1);
         s2 = (if m s1 = 43 \<or> m s1 = 45 then s1 + 1 else s1)
     in rbind (loop_res (ato_body m base) (s2, 0)) (\<lambda>n. Ok (sign * n)))"

definition atoi :: "mem \<Rightarrow> uint \<Rightarrow> uint res" where
  "atoi = ato 10"

definition atoo :: "mem \<Rightarrow> uint \<Rightarrow> uint res" where
  "atoo = ato 8"

definition u_memmove :: "mem \<Rightarrow> uint \<Rightarrow> uint \<Rightarrow> int \<Rightarrow> mem" where
  "u_memmove m dst src n = copy_forward m dst src (nat n)"

section \<open>printf.c\<close>

definition u_digits :: "byte list" where "u_digits = lit ''0123456789ABCDEF''"

definition u_digit_body :: "uint \<Rightarrow> uint \<times> byte list \<Rightarrow> (byte list + uint \<times> byte list) res" where
  "u_digit_body base = (\<lambda>(x, bf).
     if base = 0 \<or> unat (x mod base) \<ge> length u_digits \<or> length bf \<ge> 16 then Fault
     else let bf = bf @ [u_digits ! unat (x mod base)]; x = x div base
          in if x \<noteq> 0 then Ok (Inr (x, bf)) else Ok (Inl bf))"

definition u_printint :: "uint \<Rightarrow> uint \<Rightarrow> bool \<Rightarrow> byte list res" where
  "u_printint xx base sg =
     (let neg = sg \<and> int_of xx < 0
      in rbind (loop_res (u_digit_body base) (if neg then - xx else xx, [])) (\<lambda>bf.
         if neg then (if length bf \<ge> 16 then Fault else Ok (rev (bf @ [45]))) else Ok (rev bf)))"

text \<open>The bytes \<open>printf\<close> writes; the second argument is \<open>state == '%'\<close>.\<close>

fun printf :: "byte list \<Rightarrow> bool \<Rightarrow> carg list \<Rightarrow> byte list res" where
  "printf [] st args = Ok []"
| "printf (c # f) st args =
     (if c = 0 then Ok []
      else if \<not> st then
        (if c = 37 then printf f True args
         else rbind (printf f False args) (\<lambda>bs. Ok (c # bs)))
      else if c = 100 then
        (case args of CInt w # as \<Rightarrow> rbind (u_printint w 10 True) (\<lambda>bs. rbind (printf f False as) (\<lambda>cs. Ok (bs @ cs))) | _ \<Rightarrow> Fault)
      else if c = 120 \<or> c = 112 then
        (case args of CInt w # as \<Rightarrow> rbind (u_printint w 16 False) (\<lambda>bs. rbind (printf f False as) (\<lambda>cs. Ok (bs @ cs))) | _ \<Rightarrow> Fault)
      else if c = 115 then
        (case args of
           CStr so # as \<Rightarrow>
             rbind (printf f False as) (\<lambda>cs. Ok ((case so of None \<Rightarrow> lit ''(null)'' | Some bs \<Rightarrow> cstr bs) @ cs))
         | _ \<Rightarrow> Fault)
      else if c = 99 then
        (case args of CInt w # as \<Rightarrow> rbind (printf f False as) (\<lambda>cs. Ok (ucast w # cs)) | _ \<Rightarrow> Fault)
      else if c = 37 then rbind (printf f False args) (\<lambda>cs. Ok (37 # cs))
      else rbind (printf f False args) (\<lambda>cs. Ok (37 # c # cs)))"

end
