(* ===== verification/Ulib_Thms.thy ===== *)
theory Ulib_Thms
  imports Ulib
begin

unbundle bit_operations_syntax

text \<open>
  Numbers as text: \<open>printint\<close>, in the kernel and in the user library, prints the usual
  numeral, and \<open>atoi\<close> reads it back.
\<close>

declare One_nat_def [simp]

section \<open>Digits\<close>

text \<open>The digits of a number, the lowest first.\<close>

function digs :: "nat \<Rightarrow> nat \<Rightarrow> nat list" where
  "digs b n = (if b < 2 \<or> n < b then [n] else n mod b # digs b (n div b))"
  by auto
termination by (relation "measure snd") (auto intro: div_less_dividend)

declare digs.simps [simp del]

lemma digs_less: "2 \<le> b \<Longrightarrow> d \<in> set (digs b n) \<Longrightarrow> d < b"
  by (induction b n rule: digs.induct) (subst (asm) (2) digs.simps, auto split: if_splits)

lemma digs_value: "foldr (\<lambda>d v. d + b * v) (digs b n) 0 = n"
  by (induction b n rule: digs.induct) (subst digs.simps, auto)

lemma digs_length: "2 \<le> b \<Longrightarrow> n < b ^ Suc k \<Longrightarrow> length (digs b n) \<le> Suc k"
proof (induction k arbitrary: n)
  case 0
  then show ?case by (simp add: digs.simps)
next
  case (Suc k)
  have "n div b < b ^ Suc k" using Suc.prems by (simp add: less_mult_imp_div_less mult.commute)
  from Suc.IH[OF Suc.prems(1) this] show ?case by (subst digs.simps) simp
qed

text \<open>A loop that writes the digits of a number with the numerals \<open>dg\<close>.\<close>

lemma digit_loop:
  assumes body: "\<And>x bf. f (x, bf) = (if base = 0 \<or> unat (x mod base) \<ge> length dg \<or> length bf \<ge> 16 then Fault
     else let bf = bf @ [dg ! unat (x mod base)]; x = x div base in if x \<noteq> 0 then Ok (Inr (x, bf)) else Ok (Inl bf))"
    and base: "2 \<le> unat base" "unat base \<le> length dg" and room: "length bf + length (digs (unat base) (unat x)) \<le> 16"
  shows "loop_res f (x :: uint, bf) = Ok (bf @ map (\<lambda>d. dg ! d) (digs (unat base) (unat x)))"
  using room
proof (induction "unat x" arbitrary: x bf rule: less_induct)
  case less
  let ?b = "unat base"
  have nz: "base \<noteq> 0" using base(1) by auto
  have m: "unat (x mod base) = unat x mod ?b" "unat (x div base) = unat x div ?b" by (simp_all add: unat_mod unat_div)
  have lt: "unat x mod ?b < length dg" using base mod_less_divisor[of ?b "unat x"] by linarith
  have l1: "length bf < 16" using less.prems by (subst (asm) digs.simps) (auto split: if_splits)
  show ?case
  proof (cases "unat x < ?b")
    case True
    then have "x div base = 0" by (simp add: word_unat_eq_iff m)
    then have "f (x, bf) = Ok (Inl (bf @ [dg ! unat x]))" using True nz lt l1 m(1) by (simp add: body Let_def)
    then show ?thesis using True by (subst loop_res_unfold) (simp add: digs.simps)
  next
    case False
    have nx: "x div base \<noteq> 0" using False base(1) by (simp add: word_unat_eq_iff m div_eq_0_iff)
    then have e: "f (x, bf) = Ok (Inr (x div base, bf @ [dg ! (unat x mod ?b)]))" using nz lt l1 m(1) by (simp add: body Let_def)
    have d: "digs ?b (unat x) = unat x mod ?b # digs ?b (unat x div ?b)" using False base(1) by (subst digs.simps) simp
    have dec: "unat (x div base) < unat x" using False base(1) by (simp add: m)
    have "length (bf @ [dg ! (unat x mod ?b)]) + length (digs ?b (unat (x div base))) \<le> 16" using less.prems d m(2) by simp
    from less.hyps[OF dec this] show ?thesis using e d m(2) by (subst loop_res_unfold) simp
  qed
qed

text \<open>The numeral, and the number as \<open>printint\<close> shows it.\<close>

definition numeral_of :: "byte list \<Rightarrow> nat \<Rightarrow> nat \<Rightarrow> byte list" where
  "numeral_of dg b n = rev (map (\<lambda>d. dg ! d) (digs b n))"

definition shown :: "byte list \<Rightarrow> uint \<Rightarrow> byte list" where
  "shown dg x = (if int_of x < 0 then 45 # numeral_of dg 10 (nat (- int_of x)) else numeral_of dg 10 (nat (int_of x)))"

lemma int_of_negative:
  assumes "int_of w < 0"
  shows "int_of w = int (unat w) - 4294967296"
proof -
  have "- 2147483648 \<le> sint w" using sint_ge[of w] by simp
  then have "(sint w + 4294967296) mod 4294967296 = sint w + 4294967296" using assms by (intro mod_pos_pos_trivial) (simp_all add: int_of_def)
  then have "sint w mod 4294967296 = sint w + 4294967296" by simp
  then have "uint w = sint w + 4294967296" using uint_sint[of w] by (simp add: take_bit_eq_mod)
  then show ?thesis by (simp add: int_of_def)
qed

lemma unat_abs: "unat (if int_of x < 0 then - x else x) = nat \<bar>int_of x\<bar>"
proof (cases "int_of x < 0")
  case True
  note n = int_of_negative[OF True]
  have "0 < uint x" "uint x < 4294967296" using True n sint_ge[of x] uint_lt2p[of x] by (auto simp: int_of_def)
  then have "(4294967296 - uint x) mod 4294967296 = 4294967296 - uint x" by (intro mod_pos_pos_trivial) simp_all
  then have "uint (- x) = 4294967296 - uint x" by (simp add: uint_word_ariths mod_diff_left_eq)
  then have "unat (- x) = nat (4294967296 - uint x)" by (metis nat_uint_eq)
  then show ?thesis using True n by simp
next
  case False
  then show ?thesis using int_of_nonneg[of x] by simp
qed

lemma digs_room:
  fixes x :: uint
  shows "length (digs 10 (unat x)) \<le> 10" "length (digs 16 (unat x)) \<le> 8"
  using digs_length[of 10 "unat x" 9] digs_length[of 16 "unat x" 7] unat_uint_less[of x] by simp_all

lemma int_chars_decimal: "int_chars x 10 True = Ok (shown digits x)"
proof -
  let ?y = "if int_of x < 0 then - x else x"
  have "loop_res (digit_body 10) (?y, []) = Ok ([] @ map (\<lambda>d. digits ! d) (digs (unat (10 :: uint)) (unat ?y)))"
    using digs_room(1)[of ?y] by (intro digit_loop) (simp_all add: digit_body_def digits_def lit_def)
  then have "loop_res (digit_body 10) (?y, []) = Ok (map (\<lambda>d. digits ! d) (digs 10 (nat \<bar>int_of x\<bar>)))"
    unfolding unat_abs by simp
  moreover have "length (digs 10 (nat \<bar>int_of x\<bar>)) \<le> 10" using digs_room(1)[of ?y] unfolding unat_abs .
  ultimately show ?thesis by (auto simp: int_chars_def shown_def numeral_of_def)
qed

lemma u_printint_decimal: "u_printint x 10 True = Ok (shown u_digits x)"
proof -
  let ?y = "if int_of x < 0 then - x else x"
  have "loop_res (u_digit_body 10) (?y, []) = Ok ([] @ map (\<lambda>d. u_digits ! d) (digs (unat (10 :: uint)) (unat ?y)))"
    using digs_room(1)[of ?y] by (intro digit_loop) (simp_all add: u_digit_body_def u_digits_def lit_def)
  then have "loop_res (u_digit_body 10) (?y, []) = Ok (map (\<lambda>d. u_digits ! d) (digs 10 (nat \<bar>int_of x\<bar>)))"
    unfolding unat_abs by simp
  moreover have "length (digs 10 (nat \<bar>int_of x\<bar>)) \<le> 10" using digs_room(1)[of ?y] unfolding unat_abs .
  ultimately show ?thesis by (auto simp: u_printint_def shown_def numeral_of_def)
qed

lemma shown_length: "length (shown dg x) \<le> 11"
proof -
  have "length (digs 10 (nat \<bar>int_of x\<bar>)) \<le> 10"
    using digs_room(1)[of "if int_of x < 0 then - x else x"] unfolding unat_abs .
  then show ?thesis by (auto simp: shown_def numeral_of_def)
qed

section \<open>atoi\<close>

text \<open>The string \<open>bs\<close>, with its NUL, is in memory at \<open>s\<close>.\<close>

definition string_at :: "mem \<Rightarrow> uint \<Rightarrow> byte list \<Rightarrow> bool" where
  "string_at m s bs \<longleftrightarrow> (\<forall>i < length bs. m (s + of_nat i) = bs ! i) \<and> m (s + of_nat (length bs)) = 0"

lemma string_at_Nil [simp]: "string_at m s [] \<longleftrightarrow> m s = 0"
  by (simp add: string_at_def)

lemma string_at_Cons [simp]: "string_at m s (b # bs) \<longleftrightarrow> m s = b \<and> string_at m (s + 1) bs"
proof -
  have "(\<forall>i < length (b # bs). m (s + of_nat i) = (b # bs) ! i) \<longleftrightarrow>
      m s = b \<and> (\<forall>i < length bs. m (s + 1 + of_nat i) = bs ! i)"
    by (auto simp: All_less_Suc2 add.assoc)
  then show ?thesis by (simp add: string_at_def add.assoc)
qed

lemma ato_loop:
  assumes "string_at m s (map (\<lambda>d. 48 + of_nat d) ds)" "\<And>d. d \<in> set ds \<Longrightarrow> d < 10"
  shows "loop_res (ato_body m 10) (s, n) = Ok (fold (\<lambda>d v. v * 10 + of_nat d) ds n)"
  using assms
proof (induction ds arbitrary: s n)
  case Nil
  then show ?case by (subst loop_res_unfold) (simp add: ato_body_def)
next
  case (Cons d ds)
  have d: "d < 10" and m: "m s = 48 + of_nat d" using Cons.prems by simp_all
  have ud: "unat (of_nat d :: byte) = d" using d by (simp add: unat_of_nat take_bit_nat_eq_self)
  then have u: "unat (48 + of_nat d :: byte) = 48 + d" using d by (simp add: unat_word_ariths)
  have "48 \<le> (48 + of_nat d :: byte)" "(48 + of_nat d :: byte) \<le> 57" using u d by (simp_all add: word_le_nat_alt)
  moreover have "ucast (48 + of_nat d :: byte) = (48 + of_nat d :: uint)"
  proof -
    have "unat (ucast (48 + of_nat d :: byte) :: uint) = 48 + d" using u d by (simp add: unsigned_ucast_eq take_bit_nat_eq_self)
    moreover have "unat (48 + of_nat d :: uint) = 48 + d" using d by (simp add: unat_word_ariths unat_of_nat_uint)
    ultimately show ?thesis by (simp add: word_unat_eq_iff)
  qed
  moreover have "n * 10 + (48 + of_nat d) - 48 = n * 10 + (of_nat d :: uint)" by simp
  ultimately have "ato_body m 10 (s, n) = Ok (Inr (s + 1, n * 10 + of_nat d))"
    by (simp add: ato_body_def m)
  then show ?case using Cons by (subst loop_res_unfold) simp
qed

lemma digit_char:
  assumes "d < 10"
  shows "u_digits ! d = 48 + of_nat d" "digits ! d = 48 + of_nat d"
proof -
  have "d \<in> {0, 1, 2, 3, 4, 5, 6, 7, 8, 9}" using assms by auto
  then show "u_digits ! d = 48 + of_nat d" "digits ! d = 48 + of_nat d" by (auto simp: u_digits_def digits_def lit_def of_char_def)
qed

lemma numeral_chars:
  "numeral_of u_digits 10 n = map (\<lambda>d. 48 + of_nat d) (rev (digs 10 n))" "numeral_of digits 10 n = map (\<lambda>d. 48 + of_nat d) (rev (digs 10 n))"
  using digs_less[of 10] digit_char by (simp_all add: numeral_of_def rev_map)

lemma fold_value: "fold (\<lambda>d v. v * 10 + of_nat d) (rev (digs 10 n)) (0 :: uint) = of_nat n"
proof -
  have "foldr (\<lambda>d v. v * 10 + of_nat d) ds (0 :: uint) = of_nat (foldr (\<lambda>d v. d + 10 * v) ds 0)" for ds
    by (induction ds) (simp_all add: algebra_simps)
  then show ?thesis by (simp add: digs_value flip: foldr_conv_fold)
qed

lemma skip_none: "m s \<noteq> 32 \<Longrightarrow> loop_res (skip_spaces m) s = Ok s"
  by (subst loop_res_unfold) (simp add: skip_spaces_def)

lemma numeral_first:
  obtains d ds where "rev (digs 10 n) = d # ds" "d < 10"
proof (cases "rev (digs 10 n)")
  case Nil
  then show ?thesis by (subst (asm) digs.simps) (auto split: if_splits)
next
  case (Cons d ds)
  then have "d \<in> set (rev (digs 10 n))" by simp
  then have "d \<in> set (digs 10 n)" by simp
  then show ?thesis using that Cons digs_less[of 10 d n] by simp
qed

lemma digit_no_sign: "d < 10 \<Longrightarrow> (48 + of_nat d :: byte) \<noteq> 32 \<and> (48 + of_nat d :: byte) \<noteq> 43 \<and> (48 + of_nat d :: byte) \<noteq> 45"
proof -
  assume "d < 10"
  then have "d \<in> {0, 1, 2, 3, 4, 5, 6, 7, 8, 9}" by auto
  then show ?thesis by auto
qed

lemma atoi_numeral:
  assumes "string_at m s (numeral_of u_digits 10 n)"
  shows "loop_res (ato_body m 10) (s, 0) = Ok (of_nat n)" "m s \<noteq> 32 \<and> m s \<noteq> 43 \<and> m s \<noteq> 45"
proof -
  have d: "\<And>d. d \<in> set (rev (digs 10 n)) \<Longrightarrow> d < 10" using digs_less[of 10] by simp
  note a = assms[unfolded numeral_chars]
  show "loop_res (ato_body m 10) (s, 0) = Ok (of_nat n)" using ato_loop[OF a d, of 0] by (simp add: fold_value)
  obtain d ds where "rev (digs 10 n) = d # ds" "d < 10" by (rule numeral_first)
  then have "m s = 48 + of_nat d" "d < 10" using a by simp_all
  then show "m s \<noteq> 32 \<and> m s \<noteq> 43 \<and> m s \<noteq> 45" using digit_no_sign by simp
qed

lemma atoi_shown:
  assumes "string_at m s (shown u_digits x)"
  shows "atoi m s = Ok x"
proof (cases "int_of x < 0")
  case True
  then have a: "m s = 45" "string_at m (s + 1) (numeral_of u_digits 10 (nat (- int_of x)))" using assms by (simp_all add: shown_def)
  have "of_nat (nat (- int_of x)) = - x" using True by (simp add: int_of_def)
  then show ?thesis using a atoi_numeral[OF a(2)] skip_none[of m s] by (simp add: atoi_def ato_def)
next
  case False
  then have a: "string_at m s (numeral_of u_digits 10 (nat (int_of x)))" using assms by (simp add: shown_def)
  have "x = of_nat (nat (int_of x))" using int_of_nonneg[of x] False by simp
  then show ?thesis using atoi_numeral[OF a] skip_none[of m s] by (simp add: atoi_def ato_def)
qed

end
