(* ===== verification/Grep.thy ===== *)
theory Grep
  imports Ulib
begin

text \<open>
  \<open>grep.c\<close>: the matcher for patterns with \<open>^ . * $\<close> over C strings (lists of bytes without
  their NUL) and the loop that cuts the input into lines.
\<close>

section \<open>The code\<close>

text \<open>
  \<open>matchhere\<close>: search for \<open>re\<close> at the beginning of the text; \<open>matchstar\<close>: for \<open>c*re\<close>.  The
  characters: 36 is the dollar sign, 42 the star, 46 the dot, 94 the caret.
\<close>

function matchhere :: "byte list \<Rightarrow> byte list \<Rightarrow> bool" and matchstar :: "byte \<Rightarrow> byte list \<Rightarrow> byte list \<Rightarrow> bool" where
  "matchhere re ts =
     (case re of
        [] \<Rightarrow> True
      | c # re1 \<Rightarrow>
          if re1 \<noteq> [] \<and> hd re1 = 42 then matchstar c (tl re1) ts
          else if c = 36 \<and> re1 = [] then ts = []
          else if ts \<noteq> [] \<and> (c = 46 \<or> c = hd ts) then matchhere re1 (tl ts)
          else False)"
| "matchstar c re ts =
     (if matchhere re ts then True
      else if ts \<noteq> [] \<and> (hd ts = c \<or> c = 46) then matchstar c re (tl ts)
      else False)"
  by pat_completeness auto
termination
  by (relation "measures [\<lambda>x. case x of Inl (re, t) \<Rightarrow> 2 * length re | Inr (c, re, t) \<Rightarrow> 2 * length re + 1,
                          \<lambda>x. case x of Inl (re, t) \<Rightarrow> length t | Inr (c, re, t) \<Rightarrow> length t]") auto

declare matchhere.simps [simp del] matchstar.simps [simp del]

fun match_from :: "byte list \<Rightarrow> byte list \<Rightarrow> bool" where
  "match_from re ts = (matchhere re ts \<or> (case ts of [] \<Rightarrow> False | _ # t \<Rightarrow> match_from re t))"

declare match_from.simps [simp del]

definition match :: "byte list \<Rightarrow> byte list \<Rightarrow> bool" where
  "match re ts = (if re \<noteq> [] \<and> hd re = 94 then matchhere (tl re) ts else match_from re ts)"

text \<open>
  \<open>strchr(p, '\n')\<close> on the buffer: the line and what follows it.  A NUL in the data ends the
  search, as the NUL after the data does.
\<close>

fun next_line :: "byte list \<Rightarrow> (byte list \<times> byte list) option" where
  "next_line [] = None"
| "next_line (x # xs) =
     (if x = 0 then None else if x = 10 then Some ([], xs)
      else case next_line xs of None \<Rightarrow> None | Some (l, r) \<Rightarrow> Some (x # l, r))"

lemma next_line_shorter: "next_line b = Some (l, r) \<Longrightarrow> length r < length b"
  by (induction b arbitrary: l) (auto split: if_splits option.splits)

text \<open>The inner loop: the lines written to standard output and the rest of the buffer.\<close>

function grep_lines :: "byte list \<Rightarrow> byte list \<Rightarrow> byte list \<times> byte list" where
  "grep_lines pat b =
     (case next_line b of
        None \<Rightarrow> ([], b)
      | Some (l, r) \<Rightarrow>
          (case grep_lines pat r of (o1, rest) \<Rightarrow> ((if match pat l then l @ [10] else []) @ o1, rest)))"
  by pat_completeness auto
termination by (relation "measure (\<lambda>(p, b). length b)") (auto dest: next_line_shorter)

declare grep_lines.simps [simp del]

text \<open>
  The outer loop.  \<open>inp\<close> is what the file still holds; the numbers say how many bytes each
  \<open>read\<close> delivers at most, and when they are used up \<open>read\<close> fails.  \<open>b\<close> is the part of \<open>buf\<close>
  in use.
\<close>

fun grep :: "byte list \<Rightarrow> byte list \<Rightarrow> byte list \<Rightarrow> nat list \<Rightarrow> byte list" where
  "grep pat b inp [] = []"
| "grep pat b inp (k # ks) =
     (let n = min k (min (1024 - length b - 1) (length inp))
      in if n = 0 then []
         else let b1 = b @ take n inp
              in case grep_lines pat b1 of
                   (o1, rest) \<Rightarrow> o1 @ grep pat (if length rest = length b1 then [] else rest) (drop n inp) ks)"

section \<open>The matcher against the meaning of patterns\<close>

text \<open>A pattern is a sequence of items; \<open>None\<close> is any character.\<close>

datatype item = One "byte option" | Many "byte option" | End

definition sym :: "byte \<Rightarrow> byte option" where
  "sym c = (if c = 46 then None else Some c)"

definition fits_sym :: "byte option \<Rightarrow> byte \<Rightarrow> bool" where
  "fits_sym s x \<longleftrightarrow> (case s of None \<Rightarrow> True | Some c \<Rightarrow> x = c)"

fun items :: "byte list \<Rightarrow> item list" where
  "items [] = []"
| "items [c] = [if c = 36 then End else One (sym c)]"
| "items (c # d # re) = (if d = 42 then Many (sym c) # items re else One (sym c) # items (d # re))"

text \<open>The items match the word \<open>u\<close> when \<open>v\<close> follows it.\<close>

fun matches :: "item list \<Rightarrow> byte list \<Rightarrow> byte list \<Rightarrow> bool" where
  "matches [] u v \<longleftrightarrow> u = []"
| "matches (One s # is) u v \<longleftrightarrow> (\<exists>x u'. u = x # u' \<and> fits_sym s x \<and> matches is u' v)"
| "matches (Many s # is) u v \<longleftrightarrow> (\<exists>u1 u2. u = u1 @ u2 \<and> list_all (fits_sym s) u1 \<and> matches is u2 v)"
| "matches (End # is) u v \<longleftrightarrow> u = [] \<and> v = [] \<and> matches is u v"

definition begins :: "item list \<Rightarrow> byte list \<Rightarrow> bool" where
  "begins is ts \<longleftrightarrow> (\<exists>u v. ts = u @ v \<and> matches is u v)"

lemma begins_simps:
  "begins [] ts"
  "begins [End] ts \<longleftrightarrow> ts = []"
  "begins (One s # is) ts \<longleftrightarrow> (\<exists>x t. ts = x # t \<and> fits_sym s x \<and> begins is t)"
  "begins (Many s # is) ts \<longleftrightarrow> (\<exists>u t. ts = u @ t \<and> list_all (fits_sym s) u \<and> begins is t)"
proof -
  show "begins [] ts" "begins [End] ts \<longleftrightarrow> ts = []" by (auto simp: begins_def)
  show "begins (One s # is) ts \<longleftrightarrow> (\<exists>x t. ts = x # t \<and> fits_sym s x \<and> begins is t)" (is "?l = ?r")
  proof
    assume ?l
    then obtain x u v where "ts = (x # u) @ v" "fits_sym s x" "matches is u v" by (auto simp: begins_def)
    then have "ts = x # (u @ v) \<and> fits_sym s x \<and> begins is (u @ v)" by (auto simp: begins_def)
    then show ?r by blast
  next
    assume ?r
    then obtain x u v where "ts = x # u @ v" "fits_sym s x" "matches is u v" by (auto simp: begins_def)
    then have "ts = (x # u) @ v \<and> matches (One s # is) (x # u) v" by simp
    then show ?l unfolding begins_def by blast
  qed
  show "begins (Many s # is) ts \<longleftrightarrow> (\<exists>u t. ts = u @ t \<and> list_all (fits_sym s) u \<and> begins is t)" (is "?l = ?r")
  proof
    assume ?l
    then obtain u1 u2 v where "ts = (u1 @ u2) @ v" "list_all (fits_sym s) u1" "matches is u2 v" by (auto simp: begins_def)
    then have "ts = u1 @ (u2 @ v) \<and> list_all (fits_sym s) u1 \<and> begins is (u2 @ v)" by (auto simp: begins_def)
    then show ?r by blast
  next
    assume ?r
    then obtain u1 u2 v where "ts = u1 @ u2 @ v" "list_all (fits_sym s) u1" "matches is u2 v" by (auto simp: begins_def)
    then have "ts = (u1 @ u2) @ v \<and> matches (Many s # is) (u1 @ u2) v" by auto
    then show ?l unfolding begins_def by blast
  qed
qed

lemma begins_Many: "begins (Many s # is) ts \<longleftrightarrow>
    begins is ts \<or> ts \<noteq> [] \<and> fits_sym s (hd ts) \<and> begins (Many s # is) (tl ts)" (is "?l = ?r")
proof
  assume ?l
  then obtain u t where u: "ts = u @ t" "list_all (fits_sym s) u" "begins is t" by (auto simp: begins_simps)
  then show ?r by (cases u) (auto simp: begins_simps)
next
  assume ?r
  then show ?l
  proof
    assume "begins is ts"
    then have "ts = [] @ ts \<and> list_all (fits_sym s) [] \<and> begins is ts" by simp
    then show ?l unfolding begins_simps by blast
  next
    assume r: "ts \<noteq> [] \<and> fits_sym s (hd ts) \<and> begins (Many s # is) (tl ts)"
    then obtain u t where "tl ts = u @ t" "list_all (fits_sym s) u" "begins is t" by (auto simp: begins_simps)
    with r have "ts = (hd ts # u) @ t \<and> list_all (fits_sym s) (hd ts # u) \<and> begins is t" by (cases ts) auto
    then show ?l unfolding begins_simps by blast
  qed
qed

lemma matcher_correct:
  "matchhere re ts \<longleftrightarrow> begins (items re) ts"
  "matchstar c re ts \<longleftrightarrow> begins (Many (sym c) # items re) ts"
proof (induction re ts and c re ts rule: matchhere_matchstar.induct)
  case (1 re ts)
  have f: "fits_sym (sym c) x \<longleftrightarrow> c = 46 \<or> c = x" for c x by (auto simp: fits_sym_def sym_def)
  show ?case
  proof (cases re rule: items.cases)
    case 1
    then show ?thesis by (simp add: matchhere.simps begins_simps)
  next
    case (2 c)
    with "1.IH" show ?thesis by (subst matchhere.simps) (cases ts; auto simp: begins_simps f)
  next
    case (3 c d re')
    with "1.IH" show ?thesis by (subst matchhere.simps) (cases ts; auto simp: begins_simps(3) f)
  qed
next
  case (2 c re ts)
  have "fits_sym (sym c) x \<longleftrightarrow> x = c \<or> c = 46" for x by (auto simp: fits_sym_def sym_def)
  with 2 show ?case by (subst matchstar.simps, subst begins_Many) auto
qed

lemma match_from_correct: "match_from re ts \<longleftrightarrow> (\<exists>w t. ts = w @ t \<and> begins (items re) t)"
proof (induction ts)
  case Nil
  then show ?case by (simp add: match_from.simps matcher_correct)
next
  case (Cons x ts)
  have "(\<exists>w t. x # ts = w @ t \<and> begins (items re) t) \<longleftrightarrow>
      begins (items re) (x # ts) \<or> (\<exists>w t. ts = w @ t \<and> begins (items re) t)"
    by (auto simp: Cons_eq_append_conv)
  then show ?case using Cons.IH by (subst match_from.simps) (simp add: matcher_correct)
qed

section \<open>The loop against the lines of the input\<close>

text \<open>The complete lines of a text, and what follows the last of them.\<close>

function lines_of :: "byte list \<Rightarrow> byte list list" where
  "lines_of b = (case next_line b of None \<Rightarrow> [] | Some (l, r) \<Rightarrow> l # lines_of r)"
  by pat_completeness auto
termination by (relation "measure length") (auto dest: next_line_shorter)

function tail_of :: "byte list \<Rightarrow> byte list" where
  "tail_of b = (case next_line b of None \<Rightarrow> b | Some (l, r) \<Rightarrow> tail_of r)"
  by pat_completeness auto
termination by (relation "measure length") (auto dest: next_line_shorter)

declare lines_of.simps [simp del] tail_of.simps [simp del]

definition selected :: "byte list \<Rightarrow> byte list \<Rightarrow> byte list" where
  "selected pat b = concat (map (\<lambda>l. l @ [10]) (filter (match pat) (lines_of b)))"

lemma grep_lines_eq: "grep_lines pat b = (selected pat b, tail_of b)"
proof (induction pat b rule: grep_lines.induct)
  case (1 pat b)
  then show ?case
    by (subst grep_lines.simps, cases "next_line b")
       (auto simp: selected_def lines_of.simps[of b] tail_of.simps[of b])
qed

lemma next_line_append: "next_line b = Some (l, r) \<Longrightarrow> next_line (b @ c) = Some (l, r @ c)"
  by (induction b arbitrary: l) (auto split: if_splits option.splits)

lemma next_line_None: "list_all (\<lambda>x. x \<noteq> 0) b \<Longrightarrow> next_line b = None \<longleftrightarrow> 10 \<notin> set b"
  by (induction b) (auto split: option.splits)

lemma next_line_Some: "next_line b = Some (l, r) \<Longrightarrow> b = l @ 10 # r \<and> 10 \<notin> set l"
proof (induction b arbitrary: l)
  case (Cons x b)
  show ?case
  proof (cases "x = 0 \<or> x = 10")
    case True
    then show ?thesis using Cons.prems by (simp split: if_splits)
  next
    case False
    then obtain l' where l': "next_line b = Some (l', r)" "l = x # l'" using Cons.prems by (simp split: option.splits prod.splits)
    then show ?thesis using Cons.IH[OF l'(1)] False by simp
  qed
qed simp

lemma lines_append: "lines_of (b @ c) = lines_of b @ lines_of (tail_of b @ c)"
proof (induction b rule: lines_of.induct)
  case (1 b)
  then show ?case
    by (cases "next_line b") (auto simp: lines_of.simps[of b] tail_of.simps[of b] lines_of.simps[of "b @ c"] next_line_append)
qed

lemma tail_facts:
  "length (tail_of b) \<le> length b"
  "length (tail_of b) = length b \<longleftrightarrow> next_line b = None"
  "set (tail_of b) \<subseteq> set b"
proof (induction b rule: tail_of.induct)
  case (1 b)
  show "length (tail_of b) \<le> length b" "length (tail_of b) = length b \<longleftrightarrow> next_line b = None" "set (tail_of b) \<subseteq> set b"
    using 1(1,3) by (cases "next_line b"; fastforce simp: tail_of.simps[of b] dest: next_line_shorter next_line_Some)+
qed

lemma tail_no_newline: "list_all (\<lambda>x. x \<noteq> 0) b \<Longrightarrow> 10 \<notin> set (tail_of b)"
proof (induction b rule: tail_of.induct)
  case (1 b)
  show ?case
  proof (cases "next_line b")
    case None
    then show ?thesis using next_line_None[OF "1.prems"] by (simp add: tail_of.simps[of b])
  next
    case (Some p)
    obtain l r where p: "p = (l, r)" by (cases p)
    have "list_all (\<lambda>x. x \<noteq> 0) r" using next_line_Some[of b l r] Some p "1.prems" by simp
    then show ?thesis using "1.IH"[OF Some p[symmetric]] Some p by (simp add: tail_of.simps[of b])
  qed
qed

lemma lines_none: "10 \<notin> set b \<Longrightarrow> lines_of b = []"
  by (subst lines_of.simps) (auto split: option.splits dest: next_line_Some)

text \<open>A text put together from lines that end in a newline, and a last piece without one.\<close>

definition unlines :: "byte list list \<Rightarrow> byte list" where
  "unlines ls = concat (map (\<lambda>l. l @ [10]) ls)"

lemma next_line_line: "list_all (\<lambda>x. x \<noteq> 0 \<and> x \<noteq> 10) l \<Longrightarrow> next_line (l @ 10 # r) = Some (l, r)"
  by (induction l) simp_all

lemma lines_of_unlines:
  "list_all (list_all (\<lambda>x. x \<noteq> 0 \<and> x \<noteq> 10)) ls \<Longrightarrow> 10 \<notin> set e \<Longrightarrow> lines_of (unlines ls @ e) = ls"
proof (induction ls)
  case Nil
  then show ?case by (simp add: unlines_def lines_none)
next
  case (Cons l ls)
  then show ?case by (subst lines_of.simps) (simp add: unlines_def next_line_line)
qed

lemma prefix_length:
  assumes "b @ c = l @ x # r" "x \<notin> set b"
  shows "length b \<le> length l"
proof (rule ccontr)
  assume "\<not> length b \<le> length l"
  then have "(b @ c) ! length l = b ! length l" "length l < length b" by (simp_all add: nth_append)
  then show False using assms by (metis nth_append_length nth_mem)
qed

lemma grep_reads:
  assumes "list_all (\<lambda>x. x \<noteq> 0) (b @ inp)" "10 \<notin> set b" "length b \<le> 1022" "list_all (\<lambda>l. length l \<le> 1022) (lines_of (b @ inp))"
    "list_all (\<lambda>k. 1023 \<le> k) ks" "length inp \<le> length ks"
  shows "grep pat b inp ks = selected pat (b @ inp)"
  using assms
proof (induction ks arbitrary: b inp)
  case Nil
  then show ?case by (simp add: selected_def lines_none)
next
  case (Cons k ks)
  let ?n = "min k (min (1024 - length b - 1) (length inp))"
  have n: "?n = min (1023 - length b) (length inp)" using Cons.prems(3,5) by simp linarith
  show ?case
  proof (cases "inp = []")
    case True
    then show ?thesis using Cons.prems(2) by (simp add: selected_def lines_none)
  next
    case False
    then have n0: "?n \<noteq> 0" unfolding n using Cons.prems(3) by (cases inp) auto
    define b1 where "b1 = b @ take ?n inp"
    define i1 where "i1 = drop ?n inp"
    have e: "b1 @ i1 = b @ inp" by (simp add: b1_def i1_def)
    have z: "list_all (\<lambda>x. x \<noteq> 0) b1" "list_all (\<lambda>x. x \<noteq> 0) i1" using Cons.prems(1) unfolding e[symmetric] by simp_all
    have lb: "length b1 \<le> 1023" "i1 \<noteq> [] \<Longrightarrow> length b1 = 1023"
      unfolding b1_def i1_def n using Cons.prems(3) by (auto simp: min_def split: if_splits)
    have g: "grep pat b inp (k # ks) = selected pat b1 @ grep pat (if length (tail_of b1) = length b1 then [] else tail_of b1) i1 ks"
      using n0 by (simp only: grep.simps Let_def grep_lines_eq prod.case if_False b1_def i1_def)
    have li: "length i1 \<le> length ks" "list_all (\<lambda>k. 1023 \<le> k) ks" using Cons.prems(5,6) n0 by (auto simp: i1_def)
    show ?thesis
    proof (cases "next_line b1")
      case None
      then have nl: "10 \<notin> set b1" "tail_of b1 = b1" using next_line_None[OF z(1)] by (simp_all add: tail_of.simps[of b1])
      have "10 \<notin> set i1"
      proof
        assume i: "10 \<in> set i1"
        then have "i1 \<noteq> []" by auto
        then have l1: "length b1 = 1023" by (rule lb(2))
        have "10 \<in> set (b @ inp)" using i unfolding e[symmetric] by simp
        then obtain l r where l: "next_line (b @ inp) = Some (l, r)" using next_line_None[OF Cons.prems(1)] by fastforce
        have "b1 @ i1 = l @ 10 # r" using next_line_Some[OF l] e by metis
        then have "length b1 \<le> length l" using nl(1) by (rule prefix_length)
        moreover have "length l \<le> 1022" using Cons.prems(4) l by (subst (asm) lines_of.simps) simp
        ultimately show False using l1 by linarith
      qed
      then have none: "lines_of b1 = []" "lines_of i1 = []" "lines_of (b @ inp) = []"
        using nl(1) e by (metis Un_iff lines_none set_append)+
      then have "grep pat [] i1 ks = selected pat ([] @ i1)" using z(2) li by (intro Cons.IH) simp_all
      then show ?thesis using g none nl by (simp add: selected_def)
    next
      case (Some p)
      then have nt: "length (tail_of b1) \<noteq> length b1" using tail_facts(2)[of b1] by simp
      have ln: "lines_of (b @ inp) = lines_of b1 @ lines_of (tail_of b1 @ i1)" using lines_append[of b1 i1] e by simp
      have "length (tail_of b1) \<le> 1022" using nt tail_facts(1)[of b1] lb(1) by linarith
      moreover have "list_all (\<lambda>x. x \<noteq> 0) (tail_of b1 @ i1)" using z tail_facts(3)[of b1] by (auto simp: list_all_iff)
      moreover have "list_all (\<lambda>l. length l \<le> 1022) (lines_of (tail_of b1 @ i1))" using Cons.prems(4) ln by simp
      ultimately have "grep pat (tail_of b1) i1 ks = selected pat (tail_of b1 @ i1)"
        using li tail_no_newline[OF z(1)] by (intro Cons.IH)
      then show ?thesis using g nt ln by (simp add: selected_def)
    qed
  qed
qed

end
