(* ===== verification/Sh.thy ===== *)
theory Sh
  imports Ulib Sysfile
begin

unbundle bit_operations_syntax

text \<open>
  The parser of the shell, \<open>sh.c\<close>.  The command line is the list \<open>b\<close> of its bytes without the
  NUL that follows; \<open>char*\<close> pointers into it are positions, \<open>es\<close> is its length.  A token is the
  pair of its start and its end, as \<open>argv\<close>/\<open>eargv\<close> and \<open>file\<close>/\<open>efile\<close> hold it.  \<open>malloc\<close> is taken
  to succeed.  \<open>parseline\<close>, \<open>parsepipe\<close>, \<open>parseexec\<close> and \<open>parseblock\<close> call each other; their first
  argument bounds the depth of the calls.
\<close>

section \<open>Commands\<close>

datatype 'w cmd =
    EXEC "'w list"
  | REDIR "'w cmd" 'w uint nat
  | PIPE "'w cmd" "'w cmd"
  | LIST "'w cmd" "'w cmd"
  | BACK "'w cmd"

definition MAXARGS :: nat where "MAXARGS = 10"

section \<open>Tokens\<close>

definition whitespace :: "byte list" where "whitespace = [32, 9, 13, 10, 11]"
definition symbols :: "byte list" where "symbols = lit ''<|>&;()''"

text \<open>The byte at a position; the NUL at the end.\<close>

definition at :: "byte list \<Rightarrow> nat \<Rightarrow> byte" where
  "at b s = (if s < length b then b ! s else 0)"

function skip_ws :: "byte list \<Rightarrow> nat \<Rightarrow> nat" where
  "skip_ws b s = (if s < length b \<and> b ! s \<in> set whitespace then skip_ws b (s + 1) else s)"
  by auto
termination by (relation "measure (\<lambda>(b, s). length b - s)") auto

function word_end :: "byte list \<Rightarrow> nat \<Rightarrow> nat" where
  "word_end b s = (if s < length b \<and> b ! s \<notin> set whitespace \<and> b ! s \<notin> set symbols then word_end b (s + 1) else s)"
  by auto
termination by (relation "measure (\<lambda>(b, s). length b - s)") auto

declare skip_ws.simps [simp del] word_end.simps [simp del]

text \<open>The token, its start, its end and the position after it; 97 is the letter a, 43 the plus sign.\<close>

definition gettoken :: "byte list \<Rightarrow> nat \<Rightarrow> byte \<times> nat \<times> nat \<times> nat" where
  "gettoken b s =
     (let q = skip_ws b s; c = at b q;
          (ret, e) =
            (if c = 0 then (0, q)
             else if c = 124 \<or> c = 40 \<or> c = 41 \<or> c = 59 \<or> c = 38 \<or> c = 60 then (c, q + 1)
             else if c = 62 then (if at b (q + 1) = 62 then (43, q + 2) else (62, q + 1))
             else (97, word_end b q))
      in (ret, q, e, skip_ws b e))"

text \<open>\<open>gettoken(ps, es, 0, 0)\<close>, of which only the new position is used.\<close>

definition next_token :: "byte list \<Rightarrow> nat \<Rightarrow> nat" where
  "next_token b s = (case gettoken b s of (_, _, _, s1) \<Rightarrow> s1)"

definition peek :: "byte list \<Rightarrow> nat \<Rightarrow> byte list \<Rightarrow> nat \<times> bool" where
  "peek b s toks = (let s1 = skip_ws b s in (s1, at b s1 \<noteq> 0 \<and> at b s1 \<in> set toks))"

lemma skip_ws_ge: "s \<le> skip_ws b s" "s \<le> length b \<Longrightarrow> skip_ws b s \<le> length b"
  by (induction b s rule: skip_ws.induct) (subst skip_ws.simps, auto)+

lemma word_end_ge: "s \<le> word_end b s" "s \<le> length b \<Longrightarrow> word_end b s \<le> length b"
  by (induction b s rule: word_end.induct) (subst word_end.simps, auto)+

lemma at_less: "at b s \<noteq> 0 \<Longrightarrow> s < length b"
  by (simp add: at_def split: if_splits)

lemma gettoken_ge:
  assumes "gettoken b s = (t, q, e, s1)"
  shows "s \<le> q" "q \<le> e" "e \<le> s1" "s \<le> length b \<Longrightarrow> s1 \<le> length b" "t \<noteq> 0 \<Longrightarrow> t \<noteq> 97 \<Longrightarrow> q < e"
proof -
  have q: "q = skip_ws b s" and s1: "s1 = skip_ws b e" using assms by (auto simp: gettoken_def Let_def split: prod.splits)
  show "s \<le> q" "e \<le> s1" using skip_ws_ge(1) q s1 by auto
  show "q \<le> e" "t \<noteq> 0 \<Longrightarrow> t \<noteq> 97 \<Longrightarrow> q < e"
    using assms q word_end_ge(1)[of q b] by (auto simp: gettoken_def Let_def split: if_splits)
  assume "s \<le> length b"
  then have "q \<le> length b" using skip_ws_ge(2) q by simp
  moreover have "e \<le> length b"
    using assms q \<open>q \<le> length b\<close> word_end_ge(2)[of q b] at_less[of b q] at_less[of b "q + 1"]
    by (auto simp: gettoken_def Let_def split: if_splits)
  ultimately show "s1 \<le> length b" using s1 skip_ws_ge(2) by simp
qed

lemma next_token_ge: "s \<le> next_token b s" "s \<le> length b \<Longrightarrow> next_token b s \<le> length b"
  using gettoken_ge[of b s] by (auto simp: next_token_def split: prod.splits)

text \<open>A symbol that \<open>peek\<close> has seen is consumed.\<close>

lemma next_token_symbol:
  assumes "peek b s toks = (s1, True)" "set toks \<subseteq> set symbols"
  shows "s < next_token b s1" "s1 < length b"
proof -
  have c: "at b s1 \<noteq> 0" "at b s1 \<in> set symbols" "s1 = skip_ws b s" using assms by (auto simp: peek_def Let_def)
  show lt: "s1 < length b" using at_less[OF c(1)] .
  have nw: "b ! s1 \<notin> set whitespace" using c(2) lt by (auto simp: at_def symbols_def whitespace_def lit_def of_char_def)
  then have "skip_ws b s1 = s1" by (subst skip_ws.simps) simp
  then have "s1 < next_token b s1"
    using c(1,2) skip_ws_ge(1)[of "s1 + 1" b] skip_ws_ge(1)[of "s1 + 2" b]
    by (auto simp: next_token_def gettoken_def Let_def symbols_def lit_def of_char_def split: prod.splits)
  then show "s < next_token b s1" using skip_ws_ge(1)[of s b] c(3) by simp
qed

section \<open>The parser\<close>

text \<open>\<open>peek(ps, es, "<>")\<close> and so on: the characters are 60 and 62, 124, 38, 59, 40 and 41.\<close>

definition redir :: "byte \<Rightarrow> (nat \<times> nat) cmd \<Rightarrow> nat \<times> nat \<Rightarrow> (nat \<times> nat) cmd" where
  "redir tok c w =
     (if tok = 60 then REDIR c w O_RDONLY 0
      else if tok = 62 then REDIR c w (O_WRONLY OR O_CREATE) 1
      else if tok = 43 then REDIR c w (O_WRONLY OR O_CREATE) 1
      else c)"

lemma redir_progress:
  assumes "peek b s [60, 62] = (s1, True)" "gettoken b s1 = (tok, x, y, s2)" "gettoken b s2 = (tok2, q, e, s3)"
  shows "s < s3" "s < length b" "s3 \<le> length b"
proof -
  have sub: "set [60, 62] \<subseteq> set symbols" by (simp add: symbols_def lit_def of_char_def)
  have "next_token b s1 = s2" using assms(2) by (simp add: next_token_def)
  then have "s < s2" "s1 < length b" using next_token_symbol[OF assms(1) sub] by simp_all
  moreover have "s \<le> s1" using assms(1) skip_ws_ge(1)[of s b] by (auto simp: peek_def Let_def)
  ultimately show "s < s3" "s < length b" using gettoken_ge(1-3)[OF assms(3)] by linarith+
  show "s3 \<le> length b" using gettoken_ge(4)[OF assms(2)] gettoken_ge(4)[OF assms(3)] \<open>s1 < length b\<close> by simp
qed

lemma redir_measure:
  assumes "(s1, True) = peek b s [60, 62]" "(tok, x, y, s2) = gettoken b s1" "(tok2, q, e, s3) = gettoken b s2"
  shows "length b - s3 < length b - s"
  using redir_progress(1,2)[OF assms(1-3)[symmetric]] by simp

function parseredirs :: "byte list \<Rightarrow> (nat \<times> nat) cmd \<Rightarrow> nat \<Rightarrow> ((nat \<times> nat) cmd \<times> nat) res" where
  "parseredirs b c s =
     (case peek b s [60, 62] of
        (s1, False) \<Rightarrow> Ok (c, s1)
      | (s1, True) \<Rightarrow>
          (case gettoken b s1 of (tok, _, _, s2) \<Rightarrow>
           case gettoken b s2 of (tok2, q, eq, s3) \<Rightarrow>
             if tok2 \<noteq> 97 then Panic ''missing file for redirection''
             else parseredirs b (redir tok c (q, eq)) s3))"
  by pat_completeness auto
termination by (relation "measure (\<lambda>(b, c, s). length b - s)") (auto intro: redir_measure)

text \<open>
  The command that \<open>parseexec\<close> fills with arguments is the innermost one, whatever redirections
  have been put around it meanwhile.
\<close>

fun add_arg :: "'w \<Rightarrow> 'w cmd \<Rightarrow> 'w cmd" where
  "add_arg w (EXEC ws) = EXEC (ws @ [w])"
| "add_arg w (REDIR c f m d) = REDIR (add_arg w c) f m d"
| "add_arg w c = c"

function exec_args :: "byte list \<Rightarrow> (nat \<times> nat) cmd \<Rightarrow> nat \<Rightarrow> nat \<Rightarrow> ((nat \<times> nat) cmd \<times> nat) res" where
  "exec_args b c argc s =
     (case peek b s [124, 41, 38, 59] of
        (s1, True) \<Rightarrow> Ok (c, s1)
      | (s1, False) \<Rightarrow>
          (case gettoken b s1 of (tok, q, eq, s2) \<Rightarrow>
             if tok = 0 then Ok (c, s2)
             else if tok \<noteq> 97 then Panic ''syntax''
             else if argc + 1 \<ge> MAXARGS then Panic ''too many args''
             else rbind (parseredirs b (add_arg (q, eq) c) s2) (\<lambda>(c1, s3). exec_args b c1 (argc + 1) s3)))"
  by pat_completeness auto
termination by (relation "measure (\<lambda>(b, c, n, s). MAXARGS - n)") auto

lemma symbol_progress:
  assumes "peek b s [x] = (s1, True)" "x \<in> set symbols"
  shows "s < next_token b s1" "s < length b" "next_token b s1 \<le> length b"
proof -
  show "s < next_token b s1" using next_token_symbol(1)[OF assms(1)] assms(2) by simp
  have "s1 < length b" using next_token_symbol(2)[OF assms(1)] assms(2) by simp
  moreover have "s \<le> s1" using assms(1) skip_ws_ge(1)[of s b] by (auto simp: peek_def Let_def)
  ultimately show "s < length b" "next_token b s1 \<le> length b" using next_token_ge(2)[of s1 b] by simp_all
qed

lemma in_symbols [simp]: "38 \<in> set symbols" "59 \<in> set symbols" "124 \<in> set symbols" "40 \<in> set symbols" "41 \<in> set symbols"
  "60 \<in> set symbols" "62 \<in> set symbols"
  by (simp_all add: symbols_def lit_def of_char_def)

lemma back_measure: "(s1, True) = peek b s [38] \<Longrightarrow> length b - next_token b s1 < length b - s"
  using symbol_progress(1,2)[OF sym] in_symbols(1) by (metis diff_less_mono2)

function parseback :: "byte list \<Rightarrow> (nat \<times> nat) cmd \<Rightarrow> nat \<Rightarrow> (nat \<times> nat) cmd \<times> nat" where
  "parseback b c s =
     (case peek b s [38] of
        (s1, True) \<Rightarrow> parseback b (BACK c) (next_token b s1)
      | (s1, False) \<Rightarrow> (c, s1))"
  by pat_completeness auto
termination by (relation "measure (\<lambda>(b, c, s). length b - s)") (auto intro: back_measure)

declare parseredirs.simps [simp del] exec_args.simps [simp del] parseback.simps [simp del]

fun parseline :: "nat \<Rightarrow> byte list \<Rightarrow> nat \<Rightarrow> ((nat \<times> nat) cmd \<times> nat) res"
and parsepipe :: "nat \<Rightarrow> byte list \<Rightarrow> nat \<Rightarrow> ((nat \<times> nat) cmd \<times> nat) res"
and parseexec :: "nat \<Rightarrow> byte list \<Rightarrow> nat \<Rightarrow> ((nat \<times> nat) cmd \<times> nat) res"
and parseblock :: "nat \<Rightarrow> byte list \<Rightarrow> nat \<Rightarrow> ((nat \<times> nat) cmd \<times> nat) res" where
  "parseline 0 b s = Hang"
| "parseline (Suc n) b s =
     rbind (parsepipe n b s) (\<lambda>(c, s1).
     case parseback b c s1 of (c1, s2) \<Rightarrow>
     case peek b s2 [59] of
       (s3, True) \<Rightarrow> rbind (parseline n b (next_token b s3)) (\<lambda>(d, s4). Ok (LIST c1 d, s4))
     | (s3, False) \<Rightarrow> Ok (c1, s3))"
| "parsepipe 0 b s = Hang"
| "parsepipe (Suc n) b s =
     rbind (parseexec n b s) (\<lambda>(c, s1).
     case peek b s1 [124] of
       (s2, True) \<Rightarrow> rbind (parsepipe n b (next_token b s2)) (\<lambda>(d, s3). Ok (PIPE c d, s3))
     | (s2, False) \<Rightarrow> Ok (c, s2))"
| "parseexec 0 b s = Hang"
| "parseexec (Suc n) b s =
     (case peek b s [40] of
        (s1, True) \<Rightarrow> parseblock n b s1
      | (s1, False) \<Rightarrow> rbind (parseredirs b (EXEC []) s1) (\<lambda>(c, s2). exec_args b c 0 s2))"
| "parseblock 0 b s = Hang"
| "parseblock (Suc n) b s =
     (case peek b s [40] of
        (s1, False) \<Rightarrow> Panic ''parseblock''
      | (s1, True) \<Rightarrow>
          rbind (parseline n b (next_token b s1)) (\<lambda>(c, s2).
          case peek b s2 [41] of
            (s3, False) \<Rightarrow> Panic ''syntax - missing )''
          | (s3, True) \<Rightarrow> parseredirs b c (next_token b s3)))"

text \<open>The NULs that end the tokens, in the buffer with its own NUL.\<close>

fun nulterminate :: "(nat \<times> nat) cmd \<Rightarrow> byte list \<Rightarrow> byte list" where
  "nulterminate (EXEC ws) m = fold (\<lambda>(q, e) m. m[e := 0]) ws m"
| "nulterminate (REDIR c w md d) m = (nulterminate c m)[snd w := 0]"
| "nulterminate (PIPE l r) m = nulterminate r (nulterminate l m)"
| "nulterminate (LIST l r) m = nulterminate r (nulterminate l m)"
| "nulterminate (BACK c) m = nulterminate c m"

definition depth :: "byte list \<Rightarrow> nat" where
  "depth b = 4 * length b + 4"

definition parsecmd :: "byte list \<Rightarrow> ((nat \<times> nat) cmd \<times> byte list) res" where
  "parsecmd b =
     rbind (parseline (depth b) b 0) (\<lambda>(c, s).
     case peek b s [] of (s1, _) \<Rightarrow>
       if s1 \<noteq> length b then Panic ''syntax'' else Ok (c, nulterminate c (b @ [0])))"

end
