(* ===== verification/Sh_Thms.thy ===== *)
theory Sh_Thms
  imports Sh
begin

text \<open>
  The parser of the shell always ends, with a command tree or with one of its error messages
  (\<open>parser_returns\<close>); the tokens of the tree are words of the command line (\<open>tok_ok\<close>), which
  \<open>nulterminate\<close> turns into strings (\<open>nulterminate_words\<close>); the syntax that \<open>cmd_text\<close> writes is
  the one of \<open>Sh_Round\<close>.
\<close>

section \<open>Words\<close>

definition word_char :: "byte \<Rightarrow> bool" where
  "word_char x \<longleftrightarrow> x \<notin> set whitespace \<and> x \<notin> set symbols \<and> x \<noteq> 0"

definition tok_ok :: "byte list \<Rightarrow> nat \<times> nat \<Rightarrow> bool" where
  "tok_ok b t \<longleftrightarrow> fst t < snd t \<and> snd t \<le> length b \<and> (\<forall>i. fst t \<le> i \<and> i < snd t \<longrightarrow> word_char (b ! i)) \<and>
     (snd t < length b \<longrightarrow> \<not> word_char (b ! snd t))"

text \<open>What a tree may hold: words that satisfy \<open>P\<close>, fewer than \<open>MAXARGS\<close> of them in a command.\<close>

fun cmd_ok :: "('w \<Rightarrow> bool) \<Rightarrow> 'w cmd \<Rightarrow> bool" where
  "cmd_ok P (EXEC ws) \<longleftrightarrow> length ws < MAXARGS \<and> (\<forall>w\<in>set ws. P w)"
| "cmd_ok P (REDIR c w m d) \<longleftrightarrow> cmd_ok P c \<and> P w \<and> ((m, d) = (O_RDONLY, 0) \<or> (m, d) = (O_WRONLY OR O_CREATE, 1))"
| "cmd_ok P (PIPE l r) \<longleftrightarrow> cmd_ok P l \<and> cmd_ok P r"
| "cmd_ok P (LIST l r) \<longleftrightarrow> cmd_ok P l \<and> cmd_ok P r"
| "cmd_ok P (BACK c) \<longleftrightarrow> cmd_ok P c"

lemma symbols_eq: "set symbols = {60, 124, 62, 38, 59, 40, 41}"
  by (simp add: symbols_def lit_def of_char_def)

lemma skip_ws_at: "skip_ws b s < length b \<Longrightarrow> b ! skip_ws b s \<notin> set whitespace"
proof (induction b s rule: skip_ws.induct)
  case (1 b s)
  then show ?case by (cases "s < length b \<and> b ! s \<in> set whitespace") (simp_all add: skip_ws.simps[of b s])
qed

lemma word_end_chars:
  "0 \<notin> set b \<Longrightarrow> s \<le> i \<Longrightarrow> i < word_end b s \<Longrightarrow> word_char (b ! i)"
  "word_end b s < length b \<Longrightarrow> \<not> word_char (b ! word_end b s)"
proof (induction b s rule: word_end.induct)
  case (1 b s)
  {
    case 1
    then have "s < length b \<Longrightarrow> b ! s \<noteq> 0" by (metis nth_mem)
    with 1 show ?case using "1.IH"(1)
      by (cases "s < length b \<and> b ! s \<notin> set whitespace \<and> b ! s \<notin> set symbols"; cases "i = s")
        (auto simp: word_end.simps[of b s] word_char_def)
  next
    case 2
    then show ?case using "1.IH"(2)
      by (cases "s < length b \<and> b ! s \<notin> set whitespace \<and> b ! s \<notin> set symbols")
        (auto simp: word_end.simps[of b s] word_char_def)
  }
qed

lemma gettoken_word:
  assumes "gettoken b s = (97, q, e, s1)" "0 \<notin> set b" "s \<le> length b"
  shows "tok_ok b (q, e)" "s < s1"
proof -
  have q: "q = skip_ws b s" and nz: "at b q \<noteq> 0" and e: "e = word_end b q" and sy: "at b q \<notin> set symbols"
    using assms(1) by (auto simp: gettoken_def Let_def symbols_eq split: if_splits)
  have lt: "q < length b" using at_less[OF nz] .
  then have "b ! q \<notin> set whitespace" "b ! q \<notin> set symbols" using skip_ws_at q sy by (auto simp: at_def)
  then have "word_end b q = word_end b (q + 1)" using lt by (subst word_end.simps) simp
  then have "q < e" using word_end_ge(1)[of "q + 1" b] e by simp
  then show "tok_ok b (q, e)"
    using word_end_chars[of b q] word_end_ge(2)[of q b] assms(2) lt e by (simp add: tok_ok_def)
  show "s < s1" using gettoken_ge(1,3)[OF assms(1)] \<open>q < e\<close> by simp
qed

section \<open>The parser ends\<close>

definition returns :: "('a \<Rightarrow> bool) \<Rightarrow> 'a res \<Rightarrow> bool" where
  "returns P r \<longleftrightarrow> (case r of Ok x \<Rightarrow> P x | Panic _ \<Rightarrow> True | _ \<Rightarrow> False)"

lemma returns_simps [simp]: "returns P (Ok x) = P x" "returns P (Panic m)"
  by (simp_all add: returns_def)

lemma returns_bind': "returns P r \<Longrightarrow> (\<And>x. r = Ok x \<Longrightarrow> P x \<Longrightarrow> returns Q (f x)) \<Longrightarrow> returns Q (rbind r f)"
  by (cases r) (simp_all add: returns_def)

lemma returns_bind: "returns P r \<Longrightarrow> (\<And>x. P x \<Longrightarrow> returns Q (f x)) \<Longrightarrow> returns Q (rbind r f)"
  by (cases r) (simp_all add: returns_def)

text \<open>A piece of the parser moves on from position \<open>s\<close> and gives a tree that is in order.\<close>

abbreviation piece :: "byte list \<Rightarrow> nat \<Rightarrow> (nat \<times> nat) cmd \<times> nat \<Rightarrow> bool" where
  "piece b s x \<equiv> cmd_ok (tok_ok b) (fst x) \<and> s \<le> snd x \<and> snd x \<le> length b"

lemma peek_pos: "peek b s toks = (s1, r) \<Longrightarrow> s \<le> s1" "peek b s toks = (s1, r) \<Longrightarrow> s \<le> length b \<Longrightarrow> s1 \<le> length b"
  using skip_ws_ge[of s b] by (auto simp: peek_def Let_def)

text \<open>The number of arguments of the command under its redirections.\<close>

fun core_args :: "'w cmd \<Rightarrow> nat option" where
  "core_args (EXEC ws) = Some (length ws)"
| "core_args (REDIR c w m d) = core_args c"
| "core_args c = None"

lemma redir_ok: "cmd_ok P c \<Longrightarrow> P w \<Longrightarrow> cmd_ok P (redir tok c w)" "core_args (redir tok c w) = core_args c"
  by (simp_all add: redir_def)

lemma parseredirs_returns:
  "0 \<notin> set b \<Longrightarrow> cmd_ok (tok_ok b) c \<Longrightarrow> s \<le> length b \<Longrightarrow>
   returns (\<lambda>x. piece b s x \<and> core_args (fst x) = core_args c) (parseredirs b c s)"
proof (induction b c s rule: parseredirs.induct)
  case (1 b c s)
  obtain s1 r where p: "peek b s [60, 62] = (s1, r)" by fastforce
  obtain tok x y s2 where g: "gettoken b s1 = (tok, x, y, s2)" by (metis prod_cases4)
  obtain tok2 q e s3 where h: "gettoken b s2 = (tok2, q, e, s3)" by (metis prod_cases4)
  note s1 = peek_pos[OF p]
  show ?case
  proof (cases r)
    case True
    then have p': "peek b s [60, 62] = (s1, True)" using p by simp
    note pr = redir_progress[OF p' g h]
    have s2: "s2 \<le> length b" using gettoken_ge(4)[OF g] s1(2) 1(4) by simp
    show ?thesis
    proof (cases "tok2 = 97")
      case t: True
      have "tok_ok b (q, e)" using gettoken_word(1)[OF h[unfolded t] 1(2) s2] .
      then have "returns (\<lambda>x. piece b s3 x \<and> core_args (fst x) = core_args c) (parseredirs b (redir tok c (q, e)) s3)"
        using 1(1)[OF p'[symmetric] refl g[symmetric] refl refl h[symmetric] refl refl] t 1(2-4) pr redir_ok by simp
      then have "returns (\<lambda>x. piece b s x \<and> core_args (fst x) = core_args c) (parseredirs b (redir tok c (q, e)) s3)"
        using pr(1) by (auto simp: returns_def split: res.splits)
      then show ?thesis using p g h t True by (subst parseredirs.simps) simp
    next
      case False
      then show ?thesis using p g h True by (subst parseredirs.simps) simp
    qed
  next
    case False
    then show ?thesis using p s1 1(3,4) by (subst parseredirs.simps) simp
  qed
qed

lemma add_arg_ok:
  "cmd_ok P c \<Longrightarrow> P w \<Longrightarrow> core_args c = Some n \<Longrightarrow> n + 1 < MAXARGS \<Longrightarrow>
   cmd_ok P (add_arg w c) \<and> core_args (add_arg w c) = Some (n + 1)"
  by (induction c) auto

lemma gettoken_pos: "gettoken b s = (t, q, e, s1) \<Longrightarrow> s \<le> s1" "gettoken b s = (t, q, e, s1) \<Longrightarrow> s \<le> length b \<Longrightarrow> s1 \<le> length b"
  using gettoken_ge[of b s t q e s1] by auto

lemma exec_args_returns:
  "0 \<notin> set b \<Longrightarrow> cmd_ok (tok_ok b) c \<Longrightarrow> core_args c = Some n \<Longrightarrow> s \<le> length b \<Longrightarrow>
   returns (piece b s) (exec_args b c n s)"
proof (induction b c n s rule: exec_args.induct)
  case (1 b c n s)
  obtain s1 r where p: "peek b s [124, 41, 38, 59] = (s1, r)" by fastforce
  obtain tok q e s2 where g: "gettoken b s1 = (tok, q, e, s2)" by (metis prod_cases4)
  note s1 = peek_pos[OF p] and s2 = gettoken_pos[OF g]
  show ?case
  proof (cases "r \<or> tok \<noteq> 97 \<or> MAXARGS \<le> n + 1")
    case True
    then show ?thesis using p g s1 s2 1(3,5) by (subst exec_args.simps) (auto split: bool.splits)
  next
    case False
    then have p': "peek b s [124, 41, 38, 59] = (s1, False)" and t: "tok = 97" and n: "n + 1 < MAXARGS" using p by auto
    have w: "tok_ok b (q, e)" using gettoken_word(1)[OF g[unfolded t] 1(2)] s1(2) 1(5) by simp
    note a = add_arg_ok[OF 1(3) w 1(4) n]
    have "returns (piece b s) (rbind (parseredirs b (add_arg (q, e) c) s2) (\<lambda>(c1, s3). exec_args b c1 (n + 1) s3))"
    proof (rule returns_bind'[OF parseredirs_returns])
      fix x assume e: "parseredirs b (add_arg (q, e) c) s2 = Ok x" and x: "piece b s2 x \<and> core_args (fst x) = core_args (add_arg (q, e) c)"
      obtain c1 s3 where xe: "x = (c1, s3)" by fastforce
      have "returns (piece b s3) (exec_args b c1 (n + 1) s3)"
        using 1(1)[OF p'[symmetric] refl g[symmetric] refl refl _ _ _ e] t n x xe a 1(2) by simp
      then show "returns (piece b s) (case x of (c1, s3) \<Rightarrow> exec_args b c1 (n + 1) s3)"
        using s1 s2 x xe 1(5) by (auto simp: returns_def split: res.splits)
    qed (use a 1(2,5) s1 s2 in simp_all)
    then show ?thesis using p' g t n by (subst exec_args.simps) simp
  qed
qed

lemma parseback_piece:
  "cmd_ok P c \<Longrightarrow> s \<le> length b \<Longrightarrow> parseback b c s = (c1, s1) \<Longrightarrow> cmd_ok P c1 \<and> s \<le> s1 \<and> s1 \<le> length b"
proof (induction b c s rule: parseback.induct)
  case (1 b c s)
  obtain s2 r where p: "peek b s [38] = (s2, r)" by fastforce
  show ?case
  proof (cases r)
    case True
    then have p': "peek b s [38] = (s2, True)" using p by simp
    show ?thesis using 1(1)[OF p'[symmetric] refl] 1(2-4) symbol_progress[OF p'] p' by (subst (asm) parseback.simps) simp
  next
    case False
    then show ?thesis using p 1(2-4) peek_pos[OF p] by (subst (asm) parseback.simps) simp
  qed
qed

lemma returns_mono: "returns P r \<Longrightarrow> (\<And>x. P x \<Longrightarrow> Q x) \<Longrightarrow> returns Q r"
  by (simp add: returns_def split: res.splits)

lemma parseline_step:
  assumes "returns (piece b s) (parsepipe n b s)"
    and "\<And>s'. s < s' \<Longrightarrow> s < length b \<Longrightarrow> s' \<le> length b \<Longrightarrow> returns (piece b s') (parseline n b s')"
  shows "returns (piece b s) (parseline (Suc n) b s)"
  unfolding parseline.simps using assms(1)
proof (rule returns_bind)
  fix x assume x: "piece b s x"
  obtain c s1 where xe: "x = (c, s1)" by fastforce
  obtain c1 s2 where pb: "parseback b c s1 = (c1, s2)" by fastforce
  obtain s3 r where p: "peek b s2 [59] = (s3, r)" by fastforce
  have pc: "cmd_ok (tok_ok b) c1" "s1 \<le> s2" "s2 \<le> length b" using parseback_piece[OF _ _ pb] x xe by auto
  have "returns (piece b s) (rbind (parseline n b (next_token b s3)) (\<lambda>(d, s4). Ok (LIST c1 d, s4)))" if r
  proof (rule returns_bind[OF assms(2)])
    have pg: "s2 < next_token b s3" "s2 < length b" "next_token b s3 \<le> length b"
      using symbol_progress[of b s2 59 s3] p that by simp_all
    then show "s < length b" "s < next_token b s3" "next_token b s3 \<le> length b" using pc x xe by simp_all
    fix y assume "piece b (next_token b s3) y"
    then show "returns (piece b s) (case y of (d, s4) \<Rightarrow> Ok (LIST c1 d, s4))" using pc pg x xe by (cases y) simp
  qed
  then show "returns (piece b s) (case x of (c, s1) \<Rightarrow> case parseback b c s1 of (c1, s2) \<Rightarrow> case peek b s2 [59] of
        (s3, True) \<Rightarrow> rbind (parseline n b (next_token b s3)) (\<lambda>(d, s4). Ok (LIST c1 d, s4)) | (s3, False) \<Rightarrow> Ok (c1, s3))"
    using peek_pos[OF p] pc x by (simp add: xe pb p split: bool.splits)
qed

lemma parsepipe_step:
  assumes "returns (piece b s) (parseexec n b s)"
    and "\<And>s'. s < s' \<Longrightarrow> s < length b \<Longrightarrow> s' \<le> length b \<Longrightarrow> returns (piece b s') (parsepipe n b s')"
  shows "returns (piece b s) (parsepipe (Suc n) b s)"
  unfolding parsepipe.simps using assms(1)
proof (rule returns_bind)
  fix x assume x: "piece b s x"
  obtain c s1 where xe: "x = (c, s1)" by fastforce
  obtain s2 r where p: "peek b s1 [124] = (s2, r)" by fastforce
  have "returns (piece b s) (rbind (parsepipe n b (next_token b s2)) (\<lambda>(d, s3). Ok (PIPE c d, s3)))" if r
  proof (rule returns_bind[OF assms(2)])
    have pg: "s1 < next_token b s2" "s1 < length b" "next_token b s2 \<le> length b"
      using symbol_progress[of b s1 124 s2] p that by simp_all
    then show "s < length b" "s < next_token b s2" "next_token b s2 \<le> length b" using x xe by simp_all
    fix y assume "piece b (next_token b s2) y"
    then show "returns (piece b s) (case y of (d, s3) \<Rightarrow> Ok (PIPE c d, s3))" using pg x xe by (cases y) simp
  qed
  then show "returns (piece b s) (case x of (c, s1) \<Rightarrow> case peek b s1 [124] of
        (s2, True) \<Rightarrow> rbind (parsepipe n b (next_token b s2)) (\<lambda>(d, s3). Ok (PIPE c d, s3)) | (s2, False) \<Rightarrow> Ok (c, s2))"
    using peek_pos[OF p] x by (simp add: xe p split: bool.splits)
qed

lemma parseexec_step:
  assumes "0 \<notin> set b" "s \<le> length b"
    and "\<And>s'. s \<le> s' \<Longrightarrow> s' \<le> length b \<Longrightarrow> returns (piece b s') (parseblock n b s')"
  shows "returns (piece b s) (parseexec (Suc n) b s)"
proof -
  obtain s1 r where p: "peek b s [40] = (s1, r)" by fastforce
  note s1 = peek_pos[OF p]
  have blk: "returns (piece b s) (parseblock n b s1)"
    by (rule returns_mono[OF assms(3)]) (use s1 assms(2) in auto)
  have "returns (piece b s) (rbind (parseredirs b (EXEC []) s1) (\<lambda>(c, s2). exec_args b c 0 s2))"
    by (rule returns_bind[OF parseredirs_returns], (use s1 assms(1,2) in \<open>simp_all add: MAXARGS_def\<close>)[3],
        clarsimp, rule returns_mono[OF exec_args_returns]) (use s1 assms(1) in auto)
  then show ?thesis using blk p by (simp split: bool.splits)
qed

lemma parseblock_step:
  assumes "0 \<notin> set b"
    and "\<And>s'. s < s' \<Longrightarrow> s < length b \<Longrightarrow> s' \<le> length b \<Longrightarrow> returns (piece b s') (parseline n b s')"
  shows "returns (piece b s) (parseblock (Suc n) b s)"
proof -
  obtain s1 r where p: "peek b s [40] = (s1, r)" by fastforce
  have "returns (piece b s) (rbind (parseline n b (next_token b s1)) (\<lambda>(c, s2).
        case peek b s2 [41] of (s3, False) \<Rightarrow> Panic ''syntax - missing )'' | (s3, True) \<Rightarrow> parseredirs b c (next_token b s3)))"
    if r
  proof (rule returns_bind[OF assms(2)])
    show pg: "s < next_token b s1" "s < length b" "next_token b s1 \<le> length b"
      using symbol_progress[of b s 40 s1] p that by simp_all
    fix x assume x: "piece b (next_token b s1) x"
    obtain c s2 where xe: "x = (c, s2)" by fastforce
    obtain s3 r' where p3: "peek b s2 [41] = (s3, r')" by fastforce
    have "returns (piece b s) (parseredirs b c (next_token b s3))" if r'
      by (rule returns_mono[OF parseredirs_returns])
        (use symbol_progress[of b s2 41 s3] p3 that x xe pg assms(1) in auto)
    then show "returns (piece b s) (case x of (c, s2) \<Rightarrow> case peek b s2 [41] of
        (s3, False) \<Rightarrow> Panic ''syntax - missing )'' | (s3, True) \<Rightarrow> parseredirs b c (next_token b s3))"
      using p3 by (simp add: xe split: bool.splits)
  qed
  then show ?thesis using p by (simp split: bool.splits)
qed

text \<open>The depth of calls that suffices at position \<open>s\<close>, for each of the four procedures.\<close>

lemma parser_returns:
  assumes "0 \<notin> set b"
  shows "4 * (length b - s) + 4 \<le> n \<Longrightarrow> s \<le> length b \<Longrightarrow> returns (piece b s) (parseline n b s)"
    and "4 * (length b - s) + 3 \<le> n \<Longrightarrow> s \<le> length b \<Longrightarrow> returns (piece b s) (parsepipe n b s)"
    and "4 * (length b - s) + 2 \<le> n \<Longrightarrow> s \<le> length b \<Longrightarrow> returns (piece b s) (parseexec n b s)"
    and "4 * (length b - s) + 1 \<le> n \<Longrightarrow> s \<le> length b \<Longrightarrow> returns (piece b s) (parseblock n b s)"
proof (induction n arbitrary: s)
  case (Suc n)
  {
    case 1
    then show ?case by (intro parseline_step Suc.IH) simp_all
  next
    case 2
    then show ?case by (intro parsepipe_step Suc.IH) simp_all
  next
    case 3
    then show ?case by (intro parseexec_step assms Suc.IH) simp_all
  next
    case 4
    then show ?case by (intro parseblock_step assms Suc.IH) simp_all
  }
qed simp_all

section \<open>The strings\<close>

definition str_at :: "byte list \<Rightarrow> nat \<Rightarrow> byte list" where
  "str_at m q = takeWhile (\<lambda>x. x \<noteq> 0) (drop q m)"

definition text_of :: "byte list \<Rightarrow> nat \<times> nat \<Rightarrow> byte list" where
  "text_of b t = take (snd t - fst t) (drop (fst t) b)"

text \<open>\<open>nulterminate\<close> writes NULs, at the ends of the tokens only.\<close>

lemma nulterminate_nth:
  assumes "cmd_ok (\<lambda>t. snd t < length m) c"
  shows "length (nulterminate c m) = length m"
    and "i < length m \<Longrightarrow> nulterminate c m ! i = (if i \<in> snd ` set_cmd c then 0 else m ! i)"
  using assms
proof (induction c arbitrary: m)
  case (EXEC ws)
  have fold_len: "length (fold (\<lambda>(q, e) m. m[e := 0]) ws m) = length m" for ws :: "(nat \<times> nat) list" and m :: "byte list"
    by (induction ws arbitrary: m) (auto split: prod.splits)
  have fold_nth: "i < length m \<Longrightarrow> fold (\<lambda>(q, e) m. m[e := 0]) ws m ! i = (if i \<in> snd ` set ws then 0 else m ! i)"
    for ws :: "(nat \<times> nat) list" and m :: "byte list"
    by (induction ws arbitrary: m) (auto simp: nth_list_update split: prod.splits)
  { case 1 show ?case by (simp add: fold_len) }
  { case 2 then show ?case by (simp add: fold_nth) }
qed (auto simp: nth_list_update)

lemma cmd_ok_mono: "cmd_ok P c \<Longrightarrow> (\<And>t. P t \<Longrightarrow> Q t) \<Longrightarrow> cmd_ok Q c"
  by (induction c) auto

lemma cmd_ok_set: "cmd_ok P c \<Longrightarrow> t \<in> set_cmd c \<Longrightarrow> P t"
  by (induction c) auto

lemma nulterminate_words:
  assumes ok: "cmd_ok (tok_ok b) c" and nz: "0 \<notin> set b" and t: "t \<in> set_cmd c"
  shows "str_at (nulterminate c (b @ [0])) (fst t) = text_of b t"
proof -
  let ?m = "nulterminate c (b @ [0])"
  have "cmd_ok (\<lambda>t. snd t < length (b @ [0])) c" by (rule cmd_ok_mono[OF ok]) (simp add: tok_ok_def)
  note n = nulterminate_nth[OF this]
  obtain q e where te: "t = (q, e)" by fastforce
  have tk: "tok_ok b (q, e)" using cmd_ok_set[OF ok t] te by simp
  have inside: "?m ! i = b ! i" "b ! i \<noteq> 0" if "q \<le> i" "i < e" for i
  proof -
    have w: "word_char (b ! i)" and il: "i < length b" using tk that by (auto simp: tok_ok_def)
    have "i \<notin> snd ` set_cmd c" using w il cmd_ok_set[OF ok] by (auto simp: tok_ok_def)
    then show "?m ! i = b ! i" using n(2)[of i] il by (simp add: nth_append)
    show "b ! i \<noteq> 0" using w by (simp add: word_char_def)
  qed
  have "e \<in> snd ` set_cmd c" using t te by force
  then have "?m ! e = 0" using n(2)[of e] tk by (simp add: tok_ok_def)
  then have "takeWhile (\<lambda>x. x \<noteq> 0) (drop q ?m) = take (e - q) (drop q ?m)"
    using tk inside n(1) by (intro takeWhile_eq_take_P_nth) (auto simp: tok_ok_def)
  also have "\<dots> = take (e - q) (drop q b)" using tk inside n(1) by (intro nth_equalityI) (auto simp: tok_ok_def)
  finally show ?thesis by (simp add: str_at_def text_of_def te)
qed

section \<open>The syntax\<close>

definition word_ok :: "byte list \<Rightarrow> bool" where
  "word_ok w \<longleftrightarrow> w \<noteq> [] \<and> (\<forall>x\<in>set w. word_char x)"

text \<open>A command as it is typed, with parentheses where the level asks for them.\<close>

definition redir_text :: "byte list \<Rightarrow> uint \<Rightarrow> byte list" where
  "redir_text w m = (if m = O_RDONLY then 60 else 62) # w @ [32]"

definition block :: "bool \<Rightarrow> byte list \<Rightarrow> byte list" where
  "block p l = (if p then 40 # l @ [41] else l)"

fun cmd_text :: "nat \<Rightarrow> byte list cmd \<Rightarrow> byte list" where
  "cmd_text p (EXEC ws) = concat (map (\<lambda>w. w @ [32]) ws)"
| "cmd_text p (REDIR c w m d) = cmd_text 0 c @ redir_text w m"
| "cmd_text p (PIPE l r) = block (p < 1) (cmd_text 0 l @ 124 # cmd_text 1 r)"
| "cmd_text p (BACK c) = block (p < 2) (cmd_text 2 c @ [38])"
| "cmd_text p (LIST l r) = block (p < 3) (cmd_text 2 l @ 59 # cmd_text 3 r)"

fun wrap :: "'w cmd \<Rightarrow> ('w \<times> uint \<times> nat) list \<Rightarrow> 'w cmd" where
  "wrap c [] = c"
| "wrap c ((w, m, d) # rs) = wrap (REDIR c w m d) rs"

definition redirs_text :: "(byte list \<times> uint \<times> nat) list \<Rightarrow> byte list" where
  "redirs_text rs = concat (map (\<lambda>(w, m, d). redir_text w m) rs)"

definition redir_mode :: "byte list \<times> uint \<times> nat \<Rightarrow> bool" where
  "redir_mode = (\<lambda>(w, m, d). word_ok w \<and> ((m, d) = (O_RDONLY, 0) \<or> (m, d) = (O_WRONLY OR O_CREATE, 1)))"

text \<open>What follows does not start with a blank; what follows starts with one of the given bytes.\<close>

definition clean :: "byte list \<Rightarrow> bool" where
  "clean l \<longleftrightarrow> l = [] \<or> hd l \<notin> set whitespace"

definition follow :: "byte list \<Rightarrow> byte list \<Rightarrow> bool" where
  "follow F l \<longleftrightarrow> l = [] \<or> hd l \<in> set F"

lemma follow_clean: "follow F l \<Longrightarrow> set F \<subseteq> set symbols \<Longrightarrow> clean l"
  by (auto simp: follow_def clean_def symbols_eq whitespace_def)

lemma word_clean: "word_ok w \<Longrightarrow> clean (w @ l)"
  by (cases w) (auto simp: word_ok_def clean_def word_char_def)

lemma redirs_clean: "clean l \<Longrightarrow> clean (redirs_text rs @ l)"
  by (cases rs) (auto simp: redirs_text_def redir_text_def clean_def whitespace_def split: prod.splits)

lemma clean_symbol: "x \<in> set symbols \<Longrightarrow> clean (x # l)"
  by (auto simp: clean_def symbols_eq whitespace_def)

lemma cmd_text_clean: "cmd_ok word_ok c \<Longrightarrow> clean l \<Longrightarrow> clean (cmd_text p c @ l)"
proof (induction c arbitrary: p l)
  case (EXEC ws)
  then show ?case by (cases ws) (simp_all add: word_clean)
next
  case (REDIR c w m d)
  then show ?case by (simp add: redir_text_def clean_symbol)
qed (simp_all add: block_def clean_symbol)

section \<open>Reading it back\<close>

lemma drop_Cons:
  assumes "drop s b = x # r"
  shows "s < length b" "b ! s = x" "drop (s + 1) b = r" "at b s = x"
proof -
  show l: "s < length b" using assms by (cases "s < length b") simp_all
  then show "b ! s = x" "drop (s + 1) b = r" using assms Cons_nth_drop_Suc[OF l, unfolded Suc_eq_plus1] by simp_all
  then show "at b s = x" using l by (simp add: at_def)
qed

lemma drop_shift: "drop s b = x @ r \<Longrightarrow> drop (s + length x) b = r"
  by (metis add.commute append_eq_conv_conj drop_drop)

lemma skip_clean: "clean (drop s b) \<Longrightarrow> skip_ws b s = s"
  by (subst skip_ws.simps) (auto simp: clean_def hd_drop_conv_nth)

lemma peek_clean:
  assumes "clean (drop s b)" "0 \<notin> set b"
  shows "peek b s toks = (s, drop s b \<noteq> [] \<and> hd (drop s b) \<in> set toks)"
proof -
  have "s < length b \<Longrightarrow> b ! s \<noteq> 0" using assms(2) by (metis nth_mem)
  then show ?thesis using skip_clean[OF assms(1)] by (auto simp: peek_def Let_def at_def hd_drop_conv_nth)
qed

lemma symbol_token:
  assumes "drop s b = x # r" "x \<in> set symbols" "clean r" "x = 62 \<Longrightarrow> r = [] \<or> hd r \<noteq> 62"
  shows "gettoken b s = (x, s, s + 1, s + 1)" "next_token b s = s + 1"
proof -
  note d = drop_Cons[OF assms(1)]
  have "skip_ws b s = s" "skip_ws b (s + 1) = s + 1"
    using assms(1-3) d(3) by (auto intro!: skip_clean simp: clean_def symbols_eq whitespace_def)
  moreover have "x = 62 \<Longrightarrow> at b (s + 1) \<noteq> 62"
    using assms(4) d(3) by (cases r) (auto simp: at_def hd_drop_conv_nth dest: drop_Cons)
  ultimately show "gettoken b s = (x, s, s + 1, s + 1)" using d(4) assms(2) by (auto simp: gettoken_def Let_def symbols_eq)
  then show "next_token b s = s + 1" by (simp add: next_token_def)
qed

lemma word_end_eq:
  "drop s b = w @ r \<Longrightarrow> \<forall>x\<in>set w. word_char x \<Longrightarrow> r = [] \<or> \<not> word_char (hd r) \<and> hd r \<noteq> 0 \<Longrightarrow> word_end b s = s + length w"
proof (induction w arbitrary: s)
  case Nil
  then show ?case by (subst word_end.simps) (auto simp: word_char_def hd_drop_conv_nth)
next
  case (Cons x w)
  then show ?case using drop_Cons[of s b x "w @ r"] by (subst word_end.simps) (auto simp: word_char_def)
qed

lemma word_token:
  assumes "drop s b = w @ 32 # r" "word_ok w" "clean r"
  shows "gettoken b s = (97, s, s + length w, s + length w + 1)" "text_of b (s, s + length w) = w"
    "drop (s + length w + 1) b = r"
proof -
  obtain x u where w: "w = x # u" "word_char x" using assms(2) by (cases w) (auto simp: word_ok_def)
  have e: "word_end b s = s + length w"
    using word_end_eq[OF assms(1)] assms(2) by (auto simp: word_ok_def word_char_def whitespace_def)
  have d: "drop (s + length w) b = 32 # r" using drop_shift[OF assms(1)] .
  note d' = drop_Cons[OF d]
  then show dr: "drop (s + length w + 1) b = r" by simp
  have "skip_ws b (s + length w) = skip_ws b (s + length w + 1)"
    using d' by (subst skip_ws.simps) (simp add: whitespace_def)
  then have "skip_ws b (s + length w) = s + length w + 1" using skip_clean[of "s + length w + 1" b] dr assms(3) by simp
  moreover have "skip_ws b s = s" using skip_clean[of s b] assms(1) word_clean[OF assms(2)] by simp
  moreover have "at b s = x" using drop_Cons(4)[of s b x] assms(1) w by simp
  ultimately show "gettoken b s = (97, s, s + length w, s + length w + 1)"
    using w e by (auto simp: gettoken_def Let_def word_char_def symbols_eq)
  show "text_of b (s, s + length w) = w" using assms(1) by (simp add: text_of_def)
qed

end
