(* ===== verification/Sh_Round.thy ===== *)
theory Sh_Round
  imports Sh_Thms
begin

text \<open>
  The parser of the shell reads a command typed as \<open>cmd_text\<close> writes it back as the same tree.
  One lemma for each level of the syntax says what the procedure of that level reads; they are
  proved together, by induction on the tree.
\<close>

section \<open>Redirections and arguments\<close>

lemma parseredirs_none:
  assumes "clean (drop s b)" "0 \<notin> set b" "drop s b = [] \<or> hd (drop s b) \<notin> {60, 62}"
  shows "parseredirs b c s = Ok (c, s)"
  using assms by (subst parseredirs.simps) (auto simp: peek_clean)

lemma drop_room: "drop s b = x @ r \<Longrightarrow> s \<le> length b \<Longrightarrow> s + length x \<le> length b"
  by (drule arg_cong[where f = length]) simp

lemma word_hd: "word_ok w \<Longrightarrow> hd (w @ l) \<notin> set symbols" "word_ok w \<Longrightarrow> w @ l \<noteq> []"
  by (cases w; auto simp: word_ok_def word_char_def)+

lemma modes: "O_WRONLY OR O_CREATE \<noteq> O_RDONLY"
  by (simp add: O_WRONLY_def O_CREATE_def O_RDONLY_def)

lemma parseredirs_reads:
  assumes "drop s b = redirs_text rs @ rest" "\<forall>r\<in>set rs. redir_mode r" "0 \<notin> set b"
    and "clean rest" "rest = [] \<or> hd rest \<notin> {60, 62}"
  shows "\<exists>c'. parseredirs b c s = Ok (c', s + length (redirs_text rs)) \<and>
    map_cmd (text_of b) c' = wrap (map_cmd (text_of b) c) rs"
  using assms(1,2)
proof (induction rs arbitrary: s c)
  case Nil
  then show ?case using parseredirs_none[of s b c] assms(3-5) by (simp add: redirs_text_def)
next
  case (Cons r rs)
  obtain w m d where r: "r = (w, m, d)" by (cases r)
  have ok: "word_ok w" and md: "(m, d) = (O_RDONLY, 0) \<or> (m, d) = (O_WRONLY OR O_CREATE, 1)"
    using Cons.prems(2) r by (auto simp: redir_mode_def)
  define x :: byte where "x = (if m = O_RDONLY then 60 else 62)"
  have b0: "drop s b = x # w @ 32 # redirs_text rs @ rest"
    using Cons.prems(1) by (simp add: r redirs_text_def redir_text_def x_def)
  have cl: "clean (redirs_text rs @ rest)" using redirs_clean[OF assms(4)] .
  have xs: "x \<in> set symbols" by (simp add: x_def)
  have nr: "hd (w @ l) \<noteq> 62" for l using word_hd(1)[OF ok, of l] by auto
  note t1 = symbol_token(1)[OF b0 xs word_clean[OF ok]]
  note b1 = drop_Cons(3)[OF b0] and t2 = word_token[OF drop_Cons(3)[OF b0] ok cl]
  have p: "peek b s [60, 62] = (s, True)"
    using peek_clean[of s b "[60, 62]"] assms(3) b0 clean_symbol[OF xs] by (simp add: x_def)
  define s' where "s' = s + 1 + length w + 1"
  have "parseredirs b c s = parseredirs b (redir x c (s + 1, s + 1 + length w)) s'"
    using p t1 t2(1) nr by (subst parseredirs.simps) (simp add: s'_def)
  moreover have "map_cmd (text_of b) (redir x c (s + 1, s + 1 + length w)) = REDIR (map_cmd (text_of b) c) w m d"
    using md t2(2) modes by (auto simp: redir_def x_def)
  moreover have "length (redirs_text (r # rs)) = 1 + length w + 1 + length (redirs_text rs)"
    by (simp add: r redirs_text_def redir_text_def)
  ultimately show ?case
    using Cons.IH[of s' "redir x c (s + 1, s + 1 + length w)"] Cons.prems(2) t2(3) by (simp add: r s'_def add.assoc)
qed

lemma exec_args_stop:
  assumes "follow [124, 41, 38, 59] (drop s b)" "0 \<notin> set b" "s \<le> length b"
  shows "exec_args b c n s = Ok (c, s)"
proof -
  have cl: "clean (drop s b)" using follow_clean[OF assms(1)] by simp
  note p = peek_clean[OF cl assms(2)]
  show ?thesis
  proof (cases "drop s b")
    case Nil
    then have "gettoken b s = (0, s, s, s)" using skip_clean[OF cl] assms(3) by (simp add: gettoken_def at_def)
    then show ?thesis using p Nil by (subst exec_args.simps) simp
  next
    case Cons
    then show ?thesis using p assms(1) by (subst exec_args.simps) (auto simp: follow_def)
  qed
qed

lemma exec_args_reads:
  assumes "drop s b = concat (map (\<lambda>w. w @ [32]) ws) @ redirs_text rs @ rest" "\<forall>w\<in>set ws. word_ok w"
    and "\<forall>r\<in>set rs. redir_mode r" "0 \<notin> set b" "follow [124, 41, 38, 59] rest"
    and "ws \<noteq> []" "length ts + length ws < MAXARGS" "s \<le> length b"
  shows "\<exists>c'. exec_args b (EXEC ts) (length ts) s = Ok (c', s + length (concat (map (\<lambda>w. w @ [32]) ws)) + length (redirs_text rs)) \<and>
    map_cmd (text_of b) c' = wrap (EXEC (map (text_of b) ts @ ws)) rs"
  using assms(1,2,6-8)
proof (induction ws arbitrary: s ts)
  case (Cons w ws)
  let ?more = "concat (map (\<lambda>w. w @ [32]) ws) @ redirs_text rs @ rest"
  have cr: "clean rest" using follow_clean[OF assms(5)] by simp
  have ok: "word_ok w" and b0: "drop s b = w @ 32 # ?more" using Cons.prems by simp_all
  have "clean ?more" using redirs_clean[OF cr] word_clean Cons.prems(2) by (cases ws) auto
  note t = word_token[OF b0 ok this]
  define s' where "s' = s + length w + 1"
  have s': "s' \<le> length b" using arg_cong[OF b0, of length] Cons.prems(5) unfolding s'_def by simp
  have p: "peek b s [124, 41, 38, 59] = (s, False)"
    using peek_clean[of s b] assms(4) b0 word_clean[OF ok] word_hd[OF ok] by (auto simp: symbols_eq)
  have step: "exec_args b (EXEC ts) (length ts) s =
      rbind (parseredirs b (EXEC (ts @ [(s, s + length w)])) s') (\<lambda>(c1, s3). exec_args b c1 (length ts + 1) s3)"
    using p t(1) Cons.prems(4) by (subst exec_args.simps) (simp add: s'_def)
  show ?case
  proof (cases ws)
    case Nil
    have r: "rest = [] \<or> hd rest \<notin> {60, 62}" using assms(5) by (auto simp: follow_def)
    have d: "drop s' b = redirs_text rs @ rest" using t(3) Nil by (simp add: s'_def)
    obtain c' where c': "parseredirs b (EXEC (ts @ [(s, s + length w)])) s' = Ok (c', s' + length (redirs_text rs))"
      "map_cmd (text_of b) c' = wrap (EXEC (map (text_of b) ts @ [w])) rs"
      using parseredirs_reads[OF d assms(3,4) cr r, of "EXEC (ts @ [(s, s + length w)])"] t(2) by auto
    have "exec_args b c' (length ts + 1) (s' + length (redirs_text rs)) = Ok (c', s' + length (redirs_text rs))"
      by (rule exec_args_stop) (use assms(4,5) drop_shift[OF d] arg_cong[OF d, of length] s' in auto)
    then show ?thesis using step c' Nil by (simp add: s'_def add.assoc)
  next
    case ws: (Cons w' ws')
    have "drop s' b = ?more" using t(3) by (simp add: s'_def)
    moreover have "word_ok w'" using Cons.prems(2) ws by simp
    ultimately have "parseredirs b (EXEC (ts @ [(s, s + length w)])) s' = Ok (EXEC (ts @ [(s, s + length w)]), s')"
      using ws word_hd[of w'] by (intro parseredirs_none) (auto simp: word_clean assms(4) symbols_eq)
    then show ?thesis
      using step Cons.IH[of s' "ts @ [(s, s + length w)]"] Cons.prems ws s' t(2,3) by (simp add: s'_def add.assoc One_nat_def)
  qed
qed simp

section \<open>The levels of the syntax\<close>

text \<open>What the procedure of each level reads, at a depth that suffices.\<close>

definition exec_reads :: "byte list \<Rightarrow> byte list cmd \<Rightarrow> bool" where
  "exec_reads b c \<longleftrightarrow> (\<forall>s n rs rest. s \<le> length b \<longrightarrow> drop s b = cmd_text 0 c @ redirs_text rs @ rest \<longrightarrow>
     (\<forall>r\<in>set rs. redir_mode r) \<longrightarrow> follow [124, 41, 38, 59] rest \<longrightarrow> 4 * (length b - s) + 2 \<le> n \<longrightarrow>
     (\<exists>c'. parseexec n b s = Ok (c', s + length (cmd_text 0 c) + length (redirs_text rs)) \<and> map_cmd (text_of b) c' = wrap c rs))"

definition pipe_reads :: "byte list \<Rightarrow> byte list cmd \<Rightarrow> bool" where
  "pipe_reads b c \<longleftrightarrow> (\<forall>s n rest. s \<le> length b \<longrightarrow> drop s b = cmd_text 1 c @ rest \<longrightarrow>
     follow [41, 38, 59] rest \<longrightarrow> 4 * (length b - s) + 3 \<le> n \<longrightarrow>
     (\<exists>c'. parsepipe n b s = Ok (c', s + length (cmd_text 1 c)) \<and> map_cmd (text_of b) c' = c))"

definition back_reads :: "byte list \<Rightarrow> byte list cmd \<Rightarrow> bool" where
  "back_reads b c \<longleftrightarrow> (\<forall>s n k rest. s \<le> length b \<longrightarrow> drop s b = cmd_text 2 c @ replicate k 38 @ rest \<longrightarrow>
     follow [41, 59] rest \<longrightarrow> 4 * (length b - s) + 3 \<le> n \<longrightarrow>
     (\<exists>c1 s1 c'. parsepipe n b s = Ok (c1, s1) \<and> parseback b c1 s1 = (c', s + length (cmd_text 2 c) + k) \<and>
        map_cmd (text_of b) c' = (BACK ^^ k) c))"

definition line_reads :: "byte list \<Rightarrow> byte list cmd \<Rightarrow> bool" where
  "line_reads b c \<longleftrightarrow> (\<forall>s n rest. s \<le> length b \<longrightarrow> drop s b = cmd_text 3 c @ rest \<longrightarrow>
     follow [41] rest \<longrightarrow> 4 * (length b - s) + 4 \<le> n \<longrightarrow>
     (\<exists>c'. parseline n b s = Ok (c', s + length (cmd_text 3 c)) \<and> map_cmd (text_of b) c' = c))"

lemma peek_no:
  assumes "drop s b = rest" "0 \<notin> set b" "follow F rest" "set F \<subseteq> set symbols" "set F \<inter> set toks = {}"
  shows "peek b s toks = (s, False)"
  using peek_clean[of s b toks] assms(1,2,5) follow_clean[OF assms(3,4)] assms(3) by (auto simp: follow_def)

lemma peek_yes:
  assumes "drop s b = x # r" "0 \<notin> set b" "x \<in> set symbols" "x \<in> set toks"
  shows "peek b s toks = (s, True)"
  using peek_clean[of s b toks] assms clean_symbol[OF assms(3)] by simp

lemma pipe_of_exec:
  assumes "exec_reads b c" "cmd_text 1 c = cmd_text 0 c" "0 \<notin> set b"
  shows "pipe_reads b c"
  unfolding pipe_reads_def
proof (intro allI impI)
  fix s n rest assume a: "s \<le> length b" "drop s b = cmd_text 1 c @ rest" "follow [41, 38, 59] rest" "4 * (length b - s) + 3 \<le> n"
  obtain k where n: "n = Suc k" using a(4) by (cases n) auto
  have f: "follow [124, 41, 38, 59] rest" using a(3) by (auto simp: follow_def)
  obtain c' where c': "parseexec k b s = Ok (c', s + length (cmd_text 0 c))" "map_cmd (text_of b) c' = c"
    using assms(1)[unfolded exec_reads_def, rule_format, of s "[]" rest k] a n f assms(2) by (auto simp: redirs_text_def)
  have d: "drop (s + length (cmd_text 0 c)) b = rest" using drop_shift[of s b "cmd_text 0 c" rest] a(2) assms(2) by simp
  have "peek b (s + length (cmd_text 0 c)) [124] = (s + length (cmd_text 0 c), False)"
    by (rule peek_no[OF d assms(3) a(3)]) simp_all
  then show "\<exists>c'. parsepipe n b s = Ok (c', s + length (cmd_text 1 c)) \<and> map_cmd (text_of b) c' = c"
    using c' assms(2) by (simp add: n)
qed

lemma parseback_reads:
  assumes "drop s b = replicate k 38 @ rest" "follow [41, 59] rest" "0 \<notin> set b"
  shows "parseback b c s = ((BACK ^^ k) c, s + k)"
  using assms(1)
proof (induction k arbitrary: s c)
  case 0
  then show ?case using peek_no[of s b rest "[41, 59]" "[38]"] assms(2,3) by (subst parseback.simps) simp
next
  case (Suc k)
  have b0: "drop s b = 38 # replicate k 38 @ rest" using Suc.prems by simp
  have "clean rest" using follow_clean[OF assms(2)] by simp
  then have cl: "clean (replicate k 38 @ rest)" by (cases k) (simp_all add: clean_symbol)
  have "peek b s [38] = (s, True)" using peek_yes[OF b0 assms(3)] by simp
  moreover have "next_token b s = s + 1" using symbol_token(2)[OF b0 _ cl] by simp
  ultimately have "parseback b c s = parseback b (BACK c) (s + 1)" by (subst parseback.simps) simp
  then show ?case using Suc.IH[OF drop_Cons(3)[OF b0]] by (simp add: funpow_swap1)
qed

lemma map_BACK: "map_cmd f ((BACK ^^ k) c) = (BACK ^^ k) (map_cmd f c)"
  by (induction k) simp_all

lemma back_of_pipe:
  assumes "pipe_reads b c" "cmd_text 2 c = cmd_text 1 c" "0 \<notin> set b"
  shows "back_reads b c"
  unfolding back_reads_def
proof (intro allI impI)
  fix s n k rest assume a: "s \<le> length b" "drop s b = cmd_text 2 c @ replicate k 38 @ rest" "follow [41, 59] rest"
    "4 * (length b - s) + 3 \<le> n"
  have f: "follow [41, 38, 59] (replicate k 38 @ rest)" using a(3) by (cases k) (auto simp: follow_def)
  obtain c1 where c1: "parsepipe n b s = Ok (c1, s + length (cmd_text 1 c))" "map_cmd (text_of b) c1 = c"
    using assms(1)[unfolded pipe_reads_def, rule_format, of s _ n] a f assms(2) by force
  have "parseback b c1 (s + length (cmd_text 1 c)) = ((BACK ^^ k) c1, s + length (cmd_text 1 c) + k)"
    by (rule parseback_reads[OF _ a(3) assms(3)]) (use drop_shift[of s b "cmd_text 1 c"] a(2) assms(2) in simp)
  then show "\<exists>c1 s1 c'. parsepipe n b s = Ok (c1, s1) \<and> parseback b c1 s1 = (c', s + length (cmd_text 2 c) + k) \<and>
      map_cmd (text_of b) c' = (BACK ^^ k) c"
    using c1 assms(2) map_BACK by metis
qed

lemma line_of_back:
  assumes "back_reads b c" "cmd_text 3 c = cmd_text 2 c" "0 \<notin> set b"
  shows "line_reads b c"
  unfolding line_reads_def
proof (intro allI impI)
  fix s n rest assume a: "s \<le> length b" "drop s b = cmd_text 3 c @ rest" "follow [41] rest" "4 * (length b - s) + 4 \<le> n"
  obtain k where n: "n = Suc k" using a(4) by (cases n) auto
  have f: "follow [41, 59] rest" using a(3) by (auto simp: follow_def)
  obtain c1 s1 c' where c': "parsepipe k b s = Ok (c1, s1)" "parseback b c1 s1 = (c', s + length (cmd_text 2 c))"
    "map_cmd (text_of b) c' = c"
    using assms(1)[unfolded back_reads_def, rule_format, of s 0 rest k] a n f assms(2) by auto
  have d: "drop (s + length (cmd_text 2 c)) b = rest" using drop_shift[of s b "cmd_text 2 c" rest] a(2) assms(2) by simp
  have "peek b (s + length (cmd_text 2 c)) [59] = (s + length (cmd_text 2 c), False)"
    by (rule peek_no[OF d assms(3) a(3)]) simp_all
  then show "\<exists>c'. parseline n b s = Ok (c', s + length (cmd_text 3 c)) \<and> map_cmd (text_of b) c' = c"
    using c' assms(2) by (simp add: n)
qed

lemma exec_of_line:
  assumes "line_reads b c" "cmd_text 0 c = 40 # cmd_text 3 c @ [41]" "0 \<notin> set b" "cmd_ok word_ok c"
  shows "exec_reads b c"
  unfolding exec_reads_def
proof (intro allI impI)
  fix s n rs rest assume a: "s \<le> length b" "drop s b = cmd_text 0 c @ redirs_text rs @ rest" "\<forall>r\<in>set rs. redir_mode r"
    "follow [124, 41, 38, 59] rest" "4 * (length b - s) + 2 \<le> n"
  define k where "k = n - 2"
  have n: "n = Suc (Suc k)" using a(5) by (simp add: k_def)
  let ?out = "41 # redirs_text rs @ rest"
  have b0: "drop s b = 40 # cmd_text 3 c @ ?out" using a(2) assms(2) by simp
  note b1 = drop_Cons[OF b0]
  have p: "peek b s [40] = (s, True)" using peek_yes[OF b0 assms(3)] by simp
  have nt: "next_token b s = s + 1"
    by (rule symbol_token(2)[OF b0]) (use cmd_text_clean[OF assms(4) clean_symbol[of 41]] in simp_all)
  have k: "4 * (length b - (s + 1)) + 4 \<le> k" using a(5) n b1(1) by linarith
  obtain c' where c': "parseline k b (s + 1) = Ok (c', s + 1 + length (cmd_text 3 c))" "map_cmd (text_of b) c' = c"
    using assms(1)[unfolded line_reads_def, rule_format, of "s + 1" ?out k] b1 k by (auto simp: follow_def)
  define s2 where "s2 = s + 1 + length (cmd_text 3 c)"
  have b2: "drop s2 b = ?out" using drop_shift[OF b1(3)] by (simp add: s2_def)
  have cr: "clean rest" and r: "rest = [] \<or> hd rest \<notin> {60, 62}"
    using follow_clean[OF a(4)] a(4) by (auto simp: follow_def)
  have p2: "peek b s2 [41] = (s2, True)" using peek_yes[OF b2 assms(3)] by simp
  have nt2: "next_token b s2 = s2 + 1" by (rule symbol_token(2)[OF b2]) (use redirs_clean[OF cr] in simp_all)
  obtain c2 where c2: "parseredirs b c' (s2 + 1) = Ok (c2, s2 + 1 + length (redirs_text rs))"
    "map_cmd (text_of b) c2 = wrap c rs"
    using parseredirs_reads[OF drop_Cons(3)[OF b2] a(3) assms(3) cr r, of c'] c'(2) by auto
  have "parseexec n b s = Ok (c2, s2 + 1 + length (redirs_text rs))"
    using p nt c'(1) p2 nt2 c2(1) by (simp add: n s2_def)
  then show "\<exists>c'. parseexec n b s = Ok (c', s + length (cmd_text 0 c) + length (redirs_text rs)) \<and> map_cmd (text_of b) c' = wrap c rs"
    using c2(2) assms(2) by (simp add: s2_def add.assoc One_nat_def)
qed

section \<open>The constructors\<close>

lemma reads_EXEC:
  assumes "cmd_ok word_ok (EXEC ws)" "0 \<notin> set b"
  shows "exec_reads b (EXEC ws)"
  unfolding exec_reads_def
proof (intro allI impI)
  fix s n rs rest assume a: "s \<le> length b" "drop s b = cmd_text 0 (EXEC ws) @ redirs_text rs @ rest" "\<forall>r\<in>set rs. redir_mode r"
    "follow [124, 41, 38, 59] rest" "4 * (length b - s) + 2 \<le> n"
  let ?args = "concat (map (\<lambda>w. w @ [32]) ws)"
  obtain k where n: "n = Suc k" using a(5) by (cases n) auto
  have d: "drop s b = ?args @ redirs_text rs @ rest" using a(2) by simp
  have cr: "clean rest" and r: "rest = [] \<or> hd rest \<notin> {60, 62}"
    using follow_clean[OF a(4)] a(4) by (auto simp: follow_def)
  have "clean (drop s b)" using cmd_text_clean[OF assms(1) redirs_clean[OF cr]] a(2) by metis
  moreover have "drop s b = [] \<or> hd (drop s b) \<noteq> 40"
  proof (cases ws)
    case Nil
    then show ?thesis using d a(4) by (cases rs) (auto simp: follow_def redirs_text_def redir_text_def split: prod.splits)
  next
    case (Cons w ws')
    then show ?thesis using d word_hd(1)[of w] assms(1) by (auto simp: symbols_eq)
  qed
  ultimately have p: "peek b s [40] = (s, False)" using peek_clean[of s b "[40]"] assms(2) by auto
  have "\<exists>c'. rbind (parseredirs b (EXEC []) s) (\<lambda>(c, s2). exec_args b c 0 s2) = Ok (c', s + length ?args + length (redirs_text rs)) \<and>
      map_cmd (text_of b) c' = wrap (EXEC ws) rs"
  proof (cases ws)
    case Nil
    then have d': "drop s b = redirs_text rs @ rest" using d by simp
    obtain c' where c': "parseredirs b (EXEC []) s = Ok (c', s + length (redirs_text rs))" "map_cmd (text_of b) c' = wrap (EXEC []) rs"
      using parseredirs_reads[OF d' a(3) assms(2) cr r, of "EXEC []"] by auto
    have "exec_args b c' 0 (s + length (redirs_text rs)) = Ok (c', s + length (redirs_text rs))"
      by (rule exec_args_stop) (use assms(2) a drop_shift[OF d'] drop_room[OF d'] in auto)
    then show ?thesis using c' Nil by simp
  next
    case (Cons w ws')
    have "parseredirs b (EXEC []) s = Ok (EXEC [], s)"
      using \<open>clean (drop s b)\<close> d Cons word_hd(1)[of w] assms by (intro parseredirs_none) (auto simp: symbols_eq)
    then show ?thesis using exec_args_reads[OF d _ a(3) assms(2) a(4), of "[]"] assms(1) Cons a(1) by simp
  qed
  then show "\<exists>c'. parseexec n b s = Ok (c', s + length (cmd_text 0 (EXEC ws)) + length (redirs_text rs)) \<and>
      map_cmd (text_of b) c' = wrap (EXEC ws) rs"
    using p by (simp add: n)
qed

lemma reads_REDIR:
  assumes "exec_reads b c" "cmd_ok word_ok (REDIR c w m d)"
  shows "exec_reads b (REDIR c w m d)"
  unfolding exec_reads_def
proof (intro allI impI)
  fix s n rs rest assume a: "s \<le> length b" "drop s b = cmd_text 0 (REDIR c w m d) @ redirs_text rs @ rest"
    "\<forall>r\<in>set rs. redir_mode r" "follow [124, 41, 38, 59] rest" "4 * (length b - s) + 2 \<le> n"
  have "redirs_text ((w, m, d) # rs) = redir_text w m @ redirs_text rs" by (simp add: redirs_text_def)
  moreover have "redir_mode (w, m, d)" using assms(2) by (simp add: redir_mode_def)
  then have "\<forall>r\<in>set ((w, m, d) # rs). redir_mode r" using a(3) by simp
  ultimately show "\<exists>c'. parseexec n b s = Ok (c', s + length (cmd_text 0 (REDIR c w m d)) + length (redirs_text rs)) \<and>
      map_cmd (text_of b) c' = wrap (REDIR c w m d) rs"
    using assms(1)[unfolded exec_reads_def, THEN spec, THEN spec, THEN spec, THEN spec, of s "(w, m, d) # rs" rest n] a
    by (simp add: add.assoc)
qed

lemma reads_PIPE:
  assumes "exec_reads b l" "pipe_reads b r" "cmd_ok word_ok (PIPE l r)" "0 \<notin> set b"
  shows "pipe_reads b (PIPE l r)"
  unfolding pipe_reads_def
proof (intro allI impI)
  fix s n rest assume a: "s \<le> length b" "drop s b = cmd_text 1 (PIPE l r) @ rest" "follow [41, 38, 59] rest"
    "4 * (length b - s) + 3 \<le> n"
  obtain k where n: "n = Suc k" using a(4) by (cases n) auto
  have b0: "drop s b = cmd_text 0 l @ 124 # cmd_text 1 r @ rest" using a(2) by (simp add: block_def)
  obtain c where c: "parseexec k b s = Ok (c, s + length (cmd_text 0 l))" "map_cmd (text_of b) c = l"
    using assms(1)[unfolded exec_reads_def, rule_format, of s "[]" "124 # cmd_text 1 r @ rest" k] a b0 n
    by (auto simp: redirs_text_def follow_def)
  define s1 where "s1 = s + length (cmd_text 0 l)"
  have b1: "drop s1 b = 124 # cmd_text 1 r @ rest" using drop_shift[OF b0] by (simp add: s1_def)
  note d1 = drop_Cons[OF b1]
  have cl: "clean (cmd_text 1 r @ rest)" using cmd_text_clean follow_clean[OF a(3)] assms(3) by simp
  have p: "peek b s1 [124] = (s1, True)" using peek_yes[OF b1 assms(4)] by simp
  have nt: "next_token b s1 = s1 + 1" by (rule symbol_token(2)[OF b1]) (use cl in simp_all)
  have k: "4 * (length b - (s1 + 1)) + 3 \<le> k" using a(4) n d1(1) s1_def by linarith
  obtain c' where c': "parsepipe k b (s1 + 1) = Ok (c', s1 + 1 + length (cmd_text 1 r))" "map_cmd (text_of b) c' = r"
    using assms(2)[unfolded pipe_reads_def, rule_format, of "s1 + 1" rest k] d1 k a(3) by auto
  have "parsepipe n b s = Ok (PIPE c c', s1 + 1 + length (cmd_text 1 r))" using c(1) p nt c'(1) by (simp add: n s1_def)
  then show "\<exists>c'. parsepipe n b s = Ok (c', s + length (cmd_text 1 (PIPE l r))) \<and> map_cmd (text_of b) c' = PIPE l r"
    using c(2) c'(2) by (simp add: s1_def block_def add.assoc)
qed

lemma reads_BACK:
  assumes "back_reads b c"
  shows "back_reads b (BACK c)"
  unfolding back_reads_def
proof (intro allI impI)
  fix s n k rest assume a: "s \<le> length b" "drop s b = cmd_text 2 (BACK c) @ replicate k 38 @ rest" "follow [41, 59] rest"
    "4 * (length b - s) + 3 \<le> n"
  have "drop s b = cmd_text 2 c @ replicate (Suc k) 38 @ rest" using a(2) by (simp add: block_def)
  then show "\<exists>c1 s1 c'. parsepipe n b s = Ok (c1, s1) \<and> parseback b c1 s1 = (c', s + length (cmd_text 2 (BACK c)) + k) \<and>
      map_cmd (text_of b) c' = (BACK ^^ k) (BACK c)"
    using assms[unfolded back_reads_def, rule_format, of s "Suc k" rest n] a by (simp add: block_def funpow_swap1)
qed

lemma reads_LIST:
  assumes "back_reads b l" "line_reads b r" "cmd_ok word_ok (LIST l r)" "0 \<notin> set b"
  shows "line_reads b (LIST l r)"
  unfolding line_reads_def
proof (intro allI impI)
  fix s n rest assume a: "s \<le> length b" "drop s b = cmd_text 3 (LIST l r) @ rest" "follow [41] rest"
    "4 * (length b - s) + 4 \<le> n"
  obtain k where n: "n = Suc k" using a(4) by (cases n) auto
  have b0: "drop s b = cmd_text 2 l @ 59 # cmd_text 3 r @ rest" using a(2) by (simp add: block_def)
  obtain c0 s0 c where c: "parsepipe k b s = Ok (c0, s0)" "parseback b c0 s0 = (c, s + length (cmd_text 2 l))"
    "map_cmd (text_of b) c = l"
    using assms(1)[unfolded back_reads_def, rule_format, of s 0 "59 # cmd_text 3 r @ rest" k] a b0 n by (auto simp: follow_def)
  define s1 where "s1 = s + length (cmd_text 2 l)"
  have b1: "drop s1 b = 59 # cmd_text 3 r @ rest" using drop_shift[OF b0] by (simp add: s1_def)
  note d1 = drop_Cons[OF b1]
  have cl: "clean (cmd_text 3 r @ rest)" using cmd_text_clean follow_clean[OF a(3)] assms(3) by simp
  have p: "peek b s1 [59] = (s1, True)" using peek_yes[OF b1 assms(4)] by simp
  have nt: "next_token b s1 = s1 + 1" by (rule symbol_token(2)[OF b1]) (use cl in simp_all)
  have k: "4 * (length b - (s1 + 1)) + 4 \<le> k" using a(4) n d1(1) s1_def by linarith
  obtain c' where c': "parseline k b (s1 + 1) = Ok (c', s1 + 1 + length (cmd_text 3 r))" "map_cmd (text_of b) c' = r"
    using assms(2)[unfolded line_reads_def, rule_format, of "s1 + 1" rest k] d1 k a(3) by auto
  have "parseline n b s = Ok (LIST c c', s1 + 1 + length (cmd_text 3 r))" using c(1,2) p nt c'(1) by (simp add: n s1_def)
  then show "\<exists>c'. parseline n b s = Ok (c', s + length (cmd_text 3 (LIST l r))) \<and> map_cmd (text_of b) c' = LIST l r"
    using c(3) c'(2) by (simp add: s1_def block_def add.assoc)
qed

text \<open>Every command, at every level.\<close>

lemma reads_all:
  assumes "0 \<notin> set b"
  shows "cmd_ok word_ok c \<Longrightarrow> exec_reads b c \<and> pipe_reads b c \<and> back_reads b c \<and> line_reads b c"
proof (induction c)
  case (EXEC ws)
  then have "exec_reads b (EXEC ws)" by (rule reads_EXEC[OF _ assms])
  then show ?case using assms by (simp add: pipe_of_exec back_of_pipe line_of_back)
next
  case (REDIR c w m d)
  then have "exec_reads b (REDIR c w m d)" by (intro reads_REDIR) simp_all
  then show ?case using assms by (simp add: pipe_of_exec back_of_pipe line_of_back)
next
  case (PIPE l r)
  then have "pipe_reads b (PIPE l r)" using assms by (intro reads_PIPE) simp_all
  then have "line_reads b (PIPE l r)" and "back_reads b (PIPE l r)" using assms
    by (simp_all add: back_of_pipe line_of_back block_def)
  then show ?case using \<open>pipe_reads b (PIPE l r)\<close> exec_of_line[OF _ _ assms PIPE.prems] by (simp add: block_def)
next
  case (LIST l r)
  then have "line_reads b (LIST l r)" using assms by (intro reads_LIST) simp_all
  moreover from this have "exec_reads b (LIST l r)" using exec_of_line[OF _ _ assms LIST.prems] by (simp add: block_def)
  ultimately show ?case using assms by (simp add: pipe_of_exec back_of_pipe block_def)
next
  case (BACK c)
  then have "back_reads b (BACK c)" by (intro reads_BACK) simp
  moreover from this have "line_reads b (BACK c)" using assms by (simp add: line_of_back block_def)
  moreover from this have "exec_reads b (BACK c)" using exec_of_line[OF _ _ assms BACK.prems] by (simp add: block_def)
  ultimately show ?case using assms by (simp add: pipe_of_exec block_def)
qed

lemma cmd_text_nonzero: "cmd_ok word_ok c \<Longrightarrow> 0 \<notin> set (cmd_text p c)"
  by (induction c arbitrary: p) (auto simp: block_def redir_text_def word_ok_def word_char_def)

lemma parsecmd_spec:
  assumes "0 \<notin> set b"
  shows "returns (\<lambda>(c, m). cmd_ok (tok_ok b) c \<and> map_cmd (str_at m \<circ> fst) c = map_cmd (text_of b) c) (parsecmd b)"
  unfolding parsecmd_def
proof (rule returns_bind[OF parser_returns(1)[OF assms]])
  fix x assume "piece b 0 x"
  then show "returns (\<lambda>(c, m). cmd_ok (tok_ok b) c \<and> map_cmd (str_at m \<circ> fst) c = map_cmd (text_of b) c)
      (case x of (c, s) \<Rightarrow> case peek b s [] of (s1, _) \<Rightarrow> if s1 \<noteq> length b then Panic ''syntax'' else Ok (c, nulterminate c (b @ [0])))"
    using nulterminate_words[OF _ assms] by (auto split: prod.splits intro!: cmd.map_cong0)
qed (simp_all add: depth_def)

lemma parsecmd_reads:
  assumes "cmd_ok word_ok c"
  shows "\<exists>c' m. parsecmd (cmd_text 3 c) = Ok (c', m) \<and> map_cmd (str_at m \<circ> fst) c' = c"
proof -
  let ?b = "cmd_text 3 c"
  note nz = cmd_text_nonzero[OF assms, of 3]
  have "line_reads ?b c" using reads_all[OF nz assms] by simp
  then obtain c' where c': "parseline (depth ?b) ?b 0 = Ok (c', length ?b)" "map_cmd (text_of ?b) c' = c"
    using line_reads_def[of ?b c, THEN iffD1, THEN spec, THEN spec, THEN spec, of 0 "[]" "depth ?b"]
    by (auto simp: follow_def depth_def)
  have "peek ?b (length ?b) [] = (length ?b, False)" using peek_no[of "length ?b" ?b "[]" "[41]" "[]"] nz by (simp add: follow_def)
  then have "parsecmd ?b = Ok (c', nulterminate c' (?b @ [0]))" using c'(1) by (simp add: parsecmd_def)
  then show ?thesis using parsecmd_spec[OF nz] c'(2) by simp
qed

end
