(* ===== verification/Sh_Line.thy ===== *)
theory Sh_Line
  imports Sh_Round
begin

text \<open>
  Blanks at the end of a line, such as the newline that \<open>gets\<close> leaves in the buffer, do not
  change what the parser of the shell reads.  The run of the parser on the longer line follows
  the run on the shorter one; only the position at the very end may differ.
\<close>

section \<open>Positions\<close>

definition same_pos :: "byte list \<Rightarrow> nat \<Rightarrow> nat \<Rightarrow> bool" where
  "same_pos b s s' \<longleftrightarrow> s' = s \<and> s \<le> length b \<or> s = length b \<and> s' = length b + 1"

definition same_run :: "byte list \<Rightarrow> ((nat \<times> nat) cmd \<times> nat) res \<Rightarrow> ((nat \<times> nat) cmd \<times> nat) res \<Rightarrow> bool" where
  "same_run b x y \<longleftrightarrow>
     (case x of
        Ok (c, s) \<Rightarrow> \<exists>s'. y = Ok (c, s') \<and> same_pos b s s'
      | Panic m \<Rightarrow> y = Panic m
      | _ \<Rightarrow> True)"

lemma same_run_Ok [simp]: "same_run b (Ok (c, s)) (Ok (d, s')) \<longleftrightarrow> d = c \<and> same_pos b s s'"
  by (auto simp: same_run_def)

lemma same_run_Panic [simp]: "same_run b (Panic m) (Panic m')  \<longleftrightarrow> m = m'"
  by (auto simp: same_run_def)

lemma same_run_bind:
  assumes "same_run b x y" "\<And>c s s'. same_pos b s s' \<Longrightarrow> same_run b (f (c, s)) (g (c, s'))"
  shows "same_run b (rbind x f) (rbind y g)"
proof (cases x)
  case (Ok a)
  then obtain c s where x: "x = Ok (c, s)" by (cases a) simp
  then obtain s' where "y = Ok (c, s')" "same_pos b s s'" using assms(1) by (auto simp: same_run_def)
  then show ?thesis using assms(2)[of s s' c] x by simp
qed (use assms(1) in \<open>auto simp: same_run_def\<close>)

lemma same_run_Hang [simp]: "same_run b Hang y"
  by (simp add: same_run_def)

lemma at_append: "at (b @ [x]) s = (if s = length b then x else at b s)"
  by (auto simp: at_def nth_append)

lemma skip_ws_append:
  assumes "x \<in> set whitespace"
  shows "s \<le> length b \<Longrightarrow> skip_ws (b @ [x]) s = (if skip_ws b s = length b then length b + 1 else skip_ws b s)"
proof (induction b s rule: skip_ws.induct)
  case (1 b s)
  have end_pos: "skip_ws (b @ [x]) (length b + 1) = length b + 1" by (subst skip_ws.simps) simp
  show ?case
  proof (cases "s < length b")
    case True
    then have n: "(b @ [x]) ! s = b ! s" by (simp add: nth_append)
    show ?thesis
    proof (cases "b ! s \<in> set whitespace")
      case w: True
      have "skip_ws (b @ [x]) s = skip_ws (b @ [x]) (s + 1)" "skip_ws b s = skip_ws b (s + 1)"
        using True w n by (subst skip_ws.simps; simp)+
      then show ?thesis using 1 True w by simp
    next
      case False
      then have "skip_ws (b @ [x]) s = s" "skip_ws b s = s" using n by (subst skip_ws.simps; simp)+
      then show ?thesis using True by simp
    qed
  next
    case False
    then have s: "s = length b" using 1 by simp
    have "skip_ws (b @ [x]) s = skip_ws (b @ [x]) (s + 1)" "skip_ws b s = s"
      using assms s by (subst skip_ws.simps; simp)+
    then show ?thesis using end_pos s by simp
  qed
qed

lemma skip_ws_same:
  assumes "x \<in> set whitespace" "same_pos b s s'"
  shows "skip_ws (b @ [x]) s' = (if skip_ws b s = length b then length b + 1 else skip_ws b s)"
    "skip_ws b s \<le> length b"
proof -
  have "skip_ws (b @ [x]) (length b + 1) = length b + 1" "skip_ws b (length b) = length b"
    by (subst skip_ws.simps; simp)+
  then show "skip_ws (b @ [x]) s' = (if skip_ws b s = length b then length b + 1 else skip_ws b s)"
    using skip_ws_append[OF assms(1), of s b] assms(2) by (auto simp: same_pos_def)
  show "skip_ws b s \<le> length b" using skip_ws_ge(2)[of s b] assms(2) by (auto simp: same_pos_def)
qed

lemma word_end_append:
  assumes "x \<in> set whitespace"
  shows "s \<le> length b \<Longrightarrow> word_end (b @ [x]) s = word_end b s"
proof (induction b s rule: word_end.induct)
  case (1 b s)
  show ?case
  proof (cases "s < length b")
    case True
    then have "(b @ [x]) ! s = b ! s" by (simp add: nth_append)
    then show ?thesis using 1 True by (subst (1 2) word_end.simps) auto
  next
    case False
    then show ?thesis using 1 assms by (subst (1 2) word_end.simps) auto
  qed
qed

section \<open>Tokens\<close>

lemma peek_same:
  assumes "x \<in> set whitespace" "same_pos b s s'"
  shows "\<exists>t t' r. peek b s toks = (t, r) \<and> peek (b @ [x]) s' toks = (t', r) \<and> same_pos b t t'"
  using skip_ws_same[OF assms] by (auto simp: peek_def Let_def nth_append same_pos_def at_def)

lemma gettoken_same:
  assumes "x \<in> set whitespace" "same_pos b s s'" "gettoken b s = (t, q, e, s1)"
  shows "\<exists>q' e' s1'. gettoken (b @ [x]) s' = (t, q', e', s1') \<and> same_pos b s1 s1' \<and> (t \<noteq> 0 \<longrightarrow> q' = q \<and> e' = e)"
proof (cases "skip_ws b s = length b")
  case True
  have e: "skip_ws (b @ [x]) (length b + 1) = length b + 1" "skip_ws b (length b) = length b"
    by (subst skip_ws.simps; simp)+
  have "gettoken b s = (0, length b, length b, length b)" using True e by (simp add: gettoken_def at_def Let_def)
  moreover have "gettoken (b @ [x]) s' = (0, length b + 1, length b + 1, length b + 1)"
    using True e skip_ws_same(1)[OF assms(1,2)] by (simp add: gettoken_def at_def Let_def)
  ultimately show ?thesis using assms(3) by (simp add: same_pos_def)
next
  case False
  define p where "p = skip_ws b s"
  have p: "p < length b" "skip_ws (b @ [x]) s' = p" using False skip_ws_same[OF assms(1,2)] by (simp_all add: p_def)
  have x: "x \<noteq> 62" using assms(1) by (auto simp: whitespace_def)
  have a: "at (b @ [x]) p = at b p" "at (b @ [x]) (p + 1) = 62 \<longleftrightarrow> at b (p + 1) = 62"
    using p(1) x by (auto simp: nth_append at_def)
  have "word_end (b @ [x]) p = word_end b p" using word_end_append[OF assms(1)] p(1) by simp
  then have "\<exists>s1'. gettoken (b @ [x]) s' = (t, q, e, s1') \<and> s1' = skip_ws (b @ [x]) e \<and> s1 = skip_ws b e"
    using assms(3) p(2) a unfolding gettoken_def Let_def p_def[symmetric] by (auto split: prod.splits if_splits)
  moreover have "e \<le> length b" using gettoken_ge[OF assms(3)] assms(2) by (auto simp: same_pos_def)
  then have "same_pos b (skip_ws b e) (skip_ws (b @ [x]) e)"
    using skip_ws_same[OF assms(1), of b e e] by (auto simp: same_pos_def)
  ultimately show ?thesis by auto
qed

lemma next_token_same:
  assumes "x \<in> set whitespace" "same_pos b s s'"
  shows "same_pos b (next_token b s) (next_token (b @ [x]) s')"
proof -
  obtain t q e s1 where "gettoken b s = (t, q, e, s1)" by (metis prod_cases4)
  then show ?thesis using gettoken_same[OF assms] by (force simp: next_token_def)
qed

section \<open>The parser\<close>

lemma parseredirs_same:
  assumes "x \<in> set whitespace"
  shows "same_pos b s s' \<Longrightarrow> same_run b (parseredirs b c s) (parseredirs (b @ [x]) c s')"
proof (induction b c s arbitrary: s' rule: parseredirs.induct)
  case (1 b c s)
  obtain t t' r where p: "peek b s [60, 62] = (t, r)" "peek (b @ [x]) s' [60, 62] = (t', r)" "same_pos b t t'"
    using peek_same[OF assms 1(2)] by blast
  obtain k q e s1 where g: "gettoken b t = (k, q, e, s1)" by (metis prod_cases4)
  then obtain q1 e1 s1' where g': "gettoken (b @ [x]) t' = (k, q1, e1, s1')" "same_pos b s1 s1'"
    using gettoken_same[OF assms p(3)] by blast
  obtain k2 q2 e2 s2 where h: "gettoken b s1 = (k2, q2, e2, s2)" by (metis prod_cases4)
  then obtain q3 e3 s2' where h': "gettoken (b @ [x]) s1' = (k2, q3, e3, s2')" "same_pos b s2 s2'"
    "k2 \<noteq> 0 \<longrightarrow> q3 = q2 \<and> e3 = e2"
    using gettoken_same[OF assms g'(2)] by blast
  show ?case
  proof (cases "r \<and> k2 = 97")
    case True
    have "parseredirs b c s = parseredirs b (redir k c (q2, e2)) s2"
      using True p(1) g h by (subst parseredirs.simps) simp
    moreover have "parseredirs (b @ [x]) c s' = parseredirs (b @ [x]) (redir k c (q2, e2)) s2'"
      using True p(2) g' h' by (subst parseredirs.simps) simp
    moreover have "same_run b (parseredirs b (redir k c (q2, e2)) s2) (parseredirs (b @ [x]) (redir k c (q2, e2)) s2')"
      using 1(1)[OF p(1)[symmetric] _ g[symmetric] refl refl h[symmetric] refl refl _ h'(2)] True by simp
    ultimately show ?thesis by simp
  next
    case False
    then show ?thesis using p g g' h h' by (subst (1 2) parseredirs.simps) (cases r; simp)
  qed
qed

lemma exec_args_same:
  assumes "x \<in> set whitespace"
  shows "same_pos b s s' \<Longrightarrow> same_run b (exec_args b c n s) (exec_args (b @ [x]) c n s')"
proof (induction "MAXARGS - n" arbitrary: c n s s' rule: less_induct)
  case less
  obtain t t' r where p: "peek b s [124, 41, 38, 59] = (t, r)" "peek (b @ [x]) s' [124, 41, 38, 59] = (t', r)" "same_pos b t t'"
    using peek_same[OF assms less(2)] by blast
  obtain k q e s1 where g: "gettoken b t = (k, q, e, s1)" by (metis prod_cases4)
  then obtain q1 e1 s1' where g': "gettoken (b @ [x]) t' = (k, q1, e1, s1')" "same_pos b s1 s1'" "k \<noteq> 0 \<longrightarrow> q1 = q \<and> e1 = e"
    using gettoken_same[OF assms p(3)] by blast
  have "same_run b (rbind (parseredirs b (add_arg (q, e) c) s1) (\<lambda>(c1, s3). exec_args b c1 (n + 1) s3))
      (rbind (parseredirs (b @ [x]) (add_arg (q, e) c) s1') (\<lambda>(c1, s3). exec_args (b @ [x]) c1 (n + 1) s3))" if "n + 1 < MAXARGS"
    by (rule same_run_bind[OF parseredirs_same[OF assms g'(2)]]) (use less(1) that in simp)
  then show ?case using p g g' by (subst (1 2) exec_args.simps) (cases r; simp)
qed

lemma parseback_same:
  assumes "x \<in> set whitespace"
  shows "same_pos b s s' \<Longrightarrow> \<exists>d t t'. parseback b c s = (d, t) \<and> parseback (b @ [x]) c s' = (d, t') \<and> same_pos b t t'"
proof (induction b c s arbitrary: s' rule: parseback.induct)
  case (1 b c s)
  obtain t t' r where p: "peek b s [38] = (t, r)" "peek (b @ [x]) s' [38] = (t', r)" "same_pos b t t'"
    using peek_same[OF assms 1(2)] by blast
  show ?case
  proof (cases r)
    case True
    have "parseback b c s = parseback b (BACK c) (next_token b t)"
      "parseback (b @ [x]) c s' = parseback (b @ [x]) (BACK c) (next_token (b @ [x]) t')"
      using p True by (subst parseback.simps; simp)+
    then show ?thesis using 1(1)[OF p(1)[symmetric] _ next_token_same[OF assms p(3)]] True by simp
  next
    case False
    then show ?thesis using p by (subst (1 2) parseback.simps) simp
  qed
qed

lemma block_end_same:
  assumes "x \<in> set whitespace" "same_pos b t t'"
  shows "same_run b (case peek b t [41] of (s3, False) \<Rightarrow> Panic ''syntax - missing )'' | (s3, True) \<Rightarrow> parseredirs b c (next_token b s3))
      (case peek (b @ [x]) t' [41] of (s3, False) \<Rightarrow> Panic ''syntax - missing )''
        | (s3, True) \<Rightarrow> parseredirs (b @ [x]) c (next_token (b @ [x]) s3))"
proof -
  obtain w w' q where w: "peek b t [41] = (w, q)" "peek (b @ [x]) t' [41] = (w', q)" "same_pos b w w'" using peek_same[OF assms] by blast
  then show ?thesis using parseredirs_same[OF assms(1) next_token_same[OF assms(1) w(3)]] by (cases q) simp_all
qed

lemma parser_same:
  assumes "x \<in> set whitespace"
  shows "n \<le> n' \<Longrightarrow> same_pos b s s' \<Longrightarrow>
    same_run b (parseline n b s) (parseline n' (b @ [x]) s') \<and> same_run b (parsepipe n b s) (parsepipe n' (b @ [x]) s') \<and>
    same_run b (parseexec n b s) (parseexec n' (b @ [x]) s') \<and> same_run b (parseblock n b s) (parseblock n' (b @ [x]) s')"
proof (induction n arbitrary: n' s s')
  case (Suc n)
  obtain m where n': "n' = Suc m" "n \<le> m" using Suc.prems(1) by (cases n') auto
  note IH = Suc.IH[OF n'(2)] and pk = peek_same[OF assms] and nt = next_token_same[OF assms]
  have line: "same_run b (parseline (Suc n) b s) (parseline n' (b @ [x]) s')"
    unfolding n'(1) parseline.simps
  proof (rule same_run_bind, goal_cases)
    case 1
    show ?case using IH[OF Suc.prems(2)] by simp
  next
    case (2 c t t')
    obtain d u u' where u: "parseback b c t = (d, u)" "parseback (b @ [x]) c t' = (d, u')" "same_pos b u u'"
      using parseback_same[OF assms 2] by blast
    obtain v v' r where v: "peek b u [59] = (v, r)" "peek (b @ [x]) u' [59] = (v', r)" "same_pos b v v'" using pk[OF u(3)] by blast
    have "same_run b (rbind (parseline n b (next_token b v)) (\<lambda>(c, s4). Ok (LIST d c, s4)))
        (rbind (parseline m (b @ [x]) (next_token (b @ [x]) v')) (\<lambda>(c, s4). Ok (LIST d c, s4)))"
      by (rule same_run_bind) (use IH[OF nt[OF v(3)]] in simp_all)
    then show ?case using u v by (cases r) simp_all
  qed
  have pipe: "same_run b (parsepipe (Suc n) b s) (parsepipe n' (b @ [x]) s')"
    unfolding n'(1) parsepipe.simps
  proof (rule same_run_bind, goal_cases)
    case 1
    show ?case using IH[OF Suc.prems(2)] by simp
  next
    case (2 c t t')
    obtain v v' r where v: "peek b t [124] = (v, r)" "peek (b @ [x]) t' [124] = (v', r)" "same_pos b v v'" using pk[OF 2] by blast
    have "same_run b (rbind (parsepipe n b (next_token b v)) (\<lambda>(d, s3). Ok (PIPE c d, s3)))
        (rbind (parsepipe m (b @ [x]) (next_token (b @ [x]) v')) (\<lambda>(d, s3). Ok (PIPE c d, s3)))"
      by (rule same_run_bind) (use IH[OF nt[OF v(3)]] in simp_all)
    then show ?case using v by (cases r) simp_all
  qed
  obtain v v' r where v: "peek b s [40] = (v, r)" "peek (b @ [x]) s' [40] = (v', r)" "same_pos b v v'" using pk[OF Suc.prems(2)] by blast
  have "same_run b (rbind (parseredirs b (EXEC []) v) (\<lambda>(c, s2). exec_args b c 0 s2))
      (rbind (parseredirs (b @ [x]) (EXEC []) v') (\<lambda>(c, s2). exec_args (b @ [x]) c 0 s2))"
    by (rule same_run_bind[OF parseredirs_same[OF assms v(3)]]) (simp add: exec_args_same[OF assms])
  then have exec: "same_run b (parseexec (Suc n) b s) (parseexec n' (b @ [x]) s')"
    using v IH[OF v(3)] n'(1) by (cases r) simp_all
  have "same_run b (parseblock (Suc n) b s) (parseblock n' (b @ [x]) s')"
  proof (cases r)
    case True
    show ?thesis using v True unfolding n'(1) parseblock.simps
      by (auto intro!: same_run_bind block_end_same[OF assms] simp: IH[OF nt[OF v(3)]])
  qed (use v n'(1) in simp)
  then show ?case using line pipe exec by simp
qed simp

lemma parsecmd_blank:
  assumes "x \<in> set whitespace" "parsecmd b = Ok (c, m)"
  shows "\<exists>m'. parsecmd (b @ [x]) = Ok (c, m')"
proof -
  obtain s where s: "parseline (depth b) b 0 = Ok (c, s)" "fst (peek b s []) = length b"
    using assms(2) by (cases "parseline (depth b) b 0") (auto simp: parsecmd_def split: prod.splits if_splits)
  have "same_run b (parseline (depth b) b 0) (parseline (depth (b @ [x])) (b @ [x]) 0)"
    using parser_same[OF assms(1), of "depth b" "depth (b @ [x])" b 0 0] by (simp add: depth_def same_pos_def)
  then obtain s' where s': "parseline (depth (b @ [x])) (b @ [x]) 0 = Ok (c, s')" "same_pos b s s'"
    using s(1) by (auto simp: same_run_def)
  have "fst (peek (b @ [x]) s' []) = length b + 1"
    using s(2) skip_ws_same(1)[OF assms(1) s'(2)] by (simp add: peek_def Let_def)
  then show ?thesis using s'(1) by (auto simp: parsecmd_def split: prod.splits)
qed

lemma text_of_append: "fst t < snd t \<and> snd t \<le> length b \<Longrightarrow> text_of (b @ ws) t = text_of b t"
  by (cases t) (simp add: text_of_def)

text \<open>A command, typed with any blanks after it.\<close>

lemma parsecmd_typed:
  assumes "cmd_ok word_ok c" "set ws \<subseteq> set whitespace"
  shows "\<exists>c' m. parsecmd (cmd_text 3 c @ ws) = Ok (c', m) \<and> map_cmd (str_at m \<circ> fst) c' = c"
proof -
  let ?b = "cmd_text 3 c"
  obtain c' m where c': "parsecmd ?b = Ok (c', m)" "map_cmd (str_at m \<circ> fst) c' = c" using parsecmd_reads[OF assms(1)] by blast
  have nz: "0 \<notin> set ?b" "0 \<notin> set (?b @ ws)"
    using cmd_text_nonzero[OF assms(1)] assms(2) by (auto simp: whitespace_def)
  have "\<exists>m'. parsecmd (?b @ ws) = Ok (c', m')" using assms(2)
  proof (induction ws rule: rev_induct)
    case (snoc x ws)
    then show ?case using parsecmd_blank[of x "?b @ ws"] by auto
  qed (use c' in simp)
  then obtain m' where m': "parsecmd (?b @ ws) = Ok (c', m')" by blast
  have ok: "cmd_ok (tok_ok ?b) c'" "map_cmd (text_of ?b) c' = c" using parsecmd_spec[OF nz(1)] c' by simp_all
  have "map_cmd (str_at m' \<circ> fst) c' = map_cmd (text_of (?b @ ws)) c'" using parsecmd_spec[OF nz(2)] m' by simp
  also have "\<dots> = map_cmd (text_of ?b) c'"
    using cmd_ok_set[OF ok(1)] by (intro cmd.map_cong0 text_of_append) (fastforce simp: tok_ok_def)
  finally show ?thesis using m' ok(2) by auto
qed

end
