(* ===== verification/Sh_Run.thy ===== *)
theory Sh_Run
  imports Sh_Line
begin

text \<open>
  What the shell does with a command (\<open>sh.c\<close>: \<open>runcmd\<close>, \<open>getcmd\<close>, the built-in commands and the
  loop of \<open>main\<close>).  A program is the tree of the system calls it makes: after a call it goes on as
  the result says, and \<open>fork\<close> starts a second program.  The words of a command are the strings
  that \<open>nulterminate\<close> has ended.  \<open>atoi\<close> on a line and \<open>printf\<close> of a number always return; where a
  definition calls them, or the parser, the outcomes that do not occur are mapped to \<open>Exit\<close>.
\<close>

section \<open>Programs\<close>

datatype call =
    Open "byte list" uint
  | Close int
  | Dup int
  | Exec "byte list" "byte list list"
  | Wait
  | Write int "byte list"
  | Chdir "byte list"
  | Setuid uint
  | Setgid uint
  | Getuid
  | Getgid

datatype prog =
    Exit
  | Call call "int \<Rightarrow> prog"
  | Pipe "(int \<times> int) option \<Rightarrow> prog"
  | Fork prog "int \<Rightarrow> prog"

text \<open>\<open>printf\<close> to descriptor 2, and \<open>panic\<close>.\<close>

definition say :: "byte list \<Rightarrow> prog \<Rightarrow> prog" where
  "say l p = Call (Write 2 l) (\<lambda>_. p)"

definition sh_panic :: "byte list \<Rightarrow> prog" where
  "sh_panic l = say (l @ [10]) Exit"

text \<open>\<open>if(fork1() == 0) child;\<close> and what the parent does next.\<close>

definition fork1 :: "prog \<Rightarrow> prog \<Rightarrow> prog" where
  "fork1 child p = Fork child (\<lambda>pid. if pid = -1 then sh_panic (lit ''fork'') else p)"

definition calls :: "call list \<Rightarrow> prog \<Rightarrow> prog" where
  "calls cs p = foldr (\<lambda>c p. Call c (\<lambda>_. p)) cs p"

fun runcmd :: "byte list cmd \<Rightarrow> prog" where
  "runcmd (EXEC ws) =
     (case ws of
        [] \<Rightarrow> Exit
      | w # _ \<Rightarrow> Call (Exec w ws) (\<lambda>_. say (lit ''exec '' @ w @ lit '' failed'' @ [10]) Exit))"
| "runcmd (REDIR c f m d) =
     Call (Close (int d)) (\<lambda>_. Call (Open f m) (\<lambda>r.
       if r < 0 then say (lit ''open '' @ f @ lit '' failed'' @ [10]) Exit else runcmd c))"
| "runcmd (LIST l r) = fork1 (runcmd l) (Call Wait (\<lambda>_. runcmd r))"
| "runcmd (PIPE l r) =
     Pipe (\<lambda>po.
       case po of
         None \<Rightarrow> sh_panic (lit ''pipe'')
       | Some (p0, p1) \<Rightarrow>
           fork1 (calls [Close 1, Dup p1, Close p0, Close p1] (runcmd l))
             (fork1 (calls [Close 0, Dup p0, Close p0, Close p1] (runcmd r))
               (calls [Close p0, Close p1, Wait, Wait] Exit)))"
| "runcmd (BACK c) = fork1 (runcmd c) Exit"

section \<open>Lines\<close>

definition strncmp_eq :: "byte list \<Rightarrow> byte list \<Rightarrow> nat \<Rightarrow> bool" where
  "strncmp_eq p q n \<longleftrightarrow> (let k = length (takeWhile (\<lambda>i. at p i \<noteq> 0 \<and> at p i = at q i) [0..<n]) in k = n \<or> at p k = at q k)"

definition mem_of :: "byte list \<Rightarrow> mem" where
  "mem_of l a = at l (unat a)"

definition chomp :: "byte list \<Rightarrow> byte list" where
  "chomp = dropWhile (\<lambda>x. x = 32)"

text \<open>The built-in commands; \<open>k\<close> is how the loop of \<open>main\<close> goes on.\<close>

definition invalid :: "string \<Rightarrow> prog \<Rightarrow> prog" where
  "invalid b k = say (lit ''Invalid '' @ lit b @ lit '' parameter'' @ [10]) k"

definition setbuiltin :: "byte list \<Rightarrow> prog \<Rightarrow> prog" where
  "setbuiltin line k =
     (let p = chomp (drop 4 line);
          set = (\<lambda>f. case atoi (mem_of (chomp (drop 3 p))) 0 of
                       Ok i \<Rightarrow> Call (f i) (\<lambda>rc. if rc = 0 then k else invalid ''_set'' k)
                     | _ \<Rightarrow> Exit)
      in if strncmp_eq (lit ''uid'') p 3 then set Setuid
         else if strncmp_eq (lit ''gid'') p 3 then set Setgid
         else invalid ''_set'' k)"

definition say_int :: "int \<Rightarrow> prog \<Rightarrow> prog" where
  "say_int r k = (case printf (lit ''%d'' @ [10]) False [CInt (word_of_int r)] of Ok bs \<Rightarrow> say bs k | _ \<Rightarrow> Exit)"

definition getbuiltin :: "byte list \<Rightarrow> prog \<Rightarrow> prog" where
  "getbuiltin line k =
     (let p = chomp (drop 4 line)
      in if strncmp_eq (lit ''uid'') p 3 then Call Getuid (\<lambda>r. say_int r k)
         else if strncmp_eq (lit ''gid'') p 3 then Call Getgid (\<lambda>r. say_int r k)
         else invalid ''_get'' k)"

definition dobuiltin :: "byte list \<Rightarrow> prog \<Rightarrow> prog" where
  "dobuiltin line k =
     (let k1 = (if strncmp_eq line (lit ''_get'') 4 then getbuiltin line k else k)
      in if strncmp_eq line (lit ''_set'') 4 then setbuiltin line k1 else k1)"

text \<open>The child that parses and runs a line.\<close>

definition run_line :: "byte list \<Rightarrow> prog" where
  "run_line line =
     (case parsecmd line of
        Ok (c, m) \<Rightarrow> runcmd (map_cmd (str_at m \<circ> fst) c)
      | Panic msg \<Rightarrow> sh_panic (lit msg)
      | _ \<Rightarrow> Exit)"

text \<open>
  One turn of the loop of \<open>main\<close> on the line that \<open>getcmd\<close> has read (bytes before the NUL);
  an empty line is the end of the input.
\<close>

definition sh_turn :: "byte list \<Rightarrow> prog \<Rightarrow> prog" where
  "sh_turn line k =
     (if line = [] then Exit
      else if at line 0 = 99 \<and> at line 1 = 100 \<and> at line 2 = 32 then
        (let d = drop 3 (butlast line)
         in Call (Chdir d) (\<lambda>r. if r < 0 then say (lit ''cannot cd '' @ d @ [10]) k else k))
      else if at line 0 = 95 then dobuiltin line k
      else fork1 (run_line line) (Call Wait (\<lambda>_. k)))"

fun sh_loop :: "byte list list \<Rightarrow> prog" where
  "sh_loop [] = say (lit ''$ '') Exit"
| "sh_loop (line # ls) = say (lit ''$ '') (sh_turn line (sh_loop ls))"

text \<open>
  The loop that opens descriptors 0, 1 and 2.  Every turn but the last leaves one more descriptor
  below 3 open, so that it makes at most four turns.
\<close>

primrec open_console :: "nat \<Rightarrow> prog \<Rightarrow> prog" where
  "open_console 0 k = Exit"
| "open_console (Suc n) k =
     Call (Open (lit ''console'') O_RDWR) (\<lambda>fd.
       if fd < 0 then k else if fd \<ge> 3 then Call (Close fd) (\<lambda>_. k) else open_console n k)"

definition sh_main :: "byte list list \<Rightarrow> prog" where
  "sh_main ls = open_console 4 (sh_loop ls)"

section \<open>Descriptors\<close>

text \<open>
  The descriptors of a process, and what the calls that succeed do to them: a new
  descriptor is the lowest free one, \<open>fork\<close> copies the table, and \<open>exec\<close> does not return.
\<close>

datatype obj = File "byte list" uint | PipeRead nat | PipeWrite nat | Other nat

type_synonym fds = "int \<Rightarrow> obj option"

datatype event = Start "byte list list" fds | Waiting fds

definition lowest :: "fds \<Rightarrow> int" where
  "lowest t = (case find (\<lambda>i. t (int i) = None) [0..<NOFILE] of None \<Rightarrow> -1 | Some i \<Rightarrow> int i)"

definition new_fd :: "obj \<Rightarrow> fds \<Rightarrow> int \<times> fds" where
  "new_fd x t = (let i = lowest t in (i, if i < 0 then t else t(i := Some x)))"

fun do_call :: "call \<Rightarrow> fds \<Rightarrow> int \<times> fds" where
  "do_call (Open f m) t = new_fd (File f m) t"
| "do_call (Close d) t = (if t d = None then (-1, t) else (0, t(d := None)))"
| "do_call (Dup d) t = (case t d of None \<Rightarrow> (-1, t) | Some x \<Rightarrow> new_fd x t)"
| "do_call _ t = (0, t)"

text \<open>The programs started and the waits, with the descriptors at that moment; \<open>n\<close> numbers the pipes.\<close>

primrec run :: "prog \<Rightarrow> fds \<Rightarrow> nat \<Rightarrow> event list \<times> nat" where
  "run Exit t n = ([], n)"
| "run (Call c k) t n =
     (case c of
        Exec w ws \<Rightarrow> ([Start ws t], n)
      | _ \<Rightarrow> (let (r, t1) = do_call c t; (es, n1) = run (k r) t1 n
              in (if c = Wait then Waiting t # es else es, n1)))"
| "run (Pipe k) t n =
     (let (r, t1) = new_fd (PipeRead n) t; (w, t2) = new_fd (PipeWrite n) t1
      in if r < 0 \<or> w < 0 then run (k None) t n else run (k (Some (r, w))) t2 (n + 1))"
| "run (Fork child k) t n =
     (let (es, n1) = run child t n; (fs, n2) = run (k 1) t n1 in (es @ fs, n2))"

section \<open>What a command means\<close>

text \<open>
  The programs a command starts, each with the descriptors it is to have: a redirection
  replaces one descriptor, a pipeline joins descriptor 1 of its left side to descriptor 0 of
  its right side.  Waiting is done with the descriptors of the command itself.
\<close>

fun plan :: "byte list cmd \<Rightarrow> fds \<Rightarrow> nat \<Rightarrow> event list \<times> nat" where
  "plan (EXEC ws) t n = (if ws = [] then [] else [Start ws t], n)"
| "plan (REDIR c f m d) t n = plan c (t(int d := Some (File f m))) n"
| "plan (LIST l r) t n =
     (let (es, n1) = plan l t n; (fs, n2) = plan r t n1 in (es @ Waiting t # fs, n2))"
| "plan (PIPE l r) t n =
     (let (es, n1) = plan l (t(1 := Some (PipeWrite n))) (n + 1);
          (fs, n2) = plan r (t(0 := Some (PipeRead n))) n1
      in (es @ fs @ [Waiting t, Waiting t], n2))"
| "plan (BACK c) t n = plan c t n"

text \<open>Exactly the descriptors 0, 1 and 2 are open.\<close>

definition std :: "fds \<Rightarrow> bool" where
  "std t \<longleftrightarrow> t 0 \<noteq> None \<and> t 1 \<noteq> None \<and> t 2 \<noteq> None \<and> (\<forall>i. i \<notin> {0, 1, 2} \<longrightarrow> t i = None)"

lemma std_open: "std t \<Longrightarrow> t 0 \<noteq> None \<and> t 1 \<noteq> None \<and> t 2 \<noteq> None \<and> t 3 = None \<and> t 4 = None"
  by (simp add: std_def)

lemma upt_NOFILE: "[0..<NOFILE] = [0, 1, 2, 3, 4] @ [5..<NOFILE]"
  by (simp add: NOFILE_def upt_conv_Cons)

lemma lowest_cases:
  "t 0 = None \<Longrightarrow> lowest t = 0" "t 0 \<noteq> None \<Longrightarrow> t 1 = None \<Longrightarrow> lowest t = 1"
  "std t \<Longrightarrow> lowest t = 3" "std t \<Longrightarrow> lowest (t(3 := Some x)) = 4"
  using std_open[of t] unfolding lowest_def upt_NOFILE by simp_all

lemma std_upd: "std t \<Longrightarrow> d \<in> {0, 1, 2} \<Longrightarrow> std (t(d := Some x))"
  by (auto simp: std_def)

lemma run_calls_Nil [simp]: "calls [] p = p"
  by (simp add: calls_def)

lemma run_calls_Cons [simp]: "calls (c # cs) p = Call c (\<lambda>_. calls cs p)"
  by (simp add: calls_def)

lemma run_fork1: "run (fork1 child p) t n = (let (es, n1) = run child t n; (fs, n2) = run p t n1 in (es @ fs, n2))"
  by (simp add: fork1_def)

text \<open>The descriptors of the two sides of a pipeline.\<close>

lemma pipe_left:
  assumes "std t"
  shows "run (calls [Close 1, Dup 4, Close 3, Close 4] p) (t(3 := Some (PipeRead n), 4 := Some (PipeWrite n))) k =
    run p (t(1 := Some (PipeWrite n))) k"
proof -
  let ?u = "(t(3 := Some (PipeRead n), 4 := Some (PipeWrite n)))(1 := None)"
  have "lowest ?u = 1" using std_open[OF assms] by (intro lowest_cases(2)) simp_all
  moreover have "t(1 := Some (PipeWrite n), 3 := None, 4 := None) = t(1 := Some (PipeWrite n))"
    using std_open[OF assms] by (auto simp: fun_eq_iff)
  ultimately show ?thesis using std_open[OF assms]
    by (auto simp: new_fd_def fun_upd_twist)
qed

lemma pipe_right:
  assumes "std t"
  shows "run (calls [Close 0, Dup 3, Close 3, Close 4] p) (t(3 := Some (PipeRead n), 4 := Some (PipeWrite n))) k =
    run p (t(0 := Some (PipeRead n))) k"
proof -
  let ?u = "(t(3 := Some (PipeRead n), 4 := Some (PipeWrite n)))(0 := None)"
  have "lowest ?u = 0" by (intro lowest_cases(1)) simp
  moreover have "t(0 := Some (PipeRead n), 3 := None, 4 := None) = t(0 := Some (PipeRead n))"
    using std_open[OF assms] by (auto simp: fun_eq_iff)
  ultimately show ?thesis using std_open[OF assms]
    by (auto simp: new_fd_def fun_upd_twist)
qed

lemma pipe_parent:
  assumes "std t"
  shows "run (calls [Close 3, Close 4, Wait, Wait] Exit) (t(3 := Some (PipeRead n), 4 := Some (PipeWrite n))) k =
    ([Waiting t, Waiting t], k)"
proof -
  have "t(3 := None, 4 := None) = t" using std_open[OF assms] by (auto simp: fun_eq_iff)
  then show ?thesis by (simp add: fun_upd_twist)
qed

lemma run_runcmd: "cmd_ok P c \<Longrightarrow> std t \<Longrightarrow> run (runcmd c) t n = plan c t n"
proof (induction c arbitrary: t n)
  case (EXEC ws)
  then show ?case by (cases ws) simp_all
next
  case (REDIR c f m d)
  then have d: "d = 0 \<or> d = 1" and ok: "cmd_ok P c" by auto
  have s: "std (t(int d := Some (File f m)))" using REDIR.prems(2) d by (intro std_upd) auto
  have "lowest (t(int d := None)) = int d" using d std_open[OF REDIR.prems(2)] lowest_cases(1,2)[of "t(int d := None)"] by auto
  then have "run (runcmd (REDIR c f m d)) t n = run (runcmd c) (t(int d := Some (File f m))) n"
    using d std_open[OF REDIR.prems(2)] by (auto simp: new_fd_def)
  also have "\<dots> = plan (REDIR c f m d) t n" unfolding plan.simps by (rule REDIR.IH[OF ok s])
  finally show ?case .
next
  case (PIPE l r)
  have std: "std t" and ok: "cmd_ok P l" "cmd_ok P r" using PIPE.prems by simp_all
  have L: "run (runcmd l) (t(1 := Some (PipeWrite n))) k = plan l (t(1 := Some (PipeWrite n))) k" for k
    by (rule PIPE.IH(1)[OF ok(1) std_upd[OF std]]) simp
  have R: "run (runcmd r) (t(0 := Some (PipeRead n))) k = plan r (t(0 := Some (PipeRead n))) k" for k
    by (rule PIPE.IH(2)[OF ok(2) std_upd[OF std]]) simp
  show ?case using lowest_cases(3,4)[OF std] L R
    by (simp add: new_fd_def run_fork1 pipe_left[OF std] pipe_right[OF std] pipe_parent[OF std]
        del: run_calls_Cons split: prod.splits)
next
  case (LIST l r)
  then show ?case by (simp add: run_fork1 split: prod.splits)
next
  case (BACK c)
  then show ?case by (simp add: run_fork1 split: prod.splits)
qed

section \<open>A session\<close>

text \<open>The descriptors after the console has been opened for those of 0, 1 and 2 that were closed.\<close>

definition with_console :: "fds \<Rightarrow> fds" where
  "with_console t = (\<lambda>i. if i \<in> {0, 1, 2} \<and> t i = None then Some (File (lit ''console'') O_RDWR) else t i)"

lemma with_console_std: "(\<And>i. i \<notin> {0, 1, 2} \<Longrightarrow> t i = None) \<Longrightarrow> std (with_console t)"
  by (simp add: with_console_def std_def)

lemma lowest_2: "t 0 \<noteq> None \<Longrightarrow> t 1 \<noteq> None \<Longrightarrow> t 2 = None \<Longrightarrow> lowest t = 2"
  unfolding lowest_def upt_NOFILE by simp

text \<open>One more descriptor is opened, and it is one of the three.\<close>

lemma open_console_step:
  assumes "lowest t = d" "0 \<le> d" "d < 3" "t d = None"
  shows "run (open_console (Suc k) p) t n = run (open_console k p) (t(d := Some (File (lit ''console'') O_RDWR))) n"
    "with_console (t(d := Some (File (lit ''console'') O_RDWR))) = with_console t"
proof -
  have "d \<in> {0, 1, 2}" using assms(2,3) by auto
  then show "with_console (t(d := Some (File (lit ''console'') O_RDWR))) = with_console t"
    using assms(4) by (auto simp: with_console_def fun_eq_iff)
qed (use assms in \<open>simp add: new_fd_def\<close>)

lemma open_console_last:
  assumes "std t"
  shows "run (open_console (Suc k) p) t n = run p t n" "with_console t = t"
  using assms std_open[OF assms] lowest_cases(3)[OF assms]
  by (auto simp: new_fd_def with_console_def fun_eq_iff fun_upd_idem)

lemma run_open_console:
  assumes "\<And>i. i \<notin> {0, 1, 2} \<Longrightarrow> t i = None" "card {i \<in> {0, 1, 2}. t i = None} < k"
  shows "run (open_console k p) t n = run p (with_console t) n"
  using assms
proof (induction k arbitrary: t)
  case (Suc k)
  show ?case
  proof (cases "std t")
    case False
    define d where "d = lowest t"
    have d: "0 \<le> d" "d < 3" "t d = None"
      using False Suc.prems(1) lowest_cases(1,2)[of t] lowest_2[of t] unfolding d_def std_def by fastforce+
    let ?t = "t(d := Some (File (lit ''console'') O_RDWR))"
    have "{i \<in> {0, 1, 2}. ?t i = None} = {i \<in> {0, 1, 2}. t i = None} - {d}" "d \<in> {i \<in> {0, 1, 2}. t i = None}"
      using d by auto
    then have "card {i \<in> {0, 1, 2}. ?t i = None} < card {i \<in> {0, 1, 2}. t i = None}"
      using card_Diff1_less[of "{i \<in> {0, 1, 2}. t i = None}" d] by simp
    then have "run (open_console k p) ?t n = run p (with_console ?t) n"
      using Suc.prems d by (intro Suc.IH) auto
    then show ?thesis using open_console_step[OF d_def[symmetric] d] by simp
  qed (use open_console_last in simp)
qed simp

text \<open>A line that is neither \<open>cd\<close> nor a built-in command.\<close>

definition external :: "byte list \<Rightarrow> bool" where
  "external l \<longleftrightarrow> \<not> (at l 0 = 99 \<and> at l 1 = 100 \<and> at l 2 = 32) \<and> at l 0 \<noteq> 95"

text \<open>The commands of a session run one after the other; the shell waits after each.\<close>

fun session :: "byte list cmd list \<Rightarrow> fds \<Rightarrow> nat \<Rightarrow> event list \<times> nat" where
  "session [] t n = ([], n)"
| "session (c # cs) t n =
     (let (es, n1) = plan c t n; (fs, n2) = session cs t n1 in (es @ Waiting t # fs, n2))"

lemma run_run_line:
  assumes "cmd_ok word_ok c" "std t"
  shows "run (run_line (cmd_text 3 c @ [10])) t n = plan c t n"
proof -
  have "set [10 :: byte] \<subseteq> set whitespace" by (simp add: whitespace_def lit_def of_char_def)
  from parsecmd_typed[OF assms(1) this] obtain c' m where "parsecmd (cmd_text 3 c @ [10]) = Ok (c', m)"
    "map_cmd (str_at m \<circ> fst) c' = c" by blast
  then show ?thesis using run_runcmd[OF assms] by (simp add: run_line_def)
qed

lemma run_sh_loop:
  assumes "std t"
  shows "(\<And>c. c \<in> set cs \<Longrightarrow> cmd_ok word_ok c \<and> external (cmd_text 3 c @ [10])) \<Longrightarrow>
    run (sh_loop (map (\<lambda>c. cmd_text 3 c @ [10]) cs)) t n = session cs t n"
proof (induction cs arbitrary: n)
  case (Cons c cs)
  have "run (sh_turn (cmd_text 3 c @ [10]) k) t n =
      (let (es, n1) = plan c t n; (fs, n2) = run k t n1 in (es @ Waiting t # fs, n2))" for k
    using Cons.prems[of c] run_run_line[OF _ assms, of c]
    by (auto simp: sh_turn_def external_def run_fork1 split: prod.splits)
  then show ?case using Cons by (simp add: say_def split: prod.splits)
qed (simp add: say_def)

lemma run_sh_main:
  assumes "\<And>i. i \<notin> {0, 1, 2} \<Longrightarrow> t i = None" "\<And>c. c \<in> set cs \<Longrightarrow> cmd_ok word_ok c \<and> external (cmd_text 3 c @ [10])"
  shows "run (sh_main (map (\<lambda>c. cmd_text 3 c @ [10]) cs)) t n = session cs (with_console t) n"
proof -
  have "card {i \<in> {0, 1, 2 :: int}. t i = None} \<le> card {0, 1, 2 :: int}" by (rule card_mono) auto
  then have "card {i \<in> {0, 1, 2}. t i = None} < 4" by simp
  then show ?thesis
    using run_open_console[OF assms(1)] run_sh_loop[OF with_console_std[OF assms(1)] assms(2)] by (simp add: sh_main_def)
qed

end
