(* ===== verification/Props_User.thy ===== *)
theory Props_User
  imports Ulib_Thms Grep Sh_Run
begin

text \<open>
  Properties of the user library, of \<open>grep\<close> and of the shell.
\<close>

section \<open>The shell\<close>

text \<open>
  C18: The shell reads a command as it is written.  A command tree with fewer than \<open>MAXARGS\<close>
  words per command, typed in the syntax of the shell (words, redirections, pipelines, lists,
  background commands, and parentheses where the tree needs them) with any blanks after it, such
  as the newline that \<open>gets\<close> leaves in the buffer, is parsed without an error,
  and the tree that \<open>parsecmd\<close> returns is the same tree: its words are the NUL-terminated strings
  that \<open>argv\<close> and \<open>file\<close> point to in the buffer.
\<close>

theorem shell_reads_what_is_typed:
  assumes "cmd_ok word_ok c" "set blanks \<subseteq> set whitespace"
  shows "\<exists>c' m. parsecmd (cmd_text 3 c @ blanks) = Ok (c', m) \<and> map_cmd (str_at m \<circ> fst) c' = c"
  by (rule parsecmd_typed[OF assms])

text \<open>The line \<open>ls | (cat < f &; wc; echo x > g) &\<close>.\<close>

definition demo_cmd :: "byte list cmd" where
  "demo_cmd = BACK (PIPE (EXEC [lit ''ls''])
     (LIST (BACK (REDIR (EXEC [lit ''cat'']) (lit ''f'') O_RDONLY 0))
       (LIST (EXEC [lit ''wc'']) (REDIR (EXEC [lit ''echo'', lit ''x'']) (lit ''g'') (O_WRONLY OR O_CREATE) 1))))"

lemma demo_cmd_ok: "cmd_ok word_ok demo_cmd"
  by (simp add: demo_cmd_def MAXARGS_def word_ok_def word_char_def lit_def of_char_def whitespace_def symbols_def)

theorem shell_reads_what_is_typed_witness:
  "\<exists>c' m. parsecmd (lit ''ls |(cat <f &;wc ;echo x >g )&'' @ [10]) = Ok (c', m) \<and> map_cmd (str_at m \<circ> fst) c' = demo_cmd"
proof -
  have "cmd_text 3 demo_cmd = lit ''ls |(cat <f &;wc ;echo x >g )&''"
    by (simp add: demo_cmd_def block_def redir_text_def lit_def of_char_def O_RDONLY_def O_WRONLY_def O_CREATE_def)
  moreover have "set [10 :: byte] \<subseteq> set whitespace" by (simp add: whitespace_def lit_def of_char_def)
  ultimately show ?thesis using shell_reads_what_is_typed[OF demo_cmd_ok, of "[10]"] by simp
qed

text \<open>
  C19: A session of the shell runs the commands that are typed.  Started with any of the
  descriptors 0, 1 and 2 and no others open, \<open>main\<close> opens the console for the missing ones; then
  each line (as \<open>getcmd\<close> reads it, and neither \<open>cd\<close> nor a built-in) starts exactly the programs
  of its command, each with its words and with the descriptors that its redirections and
  pipelines call for: no end of a pipe stays open in a program that does not use it, and none in
  the processes that wait.  \<open>fork\<close>, \<open>pipe\<close>, \<open>open\<close> and \<open>exec\<close> are assumed to succeed.
\<close>

theorem shell_runs_what_is_typed:
  assumes "\<forall>i. i \<notin> {0, 1, 2} \<longrightarrow> t i = None"
    and "\<forall>c\<in>set cs. cmd_ok word_ok c \<and> external (cmd_text 3 c @ [10])"
  shows "run (sh_main (map (\<lambda>c. cmd_text 3 c @ [10]) cs)) t n = session cs (with_console t) n"
  by (rule run_sh_main) (use assms in auto)

text \<open>The line \<open>ls | wc > f\<close>, typed to a shell that starts with descriptor 0 only.\<close>

theorem shell_runs_what_is_typed_witness:
  "let con = (\<lambda>i :: int. if i \<in> {0, 1, 2} then Some (File (lit ''console'') O_RDWR) else None)
   in run (sh_main [lit ''ls |wc >f '' @ [10]]) (con(1 := None, 2 := None)) 0 =
     ([Start [lit ''ls''] (con(1 := Some (PipeWrite 0))),
       Start [lit ''wc''] (con(0 := Some (PipeRead 0), 1 := Some (File (lit ''f'') (O_WRONLY OR O_CREATE)))),
       Waiting con, Waiting con, Waiting con], 1)"
proof -
  let ?c = "PIPE (EXEC [lit ''ls'']) (REDIR (EXEC [lit ''wc'']) (lit ''f'') (O_WRONLY OR O_CREATE) 1)"
  let ?con = "\<lambda>i :: int. if i \<in> {0, 1, 2} then Some (File (lit ''console'') O_RDWR) else None"
  have l: "cmd_text 3 ?c = lit ''ls |wc >f ''"
    by (simp add: block_def redir_text_def lit_def of_char_def O_RDONLY_def O_WRONLY_def O_CREATE_def)
  have "cmd_ok word_ok ?c"
    by (simp add: MAXARGS_def word_ok_def word_char_def lit_def of_char_def whitespace_def symbols_def)
  moreover have "external (cmd_text 3 ?c @ [10])" unfolding l by (simp add: external_def lit_def of_char_def at_def)
  moreover have "with_console (?con(1 := None, 2 := None)) = ?con" by (auto simp: with_console_def fun_eq_iff)
  ultimately show ?thesis
    using shell_runs_what_is_typed[of "?con(1 := None, 2 := None)" "[?c]" 0] l by (simp add: Let_def)
qed

text \<open>
  C23: For every command line the parser of the shell ends, with a message or with a tree.  In a
  tree every token is a maximal run of word characters of the line, no command has more than
  nine arguments, redirections have the modes and descriptors of \<open>parseredirs\<close>, and in the
  buffer that \<open>nulterminate\<close> leaves every token is a string of exactly its characters.
\<close>

theorem shell_parser_is_total:
  assumes "0 \<notin> set b"
  shows "case parsecmd b of
      Ok (c, m) \<Rightarrow> cmd_ok (tok_ok b) c \<and> map_cmd (str_at m \<circ> fst) c = map_cmd (text_of b) c
    | Panic msg \<Rightarrow> True
    | Fault \<Rightarrow> False
    | Hang \<Rightarrow> False"
  using parsecmd_spec[OF assms] by (cases "parsecmd b") (simp_all add: returns_def)

theorem shell_parser_is_total_witness:
  "\<exists>c m. parsecmd (lit ''a >b '') = Ok (c, m) \<and> cmd_ok (tok_ok (lit ''a >b '')) c \<and>
     map_cmd (text_of (lit ''a >b '')) c = REDIR (EXEC [lit ''a'']) (lit ''b'') (O_WRONLY OR O_CREATE) 1"
proof -
  let ?c = "REDIR (EXEC [lit ''a'']) (lit ''b'') (O_WRONLY OR O_CREATE) 1"
  have "cmd_ok word_ok ?c"
    by (simp add: MAXARGS_def word_ok_def word_char_def lit_def of_char_def whitespace_def symbols_def)
  moreover have "cmd_text 3 ?c = lit ''a >b ''"
    by (simp add: redir_text_def lit_def of_char_def O_RDONLY_def O_WRONLY_def O_CREATE_def)
  ultimately obtain c m where "parsecmd (lit ''a >b '') = Ok (c, m)" "map_cmd (str_at m \<circ> fst) c = ?c"
    using parsecmd_reads[of ?c] by auto
  moreover have "0 \<notin> set (lit ''a >b '')" by (simp add: lit_def of_char_def)
  ultimately show ?thesis using shell_parser_is_total[of "lit ''a >b ''"] by simp
qed

section \<open>Numbers\<close>

text \<open>
  C24: \<open>printf\<close> and \<open>atoi\<close> of the user library are inverse to each other: \<open>printf\<close> with \<open>%d\<close> writes
  a signed 32-bit number, the least one included, as at most eleven characters, and \<open>atoi\<close> of a
  string of these characters is the number.
\<close>

theorem printf_atoi_roundtrip:
  "\<exists>bs. printf (lit ''%d'') False [CInt x] = Ok bs \<and> length bs \<le> 11 \<and> (\<forall>m s. string_at m s bs \<longrightarrow> atoi m s = Ok x)"
proof -
  have "printf (lit ''%d'') False [CInt x] = Ok (shown u_digits x)"
    by (simp add: lit_def of_char_def u_printint_decimal)
  then show ?thesis using shown_length[of u_digits x] atoi_shown by blast
qed

theorem printf_atoi_roundtrip_witness:
  "printf (lit ''%d'') False [CInt (- 42)] = Ok [45, 52, 50] \<and>
   atoi (\<lambda>a. if a = 0x100 then 45 else if a = 0x101 then 52 else if a = 0x102 then 50 else 0) 0x100 = Ok (- 42)"
proof -
  have p: "printf (lit ''%d'') False [CInt (- 42)] = Ok [45, 52, 50]"
    by (simp add: lit_def of_char_def u_printint_decimal shown_def int_of_def numeral_of_def digs.simps u_digits_def)
  then show ?thesis using printf_atoi_roundtrip[of "- 42"] by simp
qed

section \<open>grep\<close>

text \<open>
  C20: The matcher of \<open>grep\<close> decides what the patterns mean.  A pattern is a sequence of items, a
  character or \<open>.\<close>, each of them repeated by \<open>*\<close>, and \<open>$\<close> at the end; it matches a text if the
  items match some part of it, at the beginning for a pattern with \<open>^\<close>.
\<close>

theorem grep_matches_patterns:
  "match re ts \<longleftrightarrow>
     (if re \<noteq> [] \<and> hd re = 94 then \<exists>u v. ts = u @ v \<and> matches (items (tl re)) u v
      else \<exists>w u v. ts = w @ u @ v \<and> matches (items re) u v)"
  by (auto simp: match_def matcher_correct match_from_correct begins_def)

text \<open>
  C21: \<open>grep\<close> writes exactly the lines that match, in their order.  For a text of lines of at most
  1022 characters, none NUL or newline, each followed by a newline, and a last piece \<open>e\<close> without
  one, when every \<open>read\<close> fills the buffer or reaches the end of the file, the output is the matching
  lines, each with its newline, also where a line is split between two reads; the last piece is
  not matched.
\<close>

theorem grep_writes_matching_lines:
  assumes "list_all (\<lambda>l. length l \<le> 1022 \<and> list_all (\<lambda>x. x \<noteq> 0 \<and> x \<noteq> 10) l) ls" "list_all (\<lambda>x. x \<noteq> 0 \<and> x \<noteq> 10) e"
    and "list_all (\<lambda>k. 1023 \<le> k) ks" "length (unlines ls @ e) \<le> length ks"
  shows "grep pat [] (unlines ls @ e) ks = unlines (filter (match pat) ls)"
proof -
  have l: "lines_of (unlines ls @ e) = ls" by (rule lines_of_unlines) (use assms(1,2) in \<open>auto simp: list_all_iff\<close>)
  have "list_all (\<lambda>x. x \<noteq> 0) (unlines ls @ e)" using assms(1,2) by (auto simp: list_all_iff unlines_def)
  then show ?thesis using grep_reads[of "[]" "unlines ls @ e" ks pat] assms l
    by (simp add: selected_def unlines_def list_all_iff)
qed

theorem grep_writes_matching_lines_witness:
  "grep (lit ''^a.*c$'') [] (lit ''abc'' @ [10] @ lit ''xabc'' @ [10] @ lit ''ac'' @ [10] @ lit ''aac'') (replicate 20 1023) =
     lit ''abc'' @ [10] @ lit ''ac'' @ [10]"
proof -
  have "match (lit ''^a.*c$'') (lit ''abc'')" "\<not> match (lit ''^a.*c$'') (lit ''xabc'')" "match (lit ''^a.*c$'') (lit ''ac'')"
    by code_simp+
  moreover have "grep (lit ''^a.*c$'') [] (unlines [lit ''abc'', lit ''xabc'', lit ''ac''] @ lit ''aac'') (replicate 20 1023) =
      unlines (filter (match (lit ''^a.*c$'')) [lit ''abc'', lit ''xabc'', lit ''ac''])"
    by (rule grep_writes_matching_lines) (simp_all add: lit_def of_char_def list_all_iff unlines_def)
  ultimately show ?thesis by (simp add: unlines_def)
qed

end
