(* ===== verification/Spec2Isabelle.thy ===== *)
theory Spec2Isabelle
  imports Props_Kernel Props_Sched Props_Life Props_Disk Props_Files Props_Fs Props_Sys Props_User
begin

text \<open>
  Verification of xv6, a small multiprocessor operating system in C, in the configuration that
  its Makefile builds (\<open>CS333_PROJECT\<close> 4: processes on lists by state, ready lists with
  priorities and time budgets).  The model covers the kernel from the spin locks to the trap
  handler, the user library, \<open>grep\<close> and the shell.

  \<^bold>\<open>How the code is modelled.\<close>
  The state is a chain of records, each layer extending the one below: CPUs, memory and the
  page allocator (\<open>kmem_st\<close>), process table (\<open>pt_st\<close>), buffers and disk (\<open>bio_st\<close>), log
  (\<open>log_st\<close>), inodes (\<open>fs_st\<close>), console (\<open>con_st\<close>), files and pipes (\<open>file_st\<close>), traps
  (\<open>sys_st\<close>).  An operation is a function on any extension of the layer it needs; its first
  argument is the number of the CPU that executes it.  C integers are words of their width,
  memory is a map from 32-bit addresses to bytes, a pointer into a static array is an optional
  index.  An operation returns \<open>Ok\<close>, \<open>Panic\<close> with the message of the kernel, \<open>Fault\<close> for a null
  pointer, or \<open>Hang\<close> when it does not return in a sequential run (a lock that is not free, a
  sleep without a waker, an endless loop).  Loops over an index range are \<open>for_each\<close>; loops along
  pointers and loops with a condition are \<open>walk\<close> and \<open>loop_res\<close>, least fixed points whose
  divergence is \<open>Hang\<close>, so that a result \<open>Ok\<close> includes termination.  An operation that gives up
  the CPU in the middle (\<open>scheduler\<close>, \<open>yield\<close>, \<open>sleep\<close>, \<open>exit\<close>, \<open>wait\<close>) is split at \<open>swtch\<close> into an
  \<open>_enter\<close> and an \<open>_exit\<close> half.

  \<^bold>\<open>Theories and sources.\<close>
  \<^item> \<open>Xv6_Prelude\<close>: integer types, outcomes, loops, shared lemmas.  \<open>Mmu\<close>: \<open>mmu.h\<close>, \<open>memlayout.h\<close>,
    \<open>param.h\<close>.  \<open>Str\<close>: \<open>string.c\<close> and the string instructions of \<open>x86.h\<close>.
  \<^item> \<open>Spinlock\<close>: \<open>spinlock.c\<close>, sequentially and as a step relation of several CPUs.  \<open>Kalloc\<close>:
    \<open>kalloc.c\<close>, with the locale \<open>page_allocator\<close>.  \<open>Vm\<close>, \<open>Vm_Thms\<close>, \<open>Free_Thms\<close>: \<open>vm.c\<close>.
  \<^item> \<open>Proc_List\<close>: the lists of \<open>proc.c\<close>, with the locale \<open>list_family\<close>.  \<open>Proc_Inv\<close>: the invariant of
    the process table.  \<open>Proc_Ops\<close>, \<open>Proc_Thms\<close>, \<open>Proc_Sched\<close>: the operations that need only the
    table.  \<open>Proc_Life\<close>, \<open>Life_Thms\<close>, \<open>Alloc_Thms\<close>, \<open>Reap_Thms\<close>: \<open>fork\<close>, \<open>exit\<close>, \<open>wait\<close>, \<open>allocproc\<close>.
    \<open>Proc_Machine\<close>: all interleavings of the scheduling actions of several CPUs.
  \<^item> \<open>Bio\<close>: \<open>sleeplock.c\<close>, \<open>ide.c\<close>, \<open>bio.c\<close>; \<open>Bio_Thms\<close> (locale \<open>sleeplock_at\<close>), \<open>Bio_Cache\<close>, \<open>Bio_Spec\<close>,
    \<open>Bio_Refine\<close>, \<open>Bio_Laws\<close>, \<open>Bio_Iface\<close> (locale \<open>block_cache\<close>): the cache refines an abstract disk.
  \<^item> \<open>Log\<close>, \<open>Log_Thms\<close>, \<open>Log_Crash\<close>, \<open>Log_Ops\<close>, \<open>Log_End\<close>: \<open>log.c\<close>.  \<open>Tx\<close> (locale \<open>transaction\<close>): what
    \<open>fs.c\<close> relies on inside a transaction.
  \<^item> \<open>Fs\<close>, \<open>Dir\<close>: \<open>fs.c\<close>; \<open>Fs_Thms\<close>, \<open>Dinode_Thms\<close>, \<open>Inode_Thms\<close>, \<open>Write_Thms\<close>: blocks, inodes, contents.
    \<open>File\<close>, \<open>File_Thms\<close>, \<open>Pipe_Thms\<close>: \<open>file.c\<close>, \<open>pipe.c\<close>.
  \<^item> \<open>Console\<close>, \<open>Kbd\<close>: \<open>console.c\<close>, \<open>uart.c\<close>, \<open>kbd.c\<close>, the listings of \<open>proc.c\<close>.  \<open>Exec\<close>, \<open>Args_Thms\<close>:
    \<open>exec.c\<close> and the arguments of \<open>syscall.c\<close>.  \<open>Sysfile\<close>, \<open>Sysproc\<close>: \<open>sysfile.c\<close>, \<open>sysproc.c\<close>, the
    dispatcher of \<open>syscall.c\<close>, \<open>trap.c\<close>, the clock of \<open>lapic.c\<close>.
  \<^item> \<open>Ulib\<close>, \<open>Ulib_Thms\<close>: \<open>ulib.c\<close>, \<open>printf.c\<close>.  \<open>Grep\<close>: \<open>grep.c\<close>.  \<open>Sh\<close>, \<open>Sh_Thms\<close>, \<open>Sh_Round\<close>, \<open>Sh_Line\<close>:
    the parser of \<open>sh.c\<close>.  \<open>Sh_Run\<close>: \<open>runcmd\<close>, the built-in commands and \<open>main\<close> of \<open>sh.c\<close>.
  \<^item> \<open>Demo\<close>, \<open>Demo_Sys\<close>: concrete states for the instances.  The \<open>Props\<close> theories hold the properties.

  \<^bold>\<open>What is proved.\<close>
  \<^item> \<open>Spinlock\<close>, \<open>Str\<close>, \<open>Props_Kernel\<close>: mutual exclusion, for steps that add up to
    \<open>acquire\<close> and \<open>release\<close>; \<open>memmove\<close> with overlap; the page allocator
    gives out and takes back pages; \<open>mappages\<close>; the process lists refine sequences; \<open>wakeup\<close> on
    the sleeping list equals the scan of the table; \<open>kill\<close>.
  \<^item> \<open>Props_Sched\<close>, \<open>Props_Life\<close>: in every reachable state of the machine of CPUs each process is
    RUNNING on at most one CPU and on the list of its state, and no action panics or blocks;
    the choice of the scheduler with and without a promotion, promotion, demotion, \<open>setpriority\<close>, the table at boot,
    \<open>allocproc\<close>, \<open>exit\<close>, \<open>freevm\<close>, and \<open>wait\<close> up to the pages of the child it reaps.
  \<^item> \<open>Props_Disk\<close>: the cache shows the disk; a commit is atomic under a crash at any sector write;
    a transaction is durable.  \<open>Props_Fs\<close>, \<open>Props_Files\<close>: block allocation, inodes, \<open>readi\<close>, \<open>writei\<close>
    and \<open>filewrite\<close> against the content of the inode; pipes are queues; reference counts of files;
    \<open>pipealloc\<close> succeeds or leaves everything as it was.
  \<^item> \<open>Props_Sys\<close>: the argument checks accept exactly what lies inside the process; only the gate
    of system calls is open to user mode.
  \<^item> \<open>Props_User\<close>: numbers as text; \<open>grep\<close> against the meaning of patterns; the shell parses what is
    typed and starts its programs with the right descriptors.

  \<^bold>\<open>Bounds.\<close>
  The mutually recursive parser of the shell takes a depth, \<open>4 * length b + 4\<close> for a line \<open>b\<close>; between
  two tokens it descends through at most four procedures, and \<open>parser_returns\<close> shows that the
  depth is never used up.  The loop of the shell that opens the console takes four turns at
  most (\<open>run_open_console\<close>).  \<open>writei\<close> and \<open>filewrite\<close> are treated for blocks that are allocated.
  The properties of \<open>freevm\<close> and \<open>wait\<close> take the pages of an address space to be its own: kernel
  pages, all different, none of them free.
  The calls made by a command of the shell are taken to succeed when its descriptors are
  computed.

  \<^bold>\<open>Not modelled.\<close>
  The boot loader, \<open>swtch.S\<close>, \<open>trapasm.S\<close> and the other assembly (their effect is the boundary of
  the two halves of an operation); \<open>main.c\<close>, which calls the initialisations in sequence and
  starts the other processors; \<open>mp.c\<close>, \<open>picirq.c\<close> and the register programming of \<open>lapic.c\<close>;
  \<open>memide.c\<close>, which is not linked; \<open>umalloc.c\<close>, \<open>stat\<close> of \<open>ulib.c\<close> and \<open>main\<close> of \<open>grep.c\<close>; the other user
  programs, which are short clients of the system calls, the tests, and \<open>mkfs.c\<close>, which runs on
  the host.  The hardware is sequentially consistent, and a sequential run has no other CPU: the
  interleavings are those of \<open>Spinlock\<close> and \<open>Proc_Machine\<close>.  The project variants that the Makefile
  does not build are not part of the model.
\<close>

end
